(* ===== verification/Prelude.thy ===== *)
theory Prelude
  imports Main "HOL-Library.Word" "HOL-Library.Char_ord" "HOL-Library.List_Lexorder"
begin

unbundle bit_operations_syntax

text \<open>
  What the components share: fixed-width integers with the saturating and checked operations
  of Rust's standard library, results with the propagation of the question-mark operator,
  comparators with \<open>then_with\<close>, and the first-minimum rule of \<open>Iterator::min_by\<close>.
  Machine words keep their width (\<open>u64\<close>, \<open>u32\<close>); signed 64-bit values are
  \<open>int\<close> with the two's-complement wrap written out (\<open>wrap_i64\<close>).
\<close>

named_theorems u64_simps \<open>saturating and checked word arithmetic\<close>
named_theorems result_simps \<open>inversion of results built with the question-mark operator\<close>

type_synonym u64 = "64 word"
type_synonym u32 = "32 word"

section \<open>Word arithmetic\<close>

definition saturating_add :: "'a::len word \<Rightarrow> 'a word \<Rightarrow> 'a word" where
  "saturating_add a b = (if unat a + unat b < 2 ^ LENGTH('a) then a + b else - 1)"

definition saturating_mul :: "'a::len word \<Rightarrow> 'a word \<Rightarrow> 'a word" where
  "saturating_mul a b = (if unat a * unat b < 2 ^ LENGTH('a) then a * b else - 1)"

definition saturating_sub :: "'a::len word \<Rightarrow> 'a word \<Rightarrow> 'a word" where
  "saturating_sub a b = (if b \<le> a then a - b else 0)"

definition checked_add :: "'a::len word \<Rightarrow> 'a word \<Rightarrow> 'a word option" where
  "checked_add a b = (if unat a + unat b < 2 ^ LENGTH('a) then Some (a + b) else None)"

definition checked_sub :: "'a::len word \<Rightarrow> 'a word \<Rightarrow> 'a word option" where
  "checked_sub a b = (if b \<le> a then Some (a - b) else None)"

definition checked_mul :: "'a::len word \<Rightarrow> 'a word \<Rightarrow> 'a word option" where
  "checked_mul a b = (if unat a * unat b < 2 ^ LENGTH('a) then Some (a * b) else None)"

lemma unat_max_word: "unat (- 1 :: 'a::len word) = 2 ^ LENGTH('a) - 1"
  by (simp add: unsigned_minus_1_eq_mask mask_eq_exp_minus_1)

lemma unat_saturating_add [u64_simps]:
  "unat (saturating_add a b) = min (unat a + unat b) (2 ^ LENGTH('a) - 1)" for a b :: "'a::len word"
  by (auto simp: saturating_add_def unat_max_word unat_word_ariths min_def)

lemma unat_saturating_mul [u64_simps]:
  "unat (saturating_mul a b) = min (unat a * unat b) (2 ^ LENGTH('a) - 1)" for a b :: "'a::len word"
proof (cases "unat a * unat b < 2 ^ LENGTH('a)")
  case True
  then show ?thesis by (simp add: saturating_mul_def unat_word_ariths)
next
  case False
  then show ?thesis by (simp add: saturating_mul_def unat_max_word)
qed

lemma unat_saturating_sub [u64_simps]:
  "unat (saturating_sub a b) = unat a - unat b" for a b :: "'a::len word"
  by (auto simp: saturating_sub_def unat_sub word_le_nat_alt)

lemma saturating_add_ge: "a \<le> saturating_add a b" for a b :: "'a::len word"
  proof -
  have "unat a < 2 ^ LENGTH('a)" by (rule unsigned_less)
  then have "unat a \<le> 2 ^ LENGTH('a) - 1" by linarith
  then show ?thesis by (simp add: word_le_nat_alt u64_simps)
qed

lemma saturating_add_mono: "b \<le> c \<Longrightarrow> saturating_add a b \<le> saturating_add a c" for a b c :: "'a::len word"
  by (auto simp: word_le_nat_alt u64_simps)

lemma checked_add_eq_Some [u64_simps]:
  "checked_add a b = Some c \<longleftrightarrow> unat a + unat b < 2 ^ LENGTH('a) \<and> c = a + b"
  for a b c :: "'a::len word"
  by (auto simp: checked_add_def)

lemma checked_add_eq_None [u64_simps]:
  "checked_add a b = None \<longleftrightarrow> 2 ^ LENGTH('a) \<le> unat a + unat b" for a b :: "'a::len word"
  by (auto simp: checked_add_def)

lemma checked_add_unat: "checked_add a b = Some c \<Longrightarrow> unat c = unat a + unat b"
  for a b c :: "'a::len word"
  by (auto simp: checked_add_def unat_word_ariths split: if_splits)

lemma checked_mul_unat: "checked_mul a b = Some c \<Longrightarrow> unat c = unat a * unat b"
  for a b c :: "'a::len word"
  by (auto simp: checked_mul_def unat_word_ariths split: if_splits)

lemma checked_sub_unat: "checked_sub a b = Some c \<Longrightarrow> unat c = unat a - unat b \<and> unat b \<le> unat a"
  for a b c :: "'a::len word"
  by (auto simp: checked_sub_def unat_sub word_le_nat_alt split: if_splits)

text \<open>The release build's \<open>i64\<close> subtraction, with its wrap.\<close>

definition wrap_i64 :: "int \<Rightarrow> int" where
  "wrap_i64 x = (x + 2 ^ 63) mod 2 ^ 64 - 2 ^ 63"

definition i64_range :: "int \<Rightarrow> bool" where
  "i64_range x \<longleftrightarrow> - (2 ^ 63) \<le> x \<and> x < 2 ^ 63"

lemma wrap_i64_id: "i64_range x \<Longrightarrow> wrap_i64 x = x"
  by (simp add: wrap_i64_def i64_range_def)

lemma wrap_i64_range: "i64_range (wrap_i64 x)"
  using pos_mod_bound [of "2 ^ 64" "x + 2 ^ 63"] pos_mod_sign [of "2 ^ 64" "x + 2 ^ 63"]
  by (simp add: wrap_i64_def i64_range_def)

section \<open>Results\<close>

text \<open>\<open>Inl e\<close> is \<open>Err(e)\<close> and \<open>Inr x\<close> is \<open>Ok(x)\<close>.\<close>

fun bind_result :: "'e + 'a \<Rightarrow> ('a \<Rightarrow> 'e + 'b) \<Rightarrow> 'e + 'b" where
  "bind_result (Inl e) f = Inl e"
| "bind_result (Inr x) f = f x"

definition ok_or :: "'e \<Rightarrow> 'a option \<Rightarrow> 'e + 'a" where
  "ok_or e opt = (case opt of None \<Rightarrow> Inl e | Some x \<Rightarrow> Inr x)"

fun is_ok :: "'e + 'a \<Rightarrow> bool" where
  "is_ok (Inl e) = False"
| "is_ok (Inr x) = True"

lemma bind_result_eq_Inr [result_simps]:
  "bind_result r f = Inr y \<longleftrightarrow> (\<exists>x. r = Inr x \<and> f x = Inr y)"
  by (cases r) auto

lemma bind_result_eq_Inl [result_simps]:
  "bind_result r f = Inl e \<longleftrightarrow> r = Inl e \<or> (\<exists>x. r = Inr x \<and> f x = Inl e)"
  by (cases r) auto

lemma ok_or_eq_Inr [result_simps]: "ok_or e opt = Inr x \<longleftrightarrow> opt = Some x"
  by (auto simp: ok_or_def split: option.splits)

lemma ok_or_eq_Inl [result_simps]: "ok_or e opt = Inl e' \<longleftrightarrow> opt = None \<and> e' = e"
  by (auto simp: ok_or_def split: option.splits)

lemma is_ok_iff: "is_ok r \<longleftrightarrow> (\<exists>x. r = Inr x)"
  by (cases r) auto

lemma bind_result_cong [fundef_cong]:
  "r = r' \<Longrightarrow> (\<And>x. r' = Inr x \<Longrightarrow> f x = g x) \<Longrightarrow> bind_result r f = bind_result r' g"
  by (cases r') auto

section \<open>Comparators and the first minimum\<close>

datatype ordering = Less | Equal | Greater

fun reverse_ordering :: "ordering \<Rightarrow> ordering" where
  "reverse_ordering Less = Greater"
| "reverse_ordering Equal = Equal"
| "reverse_ordering Greater = Less"

fun then_with :: "ordering \<Rightarrow> ordering \<Rightarrow> ordering" where
  "then_with Equal o2 = o2"
| "then_with Less o2 = Less"
| "then_with Greater o2 = Greater"

definition cmp_of :: "'a::linorder \<Rightarrow> 'a \<Rightarrow> ordering" where
  "cmp_of x y = (if x < y then Less else if y < x then Greater else Equal)"

text \<open>\<open>Iterator::min_by\<close>: a later element replaces the minimum only when it is strictly smaller.\<close>

definition min_by :: "('a \<Rightarrow> 'a \<Rightarrow> ordering) \<Rightarrow> 'a list \<Rightarrow> 'a option" where
  "min_by cmp xs = (case xs of [] \<Rightarrow> None
     | y # ys \<Rightarrow> Some (foldl (\<lambda>m z. if cmp m z = Greater then z else m) y ys))"

lemma min_by_eq_None [simp]: "min_by cmp xs = None \<longleftrightarrow> xs = []"
  by (auto simp: min_by_def split: list.splits)

lemma foldl_min_by_in: "foldl (\<lambda>m z. if cmp m z = Greater then z else m) y ys \<in> insert y (set ys)"
proof (induction ys arbitrary: y)
  case Nil
  show ?case by simp
next
  case (Cons a ys)
  show ?case using Cons.IH [of "if cmp y a = Greater then a else y"] by (auto split: if_splits)
qed

lemma min_by_in: "min_by cmp xs = Some m \<Longrightarrow> m \<in> set xs"
  using foldl_min_by_in by (fastforce simp: min_by_def split: list.splits)

locale comparator =
  fixes cmp :: "'a \<Rightarrow> 'a \<Rightarrow> ordering"
  assumes refl: "cmp x x = Equal"
    and rev: "cmp y x = reverse_ordering (cmp x y)"
    and trans: "cmp x y \<noteq> Greater \<Longrightarrow> cmp y z \<noteq> Greater \<Longrightarrow> cmp x z \<noteq> Greater"
begin

lemma greater_flip: "cmp x y = Greater \<Longrightarrow> cmp y x = Less"
  using rev [of y x] by simp

lemma foldl_least:
  "\<forall>z \<in> insert y (set ys). cmp (foldl (\<lambda>m z. if cmp m z = Greater then z else m) y ys) z \<noteq> Greater"
proof (induction ys arbitrary: y)
  case Nil
  show ?case by (simp add: refl)
next
  case (Cons a ys)
  define m where "m = (if cmp y a = Greater then a else y)"
  have "cmp m y \<noteq> Greater" "cmp m a \<noteq> Greater"
    using greater_flip [of y a] by (auto simp: m_def refl)
  moreover have "\<forall>z \<in> insert m (set ys).
      cmp (foldl (\<lambda>m z. if cmp m z = Greater then z else m) m ys) z \<noteq> Greater"
    by (rule Cons.IH)
  ultimately have "\<forall>z \<in> {y, a} \<union> set ys.
      cmp (foldl (\<lambda>m z. if cmp m z = Greater then z else m) m ys) z \<noteq> Greater"
    using trans by blast
  then show ?case by (simp add: m_def)
qed

lemma min_by_least: "min_by cmp xs = Some m \<Longrightarrow> z \<in> set xs \<Longrightarrow> cmp m z \<noteq> Greater"
  using foldl_least by (fastforce simp: min_by_def split: list.splits)

text \<open>Where only equal elements compare equal, the minimum does not depend on the order.\<close>

lemma min_by_set_cong:
  assumes "set xs = set ys"
    and inj: "\<And>x y. x \<in> set xs \<Longrightarrow> y \<in> set xs \<Longrightarrow> cmp x y = Equal \<Longrightarrow> x = y"
  shows "min_by cmp xs = min_by cmp ys"
proof (cases "min_by cmp xs")
  case None
  with assms(1) show ?thesis by simp
next
  case (Some m)
  from min_by_in [OF Some] assms(1) have "min_by cmp ys \<noteq> None" by auto
  then obtain n where n: "min_by cmp ys = Some n" by (cases "min_by cmp ys") auto
  have in_xs: "m \<in> set xs" "n \<in> set xs" using min_by_in [OF Some] min_by_in [OF n] assms by auto
  have "cmp m n \<noteq> Greater" "cmp n m \<noteq> Greater"
    using min_by_least [OF Some in_xs(2)] min_by_least [OF n, of m] in_xs(1) assms(1) by auto
  then have "cmp m n = Equal" using rev [of m n] by (cases "cmp n m") auto
  with inj in_xs n Some show ?thesis by simp
qed

end

lemma comparator_key: "comparator (\<lambda>x y. cmp_of (f x) (f y))"
  by unfold_locales (auto simp: cmp_of_def split: if_splits)

lemma comparator_rev_key: "comparator (\<lambda>x y. cmp_of (f y) (f x))"
  by unfold_locales (auto simp: cmp_of_def split: if_splits)

lemma comparator_equal: "comparator (\<lambda>x y. Equal)"
  by unfold_locales auto

lemma comparator_then:
  assumes "comparator c" and "comparator d"
  shows "comparator (\<lambda>x y. then_with (c x y) (d x y))"
proof
  fix x y z
  note c = comparator.refl [OF assms(1)] comparator.rev [OF assms(1)] comparator.trans [OF assms(1)]
  note d = comparator.refl [OF assms(2)] comparator.rev [OF assms(2)] comparator.trans [OF assms(2)]
  show "then_with (c x x) (d x x) = Equal" by (simp add: c d)
  show "then_with (c y x) (d y x) = reverse_ordering (then_with (c x y) (d x y))"
    using c(2) [of y x] d(2) [of y x] by (cases "c x y") simp_all
  assume xy: "then_with (c x y) (d x y) \<noteq> Greater" and yz: "then_with (c y z) (d y z) \<noteq> Greater"
  have xy': "c x y \<noteq> Greater" and yz': "c y z \<noteq> Greater"
    using xy yz by (cases "c x y"; cases "c y z"; simp)+
  then have xz: "c x z \<noteq> Greater" by (rule c(3))
  show "then_with (c x z) (d x z) \<noteq> Greater"
  proof (cases "c x z = Equal")
    case True
    then have zx: "c z x \<noteq> Greater" using c(2) [of z x] by simp
    have "c y x \<noteq> Greater" using c(3) [OF yz' zx] .
    then have "c x y = Equal" using c(2) [of y x] xy' by (cases "c x y") auto
    moreover have "c z y \<noteq> Greater" using c(3) [OF zx xy'] .
    then have "c y z = Equal" using c(2) [of z y] yz' by (cases "c y z") auto
    ultimately show ?thesis using xy yz d(3) [of x y z] True by simp
  next
    case False
    with xz show ?thesis by (cases "c x z") auto
  qed
qed

section \<open>Text\<close>

text \<open>
  A Rust string is UTF-8. Identifiers and keys, which the code only compares and hashes, are their
  bytes (\<open>string\<close>); text that the code reads character by character is its list of
  code points (\<open>ustr\<close>). \<open>chars\<close> is the iterator from one to the other.
\<close>

type_synonym ustr = "nat list"

definition ascii :: "string \<Rightarrow> ustr" where
  "ascii s = map of_char s"

definition byte_len :: "nat \<Rightarrow> nat" where
  "byte_len c = (if c < 0x80 then 1 else if c < 0x800 then 2 else if c < 0x10000 then 3 else 4)"

fun chars_from :: "nat list \<Rightarrow> ustr" where
  "chars_from [] = []"
| "chars_from (a # bs) =
    (if a < 0x80 then a # chars_from bs
     else case bs of
       [] \<Rightarrow> [0xFFFD]
     | b # bs' \<Rightarrow>
       if a < 0xE0 then ((a - 0xC0) * 64 + (b - 0x80)) # chars_from bs'
       else (case bs' of
         [] \<Rightarrow> [0xFFFD]
       | c # bs'' \<Rightarrow>
         if a < 0xF0 then (((a - 0xE0) * 64 + (b - 0x80)) * 64 + (c - 0x80)) # chars_from bs''
         else (case bs'' of
           [] \<Rightarrow> [0xFFFD]
         | d # bs3 \<Rightarrow>
           ((((a - 0xF0) * 64 + (b - 0x80)) * 64 + (c - 0x80)) * 64 + (d - 0x80)) # chars_from bs3)))"

definition chars :: "string \<Rightarrow> ustr" where
  "chars s = chars_from (map of_char s)"

lemma chars_from_ascii: "list_all (\<lambda>b. b < 0x80) bs \<Longrightarrow> chars_from bs = bs"
  by (induction bs) auto

definition is_unicode_whitespace :: "nat \<Rightarrow> bool" where
  "is_unicode_whitespace c \<longleftrightarrow> 9 \<le> c \<and> c \<le> 13 \<or> c = 0x20 \<or> c = 0x85 \<or> c = 0xA0 \<or> c = 0x1680
     \<or> 0x2000 \<le> c \<and> c \<le> 0x200A \<or> c = 0x2028 \<or> c = 0x2029 \<or> c = 0x202F \<or> c = 0x205F \<or> c = 0x3000"

definition trim_matches :: "(nat \<Rightarrow> bool) \<Rightarrow> nat list \<Rightarrow> nat list" where
  "trim_matches p s = rev (dropWhile p (rev (dropWhile p s)))"

lemma dropWhile_all: "list_all p s \<Longrightarrow> dropWhile p s = []"
  by (induction s) auto

lemma dropWhile_hd: "s = [] \<or> \<not> p (hd s) \<Longrightarrow> dropWhile p s = s"
  by (cases s) auto

lemma trim_matches_all: "list_all p s \<Longrightarrow> trim_matches p s = []"
  by (simp add: trim_matches_def dropWhile_all)

lemma trim_matches_ends:
  assumes "s = [] \<or> \<not> p (hd s) \<and> \<not> p (last s)"
  shows "trim_matches p s = s"
proof -
  from assms have "dropWhile p s = s" by (auto intro: dropWhile_hd)
  moreover from assms have "dropWhile p (rev s) = rev s"
    by (intro dropWhile_hd) (auto simp: hd_rev)
  ultimately show ?thesis by (simp add: trim_matches_def)
qed

text \<open>\<open>str::trim().is_empty()\<close>.\<close>

definition is_blank :: "string \<Rightarrow> bool" where
  "is_blank s = (trim_matches is_unicode_whitespace (chars s) = [])"

definition is_ascii_digit :: "nat \<Rightarrow> bool" where
  "is_ascii_digit c \<longleftrightarrow> 48 \<le> c \<and> c \<le> 57"

definition decimal_value :: "nat list \<Rightarrow> nat" where
  "decimal_value ds = foldl (\<lambda>s d. s * 10 + (d - 48)) 0 ds"

text \<open>A decimal numeral, as \<open>format!\<close> prints a \<open>usize\<close>.\<close>

fun show_nat :: "nat \<Rightarrow> string" where
  "show_nat n = (if n < 10 then [char_of (48 + n)] else show_nat (n div 10) @ [char_of (48 + n mod 10)])"

declare show_nat.simps [simp del]

end
