(* ===== verification/F64.thy ===== *)
theory F64
  imports Prelude
begin

text \<open>
  IEEE 754 binary64 as Rust's \<open>f64\<close>, on its 64 bits. Every finite value is an integer
  multiple of the smallest positive one (two to the minus 1074), so its value is kept as that
  integer (\<open>f64_units\<close>); comparisons are on it, and arithmetic rounds the exact result to
  nearest, ties to even (\<open>round_ratio\<close>).
\<close>

type_synonym f64 = "64 word"

section \<open>Decoding\<close>

definition f64_negative :: "f64 \<Rightarrow> bool" where
  "f64_negative b = bit b 63"

definition f64_magnitude :: "f64 \<Rightarrow> nat" where
  "f64_magnitude b = unat (take_bit 63 b)"

definition f64_infinity_bits :: nat where
  "f64_infinity_bits = 2047 * 2 ^ 52"

definition f64_is_nan :: "f64 \<Rightarrow> bool" where
  "f64_is_nan b \<longleftrightarrow> f64_magnitude b > f64_infinity_bits"

definition f64_is_finite :: "f64 \<Rightarrow> bool" where
  "f64_is_finite b \<longleftrightarrow> f64_magnitude b < f64_infinity_bits"

text \<open>The value of a magnitude, in units of two to the minus 1074.\<close>

definition magnitude_units :: "nat \<Rightarrow> nat" where
  "magnitude_units m = (let e = m div 2 ^ 52; f = m mod 2 ^ 52
     in if e = 0 then f else (2 ^ 52 + f) * 2 ^ (e - 1))"

definition f64_units :: "f64 \<Rightarrow> int" where
  "f64_units b = (if f64_negative b then - int (magnitude_units (f64_magnitude b))
                  else int (magnitude_units (f64_magnitude b)))"

definition f64_zero :: f64 where
  "f64_zero = 0"

section \<open>Comparison\<close>

definition f64_ord :: "f64 \<Rightarrow> int" where
  "f64_ord b = (if f64_negative b then - int (f64_magnitude b) else int (f64_magnitude b))"

definition f64_lt :: "f64 \<Rightarrow> f64 \<Rightarrow> bool" where
  "f64_lt a b \<longleftrightarrow> \<not> f64_is_nan a \<and> \<not> f64_is_nan b \<and> f64_ord a < f64_ord b"

definition f64_le :: "f64 \<Rightarrow> f64 \<Rightarrow> bool" where
  "f64_le a b \<longleftrightarrow> \<not> f64_is_nan a \<and> \<not> f64_is_nan b \<and> f64_ord a \<le> f64_ord b"

definition f64_eq :: "f64 \<Rightarrow> f64 \<Rightarrow> bool" where
  "f64_eq a b \<longleftrightarrow> \<not> f64_is_nan a \<and> \<not> f64_is_nan b \<and> f64_ord a = f64_ord b"

lemma magnitude_units_small: "m < 2 ^ 53 \<Longrightarrow> magnitude_units m = m"
proof (cases "m < 2 ^ 52")
  case False
  assume "m < 2 ^ 53"
  with False have "m div 2 ^ 52 = 1" by (simp add: div_nat_eqI)
  moreover from this have "m mod 2 ^ 52 = m - 2 ^ 52" by (simp add: modulo_nat_def)
  ultimately show ?thesis using False by (simp add: magnitude_units_def)
qed (simp add: magnitude_units_def)

lemma magnitude_units_Suc: "magnitude_units m < magnitude_units (Suc m)"
proof -
  define e f where "e = m div 2 ^ 52" and "f = m mod 2 ^ 52"
  have m: "m = e * 2 ^ 52 + f" by (simp add: e_def f_def)
  have f: "f < 2 ^ 52" by (simp add: f_def)
  have v: "magnitude_units m = (if e = 0 then f else (2 ^ 52 + f) * 2 ^ (e - 1))"
    by (simp add: magnitude_units_def e_def f_def)
  show ?thesis
  proof (cases "Suc f = 2 ^ 52")
    case True
    then have "Suc m = Suc e * 2 ^ 52" by (simp add: m)
    then have "magnitude_units (Suc m) = 2 ^ 52 * 2 ^ e"
      by (simp only: magnitude_units_def Let_def) simp
    moreover have "(2 ^ 52 + f) * 2 ^ (e - 1) < 2 ^ 52 * 2 ^ e" if "e \<noteq> 0"
    proof -
      from that obtain d where "e = Suc d" by (cases e) auto
      with f show ?thesis by simp
    qed
    ultimately show ?thesis using f by (simp add: v)
  next
    case False
    with f have f': "Suc f < 2 ^ 52" by simp
    have "Suc m div 2 ^ 52 = e" "Suc m mod 2 ^ 52 = Suc f"
      using f' by (simp_all add: m flip: add_Suc_right)
    then have "magnitude_units (Suc m) = (if e = 0 then Suc f else (2 ^ 52 + Suc f) * 2 ^ (e - 1))"
      by (simp only: magnitude_units_def Let_def)
    then show ?thesis by (simp only: v) simp
  qed
qed

lemma magnitude_units_less: "magnitude_units m < magnitude_units n \<longleftrightarrow> m < n"
  using strict_mono_less [of magnitude_units] magnitude_units_Suc by (simp add: strict_mono_Suc_iff)

lemma magnitude_units_zero [simp]: "magnitude_units 0 = 0"
  by (simp add: magnitude_units_def)

lemma magnitude_units_inj: "magnitude_units m = magnitude_units n \<longleftrightarrow> m = n"
  using magnitude_units_less by (metis less_irrefl nat_neq_iff)

text \<open>On numbers the bit order is the order of the values.\<close>

lemma f64_ord_units_less: "f64_ord a < f64_ord b \<longleftrightarrow> f64_units a < f64_units b"
  using magnitude_units_less [of "f64_magnitude a" "f64_magnitude b"]
    magnitude_units_less [of "f64_magnitude b" "f64_magnitude a"]
    magnitude_units_less [of 0 "f64_magnitude a"] magnitude_units_less [of 0 "f64_magnitude b"]
  by (cases "f64_negative a"; cases "f64_negative b") (simp_all add: f64_ord_def f64_units_def; linarith)+

lemma f64_ord_units_eq: "f64_ord a = f64_ord b \<longleftrightarrow> f64_units a = f64_units b"
  using f64_ord_units_less [of a b] f64_ord_units_less [of b a] by (metis less_irrefl linorder_neq_iff)

section \<open>Rounding\<close>

fun bit_length :: "nat \<Rightarrow> nat" where
  "bit_length n = (if n = 0 then 0 else Suc (bit_length (n div 2)))"

declare bit_length.simps [simp del]

text \<open>
  The magnitude nearest to \<open>n / d\<close> units, ties to even; an infinity beyond the largest number.
  Adding the carry of the significand to the exponent field is what makes one sum of both enough.
\<close>

definition round_ratio :: "nat \<Rightarrow> nat \<Rightarrow> nat" where
  "round_ratio n d =
     (let k = bit_length (n div d) - 53; D = d * 2 ^ k; q = n div D; r = n mod D;
          q' = (if D < 2 * r \<or> 2 * r = D \<and> odd q then q + 1 else q)
      in min (k * 2 ^ 52 + q') f64_infinity_bits)"

definition f64_make :: "bool \<Rightarrow> nat \<Rightarrow> f64" where
  "f64_make neg m = (if neg then set_bit 63 (of_nat m) else of_nat m)"

definition f64_nan :: f64 where
  "f64_nan = of_nat (f64_infinity_bits + 2 ^ 51)"

definition f64_is_inf :: "f64 \<Rightarrow> bool" where
  "f64_is_inf b \<longleftrightarrow> f64_magnitude b = f64_infinity_bits"

section \<open>Arithmetic\<close>

definition f64_neg :: "f64 \<Rightarrow> f64" where
  "f64_neg b = flip_bit 63 b"

definition f64_add :: "f64 \<Rightarrow> f64 \<Rightarrow> f64" where
  "f64_add a b =
     (if f64_is_nan a \<or> f64_is_nan b then f64_nan
      else if f64_is_inf a then (if f64_is_inf b \<and> f64_negative a \<noteq> f64_negative b then f64_nan else a)
      else if f64_is_inf b then b
      else let u = f64_units a + f64_units b
           in if u = 0 then f64_make (f64_negative a \<and> f64_negative b) 0
              else f64_make (u < 0) (round_ratio (nat \<bar>u\<bar>) 1))"

definition f64_sub :: "f64 \<Rightarrow> f64 \<Rightarrow> f64" where
  "f64_sub a b = f64_add a (f64_neg b)"

definition f64_mul :: "f64 \<Rightarrow> f64 \<Rightarrow> f64" where
  "f64_mul a b =
     (let neg = (f64_negative a \<noteq> f64_negative b);
          ma = magnitude_units (f64_magnitude a); mb = magnitude_units (f64_magnitude b)
      in if f64_is_nan a \<or> f64_is_nan b then f64_nan
         else if f64_is_inf a \<or> f64_is_inf b
           then (if ma = 0 \<or> mb = 0 then f64_nan else f64_make neg f64_infinity_bits)
         else f64_make neg (round_ratio (ma * mb) (2 ^ 1074)))"

definition f64_div :: "f64 \<Rightarrow> f64 \<Rightarrow> f64" where
  "f64_div a b =
     (let neg = (f64_negative a \<noteq> f64_negative b);
          ma = magnitude_units (f64_magnitude a); mb = magnitude_units (f64_magnitude b)
      in if f64_is_nan a \<or> f64_is_nan b then f64_nan
         else if f64_is_inf a then (if f64_is_inf b then f64_nan else f64_make neg f64_infinity_bits)
         else if f64_is_inf b then f64_make neg 0
         else if mb = 0 then (if ma = 0 then f64_nan else f64_make neg f64_infinity_bits)
         else f64_make neg (round_ratio (ma * 2 ^ 1074) mb))"

text \<open>\<open>n as f64\<close> for an unsigned integer, and the decimal literal \<open>n / d\<close>.\<close>

definition f64_of_nat :: "nat \<Rightarrow> f64" where
  "f64_of_nat n = f64_make False (round_ratio (n * 2 ^ 1074) 1)"

definition f64_of_int :: "int \<Rightarrow> f64" where
  "f64_of_int i = (if i < 0 then f64_neg (f64_of_nat (nat (- i))) else f64_of_nat (nat i))"

definition f64_literal :: "nat \<Rightarrow> nat \<Rightarrow> f64" where
  "f64_literal n d = f64_make False (round_ratio (n * 2 ^ 1074) d)"

definition f64_sum :: "f64 list \<Rightarrow> f64" where
  "f64_sum xs = foldl f64_add (f64_neg f64_zero) xs"

text \<open>\<open>f64::min\<close> and \<open>f64::max\<close> ignore a NaN operand; \<open>f64::abs\<close> clears the sign bit.\<close>

definition f64_min :: "f64 \<Rightarrow> f64 \<Rightarrow> f64" where
  "f64_min a b = (if f64_is_nan a then b else if f64_is_nan b then a else if f64_lt b a then b else a)"

definition f64_max :: "f64 \<Rightarrow> f64 \<Rightarrow> f64" where
  "f64_max a b = (if f64_is_nan a then b else if f64_is_nan b then a else if f64_lt a b then b else a)"

definition f64_abs :: "f64 \<Rightarrow> f64" where
  "f64_abs v = of_nat (f64_magnitude v)"

lemma bit_length_eq: "2 ^ n \<le> m \<Longrightarrow> m < 2 ^ Suc n \<Longrightarrow> bit_length m = Suc n"
proof (induction n arbitrary: m)
  case 0
  then have "m = 1" by simp
  then show ?case by (simp add: bit_length.simps)
next
  case (Suc n)
  then have "bit_length (m div 2) = Suc n" by (intro Suc.IH) auto
  moreover from Suc.prems have "m \<noteq> 0" by (metis less_eq_nat.simps(1) not_less power_not_zero rel_simps(76) zero_less_numeral zero_less_power linorder_not_le le_zero_eq)
  ultimately show ?case by (subst bit_length.simps) simp
qed

lemma bit_length_bound: "m < 2 ^ n \<Longrightarrow> bit_length m \<le> n"
proof (induction n arbitrary: m)
  case 0
  then show ?case by (simp add: bit_length.simps)
next
  case (Suc n)
  then have "bit_length (m div 2) \<le> n" by (intro Suc.IH) auto
  then show ?case by (subst bit_length.simps) simp
qed

text \<open>A representable value rounds to itself.\<close>

lemma round_ratio_exact:
  assumes "m < f64_infinity_bits"
  shows "round_ratio (magnitude_units m) 1 = m"
proof (cases "m < 2 ^ 53")
  case True
  with bit_length_bound [OF True] assms show ?thesis
    by (simp add: round_ratio_def magnitude_units_small Let_def)
next
  case False
  define e f where "e = m div 2 ^ 52 - 1" and "f = m mod 2 ^ 52"
  have "2 \<le> m div 2 ^ 52" using False by (simp add: less_eq_div_iff_mult_less_eq)
  then have e: "m div 2 ^ 52 = Suc e" and m: "m = e * 2 ^ 52 + (2 ^ 52 + f)"
    using div_mult_mod_eq [of m "2 ^ 52"] by (auto simp: e_def f_def algebra_simps)
  have f: "f < 2 ^ 52" by (simp add: f_def)
  have v: "magnitude_units m = (2 ^ 52 + f) * 2 ^ e"
    unfolding magnitude_units_def Let_def e f_def [symmetric] by simp
  have "bit_length ((2 ^ 52 + f) * 2 ^ e) = Suc (52 + e)"
  proof (rule bit_length_eq)
    show "2 ^ (52 + e) \<le> (2 ^ 52 + f) * 2 ^ e" by (simp add: power_add)
    have "(2 ^ 52 + f) * 2 ^ e < 2 ^ 53 * 2 ^ e" using f by simp
    then show "(2 ^ 52 + f) * 2 ^ e < 2 ^ Suc (52 + e)" by (simp add: power_add)
  qed
  then have k: "bit_length (magnitude_units m div 1) - 53 = e" by (simp add: v)
  have q: "magnitude_units m div (1 * 2 ^ e) = 2 ^ 52 + f" "magnitude_units m mod (1 * 2 ^ e) = 0"
    by (simp_all add: v)
  have "min (e * 2 ^ 52 + (2 ^ 52 + f)) f64_infinity_bits = m" using assms m by simp
  then show ?thesis unfolding round_ratio_def Let_def k q by simp
qed

lemma magnitude_make:
  assumes "m < 2 ^ 63"
  shows "f64_magnitude (f64_make neg m) = m"
proof -
  have base: "unat (take_bit 63 (of_nat m :: f64)) = m"
    using assms by (simp only: unsigned_take_bit_eq unat_of_nat) (simp add: take_bit_nat_eq_self)
  have "take_bit 63 (set_bit 63 (of_nat m :: f64)) = take_bit 63 (of_nat m)"
    by (simp only: take_bit_set_bit_eq) simp
  with base show ?thesis by (simp only: f64_magnitude_def f64_make_def split: if_split) simp
qed

lemma round_ratio_bound: "round_ratio n d \<le> f64_infinity_bits"
  by (simp add: round_ratio_def Let_def)

lemma make_round_not_nan: "\<not> f64_is_nan (f64_make neg (round_ratio n d))"
proof -
  have "round_ratio n d < 2 ^ 63"
    using round_ratio_bound [of n d] by (simp add: f64_infinity_bits_def)
  from magnitude_make [OF this] round_ratio_bound [of n d] show ?thesis
    by (simp add: f64_is_nan_def)
qed

lemma make_zero_not_nan: "\<not> f64_is_nan (f64_make neg 0)"
  using magnitude_make [of 0 neg] by (simp add: f64_is_nan_def)

lemma finite_not_nan: "f64_is_finite a \<Longrightarrow> \<not> f64_is_nan a"
  by (simp add: f64_is_finite_def f64_is_nan_def)

lemma finite_not_inf: "f64_is_finite a \<Longrightarrow> \<not> f64_is_inf a"
  by (simp add: f64_is_finite_def f64_is_inf_def)

lemma add_finite_not_nan:
  assumes "f64_is_finite a" "f64_is_finite b"
  shows "\<not> f64_is_nan (f64_add a b)"
  unfolding f64_add_def Let_def
  using assms by (simp add: finite_not_nan finite_not_inf make_zero_not_nan make_round_not_nan)

lemma not_lt_le: "\<not> f64_is_nan a \<Longrightarrow> \<not> f64_is_nan b \<Longrightarrow> \<not> f64_lt a b \<longleftrightarrow> f64_le b a"
  by (auto simp: f64_lt_def f64_le_def)

lemma less_bit_length: "m < 2 ^ bit_length m"
proof (induction m rule: bit_length.induct)
  case (1 m)
  then show ?case by (cases "m = 0") (subst bit_length.simps; simp; linarith)+
qed

text \<open>A bound on a rounded magnitude from the bit length of the integer part.\<close>

lemma round_ratio_le: "round_ratio n d \<le> (bit_length (n div d) - 53 + 2) * 2 ^ 52"
proof -
  define k where "k = bit_length (n div d) - 53"
  note less_bit_length [of "n div d"]
  also have "2 ^ bit_length (n div d) \<le> (2::nat) ^ (53 + k)"
    by (rule power_increasing) (simp_all add: k_def)
  finally have "n div d div 2 ^ k < 2 ^ 53"
    by (simp add: less_mult_imp_div_less power_add mult.commute)
  then have "n div (d * 2 ^ k) < 2 ^ 53" by (simp add: div_mult2_eq)
  then show ?thesis unfolding round_ratio_def Let_def k_def [symmetric] by (simp add: min_def)
qed

lemma literal_finite:
  assumes "n * 2 ^ 1074 div d < 2 ^ l" and "l \<le> 2097"
  shows "f64_is_finite (f64_literal n d)"
proof -
  have "bit_length (n * 2 ^ 1074 div d) \<le> 2097"
    using bit_length_bound [OF assms(1)] assms(2) by simp
  then have "(bit_length (n * 2 ^ 1074 div d) - 53 + 2) * 2 ^ 52 < (2047::nat) * 2 ^ 52" by simp
  with round_ratio_le [of "n * 2 ^ 1074" d] have r: "round_ratio (n * 2 ^ 1074) d < f64_infinity_bits"
    unfolding f64_infinity_bits_def by (rule order.strict_trans1)
  then have "round_ratio (n * 2 ^ 1074) d < 2 ^ 63" by (simp add: f64_infinity_bits_def)
  from magnitude_make [OF this] r show ?thesis
    by (simp add: f64_is_finite_def f64_literal_def)
qed

section \<open>Evaluation\<close>

text \<open>Closed terms over numerals evaluate by \<open>simp add: f64_eval\<close>; a literal by its quotient.\<close>

lemma bit_length_numeral:
  "bit_length (numeral (num.Bit0 n)) = bit_length (numeral n) + 1"
  "bit_length (numeral (num.Bit1 n)) = bit_length (numeral n) + 1"
  "bit_length (Suc 0) = 1" "bit_length 0 = 0"
  by (subst bit_length.simps, simp)+

lemma round_ratio_quotient:
  assumes "n = d * 2 ^ k * q + r" "r < d * 2 ^ k" "2 ^ 52 \<le> q" "q < 2 ^ 53"
  shows "round_ratio n d =
    min (k * 2 ^ 52 + (if d * 2 ^ k < 2 * r \<or> 2 * r = d * 2 ^ k \<and> odd q then q + 1 else q)) f64_infinity_bits"
proof -
  have div: "n div (d * 2 ^ k) = q"
    by (rule div_nat_eqI) (use assms(1,2) in \<open>simp_all add: mult.commute\<close>)
  have "n mod (d * 2 ^ k) = r"
    using minus_mult_div_eq_mod [of n "d * 2 ^ k"] assms(1,2) by (simp add: div)
  note qr = div this
  have low: "2 ^ (52 + k) \<le> n div d"
  proof -
    have "2 ^ 52 * 2 ^ k \<le> q * 2 ^ k" using assms(3) by simp
    also have "\<dots> \<le> n div d"
      using qr(1) by (metis div_mult2_eq div_times_less_eq_dividend)
    finally show ?thesis by (simp add: power_add)
  qed
  have high: "n div d < 2 ^ Suc (52 + k)"
  proof -
    have "n div d div 2 ^ k < 2 ^ 53" using qr(1) assms(4) by (simp add: div_mult2_eq)
    then have "n div d < 2 ^ 53 * 2 ^ k" by (simp add: div_less_iff_less_mult)
    then show ?thesis by (simp add: power_add)
  qed
  have "bit_length (n div d) - 53 = k" using bit_length_eq [OF low high] by simp
  then show ?thesis unfolding round_ratio_def Let_def by (simp only: qr)
qed

text \<open>An exact sum or difference is the number itself: no search for its bit length.\<close>

lemma make_decode: "f64_make (f64_negative c) (f64_magnitude c) = c"
proof -
  have t: "of_nat (f64_magnitude c) = take_bit 63 c"
    by (simp add: f64_magnitude_def)
  have "(if bit c 63 then set_bit 63 (take_bit 63 c) else take_bit 63 c) = c"
  proof (rule bit_word_eqI)
    fix n assume "n < LENGTH(64)"
    then have "n < 63 \<or> n = 63" by auto
    then show "bit (if bit c 63 then set_bit 63 (take_bit 63 c) else take_bit 63 c) n = bit c n"
      by (auto simp: bit_take_bit_iff bit_set_bit_iff)
  qed
  then show ?thesis unfolding f64_make_def f64_negative_def t .
qed

lemma f64_add_exact:
  assumes "f64_is_finite a" "f64_is_finite b" "f64_is_finite c"
    and "f64_units a + f64_units b = f64_units c" "f64_magnitude c \<noteq> 0"
  shows "f64_add a b = c"
proof -
  have pos: "0 < magnitude_units (f64_magnitude c)"
    using magnitude_units_less [of 0 "f64_magnitude c"] assms(5) by simp
  then have u: "f64_units c \<noteq> 0" "f64_units c < 0 \<longleftrightarrow> f64_negative c"
    "nat \<bar>f64_units c\<bar> = magnitude_units (f64_magnitude c)"
    by (auto simp: f64_units_def)
  have "round_ratio (magnitude_units (f64_magnitude c)) 1 = f64_magnitude c"
    using assms(3) by (intro round_ratio_exact) (simp add: f64_is_finite_def)
  with u make_decode [of c] show ?thesis
    using assms(1,2) by (simp add: f64_add_def finite_not_nan finite_not_inf assms(4))
qed

lemma f64_sub_exact:
  assumes "f64_is_finite a" "f64_is_finite (f64_neg b)" "f64_is_finite c"
    and "f64_units a + f64_units (f64_neg b) = f64_units c" "f64_magnitude c \<noteq> 0"
  shows "f64_sub a b = c"
  unfolding f64_sub_def using assms by (rule f64_add_exact)

text \<open>Natural numbers below two to the 53 are represented exactly.\<close>

lemma of_nat_round:
  assumes "0 < n" "n < 2 ^ 53"
  obtains m where "m < f64_infinity_bits" "magnitude_units m = n * 2 ^ 1074" "round_ratio (n * 2 ^ 1074) 1 = m"
proof -
  obtain k where k: "2 ^ k \<le> n" "n < 2 ^ Suc k"
    using ex_power_ivl1 [of 2 n] assms(1) by auto
  have "k < 53" using k(1) assms(2) by (meson le_less_trans linorder_not_le power_increasing one_le_numeral order_less_le_trans nless_le)
  define s where "s = n * 2 ^ (52 - k)"
  have p: "(2::nat) ^ k * 2 ^ (52 - k) = 2 ^ 52" "(2::nat) ^ Suc k * 2 ^ (52 - k) = 2 ^ 53"
    using \<open>k < 53\<close> by (simp_all flip: power_add)
  have s: "2 ^ 52 \<le> s" "s < 2 ^ 53"
    unfolding s_def p [symmetric] using k by (intro mult_le_mono1 mult_strict_right_mono; simp)+
  define m where "m = (1023 + k) * 2 ^ 52 + (s - 2 ^ 52)"
  have m: "m div 2 ^ 52 = 1023 + k" "m mod 2 ^ 52 = s - 2 ^ 52"
  proof -
    have "s - 2 ^ 52 < 2 ^ 52" using s by simp
    then show "m div 2 ^ 52 = 1023 + k" "m mod 2 ^ 52 = s - 2 ^ 52"
      unfolding m_def by (subst div_mult_self3, simp, simp, simp only: mod_mult_self3 mod_less)
  qed
  have "magnitude_units m = s * 2 ^ (1022 + k)"
    unfolding magnitude_units_def Let_def m using s by simp
  also have "\<dots> = n * (2 ^ (52 - k) * 2 ^ (1022 + k))" by (simp only: s_def mult.assoc)
  also have "2 ^ (52 - k) * 2 ^ (1022 + k) = (2 :: nat) ^ 1074"
    using \<open>k < 53\<close> by (simp flip: power_add)
  finally have units: "magnitude_units m = n * 2 ^ 1074" .
  have "m < (1023 + k + 1) * 2 ^ 52" using s by (simp add: m_def)
  also have "\<dots> \<le> f64_infinity_bits" using \<open>k < 53\<close> by (simp add: f64_infinity_bits_def)
  finally have inf: "m < f64_infinity_bits" .
  then have "round_ratio (magnitude_units m) 1 = m" by (intro round_ratio_exact) simp
  with units inf show thesis by (intro that [of m]) simp_all
qed

lemma f64_of_nat_exact:
  assumes "n < 2 ^ 53"
  shows "f64_units (f64_of_nat n) = int n * 2 ^ 1074" "f64_is_finite (f64_of_nat n)"
    "\<not> f64_negative (f64_of_nat n)"
proof -
  have "\<exists>m. m < f64_infinity_bits \<and> magnitude_units m = n * 2 ^ 1074 \<and> f64_of_nat n = f64_make False m"
  proof (cases "n = 0")
    case True
    have "f64_of_nat 0 = f64_make False 0"
      by (simp add: f64_of_nat_def round_ratio_def bit_length.simps)
    with True show ?thesis by (intro exI [of _ 0]) (simp add: f64_infinity_bits_def)
  next
    case False
    with of_nat_round [of n] assms show ?thesis by (metis f64_of_nat_def gr0I)
  qed
  then obtain m where m: "m < f64_infinity_bits" "magnitude_units m = n * 2 ^ 1074"
    "f64_of_nat n = f64_make False m" by blast
  have mag: "f64_magnitude (f64_make False m) = m"
    using m(1) by (intro magnitude_make) (simp add: f64_infinity_bits_def)
  have "\<not> bit (of_nat m :: f64) 63"
    using m(1) by (simp add: f64_infinity_bits_def bit_of_nat_iff bit_nat_def)
  then show neg: "\<not> f64_negative (f64_of_nat n)" unfolding m(3) f64_negative_def f64_make_def by simp
  show "f64_is_finite (f64_of_nat n)" using m mag by (simp add: f64_is_finite_def)
  show "f64_units (f64_of_nat n) = int n * 2 ^ 1074"
    using neg m mag unfolding f64_units_def by simp
qed

text \<open>Sums of natural numbers are exact as long as they stay below two to the 53.\<close>

lemma f64_add_of_nat:
  assumes "a + b < 2 ^ 53"
  shows "f64_add (f64_of_nat a) (f64_of_nat b) = f64_of_nat (a + b)"
proof (cases "a + b = 0")
  case True
  have "f64_of_nat 0 = 0"
    by (simp add: f64_of_nat_def f64_make_def round_ratio_def bit_length.simps)
  with True show ?thesis
    by (simp add: f64_add_def f64_units_def f64_is_nan_def f64_is_inf_def f64_magnitude_def f64_infinity_bits_def
        f64_negative_def f64_make_def)
next
  case False
  from assms have lt: "a < 2 ^ 53" "b < 2 ^ 53" by simp_all
  note exact = f64_of_nat_exact [OF lt(1)] f64_of_nat_exact [OF lt(2)] f64_of_nat_exact [OF assms]
  have "f64_magnitude (f64_of_nat (a + b)) \<noteq> 0"
  proof
    assume "f64_magnitude (f64_of_nat (a + b)) = 0"
    then have "f64_units (f64_of_nat (a + b)) = 0" by (simp add: f64_units_def)
    with exact(7) False show False by simp
  qed
  with exact show ?thesis by (intro f64_add_exact) (simp_all add: distrib_right)
qed

lemma bit_length_lower: "0 < n \<Longrightarrow> 2 ^ (bit_length n - 1) \<le> n"
proof -
  assume "0 < n"
  then obtain k where k: "2 ^ k \<le> n" "n < 2 ^ Suc k" using ex_power_ivl1 [of 2 n] by auto
  then have "bit_length n = Suc k" by (rule bit_length_eq)
  with k show ?thesis by simp
qed

lemma bit_length_mono: "m \<le> n \<Longrightarrow> bit_length m \<le> bit_length n"
  using less_bit_length [of n] by (intro bit_length_bound) simp

text \<open>Rounding is monotone.\<close>

definition round_half_even :: "nat \<Rightarrow> nat \<Rightarrow> nat" where
  "round_half_even n D = (if D < 2 * (n mod D) \<or> 2 * (n mod D) = D \<and> odd (n div D) then n div D + 1 else n div D)"

lemma round_half_even_mono: "m \<le> n \<Longrightarrow> 0 < D \<Longrightarrow> round_half_even m D \<le> round_half_even n D"
proof -
  assume mn: "m \<le> n" and "0 < D"
  then have "m div D \<le> n div D" by (simp add: div_le_mono)
  then consider "m div D < n div D" | "m div D = n div D" by linarith
  then show ?thesis
  proof cases
    case 2
    then have "m mod D \<le> n mod D"
      using mn div_mult_mod_eq [of m D] div_mult_mod_eq [of n D] by (metis add_le_cancel_left)
    with 2 show ?thesis by (auto simp: round_half_even_def)
  qed (auto simp: round_half_even_def)
qed

lemma round_ratio_half_even:
  "round_ratio n 1 = min ((bit_length n - 53) * 2 ^ 52 + round_half_even n (2 ^ (bit_length n - 53))) f64_infinity_bits"
  by (simp add: round_ratio_def round_half_even_def Let_def)

lemma round_half_even_range:
  assumes "53 < bit_length n"
  shows "2 ^ 52 \<le> round_half_even n (2 ^ (bit_length n - 53))"
    and "round_half_even n (2 ^ (bit_length n - 53)) \<le> 2 ^ 53"
proof -
  let ?D = "2 ^ (bit_length n - 53) :: nat"
  have "0 < n" using assms by (cases n) (simp_all add: bit_length.simps)
  have "52 + (bit_length n - 53) = bit_length n - 1" "53 + (bit_length n - 53) = bit_length n"
    using assms by simp_all
  then have D: "2 ^ 52 * ?D = 2 ^ (bit_length n - 1)" "2 ^ 53 * ?D = 2 ^ bit_length n"
    unfolding power_add [symmetric] by simp_all
  have "2 ^ 52 * ?D \<le> n" unfolding D(1) using bit_length_lower [OF \<open>0 < n\<close>] by simp
  then have lo: "2 ^ 52 \<le> n div ?D" by (simp add: less_eq_div_iff_mult_less_eq)
  then show "2 ^ 52 \<le> round_half_even n ?D" by (simp add: round_half_even_def)
  have "n < 2 ^ 53 * ?D" unfolding D(2) by (rule less_bit_length)
  then have "n div ?D < 2 ^ 53" by (simp add: less_mult_imp_div_less)
  then show "round_half_even n ?D \<le> 2 ^ 53" by (simp add: round_half_even_def)
qed

lemma round_ratio_mono: "m \<le> n \<Longrightarrow> round_ratio m 1 \<le> round_ratio n 1"
proof -
  assume mn: "m \<le> n"
  let ?k = "\<lambda>n. bit_length n - 53" and ?h = "\<lambda>n. round_half_even n (2 ^ (bit_length n - 53))"
  have "?k m * 2 ^ 52 + ?h m \<le> ?k n * 2 ^ 52 + ?h n"
  proof (cases "?k m = ?k n")
    case True
    with round_half_even_mono [OF mn, of "2 ^ ?k n"] show ?thesis by simp
  next
    case False
    with bit_length_mono [OF mn] have k: "?k m < ?k n" "53 < bit_length n" by linarith+
    have "?h m \<le> 2 ^ 53"
    proof (cases "53 < bit_length m")
      case True
      then show ?thesis by (rule round_half_even_range)
    next
      case False
      then have "m < 2 ^ 53" using less_bit_length [of m] power_increasing [of "bit_length m" 53 "2::nat"] by simp
      with False show ?thesis by (simp add: round_half_even_def)
    qed
    then have "?k m * 2 ^ 52 + ?h m \<le> (?k m + 1) * 2 ^ 52 + 2 ^ 52" by simp
    also have "\<dots> \<le> ?k n * 2 ^ 52 + 2 ^ 52" using k(1) by (intro add_right_mono mult_right_mono) simp_all
    also have "\<dots> \<le> ?k n * 2 ^ 52 + ?h n" using round_half_even_range(1) [OF k(2)] by simp
    finally show ?thesis .
  qed
  then show ?thesis unfolding round_ratio_half_even by (simp add: min_le_iff_disj)
qed

lemma magnitude_neg [simp]: "f64_magnitude (f64_neg x) = f64_magnitude x"
  by (simp add: f64_magnitude_def f64_neg_def take_bit_flip_bit_eq)

lemma negative_neg [simp]: "f64_negative (f64_neg x) = (\<not> f64_negative x)"
  by (simp add: f64_negative_def f64_neg_def bit_flip_bit_iff)

lemma units_neg: "f64_units (f64_neg x) = - f64_units x"
  by (simp add: f64_units_def)

lemma magnitude_make_round: "f64_magnitude (f64_make s (round_ratio n d)) = round_ratio n d"
  using round_ratio_bound [of n d] by (intro magnitude_make) (simp add: f64_infinity_bits_def)

lemma negative_make_round: "f64_negative (f64_make s (round_ratio n d)) = s"
proof -
  have "\<not> bit (of_nat (round_ratio n d) :: f64) 63"
    using round_ratio_bound [of n d] by (simp add: f64_infinity_bits_def bit_of_nat_iff bit_nat_def)
  then show ?thesis by (simp add: f64_negative_def f64_make_def bit_set_bit_iff)
qed

lemma ord_make_round: "f64_ord (f64_make s (round_ratio n d)) = (if s then - int (round_ratio n d) else int (round_ratio n d))"
  unfolding f64_ord_def negative_make_round magnitude_make_round by (rule refl)

lemma f64_le_refl: "\<not> f64_is_nan a \<Longrightarrow> f64_le a a"
  by (simp add: f64_le_def)

text \<open>Taking away something that is not negative never makes a number greater, rounding included.\<close>

lemma f64_sub_le:
  assumes "\<not> f64_is_nan a" and b: "f64_is_finite b" "\<not> f64_negative b"
  shows "f64_le (f64_sub a b) a"
proof (cases "f64_is_inf a")
  case True
  have "\<not> f64_is_nan (f64_neg b)" "\<not> f64_is_inf (f64_neg b)"
    using b(1) by (auto simp: f64_is_finite_def f64_is_nan_def f64_is_inf_def)
  with True assms(1) show ?thesis by (simp add: f64_sub_def f64_add_def f64_le_refl)
next
  case False
  let ?u = "f64_units a - f64_units b"
  have fin: "f64_magnitude a < f64_infinity_bits" using assms(1) False
    by (simp add: f64_is_nan_def f64_is_inf_def)
  have ub: "0 \<le> f64_units b" using b(2) by (simp add: f64_units_def)
  have nb: "\<not> f64_is_nan (f64_neg b)" "\<not> f64_is_inf (f64_neg b)"
    using b(1) by (auto simp: f64_is_finite_def f64_is_nan_def f64_is_inf_def)
  have sub: "f64_sub a b = (if ?u = 0 then f64_make (f64_negative a \<and> \<not> f64_negative b) 0
      else f64_make (?u < 0) (round_ratio (nat \<bar>?u\<bar>) 1))"
    using assms(1) False nb by (simp add: f64_sub_def f64_add_def units_neg Let_def)
  have exact: "round_ratio (magnitude_units (f64_magnitude a)) 1 = f64_magnitude a"
    by (rule round_ratio_exact [OF fin])
  consider "?u = 0" | "0 < ?u" | "?u < 0" by linarith
  then show ?thesis
  proof cases
    case 1
    have "round_ratio 0 1 = 0" by (simp add: round_ratio_def bit_length.simps)
    then have "f64_ord (f64_make s 0) = 0" "\<not> f64_is_nan (f64_make s 0)" for s
      using ord_make_round [of s 0 1] make_round_not_nan [of s 0 1] by simp_all
    then have ord: "f64_ord (f64_sub a b) = 0" "\<not> f64_is_nan (f64_sub a b)"
      unfolding sub if_P [OF 1] by simp_all
    have "0 \<le> f64_units a" using 1 ub by simp
    then have "0 \<le> f64_ord a"
      using magnitude_units_less [of 0 "f64_magnitude a"] by (auto simp: f64_units_def f64_ord_def split: if_splits)
    with ord assms(1) show ?thesis by (simp add: f64_le_def)
  next
    case 2
    then have pos: "0 < f64_units a" using ub by simp
    then have na: "\<not> f64_negative a" by (auto simp: f64_units_def split: if_splits)
    then have "nat \<bar>?u\<bar> \<le> magnitude_units (f64_magnitude a)" using 2 ub by (simp add: f64_units_def)
    from round_ratio_mono [OF this] have "round_ratio (nat \<bar>?u\<bar>) 1 \<le> f64_magnitude a" by (simp only: exact)
    with 2 na assms(1) show ?thesis
      by (simp add: sub f64_le_def make_round_not_nan ord_make_round f64_ord_def [of a])
  next
    case 3
    have ord: "f64_ord (f64_sub a b) = - int (round_ratio (nat \<bar>?u\<bar>) 1)" "\<not> f64_is_nan (f64_sub a b)"
      using 3 by (simp_all add: sub ord_make_round make_round_not_nan)
    show ?thesis
    proof (cases "f64_negative a")
      case True
      then have "magnitude_units (f64_magnitude a) \<le> nat \<bar>?u\<bar>" using 3 ub by (simp add: f64_units_def)
      from round_ratio_mono [OF this] have "f64_magnitude a \<le> round_ratio (nat \<bar>?u\<bar>) 1" by (simp only: exact)
      with ord True assms(1) show ?thesis by (simp add: f64_le_def f64_ord_def [of a])
    next
      case False
      with ord assms(1) show ?thesis by (simp add: f64_le_def f64_ord_def [of a])
    qed
  qed
qed

lemma round_ratio_scale: "0 < d \<Longrightarrow> round_ratio (n * d) d = round_ratio n 1"
proof -
  assume d: "0 < d"
  have div: "n * d div (d * 2 ^ k) = n div 2 ^ k" and mod: "n * d mod (d * 2 ^ k) = d * (n mod 2 ^ k)" for k
    using d by (simp_all add: mult.commute [of n d])
  have "d * 2 ^ k < 2 * (d * (n mod 2 ^ k)) \<longleftrightarrow> 2 ^ k < 2 * (n mod 2 ^ k)"
    and "2 * (d * (n mod 2 ^ k)) = d * 2 ^ k \<longleftrightarrow> 2 * (n mod 2 ^ k) = 2 ^ k" for k
    using d by (simp_all add: mult.left_commute [of 2 d])
  with d show ?thesis unfolding round_ratio_def Let_def div mod by simp
qed

lemma f64_of_nat_magnitude: "n < 2 ^ 53 \<Longrightarrow> magnitude_units (f64_magnitude (f64_of_nat n)) = n * 2 ^ 1074"
  using f64_of_nat_exact(1,3) [of n] by (simp add: f64_units_def)

lemma f64_mul_of_nat:
  assumes "a < 2 ^ 53" "b < 2 ^ 53"
  shows "f64_mul (f64_of_nat a) (f64_of_nat b) = f64_of_nat (a * b)"
proof -
  note a = f64_of_nat_exact(2,3) [OF assms(1)] f64_of_nat_magnitude [OF assms(1)]
  note b = f64_of_nat_exact(2,3) [OF assms(2)] f64_of_nat_magnitude [OF assms(2)]
  have "a * 2 ^ 1074 * (b * 2 ^ 1074) = (a * b * 2 ^ 1074) * 2 ^ 1074" by (simp only: mult_ac)
  then have "round_ratio (a * 2 ^ 1074 * (b * 2 ^ 1074)) (2 ^ 1074) = round_ratio (a * b * 2 ^ 1074) 1"
    using round_ratio_scale [of "2 ^ 1074" "a * b * 2 ^ 1074"] by (simp only: zero_less_power zero_less_numeral)
  then show ?thesis
    using a b finite_not_nan finite_not_inf by (simp only: f64_mul_def Let_def f64_of_nat_def [of "a * b"]) simp
qed

lemma f64_div_of_nat:
  assumes "a * b < 2 ^ 53" "0 < b" "b < 2 ^ 53"
  shows "f64_div (f64_of_nat (a * b)) (f64_of_nat b) = f64_of_nat a"
proof -
  note ab = f64_of_nat_exact(2,3) [OF assms(1)] f64_of_nat_magnitude [OF assms(1)]
  note b = f64_of_nat_exact(2,3) [OF assms(3)] f64_of_nat_magnitude [OF assms(3)]
  have "a * b * 2 ^ 1074 * 2 ^ 1074 = (a * 2 ^ 1074) * (b * 2 ^ 1074)" by (simp only: mult_ac)
  then have "round_ratio (a * b * 2 ^ 1074 * 2 ^ 1074) (b * 2 ^ 1074) = round_ratio (a * 2 ^ 1074) 1"
    using round_ratio_scale [of "b * 2 ^ 1074" "a * 2 ^ 1074"] assms(2) by simp
  then show ?thesis
    using ab b assms(2) finite_not_nan finite_not_inf by (simp only: f64_div_def Let_def f64_of_nat_def [of a]) simp
qed

lemma f64_of_nat_sub:
  assumes "b < a" "a < 2 ^ 53"
  shows "f64_sub (f64_of_nat a) (f64_of_nat b) = f64_of_nat (a - b)"
proof (rule f64_sub_exact)
  from assms have lt: "b < 2 ^ 53" "a - b < 2 ^ 53" by simp_all
  note exact = f64_of_nat_exact [OF assms(2)] f64_of_nat_exact [OF lt(1)] f64_of_nat_exact [OF lt(2)]
  show "f64_is_finite (f64_of_nat a)" "f64_is_finite (f64_of_nat (a - b))" by (rule exact)+
  show "f64_is_finite (f64_neg (f64_of_nat b))" using exact(5) by (simp add: f64_is_finite_def)
  show "f64_units (f64_of_nat a) + f64_units (f64_neg (f64_of_nat b)) = f64_units (f64_of_nat (a - b))"
    using assms(1) by (simp add: units_neg exact of_nat_diff left_diff_distrib)
  show "f64_magnitude (f64_of_nat (a - b)) \<noteq> 0"
  proof
    assume "f64_magnitude (f64_of_nat (a - b)) = 0"
    then have "magnitude_units (f64_magnitude (f64_of_nat (a - b))) = 0" by simp
    with f64_of_nat_magnitude [OF lt(2)] assms(1) show False by simp
  qed
qed

lemma f64_of_nat_compare:
  assumes "a < 2 ^ 53" "b < 2 ^ 53"
  shows "f64_lt (f64_of_nat a) (f64_of_nat b) \<longleftrightarrow> a < b" "f64_le (f64_of_nat a) (f64_of_nat b) \<longleftrightarrow> a \<le> b"
    "f64_eq (f64_of_nat a) (f64_of_nat b) \<longleftrightarrow> a = b"
proof -
  note exact = f64_of_nat_exact [OF assms(1)] f64_of_nat_exact [OF assms(2)]
  note nan = finite_not_nan [OF exact(2)] finite_not_nan [OF exact(5)]
  show lt: "f64_lt (f64_of_nat a) (f64_of_nat b) \<longleftrightarrow> a < b"
    by (simp add: f64_lt_def nan f64_ord_units_less exact)
  show eq: "f64_eq (f64_of_nat a) (f64_of_nat b) \<longleftrightarrow> a = b"
    by (simp add: f64_eq_def nan f64_ord_units_eq exact)
  show "f64_le (f64_of_nat a) (f64_of_nat b) \<longleftrightarrow> a \<le> b"
    using lt eq by (auto simp: f64_le_def f64_lt_def f64_eq_def nan)
qed

lemma f64_of_nat_finite: "n < 2 ^ 64 \<Longrightarrow> f64_is_finite (f64_of_nat n)"
proof -
  assume n: "n < 2 ^ 64"
  then have "n * 2 ^ 1074 < 2 ^ 64 * 2 ^ 1074" by simp
  also have "(2::nat) ^ 64 * 2 ^ 1074 = 2 ^ 1138" by (simp only: flip: power_add) simp
  finally have "bit_length (n * 2 ^ 1074) \<le> 1138" by (rule bit_length_bound)
  then have "(bit_length (n * 2 ^ 1074 div 1) - 53 + 2) * 2 ^ 52 < f64_infinity_bits"
    by (simp add: f64_infinity_bits_def)
  then have "round_ratio (n * 2 ^ 1074) 1 < f64_infinity_bits" using round_ratio_le le_less_trans by blast
  then show ?thesis by (simp only: f64_is_finite_def f64_of_nat_def magnitude_make_round)
qed

lemmas f64_eval = f64_add_def f64_sub_def f64_neg_def f64_is_nan_def f64_magnitude_def f64_infinity_bits_def
  f64_is_inf_def f64_units_def f64_negative_def magnitude_units_def round_ratio_def f64_make_def f64_ord_def
  f64_lt_def f64_le_def f64_eq_def f64_is_finite_def f64_zero_def bit_length_numeral

lemmas f64_decode = f64_units_def f64_neg_def f64_negative_def f64_magnitude_def magnitude_units_def
  f64_is_finite_def f64_infinity_bits_def f64_zero_def

lemmas f64_compare = f64_lt_def f64_le_def f64_eq_def f64_ord_def f64_is_nan_def f64_magnitude_def
  f64_negative_def f64_infinity_bits_def f64_is_finite_def f64_zero_def

end
