(* ===== verification/Json.thy ===== *)
theory Json
  imports F64
begin

text \<open>
  JSON values as \<^verbatim>\<open>serde_json::Value\<close> documents them: a number is an unsigned or negative 64-bit
  integer or an \<open>f64\<close>, an object is a map in key order. Equality is the derived one, so floats
  compare with \<open>==\<close>. Also the text helpers that the stores share.
\<close>

datatype jnum = PosInt u64 | NegInt int | Flt f64

datatype json =
    JNull
  | JBool bool
  | JNum jnum
  | JStr string
  | JArr "json list"
  | JObj "(string \<times> json) list"

type_synonym json_map = "(string \<times> json) list"

fun as_str :: "json \<Rightarrow> string option" where
  "as_str (JStr s) = Some s"
| "as_str _ = None"

fun as_bool :: "json \<Rightarrow> bool option" where
  "as_bool (JBool b) = Some b"
| "as_bool _ = None"

fun as_u64 :: "json \<Rightarrow> u64 option" where
  "as_u64 (JNum (PosInt n)) = Some n"
| "as_u64 _ = None"

fun as_array :: "json \<Rightarrow> json list option" where
  "as_array (JArr xs) = Some xs"
| "as_array _ = None"

fun as_object :: "json \<Rightarrow> json_map option" where
  "as_object (JObj m) = Some m"
| "as_object _ = None"

fun is_boolean :: "json \<Rightarrow> bool" where
  "is_boolean (JBool _) = True"
| "is_boolean _ = False"

fun as_f64 :: "json \<Rightarrow> f64 option" where
  "as_f64 (JNum (PosInt n)) = Some (f64_of_nat (unat n))"
| "as_f64 (JNum (NegInt i)) = Some (f64_of_int i)"
| "as_f64 (JNum (Flt x)) = Some x"
| "as_f64 _ = None"

fun jnum_eq :: "jnum \<Rightarrow> jnum \<Rightarrow> bool" where
  "jnum_eq (PosInt a) (PosInt b) = (a = b)"
| "jnum_eq (NegInt a) (NegInt b) = (a = b)"
| "jnum_eq (Flt a) (Flt b) = f64_eq a b"
| "jnum_eq _ _ = False"

fun json_eq :: "json \<Rightarrow> json \<Rightarrow> bool"
  and jsons_eq :: "json list \<Rightarrow> json list \<Rightarrow> bool"
  and fields_eq :: "json_map \<Rightarrow> json_map \<Rightarrow> bool" where
  "json_eq JNull JNull = True"
| "json_eq (JBool a) (JBool b) = (a = b)"
| "json_eq (JNum a) (JNum b) = jnum_eq a b"
| "json_eq (JStr a) (JStr b) = (a = b)"
| "json_eq (JArr a) (JArr b) = jsons_eq a b"
| "json_eq (JObj a) (JObj b) = fields_eq a b"
| "json_eq _ _ = False"
| "jsons_eq [] [] = True"
| "jsons_eq (a # as) (b # bs) = (json_eq a b \<and> jsons_eq as bs)"
| "jsons_eq _ _ = False"
| "fields_eq [] [] = True"
| "fields_eq ((k, a) # as) ((l, b) # bs) = (k = l \<and> json_eq a b \<and> fields_eq as bs)"
| "fields_eq _ _ = False"

section \<open>Text\<close>

text \<open>\<open>str::split(c)\<close>, \<open>char::is_control\<close>, \<open>encode_utf16().count()\<close>.\<close>

fun split_char :: "char \<Rightarrow> string \<Rightarrow> string list" where
  "split_char c [] = [[]]"
| "split_char c (x # xs) =
     (if x = c then [] # split_char c xs
      else case split_char c xs of [] \<Rightarrow> [[x]] | w # ws \<Rightarrow> (x # w) # ws)"

definition is_control :: "nat \<Rightarrow> bool" where
  "is_control c \<longleftrightarrow> c < 0x20 \<or> 0x7F \<le> c \<and> c < 0xA0"

definition utf16_len :: "string \<Rightarrow> nat" where
  "utf16_len s = sum_list (map (\<lambda>c. if c < 0x10000 then 1 else 2) (chars s))"

text \<open>\<open>str::trim\<close> on the bytes of the text: the characters kept, encoded again.\<close>

definition str_trim :: "string \<Rightarrow> string" where
  "str_trim s =
     (let n = length (chars s); m = length (dropWhile is_unicode_whitespace (chars s));
          k = length (trim_matches is_unicode_whitespace (chars s))
      in take (sum_list (map byte_len (take k (drop (n - m) (chars s)))))
           (drop (sum_list (map byte_len (take (n - m) (chars s)))) s))"

text \<open>\<open>iter().map(f).collect::<Result<Vec<_>, _>>()\<close>: the first error stops it.\<close>

fun collect_results :: "('a \<Rightarrow> 'e + 'b) \<Rightarrow> 'a list \<Rightarrow> 'e + 'b list" where
  "collect_results f [] = Inr []"
| "collect_results f (x # xs) =
     bind_result (f x) (\<lambda>y. bind_result (collect_results f xs) (\<lambda>ys. Inr (y # ys)))"

lemma collect_results_all:
  "(\<And>x. x \<in> set xs \<Longrightarrow> f x = Inr (g x)) \<Longrightarrow> collect_results f xs = Inr (map g xs)"
  by (induction xs) auto

lemma collect_results_eq_Inr [result_simps]:
  "collect_results f xs = Inr ys \<longleftrightarrow> list_all2 (\<lambda>x y. f x = Inr y) xs ys"
  by (induction xs arbitrary: ys) (auto simp: result_simps list_all2_Cons1)

lemma collect_results_error: "collect_results f xs = Inl e \<Longrightarrow> \<exists>x \<in> set xs. f x = Inl e"
  by (induction xs) (auto simp: result_simps)

lemma list_all2_source: "list_all2 p xs ys \<Longrightarrow> y \<in> set ys \<Longrightarrow> \<exists>x \<in> set xs. p x y"
  by (induction xs ys rule: list_all2_induct) auto

lemma collect_results_source:
  "collect_results f xs = Inr ys \<Longrightarrow> y \<in> set ys \<Longrightarrow> \<exists>x \<in> set xs. f x = Inr y"
  unfolding collect_results_eq_Inr by (rule list_all2_source)

end
