(* ===== verification/Contracts.thy ===== *)
theory Contracts
  imports Json
begin

text \<open>
  The contract types of \<^verbatim>\<open>crates/idoris-contracts/src\<close> that the router's decisions
  read, with their \<open>Contract::validate\<close>: shared enumerations (\<^verbatim>\<open>common.rs\<close>), provider
  descriptor, component card, load policy with its hand-written \<open>keepalive\<close> reader, task
  profile, tenant context and routing policy.
\<close>

section \<open>Errors\<close>

datatype contract_error = ContractError string

definition non_empty :: "string \<Rightarrow> bool" where
  "non_empty s \<longleftrightarrow> s \<noteq> []"

text \<open>\<open>if bad { return Err(..) }\<close> as a step of a validation.\<close>

definition require :: "bool \<Rightarrow> 'e \<Rightarrow> 'e + unit" where
  "require ok e = (if ok then Inr () else Inl e)"

lemma require_eq_Inr [result_simps]: "require ok e = Inr u \<longleftrightarrow> ok"
  by (simp add: require_def)

lemma require_eq_Inl [result_simps]: "require ok e = Inl e' \<longleftrightarrow> \<not> ok \<and> e' = e"
  by (auto simp: require_def)

section \<open>Shared enumerations\<close>

datatype capability = Chat | Reasoning | Vision | Asr | Tts | Coding | Embedding | Rerank
datatype privacy_class = LocalOnly | AnyPrivacy
datatype tier = LocalTier | RemoteTier | LoraTier
datatype complexity = Simple | Complex
datatype fallback_policy = FailClosed | NextInChain

section \<open>Provider descriptor\<close>

datatype family = IdorisFamily | ClaudeFamily | OpenaiFamily | LocalFamily | OtherFamily
datatype locality = Loopback | Lan | Remote

record cost =
  input_per_m :: f64
  output_per_m :: f64

record provider_descriptor =
  p_id :: string
  p_family :: family
  p_tier :: tier
  p_capabilities :: "capability list"
  p_privacy_class :: privacy_class
  p_cost :: cost
  p_locality :: locality
  p_extensions :: "(string \<times> json) list option"

definition validate_provider :: "provider_descriptor \<Rightarrow> contract_error + unit" where
  "validate_provider p =
     bind_result (require (non_empty (p_id p)) (ContractError ''provider.id must not be empty'')) (\<lambda>_.
     bind_result (require (p_capabilities p \<noteq> [])
       (ContractError ''provider.capabilities must have at least one entry'')) (\<lambda>_.
     bind_result (require (\<not> f64_lt (input_per_m (p_cost p)) f64_zero)
       (ContractError ''provider.cost.input_per_m must be >= 0'')) (\<lambda>_.
     require (\<not> f64_lt (output_per_m (p_cost p)) f64_zero)
       (ContractError ''provider.cost.output_per_m must be >= 0''))))"

section \<open>Load policy\<close>

datatype load_mode = Resident | OnDemand | EvictToLoad
datatype load_admission = Coexist | LoadRequiresEviction
datatype keepalive = Pinned bool | IdleTtl u32

record load_policy =
  lp_mode :: load_mode
  lp_keepalive :: keepalive
  lp_admission :: load_admission

fun keepalive_to_json :: "keepalive \<Rightarrow> json" where
  "keepalive_to_json (Pinned b) = JObj [(''pinned'', JBool b)]"
| "keepalive_to_json (IdleTtl n) = JObj [(''idle_ttl_s'', JNum (PosInt (ucast n)))]"

definition keepalive_of_json :: "json \<Rightarrow> contract_error + keepalive" where
  "keepalive_of_json v =
     bind_result (ok_or (ContractError ''keepalive must be a JSON object'') (as_object v)) (\<lambda>obj.
       case (map_of obj ''pinned'', map_of obj ''idle_ttl_s'', length obj = 1) of
         (Some p, None, True) \<Rightarrow>
           bind_result (ok_or (ContractError ''keepalive.pinned must be a boolean'') (as_bool p))
             (\<lambda>b. Inr (Pinned b))
       | (None, Some t, True) \<Rightarrow>
           bind_result (ok_or (ContractError ''keepalive.idle_ttl_s must be an integer'') (as_u64 t)) (\<lambda>n.
           bind_result (require (\<not> n < 1) (ContractError ''keepalive.idle_ttl_s must be >= 1'')) (\<lambda>_.
           if unat n < 2 ^ 32 then Inr (IdleTtl (ucast n))
           else Inl (ContractError ''keepalive.idle_ttl_s is out of range'')))
       | _ \<Rightarrow> Inl (ContractError
           ''keepalive must have exactly one of `pinned` or `idle_ttl_s`, no other keys''))"

definition validate_load_policy :: "load_policy \<Rightarrow> contract_error + unit" where
  "validate_load_policy lp = Inr ()"

section \<open>Component card\<close>

datatype form = HttpService | SpawnCli | BundledBinary | NostrNode | MitmProxy | BatchJob
datatype egress = NoEgress | LoopbackEgress | LanEgress | InternetEgress

record component_card =
  c_provider :: provider_descriptor
  c_form :: form
  c_endpoint :: string
  c_version_pin :: string
  c_privacy_class :: privacy_class
  c_allowed_egress :: "egress list"
  c_fallback_policy :: fallback_policy
  c_fail_closed :: bool
  c_load_policy :: "load_policy option"
  c_extensions :: "(string \<times> json) list option"

definition validate_component_card :: "component_card \<Rightarrow> contract_error + unit" where
  "validate_component_card c =
     bind_result (validate_provider (c_provider c)) (\<lambda>_.
     bind_result (case c_load_policy c of None \<Rightarrow> Inr () | Some lp \<Rightarrow> validate_load_policy lp) (\<lambda>_.
     bind_result (require (non_empty (c_endpoint c))
       (ContractError ''component_card.endpoint must not be empty'')) (\<lambda>_.
     bind_result (require (non_empty (c_version_pin c))
       (ContractError ''component_card.version_pin must not be empty'')) (\<lambda>_.
     require (c_allowed_egress c \<noteq> [])
       (ContractError ''component_card.allowed_egress must have at least one entry'')))))"

section \<open>Task profile\<close>

record task_profile =
  tp_privacy :: "privacy_class option"
  tp_intent :: "string option"
  tp_complexity :: "complexity option"
  tp_capabilities :: "capability list option"
  tp_fallback :: "fallback_policy option"

definition validate_task_profile :: "task_profile \<Rightarrow> contract_error + unit" where
  "validate_task_profile t =
     bind_result (require (\<forall>i \<in> set_option (tp_intent t). non_empty i)
       (ContractError ''task_profile.intent must not be empty'')) (\<lambda>_.
     require (tp_capabilities t \<noteq> Some [])
       (ContractError ''task_profile.capabilities must have at least one entry when present''))"

section \<open>Tenant context\<close>

datatype budget_scope = PaidOnly | AllScope

record budget =
  b_limit_minor :: int
  b_spent_minor :: int
  b_scope :: budget_scope

record quota =
  q_rpm :: "int option"
  q_tpm :: "int option"

record tenant_context =
  tc_tenant_id :: string
  tc_budget :: budget
  tc_billing_timezone :: string
  tc_quota :: "quota option"

definition KNOWN_IANA_TIME_ZONES :: "string list" where
  "KNOWN_IANA_TIME_ZONES =
     [''UTC'', ''Asia/Bangkok'', ''Asia/Shanghai'', ''Asia/Tokyo'', ''Asia/Singapore'', ''Europe/London'',
      ''Europe/Berlin'', ''America/New_York'', ''America/Los_Angeles'', ''Australia/Sydney'']"

definition is_iana_time_zone :: "string \<Rightarrow> bool" where
  "is_iana_time_zone v =
     (if v = [] then False
      else if take 1 (chars v) = ascii ''+'' \<or> take 1 (chars v) = ascii ''-'' \<or> take 1 (chars v) = [0x2212] then False
      else List.member KNOWN_IANA_TIME_ZONES v)"

definition validate_tenant_context :: "tenant_context \<Rightarrow> contract_error + unit" where
  "validate_tenant_context t =
     bind_result (require (\<not> is_blank (tc_tenant_id t)) (ContractError ''tenant.tenant_id must not be blank'')) (\<lambda>_.
     bind_result (require (\<not> b_limit_minor (tc_budget t) < 0)
       (ContractError ''tenant.budget.limit_minor must be >= 0'')) (\<lambda>_.
     bind_result (require (\<not> b_spent_minor (tc_budget t) < 0)
       (ContractError ''tenant.budget.spent_minor must be >= 0'')) (\<lambda>_.
     bind_result (require (non_empty (tc_billing_timezone t) \<and> is_iana_time_zone (tc_billing_timezone t))
       (ContractError ''tenant.billing_timezone must be an explicit IANA time zone name'')) (\<lambda>_.
     case tc_quota t of
       None \<Rightarrow> Inr ()
     | Some q \<Rightarrow>
         bind_result (require (\<not> (\<exists>v \<in> set_option (q_rpm q). v < 1))
           (ContractError ''tenant.quota.rpm must be >= 1'')) (\<lambda>_.
         require (\<not> (\<exists>v \<in> set_option (q_tpm q). v < 1))
           (ContractError ''tenant.quota.tpm must be >= 1''))))))"

section \<open>Routing policy\<close>

record rp_condition =
  cond_privacy :: "privacy_class option"
  cond_intent :: "string option"
  cond_complexity :: "complexity option"
  cond_capabilities :: "capability list option"

record rp_action =
  act_tiers :: "tier list option"
  act_fail_closed :: "bool option"
  act_capability :: "capability option"
  act_load :: "load_mode option"

record rp_rule =
  rule_if :: rp_condition
  rule_then :: rp_action

record routing_policy =
  rp_version :: int
  rp_rules :: "rp_rule list"
  rp_default :: rp_action

definition action_is_empty :: "rp_action \<Rightarrow> bool" where
  "action_is_empty a \<longleftrightarrow>
     act_tiers a = None \<and> act_fail_closed a = None \<and> act_capability a = None \<and> act_load a = None"

definition validate_action :: "rp_action \<Rightarrow> string \<Rightarrow> contract_error + unit" where
  "validate_action a path =
     bind_result (require (\<not> action_is_empty a)
       (ContractError (path @ '' must set at least one of tiers/fail_closed/capability/load''))) (\<lambda>_.
     require (act_tiers a \<noteq> Some []) (ContractError (path @ ''.tiers must not be empty'')))"

fun validate_rules :: "nat \<Rightarrow> rp_rule list \<Rightarrow> contract_error + unit" where
  "validate_rules i [] = Inr ()"
| "validate_rules i (r # rs) =
     bind_result (validate_action (rule_then r) (''routing_policy.rules['' @ show_nat i @ ''].then''))
       (\<lambda>_. validate_rules (Suc i) rs)"

definition validate_routing_policy :: "routing_policy \<Rightarrow> contract_error + unit" where
  "validate_routing_policy rp =
     bind_result (require (\<not> rp_version rp < 1) (ContractError ''routing_policy.version must be >= 1'')) (\<lambda>_.
     bind_result (validate_rules 0 (rp_rules rp)) (\<lambda>_.
     validate_action (rp_default rp) ''routing_policy.default''))"

lemma validate_rules_ok:
  "validate_rules i rs = Inr () \<longleftrightarrow>
     (\<forall>r \<in> set rs. \<not> action_is_empty (rule_then r) \<and> act_tiers (rule_then r) \<noteq> Some [])"
  by (induction rs arbitrary: i) (auto simp: validate_action_def result_simps)

section \<open>Properties\<close>

lemma unat_ucast_u32: "unat (ucast (n :: u32) :: u64) = unat n"
proof -
  have "unat n < 2 ^ 32" using unsigned_less [of n] by simp
  then show ?thesis by (simp add: unsigned_ucast_eq take_bit_nat_eq_self)
qed

text \<open>
  The hand-written reader of \<open>keepalive\<close> inverts the derived writer exactly on the
  values the schema allows: a value is read back from its own JSON if and only if it is not an
  idle time of zero seconds, and then as itself.
\<close>

theorem keepalive_roundtrip:
  "keepalive_of_json (keepalive_to_json k) =
     (if k = IdleTtl 0 then Inl (ContractError ''keepalive.idle_ttl_s must be >= 1'') else Inr k)"
proof (cases k)
  case (Pinned b)
  then show ?thesis by (simp add: keepalive_of_json_def ok_or_def)
next
  case (IdleTtl n)
  have lt: "unat n < 2 ^ 32" using unsigned_less [of n] by simp
  have u: "unat (ucast n :: u64) = unat n" by (rule unat_ucast_u32)
  have z: "(ucast n :: u64) < 1 \<longleftrightarrow> n = 0"
    by (simp add: word_less_nat_alt u unat_eq_0)
  have z0: "(ucast n :: u64) = 0 \<longleftrightarrow> n = 0" using u by (metis unat_eq_0)
  have inv: "(ucast (ucast n :: u64) :: u32) = n"
    by (simp add: word_unat_eq_iff unsigned_ucast_eq take_bit_word_eq_self)
  show ?thesis using lt by (simp add: keepalive_of_json_def ok_or_def require_def IdleTtl z z0 u inv)
qed

end
