(* ===== verification/Privacy.thy ===== *)
theory Privacy
  imports Contracts
begin

text \<open>
  Routing candidates (\<^verbatim>\<open>crates/idoris-policy/src/card.rs\<close>) and the privacy rules
  (\<^verbatim>\<open>privacy.rs\<close>): where a card's inference really runs, which cards are trusted
  local ones, and how content inspection combines with the declared floor. Roles
  (\<^verbatim>\<open>role.rs\<close>) are here too, since a card carries them.
\<close>

section \<open>Roles and cards\<close>

datatype role = RFast | RDaily | RDeep | RVision | REmbed | RRerank | RDecide | RAuto

definition ROLES :: "role list" where
  "ROLES = [RFast, RDaily, RDeep, RVision, REmbed, RRerank, RDecide, RAuto]"

fun role_as_str :: "role \<Rightarrow> string" where
  "role_as_str RFast = ''fast''"
| "role_as_str RDaily = ''daily''"
| "role_as_str RDeep = ''deep''"
| "role_as_str RVision = ''vision''"
| "role_as_str REmbed = ''embed''"
| "role_as_str RRerank = ''rerank''"
| "role_as_str RDecide = ''decide''"
| "role_as_str RAuto = ''auto''"

definition is_catalog_role :: "role \<Rightarrow> bool" where
  "is_catalog_role r \<longleftrightarrow> r \<noteq> RAuto"

datatype admission_status = Ready | RequiresEviction | Blocked

record card =
  component :: component_card
  roles :: "role list"
  is_experiment :: bool
  min_ram_gb :: f64
  estimated_cost_minor :: "int option"
  admission_status :: admission_status

definition card_id :: "card \<Rightarrow> string" where
  "card_id c = p_id (c_provider (component c))"

text \<open>The test fixture of \<^verbatim>\<open>card.rs\<close>: a healthy, local, free, ready card.\<close>

definition sample_card :: "string \<Rightarrow> role list \<Rightarrow> card" where
  "sample_card i rs =
     \<lparr>component = \<lparr>c_provider = \<lparr>p_id = i, p_family = IdorisFamily, p_tier = LocalTier,
          p_capabilities = [Chat], p_privacy_class = LocalOnly,
          p_cost = \<lparr>input_per_m = f64_zero, output_per_m = f64_zero\<rparr>, p_locality = Loopback,
          p_extensions = None\<rparr>,
        c_form = HttpService, c_endpoint = ''http://127.0.0.1:8740'', c_version_pin = ''0.0.0'',
        c_privacy_class = LocalOnly, c_allowed_egress = [LoopbackEgress], c_fallback_policy = FailClosed,
        c_fail_closed = True,
        c_load_policy = Some \<lparr>lp_mode = Resident, lp_keepalive = Pinned True, lp_admission = Coexist\<rparr>,
        c_extensions = None\<rparr>,
      roles = rs, is_experiment = False, min_ram_gb = f64_zero, estimated_cost_minor = Some 0,
      admission_status = Ready\<rparr>"

section \<open>Privacy\<close>

definition SUBSCRIPTION_PROVIDER_ID :: string where
  "SUBSCRIPTION_PROVIDER_ID = ''subscription''"

definition is_subscription_provider_id :: "string \<Rightarrow> bool" where
  "is_subscription_provider_id i \<longleftrightarrow> i = SUBSCRIPTION_PROVIDER_ID"

definition effective_served_locality :: "card \<Rightarrow> locality" where
  "effective_served_locality c =
     (if c_form (component c) = SpawnCli \<or> is_subscription_provider_id (card_id c) then Remote
      else p_locality (c_provider (component c)))"

definition is_local_capable :: "card \<Rightarrow> bool" where
  "is_local_capable c \<longleftrightarrow>
     effective_served_locality c = Loopback
     \<and> c_privacy_class (component c) = LocalOnly
     \<and> list_all (\<lambda>e. e = NoEgress \<or> e = LoopbackEgress) (c_allowed_egress (component c))"

fun effective_privacy :: "privacy_class \<Rightarrow> privacy_class option \<Rightarrow> privacy_class" where
  "effective_privacy floor (Some LocalOnly) = LocalOnly"
| "effective_privacy floor (Some AnyPrivacy) = floor"
| "effective_privacy floor None = floor"

section \<open>Reading \<open>idoris/<role>\<close>\<close>

definition role_from_exact :: "ustr \<Rightarrow> role option" where
  "role_from_exact s = find (\<lambda>r. ascii (role_as_str r) = s) ROLES"

datatype role_parse_error = RoleParseError (requested: ustr)

definition MAX_REQUESTED_ROLE_DISPLAY_LEN :: nat where
  "MAX_REQUESTED_ROLE_DISPLAY_LEN = 64"

text \<open>\<open>char::is_control\<close>: the Unicode category Cc.\<close>

definition is_control :: "nat \<Rightarrow> bool" where
  "is_control c \<longleftrightarrow> c \<le> 0x1F \<or> 0x7F \<le> c \<and> c \<le> 0x9F"

definition role_parse_error_new :: "ustr \<Rightarrow> role_parse_error" where
  "role_parse_error_new part =
     (let total = length part;
          shown = map (\<lambda>c. if is_control c then 0xFFFD else c) (take MAX_REQUESTED_ROLE_DISPLAY_LEN part)
      in RoleParseError (if total > MAX_REQUESTED_ROLE_DISPLAY_LEN then shown @ [0x2026] else shown))"

definition IDORIS_PREFIX :: string where
  "IDORIS_PREFIX = ''idoris/''"

definition is_ecmascript_whitespace :: "nat \<Rightarrow> bool" where
  "is_ecmascript_whitespace c \<longleftrightarrow>
     c \<in> {0x0009, 0x000A, 0x000B, 0x000C, 0x000D, 0x0020, 0x00A0, 0x1680}
     \<or> 0x2000 \<le> c \<and> c \<le> 0x200A
     \<or> c \<in> {0x2028, 0x2029, 0x202F, 0x205F, 0x3000, 0xFEFF}"

text \<open>\<open>str::get(..n)\<close>: the first \<open>n\<close> bytes, where they end on a character.\<close>

fun get_prefix :: "nat \<Rightarrow> ustr \<Rightarrow> ustr option" where
  "get_prefix 0 cs = Some []"
| "get_prefix n [] = None"
| "get_prefix n (c # cs) =
     (if byte_len c \<le> n then map_option ((#) c) (get_prefix (n - byte_len c) cs) else None)"

definition to_ascii_lowercase :: "nat \<Rightarrow> nat" where
  "to_ascii_lowercase c = (if 65 \<le> c \<and> c \<le> 90 then c + 32 else c)"

definition eq_ignore_ascii_case :: "ustr \<Rightarrow> ustr \<Rightarrow> bool" where
  "eq_ignore_ascii_case a b \<longleftrightarrow> map to_ascii_lowercase a = map to_ascii_lowercase b"

definition parse_model_role :: "ustr \<Rightarrow> role_parse_error + role option" where
  "parse_model_role model =
     (let trimmed = trim_matches is_ecmascript_whitespace model
      in case get_prefix (length IDORIS_PREFIX) trimmed of
          None \<Rightarrow> Inr None
        | Some candidate \<Rightarrow>
            if \<not> eq_ignore_ascii_case candidate (ascii IDORIS_PREFIX) then Inr None
            else
              let role_part = drop (length candidate) trimmed
              in ok_or (role_parse_error_new role_part) (map_option Some (role_from_exact role_part)))"

section \<open>Catalogue eligibility\<close>

definition is_catalog_metadata_eligible :: "bool \<Rightarrow> f64 \<Rightarrow> f64 option \<Rightarrow> bool" where
  "is_catalog_metadata_eligible expt required available =
     (if expt \<or> f64_is_nan required then False
      else case available of
          None \<Rightarrow> True
        | Some a \<Rightarrow> \<not> (f64_is_nan a \<or> f64_lt a required))"

definition is_catalog_eligible :: "card \<Rightarrow> f64 option \<Rightarrow> bool" where
  "is_catalog_eligible c ram = is_catalog_metadata_eligible (is_experiment c) (min_ram_gb c) ram"

definition is_role_metadata_eligible :: "bool \<Rightarrow> f64 \<Rightarrow> role list \<Rightarrow> role \<Rightarrow> f64 option \<Rightarrow> bool" where
  "is_role_metadata_eligible expt required rs r available \<longleftrightarrow>
     is_catalog_role r \<and> is_catalog_metadata_eligible expt required available \<and> List.member rs r"

definition is_eligible_for_role :: "card \<Rightarrow> role \<Rightarrow> f64 option \<Rightarrow> bool" where
  "is_eligible_for_role c r ram = is_role_metadata_eligible (is_experiment c) (min_ram_gb c) (roles c) r ram"

lemma eligible_for_role_catalog: "is_eligible_for_role c r ram \<Longrightarrow> is_catalog_eligible c ram"
  by (simp add: is_eligible_for_role_def is_role_metadata_eligible_def is_catalog_eligible_def)

lemma role_from_exact_as_str: "role_from_exact (ascii (role_as_str r)) = Some r"
  by (cases r) (simp_all add: role_from_exact_def ROLES_def ascii_def)

lemma role_from_exact_Some: "role_from_exact s = Some r \<longleftrightarrow> s = ascii (role_as_str r)"
proof
  assume "role_from_exact s = Some r"
  then show "s = ascii (role_as_str r)"
    unfolding role_from_exact_def by (auto simp: find_Some_iff)
qed (simp add: role_from_exact_as_str)

section \<open>Properties\<close>

text \<open>
  Content inspection can only tighten: the combined privacy is the stricter of the floor and
  the inspection's result, so a floor of \<open>local_only\<close> survives every inspection and an
  inspection of \<open>local_only\<close> overrides every floor.
\<close>

theorem effective_privacy_tightens:
  "effective_privacy floor t = (if floor = LocalOnly \<or> t = Some LocalOnly then LocalOnly else AnyPrivacy)"
  by (cases "(floor, t)" rule: effective_privacy.cases) (auto, (cases floor, auto)+)

text \<open>A role's canonical request, with any letter case in the prefix and padding around it.\<close>

lemma get_prefix_ascii: "list_all (\<lambda>c. c < 0x80) p \<Longrightarrow> get_prefix (length p) (p @ q) = Some p"
  by (induction p) (auto simp: byte_len_def)

lemma trim_padding:
  assumes "list_all p w1" "list_all p w2" and "s \<noteq> []" "\<not> p (hd s)" "\<not> p (last s)"
  shows "trim_matches p (w1 @ s @ w2) = s"
proof -
  have 1: "dropWhile p (w @ x) = x" if "list_all p w" "x = [] \<or> \<not> p (hd x)" for w x
    using that by (induction w) (auto intro: dropWhile_hd)
  have "dropWhile p (w1 @ s @ w2) = s @ w2" using assms 1 by (simp add: hd_append)
  moreover have "dropWhile p (rev w2 @ rev s) = rev s"
    using assms 1 by (simp add: hd_rev list_all_rev)
  ultimately show ?thesis by (simp add: trim_matches_def)
qed

text \<open>
  Role requests are read as specified: for white space \<open>w1\<close>, \<open>w2\<close>, a prefix
  equal to \<open>idoris/\<close> up to ASCII case and a role part without white space at its end, the
  result is the role whose name the part is exactly, and the (cleaned) error when there is none.
\<close>

theorem parse_model_role_prefixed:
  assumes "list_all is_ecmascript_whitespace w1" "list_all is_ecmascript_whitespace w2"
    and "list_all (\<lambda>c. c < 0x80) p" "eq_ignore_ascii_case p (ascii IDORIS_PREFIX)"
    and "part = [] \<or> \<not> is_ecmascript_whitespace (last part)"
  shows "(\<forall>r. parse_model_role (w1 @ p @ part @ w2) = Inr (Some r) \<longleftrightarrow> part = ascii (role_as_str r))
    \<and> (\<forall>e. parse_model_role (w1 @ p @ part @ w2) = Inl e \<longleftrightarrow>
          (\<forall>r. part \<noteq> ascii (role_as_str r)) \<and> e = role_parse_error_new part)"
proof -
  have low: "map to_ascii_lowercase p = map to_ascii_lowercase (ascii IDORIS_PREFIX)"
    using assms(4) by (simp add: eq_ignore_ascii_case_def)
  then have len: "length p = length IDORIS_PREFIX"
    by (metis ascii_def length_map)
  then have ne: "p \<noteq> []" by (auto simp: IDORIS_PREFIX_def)
  have no_ws: "\<not> is_ecmascript_whitespace c" if "c \<in> set p" for c
  proof -
    from that low have "to_ascii_lowercase c \<in> set (map to_ascii_lowercase (ascii IDORIS_PREFIX))"
      by (metis image_eqI list.set_map)
    then have "to_ascii_lowercase c \<in> {105, 100, 111, 114, 115, 47}"
      by (auto simp: ascii_def IDORIS_PREFIX_def to_ascii_lowercase_def)
    moreover from assms(3) that have "c < 0x80" by (simp add: list_all_iff)
    ultimately show ?thesis
      by (auto simp: is_ecmascript_whitespace_def to_ascii_lowercase_def split: if_splits)
  qed
  have "\<not> is_ecmascript_whitespace (hd (p @ part))" "\<not> is_ecmascript_whitespace (last (p @ part))"
    using ne no_ws assms(5) by (auto simp: last_append)
  then have trim: "trim_matches is_ecmascript_whitespace (w1 @ (p @ part) @ w2) = p @ part"
    using assms(1,2) ne by (intro trim_padding) auto
  have pre: "get_prefix (length IDORIS_PREFIX) (p @ part) = Some p"
    using get_prefix_ascii [OF assms(3)] len by simp
  have part: "parse_model_role (w1 @ p @ part @ w2)
      = ok_or (role_parse_error_new part) (map_option Some (role_from_exact part))"
    using trim pre assms(4) by (simp add: parse_model_role_def)
  show ?thesis
    unfolding part role_from_exact_Some [symmetric] by (auto simp: ok_or_def split: option.splits)
qed

theorem parse_model_role_prefixed_witness:
  "parse_model_role ([0x20] @ ascii ''IDORIS/'' @ ascii ''deep'' @ [0xFEFF]) = Inr (Some RDeep)"
  using parse_model_role_prefixed [of "[0x20]" "[0xFEFF]" "ascii ''IDORIS/''" "ascii ''deep''"]
  by (simp add: is_ecmascript_whitespace_def eq_ignore_ascii_case_def ascii_def IDORIS_PREFIX_def
      to_ascii_lowercase_def)

end
