(* ===== verification/Pipeline.thy ===== *)
theory Pipeline
  imports Privacy "HOL-Library.Multiset"
begin

text \<open>
  The decision pipeline of \<^verbatim>\<open>crates/idoris-policy/src/pipeline\<close> with the read-only budget
  view of \<^verbatim>\<open>budget.rs\<close>: privacy, role and capability, price, admission, budget,
  choice, in the source's order. The outer \<open>option\<close> of \<open>budget_stage\<close> and
  \<open>decide_selected\<close> is the panic of the two \<open>expect\<close> calls; below it is shown
  never to be \<open>None\<close>. Money is \<open>i64\<close>, with the release build's wrap in
  \<open>balance_minor\<close>; the message of a budget rejection is kept as the two numbers it prints.
\<close>

section \<open>Budget view\<close>

record budget_snapshot =
  limit_minor :: int
  spent_minor :: int
  snap_scope :: budget_scope

definition is_over :: "budget_snapshot \<Rightarrow> bool" where
  "is_over s \<longleftrightarrow> spent_minor s \<ge> limit_minor s"

definition balance_minor :: "budget_snapshot \<Rightarrow> int" where
  "balance_minor s = wrap_i64 (limit_minor s - spent_minor s)"

type_synonym budget_view = "string \<Rightarrow> budget_snapshot option"

section \<open>Requests, decisions and rejections\<close>

record request_profile =
  task :: task_profile
  req_role :: "role option"
  tenant_id :: "string option"
  content_tightening :: "privacy_class option"

record policy_ctx =
  ctx_min_ram_gb :: "f64 option"
  ctx_budget :: "budget_view option"

datatype stage = RoleCapability | Pricing | AdmissionStage

datatype reason_code =
    PrivacyLoopbackOnly
  | PrivacyTightenedByContent
  | RoleMatched role
  | RoleFallbackCapabilityOnly
  | PriceUnknownExcluded
  | BudgetWithinLimit
  | BudgetNoTenantContext
  | BudgetFallbackToFreeCandidate
  | AdmissionReady
  | AdmissionRequiresEviction

datatype degradation = RoleFallback role | BudgetFallback int

record decision =
  chosen_id :: string
  reason_codes :: "reason_code list"
  degradations :: "degradation list"

datatype topup_hint = TopupHint (hint_balance: int) (hint_cost: int)

datatype rejection =
    UnknownRole ustr
  | LocalOnlyUnavailable
  | BudgetExceeded int int topup_hint
  | NoEligibleCandidate stage

fun http_status :: "rejection \<Rightarrow> nat" where
  "http_status (UnknownRole _) = 400"
| "http_status LocalOnlyUnavailable = 503"
| "http_status (NoEligibleCandidate _) = 503"
| "http_status (BudgetExceeded _ _ _) = 402"

fun error_type :: "rejection \<Rightarrow> string" where
  "error_type (UnknownRole _) = ''unknown_role''"
| "error_type LocalOnlyUnavailable = ''local_only_unavailable''"
| "error_type (BudgetExceeded _ _ _) = ''budget_exceeded''"
| "error_type (NoEligibleCandidate _) = ''no_eligible_candidate''"

definition rejection_of_role_error :: "role_parse_error \<Rightarrow> rejection" where
  "rejection_of_role_error e = UnknownRole (requested e)"

definition is_degraded :: "decision \<Rightarrow> bool" where
  "is_degraded d \<longleftrightarrow> degradations d \<noteq> []"

definition privacy_floor :: "request_profile \<Rightarrow> privacy_class" where
  "privacy_floor req = (case tp_privacy (task req) of None \<Rightarrow> LocalOnly | Some p \<Rightarrow> p)"

definition req_effective_privacy :: "request_profile \<Rightarrow> privacy_class" where
  "req_effective_privacy req = effective_privacy (privacy_floor req) (content_tightening req)"

definition effective_capabilities :: "request_profile \<Rightarrow> capability list" where
  "effective_capabilities req = (case tp_capabilities (task req) of None \<Rightarrow> [Chat] | Some cs \<Rightarrow> cs)"

definition allow_fallback :: "request_profile \<Rightarrow> bool" where
  "allow_fallback req \<longleftrightarrow> tp_fallback (task req) = Some NextInChain"

section \<open>Choosing\<close>

fun admission_rank :: "admission_status \<Rightarrow> nat" where
  "admission_rank Ready = 0"
| "admission_rank RequiresEviction = 1"
| "admission_rank Blocked = 2"

definition has_capabilities :: "card \<Rightarrow> capability list \<Rightarrow> bool" where
  "has_capabilities c needed \<longleftrightarrow>
     list_all (\<lambda>k. List.member (p_capabilities (c_provider (component c))) k) needed"

definition cheapest_paid_cost :: "card list \<Rightarrow> int" where
  "cheapest_paid_cost paid =
     (case List.map_filter estimated_cost_minor paid of [] \<Rightarrow> 0 | v # vs \<Rightarrow> foldl min v vs)"

definition budget_topup_hint :: "budget_snapshot \<Rightarrow> int \<Rightarrow> topup_hint" where
  "budget_topup_hint s cost = TopupHint (balance_minor s) cost"

definition fnv_step :: "u64 \<Rightarrow> nat \<Rightarrow> u64" where
  "fnv_step h byte = (h XOR of_nat byte) * 0x100000001b3"

definition affinity_score :: "string \<Rightarrow> string \<Rightarrow> u64" where
  "affinity_score session candidate =
     foldl fnv_step 0xcbf29ce484222325 (map of_char session @ [0] @ map of_char candidate)"

definition cost_or_zero :: "card \<Rightarrow> int" where
  "cost_or_zero c = (case estimated_cost_minor c of None \<Rightarrow> 0 | Some v \<Rightarrow> v)"

definition pick_cmp :: "string option \<Rightarrow> string set \<Rightarrow> card \<Rightarrow> card \<Rightarrow> ordering" where
  "pick_cmp affinity ready a b =
     then_with (cmp_of (admission_rank (admission_status a)) (admission_rank (admission_status b)))
    (then_with (cmp_of (cost_or_zero a) (cost_or_zero b))
    (then_with (case affinity of
        Some _ \<Rightarrow> cmp_of (card_id a \<notin> ready) (card_id b \<notin> ready)
      | None \<Rightarrow> Equal)
    (then_with (case affinity of
        Some session \<Rightarrow> cmp_of (affinity_score session (card_id b)) (affinity_score session (card_id a))
      | None \<Rightarrow> Equal)
    (cmp_of (card_id a) (card_id b)))))"

definition pick :: "card list \<Rightarrow> string option \<Rightarrow> string set \<Rightarrow> card option" where
  "pick candidates affinity ready = min_by (pick_cmp affinity ready) candidates"

section \<open>The budget stage\<close>

definition budget_stage :: "request_profile \<Rightarrow> policy_ctx \<Rightarrow> card list \<Rightarrow> string option \<Rightarrow> string set
    \<Rightarrow> (rejection + card list \<times> reason_code list \<times> degradation option) option" where
  "budget_stage req ctx candidates affinity ready =
     (case (case (ctx_budget ctx, tenant_id req) of
         (Some view, Some tenant) \<Rightarrow> view tenant
       | _ \<Rightarrow> None) of
       None \<Rightarrow> Some (Inr (candidates, [BudgetNoTenantContext], None))
     | Some snapshot \<Rightarrow>
       (case pick candidates affinity ready of
         None \<Rightarrow> None
       | Some natural_pick \<Rightarrow>
         (let natural_cost = cost_or_zero natural_pick;
              free = filter (\<lambda>c. estimated_cost_minor c = Some 0) candidates;
              paid = filter (\<lambda>c. \<exists>v \<in> set_option (estimated_cost_minor c). v > 0) candidates
          in if snap_scope snapshot = AllScope \<and> is_over snapshot then
               (let cost = cheapest_paid_cost paid in
                Some (Inl (BudgetExceeded (balance_minor snapshot) cost (budget_topup_hint snapshot cost))))
             else
               (let this_pick_would_exceed =
                  natural_cost > 0 \<and> (is_over snapshot \<or> balance_minor snapshot < natural_cost)
                in if \<not> this_pick_would_exceed then Some (Inr (candidates, [BudgetWithinLimit], None))
                   else if allow_fallback req \<and> free \<noteq> [] then
                     Some (Inr (free, [BudgetFallbackToFreeCandidate], Some (BudgetFallback natural_cost)))
                   else Some (Inl (BudgetExceeded (balance_minor snapshot) natural_cost
                          (budget_topup_hint snapshot natural_cost)))))))"

section \<open>The pipeline\<close>

definition privacy_stage :: "request_profile \<Rightarrow> card list \<Rightarrow> rejection + card list \<times> reason_code list" where
  "privacy_stage req cards =
     (let privacy = req_effective_privacy req;
          tightened = (if privacy_floor req = AnyPrivacy \<and> privacy = LocalOnly
                       then [PrivacyTightenedByContent] else [])
      in if privacy = LocalOnly then
           (let trusted_local = filter is_local_capable cards
            in if trusted_local = [] then Inl LocalOnlyUnavailable
               else Inr (trusted_local, tightened @ [PrivacyLoopbackOnly]))
         else Inr (cards, tightened))"

definition is_capability_candidate :: "policy_ctx \<Rightarrow> capability list \<Rightarrow> card \<Rightarrow> bool" where
  "is_capability_candidate ctx needed c \<longleftrightarrow>
     is_catalog_eligible c (ctx_min_ram_gb ctx) \<and> has_capabilities c needed"

definition role_stage :: "request_profile \<Rightarrow> policy_ctx \<Rightarrow> card list
    \<Rightarrow> rejection + card list \<times> reason_code list \<times> degradation option" where
  "role_stage req ctx privacy_ok =
     (let needed = effective_capabilities req;
          role_matched = (case req_role req of
              Some r \<Rightarrow> if is_catalog_role r
                then filter (\<lambda>c. is_eligible_for_role c r (ctx_min_ram_gb ctx) \<and> has_capabilities c needed) privacy_ok
                else []
            | None \<Rightarrow> []);
          capability_only = filter (is_capability_candidate ctx needed) privacy_ok
      in if role_matched \<noteq> [] then
           Inr (role_matched, (case req_role req of Some r \<Rightarrow> [RoleMatched r] | None \<Rightarrow> []), None)
         else case req_role req of
           Some r \<Rightarrow>
             if is_catalog_role r then
               (if \<not> allow_fallback req then Inl (NoEligibleCandidate RoleCapability)
                else if capability_only = [] then Inl (NoEligibleCandidate RoleCapability)
                else Inr (capability_only, [RoleFallbackCapabilityOnly], Some (RoleFallback r)))
             else if capability_only = [] then Inl (NoEligibleCandidate RoleCapability)
             else Inr (capability_only, [], None)
         | None \<Rightarrow>
             if capability_only = [] then Inl (NoEligibleCandidate RoleCapability)
             else Inr (capability_only, [], None))"

definition price_known :: "card \<Rightarrow> bool" where
  "price_known c \<longleftrightarrow> (\<exists>v \<in> set_option (estimated_cost_minor c). v \<ge> 0)"

definition price_stage :: "card list \<Rightarrow> rejection + card list \<times> reason_code list" where
  "price_stage matched =
     (let priced = filter price_known matched
      in if priced = [] then Inl (NoEligibleCandidate Pricing)
         else Inr (priced, if length priced < length matched then [PriceUnknownExcluded] else []))"

definition admission_stage :: "card list \<Rightarrow> rejection + card list" where
  "admission_stage priced =
     (let eligible = filter (\<lambda>c. admission_status c \<noteq> Blocked) priced
      in if eligible = [] then Inl (NoEligibleCandidate AdmissionStage) else Inr eligible)"

text \<open>The four stages before the budget, with the reasons and the role degradation so far.\<close>

definition filter_stages :: "request_profile \<Rightarrow> policy_ctx \<Rightarrow> card list
    \<Rightarrow> rejection + card list \<times> reason_code list \<times> degradation option" where
  "filter_stages req ctx cards =
     bind_result (privacy_stage req cards) (\<lambda>(privacy_ok, r1).
     bind_result (role_stage req ctx privacy_ok) (\<lambda>(matched, r2, deg).
     bind_result (price_stage matched) (\<lambda>(priced, r3).
     bind_result (admission_stage priced) (\<lambda>eligible.
     Inr (eligible, r1 @ r2 @ r3, deg)))))"

definition admission_reasons :: "card list \<Rightarrow> reason_code list" where
  "admission_reasons cs =
     (if list_ex (\<lambda>c. admission_status c = RequiresEviction) cs then [AdmissionRequiresEviction] else [])
     @ (if list_ex (\<lambda>c. admission_status c = Ready) cs then [AdmissionReady] else [])"

definition option_to_list :: "'a option \<Rightarrow> 'a list" where
  "option_to_list x = (case x of None \<Rightarrow> [] | Some y \<Rightarrow> [y])"

definition decide_selected :: "request_profile \<Rightarrow> card list \<Rightarrow> policy_ctx \<Rightarrow> string option \<Rightarrow> string set
    \<Rightarrow> (rejection + decision \<times> card) option" where
  "decide_selected req cards ctx affinity ready =
     (case filter_stages req ctx cards of
       Inl e \<Rightarrow> Some (Inl e)
     | Inr (eligible, reasons, role_degradation) \<Rightarrow>
       (case budget_stage req ctx eligible affinity ready of
         None \<Rightarrow> None
       | Some (Inl e) \<Rightarrow> Some (Inl e)
       | Some (Inr (after_budget, budget_reasons, budget_degradation)) \<Rightarrow>
         (case pick after_budget affinity ready of
           None \<Rightarrow> None
         | Some chosen \<Rightarrow>
             Some (Inr (\<lparr>chosen_id = card_id chosen,
               reason_codes = reasons @ budget_reasons @ admission_reasons after_budget,
               degradations = option_to_list role_degradation @ option_to_list budget_degradation\<rparr>, chosen)))))"

definition decide_with_affinity_and_ready :: "request_profile \<Rightarrow> card list \<Rightarrow> policy_ctx \<Rightarrow> string option \<Rightarrow> string set
    \<Rightarrow> (rejection + decision) option" where
  "decide_with_affinity_and_ready req cards ctx affinity ready =
     map_option (map_sum id fst) (decide_selected req cards ctx affinity ready)"

definition decide_with_affinity :: "request_profile \<Rightarrow> card list \<Rightarrow> policy_ctx \<Rightarrow> string option
    \<Rightarrow> (rejection + decision) option" where
  "decide_with_affinity req cards ctx affinity = decide_with_affinity_and_ready req cards ctx affinity {}"

definition decide :: "request_profile \<Rightarrow> card list \<Rightarrow> policy_ctx \<Rightarrow> (rejection + decision) option" where
  "decide req cards ctx = decide_with_affinity req cards ctx None"

section \<open>Lemmas about the stages\<close>

interpretation pk: comparator "pick_cmp affinity ready" for affinity ready
  unfolding pick_cmp_def
  by (intro comparator_then comparator_key; cases affinity;
      simp add: comparator_equal comparator_key [where f = "\<lambda>c. card_id c \<notin> ready"];
      rule comparator_rev_key)

lemma then_with_not_Greater: "then_with a b \<noteq> Greater \<longleftrightarrow> a = Less \<or> a = Equal \<and> b \<noteq> Greater"
  by (cases a) auto

lemma then_with_Equal: "then_with a b = Equal \<longleftrightarrow> a = Equal \<and> b = Equal"
  by (cases a) auto

lemma cmp_of_simps [simp]:
  "cmp_of x y = Less \<longleftrightarrow> x < y" "cmp_of x y = Equal \<longleftrightarrow> x = y" "cmp_of x y = Greater \<longleftrightarrow> y < x"
  for x y :: "'a::linorder"
  by (auto simp: cmp_of_def)

lemma pick_cmp_EqualD:
  "pick_cmp affinity ready a b = Equal \<Longrightarrow> card_id a = card_id b \<and> cost_or_zero a = cost_or_zero b
     \<and> admission_rank (admission_status a) = admission_rank (admission_status b)"
  by (simp add: pick_cmp_def then_with_Equal)

text \<open>The admission rank and cost a choice minimises, whatever the tie-breaks.\<close>

definition rank_cost_le :: "card \<Rightarrow> card \<Rightarrow> bool" where
  "rank_cost_le a b \<longleftrightarrow> admission_rank (admission_status a) < admission_rank (admission_status b)
     \<or> admission_rank (admission_status a) = admission_rank (admission_status b) \<and> cost_or_zero a \<le> cost_or_zero b"

lemma pick_cmp_rank_cost: "pick_cmp affinity ready a b \<noteq> Greater \<Longrightarrow> rank_cost_le a b"
  by (auto simp: pick_cmp_def then_with_not_Greater rank_cost_le_def)

lemma admission_rank_inj: "admission_rank a = admission_rank b \<longleftrightarrow> a = b"
  by (cases a; cases b) auto

lemma rank_cost_antisym:
  "rank_cost_le a b \<Longrightarrow> rank_cost_le b a \<Longrightarrow> admission_status a = admission_status b \<and> cost_or_zero a = cost_or_zero b"
  by (auto simp: rank_cost_le_def admission_rank_inj)

lemma pick_in: "pick cs affinity ready = Some c \<Longrightarrow> c \<in> set cs"
  by (simp add: pick_def min_by_in)

lemma pick_eq_None [simp]: "pick cs affinity ready = None \<longleftrightarrow> cs = []"
  by (simp add: pick_def)

lemma pick_Nil [simp]: "pick [] affinity ready = None"
  by simp

lemma pick_least: "pick cs affinity ready = Some c \<Longrightarrow> z \<in> set cs \<Longrightarrow> rank_cost_le c z"
  unfolding pick_def by (rule pick_cmp_rank_cost) (rule pk.min_by_least)

lemma pick_rank_cost_unique:
  assumes "pick cs a1 r1 = Some c" and "pick cs a2 r2 = Some d"
  shows "admission_status c = admission_status d \<and> cost_or_zero c = cost_or_zero d"
  using pick_least [OF assms(1)] pick_least [OF assms(2)] pick_in [OF assms(1)] pick_in [OF assms(2)]
  by (intro rank_cost_antisym) blast+

text \<open>What every candidate that reaches the budget stage satisfies.\<close>

definition candidate_ok :: "request_profile \<Rightarrow> policy_ctx \<Rightarrow> card \<Rightarrow> bool" where
  "candidate_ok req ctx c \<longleftrightarrow>
     (req_effective_privacy req = LocalOnly \<longrightarrow> is_local_capable c)
     \<and> is_catalog_eligible c (ctx_min_ram_gb ctx) \<and> has_capabilities c (effective_capabilities req)
     \<and> price_known c \<and> admission_status c \<noteq> Blocked"

lemma privacy_stage_ok:
  "privacy_stage req cards = Inr (cs, rs) \<Longrightarrow>
     cs = filter (\<lambda>c. req_effective_privacy req = LocalOnly \<longrightarrow> is_local_capable c) cards"
  by (auto simp: privacy_stage_def Let_def split: if_splits)

lemma role_stage_ok:
  assumes "role_stage req ctx cs = Inr (ms, rs, deg)"
  shows "set ms \<subseteq> {c \<in> set cs. is_catalog_eligible c (ctx_min_ram_gb ctx) \<and> has_capabilities c (effective_capabilities req)}"
    and "deg = None \<Longrightarrow> req_role req = Some r \<Longrightarrow> is_catalog_role r \<Longrightarrow>
       \<forall>c \<in> set ms. is_eligible_for_role c r (ctx_min_ram_gb ctx)"
    and "deg \<noteq> None \<Longrightarrow> allow_fallback req"
  using assms eligible_for_role_catalog
  by (auto simp: role_stage_def Let_def is_capability_candidate_def split: if_splits option.splits)

lemma role_stage_exact:
  assumes "role_stage req ctx cs = Inr (ms, rs, deg)" and "req_role req = Some r" and "is_catalog_role r"
  defines "matched \<equiv> filter (\<lambda>c. is_eligible_for_role c r (ctx_min_ram_gb ctx)
      \<and> has_capabilities c (effective_capabilities req)) cs"
  shows "deg = None \<and> ms = matched \<or> deg = Some (RoleFallback r) \<and> allow_fallback req \<and> matched = []"
  using assms by (simp add: role_stage_def Let_def split: if_splits)

lemma price_stage_ok: "price_stage ms = Inr (ps, rs) \<Longrightarrow> ps = filter price_known ms"
  by (auto simp: price_stage_def Let_def split: if_splits)

lemma admission_stage_ok:
  "admission_stage ps = Inr es \<Longrightarrow> es = filter (\<lambda>c. admission_status c \<noteq> Blocked) ps \<and> es \<noteq> []"
  by (auto simp: admission_stage_def Let_def split: if_splits)

lemma filter_stagesE:
  assumes "filter_stages req ctx cards = Inr (es, rs, deg)"
  obtains cs r1 ms r2 ps r3 where "privacy_stage req cards = Inr (cs, r1)"
    "role_stage req ctx cs = Inr (ms, r2, deg)" "price_stage ms = Inr (ps, r3)"
    "admission_stage ps = Inr es" "rs = r1 @ r2 @ r3"
  using assms by (auto simp: filter_stages_def result_simps split: prod.splits)

lemma filter_stages_ok:
  assumes "filter_stages req ctx cards = Inr (es, rs, deg)"
  shows "es \<noteq> []" and "\<forall>c \<in> set es. c \<in> set cards \<and> candidate_ok req ctx c"
    and "deg = None \<Longrightarrow> req_role req = Some r \<Longrightarrow> is_catalog_role r \<Longrightarrow>
       \<forall>c \<in> set es. is_eligible_for_role c r (ctx_min_ram_gb ctx)"
    and "deg \<noteq> None \<Longrightarrow> allow_fallback req"
proof -
  from assms obtain cs r1 ms r2 ps r3 where
    p: "privacy_stage req cards = Inr (cs, r1)" and r: "role_stage req ctx cs = Inr (ms, r2, deg)"
    and pr: "price_stage ms = Inr (ps, r3)" and a: "admission_stage ps = Inr es"
    by (rule filter_stagesE)
  note st = privacy_stage_ok [OF p] role_stage_ok(1) [OF r] price_stage_ok [OF pr] admission_stage_ok [OF a]
  show "es \<noteq> []" using admission_stage_ok [OF a] by (rule conjunct2)
  show "\<forall>c \<in> set es. c \<in> set cards \<and> candidate_ok req ctx c"
    using st by (auto simp: candidate_ok_def)
  show "\<forall>c \<in> set es. is_eligible_for_role c r (ctx_min_ram_gb ctx)"
    if "deg = None" "req_role req = Some r" "is_catalog_role r"
    using role_stage_ok(2) [OF r that] st by simp
  show "allow_fallback req" if "deg \<noteq> None" by (rule role_stage_ok(3) [OF r that])
qed

text \<open>The budget stage keeps a non-empty part of its input, and its whole contract.\<close>

definition tenant_snapshot :: "request_profile \<Rightarrow> policy_ctx \<Rightarrow> budget_snapshot option" where
  "tenant_snapshot req ctx = (case (ctx_budget ctx, tenant_id req) of
      (Some view, Some tenant) \<Rightarrow> view tenant | _ \<Rightarrow> None)"

definition affordable :: "budget_snapshot \<Rightarrow> int \<Rightarrow> bool" where
  "affordable s k \<longleftrightarrow> \<not> (k > 0 \<and> (is_over s \<or> balance_minor s < k))"

definition free_cards :: "card list \<Rightarrow> card list" where
  "free_cards cs = filter (\<lambda>c. estimated_cost_minor c = Some 0) cs"

definition paid_cards :: "card list \<Rightarrow> card list" where
  "paid_cards cs = filter (\<lambda>c. \<exists>v \<in> set_option (estimated_cost_minor c). v > 0) cs"

definition exceeded :: "budget_snapshot \<Rightarrow> int \<Rightarrow> rejection" where
  "exceeded s k = BudgetExceeded (balance_minor s) k (TopupHint (balance_minor s) k)"

lemma budget_stage_alt:
  "budget_stage req ctx cs affinity ready =
     (case tenant_snapshot req ctx of
       None \<Rightarrow> Some (Inr (cs, [BudgetNoTenantContext], None))
     | Some s \<Rightarrow> (case pick cs affinity ready of
         None \<Rightarrow> None
       | Some np \<Rightarrow>
           if snap_scope s = AllScope \<and> is_over s
           then Some (Inl (exceeded s (cheapest_paid_cost (paid_cards cs))))
           else if affordable s (cost_or_zero np) then Some (Inr (cs, [BudgetWithinLimit], None))
           else if allow_fallback req \<and> free_cards cs \<noteq> [] then
             Some (Inr (free_cards cs, [BudgetFallbackToFreeCandidate], Some (BudgetFallback (cost_or_zero np))))
           else Some (Inl (exceeded s (cost_or_zero np)))))"
  unfolding budget_stage_def tenant_snapshot_def affordable_def free_cards_def paid_cards_def exceeded_def
    budget_topup_hint_def Let_def
  by (auto split: option.splits)

lemma budget_stage_total: "cs \<noteq> [] \<Longrightarrow> budget_stage req ctx cs affinity ready \<noteq> None"
  by (auto simp: budget_stage_alt split: option.splits)

lemma budget_stage_subset:
  "budget_stage req ctx cs affinity ready = Some (Inr (ds, rs, deg)) \<Longrightarrow> cs \<noteq> [] \<Longrightarrow> ds \<noteq> [] \<and> set ds \<subseteq> set cs"
  by (auto simp: budget_stage_alt free_cards_def split: option.splits if_splits)

lemma decide_selectedE:
  assumes "decide_selected req cards ctx affinity ready = Some (Inr (d, c))"
  obtains es rs deg ds bs bdeg where "filter_stages req ctx cards = Inr (es, rs, deg)"
    "budget_stage req ctx es affinity ready = Some (Inr (ds, bs, bdeg))" "pick ds affinity ready = Some c"
    "d = \<lparr>chosen_id = card_id c, reason_codes = rs @ bs @ admission_reasons ds,
          degradations = option_to_list deg @ option_to_list bdeg\<rparr>"
  using assms by (auto simp: decide_selected_def split: sum.splits option.splits prod.splits)

lemma decision_exists: "decide_selected req cards ctx affinity ready \<noteq> None"
proof (cases "filter_stages req ctx cards")
  case (Inl e)
  then show ?thesis by (simp add: decide_selected_def)
next
  case (Inr x)
  obtain es rs deg where x: "x = (es, rs, deg)" by (cases x)
  from filter_stages_ok(1) [OF Inr [unfolded x]] have ne: "es \<noteq> []" .
  from budget_stage_total [OF ne] obtain r where r: "budget_stage req ctx es affinity ready = Some r" by blast
  show ?thesis
    using budget_stage_subset [OF _ ne, of req ctx affinity ready] Inr x r
    by (auto simp: decide_selected_def split: sum.splits prod.splits option.splits)
qed

lemma chosen_candidate:
  assumes "decide_selected req cards ctx affinity ready = Some (Inr (d, c))"
  shows "c \<in> set cards \<and> chosen_id d = card_id c \<and> candidate_ok req ctx c"
  using assms
proof (rule decide_selectedE)
  fix es rs deg ds bs bdeg
  assume f: "filter_stages req ctx cards = Inr (es, rs, deg)"
    and b: "budget_stage req ctx es affinity ready = Some (Inr (ds, bs, bdeg))"
    and c: "pick ds affinity ready = Some c" and d: "d = \<lparr>chosen_id = card_id c,
      reason_codes = rs @ bs @ admission_reasons ds, degradations = option_to_list deg @ option_to_list bdeg\<rparr>"
  from budget_stage_subset [OF b filter_stages_ok(1) [OF f]] pick_in [OF c] have "c \<in> set es" by blast
  with filter_stages_ok(2) [OF f] d show ?thesis by simp
qed

text \<open>
  What the decision does with a requested catalogue role: the chosen card is eligible for it, or the
  fall back to any capable card is declared by the request, listed in the decision and forced, no
  card that passes the privacy stage and has the capabilities being eligible for the role.
\<close>

lemma chosen_role:
  assumes "decide_selected req cards ctx affinity ready = Some (Inr (d, c))"
    and r: "req_role req = Some r" "is_catalog_role r"
  shows "is_eligible_for_role c r (ctx_min_ram_gb ctx) \<and> RoleFallback r \<notin> set (degradations d)
    \<or> RoleFallback r \<in> set (degradations d) \<and> allow_fallback req
      \<and> (\<forall>x \<in> set cards. (req_effective_privacy req = LocalOnly \<longrightarrow> is_local_capable x)
           \<and> has_capabilities x (effective_capabilities req) \<longrightarrow> \<not> is_eligible_for_role x r (ctx_min_ram_gb ctx))"
  using assms(1)
proof (rule decide_selectedE)
  fix es rs deg ds bs bdeg
  assume f: "filter_stages req ctx cards = Inr (es, rs, deg)"
    and b: "budget_stage req ctx es affinity ready = Some (Inr (ds, bs, bdeg))"
    and c: "pick ds affinity ready = Some c" and d: "d = \<lparr>chosen_id = card_id c,
      reason_codes = rs @ bs @ admission_reasons ds, degradations = option_to_list deg @ option_to_list bdeg\<rparr>"
  from budget_stage_subset [OF b filter_stages_ok(1) [OF f]] pick_in [OF c] have ces: "c \<in> set es" by blast
  have bud: "RoleFallback r \<notin> set (option_to_list bdeg)"
    using b by (auto simp: budget_stage_alt option_to_list_def split: option.splits if_splits)
  from f obtain cs r1 ms r2 where p: "privacy_stage req cards = Inr (cs, r1)"
    and m: "role_stage req ctx cs = Inr (ms, r2, deg)" by (rule filter_stagesE)
  from role_stage_exact [OF m r] show ?thesis
  proof
    assume "deg = None \<and> ms = filter (\<lambda>c. is_eligible_for_role c r (ctx_min_ram_gb ctx)
      \<and> has_capabilities c (effective_capabilities req)) cs"
    with filter_stages_ok(3) [OF f _ r] ces bud show ?thesis by (simp add: d option_to_list_def)
  next
    assume a: "deg = Some (RoleFallback r) \<and> allow_fallback req
      \<and> filter (\<lambda>c. is_eligible_for_role c r (ctx_min_ram_gb ctx)
          \<and> has_capabilities c (effective_capabilities req)) cs = []"
    then have "RoleFallback r \<in> set (degradations d)" by (simp add: d option_to_list_def)
    with a show ?thesis by (auto simp: privacy_stage_ok [OF p] filter_empty_conv)
  qed
qed

section \<open>Properties\<close>

text \<open>
  The pipeline never panics: neither \<open>expect\<close> can fail, for any request, any list of
  cards (the empty one included) and any budget view, so every call returns a decision or a rejection.
\<close>

theorem decide_total: "decide_selected req cards ctx affinity ready \<noteq> None"
  by (rule decision_exists)

text \<open>
  C12. A decision is sound: the chosen card is one of the cards given, the decision carries its id,
  and it passed every stage before the budget. It is trusted local when the effective privacy is
  \<open>local_only\<close>, eligible for the catalogue and the hardware, has every needed capability,
  a known price, and is not blocked. When a catalogue role was requested it is eligible for that
  role and no role fallback is listed; or the fallback is listed, the request declared it, and no card
  allowed by the privacy and having the capabilities was eligible for the role.
\<close>

theorem decide_sound:
  assumes "decide_selected req cards ctx affinity ready = Some (Inr (d, c))"
  shows "c \<in> set cards \<and> chosen_id d = card_id c \<and> candidate_ok req ctx c
    \<and> (\<forall>r. req_role req = Some r \<and> is_catalog_role r \<longrightarrow>
         is_eligible_for_role c r (ctx_min_ram_gb ctx) \<and> RoleFallback r \<notin> set (degradations d)
         \<or> RoleFallback r \<in> set (degradations d) \<and> allow_fallback req
           \<and> (\<forall>x \<in> set cards. (req_effective_privacy req = LocalOnly \<longrightarrow> is_local_capable x)
                \<and> has_capabilities x (effective_capabilities req)
                \<longrightarrow> \<not> is_eligible_for_role x r (ctx_min_ram_gb ctx)))"
  using chosen_candidate [OF assms] chosen_role [OF assms] by blast

definition local_request :: request_profile where
  "local_request = \<lparr>task = \<lparr>tp_privacy = Some AnyPrivacy, tp_intent = None, tp_complexity = None,
     tp_capabilities = None, tp_fallback = Some NextInChain\<rparr>, req_role = None, tenant_id = Some ''t1'',
     content_tightening = Some LocalOnly\<rparr>"

definition remote_card :: "string \<Rightarrow> int \<Rightarrow> card" where
  "remote_card i k = (sample_card i [])\<lparr>estimated_cost_minor := Some k,
     component := (component (sample_card i []))\<lparr>c_privacy_class := AnyPrivacy, c_allowed_egress := [InternetEgress]\<rparr>\<rparr>"

definition tight_ctx :: policy_ctx where
  "tight_ctx = \<lparr>ctx_min_ram_gb = None,
     ctx_budget = Some (\<lambda>_. Some \<lparr>limit_minor = 100, spent_minor = 90, snap_scope = PaidOnly\<rparr>)\<rparr>"

lemmas pipeline_eval = decide_selected_def filter_stages_def privacy_stage_def role_stage_def price_stage_def
  admission_stage_def budget_stage_def pick_def min_by_def pick_cmp_def req_effective_privacy_def
  privacy_floor_def effective_capabilities_def allow_fallback_def is_capability_candidate_def
  has_capabilities_def is_catalog_eligible_def is_catalog_metadata_eligible_def price_known_def
  cost_or_zero_def is_local_capable_def effective_served_locality_def is_subscription_provider_id_def
  SUBSCRIPTION_PROVIDER_ID_def card_id_def sample_card_def f64_is_nan_def f64_magnitude_def f64_zero_def
  f64_infinity_bits_def is_over_def balance_minor_def wrap_i64_def admission_reasons_def option_to_list_def

lemma local_decision:
  "decide_selected local_request [remote_card ''a'' 50, sample_card ''b'' []] tight_ctx None {} =
     Some (Inr (\<lparr>chosen_id = ''b'', reason_codes = [PrivacyTightenedByContent, PrivacyLoopbackOnly,
        BudgetWithinLimit, AdmissionReady], degradations = []\<rparr>, sample_card ''b'' []))"
  by (simp add: pipeline_eval local_request_def remote_card_def tight_ctx_def)

lemma role_decision:
  "decide_selected (local_request\<lparr>req_role := Some RDeep\<rparr>) [sample_card ''a'' [RFast], sample_card ''b'' [RDeep]]
      tight_ctx None {} =
     Some (Inr (\<lparr>chosen_id = ''b'', reason_codes = [PrivacyTightenedByContent, PrivacyLoopbackOnly,
        RoleMatched RDeep, BudgetWithinLimit, AdmissionReady], degradations = []\<rparr>, sample_card ''b'' [RDeep]))"
  by (simp add: pipeline_eval local_request_def tight_ctx_def is_catalog_role_def is_eligible_for_role_def
      is_role_metadata_eligible_def)

theorem decide_sound_witness:
  "is_eligible_for_role (sample_card ''b'' [RDeep]) RDeep None
   \<and> candidate_ok (local_request\<lparr>req_role := Some RDeep\<rparr>) tight_ctx (sample_card ''b'' [RDeep])"
  using decide_sound [OF role_decision] by (simp add: is_catalog_role_def tight_ctx_def)

text \<open>
  C2. A \<open>local_only\<close> request never leaves the machine: when the declared privacy (missing
  counts as \<open>local_only\<close>) or the content inspection says \<open>local_only\<close>, the
  chosen card is served on loopback, is not a spawned CLI or the subscription relay, is of the privacy
  class \<open>local_only\<close>, and is allowed no LAN or internet egress. The provider's tier plays no part.
\<close>

theorem local_only_never_leaves:
  assumes "decide_selected req cards ctx affinity ready = Some (Inr (d, c))"
    and "tp_privacy (task req) \<noteq> Some AnyPrivacy \<or> content_tightening req = Some LocalOnly"
  shows "effective_served_locality c = Loopback \<and> c_form (component c) \<noteq> SpawnCli
    \<and> card_id c \<noteq> SUBSCRIPTION_PROVIDER_ID \<and> c_privacy_class (component c) = LocalOnly
    \<and> set (c_allowed_egress (component c)) \<subseteq> {NoEgress, LoopbackEgress}"
proof -
  have "req_effective_privacy req = LocalOnly"
  proof (cases "content_tightening req")
    case None
    with assms(2) show ?thesis
      by (cases "tp_privacy (task req)") (auto simp: req_effective_privacy_def privacy_floor_def, metis privacy_class.exhaust)
  next
    case (Some p)
    with assms(2) show ?thesis
      by (cases p; cases "tp_privacy (task req)")
        (auto simp: req_effective_privacy_def privacy_floor_def, metis privacy_class.exhaust)
  qed
  with chosen_candidate [OF assms(1)] have "is_local_capable c" by (simp add: candidate_ok_def)
  then show ?thesis
    by (auto simp: is_local_capable_def effective_served_locality_def is_subscription_provider_id_def
        list_all_iff split: if_splits)
qed

theorem local_only_never_leaves_witness:
  "effective_served_locality (sample_card ''b'' []) = Loopback"
  using local_only_never_leaves [OF local_decision] by (simp add: local_request_def)

text \<open>
  The budget gate holds for the card actually chosen: when the tenant has a snapshot, a
  decision costs nothing or the tenant is not over its limit and the balance covers the card's
  whole estimate; and a tenant whose scope is \<open>all\<close> gets no decision at all once over.
\<close>

theorem decide_within_budget:
  assumes "decide_selected req cards ctx affinity ready = Some (Inr (d, c))"
    and "tenant_snapshot req ctx = Some s"
  shows "(cost_or_zero c = 0 \<or> \<not> is_over s \<and> cost_or_zero c \<le> balance_minor s)
     \<and> \<not> (snap_scope s = AllScope \<and> is_over s)"
  using assms(1)
proof (rule decide_selectedE)
  fix es rs deg ds bs bdeg
  assume f: "filter_stages req ctx cards = Inr (es, rs, deg)"
    and b: "budget_stage req ctx es affinity ready = Some (Inr (ds, bs, bdeg))"
    and c: "pick ds affinity ready = Some c"
  from chosen_candidate [OF assms(1)] have k: "cost_or_zero c \<ge> 0"
    by (auto simp: candidate_ok_def price_known_def cost_or_zero_def split: option.splits)
  from b assms(2) consider
      (within) np where "pick es affinity ready = Some np" "affordable s (cost_or_zero np)" "ds = es"
        "\<not> (snap_scope s = AllScope \<and> is_over s)"
    | (fallback) "ds = free_cards es" "\<not> (snap_scope s = AllScope \<and> is_over s)"
    by (auto simp: budget_stage_alt split: option.splits if_splits)
  then show ?thesis
  proof cases
    case within
    with c k show ?thesis by (auto simp: affordable_def)
  next
    case fallback
    with pick_in [OF c] show ?thesis by (auto simp: free_cards_def cost_or_zero_def)
  qed
qed

theorem decide_within_budget_witness:
  "cost_or_zero (sample_card ''b'' []) = 0 \<or> cost_or_zero (sample_card ''b'' []) \<le> 10"
  using decide_within_budget [OF local_decision, of "\<lparr>limit_minor = 100, spent_minor = 90, snap_scope = PaidOnly\<rparr>"]
  by (auto simp: tenant_snapshot_def local_request_def tight_ctx_def balance_minor_def wrap_i64_def)

text \<open>
  Degradation is explicit: a decision lists a degradation only when the request declared the
  fallback; without a listed role degradation a requested catalogue role is the chosen card's; and a
  listed budget degradation means a free card was chosen instead of one whose estimate is listed.
\<close>

theorem degradation_explicit:
  assumes "decide_selected req cards ctx affinity ready = Some (Inr (d, c))"
  shows "(is_degraded d \<longrightarrow> allow_fallback req)
    \<and> (\<forall>r. req_role req = Some r \<and> is_catalog_role r \<and> RoleFallback r \<notin> set (degradations d)
         \<longrightarrow> is_eligible_for_role c r (ctx_min_ram_gb ctx))
    \<and> (\<forall>k. BudgetFallback k \<in> set (degradations d) \<longrightarrow> k > 0 \<and> cost_or_zero c = 0)"
  using assms
proof (rule decide_selectedE)
  fix es rs deg ds bs bdeg
  assume f: "filter_stages req ctx cards = Inr (es, rs, deg)"
    and b: "budget_stage req ctx es affinity ready = Some (Inr (ds, bs, bdeg))"
    and c: "pick ds affinity ready = Some c" and d: "d = \<lparr>chosen_id = card_id c,
      reason_codes = rs @ bs @ admission_reasons ds, degradations = option_to_list deg @ option_to_list bdeg\<rparr>"
  have role_deg: "deg = None \<or> (\<exists>r. req_role req = Some r \<and> deg = Some (RoleFallback r))"
    using f by (auto elim!: filter_stagesE simp: role_stage_def Let_def split: if_splits option.splits)
  have bud: "bdeg = None \<or> (\<exists>k. bdeg = Some (BudgetFallback k) \<and> k > 0 \<and> allow_fallback req \<and> ds = free_cards es)"
    using b by (auto simp: budget_stage_alt affordable_def split: option.splits if_splits)
  from budget_stage_subset [OF b filter_stages_ok(1) [OF f]] pick_in [OF c] have ces: "c \<in> set es" by blast
  have "is_degraded d \<longrightarrow> allow_fallback req"
    using filter_stages_ok(4) [OF f] bud by (auto simp: d is_degraded_def option_to_list_def split: option.splits)
  moreover have "is_eligible_for_role c r (ctx_min_ram_gb ctx)"
    if "req_role req = Some r" "is_catalog_role r" "RoleFallback r \<notin> set (degradations d)" for r
    using filter_stages_ok(3) [OF f _ that(1,2)] role_deg that ces by (auto simp: d option_to_list_def)
  moreover have "k > 0 \<and> cost_or_zero c = 0" if "BudgetFallback k \<in> set (degradations d)" for k
    using that bud role_deg pick_in [OF c]
    by (auto simp: d option_to_list_def free_cards_def cost_or_zero_def split: option.splits)
  ultimately show ?thesis by blast
qed

definition broke_ctx :: policy_ctx where
  "broke_ctx = \<lparr>ctx_min_ram_gb = None,
     ctx_budget = Some (\<lambda>_. Some \<lparr>limit_minor = 100, spent_minor = 100, snap_scope = PaidOnly\<rparr>)\<rparr>"

definition open_request :: request_profile where
  "open_request = local_request\<lparr>content_tightening := None\<rparr>"

lemma degraded_decision:
  "decide_selected open_request [remote_card ''a'' 50, (sample_card ''b'' [])\<lparr>admission_status := RequiresEviction\<rparr>]
      broke_ctx None {} =
     Some (Inr (\<lparr>chosen_id = ''b'', reason_codes = [BudgetFallbackToFreeCandidate, AdmissionRequiresEviction],
        degradations = [BudgetFallback 50]\<rparr>, (sample_card ''b'' [])\<lparr>admission_status := RequiresEviction\<rparr>))"
  by (simp add: pipeline_eval open_request_def local_request_def remote_card_def broke_ctx_def cmp_of_def)

theorem degradation_explicit_witness:
  "allow_fallback open_request \<and> cost_or_zero ((sample_card ''b'' [])\<lparr>admission_status := RequiresEviction\<rparr>) = 0"
  using degradation_explicit [OF degraded_decision] by (simp add: is_degraded_def)

text \<open>
  A budget rejection is justified and honest: it carries the tenant's balance; either the
  tenant's scope is \<open>all\<close> and it is over its limit, or the amount carried is the positive
  estimate of the path the choice rule picks, which the tenant cannot afford, and no declared
  fallback to a free card was available.
\<close>

theorem budget_rejection_justified:
  assumes "decide_selected req cards ctx affinity ready = Some (Inl (BudgetExceeded b k h))"
  shows "\<exists>s es rs deg np. tenant_snapshot req ctx = Some s \<and> filter_stages req ctx cards = Inr (es, rs, deg)
    \<and> pick es affinity ready = Some np \<and> b = balance_minor s \<and> h = TopupHint b k
    \<and> (snap_scope s = AllScope \<and> is_over s
       \<or> k = cost_or_zero np \<and> k > 0 \<and> (is_over s \<or> b < k) \<and> (allow_fallback req \<longrightarrow> free_cards es = []))"
proof -
  have no: "filter_stages req ctx cards \<noteq> Inl (BudgetExceeded b k h)"
    by (auto simp: filter_stages_def result_simps privacy_stage_def role_stage_def price_stage_def
        admission_stage_def Let_def split: if_splits option.splits prod.splits)
  with assms obtain es rs deg where f: "filter_stages req ctx cards = Inr (es, rs, deg)"
    and b: "budget_stage req ctx es affinity ready = Some (Inl (BudgetExceeded b k h))"
    by (auto simp: decide_selected_def split: sum.splits option.splits prod.splits)
  from b obtain s np where "tenant_snapshot req ctx = Some s" "pick es affinity ready = Some np"
    "b = balance_minor s \<and> h = TopupHint b k \<and> (snap_scope s = AllScope \<and> is_over s
       \<or> k = cost_or_zero np \<and> k > 0 \<and> (is_over s \<or> b < k) \<and> (allow_fallback req \<longrightarrow> free_cards es = []))"
    by (auto simp: budget_stage_alt exceeded_def affordable_def split: option.splits if_splits)
  with f show ?thesis by blast
qed

definition strict_request :: request_profile where
  "strict_request = open_request\<lparr>task := (task open_request)\<lparr>tp_fallback := None\<rparr>\<rparr>"

theorem budget_rejection_justified_witness:
  "decide_selected strict_request [remote_card ''a'' 50] broke_ctx None {}
      = Some (Inl (BudgetExceeded 0 50 (TopupHint 0 50)))
   \<and> (\<exists>s. tenant_snapshot strict_request broke_ctx = Some s \<and> 0 = balance_minor s)"
proof -
  have *: "decide_selected strict_request [remote_card ''a'' 50] broke_ctx None {}
      = Some (Inl (BudgetExceeded 0 50 (TopupHint 0 50)))"
    by (simp add: pipeline_eval strict_request_def open_request_def local_request_def remote_card_def broke_ctx_def
        budget_topup_hint_def)
  from budget_rejection_justified [OF *] * show ?thesis by blast
qed

text \<open>
  \<open>local_only_unavailable\<close> means exactly that: the pipeline answers it if and only if the
  effective privacy is \<open>local_only\<close> and none of the cards is trusted local.
\<close>

theorem local_only_unavailable_iff:
  "decide_selected req cards ctx affinity ready = Some (Inl LocalOnlyUnavailable) \<longleftrightarrow>
     req_effective_privacy req = LocalOnly \<and> \<not> list_ex is_local_capable cards"
proof -
  have "decide_selected req cards ctx affinity ready = Some (Inl LocalOnlyUnavailable) \<longleftrightarrow>
      privacy_stage req cards = Inl LocalOnlyUnavailable"
  proof
    assume d: "decide_selected req cards ctx affinity ready = Some (Inl LocalOnlyUnavailable)"
    have "budget_stage req ctx es affinity ready \<noteq> Some (Inl LocalOnlyUnavailable)" for es
      by (auto simp: budget_stage_alt exceeded_def split: option.splits)
    with d have "filter_stages req ctx cards = Inl LocalOnlyUnavailable"
      by (auto simp: decide_selected_def split: sum.splits option.splits prod.splits)
    then show "privacy_stage req cards = Inl LocalOnlyUnavailable"
      by (auto simp: filter_stages_def result_simps role_stage_def price_stage_def
          admission_stage_def Let_def split: if_splits option.splits prod.splits)
  qed (simp add: decide_selected_def filter_stages_def)
  also have "\<dots> \<longleftrightarrow> req_effective_privacy req = LocalOnly \<and> \<not> list_ex is_local_capable cards"
    by (auto simp: privacy_stage_def Let_def filter_empty_conv list_ex_iff)
  finally show ?thesis .
qed

text \<open>
  Session affinity and readiness only break ties: for any two affinity keys and readiness
  snapshots the pipeline rejects with the same rejection, or chooses cards of the same admission
  status and the same estimated cost, with the same reasons and degradations.
\<close>

theorem affinity_only_breaks_ties:
  "case (decide_selected req cards ctx a1 r1, decide_selected req cards ctx a2 r2) of
     (Some (Inr (d, c)), Some (Inr (d', c'))) \<Rightarrow>
        admission_status c = admission_status c' \<and> cost_or_zero c = cost_or_zero c'
        \<and> reason_codes d = reason_codes d' \<and> degradations d = degradations d'
   | (Some (Inl e), Some (Inl e')) \<Rightarrow> e = e'
   | _ \<Rightarrow> False"
proof (cases "filter_stages req ctx cards")
  case (Inl e)
  then show ?thesis by (simp add: decide_selected_def)
next
  case (Inr x)
  obtain es rs deg where x: "x = (es, rs, deg)" by (cases x)
  from filter_stages_ok(1) [OF Inr [unfolded x]] have ne: "es \<noteq> []" .
  then obtain n1 n2 where n: "pick es a1 r1 = Some n1" "pick es a2 r2 = Some n2"
    using pick_eq_None by (metis option.exhaust)
  have same: "budget_stage req ctx es a1 r1 = budget_stage req ctx es a2 r2"
    using pick_rank_cost_unique [OF n] by (auto simp: budget_stage_alt n split: option.splits)
  from budget_stage_total [OF ne] obtain r where r: "budget_stage req ctx es a2 r2 = Some r" by blast
  show ?thesis
  proof (cases r)
    case (Inl e)
    with same r Inr x show ?thesis by (simp add: decide_selected_def)
  next
    case o: (Inr y)
    obtain ds bs bdeg where y: "y = (ds, bs, bdeg)" by (cases y)
    from budget_stage_subset [OF r [unfolded o y] ne] have "ds \<noteq> []" by simp
    then obtain m1 m2 where m: "pick ds a1 r1 = Some m1" "pick ds a2 r2 = Some m2"
      using pick_eq_None by (metis option.exhaust)
    from pick_rank_cost_unique [OF m] show ?thesis
      using same r Inr x o y m by (simp add: decide_selected_def)
  qed
qed

text \<open>Two results that differ only in the order of the candidates they carry.\<close>

fun perm_result :: "'e + card list \<times> 'x \<Rightarrow> 'e + card list \<times> 'x \<Rightarrow> bool" where
  "perm_result (Inl e) (Inl e') = (e = e')"
| "perm_result (Inr (cs, x)) (Inr (cs', x')) = (mset cs = mset cs' \<and> x = x')"
| "perm_result _ _ = False"

lemma perm_filter: "mset cs = mset cs' \<Longrightarrow> mset (filter P cs) = mset (filter P cs')"
  by simp

lemma perm_filter_Nil: "mset cs = mset cs' \<Longrightarrow> filter P cs = [] \<longleftrightarrow> filter P cs' = []"
  by (metis mset_filter mset_zero_iff)

lemma perm_filter_length: "mset cs = mset cs' \<Longrightarrow> length (filter P cs) = length (filter P cs')"
  by (metis mset_filter size_mset)

lemmas perm_simps = perm_filter_Nil perm_filter_length mset_eq_length

lemma privacy_stage_perm:
  "mset cs = mset cs' \<Longrightarrow> perm_result (privacy_stage req cs) (privacy_stage req cs')"
  using perm_filter_Nil [of cs cs' is_local_capable] by (simp add: privacy_stage_def Let_def)

lemma role_stage_perm:
  assumes "mset cs = mset cs'"
  shows "perm_result (role_stage req ctx cs) (role_stage req ctx cs')"
  using assms perm_filter_Nil [OF assms] by (simp add: role_stage_def Let_def split: option.split)

lemma price_stage_perm: "mset cs = mset cs' \<Longrightarrow> perm_result (price_stage cs) (price_stage cs')"
  using perm_filter_Nil [of cs cs' price_known] perm_filter_length [of cs cs' price_known]
    mset_eq_length [of cs cs']
  by (simp add: price_stage_def Let_def)

lemma admission_stage_perm:
  "mset cs = mset cs' \<Longrightarrow>
     (case (admission_stage cs, admission_stage cs') of
        (Inl e, Inl e') \<Rightarrow> e = e' | (Inr es, Inr es') \<Rightarrow> mset es = mset es' | _ \<Rightarrow> False)"
  using perm_filter_Nil [of cs cs' "\<lambda>c. admission_status c \<noteq> Blocked"]
  by (simp add: admission_stage_def Let_def)

lemma perm_result_bind:
  assumes "perm_result r r'" and "\<And>cs cs' x. mset cs = mset cs' \<Longrightarrow> perm_result (f (cs, x)) (f (cs', x))"
  shows "perm_result (bind_result r f) (bind_result r' f)"
  using assms(1) by (cases "(r, r')" rule: perm_result.cases) (auto intro: assms(2))

lemma filter_stages_perm:
  assumes "mset cards = mset cards'"
  shows "perm_result (filter_stages req ctx cards) (filter_stages req ctx cards')"
proof -
  have last: "perm_result (bind_result (admission_stage ps) (\<lambda>es. Inr (es, y)))
      (bind_result (admission_stage ps') (\<lambda>es. Inr (es, y)))"
    if "mset ps = mset ps'" for ps ps' and y :: "reason_code list \<times> degradation option"
    using admission_stage_perm [OF that] by (auto split: sum.splits)
  show ?thesis unfolding filter_stages_def
    by (intro perm_result_bind [OF privacy_stage_perm [OF assms]])
      (auto intro!: perm_result_bind [OF role_stage_perm] perm_result_bind [OF price_stage_perm] last)
qed

lemma pick_perm:
  assumes "mset cs = mset cs'"
  shows "rel_option (\<lambda>c c'. card_id c = card_id c' \<and> cost_or_zero c = cost_or_zero c')
    (pick cs affinity ready) (pick cs' affinity ready)"
proof (cases "pick cs affinity ready")
  case None
  with assms show ?thesis by simp
next
  case (Some c)
  with assms obtain c' where c': "pick cs' affinity ready = Some c'"
    by (metis mset_zero_iff not_None_eq pick_eq_None)
  have "set cs = set cs'" using assms by (rule mset_eq_setD)
  with pick_in [OF Some] pick_in [OF c'] have in': "c' \<in> set cs" "c \<in> set cs'" by simp_all
  have "pick_cmp affinity ready c c' \<noteq> Greater" "pick_cmp affinity ready c' c \<noteq> Greater"
    using pk.min_by_least [OF Some [unfolded pick_def] in'(1)] pk.min_by_least [OF c' [unfolded pick_def] in'(2)]
    by simp_all
  then have "pick_cmp affinity ready c c' = Equal"
    using pk.rev [of affinity ready c c'] by (cases "pick_cmp affinity ready c' c") auto
  from pick_cmp_EqualD [OF this] Some c' show ?thesis by simp
qed

lemma foldl_min_Min: "foldl min (v::int) vs = Min (insert v (set vs))"
proof (induction vs arbitrary: v)
  case (Cons a vs)
  then show ?case by (cases "vs = []") (simp_all add: min.assoc)
qed simp

lemma cheapest_paid_cost_set:
  "cheapest_paid_cost cs =
     (let S = {v. \<exists>c \<in> set cs. estimated_cost_minor c = Some v} in if S = {} then 0 else Min S)"
proof -
  have "set (List.map_filter estimated_cost_minor cs) = {v. \<exists>c \<in> set cs. estimated_cost_minor c = Some v}"
    by (force simp: List.map_filter_def)
  then show ?thesis
    unfolding cheapest_paid_cost_def Let_def
    by (cases "List.map_filter estimated_cost_minor cs") (auto simp: foldl_min_Min)
qed

lemma cheapest_paid_cost_perm: "mset cs = mset cs' \<Longrightarrow> cheapest_paid_cost cs = cheapest_paid_cost cs'"
  unfolding cheapest_paid_cost_set using mset_eq_setD [of cs cs'] by simp

lemma budget_stage_perm:
  assumes "mset cs = mset cs'"
  shows "rel_option perm_result (budget_stage req ctx cs affinity ready) (budget_stage req ctx cs' affinity ready)"
proof -
  have free: "mset (free_cards cs) = mset (free_cards cs')" "free_cards cs = [] \<longleftrightarrow> free_cards cs' = []"
    using perm_filter_Nil [OF assms] assms by (simp_all add: free_cards_def)
  have paid: "cheapest_paid_cost (paid_cards cs) = cheapest_paid_cost (paid_cards cs')"
    by (rule cheapest_paid_cost_perm) (simp add: paid_cards_def assms)
  show ?thesis
  proof (cases "tenant_snapshot req ctx")
    case None
    with assms show ?thesis by (simp add: budget_stage_alt)
  next
    case (Some s)
    from pick_perm [OF assms, of affinity ready] show ?thesis
    proof (cases rule: option.rel_cases)
      case None
      with Some show ?thesis by (simp add: budget_stage_alt)
    next
      case s: (Some c c')
      with Some free paid assms show ?thesis by (simp add: budget_stage_alt)
    qed
  qed
qed

lemma admission_reasons_perm: "mset cs = mset cs' \<Longrightarrow> admission_reasons cs = admission_reasons cs'"
  using mset_eq_setD [of cs cs'] by (simp add: admission_reasons_def list_ex_iff)

text \<open>
  C37. The decision does not depend on the order in which the cards are listed: permuting them
  gives the same rejection or the same decision, chosen id, reasons and degradations included.
\<close>

theorem decide_order_independent:
  assumes "mset cards = mset cards'"
  shows "decide_with_affinity_and_ready req cards ctx affinity ready
       = decide_with_affinity_and_ready req cards' ctx affinity ready"
  using filter_stages_perm [OF assms, of req ctx]
proof (cases "(filter_stages req ctx cards, filter_stages req ctx cards')" rule: perm_result.cases)
  case (2 es x es' x')
  obtain rs deg where x: "x = (rs, deg)" by (cases x)
  from 2 filter_stages_perm [OF assms, of req ctx] have es: "mset es = mset es'" "x' = x" by simp_all
  show ?thesis
    using budget_stage_perm [OF es(1), of req ctx affinity ready]
  proof (cases rule: option.rel_cases)
    case None
    with 2 x es(2) show ?thesis by (simp add: decide_with_affinity_and_ready_def decide_selected_def)
  next
    case (Some r r')
    from Some(3) show ?thesis
    proof (cases "(r, r')" rule: perm_result.cases)
      case inner: (2 ds y ds' y')
      obtain bs bdeg where y: "y = (bs, bdeg)" by (cases y)
      from inner Some(3) have ds: "mset ds = mset ds'" "y' = y" by simp_all
      from pick_perm [OF ds(1), of affinity ready] admission_reasons_perm [OF ds(1)] show ?thesis
        using 2 x y inner Some(1,2) es(2) ds
        by (auto simp: decide_with_affinity_and_ready_def decide_selected_def elim!: option.rel_cases)
    qed (use 2 x es(2) Some in \<open>simp_all add: decide_with_affinity_and_ready_def decide_selected_def\<close>)
  qed
qed (use filter_stages_perm [OF assms, of req ctx] in
    \<open>simp_all add: decide_with_affinity_and_ready_def decide_selected_def\<close>)

theorem decide_order_independent_witness:
  "decide_with_affinity_and_ready local_request [remote_card ''a'' 50, sample_card ''b'' []] tight_ctx None {}
   = decide_with_affinity_and_ready local_request [sample_card ''b'' [], remote_card ''a'' 50] tight_ctx None {}"
  by (rule decide_order_independent) simp

end
