(* ===== verification/Breaker.thy ===== *)
theory Breaker
  imports Prelude
begin

text \<open>
  The circuit breaker of \<^verbatim>\<open>crates/idoris-policy/src/breaker.rs\<close>: one breaker
  (\<open>Breaker\<close>: CLOSED, OPEN, HALF_OPEN) with one-shot admission tickets, and the book of
  breakers per credential class and key (\<open>BreakerBook\<close>). Times and generations are
  \<open>u64\<close>, failure counts \<open>u32\<close>; \<open>saturating_add\<close> is the source's.
  A ticket that the source moves into a report is an argument here; the process-wide issuer
  counter is passed explicitly, and its exhaustion (a panic) is \<open>None\<close>.
\<close>

section \<open>Data\<close>

datatype credential_class = OAuth | ApiKey | Local

fun failure_threshold :: "credential_class \<Rightarrow> u32" where
  "failure_threshold OAuth = 3"
| "failure_threshold ApiKey = 5"
| "failure_threshold Local = 2"

fun recovery_ms :: "credential_class \<Rightarrow> u64" where
  "recovery_ms OAuth = 60000"
| "recovery_ms ApiKey = 30000"
| "recovery_ms Local = 15000"

datatype bstate = Closed (failures: u32) | Open (until_ms: u64) | HalfOpen (probing: bool)

datatype admission = Allowed | Probe | Rejected (retry_after_ms: u64)

fun admitted :: "admission \<Rightarrow> bool" where
  "admitted (Rejected _) = False"
| "admitted _ = True"

datatype pair_reject = Duplicate | Gate admission admission

record ticket =
  t_issuer :: u64
  t_generation :: u64
  t_probe :: bool

record breaker =
  issuer :: u64
  bclass :: credential_class
  bstate :: bstate
  generation :: u64
  open_cohort :: "u64 option"

text \<open>The issuer counter: the id handed out and the next counter, or \<open>None\<close> where it panics.\<close>

definition next_issuer :: "u64 \<Rightarrow> (u64 \<times> u64) option" where
  "next_issuer ctr = (case checked_add ctr 1 of None \<Rightarrow> None | Some ctr' \<Rightarrow> Some (ctr, ctr'))"

definition breaker_new :: "credential_class \<Rightarrow> u64 \<Rightarrow> (breaker \<times> u64) option" where
  "breaker_new c ctr = (case next_issuer ctr of
      None \<Rightarrow> None
    | Some (i, ctr') \<Rightarrow>
        Some (\<lparr>issuer = i, bclass = c, bstate = Closed 0, generation = 0, open_cohort = None\<rparr>, ctr'))"

definition breaker_clone :: "breaker \<Rightarrow> u64 \<Rightarrow> (breaker \<times> u64) option" where
  "breaker_clone b ctr = (case next_issuer ctr of
      None \<Rightarrow> None
    | Some (i, ctr') \<Rightarrow> Some (b\<lparr>issuer := i\<rparr>, ctr'))"

section \<open>Operations of one breaker\<close>

definition readiness :: "breaker \<Rightarrow> u64 \<Rightarrow> admission" where
  "readiness b now = (case bstate b of
      Closed _ \<Rightarrow> Allowed
    | Open u \<Rightarrow> if now < u then Rejected (u - now) else Probe
    | HalfOpen p \<Rightarrow> if p then Rejected 0 else Probe)"

definition admit :: "breaker \<Rightarrow> u64 \<Rightarrow> (admission \<times> ticket option) \<times> breaker" where
  "admit b now =
     (let (adm, probe, st) = (case bstate b of
          Closed n \<Rightarrow> (Allowed, Some False, Closed n)
        | Open u \<Rightarrow> if now < u then (Rejected (u - now), None, Open u)
                   else (Probe, Some True, HalfOpen True)
        | HalfOpen p \<Rightarrow> if p then (Rejected 0, None, HalfOpen p)
                       else (Probe, Some True, HalfOpen True))
      in ((adm, map_option (\<lambda>p. \<lparr>t_issuer = issuer b, t_generation = generation b, t_probe = p\<rparr>) probe),
          b\<lparr>bstate := st\<rparr>))"

definition on_success :: "breaker \<Rightarrow> ticket \<Rightarrow> breaker" where
  "on_success b t =
     (if t_issuer t \<noteq> issuer b then b
      else if t_generation t \<noteq> generation b then b
      else case bstate b of
          HalfOpen p \<Rightarrow> if t_probe t
            then b\<lparr>bstate := Closed 0, open_cohort := None, generation := saturating_add (generation b) 1\<rparr>
            else b
        | Closed _ \<Rightarrow> b\<lparr>bstate := Closed 0\<rparr>
        | Open _ \<Rightarrow> b)"

definition on_failure_metadata :: "breaker \<Rightarrow> ticket \<Rightarrow> u64 \<Rightarrow> breaker" where
  "on_failure_metadata b t now =
     (if t_issuer t \<noteq> issuer b then b
      else if t_generation t \<noteq> generation b then b
      else if (case bstate b of HalfOpen _ \<Rightarrow> True | _ \<Rightarrow> False) \<and> \<not> t_probe t then b
      else
        let opened = b\<lparr>open_cohort := Some (t_generation t),
                       generation := saturating_add (generation b) 1,
                       bstate := Open (saturating_add now (recovery_ms (bclass b)))\<rparr>
        in case bstate b of
            Closed n \<Rightarrow> if n + 1 < failure_threshold (bclass b)
              then b\<lparr>bstate := Closed (n + 1)\<rparr> else opened
          | Open _ \<Rightarrow> b
          | HalfOpen _ \<Rightarrow> opened)"

definition on_failure :: "breaker \<Rightarrow> ticket \<Rightarrow> u64 \<Rightarrow> breaker" where
  "on_failure b t now = on_failure_metadata b t now"

definition on_retry_after_metadata :: "breaker \<Rightarrow> ticket \<Rightarrow> u64 \<Rightarrow> u64 \<Rightarrow> breaker" where
  "on_retry_after_metadata b t now ms =
     (if t_issuer t \<noteq> issuer b then b
      else if (case bstate b of HalfOpen _ \<Rightarrow> True | _ \<Rightarrow> False) \<and> \<not> t_probe t then b
      else
        let fresh = (t_generation t = generation b);
            cohort_extend = ((case bstate b of Open _ \<Rightarrow> True | _ \<Rightarrow> False)
                             \<and> open_cohort b = Some (t_generation t))
        in if \<not> fresh \<and> \<not> cohort_extend then b
           else
             let u1 = saturating_add now ms;
                 u2 = (if t_probe t then max u1 (saturating_add now (recovery_ms (bclass b))) else u1);
                 u3 = (case bstate b of Open existing \<Rightarrow> max existing u2 | _ \<Rightarrow> u2);
                 b' = b\<lparr>bstate := Open u3\<rparr>
             in if fresh then b'\<lparr>open_cohort := Some (t_generation t),
                                generation := saturating_add (generation b) 1\<rparr>
                else b')"

definition on_retry_after :: "breaker \<Rightarrow> ticket \<Rightarrow> u64 \<Rightarrow> u64 \<Rightarrow> breaker" where
  "on_retry_after b t now ms = on_retry_after_metadata b t now ms"

definition on_failure_with_retry_after :: "breaker \<Rightarrow> ticket \<Rightarrow> u64 \<Rightarrow> u64 option \<Rightarrow> breaker" where
  "on_failure_with_retry_after b t now retry =
     (let b1 = on_failure_metadata b t now
      in case retry of None \<Rightarrow> b1 | Some ms \<Rightarrow> on_retry_after_metadata b1 t now ms)"

section \<open>The \<open>Retry-After\<close> header\<close>

text \<open>
  \<open>str::trim\<close> removes Unicode white space; the header value is given as its characters'
  code points, and only ASCII digits survive the check that follows.
\<close>

definition parse_retry_after_ms :: "ustr \<Rightarrow> u64 option" where
  "parse_retry_after_ms raw =
     (let digits = trim_matches is_unicode_whitespace raw
      in if digits = [] \<or> \<not> list_all is_ascii_digit digits then None
         else Some (saturating_mul
           (foldl (\<lambda>seconds d. saturating_add (saturating_mul seconds 10) (of_nat (d - 48))) 0 digits)
           1000))"

section \<open>The book\<close>

type_synonym 'k book = "credential_class \<times> 'k \<rightharpoonup> breaker"

definition book_new :: "'k book" where
  "book_new = Map.empty"

definition book_readiness :: "'k book \<Rightarrow> 'k \<Rightarrow> credential_class \<Rightarrow> u64 \<Rightarrow> admission" where
  "book_readiness m k c now = (case m (c, k) of None \<Rightarrow> Allowed | Some b \<Rightarrow> readiness b now)"

text \<open>The entry of a key, made on demand; \<open>None\<close> where the issuer counter is exhausted.\<close>

definition ensure_entry :: "'k book \<Rightarrow> credential_class \<times> 'k \<Rightarrow> u64 \<Rightarrow> ('k book \<times> u64) option" where
  "ensure_entry m ck ctr = (case m ck of
      Some _ \<Rightarrow> Some (m, ctr)
    | None \<Rightarrow> (case breaker_new (fst ck) ctr of
          None \<Rightarrow> None
        | Some (b, ctr') \<Rightarrow> Some (m(ck \<mapsto> b), ctr')))"

definition claim_entry :: "'k book \<Rightarrow> credential_class \<times> 'k \<Rightarrow> u64
    \<Rightarrow> ((admission \<times> ticket option) \<times> 'k book) option" where
  "claim_entry m ck now = (case m ck of
      None \<Rightarrow> None
    | Some b \<Rightarrow> (let (a, b') = admit b now in Some (a, m(ck \<mapsto> b'))))"

definition book_admit :: "'k book \<Rightarrow> 'k \<Rightarrow> credential_class \<Rightarrow> u64 \<Rightarrow> u64
    \<Rightarrow> ((admission \<times> ticket option) \<times> 'k book \<times> u64) option" where
  "book_admit m k c now ctr = (case ensure_entry m (c, k) ctr of
      None \<Rightarrow> None
    | Some (m1, ctr') \<Rightarrow> (case claim_entry m1 (c, k) now of
          None \<Rightarrow> None
        | Some (a, m2) \<Rightarrow> Some (a, m2, ctr')))"

text \<open>
  \<open>admit_pair\<close>: both readiness checks come first, then both issuers, then both claims.
  An \<open>Inl\<close> returns no book, since the source changes nothing on that path; \<open>None\<close>
  is the panic of an exhausted issuer counter (or of an entry that is missing).
\<close>

definition book_admit_pair :: "'k book \<Rightarrow> 'k \<times> credential_class \<Rightarrow> 'k \<times> credential_class \<Rightarrow> u64 \<Rightarrow> u64
    \<Rightarrow> (pair_reject + (admission \<times> ticket option) \<times> (admission \<times> ticket option) \<times> 'k book \<times> u64) option" where
  "book_admit_pair m p q now ctr =
     (if snd p = snd q \<and> fst p = fst q then Some (Inl Duplicate)
      else
        let a1 = book_readiness m (fst p) (snd p) now;
            a2 = book_readiness m (fst q) (snd q) now
        in if \<not> admitted a1 \<or> \<not> admitted a2 then Some (Inl (Gate a1 a2))
           else case ensure_entry m (snd p, fst p) ctr of
               None \<Rightarrow> None
             | Some (m1, ctr1) \<Rightarrow> (case ensure_entry m1 (snd q, fst q) ctr1 of
                   None \<Rightarrow> None
                 | Some (m2, ctr2) \<Rightarrow> (case claim_entry m2 (snd p, fst p) now of
                       None \<Rightarrow> None
                     | Some (r1, m3) \<Rightarrow> (case claim_entry m3 (snd q, fst q) now of
                           None \<Rightarrow> None
                         | Some (r2, m4) \<Rightarrow> Some (Inr (r1, r2, m4, ctr2))))))"

definition book_update :: "'k book \<Rightarrow> 'k \<Rightarrow> credential_class \<Rightarrow> (breaker \<Rightarrow> breaker) \<Rightarrow> 'k book" where
  "book_update m k c f = (case m (c, k) of None \<Rightarrow> m | Some b \<Rightarrow> m((c, k) \<mapsto> f b))"

definition book_on_success :: "'k book \<Rightarrow> 'k \<Rightarrow> credential_class \<Rightarrow> ticket \<Rightarrow> 'k book" where
  "book_on_success m k c t = book_update m k c (\<lambda>b. on_success b t)"

definition book_on_failure :: "'k book \<Rightarrow> 'k \<Rightarrow> credential_class \<Rightarrow> ticket \<Rightarrow> u64 \<Rightarrow> 'k book" where
  "book_on_failure m k c t now = book_update m k c (\<lambda>b. on_failure b t now)"

definition book_on_failure_with_retry_after ::
    "'k book \<Rightarrow> 'k \<Rightarrow> credential_class \<Rightarrow> ticket \<Rightarrow> u64 \<Rightarrow> u64 option \<Rightarrow> 'k book" where
  "book_on_failure_with_retry_after m k c t now ms =
     book_update m k c (\<lambda>b. on_failure_with_retry_after b t now ms)"

definition book_on_retry_after :: "'k book \<Rightarrow> 'k \<Rightarrow> credential_class \<Rightarrow> ticket \<Rightarrow> u64 \<Rightarrow> u64 \<Rightarrow> 'k book" where
  "book_on_retry_after m k c t now ms = book_update m k c (\<lambda>b. on_retry_after b t now ms)"

section \<open>Reports as one operation\<close>

text \<open>The four report methods, named so that statements can range over all of them.\<close>

datatype report = Success | Failure u64 | FailureRetry u64 "u64 option" | RetryAfter u64 u64

fun breaker_report :: "breaker \<Rightarrow> report \<Rightarrow> ticket \<Rightarrow> breaker" where
  "breaker_report b Success t = on_success b t"
| "breaker_report b (Failure now) t = on_failure b t now"
| "breaker_report b (FailureRetry now ms) t = on_failure_with_retry_after b t now ms"
| "breaker_report b (RetryAfter now ms) t = on_retry_after b t now ms"

lemmas breaker_defs = on_success_def on_failure_def on_failure_metadata_def on_retry_after_def
  on_retry_after_metadata_def on_failure_with_retry_after_def

fun half_open_claimed :: "bstate \<Rightarrow> bool" where
  "half_open_claimed (HalfOpen p) = p"
| "half_open_claimed _ = False"

lemma admit_readiness: "fst (fst (admit b now)) = readiness b now"
  by (auto simp: admit_def readiness_def split: bstate.splits)

lemma admit_ticket_iff: "snd (fst (admit b now)) \<noteq> None \<longleftrightarrow> admitted (fst (fst (admit b now)))"
  by (auto simp: admit_def split: bstate.splits)

lemma admit_ticketD:
  "admit b now = ((a, Some t), b') \<Longrightarrow> t_issuer t = issuer b \<and> t_generation t = generation b"
  by (auto simp: admit_def split: bstate.splits if_splits)

lemma breaker_report_frame [simp]:
  "issuer (breaker_report b r t) = issuer b" "bclass (breaker_report b r t) = bclass b"
  by (cases r; auto simp: breaker_defs Let_def split: bstate.splits option.splits)+

lemma report_foreign: "t_issuer t \<noteq> issuer b \<Longrightarrow> breaker_report b r t = b"
  by (cases r) (auto simp: breaker_defs split: option.splits)

lemma on_failure_metadata_unclaimed:
  "\<not> t_probe t \<Longrightarrow> half_open_claimed (bstate (on_failure_metadata b t now)) = half_open_claimed (bstate b)"
  by (auto simp: on_failure_metadata_def Let_def split: bstate.splits)

lemma on_retry_after_metadata_unclaimed:
  "\<not> t_probe t \<Longrightarrow>
     half_open_claimed (bstate (on_retry_after_metadata b t now ms)) = half_open_claimed (bstate b)"
  by (auto simp: on_retry_after_metadata_def Let_def split: bstate.splits)

lemma report_unclaimed:
  "\<not> t_probe t \<Longrightarrow> half_open_claimed (bstate (breaker_report b r t)) = half_open_claimed (bstate b)"
  by (cases r) (auto simp: on_success_def on_failure_def on_retry_after_def on_failure_with_retry_after_def
      on_failure_metadata_unclaimed on_retry_after_metadata_unclaimed Let_def
      split: bstate.splits option.splits)

section \<open>The gate interface its clients use\<close>

text \<open>
  A client holds tickets: it gets one from \<open>admit\<close> and moves it into one report (or drops it,
  when the request dies). \<open>gate_reach\<close> is every state of gate and outstanding tickets a
  client can bring about, in any interleaving.
\<close>

inductive gate_reach ::
    "('s \<Rightarrow> u64 \<Rightarrow> (admission \<times> ticket option) \<times> 's) \<Rightarrow> ('s \<Rightarrow> 'r \<Rightarrow> ticket \<Rightarrow> 's) \<Rightarrow> 's
      \<Rightarrow> 's \<times> ticket list \<Rightarrow> bool"
  for adm rep s0 where
  start: "gate_reach adm rep s0 (s0, [])"
| admitted: "gate_reach adm rep s0 (s, ts) \<Longrightarrow> adm s now = ((a, Some t), s')
     \<Longrightarrow> gate_reach adm rep s0 (s', t # ts)"
| refused: "gate_reach adm rep s0 (s, ts) \<Longrightarrow> adm s now = ((a, None), s')
     \<Longrightarrow> gate_reach adm rep s0 (s', ts)"
| reported: "gate_reach adm rep s0 (s, us @ t # vs)
     \<Longrightarrow> gate_reach adm rep s0 (rep s r t, us @ vs)"
| dropped: "gate_reach adm rep s0 (s, us @ t # vs) \<Longrightarrow> gate_reach adm rep s0 (s, us @ vs)"

locale probe_gate =
  fixes adm :: "'s \<Rightarrow> u64 \<Rightarrow> (admission \<times> ticket option) \<times> 's"
    and rep :: "'s \<Rightarrow> 'r \<Rightarrow> ticket \<Rightarrow> 's"
    and claimed :: "'s \<Rightarrow> bool"
  assumes probe_claims: "adm s now = ((a, Some t), s') \<Longrightarrow> t_probe t \<Longrightarrow> \<not> claimed s \<and> claimed s'"
    and other_keeps: "adm s now = ((a, tk), s') \<Longrightarrow> (\<And>t. tk = Some t \<Longrightarrow> \<not> t_probe t)
      \<Longrightarrow> claimed s' = claimed s"
    and report_keeps: "\<not> t_probe t \<Longrightarrow> claimed (rep s r t) = claimed s"
begin

lemma probe_tickets:
  "gate_reach adm rep s0 st \<Longrightarrow>
     length (filter t_probe (snd st)) \<le> 1 \<and> (filter t_probe (snd st) \<noteq> [] \<longrightarrow> claimed (fst st))"
proof (induction rule: gate_reach.induct)
  case start
  show ?case by simp
next
  case (admitted s ts now a t s')
  show ?case
  proof (cases "t_probe t")
    case True
    with admitted probe_claims have "\<not> claimed s" "claimed s'" by blast+
    with admitted.IH have "filter t_probe ts = []" by auto
    with True \<open>claimed s'\<close> show ?thesis by simp
  next
    case False
    with admitted.hyps(2) have "claimed s' = claimed s" using other_keeps by blast
    with False admitted.IH show ?thesis by simp
  qed
next
  case (refused s ts now a s')
  then have "claimed s' = claimed s" using other_keeps by blast
  with refused.IH show ?case by simp
next
  case (reported s us t vs r)
  then show ?case using report_keeps [of t s r] by (cases "t_probe t") auto
next
  case (dropped s us t vs)
  then show ?case by (auto split: if_splits)
qed

end

interpretation brk: probe_gate admit breaker_report "half_open_claimed \<circ> bstate"
proof
  fix s now a t s'
  assume "admit s now = ((a, Some t), s')" "t_probe t"
  then show "\<not> (half_open_claimed \<circ> bstate) s \<and> (half_open_claimed \<circ> bstate) s'"
    by (auto simp: admit_def split: bstate.splits if_splits)
next
  fix s now a tk s'
  assume "admit s now = ((a, tk), s')" "\<And>t. tk = Some t \<Longrightarrow> \<not> t_probe t"
  then show "(half_open_claimed \<circ> bstate) s' = (half_open_claimed \<circ> bstate) s"
    by (auto simp: admit_def split: bstate.splits if_splits)
qed (simp add: report_unclaimed)

section \<open>Properties\<close>

text \<open>
  C35. HALF_OPEN hands out one probe at a time: whatever the interleaving of admissions, reports
  and dropped tickets, at most one probe ticket is outstanding, and while it is, the breaker is in
  HALF_OPEN with the probe claimed and refuses every further request.
\<close>

theorem breaker_single_probe:
  assumes "gate_reach admit breaker_report b0 (b, ts)"
  shows "length (filter t_probe ts) \<le> 1 \<and>
    (filter t_probe ts \<noteq> [] \<longrightarrow> bstate b = HalfOpen True \<and> (\<forall>now. readiness b now = Rejected 0))"
  using brk.probe_tickets [OF assms] by (cases "bstate b") (simp_all add: readiness_def)

definition sample_breaker :: "bstate \<Rightarrow> breaker" where
  "sample_breaker st = \<lparr>issuer = 7, bclass = Local, bstate = st, generation = 1, open_cohort = Some 0\<rparr>"

theorem breaker_single_probe_witness:
  "gate_reach admit breaker_report (sample_breaker (Open 10))
     (sample_breaker (HalfOpen True), [\<lparr>t_issuer = 7, t_generation = 1, t_probe = True\<rparr>])
   \<and> readiness (sample_breaker (HalfOpen True)) 50 = Rejected 0"
proof -
  let ?t = "\<lparr>t_issuer = 7, t_generation = 1, t_probe = True\<rparr>"
  have "admit (sample_breaker (Open 10)) 20 = ((Probe, Some ?t), sample_breaker (HalfOpen True))"
    by (simp add: admit_def sample_breaker_def)
  then have r: "gate_reach admit breaker_report (sample_breaker (Open 10)) (sample_breaker (HalfOpen True), [?t])"
    by (rule gate_reach.admitted [OF gate_reach.start])
  show ?thesis using r breaker_single_probe [OF r] by simp
qed

text \<open>
  No report shortens an open window or closes it: in OPEN, whatever ticket comes back with
  whatever outcome, the breaker stays OPEN until the same time or a later one.
\<close>

theorem breaker_open_window_monotone:
  assumes "bstate b = Open u"
  shows "\<exists>u'. bstate (breaker_report b r t) = Open u' \<and> u \<le> u'"
  using assms
  by (cases r) (auto simp: breaker_defs Let_def split: option.splits)

theorem breaker_open_window_monotone_witness:
  "\<exists>u'. bstate (breaker_report (sample_breaker (Open 10))
      (RetryAfter 100 5) \<lparr>t_issuer = 7, t_generation = 0, t_probe = False\<rparr>) = Open u' \<and> 10 \<le> u'"
  by (rule breaker_open_window_monotone) (simp add: sample_breaker_def)

lemma stale_metadata:
  assumes "t_issuer t \<noteq> issuer b \<or>
     t_generation t \<noteq> generation b \<and>
       (open_cohort b \<noteq> Some (t_generation t) \<or> (\<forall>u. bstate b \<noteq> Open u))"
  shows "on_success b t = b" "on_failure_metadata b t now = b" "on_retry_after_metadata b t now ms = b"
proof -
  show "on_success b t = b" using assms by (auto simp: on_success_def)
  show "on_failure_metadata b t now = b" using assms by (auto simp: on_failure_metadata_def)
  show "on_retry_after_metadata b t now ms = b"
    using assms by (cases "bstate b") (auto simp: on_retry_after_metadata_def Let_def)
qed

text \<open>
  A late ticket has no effect: a ticket of another instance, or of a generation the breaker
  has left (unless it is of the cohort that opened the current window, whose \<open>Retry-After\<close> may only
  lengthen it), leaves every field unchanged.
\<close>

theorem breaker_stale_ticket_ignored:
  assumes "t_issuer t \<noteq> issuer b \<or>
     t_generation t \<noteq> generation b \<and>
       (open_cohort b \<noteq> Some (t_generation t) \<or> (\<forall>u. bstate b \<noteq> Open u))"
  shows "breaker_report b r t = b"
  using stale_metadata [OF assms]
  by (cases r) (simp_all add: on_failure_def on_retry_after_def on_failure_with_retry_after_def split: option.splits)

theorem breaker_stale_ticket_ignored_witness:
  "breaker_report (sample_breaker (Closed 1)) (Failure 5) \<lparr>t_issuer = 7, t_generation = 0, t_probe = False\<rparr>
     = sample_breaker (Closed 1)"
  by (rule breaker_stale_ticket_ignored) (simp add: sample_breaker_def)

text \<open>\<open>n\<close> requests in a row that are admitted and fail.\<close>

fun fail_times :: "breaker \<Rightarrow> nat \<Rightarrow> u64 \<Rightarrow> breaker" where
  "fail_times b 0 now = b"
| "fail_times b (Suc n) now =
     (case admit (fail_times b n now) now of
        ((a, Some t), b') \<Rightarrow> on_failure b' t now
      | ((a, None), b') \<Rightarrow> b')"

lemma fail_times_bclass [simp]: "bclass (fail_times b n now) = bclass b"
  by (induction n) (auto simp: admit_def on_failure_def on_failure_metadata_def Let_def
      split: bstate.splits option.splits if_splits)

lemma fail_step_closed:
  "bstate b = Closed k \<Longrightarrow>
     bstate (case admit b now of ((a, Some t), b') \<Rightarrow> on_failure b' t now | ((a, None), b') \<Rightarrow> b')
       = (if k + 1 < failure_threshold (bclass b) then Closed (k + 1)
          else Open (saturating_add now (recovery_ms (bclass b))))"
  by (simp add: admit_def on_failure_def on_failure_metadata_def Let_def)

lemma failure_threshold_unat: "unat (failure_threshold c) \<in> {2, 3, 5}"
  by (cases c) simp_all

lemma fail_times_below:
  assumes "bstate b = Closed 0"
  shows "n < unat (failure_threshold (bclass b)) \<Longrightarrow> bstate (fail_times b n now) = Closed (of_nat n)"
proof (induction n)
  case 0
  with assms show ?case by simp
next
  case (Suc n)
  from Suc.prems failure_threshold_unat [of "bclass b"] have "n < 5" by auto
  then have "unat (of_nat n + 1 :: u32) = Suc n"
    by (simp add: unat_word_ariths unat_of_nat)
  with Suc show ?case by (simp add: fail_step_closed word_less_nat_alt add.commute)
qed

text \<open>
  The thresholds count consecutive failures exactly: from a closed breaker with no failures,
  every run shorter than the class's threshold leaves it closed with that count, and the run of
  exactly the threshold opens it for the class's recovery window from that moment.
\<close>

theorem breaker_threshold_exact:
  assumes "bstate b = Closed 0"
  shows "(\<forall>n < unat (failure_threshold (bclass b)). bstate (fail_times b n now) = Closed (of_nat n)) \<and>
     bstate (fail_times b (unat (failure_threshold (bclass b))) now)
       = Open (saturating_add now (recovery_ms (bclass b)))"
proof -
  obtain m where m: "unat (failure_threshold (bclass b)) = Suc m"
    using failure_threshold_unat [of "bclass b"] by (cases "unat (failure_threshold (bclass b))") auto
  from fail_times_below [OF assms] m have c: "bstate (fail_times b m now) = Closed (of_nat m)" by simp
  have "m < 5" using failure_threshold_unat [of "bclass b"] m by auto
  then have "unat (of_nat m + 1 :: u32) = Suc m"
    by (simp add: unat_word_ariths unat_of_nat)
  then have "\<not> of_nat m + 1 < failure_threshold (bclass b)"
    by (simp add: word_less_nat_alt m add.commute)
  with fail_step_closed [OF c] show ?thesis using fail_times_below [OF assms] by (simp add: m)
qed

theorem breaker_threshold_exact_witness:
  "bstate (fail_times \<lparr>issuer = 0, bclass = OAuth, bstate = Closed 0, generation = 0, open_cohort = None\<rparr>
      3 1000) = Open 61000"
  using breaker_threshold_exact
    [of "\<lparr>issuer = 0, bclass = OAuth, bstate = Closed 0, generation = 0, open_cohort = None\<rparr>" 1000]
  by (simp add: saturating_add_def)

lemma retry_fold_value:
  "unat (foldl (\<lambda>s d. saturating_add (saturating_mul s 10) (of_nat (d - 48))) (acc::u64) ds)
     = min (foldl (\<lambda>s d. s * 10 + (d - 48)) (unat acc) ds) (2 ^ 64 - 1)"
  if "list_all is_ascii_digit ds"
  using that
proof (induction ds arbitrary: acc rule: rev_induct)
  case Nil
  have "unat acc < 2 ^ 64" using unsigned_less [of acc] by simp
  then show ?case by simp
next
  case (snoc d ds)
  let ?v = "foldl (\<lambda>s d. s * 10 + (d - 48)) (unat acc) ds"
  from snoc.prems have d: "d - 48 < 10" by (auto simp: is_ascii_digit_def)
  then have "unat (of_nat (d - 48) :: u64) = d - 48" by (simp add: unat_of_nat)
  moreover have "unat (foldl (\<lambda>s d. saturating_add (saturating_mul s 10) (of_nat (d - 48))) acc ds)
      = min ?v (2 ^ 64 - 1)"
    using snoc by simp
  ultimately have "unat (foldl (\<lambda>s d. saturating_add (saturating_mul s 10) (of_nat (d - 48))) acc (ds @ [d]))
      = min (min (min ?v (2 ^ 64 - 1) * 10) (2 ^ 64 - 1) + (d - 48)) (2 ^ 64 - 1)"
    by (simp add: u64_simps)
  also have "\<dots> = min (?v * 10 + (d - 48)) (2 ^ 64 - 1)"
    by (simp add: min_def)
  finally show ?case by simp
qed

text \<open>The number a list of ASCII digits denotes.\<close>

text \<open>
  \<open>Retry-After\<close> is read exactly, saturating: a header that is decimal digits once trimmed
  is the milliseconds of that many seconds, capped at the largest \<open>u64\<close>, and everything else is refused.
\<close>

theorem parse_retry_after_exact:
  "map_option unat (parse_retry_after_ms raw) =
     (let ds = trim_matches is_unicode_whitespace raw
      in if ds \<noteq> [] \<and> list_all is_ascii_digit ds
         then Some (min (decimal_value ds * 1000) (2 ^ 64 - 1)) else None)"
proof (cases "list_all is_ascii_digit (trim_matches is_unicode_whitespace raw)")
  case True
  from retry_fold_value [OF this, of 0] True show ?thesis
    by (auto simp: parse_retry_after_ms_def Let_def decimal_value_def u64_simps list_all_iff)
next
  case False
  then show ?thesis by (auto simp: parse_retry_after_ms_def Let_def list_all_iff)
qed

section \<open>Properties of the book\<close>

fun book_report :: "'k book \<Rightarrow> 'k \<Rightarrow> credential_class \<Rightarrow> report \<Rightarrow> ticket \<Rightarrow> 'k book" where
  "book_report m k c Success t = book_on_success m k c t"
| "book_report m k c (Failure now) t = book_on_failure m k c t now"
| "book_report m k c (FailureRetry now ms) t = book_on_failure_with_retry_after m k c t now ms"
| "book_report m k c (RetryAfter now ms) t = book_on_retry_after m k c t now ms"

lemma book_report_update: "book_report m k c r t = book_update m k c (\<lambda>b. breaker_report b r t)"
  by (cases r) (simp_all add: book_on_success_def book_on_failure_def
      book_on_failure_with_retry_after_def book_on_retry_after_def)

lemma claim_entryE:
  assumes "claim_entry m ck now = Some (a, m')"
  obtains b b' where "m ck = Some b" "admit b now = (a, b')" "m' = m(ck \<mapsto> b')"
  using assms by (auto simp: claim_entry_def split: option.splits prod.splits)

lemma breaker_newD:
  "breaker_new c ctr = Some (b, ctr') \<Longrightarrow>
     b = \<lparr>issuer = ctr, bclass = c, bstate = Closed 0, generation = 0, open_cohort = None\<rparr> \<and> ctr < ctr'"
  using checked_add_unat [of ctr 1]
  by (auto simp: breaker_new_def next_issuer_def word_less_nat_alt split: option.splits)

lemma ensure_entryE:
  assumes "ensure_entry m ck ctr = Some (m', ctr')"
  obtains (present) b where "m ck = Some b" "m' = m" "ctr' = ctr"
  | (made) "m ck = None" "ctr < ctr'" "breaker_new (fst ck) ctr \<noteq> None"
      "m' = m(ck \<mapsto> \<lparr>issuer = ctr, bclass = fst ck, bstate = Closed 0, generation = 0, open_cohort = None\<rparr>)"
  using assms by (auto simp: ensure_entry_def dest: breaker_newD split: option.splits)

lemma ensure_entry_other: "ensure_entry m ck ctr = Some (m', ctr') \<Longrightarrow> x \<noteq> ck \<Longrightarrow> m' x = m x"
  by (auto elim!: ensure_entryE)

lemma claim_entry_other: "claim_entry m ck now = Some (a, m') \<Longrightarrow> x \<noteq> ck \<Longrightarrow> m' x = m x"
  by (auto elim!: claim_entryE)

lemma claim_entry_admission:
  assumes "claim_entry m (c, k) now = Some (a, m')"
  shows "fst a = book_readiness m k c now \<and> (snd a \<noteq> None \<longleftrightarrow> admitted (fst a))"
  using assms
proof (rule claim_entryE)
  fix b b'
  assume "m (c, k) = Some b" and adm: "admit b now = (a, b')"
  then show ?thesis using admit_readiness [of b now] admit_ticket_iff [of b now]
    by (simp add: book_readiness_def)
qed

lemma ensure_entry_readiness:
  assumes "ensure_entry m ck ctr = Some (m', ctr')"
  shows "book_readiness m' k c now = book_readiness m k c now"
  using assms
proof (cases rule: ensure_entryE)
  case made
  then show ?thesis by (cases "ck = (c, k)") (auto simp: book_readiness_def readiness_def)
qed simp

text \<open>Making an entry and claiming another key commute.\<close>

lemma ensure_claim_commute:
  assumes ne: "ck \<noteq> ck'" and e: "ensure_entry m ck ctr = Some (m1, ctr1)"
    and l: "claim_entry m1 ck' now = Some (a, m2)"
  shows "\<exists>m'. claim_entry m ck' now = Some (a, m') \<and> ensure_entry m' ck ctr = Some (m2, ctr1)"
proof -
  from l obtain b b' where b: "m1 ck' = Some b" "admit b now = (a, b')" "m2 = m1(ck' \<mapsto> b')"
    by (rule claim_entryE)
  with ensure_entry_other [OF e] ne have "m ck' = Some b" by simp
  then have "claim_entry m ck' now = Some (a, m(ck' \<mapsto> b'))" by (simp add: claim_entry_def b(2))
  moreover have "ensure_entry (m(ck' \<mapsto> b')) ck ctr = Some (m2, ctr1)"
  proof (cases "m ck")
    case None
    with e obtain n where "breaker_new (fst ck) ctr = Some (n, ctr1)" "m1 = m(ck \<mapsto> n)"
      by (auto simp: ensure_entry_def split: option.splits)
    with None ne show ?thesis by (simp add: ensure_entry_def b(3) fun_upd_twist [OF ne])
  next
    case (Some n)
    with e ne show ?thesis by (simp add: ensure_entry_def b(3))
  qed
  ultimately show ?thesis by blast
qed

lemma claim_entry_readiness_other:
  "claim_entry m ck now = Some (a, m') \<Longrightarrow> (c, k) \<noteq> ck \<Longrightarrow> book_readiness m' k c now = book_readiness m k c now"
  by (simp add: book_readiness_def claim_entry_other)

text \<open>
  A pair admission is the two single admissions in order: when it succeeds the gates are
  distinct, both are admitted with a ticket each, and tickets, book and issuer counter are those
  of admitting the first and then the second alone.
\<close>

theorem book_admit_pair_sequential:
  assumes "book_admit_pair m (k1, c1) (k2, c2) now ctr = Some (Inr (r1, r2, m', ctr'))"
  shows "(c1, k1) \<noteq> (c2, k2) \<and> admitted (fst r1) \<and> admitted (fst r2) \<and> snd r1 \<noteq> None \<and> snd r2 \<noteq> None \<and>
    (\<exists>m1 ctr1. book_admit m k1 c1 now ctr = Some (r1, m1, ctr1) \<and>
       book_admit m1 k2 c2 now ctr1 = Some (r2, m', ctr'))"
proof -
  from assms obtain m1 ctr1 m2 m3 where
    ne: "(c1, k1) \<noteq> (c2, k2)"
    and ready: "admitted (book_readiness m k1 c1 now)" "admitted (book_readiness m k2 c2 now)"
    and e1: "ensure_entry m (c1, k1) ctr = Some (m1, ctr1)"
    and e2: "ensure_entry m1 (c2, k2) ctr1 = Some (m2, ctr')"
    and l1: "claim_entry m2 (c1, k1) now = Some (r1, m3)"
    and l2: "claim_entry m3 (c2, k2) now = Some (r2, m')"
    by (auto simp: book_admit_pair_def Let_def split: if_splits option.splits prod.splits)
  from ensure_claim_commute [OF ne [symmetric] e2 l1] obtain n where
    n: "claim_entry m1 (c1, k1) now = Some (r1, n)" "ensure_entry n (c2, k2) ctr1 = Some (m3, ctr')" by blast
  have "fst r1 = book_readiness m k1 c1 now" "snd r1 \<noteq> None \<longleftrightarrow> admitted (fst r1)"
    using claim_entry_admission [OF n(1)] ensure_entry_readiness [OF e1] by simp_all
  moreover have "fst r2 = book_readiness m k2 c2 now" "snd r2 \<noteq> None \<longleftrightarrow> admitted (fst r2)"
    using claim_entry_admission [OF l2] claim_entry_readiness_other [OF l1 ne [symmetric]]
      ensure_entry_readiness [OF e1] ensure_entry_readiness [OF e2] by simp_all
  moreover have "book_admit m k1 c1 now ctr = Some (r1, n, ctr1)"
    by (simp add: book_admit_def e1 n)
  moreover have "book_admit n k2 c2 now ctr1 = Some (r2, m', ctr')"
    by (simp add: book_admit_def n l2)
  ultimately show ?thesis using ne ready by auto
qed

theorem book_admit_pair_sequential_witness:
  "\<exists>r1 r2 m' ctr'. book_admit_pair book_new (0::nat, ApiKey) (1, Local) 5 0 = Some (Inr (r1, r2, m', ctr')) \<and>
     admitted (fst r1) \<and> admitted (fst r2)"
proof -
  have *: "\<exists>r1 r2 m' ctr'. book_admit_pair book_new (0::nat, ApiKey) (1, Local) 5 0 = Some (Inr (r1, r2, m', ctr'))"
    by (simp add: book_admit_pair_def book_new_def book_readiness_def ensure_entry_def breaker_new_def
        next_issuer_def checked_add_def claim_entry_def admit_def)
  then obtain r1 r2 m' ctr' where
    r: "book_admit_pair book_new (0::nat, ApiKey) (1, Local) 5 0 = Some (Inr (r1, r2, m', ctr'))" by blast
  from book_admit_pair_sequential [OF r] r show ?thesis by blast
qed

text \<open>Every book the operations reach from the empty one, with the issuer counter.\<close>

inductive book_reach :: "'k book \<times> u64 \<Rightarrow> bool" where
  fresh: "book_reach (book_new, ctr)"
| admit: "book_reach (m, ctr) \<Longrightarrow> book_admit m k c now ctr = Some (a, m', ctr') \<Longrightarrow> book_reach (m', ctr')"
| pair: "book_reach (m, ctr) \<Longrightarrow> book_admit_pair m p q now ctr = Some (Inr (a, b, m', ctr'))
    \<Longrightarrow> book_reach (m', ctr')"
| report: "book_reach (m, ctr) \<Longrightarrow> book_reach (book_report m k c r t, ctr)"

definition book_wf :: "'k book \<Rightarrow> u64 \<Rightarrow> bool" where
  "book_wf m ctr \<longleftrightarrow> (\<forall>x b. m x = Some b \<longrightarrow> bclass b = fst x \<and> issuer b < ctr) \<and>
     (\<forall>x y b b'. m x = Some b \<longrightarrow> m y = Some b' \<longrightarrow> issuer b = issuer b' \<longrightarrow> x = y)"

lemma book_wf_class: "book_wf m ctr \<Longrightarrow> m x = Some b \<Longrightarrow> bclass b = fst x"
  and book_wf_issuer: "book_wf m ctr \<Longrightarrow> m x = Some b \<Longrightarrow> issuer b < ctr"
  unfolding book_wf_def by blast+

lemma book_wf_inj: "book_wf m ctr \<Longrightarrow> m x = Some b \<Longrightarrow> m y = Some b' \<Longrightarrow> issuer b = issuer b' \<Longrightarrow> x = y"
  unfolding book_wf_def by blast

lemma ensure_entry_wf:
  assumes wf: "book_wf m ctr" and "ensure_entry m ck ctr = Some (m', ctr')"
  shows "book_wf m' ctr'"
  using assms(2)
proof (cases rule: ensure_entryE)
  case made
  have new: "issuer b = ctr \<and> bclass b = fst x" if "m' x = Some b" "x = ck" for x b
    using that by (simp add: made(4)) force
  have old: "m x = Some b" if "m' x = Some b" "x \<noteq> ck" for x b
    using that by (simp add: made(4))
  have "bclass b = fst x \<and> issuer b < ctr'" if b: "m' x = Some b" for x b
  proof (cases "x = ck")
    case True
    with new [OF b] made(2) show ?thesis by simp
  next
    case False
    from book_wf_class [OF wf old [OF b False]] book_wf_issuer [OF wf old [OF b False]] made(2)
    show ?thesis by (simp add: less_trans)
  qed
  moreover have "x = y" if b: "m' x = Some b" "m' y = Some b'" "issuer b = issuer b'" for x y b b'
  proof (rule ccontr)
    assume "x \<noteq> y"
    then consider "x = ck" "y \<noteq> ck" | "y = ck" "x \<noteq> ck" | "x \<noteq> ck" "y \<noteq> ck" by blast
    then show False
    proof cases
      case 1
      from new [OF b(1) 1(1)] book_wf_issuer [OF wf old [OF b(2) 1(2)]] b(3) show False by simp
    next
      case 2
      from new [OF b(2) 2(1)] book_wf_issuer [OF wf old [OF b(1) 2(2)]] b(3) show False by simp
    next
      case 3
      from book_wf_inj [OF wf old [OF b(1) 3(1)] old [OF b(2) 3(2)] b(3)] \<open>x \<noteq> y\<close> show False by simp
    qed
  qed
  ultimately show ?thesis unfolding book_wf_def by blast
qed (use wf in simp)

lemma book_wf_map:
  assumes wf: "book_wf m ctr" and m: "m ck = Some b" and b': "issuer b' = issuer b" "bclass b' = bclass b"
  shows "book_wf (m(ck \<mapsto> b')) ctr"
proof -
  have *: "\<exists>d. m x = Some d \<and> issuer d = issuer c \<and> bclass d = bclass c" if "(m(ck \<mapsto> b')) x = Some c" for x c
    using that m b' by (cases "x = ck") simp_all
  have "bclass c = fst x \<and> issuer c < ctr" if "(m(ck \<mapsto> b')) x = Some c" for x c
    using * [OF that] book_wf_class [OF wf] book_wf_issuer [OF wf] by metis
  moreover have "x = y"
    if "(m(ck \<mapsto> b')) x = Some c" "(m(ck \<mapsto> b')) y = Some c'" "issuer c = issuer c'" for x y c c'
    using * [OF that(1)] * [OF that(2)] that(3) book_wf_inj [OF wf] by metis
  ultimately show ?thesis unfolding book_wf_def by blast
qed

lemma admit_frame: "admit b now = (a, b') \<Longrightarrow> issuer b' = issuer b \<and> bclass b' = bclass b"
  by (auto simp: admit_def split: bstate.splits if_splits)

lemma claim_entry_wf: "book_wf m ctr \<Longrightarrow> claim_entry m ck now = Some (a, m') \<Longrightarrow> book_wf m' ctr"
  by (auto elim!: claim_entryE dest: admit_frame intro!: book_wf_map)

lemma book_admit_wf:
  assumes wf: "book_wf m ctr" and "book_admit m k c now ctr = Some (a, m', ctr')"
  shows "book_wf m' ctr'"
proof -
  from assms(2) obtain m1 where e: "ensure_entry m (c, k) ctr = Some (m1, ctr')"
    and l: "claim_entry m1 (c, k) now = Some (a, m')"
    by (auto simp: book_admit_def split: option.splits)
  show ?thesis by (rule claim_entry_wf [OF ensure_entry_wf [OF wf e] l])
qed

lemma book_report_wf: "book_wf m ctr \<Longrightarrow> book_wf (book_report m k c r t) ctr"
  by (auto simp: book_report_update book_update_def intro!: book_wf_map split: option.splits)

lemma book_reach_wf: "book_reach st \<Longrightarrow> book_wf (fst st) (snd st)"
proof (induction rule: book_reach.induct)
  case (fresh ctr)
  show ?case by (simp add: book_wf_def book_new_def)
next
  case (pair m ctr p q now a b m' ctr')
  obtain k1 c1 k2 c2 where pq: "p = (k1, c1)" "q = (k2, c2)" by (cases p, cases q)
  from book_admit_pair_sequential [OF pair.hyps(2) [unfolded pq]] pair.IH
  show ?case by (auto intro: book_admit_wf)
qed (auto intro: book_admit_wf book_report_wf)

text \<open>
  Tickets never cross gates: in every book the operations reach, a ticket of the breaker of
  one class and key, reported at another class or key, changes nothing.
\<close>

theorem book_ticket_isolation:
  assumes "book_reach (m, ctr)" and "m (c, k) = Some b" and "t_issuer t = issuer b" and "(c', k') \<noteq> (c, k)"
  shows "book_report m k' c' r t = m"
proof (cases "m (c', k')")
  case None
  then show ?thesis by (simp add: book_report_update book_update_def)
next
  case (Some b')
  from book_reach_wf [OF assms(1)] have "book_wf m ctr" by simp
  from book_wf_inj [OF this assms(2) Some] assms(3,4) have "t_issuer t \<noteq> issuer b'" by metis
  from report_foreign [OF this] Some show ?thesis
    by (simp add: book_report_update book_update_def map_upd_triv)
qed

definition sample_entry :: breaker where
  "sample_entry = \<lparr>issuer = 0, bclass = Local, bstate = Closed 0, generation = 0, open_cohort = None\<rparr>"

theorem book_ticket_isolation_witness:
  "book_report (Map.empty((Local, 3::nat) \<mapsto> sample_entry)) 4 Local (Failure 9)
      \<lparr>t_issuer = 0, t_generation = 0, t_probe = False\<rparr> = Map.empty((Local, 3) \<mapsto> sample_entry)"
proof -
  have "book_admit book_new (3::nat) Local 0 0 = Some ((Allowed,
      Some \<lparr>t_issuer = 0, t_generation = 0, t_probe = False\<rparr>), Map.empty((Local, 3) \<mapsto> sample_entry), 1)"
    by (simp add: book_admit_def book_new_def ensure_entry_def breaker_new_def next_issuer_def checked_add_def
        claim_entry_def admit_def sample_entry_def)
  from book_reach.admit [OF book_reach.fresh this] show ?thesis
    by (rule book_ticket_isolation) (auto simp: sample_entry_def)
qed

end
