(* ===== verification/Registry.thy ===== *)
theory Registry
  imports Privacy
begin

text \<open>
  Registration checks (\<^verbatim>\<open>crates/idoris-policy/src/registry.rs\<close>,
  \<^verbatim>\<open>card_validation.rs\<close>): duplicate provider ids, loopback endpoints, contradictory relay
  claims and the cross-field policy of a component card. The URL parser is the third-party
  \<open>url\<close> crate: its functions are the parameter \<open>url_lib\<close>. The cargo feature
  \<open>dev-mock\<close> is the parameter \<open>dev_mock\<close>.
\<close>

record 'u url_lib =
  url_parse :: "string \<Rightarrow> 'u option"
  url_scheme :: "'u \<Rightarrow> string"
  url_host_str :: "'u \<Rightarrow> string option"

datatype registration_error =
    DuplicateProviderId string
  | EndpointUnparseable string string
  | LoopbackHostMismatch string string
  | UnsupportedScheme string string
  | ContradictoryRelayClaim string
  | CardPolicyViolation string string

definition LOOPBACK_HOSTS :: "string list" where
  "LOOPBACK_HOSTS = [''127.0.0.1'', ''[::1]'', ''localhost'']"

definition declares_network_endpoint :: "form \<Rightarrow> bool" where
  "declares_network_endpoint f \<longleftrightarrow> f = HttpService \<or> f = NostrNode \<or> f = MitmProxy"

definition is_dev_mock_scheme_allowed :: "bool \<Rightarrow> string \<Rightarrow> bool" where
  "is_dev_mock_scheme_allowed dev_mock scheme \<longleftrightarrow> dev_mock \<and> scheme = ''mock''"

definition parse_loopback_endpoint_url ::
    "'u url_lib \<Rightarrow> bool \<Rightarrow> card \<Rightarrow> registration_error + 'u option" where
  "parse_loopback_endpoint_url U dev_mock c =
     (let cc = component c in
      if \<not> declares_network_endpoint (c_form cc) \<or> p_locality (c_provider cc) \<noteq> Loopback then Inr None
      else case url_parse U (c_endpoint cc) of
          None \<Rightarrow> Inl (EndpointUnparseable (card_id c) (c_endpoint cc))
        | Some parsed \<Rightarrow>
            (let scheme = url_scheme U parsed in
             if is_dev_mock_scheme_allowed dev_mock scheme then Inr None
             else if \<not> List.member [''http'', ''https'', ''ws'', ''wss''] scheme
               then Inl (UnsupportedScheme (card_id c) scheme)
             else case url_host_str U parsed of
                 None \<Rightarrow> Inl (EndpointUnparseable (card_id c) (c_endpoint cc))
               | Some host \<Rightarrow>
                   if \<not> List.member LOOPBACK_HOSTS host then Inl (LoopbackHostMismatch (card_id c) host)
                   else Inr (Some parsed)))"

definition assert_endpoint_locality_consistent ::
    "'u url_lib \<Rightarrow> bool \<Rightarrow> card \<Rightarrow> registration_error + unit" where
  "assert_endpoint_locality_consistent U dev_mock c =
     bind_result (parse_loopback_endpoint_url U dev_mock c) (\<lambda>_. Inr ())"

definition assert_no_contradictory_relay_claim :: "card \<Rightarrow> registration_error + unit" where
  "assert_no_contradictory_relay_claim c =
     (let cc = component c;
          relay = (c_form cc = SpawnCli \<or> is_subscription_provider_id (card_id c))
      in if \<not> relay then Inr ()
         else if c_privacy_class cc \<noteq> LocalOnly \<and> p_tier (c_provider cc) \<noteq> LocalTier then Inr ()
         else Inl (ContradictoryRelayClaim (card_id c)))"

section \<open>Cross-field policy of a card\<close>

definition has_js_non_whitespace :: "string \<Rightarrow> bool" where
  "has_js_non_whitespace v \<longleftrightarrow>
     trim_matches (\<lambda>c. is_unicode_whitespace c \<and> c \<noteq> 0x85 \<or> c = 0xFEFF) (chars v) \<noteq> []"

definition declares_degradation :: "(string \<times> json) list \<Rightarrow> bool" where
  "declares_degradation ext \<longleftrightarrow>
     (case map_of ext ''_degradation'' of
        None \<Rightarrow> False
      | Some v \<Rightarrow> (case as_str v of None \<Rightarrow> False | Some s \<Rightarrow> has_js_non_whitespace s))"

definition degradation_missing :: "component_card \<Rightarrow> bool" where
  "degradation_missing cc \<longleftrightarrow>
     list_ex (\<lambda>ext. ext \<noteq> [] \<and> \<not> declares_degradation ext)
       (List.map_filter (\<lambda>x. x) [c_extensions cc, p_extensions (c_provider cc)])"

definition policy_rules :: "component_card \<Rightarrow> (bool \<times> string) list" where
  "policy_rules cc =
     (let local_only = (c_privacy_class cc = LocalOnly);
          local_tier = (p_tier (c_provider cc) = LocalTier);
          egress = c_allowed_egress cc
      in [(local_only \<and> \<not> c_fail_closed cc, ''LOCAL_ONLY_REQUIRES_FAIL_CLOSED''),
          (p_privacy_class (c_provider cc) = LocalOnly \<and> \<not> local_only, ''PRIVACY_CLASS_MISMATCH''),
          (local_tier \<and> p_locality (c_provider cc) = Remote, ''LOCAL_TIER_CANNOT_BE_REMOTE_LOCALITY''),
          (local_tier \<and> c_load_policy cc = None, ''LOCAL_TIER_REQUIRES_LOAD_POLICY'')]
         @ (case c_load_policy cc of
              None \<Rightarrow> []
            | Some lp \<Rightarrow> [((lp_mode lp = Resident) \<noteq> (lp_keepalive lp = Pinned True),
                          ''LOAD_POLICY_MODE_KEEPALIVE_MISMATCH'')])
         @ [(List.member egress NoEgress \<and> length egress \<noteq> 1, ''EGRESS_NONE_MUST_BE_EXCLUSIVE''),
            (local_only \<and> List.member egress InternetEgress, ''LOCAL_ONLY_CANNOT_ALLOW_INTERNET''),
            (local_only \<and> list_ex (\<lambda>e. e \<noteq> NoEgress \<and> e \<noteq> LoopbackEgress) egress,
             ''LOCAL_ONLY_EGRESS_MUST_BE_LOOPBACK'')])"

definition validate_card_policy :: "card \<Rightarrow> registration_error + unit" where
  "validate_card_policy c =
     (if degradation_missing (component c)
      then Inl (CardPolicyViolation (card_id c) ''EXTENSIONS_MISSING_DEGRADATION'')
      else case find fst (policy_rules (component c)) of
          Some (_, rule) \<Rightarrow> Inl (CardPolicyViolation (card_id c) rule)
        | None \<Rightarrow> Inr ())"

section \<open>The registry\<close>

fun check_duplicates :: "string set \<Rightarrow> card list \<Rightarrow> registration_error + unit" where
  "check_duplicates seen [] = Inr ()"
| "check_duplicates seen (c # cs) =
     (if card_id c \<in> seen then Inl (DuplicateProviderId (card_id c))
      else check_duplicates (insert (card_id c) seen) cs)"

definition check_card :: "'u url_lib \<Rightarrow> bool \<Rightarrow> card \<Rightarrow> registration_error + unit" where
  "check_card U dev_mock c =
     bind_result (assert_endpoint_locality_consistent U dev_mock c) (\<lambda>_.
     bind_result (assert_no_contradictory_relay_claim c) (\<lambda>_.
     validate_card_policy c))"

fun check_cards :: "'u url_lib \<Rightarrow> bool \<Rightarrow> card list \<Rightarrow> registration_error + unit" where
  "check_cards U dev_mock [] = Inr ()"
| "check_cards U dev_mock (c # cs) = bind_result (check_card U dev_mock c) (\<lambda>_. check_cards U dev_mock cs)"

definition validate_registration :: "'u url_lib \<Rightarrow> bool \<Rightarrow> card list \<Rightarrow> registration_error + unit" where
  "validate_registration U dev_mock cs =
     bind_result (check_duplicates {} cs) (\<lambda>_. check_cards U dev_mock cs)"

lemma check_duplicates_ok:
  "check_duplicates seen cs = Inr () \<longleftrightarrow> distinct (map card_id cs) \<and> seen \<inter> card_id ` set cs = {}"
  by (induction cs arbitrary: seen) auto

lemma check_duplicates_error:
  "check_duplicates seen cs = Inl e \<Longrightarrow> \<exists>i. e = DuplicateProviderId i \<and> i \<in> card_id ` set cs"
  by (induction cs arbitrary: seen) (auto split: if_splits)

lemma check_cards_ok: "check_cards U dev cs = Inr () \<longleftrightarrow> (\<forall>c \<in> set cs. check_card U dev c = Inr ())"
  by (induction cs) (auto simp: result_simps)

lemma find_eq_None: "find P xs = None \<longleftrightarrow> \<not> list_ex P xs"
  by (auto simp: find_None_iff list_ex_iff)

lemma validate_card_policy_ok:
  "validate_card_policy c = Inr () \<longleftrightarrow> \<not> degradation_missing (component c) \<and> \<not> list_ex fst (policy_rules (component c))"
  by (auto simp: validate_card_policy_def find_eq_None split: option.splits simp flip: find_eq_None)

lemma validate_registration_ok:
  "validate_registration U dev cs = Inr () \<longleftrightarrow>
     distinct (map card_id cs) \<and> (\<forall>c \<in> set cs. check_card U dev c = Inr ())"
  by (simp add: validate_registration_def result_simps check_duplicates_ok check_cards_ok)

lemma check_card_ok:
  "check_card U dev c = Inr () \<longleftrightarrow>
     is_ok (parse_loopback_endpoint_url U dev c) \<and> assert_no_contradictory_relay_claim c = Inr ()
     \<and> validate_card_policy c = Inr ()"
  by (auto simp: check_card_def assert_endpoint_locality_consistent_def result_simps is_ok_iff)

section \<open>Properties\<close>

text \<open>
  What registration accepts, rule by rule: distinct ids, and for every card a loopback
  endpoint that is one, no local claim on a relay, a degradation note where it has extensions, and
  the eight cross-field rules.
\<close>

theorem validate_registration_accepts:
  "validate_registration U dev cs = Inr () \<longleftrightarrow>
     distinct (map card_id cs) \<and>
     (\<forall>c \<in> set cs. let cc = component c; p = c_provider cc in
        is_ok (parse_loopback_endpoint_url U dev c) \<and>
        (c_form cc = SpawnCli \<or> card_id c = SUBSCRIPTION_PROVIDER_ID
           \<longrightarrow> c_privacy_class cc = AnyPrivacy \<and> p_tier p \<noteq> LocalTier) \<and>
        \<not> degradation_missing cc \<and>
        (c_privacy_class cc = LocalOnly
           \<longrightarrow> c_fail_closed cc \<and> set (c_allowed_egress cc) \<subseteq> {NoEgress, LoopbackEgress}) \<and>
        (p_privacy_class p = LocalOnly \<longrightarrow> c_privacy_class cc = LocalOnly) \<and>
        (p_tier p = LocalTier \<longrightarrow> p_locality p \<noteq> Remote \<and> c_load_policy cc \<noteq> None) \<and>
        (\<forall>lp. c_load_policy cc = Some lp
           \<longrightarrow> (lp_mode lp = Resident \<longleftrightarrow> lp_keepalive lp = Pinned True)) \<and>
        (NoEgress \<in> set (c_allowed_egress cc) \<longrightarrow> c_allowed_egress cc = [NoEgress]))"
proof -
  have relay: "assert_no_contradictory_relay_claim c = Inr () \<longleftrightarrow>
      (c_form (component c) = SpawnCli \<or> card_id c = SUBSCRIPTION_PROVIDER_ID
        \<longrightarrow> c_privacy_class (component c) = AnyPrivacy \<and> p_tier (c_provider (component c)) \<noteq> LocalTier)" for c
    by (cases "c_privacy_class (component c)")
      (auto simp: assert_no_contradictory_relay_claim_def is_subscription_provider_id_def Let_def)
  have single: "\<not> (List.member e NoEgress \<and> length e \<noteq> 1) \<longleftrightarrow> (NoEgress \<in> set e \<longrightarrow> e = [NoEgress])" for e
    by (cases e rule: remdups_adj.cases) auto
  have only: "\<not> (P \<and> List.member e InternetEgress) \<and> \<not> (P \<and> list_ex (\<lambda>e. e \<noteq> NoEgress \<and> e \<noteq> LoopbackEgress) e)
      \<longleftrightarrow> (P \<longrightarrow> set e \<subseteq> {NoEgress, LoopbackEgress})" for P e
    by (auto simp: list_ex_iff)
  have rules: "\<not> list_ex fst (policy_rules cc) \<longleftrightarrow>
     (c_privacy_class cc = LocalOnly
         \<longrightarrow> c_fail_closed cc \<and> set (c_allowed_egress cc) \<subseteq> {NoEgress, LoopbackEgress}) \<and>
     (p_privacy_class (c_provider cc) = LocalOnly \<longrightarrow> c_privacy_class cc = LocalOnly) \<and>
     (p_tier (c_provider cc) = LocalTier \<longrightarrow> p_locality (c_provider cc) \<noteq> Remote \<and> c_load_policy cc \<noteq> None) \<and>
     (\<forall>lp. c_load_policy cc = Some lp \<longrightarrow> (lp_mode lp = Resident \<longleftrightarrow> lp_keepalive lp = Pinned True)) \<and>
     (NoEgress \<in> set (c_allowed_egress cc) \<longrightarrow> c_allowed_egress cc = [NoEgress])" for cc
    unfolding policy_rules_def Let_def list_ex_append list_ex_Nil_iff list_ex_Cons_iff fst_conv de_Morgan_disj single
    using only [of "c_privacy_class cc = LocalOnly" "c_allowed_egress cc"]
    by (cases "c_load_policy cc"; simp only: option.case list_ex_Nil_iff list_ex_Cons_iff fst_conv
          option.inject option.distinct; blast)
  show ?thesis
    unfolding validate_registration_ok check_card_ok validate_card_policy_ok relay rules Let_def by blast
qed

text \<open>A URL library that reads every endpoint as a plain loopback HTTP address, for the witnesses.\<close>

definition loopback_lib :: "string url_lib" where
  "loopback_lib = \<lparr>url_parse = Some, url_scheme = (\<lambda>_. ''http''), url_host_str = (\<lambda>_. Some ''127.0.0.1'')\<rparr>"

lemmas sample_simps = sample_card_def card_id_def parse_loopback_endpoint_url_def loopback_lib_def
  is_dev_mock_scheme_allowed_def LOOPBACK_HOSTS_def SUBSCRIPTION_PROVIDER_ID_def degradation_missing_def
  List.map_filter_def

theorem validate_registration_accepts_witness:
  "validate_registration loopback_lib False [sample_card ''a'' [], sample_card ''b'' []] = Inr ()"
  by (rule validate_registration_accepts [THEN iffD2]) (simp add: sample_simps)

text \<open>
  Registration makes the privacy gate sound: a registered card that claims
  \<open>local_only\<close> and a loopback locality is a trusted local card for the router, so its
  inference stays on loopback and it has no LAN or internet egress.
\<close>

theorem registered_local_only_is_local_capable:
  assumes "validate_registration U dev cs = Inr ()" and "c \<in> set cs"
    and "c_privacy_class (component c) = LocalOnly" and "p_locality (c_provider (component c)) = Loopback"
  shows "is_local_capable c"
proof -
  from assms(1,2) [unfolded validate_registration_accepts Let_def] assms(3)
  have "c_form (component c) \<noteq> SpawnCli" "card_id c \<noteq> SUBSCRIPTION_PROVIDER_ID"
    "set (c_allowed_egress (component c)) \<subseteq> {NoEgress, LoopbackEgress}" by auto
  with assms(3,4) show ?thesis
    by (auto simp: is_local_capable_def effective_served_locality_def is_subscription_provider_id_def list_all_iff)
qed

theorem registered_local_only_is_local_capable_witness:
  "is_local_capable (sample_card ''a'' [])"
proof -
  have "validate_registration loopback_lib False [sample_card ''a'' []] = Inr ()"
    by (simp add: validate_registration_def check_card_def assert_endpoint_locality_consistent_def
        assert_no_contradictory_relay_claim_def is_subscription_provider_id_def validate_card_policy_def
        policy_rules_def sample_simps Let_def)
  from registered_local_only_is_local_capable [OF this, of "sample_card ''a'' []"] show ?thesis
    by (simp add: sample_card_def)
qed

text \<open>
  A duplicate id is reported before anything about a card's content: when two cards share an
  id, the error is \<open>DuplicateProviderId\<close> of one of the ids present, whatever else is wrong.
\<close>

theorem duplicate_id_reported_first:
  assumes "\<not> distinct (map card_id cs)"
  shows "\<exists>i \<in> card_id ` set cs. validate_registration U dev cs = Inl (DuplicateProviderId i)"
proof -
  from assms have "check_duplicates {} cs \<noteq> Inr ()" by (simp add: check_duplicates_ok)
  then obtain e where e: "check_duplicates {} cs = Inl e" by (cases "check_duplicates {} cs") auto
  from check_duplicates_error [OF e] e show ?thesis by (auto simp: validate_registration_def)
qed

theorem duplicate_id_reported_first_witness:
  "validate_registration loopback_lib False [sample_card ''a'' [], sample_card ''a'' []]
     = Inl (DuplicateProviderId ''a'')"
  using duplicate_id_reported_first [of "[sample_card ''a'' [], sample_card ''a'' []]" loopback_lib False]
  by (simp add: sample_card_def card_id_def)

end
