(* ===== verification/Eviction.thy ===== *)
theory Eviction
  imports F64
begin

text \<open>
  Eviction planning (\<^verbatim>\<open>crates/idoris-backend/src/eviction.rs\<close>): a pure function from a
  snapshot of the supervisor's ledger and an incoming model to a plan. Memory is \<open>f64\<close>
  gigabytes, with its arithmetic and its rounding; the LRU counter is \<open>u64\<close>.
\<close>

datatype model_state = Launching | Loading | MReady | MError | Stopping | Stopped

record model_entry =
  m_id :: string
  memory_gb :: f64
  m_state :: model_state
  pinned :: bool
  last_used_seq :: u64
  inflight :: u32

record snapshot =
  budget_gb :: f64
  models :: "model_entry list"

record model_req =
  need_id :: string
  need_memory_gb :: f64

datatype eviction_plan = NotNeeded | Evict "string list"

datatype plan_error =
    InsufficientCapacity string f64 f64 f64
  | InvalidCapacity string f64
  | SnapshotContainsRequestedModel string

fun plan_reason_code :: "plan_error \<Rightarrow> string" where
  "plan_reason_code (InsufficientCapacity _ _ _ _) = ''eviction_impossible''"
| "plan_reason_code (InvalidCapacity _ _) = ''invalid_capacity_value''"
| "plan_reason_code (SnapshotContainsRequestedModel _) = ''snapshot_contains_requested_model''"

definition CAPACITY_EPSILON_GB :: f64 where
  "CAPACITY_EPSILON_GB = f64_literal 1 1000000"

definition validate_capacity :: "string \<Rightarrow> f64 \<Rightarrow> plan_error + unit" where
  "validate_capacity field v =
     (if f64_is_finite v \<and> f64_le f64_zero v then Inr () else Inl (InvalidCapacity field v))"

fun occupies_budget :: "model_state \<Rightarrow> bool" where
  "occupies_budget Loading = True"
| "occupies_budget MReady = True"
| "occupies_budget Stopping = True"
| "occupies_budget MError = True"
| "occupies_budget Launching = False"
| "occupies_budget Stopped = False"

fun validate_models :: "model_entry list \<Rightarrow> plan_error + unit" where
  "validate_models [] = Inr ()"
| "validate_models (m # ms) =
     bind_result (validate_capacity ''model.memory_gb'' (memory_gb m)) (\<lambda>_. validate_models ms)"

definition is_evictable :: "model_entry \<Rightarrow> bool" where
  "is_evictable m \<longleftrightarrow> (m_state m = MReady \<or> m_state m = MError) \<and> \<not> pinned m
     \<and> f64_lt f64_zero (memory_gb m) \<and> inflight m = 0"

definition candidates :: "snapshot \<Rightarrow> model_entry list" where
  "candidates st = sort_key last_used_seq (filter is_evictable (models st))"

text \<open>The loop that takes candidates until the shortfall is covered.\<close>

fun take_victims :: "f64 \<Rightarrow> f64 \<Rightarrow> model_entry list \<Rightarrow> f64 \<times> string list" where
  "take_victims shortfall freed [] = (freed, [])"
| "take_victims shortfall freed (c # cs) =
     (if f64_le shortfall (f64_add freed CAPACITY_EPSILON_GB) then (freed, [])
      else let (freed', ids) = take_victims shortfall (f64_add freed (memory_gb c)) cs
           in (freed', m_id c # ids))"

definition occupied_gb :: "snapshot \<Rightarrow> f64" where
  "occupied_gb st = f64_sum (map memory_gb (filter (\<lambda>m. occupies_budget (m_state m)) (models st)))"

definition available_gb :: "snapshot \<Rightarrow> f64" where
  "available_gb st = f64_sub (budget_gb st) (occupied_gb st)"

definition plan_eviction :: "snapshot \<Rightarrow> model_req \<Rightarrow> plan_error + eviction_plan" where
  "plan_eviction st need =
     bind_result (validate_capacity ''budget_gb'' (budget_gb st)) (\<lambda>_.
     bind_result (validate_capacity ''need.memory_gb'' (need_memory_gb need)) (\<lambda>_.
     bind_result (validate_models (models st)) (\<lambda>_.
     if list_ex (\<lambda>m. m_id m = need_id need) (models st)
     then Inl (SnapshotContainsRequestedModel (need_id need))
     else
     bind_result (validate_capacity ''sum of occupied model.memory_gb'' (occupied_gb st)) (\<lambda>_.
     if f64_le (need_memory_gb need) (f64_add (available_gb st) CAPACITY_EPSILON_GB) then Inr NotNeeded
     else
       let shortfall = f64_sub (need_memory_gb need) (available_gb st) in
     bind_result (validate_capacity ''shortfall_gb'' shortfall) (\<lambda>_.
       let (freed, chosen) = take_victims shortfall f64_zero (candidates st) in
     bind_result (validate_capacity ''cumulative freed_gb'' freed) (\<lambda>_.
     if f64_lt (f64_add freed CAPACITY_EPSILON_GB) shortfall then
       let evictable = f64_sum (map memory_gb (candidates st)) in
       bind_result (validate_capacity ''sum of evictable candidate.memory_gb'' evictable) (\<lambda>_.
       Inl (InsufficientCapacity (need_id need) shortfall (budget_gb st) evictable))
     else Inr (Evict chosen)))))))"

lemma epsilon_bits: "CAPACITY_EPSILON_GB = 0x3EB0C6F7A0B5ED8D"
proof -
  have "round_ratio (1 * 2 ^ 1074) 1000000 = 0x3EB0C6F7A0B5ED8D"
    by (subst round_ratio_quotient [where k = 1002 and q = 4722366482869645 and r = "213696 * 2 ^ 1002"])
      (simp_all add: f64_infinity_bits_def)
  then show ?thesis by (simp add: CAPACITY_EPSILON_GB_def f64_literal_def f64_make_def)
qed

section \<open>Lemmas about the loop\<close>

text \<open>What the first \<open>n\<close> candidates free, added in the loop's order.\<close>

definition freed_by :: "model_entry list \<Rightarrow> nat \<Rightarrow> f64" where
  "freed_by cs n = foldl (\<lambda>a c. f64_add a (memory_gb c)) f64_zero (take n cs)"

definition covers :: "f64 \<Rightarrow> f64 \<Rightarrow> bool" where
  "covers shortfall freed \<longleftrightarrow> f64_le shortfall (f64_add freed CAPACITY_EPSILON_GB)"

lemma take_victims_prefix:
  "\<exists>n \<le> length cs. take_victims s a cs = (foldl (\<lambda>a c. f64_add a (memory_gb c)) a (take n cs), map m_id (take n cs))
     \<and> (\<forall>k < n. \<not> covers s (foldl (\<lambda>a c. f64_add a (memory_gb c)) a (take k cs)))
     \<and> (n = length cs \<or> covers s (foldl (\<lambda>a c. f64_add a (memory_gb c)) a (take n cs)))"
proof (induction cs arbitrary: a)
  case Nil
  show ?case by simp
next
  case (Cons c cs)
  show ?case
  proof (cases "covers s a")
    case True
    then show ?thesis by (intro exI [of _ 0]) (simp add: covers_def)
  next
    case False
    from Cons.IH [of "f64_add a (memory_gb c)"] obtain n where n: "n \<le> length cs"
      "take_victims s (f64_add a (memory_gb c)) cs =
         (foldl (\<lambda>a c. f64_add a (memory_gb c)) (f64_add a (memory_gb c)) (take n cs), map m_id (take n cs))"
      "\<forall>k < n. \<not> covers s (foldl (\<lambda>a c. f64_add a (memory_gb c)) (f64_add a (memory_gb c)) (take k cs))"
      "n = length cs \<or> covers s (foldl (\<lambda>a c. f64_add a (memory_gb c)) (f64_add a (memory_gb c)) (take n cs))"
      by blast
    have "\<not> covers s (foldl (\<lambda>a c. f64_add a (memory_gb c)) a (take k (c # cs)))" if "k < Suc n" for k
      using that False n(3) by (cases k) auto
    with n False show ?thesis
      by (intro exI [of _ "Suc n"]) (auto simp: covers_def)
  qed
qed

lemma set_candidates: "set (candidates st) = {m \<in> set (models st). is_evictable m}"
  by (auto simp: candidates_def)

lemma sorted_candidates: "sorted (map last_used_seq (candidates st))"
  by (simp add: candidates_def)

lemma plan_evictE:
  assumes "plan_eviction st need = Inr (Evict ids)"
  obtains freed where "take_victims (f64_sub (need_memory_gb need) (available_gb st)) f64_zero (candidates st) = (freed, ids)"
    "\<not> f64_lt (f64_add freed CAPACITY_EPSILON_GB) (f64_sub (need_memory_gb need) (available_gb st))"
    "f64_is_finite freed" "\<not> list_ex (\<lambda>m. m_id m = need_id need) (models st)"
    "f64_is_finite (f64_sub (need_memory_gb need) (available_gb st))"
  using assms
  by (auto simp: plan_eviction_def result_simps Let_def validate_capacity_def split: if_splits prod.splits)

lemma plan_evict_prefix:
  assumes "plan_eviction st need = Inr (Evict ids)"
  shows "\<exists>n \<le> length (candidates st). ids = map m_id (take n (candidates st))
    \<and> (let shortfall = f64_sub (need_memory_gb need) (available_gb st)
       in (\<forall>k < n. \<not> covers shortfall (freed_by (candidates st) k)) \<and> covers shortfall (freed_by (candidates st) n))"
  using assms
proof (rule plan_evictE)
  fix freed
  define s where "s = f64_sub (need_memory_gb need) (available_gb st)"
  assume c: "take_victims (f64_sub (need_memory_gb need) (available_gb st)) f64_zero (candidates st) = (freed, ids)"
    and lt: "\<not> f64_lt (f64_add freed CAPACITY_EPSILON_GB) (f64_sub (need_memory_gb need) (available_gb st))"
    and fin: "f64_is_finite freed" "f64_is_finite (f64_sub (need_memory_gb need) (available_gb st))"
  have "f64_is_finite CAPACITY_EPSILON_GB"
    unfolding CAPACITY_EPSILON_GB_def by (rule literal_finite [of _ _ 1074]) simp_all
  then have "covers s freed"
    using lt fin add_finite_not_nan not_lt_le finite_not_nan by (simp add: covers_def s_def)
  moreover from take_victims_prefix [of "candidates st" s f64_zero] c obtain n where
    "n \<le> length (candidates st)" "freed = freed_by (candidates st) n" "ids = map m_id (take n (candidates st))"
    "\<forall>k < n. \<not> covers s (freed_by (candidates st) k)"
    unfolding freed_by_def s_def by auto
  ultimately show ?thesis unfolding s_def [symmetric] Let_def by blast
qed

section \<open>Properties\<close>

text \<open>
  Eviction never takes what must stay: every id of a plan is that of a model in the snapshot
  that is ready or in error, not pinned, holds memory and has no request in flight, and it is never
  the model being requested.
\<close>

theorem eviction_victims_safe:
  assumes "plan_eviction st need = Inr (Evict ids)" and "i \<in> set ids"
  shows "i \<noteq> need_id need \<and> (\<exists>m \<in> set (models st). m_id m = i \<and> m_state m \<in> {MReady, MError}
    \<and> \<not> pinned m \<and> inflight m = 0 \<and> f64_lt f64_zero (memory_gb m))"
proof -
  from plan_evict_prefix [OF assms(1)] obtain n where "ids = map m_id (take n (candidates st))" by blast
  with assms(2) obtain m where m: "m \<in> set (candidates st)" "m_id m = i"
    using set_take_subset [of n "candidates st"] by auto
  have "\<not> list_ex (\<lambda>m. m_id m = need_id need) (models st)"
    using assms(1) by (rule plan_evictE)
  with m show ?thesis by (auto simp: set_candidates is_evictable_def list_ex_iff)
qed

text \<open>
  C39. Eviction is least-recently-used, sufficient and minimal: a plan is a prefix of the evictable
  models in LRU order (so nothing left is older than anything taken), what it frees covers the
  shortfall up to the tolerance, and no shorter prefix does.
\<close>

theorem eviction_lru_minimal:
  assumes "plan_eviction st need = Inr (Evict ids)"
  shows "\<exists>n. n \<le> length (candidates st) \<and> ids = map m_id (take n (candidates st))
    \<and> (\<forall>v \<in> set (take n (candidates st)). \<forall>w \<in> set (drop n (candidates st)). last_used_seq v \<le> last_used_seq w)
    \<and> covers (f64_sub (need_memory_gb need) (available_gb st)) (freed_by (candidates st) n)
    \<and> (\<forall>k < n. \<not> covers (f64_sub (need_memory_gb need) (available_gb st)) (freed_by (candidates st) k))"
proof -
  have "\<forall>v \<in> set (take n (candidates st)). \<forall>w \<in> set (drop n (candidates st)). last_used_seq v \<le> last_used_seq w" for n
    using sorted_candidates [of st] append_take_drop_id [of n "candidates st"]
    by (metis (no_types, lifting) map_append sorted_append image_eqI list.set_map)
  with plan_evict_prefix [OF assms] show ?thesis unfolding Let_def by blast
qed

text \<open>A snapshot with an 8 GB budget: a pinned model, an old and a new evictable one, 2 GB each.\<close>

definition sample_snapshot :: snapshot where
  "sample_snapshot = \<lparr>budget_gb = 0x4020000000000000, models =
     [\<lparr>m_id = ''p'', memory_gb = 0x4000000000000000, m_state = MReady, pinned = True, last_used_seq = 0, inflight = 0\<rparr>,
      \<lparr>m_id = ''new'', memory_gb = 0x4000000000000000, m_state = MReady, pinned = False, last_used_seq = 9, inflight = 0\<rparr>,
      \<lparr>m_id = ''old'', memory_gb = 0x4000000000000000, m_state = MReady, pinned = False, last_used_seq = 3, inflight = 0\<rparr>]\<rparr>"

definition sample_need :: model_req where
  "sample_need = \<lparr>need_id = ''x'', need_memory_gb = 0x4010000000000000\<rparr>"

lemma sample_floats:
  "f64_add (f64_neg f64_zero) 0x4000000000000000 = 0x4000000000000000"
  "f64_add 0x4000000000000000 0x4000000000000000 = 0x4010000000000000"
  "f64_add 0x4010000000000000 0x4000000000000000 = 0x4018000000000000"
  "f64_sub 0x4020000000000000 0x4018000000000000 = 0x4000000000000000"
  "f64_sub 0x4010000000000000 0x4000000000000000 = 0x4000000000000000"
  "f64_add f64_zero CAPACITY_EPSILON_GB = 0x3EB0C6F7A0B5ED8D"
  "f64_add f64_zero 0x4000000000000000 = 0x4000000000000000"
  by (rule f64_add_exact f64_sub_exact; simp add: f64_decode epsilon_bits)+

lemma sample_rounding: "f64_add 0x4000000000000000 CAPACITY_EPSILON_GB = 0x400000008637BD06"
  by (simp add: f64_eval epsilon_bits)

lemma sample_compare:
  "f64_lt f64_zero 0x4000000000000000"
  "f64_is_finite 0x4020000000000000 \<and> f64_le f64_zero 0x4020000000000000"
  "f64_is_finite 0x4018000000000000 \<and> f64_le f64_zero 0x4018000000000000"
  "f64_is_finite 0x4010000000000000 \<and> f64_le f64_zero 0x4010000000000000"
  "f64_is_finite 0x4000000000000000 \<and> f64_le f64_zero 0x4000000000000000"
  "\<not> f64_le 0x4010000000000000 0x400000008637BD06"
  "\<not> f64_le 0x4000000000000000 0x3EB0C6F7A0B5ED8D"
  "f64_le 0x4000000000000000 0x400000008637BD06"
  "\<not> f64_lt 0x400000008637BD06 0x4000000000000000"
  by (simp_all add: f64_compare)

lemma sample_values:
  "occupied_gb sample_snapshot = 0x4018000000000000" "available_gb sample_snapshot = 0x4000000000000000"
  "candidates sample_snapshot =
     [\<lparr>m_id = ''old'', memory_gb = 0x4000000000000000, m_state = MReady, pinned = False, last_used_seq = 3, inflight = 0\<rparr>,
      \<lparr>m_id = ''new'', memory_gb = 0x4000000000000000, m_state = MReady, pinned = False, last_used_seq = 9, inflight = 0\<rparr>]"
  by (simp_all add: occupied_gb_def available_gb_def sample_snapshot_def f64_sum_def sample_floats
      candidates_def is_evictable_def sample_compare)

lemma sample_plan: "plan_eviction sample_snapshot sample_need = Inr (Evict [''old''])"
  unfolding plan_eviction_def sample_values
  by (simp add: sample_need_def sample_snapshot_def validate_capacity_def sample_floats sample_rounding sample_compare)

theorem eviction_victims_safe_witness:
  "''old'' \<noteq> need_id sample_need \<and> (\<exists>m \<in> set (models sample_snapshot). m_id m = ''old'' \<and> \<not> pinned m)"
  using eviction_victims_safe [OF sample_plan, of "''old''"] by auto

theorem eviction_lru_minimal_witness:
  "\<exists>n. [''old''] = map m_id (take n (candidates sample_snapshot))
     \<and> covers (f64_sub (need_memory_gb sample_need) (available_gb sample_snapshot)) (freed_by (candidates sample_snapshot) n)"
  using eviction_lru_minimal [OF sample_plan] by (elim exE conjE) (intro exI conjI)

lemma validate_capacity_cases:
  "validate_capacity f v = Inr () \<or> validate_capacity f v = Inl (InvalidCapacity f v)"
  by (simp add: validate_capacity_def)

lemma validate_models_error:
  "validate_models ms = Inl e \<Longrightarrow> \<exists>f v. e = InvalidCapacity f v"
  by (induction ms) (auto simp: result_simps validate_capacity_def split: if_splits)

lemma bind_valid:
  assumes "bind_result (validate_capacity f v) g = r" "\<forall>f v. r \<noteq> Inl (InvalidCapacity f v)"
  shows "validate_capacity f v = Inr ()" "g () = r"
  using assms validate_capacity_cases [of f v] by auto

lemma bind_valid_models:
  assumes "bind_result (validate_models ms) g = r" "\<forall>f v. r \<noteq> Inl (InvalidCapacity f v)"
  shows "validate_models ms = Inr ()" "g () = r"
  using assms validate_models_error [of ms] by (cases "validate_models ms"; auto)+

text \<open>
  Nothing is evicted without need, and a request is refused only when evicting everything
  evictable would not help: for valid inputs the plan is \<open>NotNeeded\<close> exactly when the request
  fits beside what is occupied, and \<open>InsufficientCapacity\<close> means that all evictable models
  together do not cover the shortfall.
\<close>

theorem eviction_refusal_exact:
  assumes "plan_eviction st need = r" and "\<forall>f v. r \<noteq> Inl (InvalidCapacity f v)"
    and "\<forall>m \<in> set (models st). m_id m \<noteq> need_id need"
  shows "(r = Inr NotNeeded \<longleftrightarrow>
       f64_le (need_memory_gb need) (f64_add (available_gb st) CAPACITY_EPSILON_GB))
    \<and> (\<forall>i s b e. r = Inl (InsufficientCapacity i s b e) \<longrightarrow>
         i = need_id need \<and> s = f64_sub (need_memory_gb need) (available_gb st) \<and> b = budget_gb st
         \<and> \<not> covers s (freed_by (candidates st) (length (candidates st))))
    \<and> (\<forall>i. r \<noteq> Inl (SnapshotContainsRequestedModel i))"
proof -
  define s where "s = f64_sub (need_memory_gb need) (available_gb st)"
  obtain freed ids where c: "take_victims s f64_zero (candidates st) = (freed, ids)"
    by (cases "take_victims s f64_zero (candidates st)")
  have nc: "\<not> covers s (freed_by (candidates st) (length (candidates st)))"
    if "f64_lt (f64_add freed CAPACITY_EPSILON_GB) s"
  proof -
    from that have "\<not> covers s freed" by (auto simp: covers_def f64_lt_def f64_le_def)
    moreover from take_victims_prefix [of "candidates st" s f64_zero] c obtain n where
      "freed = freed_by (candidates st) n" "n = length (candidates st) \<or> covers s (freed_by (candidates st) n)"
      unfolding freed_by_def by auto
    ultimately show ?thesis by auto
  qed
  have nm: "\<not> list_ex (\<lambda>m. m_id m = need_id need) (models st)" using assms(3) by (simp add: list_ex_iff)
  note 1 = bind_valid [OF assms(1) [unfolded plan_eviction_def] assms(2)]
  note 2 = bind_valid [OF 1(2) assms(2)]
  note 3 = bind_valid_models [OF 2(2) assms(2)]
  note 4 = bind_valid [OF 3(2) [unfolded if_not_P [OF nm]] assms(2)]
  show ?thesis
  proof (cases "f64_le (need_memory_gb need) (f64_add (available_gb st) CAPACITY_EPSILON_GB)")
    case True
    then have "r = Inr NotNeeded" using 4(2) by simp
    with True show ?thesis by simp
  next
    case False
    note 5 = bind_valid [OF 4(2) [unfolded if_not_P [OF False] Let_def s_def [symmetric] c prod.case] assms(2)]
    note 6 = bind_valid [OF 5(2) assms(2)]
    show ?thesis
    proof (cases "f64_lt (f64_add freed CAPACITY_EPSILON_GB) s")
      case True
      note 7 = bind_valid [OF 6(2) [unfolded if_P [OF True]] assms(2)]
      from 7(2) False nc [OF True] show ?thesis by (auto simp: s_def)
    next
      case F: False
      from 6(2) [unfolded if_not_P [OF F]] False show ?thesis by auto
    qed
  qed
qed

theorem eviction_refusal_exact_witness:
  "\<not> f64_le (need_memory_gb sample_need) (f64_add (available_gb sample_snapshot) CAPACITY_EPSILON_GB)"
  using eviction_refusal_exact [OF sample_plan] by (simp add: sample_snapshot_def sample_need_def)

end
