(* ===== verification/Accounts.thy ===== *)
theory Accounts
  imports Prelude
begin

text \<open>
  Key-ordered maps (\<open>BTreeMap\<close> of the standard library, as the list its iterator yields) and
  the contract that the capacity ledger and the budget ledger share: an account with a limit,
  whose admitted operations never push the total above the limit.
\<close>

section \<open>Ordered maps\<close>

fun bt_insert :: "'k::linorder \<Rightarrow> 'v \<Rightarrow> ('k \<times> 'v) list \<Rightarrow> ('k \<times> 'v) list" where
  "bt_insert k v [] = [(k, v)]"
| "bt_insert k v ((k', v') # m) =
     (if k < k' then (k, v) # (k', v') # m
      else if k = k' then (k, v) # m
      else (k', v') # bt_insert k v m)"

definition bt_remove :: "'k \<Rightarrow> ('k \<times> 'v) list \<Rightarrow> ('k \<times> 'v) list" where
  "bt_remove k m = filter (\<lambda>(k', _). k' \<noteq> k) m"

definition bt_wf :: "('k::linorder \<times> 'v) list \<Rightarrow> bool" where
  "bt_wf m \<longleftrightarrow> sorted_wrt (<) (map fst m)"

definition bt_sum :: "('v \<Rightarrow> nat) \<Rightarrow> ('k \<times> 'v) list \<Rightarrow> nat" where
  "bt_sum f m = (\<Sum>(k, v) \<leftarrow> m. f v)"

abbreviation held_at :: "('v \<Rightarrow> nat) \<Rightarrow> 'v option \<Rightarrow> nat" where
  "held_at f opt \<equiv> case_option 0 f opt"

lemma bt_sum_simps [simp]:
  "bt_sum f [] = 0" "bt_sum f ((k, v) # m) = f v + bt_sum f m"
  by (simp_all add: bt_sum_def)

lemma map_of_bt_insert [simp]: "map_of (bt_insert k v m) = (map_of m)(k \<mapsto> v)"
  by (induction k v m rule: bt_insert.induct) auto

lemma map_of_bt_remove [simp]: "map_of (bt_remove k m) = (map_of m)(k := None)"
  by (induction m) (auto simp: bt_remove_def)

lemma keys_bt_insert: "fst ` set (bt_insert k v m) = insert k (fst ` set m)"
  by (induction k v m rule: bt_insert.induct) auto

lemma bt_wf_Nil [simp]: "bt_wf []"
  by (simp add: bt_wf_def)

lemma bt_wf_Cons: "bt_wf ((k, v) # m) \<longleftrightarrow> (\<forall>k' \<in> fst ` set m. k < k') \<and> bt_wf m"
  by (auto simp: bt_wf_def)

lemma bt_wf_insert: "bt_wf m \<Longrightarrow> bt_wf (bt_insert k v m)"
  by (induction k v m rule: bt_insert.induct) (auto simp: bt_wf_Cons keys_bt_insert)

lemma bt_wf_remove: "bt_wf m \<Longrightarrow> bt_wf (bt_remove k m)"
  by (induction m) (auto simp: bt_wf_Cons bt_remove_def)

lemma bt_wf_lookup_None: "map_of m k = None \<longleftrightarrow> k \<notin> fst ` set m"
  by (simp add: map_of_eq_None_iff)

lemma bt_sum_insert:
  "bt_wf m \<Longrightarrow> bt_sum f (bt_insert k v m) + held_at f (map_of m k) = bt_sum f m + f v"
proof (induction k v m rule: bt_insert.induct)
  case (2 k v k' v' m)
  consider "k < k'" | "k = k'" | "k' < k" by (rule linorder_cases)
  then show ?case
  proof cases
    case 1
    with "2.prems" have "k \<notin> fst ` set m" by (auto simp: bt_wf_Cons)
    then have "map_of m k = None" by (simp add: bt_wf_lookup_None)
    with 1 show ?thesis by auto
  qed (use 2 in \<open>auto simp: bt_wf_Cons\<close>)
qed simp

lemma bt_remove_absent: "k \<notin> fst ` set m \<Longrightarrow> bt_remove k m = m"
  by (induction m) (auto simp: bt_remove_def)

lemma bt_sum_remove: "bt_wf m \<Longrightarrow> bt_sum f (bt_remove k m) + held_at f (map_of m k) = bt_sum f m"
proof (induction m)
  case (Cons p m)
  obtain k' v' where p: "p = (k', v')" by (cases p)
  show ?case
  proof (cases "k = k'")
    case True
    with Cons.prems p have "k \<notin> fst ` set m" by (auto simp: bt_wf_Cons)
    then have "bt_remove k m = m" by (rule bt_remove_absent)
    with p True show ?thesis by (simp add: bt_remove_def)
  next
    case False
    with Cons p show ?thesis by (auto simp: bt_wf_Cons bt_remove_def)
  qed
qed (simp add: bt_remove_def)

lemma bt_sum_lookup_le: "map_of m k = Some v \<Longrightarrow> f v \<le> bt_sum f m"
  by (induction m) (auto split: if_splits)

section \<open>Accounts with a limit\<close>

text \<open>
  \<open>step\<close> is any operation of the account; \<open>observes\<close> says which operations, in which
  state, record a fact (residency that already exists, a bill that already arrived) and are not
  subject to admission. \<open>admitted_run\<close> is a run without them.
\<close>

fun admitted_run :: "('op \<Rightarrow> 's \<Rightarrow> 's) \<Rightarrow> ('op \<Rightarrow> 's \<Rightarrow> bool) \<Rightarrow> 'op list \<Rightarrow> 's \<Rightarrow> bool" where
  "admitted_run step observes [] s = True"
| "admitted_run step observes (op # ops) s = (\<not> observes op s \<and> admitted_run step observes ops (step op s))"

lemma admitted_run_static: "admitted_run step (\<lambda>op s. p op) ops s \<longleftrightarrow> list_all (\<lambda>op. \<not> p op) ops"
  by (induction ops arbitrary: s) auto

locale limited_account =
  fixes total :: "'s \<Rightarrow> 'n::linorder" and limit :: "'s \<Rightarrow> 'n" and wf :: "'s \<Rightarrow> bool"
    and step :: "'op \<Rightarrow> 's \<Rightarrow> 's" and observes :: "'op \<Rightarrow> 's \<Rightarrow> bool"
  assumes step_wf: "wf s \<Longrightarrow> wf (step op s)"
    and step_limit: "wf s \<Longrightarrow> limit (step op s) = limit s"
    and step_admitted: "wf s \<Longrightarrow> \<not> observes op s \<Longrightarrow> total (step op s) \<le> max (total s) (limit s)"
begin

lemma run_wf: "wf s \<Longrightarrow> wf (fold step ops s)"
  by (induction ops arbitrary: s) (simp_all add: step_wf)

lemma run_limit: "wf s \<Longrightarrow> limit (fold step ops s) = limit s"
  by (induction ops arbitrary: s) (simp_all add: step_limit step_wf)

lemma run_admitted:
  assumes "wf s" "admitted_run step observes ops s"
  shows "total (fold step ops s) \<le> max (total s) (limit s)"
  using assms
proof (induction ops arbitrary: s)
  case (Cons op ops)
  then have "total (fold step ops (step op s)) \<le> max (total (step op s)) (limit (step op s))"
    by (intro Cons.IH step_wf) simp_all
  moreover have "total (step op s) \<le> max (total s) (limit s)" using Cons.prems step_admitted by simp
  ultimately have "total (fold step ops (step op s)) \<le> max (total s) (limit s)"
    unfolding step_limit [OF Cons.prems(1)] by (simp add: le_max_iff_disj) (meson order_trans)
  then show ?case by simp
qed simp

lemma run_within_limit:
  "wf s \<Longrightarrow> total s \<le> limit s \<Longrightarrow> admitted_run step observes ops s
    \<Longrightarrow> total (fold step ops s) \<le> limit (fold step ops s)"
  using run_admitted [of s ops] by (simp add: run_limit)

end

end
