(* ===== verification/Capacity.thy ===== *)
theory Capacity
  imports Accounts F64
begin

text \<open>
  The process-wide memory ledger (\<^verbatim>\<open>crates/idoris-backend/src/global_capacity.rs\<close>) and the
  backend's errors (\<^verbatim>\<open>crates/idoris-backend/src/error.rs\<close>). Amounts are \<open>u128\<close>
  bytes; the \<open>f64\<close> gigabytes of the interface are decoded bit by bit. A method that takes
  the mutex is a function from the ledger to a result and the ledger after the call; a poisoned
  mutex is the flag \<open>poisoned\<close>. Messages keep their format arguments unprinted.
\<close>

type_synonym u128 = "128 word"

datatype msg_part = Text string | Quoted string | Float f64

type_synonym message = "msg_part list"

datatype backend_error =
    ModelNotFound string
  | ModelLoading string
  | ModelUnavailable string
  | EvictionImpossible string
  | EvictionFailed string
  | Oom string
  | HeadroomConfirmationRequired string
  | ProbeTimedOut string
  | AdapterTimedOut string
  | AdapterPanicked string message
  | LoadUnconfirmed string message
  | LoadPostconditionFailed string message
  | Upstream message
  | Cancelled
  | InvalidRequest message
  | SupervisorUnavailable
  | Busy message "string option" "u64 option"
  | InvariantViolation message
  | LockPoisoned message
  | Internal message

fun reason_code :: "backend_error \<Rightarrow> string" where
  "reason_code (ModelNotFound _) = ''model_not_found''"
| "reason_code (ModelLoading _) = ''model_loading''"
| "reason_code (ModelUnavailable _) = ''model_unavailable''"
| "reason_code (EvictionImpossible _) = ''eviction_impossible''"
| "reason_code (EvictionFailed _) = ''eviction_failed''"
| "reason_code (Oom _) = ''oom''"
| "reason_code (HeadroomConfirmationRequired _) = ''headroom_confirmation_required''"
| "reason_code (ProbeTimedOut _) = ''probe_timed_out''"
| "reason_code (AdapterTimedOut _) = ''adapter_timed_out''"
| "reason_code (AdapterPanicked _ _) = ''adapter_panicked''"
| "reason_code (LoadUnconfirmed _ _) = ''load_unconfirmed''"
| "reason_code (LoadPostconditionFailed _ _) = ''load_postcondition_failed''"
| "reason_code (Upstream _) = ''upstream_error''"
| "reason_code Cancelled = ''cancelled''"
| "reason_code (InvalidRequest _) = ''invalid_request''"
| "reason_code SupervisorUnavailable = ''supervisor_unavailable''"
| "reason_code (Busy _ _ _) = ''supervisor_busy''"
| "reason_code (InvariantViolation _) = ''state_invariant_violated''"
| "reason_code (LockPoisoned _) = ''internal_lock_poisoned''"
| "reason_code (Internal _) = ''internal''"

fun is_oom :: "backend_error \<Rightarrow> bool" where
  "is_oom (Oom _) = True"
| "is_oom _ = False"

section \<open>Fixed-point conversion\<close>

definition CAPACITY_UNITS_PER_GB :: u128 where "CAPACITY_UNITS_PER_GB = 1000000000"

definition CAPACITY_EPSILON_UNITS :: u128 where "CAPACITY_EPSILON_UNITS = 1000"

datatype rounding = Down | Up

definition capacity_range_error :: "string \<Rightarrow> f64 \<Rightarrow> backend_error" where
  "capacity_range_error field v = InvalidRequest [Text ''global capacity '', Text field,
     Text '' is too large for exact fixed-point accounting: '', Float v]"

definition checked_shl :: "u128 \<Rightarrow> nat \<Rightarrow> u128 option" where
  "checked_shl a n = (if n < 128 then Some (push_bit n a) else None)"

definition to_capacity_units :: "string \<Rightarrow> f64 \<Rightarrow> rounding \<Rightarrow> backend_error + u128" where
  "to_capacity_units field v rounding =
    (if \<not> f64_is_finite v \<or> f64_lt v f64_zero
     then Inl (InvalidRequest [Text ''invalid global capacity '', Text field, Text '': '', Float v])
     else if f64_eq v f64_zero then Inr 0
     else
       let exponent_bits = unat (drop_bit 52 v AND 0x7FF);
           fraction = v AND (push_bit 52 1 - 1);
           (significand, exponent) =
             (if exponent_bits = 0 then (ucast fraction, - 1074)
              else (ucast (push_bit 52 1 OR fraction), int exponent_bits - 1023 - 52))
       in bind_result (ok_or (capacity_range_error field v) (checked_mul significand CAPACITY_UNITS_PER_GB)) (\<lambda>scaled.
       if 0 \<le> exponent then
         bind_result (ok_or (capacity_range_error field v) (checked_shl 1 (nat exponent))) (\<lambda>factor.
         ok_or (capacity_range_error field v) (checked_mul scaled factor))
       else
         let shift = nat (- exponent) in
         if 128 \<le> shift then (case rounding of Down \<Rightarrow> Inr 0 | Up \<Rightarrow> Inr 1)
         else
           let divisor = push_bit shift 1; quotient = scaled div divisor; remainder = scaled mod divisor
           in case rounding of
                Down \<Rightarrow> Inr quotient
              | Up \<Rightarrow> if remainder \<noteq> 0 then ok_or (capacity_range_error field v) (checked_add quotient 1)
                      else Inr quotient))"

definition units_to_gb :: "u128 \<Rightarrow> f64" where
  "units_to_gb units = f64_div (f64_of_nat (unat units)) (f64_of_nat (unat CAPACITY_UNITS_PER_GB))"

section \<open>The ledger\<close>

record capacity_allocation =
  requested_gb :: f64
  charged_units :: u128

type_synonym allocations = "(string \<times> capacity_allocation) list"

record capacity_ledger =
  ledger_gb :: f64
  ledger_units :: u128
  epsilon_units :: u128
  headroom_units :: u128
  ledger_allocations :: allocations
  poisoned :: bool

record capacity_snapshot =
  snap_budget_gb :: f64
  snap_reserved_gb :: f64
  snap_allocations :: "(string \<times> f64) list"

datatype expected_allocation = Estimate "f64 option" | Charge "u128 option"

definition charge_from_gb :: "f64 \<Rightarrow> backend_error + u128" where
  "charge_from_gb v = to_capacity_units ''model charge'' v Up"

definition charge_checked_add :: "u128 \<Rightarrow> u128 \<Rightarrow> backend_error + u128" where
  "charge_checked_add a b =
     ok_or (InvariantViolation [Text ''runtime capacity charge overflowed'']) (checked_add a b)"

definition charge_saturating_sub :: "u128 \<Rightarrow> u128 \<Rightarrow> u128" where
  "charge_saturating_sub a b = saturating_sub a b"

definition uses_exact_bytes :: "capacity_ledger \<Rightarrow> bool" where
  "uses_exact_bytes L \<longleftrightarrow> epsilon_units L = 0"

definition ledger_new :: "f64 \<Rightarrow> backend_error + capacity_ledger" where
  "ledger_new gb = bind_result (to_capacity_units ''budget_gb'' gb Down) (\<lambda>units.
     Inr \<lparr>ledger_gb = gb, ledger_units = units, epsilon_units = CAPACITY_EPSILON_UNITS, headroom_units = 0,
          ledger_allocations = [], poisoned = False\<rparr>)"

definition ledger_new_bytes_with_headroom :: "u64 \<Rightarrow> u64 \<Rightarrow> capacity_ledger" where
  "ledger_new_bytes_with_headroom budget_bytes headroom_bytes =
     \<lparr>ledger_gb = units_to_gb (ucast budget_bytes), ledger_units = ucast budget_bytes, epsilon_units = 0,
      headroom_units = ucast headroom_bytes, ledger_allocations = [], poisoned = False\<rparr>"

definition ledger_new_bytes :: "u64 \<Rightarrow> capacity_ledger" where
  "ledger_new_bytes budget_bytes = ledger_new_bytes_with_headroom budget_bytes 0"

definition exact_total_units :: "allocations \<Rightarrow> u128 option" where
  "exact_total_units m = fold (\<lambda>(_, a) acc. Option.bind acc (\<lambda>t. checked_add t (charged_units a))) m (Some 0)"

definition check_admission :: "capacity_ledger \<Rightarrow> string \<Rightarrow> u128 \<Rightarrow> bool \<Rightarrow> backend_error + unit" where
  "check_admission L key total_units allow_headroom_breach =
     (let full = saturating_add (ledger_units L) (epsilon_units L);
          reduced = saturating_add (saturating_sub (ledger_units L) (headroom_units L)) (epsilon_units L)
      in if full < total_units then Inl (Oom key)
         else if \<not> allow_headroom_breach \<and> reduced < total_units then Inl (HeadroomConfirmationRequired key)
         else Inr ())"

abbreviation poison_error :: backend_error where
  "poison_error \<equiv> LockPoisoned [Text ''global capacity ledger lock poisoned'']"

abbreviation empty_key_error :: backend_error where
  "empty_key_error \<equiv> InvalidRequest [Text ''global capacity allocation key must not be empty'']"

abbreviation total_overflow_error :: backend_error where
  "total_overflow_error \<equiv> InvariantViolation [Text ''global capacity exact total overflowed'']"

definition reserve_allocations :: "capacity_ledger \<Rightarrow> string \<Rightarrow> f64 \<Rightarrow> bool \<Rightarrow> backend_error + allocations" where
  "reserve_allocations L key gb allow_headroom_breach =
     bind_result (to_capacity_units ''memory_gb'' gb Up) (\<lambda>units.
     if is_blank key then Inl empty_key_error
     else if poisoned L then Inl poison_error
     else case map_of (ledger_allocations L) key of
       Some existing \<Rightarrow>
         if f64_eq (requested_gb existing) gb then Inr (ledger_allocations L)
         else Inl (InvariantViolation [Text ''global capacity allocation '', Quoted key, Text '' changed from '',
                Float (requested_gb existing), Text ''GB to '', Float gb, Text ''GB''])
     | None \<Rightarrow>
         (case Option.bind (exact_total_units (ledger_allocations L)) (\<lambda>t. checked_add t units) of
            None \<Rightarrow> Inl (Oom key)
          | Some total_units \<Rightarrow>
              if f64_eq (ledger_gb L) f64_zero \<and> 0 < units then Inl (Oom key)
              else bind_result (check_admission L key total_units allow_headroom_breach) (\<lambda>_.
                Inr (bt_insert key \<lparr>requested_gb = gb, charged_units = units\<rparr> (ledger_allocations L)))))"

text \<open>The guard's writes are kept when the call returns \<open>Ok\<close>; no error path writes.\<close>

definition commit :: "capacity_ledger \<Rightarrow> backend_error + allocations \<Rightarrow> (backend_error + unit) \<times> capacity_ledger" where
  "commit L r = (case r of Inl e \<Rightarrow> (Inl e, L) | Inr m \<Rightarrow> (Inr (), L\<lparr>ledger_allocations := m\<rparr>))"

definition reserve_with_headroom ::
    "string \<Rightarrow> f64 \<Rightarrow> bool \<Rightarrow> capacity_ledger \<Rightarrow> (backend_error + unit) \<times> capacity_ledger" where
  "reserve_with_headroom key gb allow L = commit L (reserve_allocations L key gb allow)"

definition reserve :: "string \<Rightarrow> f64 \<Rightarrow> capacity_ledger \<Rightarrow> (backend_error + unit) \<times> capacity_ledger" where
  "reserve key gb L = reserve_with_headroom key gb True L"

definition release :: "string \<Rightarrow> capacity_ledger \<Rightarrow> (backend_error + bool) \<times> capacity_ledger" where
  "release key L =
     (if poisoned L then (Inl poison_error, L)
      else (Inr (map_of (ledger_allocations L) key \<noteq> None),
            L\<lparr>ledger_allocations := bt_remove key (ledger_allocations L)\<rparr>))"

text \<open>\<open>Option<f64>\<close> and \<open>Option<CapacityCharge>\<close> compared with \<open>==\<close>.\<close>

fun f64_option_eq :: "f64 option \<Rightarrow> f64 option \<Rightarrow> bool" where
  "f64_option_eq None None = True"
| "f64_option_eq (Some a) (Some b) = f64_eq a b"
| "f64_option_eq _ _ = False"

fun expectation_met :: "expected_allocation \<Rightarrow> capacity_allocation option \<Rightarrow> bool" where
  "expectation_met (Estimate e) current = f64_option_eq (map_option requested_gb current) e"
| "expectation_met (Charge e) current = (map_option charged_units current = e)"

definition check_planned :: "capacity_ledger \<Rightarrow> string \<Rightarrow> u128 \<Rightarrow> u128 option \<Rightarrow> bool \<Rightarrow> backend_error + unit" where
  "check_planned L key other_units planned_charge allow_headroom_breach =
     (case planned_charge of None \<Rightarrow> Inr ()
      | Some planned \<Rightarrow>
          (case checked_add other_units planned of None \<Rightarrow> Inl (Oom key)
           | Some planned_total \<Rightarrow>
               if ledger_units L < planned_total then Inl (Oom key)
               else if \<not> allow_headroom_breach \<and> saturating_sub (ledger_units L) (headroom_units L) < planned_total
               then Inl (HeadroomConfirmationRequired key)
               else Inr ()))"

definition replaced_allocations ::
    "capacity_ledger \<Rightarrow> string \<Rightarrow> expected_allocation \<Rightarrow> capacity_allocation option \<Rightarrow> bool \<Rightarrow> u128 option \<Rightarrow> bool
     \<Rightarrow> backend_error + allocations" where
  "replaced_allocations L key expected next_allocation enforce_growth_admission planned_charge allow_headroom_breach =
    (if is_blank key then Inl empty_key_error
     else if poisoned L then Inl poison_error
     else let current = map_of (ledger_allocations L) key in
     if \<not> expectation_met expected current then
       Inl (InvariantViolation [Text ''global capacity allocation '', Quoted key, Text '' changed before compare-and-set''])
     else
       let current_units = (case current of None \<Rightarrow> 0 | Some a \<Rightarrow> charged_units a);
           next_units = (case next_allocation of None \<Rightarrow> 0 | Some a \<Rightarrow> charged_units a) in
       bind_result (ok_or total_overflow_error
         (Option.bind (exact_total_units (ledger_allocations L)) (\<lambda>t. checked_sub t current_units))) (\<lambda>other_units.
       bind_result (ok_or total_overflow_error (checked_add other_units next_units)) (\<lambda>requested_total_units.
       bind_result (check_planned L key other_units planned_charge allow_headroom_breach) (\<lambda>_.
       bind_result
         (if enforce_growth_admission \<and> current_units < next_units then
            if f64_eq (ledger_gb L) f64_zero then Inl (Oom key)
            else check_admission L key requested_total_units allow_headroom_breach
          else Inr ()) (\<lambda>_.
       Inr (case next_allocation of
              Some a \<Rightarrow> bt_insert key a (ledger_allocations L)
            | None \<Rightarrow> bt_remove key (ledger_allocations L)))))))"

definition replace_allocation ::
    "string \<Rightarrow> expected_allocation \<Rightarrow> capacity_allocation option \<Rightarrow> bool \<Rightarrow> u128 option \<Rightarrow> bool
     \<Rightarrow> capacity_ledger \<Rightarrow> (backend_error + unit) \<times> capacity_ledger" where
  "replace_allocation key expected next_allocation enforce planned allow L =
     commit L (replaced_allocations L key expected next_allocation enforce planned allow)"

definition update_charge ::
    "string \<Rightarrow> u128 option \<Rightarrow> u128 \<Rightarrow> bool \<Rightarrow> capacity_ledger \<Rightarrow> (backend_error + unit) \<times> capacity_ledger" where
  "update_charge key expected new_charge admit_growth L =
     replace_allocation key (Charge expected) (Some \<lparr>requested_gb = units_to_gb new_charge, charged_units = new_charge\<rparr>)
       admit_growth None True L"

definition claim_charge ::
    "string \<Rightarrow> u128 \<Rightarrow> u128 \<Rightarrow> bool \<Rightarrow> capacity_ledger \<Rightarrow> (backend_error + unit) \<times> capacity_ledger" where
  "claim_charge key current planned allow_headroom_breach L =
     (let held = max current planned in
      replace_allocation key (Charge (Some current)) (Some \<lparr>requested_gb = units_to_gb held, charged_units = held\<rparr>)
        True (Some planned) allow_headroom_breach L)"

definition compare_and_set ::
    "string \<Rightarrow> f64 option \<Rightarrow> f64 option \<Rightarrow> bool \<Rightarrow> capacity_ledger \<Rightarrow> (backend_error + unit) \<times> capacity_ledger" where
  "compare_and_set key expected_gb next_gb enforce_growth_admission L =
     (case (case expected_gb of None \<Rightarrow> Inr 0 | Some v \<Rightarrow> to_capacity_units ''expected_gb'' v Up) of
        Inl e \<Rightarrow> (Inl e, L)
      | Inr _ \<Rightarrow>
        (case next_gb of
           None \<Rightarrow> replace_allocation key (Estimate expected_gb) None enforce_growth_admission None True L
         | Some v \<Rightarrow>
             (case to_capacity_units ''next_gb'' v Up of
                Inl e \<Rightarrow> (Inl e, L)
              | Inr units \<Rightarrow>
                  replace_allocation key (Estimate expected_gb) (Some \<lparr>requested_gb = v, charged_units = units\<rparr>)
                    enforce_growth_admission None True L)))"

definition resize ::
    "string \<Rightarrow> f64 option \<Rightarrow> f64 option \<Rightarrow> capacity_ledger \<Rightarrow> (backend_error + unit) \<times> capacity_ledger" where
  "resize key expected_gb next_gb L = compare_and_set key expected_gb next_gb True L"

definition adopt_observed ::
    "string \<Rightarrow> f64 option \<Rightarrow> f64 \<Rightarrow> capacity_ledger \<Rightarrow> (backend_error + unit) \<times> capacity_ledger" where
  "adopt_observed key expected_gb observed_gb L = compare_and_set key expected_gb (Some observed_gb) False L"

definition block_growth_for_unknown_residency ::
    "string \<Rightarrow> f64 option \<Rightarrow> capacity_ledger \<Rightarrow> (backend_error + f64) \<times> capacity_ledger" where
  "block_growth_for_unknown_residency key expected_gb L =
     (let (r, L') = compare_and_set key expected_gb (Some (ledger_gb L)) False L
      in (bind_result r (\<lambda>_. Inr (ledger_gb L)), L'))"

definition capacity_snapshot_of :: "capacity_ledger \<Rightarrow> backend_error + capacity_snapshot" where
  "capacity_snapshot_of L =
     (if poisoned L then Inl poison_error
      else bind_result (ok_or total_overflow_error (exact_total_units (ledger_allocations L))) (\<lambda>units.
        Inr \<lparr>snap_budget_gb = ledger_gb L, snap_reserved_gb = units_to_gb units,
             snap_allocations = map (\<lambda>(k, a). (k, requested_gb a)) (ledger_allocations L)\<rparr>))"

section \<open>The operations as one step function\<close>

datatype capacity_op =
    Reserve string f64 bool
  | Release string
  | Resize string "f64 option" "f64 option"
  | AdoptObserved string "f64 option" f64
  | BlockGrowth string "f64 option"
  | UpdateCharge string "u128 option" u128 bool
  | ClaimCharge string u128 u128 bool

fun capacity_step :: "capacity_op \<Rightarrow> capacity_ledger \<Rightarrow> capacity_ledger" where
  "capacity_step (Reserve k gb allow) L = snd (reserve_with_headroom k gb allow L)"
| "capacity_step (Release k) L = snd (release k L)"
| "capacity_step (Resize k e n) L = snd (resize k e n L)"
| "capacity_step (AdoptObserved k e v) L = snd (adopt_observed k e v L)"
| "capacity_step (BlockGrowth k e) L = snd (block_growth_for_unknown_residency k e L)"
| "capacity_step (UpdateCharge k e n admit) L = snd (update_charge k e n admit L)"
| "capacity_step (ClaimCharge k c p allow) L = snd (claim_charge k c p allow L)"

text \<open>The operations that record what already happened: no admission applies to them.\<close>

fun observation :: "capacity_op \<Rightarrow> bool" where
  "observation (AdoptObserved _ _ _) = True"
| "observation (BlockGrowth _ _) = True"
| "observation (UpdateCharge _ _ _ admit) = (\<not> admit)"
| "observation _ = False"

fun op_key :: "capacity_op \<Rightarrow> string" where
  "op_key (Reserve k _ _) = k"
| "op_key (Release k) = k"
| "op_key (Resize k _ _) = k"
| "op_key (AdoptObserved k _ _) = k"
| "op_key (BlockGrowth k _) = k"
| "op_key (UpdateCharge k _ _ _) = k"
| "op_key (ClaimCharge k _ _ _) = k"

section \<open>The conversion is exact\<close>

text \<open>The byte count a value stands for: rounded down for a budget, up for a charge.\<close>

definition exact_units :: "rounding \<Rightarrow> f64 \<Rightarrow> nat" where
  "exact_units r v = (let n = magnitude_units (f64_magnitude v) * 1000000000 in
     case r of Down \<Rightarrow> n div 2 ^ 1074 | Up \<Rightarrow> (n + (2 ^ 1074 - 1)) div 2 ^ 1074)"

lemma magnitude_less: "f64_magnitude v < 2 ^ 63"
proof -
  have "unat (take_bit 63 v) < 2 ^ 63"
    using take_bit_nat_less_exp [of 63 "unat v"] by (simp add: unsigned_take_bit_eq)
  then show ?thesis by (simp add: f64_magnitude_def)
qed

lemma unat_take_bit: "unat (take_bit n w) = unat w mod 2 ^ n"
  by (subst unsigned_take_bit_eq) (rule take_bit_eq_mod)

lemma unat_drop_bit: "unat (drop_bit n w) = unat w div 2 ^ n"
  by (subst unat_drop_bit_eq) (rule drop_bit_eq_div)

lemma magnitude_div: "f64_magnitude v = unat v mod 2 ^ 63"
  unfolding f64_magnitude_def by (rule unat_take_bit)

lemma exponent_field: "unat (drop_bit 52 v AND 0x7FF) = f64_magnitude v div 2 ^ 52"
proof -
  have "drop_bit 52 v AND 0x7FF = take_bit 11 (drop_bit 52 v)"
    by (simp add: take_bit_eq_mask mask_eq_exp_minus_1)
  then have "unat (drop_bit 52 v AND 0x7FF) = unat v div 2 ^ 52 mod 2 ^ 11"
    by (simp only: unat_take_bit unat_drop_bit)
  also have "\<dots> = unat v mod 2 ^ 63 div 2 ^ 52"
    using mod_mult2_eq [of "unat v" "2 ^ 52" "2 ^ 11"] by simp
  finally show ?thesis by (simp only: magnitude_div)
qed

lemma low_bits: "v AND (push_bit 52 1 - 1) = take_bit 52 v" for v :: f64
  by (simp add: take_bit_eq_mask mask_eq_exp_minus_1 push_bit_eq_mult)

lemma fraction_field: "unat (v AND (push_bit 52 1 - 1)) = f64_magnitude v mod 2 ^ 52" for v :: f64
proof -
  have "unat (take_bit 52 v) = unat v mod 2 ^ 63 mod 2 ^ 52"
    by (simp only: unat_take_bit) (simp add: mod_mod_cancel)
  then show ?thesis by (simp only: low_bits magnitude_div)
qed

lemma significand_field:
  "unat (push_bit 52 1 OR (v AND (push_bit 52 1 - 1))) = 2 ^ 52 + f64_magnitude v mod 2 ^ 52" for v :: f64
proof -
  have "push_bit 52 1 OR take_bit 52 v = push_bit 52 1 + take_bit 52 v"
    by (rule disjunctive_add [symmetric]) (simp only: bit_simps, auto)
  moreover have "unat (take_bit 52 v) = f64_magnitude v mod 2 ^ 52"
    using fraction_field [of v] by (simp only: low_bits)
  ultimately show ?thesis
    by (simp only: low_bits) (simp add: unat_word_ariths push_bit_eq_mult)
qed

lemma ceil_div: "0 < d \<Longrightarrow> (n + (d - 1)) div d = n div d + (if n mod d = 0 then 0 else 1)" for n d :: nat
proof -
  assume d: "0 < d"
  have n: "n = n div d * d + n mod d" by simp
  have "(n mod d + (d - 1)) div d = (if n mod d = 0 then 0 else 1)"
  proof (cases "n mod d = 0")
    case False
    have "n mod d < d" using d by simp
    with False have "d * 1 \<le> n mod d + (d - 1)" "n mod d + (d - 1) < d + d" by linarith+
    then have "(n mod d + (d - 1)) div d = 1" by (intro div_nat_eqI) simp_all
    with False show ?thesis by simp
  qed (use d in simp)
  moreover have "(n + (d - 1)) div d = n div d + (n mod d + (d - 1)) div d"
    using d div_mult_self3 [of d "n div d" "n mod d + (d - 1)"] n by (metis add.assoc less_numeral_extra(3))
  ultimately show ?thesis by simp
qed

lemma exact_units_eq:
  "exact_units r v = (let n = magnitude_units (f64_magnitude v) * 1000000000 in
     n div 2 ^ 1074 + (if r = Up \<and> n mod 2 ^ 1074 \<noteq> 0 then 1 else 0))"
  unfolding exact_units_def Let_def
  by (cases r) (simp_all only: rounding.case ceil_div zero_less_power zero_less_numeral, auto)

lemma unat_ucast_wide: "unat (ucast w :: u128) = unat w" for w :: u64
  proof -
  have "unat w < 2 ^ 128" by (rule less_trans [OF unsigned_less]) simp
  then show ?thesis by (simp add: unsigned_ucast_eq) (rule take_bit_nat_eq_self, simp)
qed

lemma unat_one_shifted: "n < 128 \<Longrightarrow> unat (push_bit n 1 :: u128) = 2 ^ n"
  proof -
  assume "n < 128"
  then have "(2::nat) ^ n < 2 ^ 128" by (rule power_strict_increasing) simp
  moreover have "push_bit n 1 = (of_nat (2 ^ n) :: u128)" by (simp add: push_bit_eq_mult)
  ultimately show ?thesis by (simp only: unat_of_nat) simp
qed

lemma checked_mul_nat:
  "unat a * unat b = x \<Longrightarrow> checked_mul a b = (if x < 2 ^ LENGTH('a) then Some (of_nat x) else None)"
  for a b :: "'a::len word"
  by (auto simp: checked_mul_def)

text \<open>The integer arithmetic on a decoded significand and exponent.\<close>

definition scale_units :: "backend_error \<Rightarrow> rounding \<Rightarrow> u128 \<Rightarrow> int \<Rightarrow> backend_error + u128" where
  "scale_units err rounding significand exponent =
      bind_result (ok_or err (checked_mul significand CAPACITY_UNITS_PER_GB)) (\<lambda>scaled.
       if 0 \<le> exponent then
         bind_result (ok_or err (checked_shl 1 (nat exponent))) (\<lambda>factor. ok_or err (checked_mul scaled factor))
       else
         let shift = nat (- exponent) in
         if 128 \<le> shift then (case rounding of Down \<Rightarrow> Inr 0 | Up \<Rightarrow> Inr 1)
         else
           let divisor = push_bit shift 1; quotient = scaled div divisor; remainder = scaled mod divisor
           in case rounding of
                Down \<Rightarrow> Inr quotient
              | Up \<Rightarrow> if remainder \<noteq> 0 then ok_or err (checked_add quotient 1) else Inr quotient)"

lemma scale_units_exact:
  fixes r :: rounding and w :: u128 and k S :: nat
  assumes S: "unat w = S" "0 < S" "S < 2 ^ 53" and k: "exponent = int k - 1074"
  defines "n \<equiv> S * 2 ^ k * 1000000000"
  defines "x \<equiv> n div 2 ^ 1074 + (if r = Up \<and> n mod 2 ^ 1074 \<noteq> 0 then 1 else 0)"
  shows "scale_units err r w exponent = (if x < 2 ^ 128 then Inr (of_nat x) else Inl err)"
proof -
  define A where "A = S * 1000000000"
  have A: "0 < A" "A < 2 ^ 83" using S by (auto simp: A_def)
  have n: "n = A * 2 ^ k" by (simp add: n_def A_def)
  obtain sc where sc: "checked_mul w CAPACITY_UNITS_PER_GB = Some sc" "unat sc = A"
  proof -
    have "unat w * unat CAPACITY_UNITS_PER_GB = A" using S by (simp add: A_def CAPACITY_UNITS_PER_GB_def)
    then show thesis using A that [of "w * CAPACITY_UNITS_PER_GB"]
      by (simp add: checked_mul_def unat_word_ariths)
  qed
  show ?thesis
  proof (cases "1074 \<le> k")
    case True
    define j where "j = k - 1074"
    have kj: "k = 1074 + j" and ex: "0 \<le> exponent" "nat exponent = j" using True k by (auto simp: j_def)
    have nj: "n = A * 2 ^ j * 2 ^ 1074" unfolding n kj power_add by (simp only: mult_ac)
    have x: "x = A * 2 ^ j" unfolding x_def nj
      by (simp only: mod_mult_self2_is_0 nonzero_mult_div_cancel_right power_not_zero) simp
    show ?thesis
    proof (cases "j < 128")
      case True
      have "ok_or err (checked_mul sc (push_bit j 1)) = (if x < 2 ^ 128 then Inr (of_nat x) else Inl err)"
        by (subst checked_mul_nat [where x = x]) (simp_all only: x sc unat_one_shifted [OF True] ok_or_def option.case if_split, auto)
      then show ?thesis using True ex sc by (simp add: scale_units_def ok_or_def checked_shl_def)
    next
      case False
      have "(2::nat) ^ 128 \<le> 2 ^ j" using False by (intro power_increasing) auto
      also have "\<dots> \<le> x" using A by (simp add: x)
      finally show ?thesis using False ex sc by (simp add: scale_units_def ok_or_def checked_shl_def)
    qed
  next
    case False
    define s where "s = 1074 - k"
    have s: "0 < s" "1074 = k + s" and ex: "\<not> 0 \<le> exponent" "nat (- exponent) = s" using False k by (auto simp: s_def)
    have p: "(2::nat) ^ 1074 = 2 ^ k * 2 ^ s" unfolding s(2) power_add ..
    have d: "n div 2 ^ 1074 = A div 2 ^ s" unfolding n p mult.commute [of A] by (rule div_mult_mult1) simp
    have m: "n mod 2 ^ 1074 = 2 ^ k * (A mod 2 ^ s)" unfolding n p mult.commute [of A] by (rule mult_mod_right [symmetric])
    have x: "x = A div 2 ^ s + (if r = Up \<and> A mod 2 ^ s \<noteq> 0 then 1 else 0)"
      unfolding x_def d m by simp
    show ?thesis
    proof (cases "128 \<le> s")
      case True
      have "(2::nat) ^ 83 \<le> 2 ^ s" using True by (intro power_increasing) auto
      with A have As: "A < 2 ^ s" by linarith
      then have "A div 2 ^ s = 0" "A mod 2 ^ s = A" by (rule div_less, rule mod_less)
      then have "x = (case r of Down \<Rightarrow> 0 | Up \<Rightarrow> 1)" using A(1) x by (cases r) simp_all
      then show ?thesis using True ex sc by (cases r) (simp_all add: scale_units_def ok_or_def)
    next
      case False
      define D :: u128 where "D = 2 ^ s"
      have P: "push_bit s 1 = D" by (simp add: D_def push_bit_eq_mult)
      have dv: "unat D = 2 ^ s" using unat_one_shifted [of s] False unfolding P by simp
      have q: "unat (sc div D) = A div 2 ^ s" "unat (sc mod D) = A mod 2 ^ s"
        by (simp_all only: unat_div unat_mod sc dv)
      have rz: "sc mod D = 0 \<longleftrightarrow> A mod 2 ^ s = 0"
        using q(2) by (metis unsigned_eq_0_iff)
      have "A div 2 ^ s + 1 \<le> 2 ^ 83" using A div_le_dividend [of A "2 ^ s"] by linarith
      also have "(2::nat) ^ 83 < 2 ^ 128" by simp
      finally have le: "A div 2 ^ s + 1 < 2 ^ 128" .
      have x128: "x < 2 ^ 128" using le by (simp add: x)
      have qx: "sc div D = of_nat (A div 2 ^ s)" unfolding q(1) [symmetric] by simp
      have add: "checked_add (sc div D) 1 = Some (of_nat (A div 2 ^ s) + 1)"
        using le q(1) unfolding checked_add_def by (simp add: qx)
      have "scale_units err r w exponent =
          (case r of Down \<Rightarrow> Inr (sc div D) | Up \<Rightarrow> if sc mod D \<noteq> 0 then ok_or err (checked_add (sc div D) 1) else Inr (sc div D))"
        using False by (simp only: scale_units_def sc ok_or_def option.case bind_result.simps ex Let_def P if_False)
      also have "\<dots> = Inr (of_nat x)"
        unfolding x rz add ok_or_def by (cases r) (auto simp: qx)
      finally show ?thesis using x128 by simp
    qed
  qed
qed

lemma magnitude_zero: "f64_magnitude f64_zero = 0"
  by (simp add: f64_zero_def f64_magnitude_def)

lemma to_capacity_units_scale:
  "to_capacity_units field v r =
    (if \<not> f64_is_finite v \<or> f64_lt v f64_zero
     then Inl (InvalidRequest [Text ''invalid global capacity '', Text field, Text '': '', Float v])
     else if f64_eq v f64_zero then Inr 0
     else let e = unat (drop_bit 52 v AND 0x7FF); f = v AND (push_bit 52 1 - 1) in
       if e = 0 then scale_units (capacity_range_error field v) r (ucast f) (- 1074)
       else scale_units (capacity_range_error field v) r (ucast (push_bit 52 1 OR f)) (int e - 1023 - 52))"
  unfolding to_capacity_units_def scale_units_def Let_def
  by (rule if_cong [OF refl refl], rule if_cong [OF refl refl])
    (cases "unat (drop_bit 52 v AND 0x7FF) = 0"; simp only: prod.case if_True if_False simp_thms)

lemma conversion_exact:
  "to_capacity_units field v r =
    (if \<not> f64_is_finite v \<or> f64_lt v f64_zero
     then Inl (InvalidRequest [Text ''invalid global capacity '', Text field, Text '': '', Float v])
     else if exact_units r v < 2 ^ 128 then Inr (of_nat (exact_units r v))
     else Inl (capacity_range_error field v))"
proof (cases "\<not> f64_is_finite v \<or> f64_lt v f64_zero")
  case True
  then show ?thesis by (simp add: to_capacity_units_def)
next
  case False
  define m where "m = f64_magnitude v"
  show ?thesis
  proof (cases "f64_eq v f64_zero")
    case True
    then have "m = 0" by (simp add: f64_eq_def f64_ord_def m_def magnitude_zero split: if_splits)
    then have "exact_units r v = 0" by (simp add: exact_units_eq m_def)
    with True False show ?thesis by (simp add: to_capacity_units_def)
  next
    case nz: False
    have m0: "m \<noteq> 0"
    proof
      assume "m = 0"
      then have "f64_eq v f64_zero"
        by (simp add: f64_eq_def f64_ord_def f64_is_nan_def m_def magnitude_zero)
      with nz show False by simp
    qed
    define e f where "e = m div 2 ^ 52" and "f = m mod 2 ^ 52"
    have f: "f < 2 ^ 52" by (simp add: f_def)
    let ?err = "capacity_range_error field v"
    have goal: "to_capacity_units field v r =
       (if e = 0 then scale_units ?err r (ucast (v AND (push_bit 52 1 - 1))) (- 1074)
        else scale_units ?err r (ucast (push_bit 52 1 OR (v AND (push_bit 52 1 - 1)))) (int e - 1023 - 52))"
      using False nz unfolding to_capacity_units_scale exponent_field m_def [symmetric] e_def [symmetric] Let_def by simp
    show ?thesis
    proof (cases "e = 0")
      case True
      then have fm: "f = m" using m0 by (simp add: e_def f_def)
      have "scale_units ?err r (ucast (v AND (push_bit 52 1 - 1))) (- 1074) =
          (if exact_units r v < 2 ^ 128 then Inr (of_nat (exact_units r v)) else Inl ?err)"
        unfolding exact_units_eq Let_def m_def [symmetric]
        by (subst scale_units_exact [where S = f and k = 0])
          (use True f fm m0 in \<open>simp_all only: unat_ucast_wide fraction_field m_def [symmetric] f_def [symmetric]
             magnitude_units_def e_def [symmetric] Let_def, simp_all\<close>)
      with True goal False show ?thesis by simp
    next
      case False': False
      have "scale_units ?err r (ucast (push_bit 52 1 OR (v AND (push_bit 52 1 - 1)))) (int e - 1023 - 52) =
          (if exact_units r v < 2 ^ 128 then Inr (of_nat (exact_units r v)) else Inl ?err)"
        unfolding exact_units_eq Let_def m_def [symmetric]
        by (subst scale_units_exact [where S = "2 ^ 52 + f" and k = "e - 1"])
          (use False' f in \<open>simp_all only: unat_ucast_wide significand_field m_def [symmetric] f_def [symmetric]
             magnitude_units_def e_def [symmetric] Let_def, simp_all\<close>)
      with False' goal False show ?thesis by simp
    qed
  qed
qed

text \<open>
  C30. The fixed-point conversion is exact: a finite, non-negative amount becomes precisely its value
  times ten to the ninth, rounded down for a budget and up for a charge, and it is refused exactly
  when that integer does not fit 128 bits; anything else is an invalid request.
\<close>

theorem to_capacity_units_exact:
  "to_capacity_units field v r =
    (if f64_is_finite v \<and> \<not> f64_lt v f64_zero then
       (if exact_units r v < 2 ^ 128 then Inr (of_nat (exact_units r v)) else Inl (capacity_range_error field v))
     else Inl (InvalidRequest [Text ''invalid global capacity '', Text field, Text '': '', Float v]))"
  using conversion_exact by simp

section \<open>Accounting lemmas\<close>

definition reserved_units :: "capacity_ledger \<Rightarrow> nat" where
  "reserved_units L = bt_sum (\<lambda>a. unat (charged_units a)) (ledger_allocations L)"

definition capacity_limit :: "capacity_ledger \<Rightarrow> nat" where
  "capacity_limit L = unat (saturating_add (ledger_units L) (epsilon_units L))"

definition reduced_limit :: "capacity_ledger \<Rightarrow> nat" where
  "reduced_limit L = unat (saturating_add (saturating_sub (ledger_units L) (headroom_units L)) (epsilon_units L))"

definition ledger_wf :: "capacity_ledger \<Rightarrow> bool" where
  "ledger_wf L \<longleftrightarrow> bt_wf (ledger_allocations L) \<and> reserved_units L < 2 ^ 128"

lemma fold_total_None: "fold (\<lambda>(_, a) acc. Option.bind acc (\<lambda>t. checked_add t (charged_units a))) m None = None"
  by (induction m) auto

lemma fold_total:
  "fold (\<lambda>(_, a) acc. Option.bind acc (\<lambda>t. checked_add t (charged_units a))) m (Some t) =
    (let s = unat t + bt_sum (\<lambda>a. unat (charged_units a)) m in if s < 2 ^ 128 then Some (of_nat s) else None)"
proof (induction m arbitrary: t)
  case Nil
  have "unat t < 2 ^ 128" using unsigned_less [of t] by simp
  then show ?case by simp
next
  case (Cons p m)
  obtain k a where p: "p = (k, a)" by (cases p)
  show ?case
  proof (cases "unat t + unat (charged_units a) < 2 ^ 128")
    case True
    then have "unat (t + charged_units a) = unat t + unat (charged_units a)" by (simp add: unat_word_ariths)
    with True Cons.IH [of "t + charged_units a"] show ?thesis
      by (simp add: p checked_add_def Let_def add.assoc)
  next
    case False
    then have "checked_add t (charged_units a) = None" by (simp add: checked_add_def)
    with False show ?thesis by (simp add: p fold_total_None)
  qed
qed

lemma exact_total_units_eq:
  "exact_total_units m = (let s = bt_sum (\<lambda>a. unat (charged_units a)) m in if s < 2 ^ 128 then Some (of_nat s) else None)"
  using fold_total [of m 0] by (simp add: exact_total_units_def)

lemma unat_of_nat_small: "n < 2 ^ 128 \<Longrightarrow> unat (of_nat n :: u128) = n"
  by (simp add: unat_of_nat)

lemma check_admission_ok:
  "check_admission L key n allow = Inr u \<longleftrightarrow> unat n \<le> capacity_limit L \<and> (allow \<or> unat n \<le> reduced_limit L)"
  by (auto simp: check_admission_def capacity_limit_def reduced_limit_def word_le_nat_alt word_less_nat_alt Let_def)

lemma reduced_le_limit: "reduced_limit L \<le> capacity_limit L"
  by (auto simp: reduced_limit_def capacity_limit_def u64_simps)

lemma reserve_allocationsE:
  assumes "reserve_allocations L key gb allow = Inr m" "ledger_wf L"
  obtains a where "map_of (ledger_allocations L) key = Some a" "f64_eq (requested_gb a) gb" "m = ledger_allocations L"
  | u where "map_of (ledger_allocations L) key = None" "to_capacity_units ''memory_gb'' gb Up = Inr u"
    "m = bt_insert key \<lparr>requested_gb = gb, charged_units = u\<rparr> (ledger_allocations L)"
    "reserved_units L + unat u \<le> capacity_limit L" "allow \<or> reserved_units L + unat u \<le> reduced_limit L"
proof -
  have wf: "reserved_units L < 2 ^ 128" "exact_total_units (ledger_allocations L) = Some (of_nat (reserved_units L))"
    using assms(2) by (simp_all add: ledger_wf_def reserved_units_def exact_total_units_eq)
  note un = unat_of_nat_small [OF wf(1)]
  show ?thesis
  proof (cases "map_of (ledger_allocations L) key")
    case None
    with assms(1) wf(2) obtain u t where
      "to_capacity_units ''memory_gb'' gb Up = Inr u" "checked_add (of_nat (reserved_units L)) u = Some t"
      "check_admission L key t allow = Inr ()" "m = bt_insert key \<lparr>requested_gb = gb, charged_units = u\<rparr> (ledger_allocations L)"
      by (auto simp: reserve_allocations_def result_simps split: if_splits option.splits)
    moreover from this have "unat t = reserved_units L + unat u" using checked_add_unat un by metis
    ultimately show thesis using None that(2) by (simp add: check_admission_ok)
  next
    case (Some a)
    with assms(1) that(1) show thesis
      by (auto simp: reserve_allocations_def result_simps split: if_splits)
  qed
qed

lemma replaced_allocationsE:
  assumes "replaced_allocations L key expected n enforce planned allow = Inr m" "ledger_wf L"
  obtains "m = (case n of Some a \<Rightarrow> bt_insert key a (ledger_allocations L) | None \<Rightarrow> bt_remove key (ledger_allocations L))"
    "expectation_met expected (map_of (ledger_allocations L) key)"
    "let cur = held_at (\<lambda>a. unat (charged_units a)) (map_of (ledger_allocations L) key);
         new = held_at (\<lambda>a. unat (charged_units a)) n
     in reserved_units L - cur + new < 2 ^ 128
        \<and> (enforce \<and> cur < new \<longrightarrow> reserved_units L - cur + new \<le> capacity_limit L)"
proof -
  let ?cu = "case map_of (ledger_allocations L) key of None \<Rightarrow> 0 | Some a \<Rightarrow> charged_units a"
  let ?nu = "case n of None \<Rightarrow> 0 | Some a \<Rightarrow> charged_units a"
  let ?cur = "held_at (\<lambda>a. unat (charged_units a)) (map_of (ledger_allocations L) key)"
  let ?new = "held_at (\<lambda>a. unat (charged_units a)) n"
  have uc: "unat ?cu = ?cur" "unat ?nu = ?new" by (simp_all split: option.splits)
  have wf: "reserved_units L < 2 ^ 128" "exact_total_units (ledger_allocations L) = Some (of_nat (reserved_units L))"
    using assms(2) by (simp_all add: ledger_wf_def reserved_units_def exact_total_units_eq)
  note un = unat_of_nat_small [OF wf(1)]
  from assms(1) wf(2) obtain o' t where
    o': "checked_sub (of_nat (reserved_units L)) ?cu = Some o'" and t: "checked_add o' ?nu = Some t" and
    r: "expectation_met expected (map_of (ledger_allocations L) key)"
      "enforce \<Longrightarrow> ?cu < ?nu \<Longrightarrow> check_admission L key t allow = Inr ()"
      "m = (case n of Some a \<Rightarrow> bt_insert key a (ledger_allocations L) | None \<Rightarrow> bt_remove key (ledger_allocations L))"
    unfolding replaced_allocations_def by (auto simp: result_simps Let_def split: if_splits)
  have tu: "unat t = reserved_units L - ?cur + ?new"
    using checked_sub_unat [OF o'] checked_add_unat [OF t] un by (simp only: uc)
  have "unat t < 2 ^ 128" using unsigned_less [of t] by simp
  moreover have "unat t \<le> capacity_limit L" if "enforce" "?cur < ?new"
    using r(2) that unfolding check_admission_ok word_less_nat_alt uc by simp
  ultimately show thesis using that r(1,3) by (simp add: tu Let_def)
qed

lemma reserved_update:
  assumes "ledger_wf L"
    and "m = (case n of Some a \<Rightarrow> bt_insert key a (ledger_allocations L) | None \<Rightarrow> bt_remove key (ledger_allocations L))"
  shows "bt_wf m" and "bt_sum (\<lambda>a. unat (charged_units a)) m
    = reserved_units L - held_at (\<lambda>a. unat (charged_units a)) (map_of (ledger_allocations L) key)
      + held_at (\<lambda>a. unat (charged_units a)) n"
proof -
  let ?f = "\<lambda>a. unat (charged_units a)"
  have wf: "bt_wf (ledger_allocations L)" using assms(1) by (simp add: ledger_wf_def)
  have le: "held_at ?f (map_of (ledger_allocations L) key) \<le> reserved_units L"
    unfolding reserved_units_def by (auto split: option.splits intro: bt_sum_lookup_le)
  show "bt_wf m" using assms(2) wf by (auto split: option.splits intro: bt_wf_insert bt_wf_remove)
  show "bt_sum ?f m = reserved_units L - held_at ?f (map_of (ledger_allocations L) key) + held_at ?f n"
  proof (cases n)
    case None
    with assms(2) bt_sum_remove [OF wf, of ?f key] show ?thesis by (simp add: reserved_units_def)
  next
    case (Some a)
    with assms(2) le bt_sum_insert [OF wf, of ?f key a] show ?thesis
      unfolding reserved_units_def by simp
  qed
qed

text \<open>What one successful write does to the account, whichever method made it.\<close>

definition sound_write :: "string \<Rightarrow> bool \<Rightarrow> capacity_ledger \<Rightarrow> capacity_ledger \<Rightarrow> bool" where
  "sound_write key admitted L L' \<longleftrightarrow> ledger_wf L'
     \<and> L' = L\<lparr>ledger_allocations := ledger_allocations L'\<rparr>
     \<and> (\<forall>k. k \<noteq> key \<longrightarrow> map_of (ledger_allocations L') k = map_of (ledger_allocations L) k)
     \<and> (admitted \<longrightarrow> reserved_units L' \<le> max (reserved_units L) (capacity_limit L))"

lemma sound_write_refl: "ledger_wf L \<Longrightarrow> sound_write key admitted L L"
  by (simp add: sound_write_def)

lemma limit_allocations [simp]:
  "capacity_limit (L\<lparr>ledger_allocations := m\<rparr>) = capacity_limit L"
  "reduced_limit (L\<lparr>ledger_allocations := m\<rparr>) = reduced_limit L"
  by (simp_all add: capacity_limit_def reduced_limit_def)

lemma limit_less: "capacity_limit L < 2 ^ 128"
  using unsigned_less [of "saturating_add (ledger_units L) (epsilon_units L)"] by (simp add: capacity_limit_def)

lemma reserve_sound:
  assumes "ledger_wf L"
  shows "sound_write key admitted L (snd (reserve_with_headroom key gb allow L))"
proof (cases "reserve_allocations L key gb allow")
  case (Inl e)
  with assms show ?thesis by (simp add: reserve_with_headroom_def commit_def sound_write_refl)
next
  case (Inr m)
  from Inr assms show ?thesis
  proof (cases rule: reserve_allocationsE)
    case 1
    with Inr assms show ?thesis by (simp add: reserve_with_headroom_def commit_def sound_write_def)
  next
    case (2 u)
    have "m = (case Some \<lparr>requested_gb = gb, charged_units = u\<rparr> of
        Some a \<Rightarrow> bt_insert key a (ledger_allocations L) | None \<Rightarrow> bt_remove key (ledger_allocations L))"
      using 2 by simp
    from reserved_update [OF assms this] 2 limit_less [of L] show ?thesis
      by (simp add: Inr reserve_with_headroom_def commit_def sound_write_def ledger_wf_def reserved_units_def)
  qed
qed

lemma replace_sound:
  assumes "ledger_wf L" "admitted \<longrightarrow> enforce"
  shows "sound_write key admitted L (snd (replace_allocation key e n enforce planned allow L))"
proof (cases "replaced_allocations L key e n enforce planned allow")
  case (Inl e)
  with assms show ?thesis by (simp add: replace_allocation_def commit_def sound_write_refl)
next
  case (Inr m)
  let ?f = "\<lambda>a. unat (charged_units a)"
  let ?cur = "held_at ?f (map_of (ledger_allocations L) key)"
  have le: "?cur \<le> reserved_units L"
    unfolding reserved_units_def by (auto split: option.splits intro: bt_sum_lookup_le)
  from Inr assms(1) show ?thesis
  proof (rule replaced_allocationsE)
    assume m: "m = (case n of Some a \<Rightarrow> bt_insert key a (ledger_allocations L) | None \<Rightarrow> bt_remove key (ledger_allocations L))"
      and b: "let cur = ?cur; new = held_at ?f n in reserved_units L - cur + new < 2 ^ 128
        \<and> (enforce \<and> cur < new \<longrightarrow> reserved_units L - cur + new \<le> capacity_limit L)"
    have "\<forall>k. k \<noteq> key \<longrightarrow> map_of m k = map_of (ledger_allocations L) k"
      using m by (auto split: option.splits)
    moreover have "reserved_units L - ?cur + held_at ?f n \<le> max (reserved_units L) (capacity_limit L)" if admitted
      using b assms(2) that le by (cases "?cur < held_at ?f n") (auto simp: Let_def)
    ultimately show ?thesis using reserved_update [OF assms(1) m] b
      by (simp add: Inr replace_allocation_def commit_def sound_write_def ledger_wf_def reserved_units_def Let_def)
  qed
qed

lemma compare_and_set_sound:
  "ledger_wf L \<Longrightarrow> admitted \<longrightarrow> enforce \<Longrightarrow> sound_write key admitted L (snd (compare_and_set key e n enforce L))"
  by (auto simp: compare_and_set_def sound_write_refl replace_sound split: sum.splits option.splits)

lemma release_sound:
  assumes "ledger_wf L"
  shows "sound_write key admitted L (snd (release key L))"
proof (cases "poisoned L")
  case False
  have "bt_remove key (ledger_allocations L) = (case None of
      Some a \<Rightarrow> bt_insert key a (ledger_allocations L) | None \<Rightarrow> bt_remove key (ledger_allocations L))" by simp
  from reserved_update [OF assms this] assms False show ?thesis
    by (auto simp: release_def sound_write_def ledger_wf_def reserved_units_def)
qed (use assms in \<open>simp add: release_def sound_write_refl\<close>)

lemma step_sound:
  "ledger_wf L \<Longrightarrow> sound_write (op_key op) (\<not> observation op) L (capacity_step op L)"
  by (cases op)
    (simp_all add: reserve_sound release_sound resize_def adopt_observed_def block_growth_for_unknown_residency_def
      update_charge_def claim_charge_def compare_and_set_sound replace_sound case_prod_beta Let_def)

interpretation cap: limited_account reserved_units capacity_limit ledger_wf capacity_step "\<lambda>op L. observation op"
proof
  fix L op assume "ledger_wf L"
  then show "ledger_wf (capacity_step op L)" using step_sound [of L op] by (simp add: sound_write_def)
next
  fix L op assume "ledger_wf L"
  then have "capacity_step op L = L\<lparr>ledger_allocations := ledger_allocations (capacity_step op L)\<rparr>"
    using step_sound [of L op] by (simp add: sound_write_def)
  then show "capacity_limit (capacity_step op L) = capacity_limit L" by (metis limit_allocations(1))
next
  fix L op assume "ledger_wf L" "\<not> observation op"
  then show "reserved_units (capacity_step op L) \<le> max (reserved_units L) (capacity_limit L)"
    using step_sound [of L op] by (simp add: sound_write_def)
qed

lemma run_fields: "ledger_wf L \<Longrightarrow> \<exists>m. fold capacity_step ops L = L\<lparr>ledger_allocations := m\<rparr>"
proof (induction ops arbitrary: L)
  case Nil
  have "L = L\<lparr>ledger_allocations := ledger_allocations L\<rparr>" by simp
  then show ?case by (metis fold_simps(1))
next
  case (Cons op ops)
  then have s: "sound_write (op_key op) (\<not> observation op) L (capacity_step op L)" by (intro step_sound)
  then have "ledger_wf (capacity_step op L)" by (simp add: sound_write_def)
  then obtain m where "fold capacity_step ops (capacity_step op L) = (capacity_step op L)\<lparr>ledger_allocations := m\<rparr>"
    using Cons.IH by blast
  moreover have "capacity_step op L = L\<lparr>ledger_allocations := ledger_allocations (capacity_step op L)\<rparr>"
    using s by (simp add: sound_write_def)
  ultimately show ?case by (metis (no_types, lifting) capacity_ledger.surjective capacity_ledger.update_convs(5) fold_simps(2))
qed

section \<open>Properties\<close>

lemma new_bytes_account:
  "ledger_wf (ledger_new_bytes_with_headroom b h)" "reserved_units (ledger_new_bytes_with_headroom b h) = 0"
  "capacity_limit (ledger_new_bytes_with_headroom b h) = unat b"
proof -
  have "unat b < 2 ^ 128" by (rule less_trans [OF unsigned_less]) simp
  then show "capacity_limit (ledger_new_bytes_with_headroom b h) = unat b"
    by (simp add: ledger_new_bytes_with_headroom_def capacity_limit_def u64_simps unat_ucast_wide)
qed (simp_all add: ledger_new_bytes_with_headroom_def ledger_wf_def reserved_units_def)

lemma ledger_newE:
  assumes "ledger_new gb = Inr L"
  obtains "ledger_wf L" "reserved_units L = 0" "capacity_limit L \<le> exact_units Down gb + 1000"
    "ledger_gb L = gb" "unat (ledger_units L) = exact_units Down gb" "epsilon_units L = 1000"
    "f64_is_finite gb" "\<not> f64_lt gb f64_zero"
proof -
  from assms obtain u where u: "to_capacity_units ''budget_gb'' gb Down = Inr u"
    "L = \<lparr>ledger_gb = gb, ledger_units = u, epsilon_units = CAPACITY_EPSILON_UNITS, headroom_units = 0,
          ledger_allocations = [], poisoned = False\<rparr>"
    by (auto simp: ledger_new_def result_simps)
  from u(1) have "unat u = exact_units Down gb" "f64_is_finite gb" "\<not> f64_lt gb f64_zero"
    unfolding conversion_exact using unat_of_nat_small by (auto split: if_splits)
  with u(2) show thesis
    by (intro that) (simp_all add: ledger_wf_def reserved_units_def capacity_limit_def u64_simps CAPACITY_EPSILON_UNITS_def)
qed

text \<open>
  C5. However many admitted operations run in whatever order (reservations, releases, resizes,
  claims, admitted growth), the bytes reserved never exceed the budget of a ledger made from bytes, and
  never exceed that of a ledger made from gigabytes, rounded down, by more than the thousand bytes of its
  admission tolerance. Observations of what a runtime uses already are not admitted and are excluded.
\<close>

theorem capacity_never_exceeded:
  assumes "list_all (\<lambda>op. \<not> observation op) ops"
  shows "reserved_units (fold capacity_step ops (ledger_new_bytes_with_headroom b h)) \<le> unat b
    \<and> (\<forall>gb L. ledger_new gb = Inr L \<longrightarrow> reserved_units (fold capacity_step ops L) \<le> exact_units Down gb + 1000)"
proof (intro conjI allI impI)
  show "reserved_units (fold capacity_step ops (ledger_new_bytes_with_headroom b h)) \<le> unat b"
    using cap.run_admitted [OF new_bytes_account(1)] assms by (simp add: new_bytes_account admitted_run_static)
next
  fix gb L assume "ledger_new gb = Inr L"
  then show "reserved_units (fold capacity_step ops L) \<le> exact_units Down gb + 1000"
  proof (rule ledger_newE)
    assume "ledger_wf L" "reserved_units L = 0" "capacity_limit L \<le> exact_units Down gb + 1000"
    with cap.run_admitted [of L ops] assms show ?thesis by (simp add: admitted_run_static)
  qed
qed

theorem capacity_never_exceeded_witness:
  "reserved_units (fold capacity_step
     [UpdateCharge ''a'' None 6 True, UpdateCharge ''b'' None 6 True, Release ''a'', UpdateCharge ''b'' None 6 True]
     (ledger_new_bytes_with_headroom 8 2)) \<le> 8"
  using capacity_never_exceeded [of "[UpdateCharge ''a'' None 6 True, UpdateCharge ''b'' None 6 True,
    Release ''a'', UpdateCharge ''b'' None 6 True]" 8 2] by simp

text \<open>Whether the method's result is \<open>Ok\<close>.\<close>

fun capacity_ok :: "capacity_op \<Rightarrow> capacity_ledger \<Rightarrow> bool" where
  "capacity_ok (Reserve k gb allow) L = is_ok (fst (reserve_with_headroom k gb allow L))"
| "capacity_ok (Release k) L = is_ok (fst (release k L))"
| "capacity_ok (Resize k e n) L = is_ok (fst (resize k e n L))"
| "capacity_ok (AdoptObserved k e v) L = is_ok (fst (adopt_observed k e v L))"
| "capacity_ok (BlockGrowth k e) L = is_ok (fst (block_growth_for_unknown_residency k e L))"
| "capacity_ok (UpdateCharge k e n admit) L = is_ok (fst (update_charge k e n admit L))"
| "capacity_ok (ClaimCharge k c p allow) L = is_ok (fst (claim_charge k c p allow L))"

lemma commit_fail: "\<not> is_ok (fst (commit L r)) \<Longrightarrow> snd (commit L r) = L"
  by (cases r) (simp_all add: commit_def)

lemma compare_and_set_fail: "\<not> is_ok (fst (compare_and_set k e n enforce L)) \<Longrightarrow> snd (compare_and_set k e n enforce L) = L"
  by (auto simp: compare_and_set_def replace_allocation_def commit_fail split: sum.splits option.splits)

lemma is_ok_bind_unit: "is_ok (bind_result r (\<lambda>_. Inr x)) = is_ok r"
  by (cases r) auto

text \<open>
  Owners are isolated: an operation that fails leaves the ledger as it was, and one that
  succeeds changes nothing but the allocation of its own key.
\<close>

theorem capacity_owner_isolation:
  assumes "ledger_wf L"
  shows "(if capacity_ok op L
     then \<exists>m. capacity_step op L = L\<lparr>ledger_allocations := m\<rparr>
        \<and> (\<forall>k. k \<noteq> op_key op \<longrightarrow> map_of m k = map_of (ledger_allocations L) k)
     else capacity_step op L = L)"
proof (cases "capacity_ok op L")
  case True
  with step_sound [OF assms, of op] show ?thesis
    unfolding sound_write_def by (auto intro: exI [of _ "ledger_allocations (capacity_step op L)"])
next
  case False
  then have "capacity_step op L = L"
    by (cases op) (auto simp: reserve_with_headroom_def commit_fail release_def resize_def adopt_observed_def
        compare_and_set_fail block_growth_for_unknown_residency_def case_prod_beta Let_def is_ok_bind_unit
        update_charge_def claim_charge_def replace_allocation_def split: if_splits)
  with False show ?thesis by simp
qed

theorem capacity_owner_isolation_witness:
  "capacity_step (Release ''a'') (ledger_new_bytes_with_headroom 8 2)
     = (ledger_new_bytes_with_headroom 8 2)\<lparr>ledger_allocations := []\<rparr>"
proof -
  have ok: "capacity_ok (Release ''a'') (ledger_new_bytes_with_headroom 8 2)"
    by (simp add: release_def ledger_new_bytes_with_headroom_def)
  from capacity_owner_isolation [OF new_bytes_account(1) [of 8 2], of "Release ''a''"] ok
  have "\<exists>m. capacity_step (Release ''a'') (ledger_new_bytes_with_headroom 8 2)
     = (ledger_new_bytes_with_headroom 8 2)\<lparr>ledger_allocations := m\<rparr>" by (simp only: if_True) blast
  then show ?thesis by (simp add: release_def ledger_new_bytes_with_headroom_def bt_remove_def)
qed

text \<open>
  The headroom is spent only on confirmation, and confirmation is asked for only where it helps:
  an unconfirmed reservation of a new key leaves the headroom unreserved, and it fails with
  \<open>HeadroomConfirmationRequired\<close> only if the confirmed reservation would succeed.
\<close>

theorem headroom_needs_confirmation:
  assumes "ledger_wf L" and "map_of (ledger_allocations L) key = None"
  shows "case fst (reserve_with_headroom key gb False L) of
      Inr _ \<Rightarrow> reserved_units (snd (reserve_with_headroom key gb False L)) \<le> reduced_limit L
    | Inl e \<Rightarrow> (case e of
        HeadroomConfirmationRequired k \<Rightarrow> k = key \<and> fst (reserve_with_headroom key gb True L) = Inr ()
          \<and> reduced_limit L < reserved_units L + exact_units Up gb
          \<and> reserved_units L + exact_units Up gb \<le> capacity_limit L
      | _ \<Rightarrow> snd (reserve_with_headroom key gb False L) = L)"
proof (cases "reserve_allocations L key gb False")
  case (Inr m)
  from Inr assms(1) show ?thesis
  proof (cases rule: reserve_allocationsE)
    case (2 u)
    have "m = (case Some \<lparr>requested_gb = gb, charged_units = u\<rparr> of
        Some a \<Rightarrow> bt_insert key a (ledger_allocations L) | None \<Rightarrow> bt_remove key (ledger_allocations L))"
      using 2 by simp
    from reserved_update(2) [OF assms(1) this] 2 show ?thesis
      by (simp add: Inr reserve_with_headroom_def commit_def reserved_units_def)
  qed (use assms in simp)
next
  case (Inl e)
  have snd: "snd (reserve_with_headroom key gb False L) = L" by (simp add: reserve_with_headroom_def commit_def Inl)
  have res: "k = key \<and> fst (reserve_with_headroom key gb True L) = Inr ()
          \<and> reduced_limit L < reserved_units L + exact_units Up gb
          \<and> reserved_units L + exact_units Up gb \<le> capacity_limit L" if e: "e = HeadroomConfirmationRequired k" for k
  proof -
    have wf: "reserved_units L < 2 ^ 128" "exact_total_units (ledger_allocations L) = Some (of_nat (reserved_units L))"
      using assms(1) by (simp_all add: ledger_wf_def reserved_units_def exact_total_units_eq)
    have cap_no: "to_capacity_units f v r \<noteq> Inl (HeadroomConfirmationRequired k)" for f v r
      by (simp add: conversion_exact capacity_range_error_def)
    from Inl e assms(2) wf(2) cap_no obtain u t where u: "to_capacity_units ''memory_gb'' gb Up = Inr u"
      and t: "checked_add (of_nat (reserved_units L)) u = Some t" and nb: "\<not> is_blank key" "\<not> poisoned L"
      and nz: "\<not> (f64_eq (ledger_gb L) f64_zero \<and> 0 < u)"
      and ca: "check_admission L key t False = Inl (HeadroomConfirmationRequired k)"
      by (auto simp: reserve_allocations_def result_simps split: if_splits option.splits)
    have tu: "unat t = reserved_units L + unat u"
      using checked_add_unat [OF t] unat_of_nat_small [OF wf(1)] by simp
    have uu: "unat u = exact_units Up gb"
      using u unat_of_nat_small unfolding conversion_exact by (auto split: if_splits)
    have k: "k = key" "\<not> unat t \<le> reduced_limit L" "unat t \<le> capacity_limit L"
      using ca by (auto simp: check_admission_def capacity_limit_def reduced_limit_def
          word_less_nat_alt Let_def split: if_splits)
    then have "check_admission L key t True = Inr ()" by (simp add: check_admission_ok)
    with u t nb nz wf(2) assms(2) have "fst (reserve_with_headroom key gb True L) = Inr ()"
      by (simp add: reserve_with_headroom_def reserve_allocations_def commit_def)
    with k tu uu show ?thesis by simp
  qed
  have fst: "fst (reserve_with_headroom key gb False L) = Inl e"
    by (simp add: reserve_with_headroom_def commit_def Inl)
  show ?thesis unfolding fst snd using res by (cases e) simp_all
qed

text \<open>
  A stale compare-and-set loses: once a resize from an expected value has set a different one,
  a second resize from the same expectation is refused and writes nothing.
\<close>

theorem resize_no_lost_update:
  assumes "resize key (Some v) (Some w) L = (Inr (), L')" and "\<not> f64_eq w v"
  shows "\<exists>e. resize key (Some v) n L' = (Inl e, L')"
proof -
  from assms(1) obtain a b where a: "to_capacity_units ''expected_gb'' v Up = Inr a" "to_capacity_units ''next_gb'' w Up = Inr b"
    and r: "replace_allocation key (Estimate (Some v)) (Some \<lparr>requested_gb = w, charged_units = b\<rparr>) True None True L = (Inr (), L')"
    by (auto simp: resize_def compare_and_set_def split: sum.splits)
  then have L': "ledger_allocations L' = bt_insert key \<lparr>requested_gb = w, charged_units = b\<rparr> (ledger_allocations L)"
    and nb: "\<not> is_blank key" "\<not> poisoned L"
    by (auto simp: replace_allocation_def commit_def replaced_allocations_def Let_def result_simps split: sum.splits if_splits)
  have "\<exists>e. replaced_allocations L' key (Estimate (Some v)) m True None True = Inl e" for m
    using assms(2) by (simp add: replaced_allocations_def L' Let_def)
  then have "\<exists>e. replace_allocation key (Estimate (Some v)) m True None True L' = (Inl e, L')" for m
    by (metis replace_allocation_def commit_def sum.case(1))
  then show ?thesis using a(1) by (auto simp: resize_def compare_and_set_def split: option.splits sum.splits)
qed

text \<open>
  Unknown residency is never free capacity: after it has been recorded for a runtime of a
  gigabyte-budget ledger, at any point of its life, no other new key can reserve more than the
  admission tolerance.
\<close>

theorem unknown_residency_blocks_growth:
  assumes "ledger_new gb = Inr L\<^sub>0" and "L = fold capacity_step ops L\<^sub>0"
    and "block_growth_for_unknown_residency key e L = (Inr g, L')"
    and "map_of (ledger_allocations L') key' = None" and "\<not> is_blank key'"
    and "to_capacity_units ''memory_gb'' m Up = Inr u" and "1000 < unat u"
  shows "fst (reserve_with_headroom key' m allow L') = Inl (Oom key')"
proof -
  obtain w0: "ledger_wf L\<^sub>0" and g0: "ledger_gb L\<^sub>0 = gb" "unat (ledger_units L\<^sub>0) = exact_units Down gb" "epsilon_units L\<^sub>0 = 1000"
    using assms(1) by (rule ledger_newE)
  obtain m1 where "ledger_wf L" and Lm: "L = L\<^sub>0\<lparr>ledger_allocations := m1\<rparr>"
    using run_fields [OF w0, of ops] cap.run_wf [OF w0, of ops] assms(2) by blast
  then have wL: "ledger_wf L" and gL: "ledger_gb L = gb" by (simp_all add: g0)
  have bl: "capacity_step (BlockGrowth key e) L = L'" using assms(3) by simp
  then obtain m2 where L': "ledger_wf L'" "L' = L\<lparr>ledger_allocations := m2\<rparr>"
    using step_sound [OF wL, of "BlockGrowth key e"] unfolding sound_write_def by metis
  with Lm have f: "ledger_units L' = ledger_units L\<^sub>0" "epsilon_units L' = 1000" by (simp_all add: g0)
  obtain b where b: "to_capacity_units ''next_gb'' gb Up = Inr b" and np: "\<not> poisoned L"
    and m2: "ledger_allocations L' = bt_insert key \<lparr>requested_gb = gb, charged_units = b\<rparr> (ledger_allocations L)"
    using assms(3) gL
    by (auto simp: block_growth_for_unknown_residency_def compare_and_set_def replace_allocation_def commit_def
        replaced_allocations_def Let_def result_simps split: sum.splits option.splits if_splits)
  have "unat b = exact_units Up gb"
    using b unat_of_nat_small unfolding conversion_exact by (auto split: if_splits)
  moreover have "unat b \<le> reserved_units L'"
    using bt_sum_lookup_le [of "ledger_allocations L'" key _ "\<lambda>a. unat (charged_units a)"] m2
    by (simp add: reserved_units_def)
  moreover have "exact_units Down gb \<le> exact_units Up gb" by (simp add: exact_units_eq Let_def)
  moreover have "capacity_limit L' \<le> unat (ledger_units L') + 1000"
    by (simp add: capacity_limit_def u64_simps f)
  moreover have "unat (ledger_units L') = exact_units Down gb" using g0 f by simp
  ultimately have over: "capacity_limit L' < reserved_units L' + unat u" using assms(7) by linarith
  have "exact_total_units (ledger_allocations L') = Some (of_nat (reserved_units L'))" "reserved_units L' < 2 ^ 128"
    using L'(1) by (simp_all add: ledger_wf_def reserved_units_def exact_total_units_eq)
  note tot = this
  have "check_admission L' key' t allow = Inl (Oom key')" if "checked_add (of_nat (reserved_units L')) u = Some t" for t
    using checked_add_unat [OF that] unat_of_nat_small [OF tot(2)] over
    by (simp add: check_admission_def capacity_limit_def word_less_nat_alt)
  then have "reserve_allocations L' key' m allow = Inl (Oom key')"
    using assms(4-6) np L'(2) tot(1) by (auto simp: reserve_allocations_def split: option.splits)
  then show ?thesis by (simp add: reserve_with_headroom_def commit_def)
qed

text \<open>One gigabyte, as a budget and as a request, and the ledger it gives.\<close>

lemma one_gb: "to_capacity_units f 0x3FF0000000000000 r = Inr 1000000000"
proof -
  have "f64_magnitude 0x3FF0000000000000 = 0x3FF0000000000000" by (simp add: f64_magnitude_def)
  then have "exact_units r 0x3FF0000000000000 = 1000000000"
    by (simp add: exact_units_eq magnitude_units_def)
  then show ?thesis by (simp add: conversion_exact f64_compare)
qed

definition one_gb_ledger :: capacity_ledger where
  "one_gb_ledger = \<lparr>ledger_gb = 0x3FF0000000000000, ledger_units = 1000000000, epsilon_units = 1000,
     headroom_units = 0, ledger_allocations = [], poisoned = False\<rparr>"

lemma one_gb_ledger: "ledger_new 0x3FF0000000000000 = Inr one_gb_ledger" "ledger_wf one_gb_ledger"
  by (simp_all add: ledger_new_def one_gb one_gb_ledger_def CAPACITY_EPSILON_UNITS_def ledger_wf_def reserved_units_def)

lemma blank_letters: "\<not> is_blank ''a''" "\<not> is_blank ''b''"
  by (simp_all add: is_blank_def chars_def trim_matches_def is_unicode_whitespace_def)

lemma one_gb_blocked:
  "block_growth_for_unknown_residency ''a'' None one_gb_ledger = (Inr 0x3FF0000000000000,
     one_gb_ledger\<lparr>ledger_allocations := [(''a'', \<lparr>requested_gb = 0x3FF0000000000000, charged_units = 1000000000\<rparr>)]\<rparr>)"
  by (simp add: block_growth_for_unknown_residency_def compare_and_set_def one_gb one_gb_ledger_def
      replace_allocation_def commit_def replaced_allocations_def blank_letters check_planned_def
      exact_total_units_def checked_add_def checked_sub_def ok_or_def)

theorem unknown_residency_blocks_growth_witness:
  "fst (reserve_with_headroom ''b'' 0x3FF0000000000000 True
     (one_gb_ledger\<lparr>ledger_allocations := [(''a'', \<lparr>requested_gb = 0x3FF0000000000000, charged_units = 1000000000\<rparr>)]\<rparr>))
   = Inl (Oom ''b'')"
  by (rule unknown_residency_blocks_growth [OF one_gb_ledger(1), of _ "[]", OF _ one_gb_blocked _ blank_letters(2) one_gb]) simp_all

theorem headroom_needs_confirmation_witness:
  "reserved_units (snd (reserve_with_headroom ''b'' 0x3FF0000000000000 False one_gb_ledger)) \<le> reduced_limit one_gb_ledger"
proof -
  have "fst (reserve_with_headroom ''b'' 0x3FF0000000000000 False one_gb_ledger) = Inr ()"
    by (simp add: reserve_with_headroom_def reserve_allocations_def one_gb one_gb_ledger_def commit_def blank_letters
        exact_total_units_def checked_add_def check_admission_def saturating_add_def saturating_sub_def f64_compare)
  with headroom_needs_confirmation [OF one_gb_ledger(2), of "''b''" "0x3FF0000000000000"] show ?thesis
    by (simp add: one_gb_ledger_def)
qed

theorem resize_no_lost_update_witness:
  "\<exists>L' e. resize ''a'' (Some 0x3FF0000000000000) None L' = (Inl e, L') \<and> ledger_allocations L' \<noteq> []"
proof -
  let ?L = "one_gb_ledger\<lparr>ledger_allocations := [(''a'', \<lparr>requested_gb = 0x3FF0000000000000, charged_units = 1000000000\<rparr>)]\<rparr>"
  let ?M = "one_gb_ledger\<lparr>ledger_allocations := [(''a'', \<lparr>requested_gb = 0, charged_units = 0\<rparr>)]\<rparr>"
  have z: "to_capacity_units f 0 r = Inr 0" for f r by (simp add: to_capacity_units_def f64_compare)
  have e: "f64_eq 0x3FF0000000000000 0x3FF0000000000000" "\<not> f64_eq 0 0x3FF0000000000000" by (simp_all add: f64_compare)
  have "resize ''a'' (Some 0x3FF0000000000000) (Some 0) ?L = (Inr (), ?M)"
    by (simp add: resize_def compare_and_set_def one_gb z e one_gb_ledger_def
      replace_allocation_def commit_def replaced_allocations_def blank_letters check_planned_def
      exact_total_units_def checked_add_def checked_sub_def ok_or_def)
  from resize_no_lost_update [OF this e(2), of None] obtain err where
    "resize ''a'' (Some 0x3FF0000000000000) None ?M = (Inl err, ?M)" ..
  moreover have "ledger_allocations ?M \<noteq> []" by simp
  ultimately show ?thesis by (intro exI conjI)
qed

end
