(* ===== verification/Ledger.thy ===== *)
theory Ledger
  imports Accounts Contracts "HOL-Library.AList"
begin

text \<open>
  The budget ledger (\<^verbatim>\<open>crates/idoris-tenancy/src/budget/\<close>: \<^verbatim>\<open>ledger.rs\<close>,
  \<^verbatim>\<open>error.rs\<close>, \<^verbatim>\<open>scope.rs\<close>, \<^verbatim>\<open>period.rs\<close>, the tables of
  \<^verbatim>\<open>migrations/\<close>). The database is a record of tables, keyed rows as association lists in
  row order; a \<open>BEGIN IMMEDIATE\<close> transaction is a function from the database to a result and the
  database it leaves: the old one where the transaction is rolled back or dropped. Amounts and
  instants are \<open>i64\<close> values, as \<open>int\<close> with every checked, saturating and wrapping step
  written out. The clock readings, the fresh row ids and the time-zone data of
  \<^verbatim>\<open>chrono-tz\<close> are arguments. Faults of the database file itself are not modelled.
\<close>

section \<open>Errors and amounts\<close>

record budget_scope =
  s_tenant :: string
  s_key :: string
  s_provider :: string
  s_model :: string

datatype storage_detail = StorageText string | StorageQuoted string string

datatype budget_error =
    Exceeded string int int int int string
  | PriceUnknown
  | NotConfigured budget_scope
  | TenantNotConfigured string
  | ReservationNotFound string
  | ReservationNotActive string string
  | InvalidScope string
  | InvalidLimit int
  | InvalidEstimate int
  | InvalidActualCost int
  | AmountOverflow string int
  | OverageTooLarge string int int
  | InvalidTimeZone string
  | TimeZoneChangeWithActiveReservations
  | InvalidConfig string string string
  | InvalidTimestamp int
  | InvalidTtl int
  | TenantMismatch string
  | BusyDatabase
  | Storage storage_detail

definition i64_max :: int where "i64_max = 2 ^ 63 - 1"

definition i64_min :: int where "i64_min = - (2 ^ 63)"

definition clamp_i64 :: "int \<Rightarrow> int" where
  "clamp_i64 x = max i64_min (min i64_max x)"

definition checked_sub_i64 :: "int \<Rightarrow> int \<Rightarrow> int" where
  "checked_sub_i64 a b = clamp_i64 (a - b)"

definition checked_add_i64 :: "int \<Rightarrow> int \<Rightarrow> int" where
  "checked_add_i64 a b = clamp_i64 (a + b)"

text \<open>\<open>i64::checked_add\<close> and \<open>i64::checked_mul\<close> of the standard library.\<close>

definition i64_checked :: "int \<Rightarrow> int option" where
  "i64_checked x = (if i64_range x then Some x else None)"

definition show_int :: "int \<Rightarrow> string" where
  "show_int i = (if i < 0 then CHR ''-'' # show_nat (nat (- i)) else show_nat (nat i))"

text \<open>The two halves of the hint around its amount, in UTF-8.\<close>

definition topup_prefix :: string where
  "topup_prefix = map char_of
     [228 :: nat, 189, 153, 233, 162, 157, 228, 184, 141, 232, 182, 179, 239, 188, 154, 232, 191, 152, 229, 183,
     174, 32]"

definition topup_suffix :: string where
  "topup_suffix = map char_of
     [32 :: nat, 109, 105, 110, 111, 114, 32, 117, 110, 105, 116, 115, 32, 230, 137, 141, 232, 131, 189, 232, 166,
     134, 231, 155, 150, 230, 156, 172, 230, 172, 161, 233, 162, 132, 228, 188, 176, 230, 136, 144, 230,
     156, 172, 239, 188, 140, 232, 175, 183, 229, 133, 133, 229, 128, 188, 230, 136, 150, 230, 143, 144,
     229, 141, 135, 233, 162, 132, 231, 174, 151, 228, 184, 138, 233, 153, 144, 229, 144, 142, 233, 135,
     141, 232, 175, 149]"

definition exceeded :: "string \<Rightarrow> int \<Rightarrow> int \<Rightarrow> int \<Rightarrow> budget_error" where
  "exceeded tenant_id limit_minor spent_minor estimated_cost_minor =
     (let balance_minor = checked_sub_i64 limit_minor spent_minor;
          shortfall = max (checked_sub_i64 estimated_cost_minor balance_minor) 0
      in Exceeded tenant_id balance_minor estimated_cost_minor limit_minor spent_minor
           (topup_prefix @ show_int shortfall @ topup_suffix))"

record budget_402_body =
  b4_tenant_id :: string
  b4_balance_minor :: int
  b4_estimated_cost_minor :: int
  b4_limit_minor :: int
  b4_spent_minor :: int
  b4_topup_hint :: string
  b4_reason_code :: string

fun to_402_body :: "budget_error \<Rightarrow> budget_402_body option" where
  "to_402_body (Exceeded t b c l s h) = Some \<lparr>b4_tenant_id = t, b4_balance_minor = b,
     b4_estimated_cost_minor = c, b4_limit_minor = l, b4_spent_minor = s, b4_topup_hint = h,
     b4_reason_code = ''budget_exceeded''\<rparr>"
| "to_402_body _ = None"

section \<open>Periods\<close>

text \<open>What the ledger uses of \<open>chrono\<close> and \<open>chrono-tz\<close>: whether a name parses, whether an instant is representable, and the local year and month.\<close>

record tz_lib =
  tz_parses :: "string \<Rightarrow> bool"
  instant_ok :: "int \<Rightarrow> bool"
  local_month :: "string \<Rightarrow> int \<Rightarrow> int \<times> nat"

definition pad_zero :: "nat \<Rightarrow> string \<Rightarrow> string" where
  "pad_zero w s = replicate (w - length s) (CHR ''0'') @ s"

definition show_year :: "int \<Rightarrow> string" where
  "show_year y = (if y < 0 then CHR ''-'' # pad_zero 3 (show_nat (nat (- y))) else pad_zero 4 (show_nat (nat y)))"

definition billing_period_key :: "tz_lib \<Rightarrow> int \<Rightarrow> string \<Rightarrow> budget_error + string" where
  "billing_period_key lib now_ms billing_timezone =
     (if \<not> tz_parses lib billing_timezone then Inl (InvalidTimeZone billing_timezone)
      else if \<not> instant_ok lib now_ms then Inl (InvalidTimestamp now_ms)
      else let (y, m) = local_month lib billing_timezone now_ms
           in Inr (show_year y @ ''-'' @ pad_zero 2 (show_nat m)))"

section \<open>Tables\<close>

datatype reservation_status = Active | Settled | Released | Expired

fun status_as_sql :: "reservation_status \<Rightarrow> string" where
  "status_as_sql Active = ''active''"
| "status_as_sql Settled = ''settled''"
| "status_as_sql Released = ''released''"
| "status_as_sql Expired = ''expired''"

definition parse_status :: "string \<Rightarrow> budget_error + reservation_status" where
  "parse_status s =
     (if s = ''active'' then Inr Active else if s = ''settled'' then Inr Settled
      else if s = ''released'' then Inr Released else if s = ''expired'' then Inr Expired
      else Inl (Storage (StorageQuoted ''unknown reservations.status value '' s)))"

datatype price = Known int | UnknownPrice

datatype spend_gate = PaidOnly | GateAll

fun gate_as_sql :: "spend_gate \<Rightarrow> string" where
  "gate_as_sql PaidOnly = ''paid_only''"
| "gate_as_sql GateAll = ''all''"

definition parse_gate :: "string \<Rightarrow> budget_error + spend_gate" where
  "parse_gate s = (if s = ''paid_only'' then Inr PaidOnly else if s = ''all'' then Inr GateAll
     else Inl (Storage (StorageQuoted ''unknown tenant_config.scope value '' s)))"

record scope_config =
  sc_limit :: int
  sc_timezone :: string

record tenant_row =
  tr_limit :: int
  tr_timezone :: string
  tr_gate :: string

record tenant_config =
  tcf_limit :: int
  tcf_timezone :: string
  tcf_gate :: spend_gate

record reservation =
  r_id :: string
  r_scope :: budget_scope
  r_period :: string
  r_reserved :: int
  r_status :: string
  r_created :: int
  r_expires :: int
  r_actual :: "int option"
  r_tenant_period :: string

record overage_event =
  oe_id :: string
  oe_tenant :: string
  oe_reservation :: string
  oe_reserved :: int
  oe_actual :: int
  oe_overage :: int
  oe_created :: int

record amount_overflow =
  ao_reservation :: string
  ao_tenant :: string
  ao_actual :: int
  ao_created :: int

record budget_db =
  t_budget_config :: "(budget_scope \<times> scope_config) list"
  t_budget_periods :: "((budget_scope \<times> string) \<times> int) list"
  t_tenant_config :: "(string \<times> tenant_row) list"
  t_tenant_periods :: "((string \<times> string) \<times> int) list"
  t_reservations :: "reservation list"
  t_overage_events :: "overage_event list"
  t_amount_overflows :: "amount_overflow list"

definition empty_db :: budget_db where
  "empty_db = \<lparr>t_budget_config = [], t_budget_periods = [], t_tenant_config = [], t_tenant_periods = [],
     t_reservations = [], t_overage_events = [], t_amount_overflows = []\<rparr>"

text \<open>\<open>open_with\<close> on a new file: the migrations create the empty tables.\<close>

definition open_ledger :: "int \<Rightarrow> budget_error + budget_db" where
  "open_ledger ttl_ms = (if ttl_ms \<le> 0 then Inl (InvalidTtl ttl_ms) else Inr empty_db)"

section \<open>Queries\<close>

definition validate_scope :: "budget_scope \<Rightarrow> budget_error + unit" where
  "validate_scope scope =
     (if is_blank (s_tenant scope) then Inl (InvalidScope ''tenant_id'')
      else if is_blank (s_key scope) then Inl (InvalidScope ''key_id'')
      else if is_blank (s_provider scope) then Inl (InvalidScope ''provider_id'')
      else if is_blank (s_model scope) then Inl (InvalidScope ''model_id'')
      else Inr ())"

definition load_config :: "budget_db \<Rightarrow> budget_scope \<Rightarrow> scope_config option" where
  "load_config db scope = map_of (t_budget_config db) scope"

definition load_tenant_config :: "budget_db \<Rightarrow> string \<Rightarrow> budget_error + tenant_config option" where
  "load_tenant_config db tenant_id =
     (case map_of (t_tenant_config db) tenant_id of
        None \<Rightarrow> Inr None
      | Some row \<Rightarrow> bind_result (parse_gate (tr_gate row)) (\<lambda>gate.
          Inr (Some \<lparr>tcf_limit = tr_limit row, tcf_timezone = tr_timezone row, tcf_gate = gate\<rparr>)))"

definition sibling_sub_scope_timezone :: "budget_db \<Rightarrow> string \<Rightarrow> budget_scope option \<Rightarrow> string option" where
  "sibling_sub_scope_timezone db tenant_id exclude =
     map_option (\<lambda>(s, c). sc_timezone c)
       (find (\<lambda>(s, c). s_tenant s = tenant_id
           \<and> (case exclude of None \<Rightarrow> True
              | Some ex \<Rightarrow> \<not> (s_key ex = s_key s \<and> s_provider ex = s_provider s \<and> s_model ex = s_model s)))
         (t_budget_config db))"

definition counts_at :: "int \<Rightarrow> reservation \<Rightarrow> bool" where
  "counts_at now_ms r \<longleftrightarrow> r_status r = status_as_sql Active \<and> now_ms < r_expires r"

definition has_active_reservations_for_scope :: "budget_db \<Rightarrow> budget_scope \<Rightarrow> int \<Rightarrow> bool" where
  "has_active_reservations_for_scope db scope now_ms =
     list_ex (\<lambda>r. r_scope r = scope \<and> counts_at now_ms r) (t_reservations db)"

definition has_active_reservations_for_tenant :: "budget_db \<Rightarrow> string \<Rightarrow> int \<Rightarrow> bool" where
  "has_active_reservations_for_tenant db tenant_id now_ms =
     list_ex (\<lambda>r. s_tenant (r_scope r) = tenant_id \<and> counts_at now_ms r) (t_reservations db)"

definition spent_for :: "budget_db \<Rightarrow> budget_scope \<Rightarrow> string \<Rightarrow> int" where
  "spent_for db scope period = case_option 0 id (map_of (t_budget_periods db) (scope, period))"

definition tenant_spent_for :: "budget_db \<Rightarrow> string \<Rightarrow> string \<Rightarrow> int" where
  "tenant_spent_for db tenant_id period = case_option 0 id (map_of (t_tenant_periods db) (tenant_id, period))"

text \<open>\<open>SUM\<close> of an integer column fails when the sum leaves the 64-bit range.\<close>

definition sql_sum :: "int list \<Rightarrow> budget_error + int" where
  "sql_sum xs = (if i64_range (sum_list xs) then Inr (sum_list xs) else Inl (Storage (StorageText ''integer overflow'')))"

definition active_rows :: "budget_db \<Rightarrow> budget_scope \<Rightarrow> string \<Rightarrow> int \<Rightarrow> reservation list" where
  "active_rows db scope period now_ms =
     filter (\<lambda>r. r_scope r = scope \<and> r_period r = period \<and> counts_at now_ms r) (t_reservations db)"

definition tenant_active_rows :: "budget_db \<Rightarrow> string \<Rightarrow> string \<Rightarrow> int \<Rightarrow> reservation list" where
  "tenant_active_rows db tenant_id tenant_period now_ms =
     filter (\<lambda>r. s_tenant (r_scope r) = tenant_id \<and> r_tenant_period r = tenant_period \<and> counts_at now_ms r)
       (t_reservations db)"

definition active_reserved_for :: "budget_db \<Rightarrow> budget_scope \<Rightarrow> string \<Rightarrow> int \<Rightarrow> budget_error + int" where
  "active_reserved_for db scope period now_ms = sql_sum (map r_reserved (active_rows db scope period now_ms))"

definition tenant_active_reserved_for :: "budget_db \<Rightarrow> string \<Rightarrow> string \<Rightarrow> int \<Rightarrow> budget_error + int" where
  "tenant_active_reserved_for db tenant_id tenant_period now_ms =
     sql_sum (map r_reserved (tenant_active_rows db tenant_id tenant_period now_ms))"

definition exceeds_limit :: "int \<Rightarrow> int \<Rightarrow> int \<Rightarrow> spend_gate \<Rightarrow> bool" where
  "exceeds_limit estimated_cost_minor limit_minor committed gate =
     (let balance = checked_sub_i64 limit_minor committed
      in if estimated_cost_minor = 0 \<and> gate = GateAll then balance \<le> 0 else balance < estimated_cost_minor)"

definition reject_amount_overflow :: "budget_db \<Rightarrow> string \<Rightarrow> string option \<Rightarrow> budget_error + unit" where
  "reject_amount_overflow db tenant_id reservation_id =
     (case find (\<lambda>o'. ao_tenant o' = tenant_id \<and> (reservation_id = None \<or> reservation_id = Some (ao_reservation o')))
         (t_amount_overflows db) of
        Some o' \<Rightarrow> Inl (AmountOverflow (ao_reservation o') (ao_actual o'))
      | None \<Rightarrow> Inr ())"

definition find_reservation :: "budget_db \<Rightarrow> string \<Rightarrow> string \<Rightarrow> budget_error + reservation" where
  "find_reservation db tenant_id reservation_id =
     (case find (\<lambda>r. r_id r = reservation_id \<and> s_tenant (r_scope r) = tenant_id) (t_reservations db) of
        Some r \<Rightarrow> Inr r
      | None \<Rightarrow>
          if list_ex (\<lambda>r. r_id r = reservation_id) (t_reservations db) then Inl (TenantMismatch reservation_id)
          else Inl (ReservationNotFound reservation_id))"

text \<open>\<open>UPDATE reservations ... WHERE id = ...\<close>.\<close>

definition update_reservation :: "string \<Rightarrow> (reservation \<Rightarrow> reservation) \<Rightarrow> budget_db \<Rightarrow> budget_db" where
  "update_reservation reservation_id f db =
     db\<lparr>t_reservations := map (\<lambda>r. if r_id r = reservation_id then f r else r) (t_reservations db)\<rparr>"

section \<open>Configuration\<close>

text \<open>\<open>configure\<close>: every zone conflict is found before the upsert, and rolls the transaction back.\<close>

definition configure ::
    "budget_scope \<Rightarrow> int \<Rightarrow> string \<Rightarrow> int \<Rightarrow> budget_db \<Rightarrow> (budget_error + unit) \<times> budget_db" where
  "configure scope limit_minor billing_timezone now_ms db =
    (case validate_scope scope of Inl e \<Rightarrow> (Inl e, db) | Inr _ \<Rightarrow>
     if limit_minor < 0 then (Inl (InvalidLimit limit_minor), db)
     else if \<not> is_iana_time_zone billing_timezone then (Inl (InvalidTimeZone billing_timezone), db)
     else case load_tenant_config db (s_tenant scope) of Inl e \<Rightarrow> (Inl e, db) | Inr tenant_cfg \<Rightarrow>
     (case (case tenant_cfg of None \<Rightarrow> None
            | Some cfg \<Rightarrow> if tcf_timezone cfg \<noteq> billing_timezone then Some (tcf_timezone cfg) else None) of
        Some tz \<Rightarrow> (Inl (InvalidConfig (s_tenant scope) tz billing_timezone), db)
      | None \<Rightarrow>
     (case (case sibling_sub_scope_timezone db (s_tenant scope) (Some scope) of None \<Rightarrow> None
            | Some tz \<Rightarrow> if tz \<noteq> billing_timezone then Some tz else None) of
        Some tz \<Rightarrow> (Inl (InvalidConfig (s_tenant scope) tz billing_timezone), db)
      | None \<Rightarrow>
     if (case load_config db scope of None \<Rightarrow> False
         | Some existing \<Rightarrow> sc_timezone existing \<noteq> billing_timezone
             \<and> has_active_reservations_for_scope db scope now_ms)
     then (Inl TimeZoneChangeWithActiveReservations, db)
     else (Inr (), db\<lparr>t_budget_config :=
            AList.update scope \<lparr>sc_limit = limit_minor, sc_timezone = billing_timezone\<rparr> (t_budget_config db)\<rparr>))))"

definition configure_tenant ::
    "string \<Rightarrow> int \<Rightarrow> string \<Rightarrow> spend_gate \<Rightarrow> int \<Rightarrow> budget_db \<Rightarrow> (budget_error + unit) \<times> budget_db" where
  "configure_tenant tenant_id limit_minor billing_timezone gate now_ms db =
    (if is_blank tenant_id then (Inl (InvalidScope ''tenant_id''), db)
     else if limit_minor < 0 then (Inl (InvalidLimit limit_minor), db)
     else if \<not> is_iana_time_zone billing_timezone then (Inl (InvalidTimeZone billing_timezone), db)
     else
     (case (case sibling_sub_scope_timezone db tenant_id None of None \<Rightarrow> None
            | Some tz \<Rightarrow> if tz \<noteq> billing_timezone then Some tz else None) of
        Some tz \<Rightarrow> (Inl (InvalidConfig tenant_id tz billing_timezone), db)
      | None \<Rightarrow>
     case load_tenant_config db tenant_id of Inl e \<Rightarrow> (Inl e, db) | Inr existing \<Rightarrow>
     if (case existing of None \<Rightarrow> False
         | Some cfg \<Rightarrow> tcf_timezone cfg \<noteq> billing_timezone
             \<and> has_active_reservations_for_tenant db tenant_id now_ms)
     then (Inl TimeZoneChangeWithActiveReservations, db)
     else (Inr (), db\<lparr>t_tenant_config :=
            AList.update tenant_id \<lparr>tr_limit = limit_minor, tr_timezone = billing_timezone, tr_gate = gate_as_sql gate\<rparr>
              (t_tenant_config db)\<rparr>)))"

definition retain_tenants :: "string list \<Rightarrow> budget_db \<Rightarrow> (budget_error + nat) \<times> budget_db" where
  "retain_tenants keep db =
    (let stale = filter (\<lambda>t. t \<notin> set keep)
           (remdups (map fst (t_tenant_config db) @ map (s_tenant \<circ> fst) (t_budget_config db)))
     in (Inr (length stale),
         db\<lparr>t_budget_config := filter (\<lambda>(s, _). s_tenant s \<notin> set stale) (t_budget_config db),
            t_tenant_config := filter (\<lambda>(t, _). t \<notin> set stale) (t_tenant_config db)\<rparr>))"

section \<open>Read views\<close>

definition balance :: "tz_lib \<Rightarrow> budget_scope \<Rightarrow> int \<Rightarrow> budget_db \<Rightarrow> budget_error + int" where
  "balance lib scope now_ms db =
     bind_result (ok_or (NotConfigured scope) (load_config db scope)) (\<lambda>config.
     bind_result (billing_period_key lib now_ms (sc_timezone config)) (\<lambda>period.
     bind_result (active_reserved_for db scope period now_ms) (\<lambda>reserved.
     Inr (checked_sub_i64 (sc_limit config) (checked_add_i64 (spent_for db scope period) reserved)))))"

definition tenant_balance :: "tz_lib \<Rightarrow> string \<Rightarrow> int \<Rightarrow> budget_db \<Rightarrow> budget_error + int" where
  "tenant_balance lib tenant_id now_ms db =
     bind_result (load_tenant_config db tenant_id) (\<lambda>cfg.
     bind_result (ok_or (TenantNotConfigured tenant_id) cfg) (\<lambda>config.
     bind_result (billing_period_key lib now_ms (tcf_timezone config)) (\<lambda>period.
     bind_result (tenant_active_reserved_for db tenant_id period now_ms) (\<lambda>reserved.
     Inr (checked_sub_i64 (tcf_limit config) (checked_add_i64 (tenant_spent_for db tenant_id period) reserved))))))"

record tenant_budget_read_view =
  rv_tenant_id :: string
  rv_period :: string
  rv_limit_minor :: int
  rv_spent_minor :: int
  rv_reserved_minor :: int
  rv_remaining_minor :: int
  rv_available_minor :: int
  rv_billing_timezone :: string
  rv_scope :: spend_gate

definition tenant_readview :: "tz_lib \<Rightarrow> string \<Rightarrow> int \<Rightarrow> budget_db \<Rightarrow> budget_error + tenant_budget_read_view" where
  "tenant_readview lib tenant_id now_ms db =
     (if is_blank tenant_id then Inl (InvalidScope ''tenant_id'')
      else bind_result (load_tenant_config db tenant_id) (\<lambda>cfg.
      bind_result (ok_or (TenantNotConfigured tenant_id) cfg) (\<lambda>config.
      bind_result (billing_period_key lib now_ms (tcf_timezone config)) (\<lambda>period.
      let spent = tenant_spent_for db tenant_id period in
      bind_result (tenant_active_reserved_for db tenant_id period now_ms) (\<lambda>reserved.
      let remaining = checked_sub_i64 (tcf_limit config) spent in
      Inr \<lparr>rv_tenant_id = tenant_id, rv_period = period, rv_limit_minor = tcf_limit config,
           rv_spent_minor = spent, rv_reserved_minor = reserved, rv_remaining_minor = remaining,
           rv_available_minor = checked_sub_i64 remaining reserved,
           rv_billing_timezone = tcf_timezone config, rv_scope = tcf_gate config\<rparr>)))))"

section \<open>Admission\<close>

definition sweep_expired_scope :: "budget_scope \<Rightarrow> string \<Rightarrow> int \<Rightarrow> budget_db \<Rightarrow> budget_db" where
  "sweep_expired_scope scope period now_ms db =
     db\<lparr>t_reservations := map (\<lambda>r.
        if r_scope r = scope \<and> r_period r = period \<and> r_status r = status_as_sql Active \<and> r_expires r \<le> now_ms
        then r\<lparr>r_status := status_as_sql Expired\<rparr> else r) (t_reservations db)\<rparr>"

definition sweep_expired :: "int \<Rightarrow> budget_db \<Rightarrow> (budget_error + nat) \<times> budget_db" where
  "sweep_expired now_ms db =
     (let lapsed = (\<lambda>r. r_status r = status_as_sql Active \<and> r_expires r \<le> now_ms)
      in (Inr (length (filter lapsed (t_reservations db))),
          db\<lparr>t_reservations := map (\<lambda>r. if lapsed r then r\<lparr>r_status := status_as_sql Expired\<rparr> else r)
               (t_reservations db)\<rparr>))"

text \<open>The instants an operation reads: inside the transaction, before the commit, after it.\<close>

record clock_readings =
  c_now :: int
  c_before_commit :: int
  c_after_commit :: int

definition estimate :: "price \<Rightarrow> budget_error + int" where
  "estimate cost = (case cost of UnknownPrice \<Rightarrow> Inl PriceUnknown
     | Known v \<Rightarrow> if v < 0 then Inl (InvalidEstimate v) else Inr v)"

text \<open>The configuration a request is judged by, with its two period buckets.\<close>

definition admission_context ::
    "tz_lib \<Rightarrow> budget_scope \<Rightarrow> int \<Rightarrow> budget_db
     \<Rightarrow> budget_error + scope_config option \<times> tenant_config option \<times> string \<times> string" where
  "admission_context lib scope now_ms db =
     bind_result (reject_amount_overflow db (s_tenant scope) None) (\<lambda>_.
     bind_result (load_tenant_config db (s_tenant scope)) (\<lambda>tenant_cfg.
     let sub_config = load_config db scope in
     bind_result (case (sub_config, tenant_cfg) of
         (Some cfg, _) \<Rightarrow> billing_period_key lib now_ms (sc_timezone cfg)
       | (None, Some tenant) \<Rightarrow> billing_period_key lib now_ms (tcf_timezone tenant)
       | (None, None) \<Rightarrow> Inl (NotConfigured scope)) (\<lambda>period.
     bind_result (case tenant_cfg of
         Some tenant \<Rightarrow> billing_period_key lib now_ms (tcf_timezone tenant)
       | None \<Rightarrow> Inr period) (\<lambda>tenant_period.
     Inr (sub_config, tenant_cfg, period, tenant_period)))))"

definition gate_of :: "tenant_config option \<Rightarrow> spend_gate" where
  "gate_of tenant_cfg = (case tenant_cfg of None \<Rightarrow> PaidOnly | Some t \<Rightarrow> tcf_gate t)"

text \<open>
  One dimension's check: \<open>Inl\<close> is a failed query, which drops the transaction;
  \<open>Inr (Some e)\<close> is the refusal, which commits the sweep; \<open>Inr None\<close> passes.
\<close>

definition check_dimension ::
    "string \<Rightarrow> int \<Rightarrow> int \<Rightarrow> int \<Rightarrow> budget_error + int \<Rightarrow> spend_gate \<Rightarrow> budget_error + budget_error option" where
  "check_dimension tenant_id cost limit_minor spent reserved gate =
     bind_result reserved (\<lambda>reserved.
       let committed = checked_add_i64 spent reserved in
       Inr (if exceeds_limit cost limit_minor committed gate
            then Some (exceeded tenant_id limit_minor committed cost) else None))"

definition check_limits ::
    "budget_scope \<Rightarrow> int \<Rightarrow> scope_config option \<times> tenant_config option \<times> string \<times> string \<Rightarrow> int \<Rightarrow> budget_db
     \<Rightarrow> budget_error + budget_error option" where
  "check_limits scope cost ctx now_ms db =
    (let (sub_config, tenant_cfg, period, tenant_period) = ctx;
         gate = gate_of tenant_cfg;
         skip_zero_cost = (gate = PaidOnly \<and> cost = 0)
     in bind_result
       (case sub_config of
          Some sub \<Rightarrow> if skip_zero_cost then Inr None
            else check_dimension (s_tenant scope) cost (sc_limit sub) (spent_for db scope period)
                   (active_reserved_for db scope period now_ms) gate
        | None \<Rightarrow> Inr None) (\<lambda>sub_refusal.
        case sub_refusal of Some e \<Rightarrow> Inr (Some e) | None \<Rightarrow>
       (case tenant_cfg of
          Some tenant \<Rightarrow> if skip_zero_cost then Inr None
            else check_dimension (s_tenant scope) cost (tcf_limit tenant)
                   (tenant_spent_for db (s_tenant scope) tenant_period)
                   (tenant_active_reserved_for db (s_tenant scope) tenant_period now_ms) gate
        | None \<Rightarrow> Inr None)))"

text \<open>\<open>INSERT INTO reservations\<close>: the primary key refuses an id that exists.\<close>

definition insert_reservation :: "reservation \<Rightarrow> budget_db \<Rightarrow> budget_error + budget_db" where
  "insert_reservation row db =
     (if list_ex (\<lambda>r. r_id r = r_id row) (t_reservations db)
      then Inl (Storage (StorageText ''UNIQUE constraint failed: reservations.id''))
      else Inr (db\<lparr>t_reservations := t_reservations db @ [row]\<rparr>))"

definition check_reservation_deadline :: "string \<Rightarrow> int \<Rightarrow> int \<Rightarrow> budget_error + unit" where
  "check_reservation_deadline reservation_id expires_at_ms now_ms =
     (if expires_at_ms \<le> now_ms then Inl (ReservationNotActive reservation_id (status_as_sql Expired)) else Inr ())"

definition admit ::
    "tz_lib \<Rightarrow> int \<Rightarrow> clock_readings \<Rightarrow> string \<Rightarrow> budget_scope \<Rightarrow> price \<Rightarrow> bool \<Rightarrow> budget_db
     \<Rightarrow> (budget_error + string option) \<times> budget_db" where
  "admit lib ttl_ms clock uuid scope cost persist db =
    (case bind_result (validate_scope scope) (\<lambda>_. estimate cost) of Inl e \<Rightarrow> (Inl e, db) | Inr cost_minor \<Rightarrow>
     case admission_context lib scope (c_now clock) db of Inl e \<Rightarrow> (Inl e, db) | Inr ctx \<Rightarrow>
     let (sub_config, tenant_cfg, period, tenant_period) = ctx;
         swept = sweep_expired_scope scope period (c_now clock) db
     in case check_limits scope cost_minor ctx (c_now clock) swept of
       Inl e \<Rightarrow> (Inl e, db)
     | Inr (Some e) \<Rightarrow> (Inl e, swept)
     | Inr None \<Rightarrow>
         if \<not> persist then (Inr None, swept)
         else case i64_checked (c_now clock + ttl_ms) of
           None \<Rightarrow> (Inl (InvalidTimestamp (c_now clock)), db)
         | Some expires_at_ms \<Rightarrow>
            (case bind_result (insert_reservation
                \<lparr>r_id = uuid, r_scope = scope, r_period = period, r_reserved = cost_minor,
                 r_status = status_as_sql Active, r_created = c_now clock, r_expires = expires_at_ms,
                 r_actual = None, r_tenant_period = tenant_period\<rparr> swept) (\<lambda>db'.
              bind_result (check_reservation_deadline uuid expires_at_ms (c_before_commit clock)) (\<lambda>_. Inr db')) of
               Inl e \<Rightarrow> (Inl e, db)
             | Inr committed \<Rightarrow>
                (bind_result (check_reservation_deadline uuid expires_at_ms (c_after_commit clock))
                   (\<lambda>_. Inr (Some uuid)), committed)))"

definition reserve_budget ::
    "tz_lib \<Rightarrow> int \<Rightarrow> clock_readings \<Rightarrow> string \<Rightarrow> budget_scope \<Rightarrow> price \<Rightarrow> budget_db
     \<Rightarrow> (budget_error + string) \<times> budget_db" where
  "reserve_budget lib ttl_ms clock uuid scope cost db =
     (let (r, db') = admit lib ttl_ms clock uuid scope cost True db
      in (bind_result r (\<lambda>id. ok_or (Storage (StorageText ''persisted reservation missing'')) id), db'))"

text \<open>Nothing is inserted, so no row id is used.\<close>

definition check_budget_admission ::
    "tz_lib \<Rightarrow> int \<Rightarrow> clock_readings \<Rightarrow> budget_scope \<Rightarrow> price \<Rightarrow> budget_db \<Rightarrow> (budget_error + unit) \<times> budget_db" where
  "check_budget_admission lib ttl_ms clock scope cost db =
     (let (r, db') = admit lib ttl_ms clock [] scope cost False db in (bind_result r (\<lambda>_. Inr ()), db'))"

section \<open>Settlement\<close>

record settle_receipt =
  sr_reserved_minor :: int
  sr_actual_cost_minor :: int
  sr_refunded_minor :: int
  sr_late :: bool
  sr_overage_minor :: int

text \<open>The writes of a settlement within the amount range: both totals, the row, the overage event.\<close>

definition record_settlement ::
    "string \<Rightarrow> reservation \<Rightarrow> int \<Rightarrow> int \<Rightarrow> int \<Rightarrow> string \<Rightarrow> int \<Rightarrow> budget_db \<Rightarrow> budget_error + budget_db" where
  "record_settlement tenant_id row actual_cost_minor scope_total tenant_total event_id now_ms db =
    (let overage_minor = max (checked_sub_i64 actual_cost_minor (r_reserved row)) 0;
         db1 = db\<lparr>t_budget_periods := AList.update (r_scope row, r_period row) scope_total (t_budget_periods db)\<rparr>;
         db2 = update_reservation (r_id row)
                 (\<lambda>r. r\<lparr>r_status := status_as_sql Settled, r_actual := Some actual_cost_minor\<rparr>) db1;
         db3 = db2\<lparr>t_tenant_periods := AList.update (tenant_id, r_tenant_period row) tenant_total (t_tenant_periods db2)\<rparr>
     in if 0 < overage_minor then
          if list_ex (\<lambda>e. oe_id e = event_id) (t_overage_events db3)
          then Inl (Storage (StorageText ''UNIQUE constraint failed: budget_overage_events.id''))
          else Inr (db3\<lparr>t_overage_events := t_overage_events db3 @
            [\<lparr>oe_id = event_id, oe_tenant = tenant_id, oe_reservation = r_id row, oe_reserved = r_reserved row,
              oe_actual = actual_cost_minor, oe_overage = overage_minor, oe_created = now_ms\<rparr>]\<rparr>)
        else Inr db3)"

definition settle ::
    "string \<Rightarrow> string \<Rightarrow> int \<Rightarrow> int \<Rightarrow> string \<Rightarrow> budget_db \<Rightarrow> (budget_error + settle_receipt) \<times> budget_db" where
  "settle tenant_id reservation_id actual_cost_minor now_ms event_id db =
    (if actual_cost_minor < 0 then (Inl (InvalidActualCost actual_cost_minor), db)
     else case find_reservation db tenant_id reservation_id of Inl e \<Rightarrow> (Inl e, db) | Inr row \<Rightarrow>
     case parse_status (r_status row) of Inl e \<Rightarrow> (Inl e, db) | Inr status \<Rightarrow>
     if status = Settled \<or> status = Released then (Inl (ReservationNotActive reservation_id (r_status row)), db)
     else
     let late = (status = Expired \<or> r_expires row \<le> now_ms) in
     case reject_amount_overflow db tenant_id (Some reservation_id) of Inl e \<Rightarrow> (Inl e, db) | Inr _ \<Rightarrow>
     (case (i64_checked (spent_for db (r_scope row) (r_period row) + actual_cost_minor),
            i64_checked (tenant_spent_for db tenant_id (r_tenant_period row) + actual_cost_minor)) of
        (Some scope_total, Some tenant_total) \<Rightarrow>
          (case record_settlement tenant_id row actual_cost_minor scope_total tenant_total event_id now_ms db of
             Inl e \<Rightarrow> (Inl e, db)
           | Inr committed \<Rightarrow>
              (if r_reserved row * 4 < actual_cost_minor
               then Inl (OverageTooLarge reservation_id (r_reserved row) actual_cost_minor)
               else Inr \<lparr>sr_reserved_minor = r_reserved row, sr_actual_cost_minor = actual_cost_minor,
                      sr_refunded_minor = max (checked_sub_i64 (r_reserved row) actual_cost_minor) 0,
                      sr_late = late,
                      sr_overage_minor = max (checked_sub_i64 actual_cost_minor (r_reserved row)) 0\<rparr>,
               committed))
      | _ \<Rightarrow>
          if list_ex (\<lambda>o'. ao_reservation o' = reservation_id) (t_amount_overflows db)
          then (Inl (Storage (StorageText ''UNIQUE constraint failed: budget_amount_overflows.reservation_id'')), db)
          else (Inl (AmountOverflow reservation_id actual_cost_minor),
                db\<lparr>t_amount_overflows := t_amount_overflows db @
                  [\<lparr>ao_reservation = reservation_id, ao_tenant = tenant_id, ao_actual = actual_cost_minor,
                    ao_created = now_ms\<rparr>]\<rparr>)))"

text \<open>The second query of the replay runs after \<open>settle\<close> released the lock: it reads the database \<open>later\<close>.\<close>

definition replay_settlement ::
    "string \<Rightarrow> string \<Rightarrow> int \<Rightarrow> int \<Rightarrow> string \<Rightarrow> (budget_db \<Rightarrow> budget_db) \<Rightarrow> budget_db
     \<Rightarrow> (budget_error + unit) \<times> budget_db" where
  "replay_settlement tenant_id reservation_id actual_cost_minor now_ms event_id later db =
    (let (r, db') = settle tenant_id reservation_id actual_cost_minor now_ms event_id db
     in case r of
          Inr _ \<Rightarrow> (Inr (), db')
        | Inl (OverageTooLarge _ _ _) \<Rightarrow> (Inr (), db')
        | Inl (ReservationNotActive i st) \<Rightarrow>
            (if map_option r_actual (find (\<lambda>r. r_id r = reservation_id \<and> s_tenant (r_scope r) = tenant_id
                  \<and> r_status r = ''settled'') (t_reservations (later db'))) = Some (Some actual_cost_minor)
             then Inr () else Inl (ReservationNotActive i st), later db')
        | Inl e \<Rightarrow> (Inl e, db'))"

definition extend_reservation ::
    "int \<Rightarrow> clock_readings \<Rightarrow> string \<Rightarrow> string \<Rightarrow> int \<Rightarrow> budget_db \<Rightarrow> (budget_error + unit) \<times> budget_db" where
  "extend_reservation ttl_ms clock tenant_id reservation_id additional_ttl_ms db =
    (if additional_ttl_ms \<le> 0 \<or> ttl_ms < additional_ttl_ms then (Inl (InvalidTtl additional_ttl_ms), db)
     else case find_reservation db tenant_id reservation_id of Inl e \<Rightarrow> (Inl e, db) | Inr row \<Rightarrow>
     case parse_status (r_status row) of Inl e \<Rightarrow> (Inl e, db) | Inr status \<Rightarrow>
     if status \<noteq> Active \<or> r_expires row \<le> c_now clock
     then (Inl (ReservationNotActive reservation_id (r_status row)), db)
     else case i64_checked (c_now clock + additional_ttl_ms) of
       None \<Rightarrow> (Inl (InvalidTimestamp (c_now clock)), db)
     | Some new_expires_at_ms \<Rightarrow>
     case i64_checked (ttl_ms * 4) of None \<Rightarrow> (Inl (InvalidTtl additional_ttl_ms), db) | Some max_lifetime_ms \<Rightarrow>
     case i64_checked (r_created row + max_lifetime_ms) of
       None \<Rightarrow> (Inl (InvalidTimestamp (c_now clock)), db)
     | Some max_expires_at_ms \<Rightarrow>
     if max_expires_at_ms < new_expires_at_ms then (Inl (InvalidTtl additional_ttl_ms), db)
     else case check_reservation_deadline reservation_id new_expires_at_ms (c_before_commit clock) of
       Inl e \<Rightarrow> (Inl e, db)
     | Inr _ \<Rightarrow> (check_reservation_deadline reservation_id new_expires_at_ms (c_after_commit clock),
         update_reservation reservation_id (\<lambda>r. r\<lparr>r_expires := new_expires_at_ms\<rparr>) db))"

definition release_reservation :: "string \<Rightarrow> string \<Rightarrow> budget_db \<Rightarrow> (budget_error + unit) \<times> budget_db" where
  "release_reservation tenant_id reservation_id db =
    (case find_reservation db tenant_id reservation_id of Inl e \<Rightarrow> (Inl e, db) | Inr row \<Rightarrow>
     case parse_status (r_status row) of Inl e \<Rightarrow> (Inl e, db) | Inr status \<Rightarrow>
     (case status of
        Released \<Rightarrow> (Inr (), db)
      | Settled \<Rightarrow> (Inl (ReservationNotActive reservation_id (r_status row)), db)
      | _ \<Rightarrow>
         (case reject_amount_overflow db tenant_id (Some reservation_id) of Inl e \<Rightarrow> (Inl e, db) | Inr _ \<Rightarrow>
          (Inr (), update_reservation reservation_id (\<lambda>r. r\<lparr>r_status := status_as_sql Released\<rparr>) db))))"

end
