(* ===== verification/Ledger_Account.thy ===== *)
theory Ledger_Account
  imports Ledger
begin

text \<open>
  The budget ledger as an account with a limit: the invariant of the tables, what an admission, a
  settlement, an extension, a release and a sweep do to a tenant's spent and held amounts, and the
  properties that follow (no overspending, settlement once, replay, tenant isolation, refusals that
  hold nothing, one zone per tenant, and the read view as the specification of admission).
\<close>

section \<open>Lemmas: rows and sums\<close>

lemma parse_status_sql [simp]: "parse_status (status_as_sql s) = Inr s"
  by (cases s) (simp_all add: parse_status_def)

lemma parse_status_Inr [simp]: "parse_status t = Inr s \<longleftrightarrow> t = status_as_sql s"
  by (cases s) (auto simp: parse_status_def split: if_splits)

lemma status_as_sql_inject [simp]: "status_as_sql a = status_as_sql b \<longleftrightarrow> a = b"
  by (cases a; cases b) simp_all

lemma status_literals [simp]:
  "parse_status ''active'' = Inr Active" "parse_status ''settled'' = Inr Settled"
  "parse_status ''released'' = Inr Released" "parse_status ''expired'' = Inr Expired"
  "status_as_sql s = ''active'' \<longleftrightarrow> s = Active" "status_as_sql s = ''settled'' \<longleftrightarrow> s = Settled"
  "status_as_sql s = ''released'' \<longleftrightarrow> s = Released" "status_as_sql s = ''expired'' \<longleftrightarrow> s = Expired"
  by (simp_all add: parse_status_def) (cases s; simp)+

lemma parse_gate_sql [simp]: "parse_gate (gate_as_sql g) = Inr g"
  by (cases g) (simp_all add: parse_gate_def)

lemma i64_checked_Some [simp]: "i64_checked x = Some y \<longleftrightarrow> i64_range x \<and> y = x"
  by (auto simp: i64_checked_def)

lemma i64_checked_None [simp]: "i64_checked x = None \<longleftrightarrow> \<not> i64_range x"
  by (auto simp: i64_checked_def)

lemma clamp_i64_id: "i64_range x \<Longrightarrow> clamp_i64 x = x"
  by (simp add: clamp_i64_def i64_range_def i64_max_def i64_min_def)

lemma clamp_le_nonneg: "0 \<le> x \<Longrightarrow> clamp_i64 x \<le> x"
  by (simp add: clamp_i64_def i64_min_def)

text \<open>What one row adds to a tenant's bucket at an instant.\<close>

definition row_hold :: "string \<Rightarrow> string \<Rightarrow> int \<Rightarrow> reservation \<Rightarrow> int" where
  "row_hold tenant_id tenant_period now_ms r =
     (if s_tenant (r_scope r) = tenant_id \<and> r_tenant_period r = tenant_period \<and> counts_at now_ms r
      then r_reserved r else 0)"

definition tenant_held :: "budget_db \<Rightarrow> string \<Rightarrow> string \<Rightarrow> int \<Rightarrow> int" where
  "tenant_held db tenant_id tenant_period now_ms =
     sum_list (map (row_hold tenant_id tenant_period now_ms) (t_reservations db))"

definition scope_hold :: "budget_scope \<Rightarrow> string \<Rightarrow> int \<Rightarrow> reservation \<Rightarrow> int" where
  "scope_hold scope period now_ms r =
     (if r_scope r = scope \<and> r_period r = period \<and> counts_at now_ms r then r_reserved r else 0)"

definition scope_held :: "budget_db \<Rightarrow> budget_scope \<Rightarrow> string \<Rightarrow> int \<Rightarrow> int" where
  "scope_held db scope period now_ms = sum_list (map (scope_hold scope period now_ms) (t_reservations db))"

lemma tenant_active_reserved_eq:
  "tenant_active_reserved_for db t p now =
    (if i64_range (tenant_held db t p now) then Inr (tenant_held db t p now)
     else Inl (Storage (StorageText ''integer overflow'')))"
  by (simp add: tenant_active_reserved_for_def sql_sum_def tenant_held_def tenant_active_rows_def
      sum_list_map_filter' row_hold_def [abs_def])

lemma active_reserved_eq:
  "active_reserved_for db scope p now =
    (if i64_range (scope_held db scope p now) then Inr (scope_held db scope p now)
     else Inl (Storage (StorageText ''integer overflow'')))"
  by (simp add: active_reserved_for_def sql_sum_def scope_held_def active_rows_def
      sum_list_map_filter' scope_hold_def [abs_def])

lemma sum_update_row:
  fixes g :: "reservation \<Rightarrow> int"
  assumes "distinct (map r_id rs)" "row \<in> set rs" "r_id row = i"
  shows "sum_list (map g (map (\<lambda>r. if r_id r = i then f r else r) rs)) = sum_list (map g rs) - g row + g (f row)"
  using assms
proof (induction rs)
  case (Cons r rs)
  show ?case
  proof (cases "r_id r = i")
    case True
    with Cons.prems have "r = row" by (metis distinct.simps(2) image_eqI list.set_map list.simps(9) set_ConsD)
    moreover have "map (\<lambda>r. if r_id r = i then f r else r) rs = rs"
      using Cons.prems True by (intro map_idI) (auto simp: image_iff)
    ultimately show ?thesis using True by simp
  next
    case False
    with Cons show ?thesis by auto
  qed
qed simp

text \<open>The invariant of the tables: ids are unique, amounts lie in range, statuses are known.\<close>

definition row_ok :: "reservation \<Rightarrow> bool" where
  "row_ok r \<longleftrightarrow> 0 \<le> r_reserved r \<and> r_status r \<in> {''active'', ''settled'', ''released'', ''expired''}"

definition db_ok :: "budget_db \<Rightarrow> bool" where
  "db_ok db \<longleftrightarrow> distinct (map r_id (t_reservations db)) \<and> (\<forall>r \<in> set (t_reservations db). row_ok r)
     \<and> (\<forall>k. 0 \<le> case_option 0 id (map_of (t_budget_periods db) k))
     \<and> (\<forall>k. 0 \<le> case_option 0 id (map_of (t_tenant_periods db) k))"

lemma row_hold_nonneg: "row_ok r \<Longrightarrow> 0 \<le> row_hold t p now r"
  by (simp add: row_hold_def row_ok_def)

lemma tenant_held_nonneg: "db_ok db \<Longrightarrow> 0 \<le> tenant_held db t p now"
  by (auto simp: tenant_held_def db_ok_def intro!: sum_list_nonneg row_hold_nonneg)

lemma scope_held_nonneg: "db_ok db \<Longrightarrow> 0 \<le> scope_held db s p now"
  by (auto simp: scope_held_def db_ok_def scope_hold_def row_ok_def intro!: sum_list_nonneg)

lemma tenant_spent_nonneg: "db_ok db \<Longrightarrow> 0 \<le> tenant_spent_for db t p"
  by (simp add: tenant_spent_for_def db_ok_def)

lemma spent_nonneg: "db_ok db \<Longrightarrow> 0 \<le> spent_for db s p"
  by (simp add: spent_for_def db_ok_def)

lemma row_hold_later: "row_ok r \<Longrightarrow> now \<le> now' \<Longrightarrow> row_hold t p now' r \<le> row_hold t p now r"
  by (auto simp: row_hold_def counts_at_def row_ok_def)

lemma tenant_held_later: "db_ok db \<Longrightarrow> now \<le> now' \<Longrightarrow> tenant_held db t p now' \<le> tenant_held db t p now"
  unfolding tenant_held_def db_ok_def by (intro sum_list_mono row_hold_later) auto

lemma find_reservationE:
  assumes "find_reservation db t i = Inr row"
  obtains "row \<in> set (t_reservations db)" "r_id row = i" "s_tenant (r_scope row) = t"
  using assms
  by (auto simp: find_reservation_def find_Some_iff split: option.splits if_splits)

lemma held_update:
  assumes "db_ok db" "find_reservation db t i = Inr row"
  shows "tenant_held (update_reservation i f db) t' p now
     = tenant_held db t' p now - row_hold t' p now row + row_hold t' p now (f row)"
  using assms sum_update_row [of "t_reservations db" row i "row_hold t' p now" f]
  by (auto simp: tenant_held_def update_reservation_def db_ok_def elim!: find_reservationE)

lemma held_sweep:
  "tenant_held (sweep_expired_scope scope period now db) t p now = tenant_held db t p now"
  by (simp add: tenant_held_def sweep_expired_scope_def comp_def)
    (intro arg_cong [where f = sum_list] map_cong refl, auto simp: row_hold_def counts_at_def)

lemma scope_held_sweep:
  "scope_held (sweep_expired_scope scope period now db) s p now = scope_held db s p now"
  by (simp add: scope_held_def sweep_expired_scope_def comp_def)
    (intro arg_cong [where f = sum_list] map_cong refl, auto simp: scope_hold_def counts_at_def)

lemma sweep_ids: "map r_id (t_reservations (sweep_expired_scope scope period now db)) = map r_id (t_reservations db)"
  by (simp add: sweep_expired_scope_def)

lemma row_id_exists: "list_ex (\<lambda>r. r_id r = i) rs \<longleftrightarrow> i \<in> set (map r_id rs)"
  by (auto simp: list_ex_iff)

lemma sweep_ok: "db_ok db \<Longrightarrow> db_ok (sweep_expired_scope scope period now db)"
  by (auto simp: db_ok_def sweep_expired_scope_def row_ok_def comp_def if_distrib [of r_id] cong: if_cong)

lemma sweep_all_ok: "db_ok db \<Longrightarrow> db_ok (snd (sweep_expired now db))"
  by (auto simp: db_ok_def sweep_expired_def row_ok_def comp_def if_distrib [of r_id] Let_def cong: if_cong)

lemma held_sweep_all: "at_ms \<le> now \<Longrightarrow> tenant_held (snd (sweep_expired at_ms db)) t p now = tenant_held db t p now"
  by (simp add: tenant_held_def sweep_expired_def comp_def Let_def)
    (intro arg_cong [where f = sum_list] map_cong refl, auto simp: row_hold_def counts_at_def)

lemma update_ok:
  assumes "db_ok db" "\<And>r. row_ok r \<Longrightarrow> row_ok (f r)" "\<And>r. r_id (f r) = r_id r"
  shows "db_ok (update_reservation i f db)"
  using assms by (auto simp: db_ok_def update_reservation_def comp_def if_distrib [of r_id] cong: if_cong)

section \<open>Lemmas: what admission lets through\<close>

lemma pass_dimension:
  assumes "check_dimension t cost lim spent (Inr h) gate = Inr None"
    and "0 \<le> cost" "0 \<le> spent" "0 \<le> h" "lim \<le> i64_max"
  shows "cost = 0 \<or> spent + h + cost \<le> lim"
proof (cases "cost = 0")
  case False
  with assms(1) have "cost \<le> checked_sub_i64 lim (checked_add_i64 spent h)"
    by (auto simp: check_dimension_def exceeds_limit_def Let_def split: if_splits)
  with False assms(2-5) show ?thesis
    by (auto simp: checked_sub_i64_def checked_add_i64_def clamp_i64_def i64_max_def i64_min_def min_def max_def
        split: if_splits)
qed simp

lemma load_tenant_configE:
  assumes "load_tenant_config db t = Inr (Some cfg)"
  obtains row where "map_of (t_tenant_config db) t = Some row" "tcf_limit cfg = tr_limit row"
    "tcf_timezone cfg = tr_timezone row" "parse_gate (tr_gate row) = Inr (tcf_gate cfg)"
  using assms by (auto simp: load_tenant_config_def result_simps split: option.splits)

lemma estimate_Inr: "estimate cost = Inr v \<longleftrightarrow> cost = Known v \<and> 0 \<le> v"
  by (auto simp: estimate_def split: price.splits if_splits)

text \<open>The three databases an admission can leave.\<close>

lemma admitE:
  assumes "admit lib ttl clock uuid scope cost persist db = (r, db')"
  obtains (rolled_back) e where "r = Inl e" "db' = db"
  | (swept) period where "db' = sweep_expired_scope scope period (c_now clock) db" "r = Inr None \<or> (\<exists>e. r = Inl e)"
  | (inserted) v sub tenant period tenant_period where
      "cost = Known v" "0 \<le> v" "persist" "validate_scope scope = Inr ()"
      "admission_context lib scope (c_now clock) db = Inr (sub, tenant, period, tenant_period)"
      "check_limits scope v (sub, tenant, period, tenant_period) (c_now clock)
         (sweep_expired_scope scope period (c_now clock) db) = Inr None"
      "i64_range (c_now clock + ttl)"
      "\<not> list_ex (\<lambda>x. r_id x = uuid) (t_reservations db)"
      "db' = (let d = sweep_expired_scope scope period (c_now clock) db in d\<lparr>t_reservations := t_reservations d @
         [\<lparr>r_id = uuid, r_scope = scope, r_period = period, r_reserved = v, r_status = status_as_sql Active,
           r_created = c_now clock, r_expires = c_now clock + ttl, r_actual = None, r_tenant_period = tenant_period\<rparr>]\<rparr>)"
      "c_before_commit clock < c_now clock + ttl"
      "r = (if c_now clock + ttl \<le> c_after_commit clock
            then Inl (ReservationNotActive uuid (status_as_sql Expired)) else Inr (Some uuid))"
proof -
  have ids: "list_ex (\<lambda>x. r_id x = uuid) (t_reservations (sweep_expired_scope scope period (c_now clock) db))
      = list_ex (\<lambda>x. r_id x = uuid) (t_reservations db)" for period
    by (simp only: row_id_exists sweep_ids)
  show thesis
  proof (cases "bind_result (validate_scope scope) (\<lambda>_. estimate cost)")
    case (Inl e)
    with assms show thesis by (intro rolled_back [of e]) (simp_all add: admit_def)
  next
    case v: (Inr v)
    show thesis
    proof (cases "admission_context lib scope (c_now clock) db")
      case (Inl e)
      with v assms show thesis by (intro rolled_back [of e]) (simp_all add: admit_def)
    next
      case (Inr ctx)
      obtain sub tenant period tenant_period where ctx: "ctx = (sub, tenant, period, tenant_period)" by (cases ctx)
      let ?d = "sweep_expired_scope scope period (c_now clock) db"
      note A = assms [symmetric, unfolded admit_def v sum.case Inr ctx Let_def prod.case]
      show thesis
      proof (cases "check_limits scope v (sub, tenant, period, tenant_period) (c_now clock) ?d")
        case (Inl e)
        with A rolled_back show thesis by simp
      next
        case res: (Inr refusal)
        show thesis
        proof (cases refusal)
          case (Some e)
          with A res swept show thesis by simp
        next
          case None
          show thesis
          proof (cases "persist \<and> i64_range (c_now clock + ttl) \<and> \<not> list_ex (\<lambda>x. r_id x = uuid) (t_reservations db)
              \<and> c_before_commit clock < c_now clock + ttl")
            case True
            then have "i64_checked (c_now clock + ttl) = Some (c_now clock + ttl)" by simp
            with True A res None v Inr ctx show thesis
              by (intro inserted [of v sub tenant period tenant_period])
                (auto simp: insert_reservation_def check_reservation_deadline_def ids Let_def result_simps estimate_Inr
                  split: if_splits)
          next
            case False
            then consider "\<not> persist" | "persist" "\<not> i64_range (c_now clock + ttl)"
              | "persist" "i64_range (c_now clock + ttl)"
                "list_ex (\<lambda>x. r_id x = uuid) (t_reservations db) \<or> c_now clock + ttl \<le> c_before_commit clock"
              by fastforce
            then show thesis
            proof cases
              case 1
              with A res None swept show thesis by simp
            next
              case 2
              then have "i64_checked (c_now clock + ttl) = None" by simp
              with 2 A res None rolled_back show thesis by simp
            next
              case 3
              then have "i64_checked (c_now clock + ttl) = Some (c_now clock + ttl)" by simp
              with 3 A res None rolled_back show thesis
                by (auto simp: insert_reservation_def check_reservation_deadline_def ids split: if_splits)
            qed
          qed
        qed
      qed
    qed
  qed
qed

section \<open>The operations as steps of an account\<close>

datatype ledger_op =
    ReserveOp clock_readings string budget_scope price
  | CheckOp clock_readings budget_scope price
  | SettleOp string string int int string
  | ExtendOp clock_readings string string int
  | ReleaseOp string string
  | SweepOp int

fun ledger_step :: "tz_lib \<Rightarrow> int \<Rightarrow> ledger_op \<Rightarrow> budget_db \<Rightarrow> budget_db" where
  "ledger_step lib ttl (ReserveOp clock uuid scope cost) db = snd (reserve_budget lib ttl clock uuid scope cost db)"
| "ledger_step lib ttl (CheckOp clock scope cost) db = snd (check_budget_admission lib ttl clock scope cost db)"
| "ledger_step lib ttl (SettleOp t i cost now ev) db = snd (settle t i cost now ev db)"
| "ledger_step lib ttl (ExtendOp clock t i add) db = snd (extend_reservation ttl clock t i add db)"
| "ledger_step lib ttl (ReleaseOp t i) db = snd (release_reservation t i db)"
| "ledger_step lib ttl (SweepOp now) db = snd (sweep_expired now db)"

text \<open>
  The latest instant read so far. A settlement and a sweep read the clock before they wait for the lock, so
  that theirs may lie in the past of operations that overtook them; admission and extension read it inside
  their transaction.
\<close>

fun op_instant :: "ledger_op \<Rightarrow> int \<Rightarrow> int" where
  "op_instant (ReserveOp clock _ _ _) now = c_now clock"
| "op_instant (CheckOp clock _ _) now = c_now clock"
| "op_instant (SettleOp _ _ _ at_ms _) now = max at_ms now"
| "op_instant (ExtendOp clock _ _ _) now = c_now clock"
| "op_instant (ReleaseOp _ _) now = now"
| "op_instant (SweepOp at_ms) now = max at_ms now"

text \<open>A tenant's account in one period: the state is the latest instant read and the database.\<close>

definition account_step :: "tz_lib \<Rightarrow> int \<Rightarrow> ledger_op \<Rightarrow> int \<times> budget_db \<Rightarrow> int \<times> budget_db" where
  "account_step lib ttl op s = (op_instant op (fst s), ledger_step lib ttl op (snd s))"

definition account_total :: "string \<Rightarrow> string \<Rightarrow> int \<times> budget_db \<Rightarrow> int" where
  "account_total t p s = tenant_spent_for (snd s) t p + tenant_held (snd s) t p (fst s)"

definition account_limit :: "string \<Rightarrow> int \<times> budget_db \<Rightarrow> int" where
  "account_limit t s = (case map_of (t_tenant_config (snd s)) t of None \<Rightarrow> 0 | Some row \<Rightarrow> tr_limit row)"

definition account_ok :: "string \<Rightarrow> int \<times> budget_db \<Rightarrow> bool" where
  "account_ok t s \<longleftrightarrow> db_ok (snd s)
     \<and> (\<exists>row g. map_of (t_tenant_config (snd s)) t = Some row \<and> parse_gate (tr_gate row) = Inr g
           \<and> tr_limit row \<le> i64_max)"

text \<open>
  What admission does not bound: an admission or extension whose clock, read under the lock, went back; and a
  settlement for more than was reserved, or of a reservation that by the latest instant read has lapsed.
\<close>

definition unbounded :: "string \<Rightarrow> ledger_op \<Rightarrow> int \<times> budget_db \<Rightarrow> bool" where
  "unbounded t op s \<longleftrightarrow> op_instant op (fst s) < fst s
     \<or> (case op of SettleOp t' i cost at_ms ev \<Rightarrow> t' = t
          \<and> (case find_reservation (snd s) t i of Inl e \<Rightarrow> False
             | Inr row \<Rightarrow> \<not> (counts_at (max at_ms (fst s)) row \<and> cost \<le> r_reserved row))
        | _ \<Rightarrow> False)"

lemma sweep_tables [simp]:
  "t_tenant_config (sweep_expired_scope scope period now db) = t_tenant_config db"
  "tenant_spent_for (sweep_expired_scope scope period now db) = tenant_spent_for db"
  "spent_for (sweep_expired_scope scope period now db) = spent_for db"
  by (simp_all add: sweep_expired_scope_def tenant_spent_for_def spent_for_def fun_eq_iff)

lemma update_tables [simp]:
  "t_tenant_config (update_reservation i f db) = t_tenant_config db"
  "tenant_spent_for (update_reservation i f db) = tenant_spent_for db"
  "spent_for (update_reservation i f db) = spent_for db"
  by (simp_all add: update_reservation_def tenant_spent_for_def spent_for_def fun_eq_iff)

lemma check_limits_tenant:
  assumes "check_limits scope v (sub, Some cfg, period, tp) now db = Inr None"
  shows "v = 0 \<or> check_dimension (s_tenant scope) v (tcf_limit cfg) (tenant_spent_for db (s_tenant scope) tp)
     (Inr (tenant_held db (s_tenant scope) tp now)) (tcf_gate cfg) = Inr None"
  using assms
  by (auto simp: check_limits_def Let_def gate_of_def result_simps tenant_active_reserved_eq check_dimension_def
      split: if_splits option.splits)

lemma admission_contextE:
  assumes "admission_context lib scope now db = Inr (sub, tenant, period, tp)"
  obtains "load_tenant_config db (s_tenant scope) = Inr tenant" "sub = load_config db scope"
    "reject_amount_overflow db (s_tenant scope) None = Inr ()"
  using assms by (auto simp: admission_context_def result_simps Let_def)

lemma held_append:
  "tenant_held (d\<lparr>t_reservations := t_reservations d @ [row]\<rparr>) t p now = tenant_held d t p now + row_hold t p now row"
  by (simp add: tenant_held_def)

lemma insert_ok:
  "db_ok d \<Longrightarrow> r_id row \<notin> set (map r_id (t_reservations d)) \<Longrightarrow> row_ok row
    \<Longrightarrow> db_ok (d\<lparr>t_reservations := t_reservations d @ [row]\<rparr>)"
  by (auto simp: db_ok_def)

lemma admit_account:
  assumes "account_ok t (now, db)" "now \<le> c_now clock"
  shows "account_ok t (c_now clock, snd (admit lib ttl clock uuid scope cost persist db))"
    and "account_total t p (c_now clock, snd (admit lib ttl clock uuid scope cost persist db))
       \<le> max (account_total t p (now, db)) (account_limit t (now, db))"
    and "t_tenant_config (snd (admit lib ttl clock uuid scope cost persist db)) = t_tenant_config db"
proof -
  have ok: "db_ok db" using assms(1) by (simp add: account_ok_def)
  note later = tenant_held_later [OF ok assms(2), of t p]
  obtain r db' where a: "admit lib ttl clock uuid scope cost persist db = (r, db')" by fastforce
  then have "account_ok t (c_now clock, db') \<and> t_tenant_config db' = t_tenant_config db
    \<and> account_total t p (c_now clock, db') \<le> max (account_total t p (now, db)) (account_limit t (now, db))"
  proof (cases rule: admitE)
    case (rolled_back e)
    with assms later show ?thesis by (simp add: account_ok_def account_total_def)
  next
    case (swept period)
    with assms later show ?thesis by (simp add: account_ok_def account_total_def sweep_ok held_sweep)
  next
    case (inserted v sub tenant period tp)
    let ?d = "sweep_expired_scope scope period (c_now clock) db"
    let ?row = "\<lparr>r_id = uuid, r_scope = scope, r_period = period, r_reserved = v, r_status = status_as_sql Active,
           r_created = c_now clock, r_expires = c_now clock + ttl, r_actual = None, r_tenant_period = tp\<rparr>"
    have db': "db' = ?d\<lparr>t_reservations := t_reservations ?d @ [?row]\<rparr>" using inserted by (simp add: Let_def)
    have fresh: "uuid \<notin> set (map r_id (t_reservations ?d))"
      using inserted(8) unfolding row_id_exists sweep_ids .
    have ok': "db_ok db'" unfolding db'
      using insert_ok [OF sweep_ok [OF ok], of ?row] fresh inserted(2) by (simp add: row_ok_def)
    have tables: "t_tenant_config db' = t_tenant_config db" "tenant_spent_for db' = tenant_spent_for db"
      by (simp_all add: db' sweep_expired_scope_def tenant_spent_for_def fun_eq_iff)
    have held: "tenant_held db' t p (c_now clock) = tenant_held db t p (c_now clock) + row_hold t p (c_now clock) ?row"
      unfolding db' held_append held_sweep ..
    have "tenant_spent_for db t p + tenant_held db' t p (c_now clock)
        \<le> max (account_total t p (now, db)) (account_limit t (now, db))"
    proof (cases "row_hold t p (c_now clock) ?row = 0")
      case True
      with held later show ?thesis by (simp add: account_total_def)
    next
      case False
      then have tp: "s_tenant scope = t" "tp = p" "row_hold t p (c_now clock) ?row = v" "v \<noteq> 0"
        by (auto simp: row_hold_def split: if_splits)
      from assms(1) obtain row g where row: "map_of (t_tenant_config db) t = Some row"
        "parse_gate (tr_gate row) = Inr g" "tr_limit row \<le> i64_max" by (auto simp: account_ok_def)
      have "load_tenant_config db t = Inr tenant"
        using inserted(5) tp(1) by (auto elim: admission_contextE)
      with row have tenant: "tenant = Some \<lparr>tcf_limit = tr_limit row, tcf_timezone = tr_timezone row, tcf_gate = g\<rparr>"
        by (simp add: load_tenant_config_def)
      from check_limits_tenant [OF inserted(6) [unfolded tenant]] tp
      have "check_dimension t v (tr_limit row) (tenant_spent_for db t p) (Inr (tenant_held db t p (c_now clock))) g = Inr None"
        by (simp add: held_sweep)
      from pass_dimension [OF this inserted(2) tenant_spent_nonneg [OF ok] tenant_held_nonneg [OF ok] row(3)] tp(4)
      have "tenant_spent_for db t p + tenant_held db t p (c_now clock) + v \<le> tr_limit row" by simp
      then show ?thesis using held tp(3) row(1) by (simp add: account_limit_def)
    qed
    with ok' tables assms(1) show ?thesis by (simp add: account_ok_def account_total_def)
  qed
  then show "account_ok t (c_now clock, snd (admit lib ttl clock uuid scope cost persist db))"
    and "account_total t p (c_now clock, snd (admit lib ttl clock uuid scope cost persist db))
       \<le> max (account_total t p (now, db)) (account_limit t (now, db))"
    and "t_tenant_config (snd (admit lib ttl clock uuid scope cost persist db)) = t_tenant_config db"
    by (simp_all add: a)
qed

lemma row_ok_of: "db_ok db \<Longrightarrow> find_reservation db t i = Inr row \<Longrightarrow> row_ok row"
  by (auto simp: db_ok_def elim!: find_reservationE)

text \<open>A settlement that recorded its charge, also one refused afterwards for its size.\<close>

definition settled_by :: "budget_error + settle_receipt \<Rightarrow> string \<Rightarrow> bool" where
  "settled_by r i \<longleftrightarrow> is_ok r \<or> (\<exists>a b. r = Inl (OverageTooLarge i a b))"

lemma early_errors:
  "find_reservation db t i = Inl e \<Longrightarrow> e \<noteq> OverageTooLarge j a b"
  "parse_status st = Inl e \<Longrightarrow> e \<noteq> OverageTooLarge j a b"
  "reject_amount_overflow db t opt = Inl e \<Longrightarrow> e \<noteq> OverageTooLarge j a b"
  "record_settlement t row cost x y ev now db = Inl e \<Longrightarrow> e \<noteq> OverageTooLarge j a b"
  by (auto simp: find_reservation_def parse_status_def reject_amount_overflow_def record_settlement_def Let_def
      split: option.splits if_splits)

text \<open>The databases a settlement can leave.\<close>

lemma settleE:
  assumes "settle t i cost now ev db = (r, db')"
  obtains (untouched) e where "r = Inl e" "db' = db" "\<not> settled_by r i"
  | (overflow) row where "find_reservation db t i = Inr row" "r = Inl (AmountOverflow i cost)"
      "db' = db\<lparr>t_amount_overflows := t_amount_overflows db @
         [\<lparr>ao_reservation = i, ao_tenant = t, ao_actual = cost, ao_created = now\<rparr>]\<rparr>" "0 \<le> cost"
  | (charged) row where "find_reservation db t i = Inr row" "0 \<le> cost"
      "r_status row = status_as_sql Active \<or> r_status row = status_as_sql Expired"
      "i64_range (spent_for db (r_scope row) (r_period row) + cost)"
      "i64_range (tenant_spent_for db t (r_tenant_period row) + cost)"
      "reject_amount_overflow db t (Some i) = Inr ()"
      "record_settlement t row cost (spent_for db (r_scope row) (r_period row) + cost)
         (tenant_spent_for db t (r_tenant_period row) + cost) ev now db = Inr db'"
      "r = (if r_reserved row * 4 < cost then Inl (OverageTooLarge i (r_reserved row) cost)
            else Inr \<lparr>sr_reserved_minor = r_reserved row, sr_actual_cost_minor = cost,
                   sr_refunded_minor = max (checked_sub_i64 (r_reserved row) cost) 0,
                   sr_late = (r_status row = status_as_sql Expired \<or> r_expires row \<le> now),
                   sr_overage_minor = max (checked_sub_i64 cost (r_reserved row)) 0\<rparr>)"
proof (cases "cost < 0")
  case True
  with assms show thesis by (intro untouched [of "InvalidActualCost cost"]) (auto simp: settle_def settled_by_def)
next
  case pos: False
  note A = assms [symmetric, unfolded settle_def if_not_P [OF pos]]
  show thesis
  proof (cases "find_reservation db t i")
    case (Inl e)
    with A show thesis by (intro untouched [of e]) (simp_all add: settled_by_def early_errors)
  next
    case row: (Inr row)
    show thesis
    proof (cases "parse_status (r_status row)")
      case (Inl e)
      with A row show thesis by (intro untouched [of e]) (simp_all add: settled_by_def early_errors)
    next
      case st: (Inr status)
      note A1 = A [unfolded row st sum.case]
      show thesis
      proof (cases "status = Settled \<or> status = Released")
        case True
        with A1 show thesis by (intro untouched) (auto simp: settled_by_def)
      next
        case unfinished: False
        note A2 = A1 [unfolded if_not_P [OF unfinished] Let_def]
        show thesis
        proof (cases "reject_amount_overflow db t (Some i)")
          case (Inl e)
          with A2 show thesis by (intro untouched [of e]) (simp_all add: settled_by_def early_errors)
        next
          case ov: (Inr u)
          let ?s = "spent_for db (r_scope row) (r_period row) + cost"
          let ?t = "tenant_spent_for db t (r_tenant_period row) + cost"
          note A3 = A2 [unfolded ov sum.case]
          show thesis
          proof (cases "i64_range ?s \<and> i64_range ?t")
            case True
            then have c: "i64_checked ?s = Some ?s" "i64_checked ?t = Some ?t" by simp_all
            note A4 = A3 [unfolded c prod.case option.case]
            show thesis
            proof (cases "record_settlement t row cost ?s ?t ev now db")
              case (Inl e)
              with A4 show thesis by (intro untouched [of e]) (simp_all add: settled_by_def early_errors)
            next
              case (Inr d)
              with A4 True row st unfinished pos ov show thesis
                by (intro charged [of row]) (cases status; simp)+
            qed
          next
            case False
            then have "i64_checked ?s = None \<or> i64_checked ?t = None" by simp
            with A3 have "(r, db') = (if list_ex (\<lambda>o'. ao_reservation o' = i) (t_amount_overflows db)
                then (Inl (Storage (StorageText ''UNIQUE constraint failed: budget_amount_overflows.reservation_id'')), db)
                else (Inl (AmountOverflow i cost), db\<lparr>t_amount_overflows := t_amount_overflows db @
                  [\<lparr>ao_reservation = i, ao_tenant = t, ao_actual = cost, ao_created = now\<rparr>]\<rparr>))"
              by (auto split: option.splits)
            then show thesis
              using row pos by (auto simp: settled_by_def split: if_splits intro: untouched overflow)
          qed
        qed
      qed
    qed
  qed
qed

lemma record_settlementE:
  assumes "record_settlement t row cost st tt ev now db = Inr db'"
  obtains "t_reservations db' = t_reservations (update_reservation (r_id row)
      (\<lambda>r. r\<lparr>r_status := status_as_sql Settled, r_actual := Some cost\<rparr>) db)"
    "t_budget_periods db' = AList.update (r_scope row, r_period row) st (t_budget_periods db)"
    "t_tenant_periods db' = AList.update (t, r_tenant_period row) tt (t_tenant_periods db)"
    "t_tenant_config db' = t_tenant_config db" "t_budget_config db' = t_budget_config db"
    "t_amount_overflows db' = t_amount_overflows db"
  using assms by (auto simp: record_settlement_def Let_def update_reservation_def split: if_splits)

lemma held_cong: "t_reservations d = t_reservations d' \<Longrightarrow> tenant_held d t p now = tenant_held d' t p now"
  by (simp add: tenant_held_def)

lemma spent_update:
  "t_tenant_periods db' = AList.update (t, q) x (t_tenant_periods db)
    \<Longrightarrow> tenant_spent_for db' t' p = (if t' = t \<and> p = q then x else tenant_spent_for db t' p)"
  by (simp add: tenant_spent_for_def update_conv')

lemma scope_spent_update:
  "t_budget_periods db' = AList.update (s, q) x (t_budget_periods db)
    \<Longrightarrow> spent_for db' s' p = (if s' = s \<and> p = q then x else spent_for db s' p)"
  by (simp add: spent_for_def update_conv')

lemma settled_db_ok:
  assumes "db_ok db" "find_reservation db t i = Inr row" "0 \<le> cost"
    and "record_settlement t row cost (spent_for db (r_scope row) (r_period row) + cost)
         (tenant_spent_for db t (r_tenant_period row) + cost) ev now db = Inr db'"
  shows "db_ok db'"
  using assms(4)
proof (rule record_settlementE)
  assume t: "t_reservations db' = t_reservations (update_reservation (r_id row)
      (\<lambda>r. r\<lparr>r_status := status_as_sql Settled, r_actual := Some cost\<rparr>) db)"
    "t_budget_periods db' = AList.update (r_scope row, r_period row) (spent_for db (r_scope row) (r_period row) + cost)
       (t_budget_periods db)"
    "t_tenant_periods db' = AList.update (t, r_tenant_period row) (tenant_spent_for db t (r_tenant_period row) + cost)
       (t_tenant_periods db)"
  have "db_ok (update_reservation (r_id row) (\<lambda>r. r\<lparr>r_status := status_as_sql Settled, r_actual := Some cost\<rparr>) db)"
    using assms(1) by (rule update_ok) (simp_all add: row_ok_def)
  moreover have "0 \<le> spent_for db' s p" "0 \<le> tenant_spent_for db' t' p" for s p t'
    using spent_nonneg [OF assms(1)] tenant_spent_nonneg [OF assms(1)] assms(3)
    by (simp_all add: spent_update [OF t(3)] scope_spent_update [OF t(2)])
  ultimately show ?thesis
    unfolding db_ok_def t(1) by (auto simp: spent_for_def tenant_spent_for_def)
qed

lemma account_lapse:
  "account_ok t (now, db) \<Longrightarrow> now \<le> now' \<Longrightarrow> account_total t p (now', db) \<le> account_total t p (now, db)"
  using tenant_held_later [of db now now' t p] by (simp add: account_ok_def account_total_def)

lemma settle_config: "t_tenant_config (snd (settle t' i cost at_ms ev db)) = t_tenant_config db"
proof (cases "settle t' i cost at_ms ev db")
  case (Pair r db')
  then show ?thesis
  proof (cases rule: settleE)
    case (charged row)
    from charged(7) have "t_tenant_config db' = t_tenant_config db" by (rule record_settlementE)
    with Pair show ?thesis by simp
  qed (use Pair in simp_all)
qed

lemma settle_ok:
  assumes "db_ok db"
  shows "db_ok (snd (settle t' i cost at_ms ev db))"
proof (cases "settle t' i cost at_ms ev db")
  case (Pair r db')
  then show ?thesis
  proof (cases rule: settleE)
    case (charged row)
    with settled_db_ok [OF assms] Pair show ?thesis by simp
  qed (use Pair assms in \<open>simp_all add: db_ok_def\<close>)
qed

lemma settle_total:
  assumes "account_ok t (now, db)" "now \<le> latest"
    and "\<And>row. t' = t \<Longrightarrow> find_reservation db t i = Inr row \<Longrightarrow> counts_at latest row \<and> cost \<le> r_reserved row"
  shows "account_total t p (latest, snd (settle t' i cost at_ms ev db)) \<le> account_total t p (now, db)"
proof (cases "settle t' i cost at_ms ev db")
  case (Pair r db')
  have ok: "db_ok db" using assms(1) by (simp add: account_ok_def)
  from Pair show ?thesis
  proof (cases rule: settleE)
    case (untouched e)
    with Pair account_lapse [OF assms(1,2)] show ?thesis by simp
  next
    case (overflow row)
    then have "account_total t p (latest, db') = account_total t p (latest, db)"
      by (simp add: account_total_def tenant_held_def tenant_spent_for_def)
    with Pair account_lapse [OF assms(1,2)] show ?thesis by simp
  next
    case (charged row)
    let ?f = "\<lambda>r. r\<lparr>r_status := status_as_sql Settled, r_actual := Some cost\<rparr>"
    from charged(7) show ?thesis
    proof (rule record_settlementE)
      assume rs: "t_reservations db' = t_reservations (update_reservation (r_id row) ?f db)"
        and tp: "t_tenant_periods db' = AList.update (t', r_tenant_period row)
           (tenant_spent_for db t' (r_tenant_period row) + cost) (t_tenant_periods db)"
      have id: "r_id row = i" "s_tenant (r_scope row) = t'" using charged(1) by (auto elim: find_reservationE)
      have "tenant_held db' t p latest = tenant_held db t p latest - row_hold t p latest row + row_hold t p latest (?f row)"
        using held_cong [OF rs] held_update [OF ok charged(1), of ?f t p latest] id by simp
      moreover have "row_hold t p latest (?f row) = 0" by (simp add: row_hold_def counts_at_def)
      moreover have "row_hold t p latest row \<ge> cost" if "t = t'" "p = r_tenant_period row"
        using assms(3) charged(1) that id by (simp add: row_hold_def)
      moreover have "0 \<le> row_hold t p latest row" using row_hold_nonneg row_ok_of [OF ok charged(1)] by blast
      ultimately have "account_total t p (latest, db') \<le> account_total t p (latest, db)"
        by (auto simp: account_total_def spent_update [OF tp])
      with account_lapse [OF assms(1,2), of p] show ?thesis unfolding Pair snd_conv by linarith
    qed
  qed
qed

lemma extend_cases:
  "snd (extend_reservation ttl clock t i add db) = db
   \<or> (\<exists>row x. find_reservation db t i = Inr row \<and> counts_at (c_now clock) row \<and> c_now clock < x
        \<and> snd (extend_reservation ttl clock t i add db) = update_reservation i (\<lambda>r. r\<lparr>r_expires := x\<rparr>) db)"
proof (cases "snd (extend_reservation ttl clock t i add db) = db")
  case False
  then show ?thesis
    by (intro disjI2, auto simp: extend_reservation_def counts_at_def split: sum.splits option.splits if_splits
        intro!: exI [of _ "c_now clock + add"])
qed simp

lemma release_cases:
  "snd (release_reservation t i db) = db
   \<or> (\<exists>row. find_reservation db t i = Inr row
        \<and> snd (release_reservation t i db) = update_reservation i (\<lambda>r. r\<lparr>r_status := status_as_sql Released\<rparr>) db)"
  by (auto simp: release_reservation_def split: sum.splits reservation_status.splits)

lemma update_account:
  assumes "account_ok t (now, db)" "find_reservation db t' i = Inr row"
    and "\<And>r. row_ok r \<Longrightarrow> row_ok (f r)" "\<And>r. r_id (f r) = r_id r" "row_hold t p at_ms (f row) \<le> row_hold t p at_ms row"
    and "now \<le> at_ms"
  shows "account_ok t (at_ms, update_reservation i f db)"
    and "account_total t p (at_ms, update_reservation i f db) \<le> account_total t p (now, db)"
proof -
  have ok: "db_ok db" using assms(1) by (simp add: account_ok_def)
  show "account_ok t (at_ms, update_reservation i f db)"
    using assms(1) update_ok [OF ok assms(3,4)] by (simp add: account_ok_def)
  show "account_total t p (at_ms, update_reservation i f db) \<le> account_total t p (now, db)"
    using held_update [OF ok assms(2), of f t p at_ms] assms(5) account_lapse [OF assms(1,6), of p]
    by (simp add: account_total_def)
qed

lemma extend_account:
  assumes "account_ok t (now, db)" "now \<le> c_now clock"
  shows "account_ok t (c_now clock, snd (extend_reservation ttl clock t' i add db))"
    and "account_total t p (c_now clock, snd (extend_reservation ttl clock t' i add db)) \<le> account_total t p (now, db)"
    and "t_tenant_config (snd (extend_reservation ttl clock t' i add db)) = t_tenant_config db"
proof -
  from extend_cases [of ttl clock t' i add db] have
    "account_ok t (c_now clock, snd (extend_reservation ttl clock t' i add db))
     \<and> account_total t p (c_now clock, snd (extend_reservation ttl clock t' i add db)) \<le> account_total t p (now, db)
     \<and> t_tenant_config (snd (extend_reservation ttl clock t' i add db)) = t_tenant_config db"
  proof (elim disjE exE conjE)
    assume "snd (extend_reservation ttl clock t' i add db) = db"
    with assms account_lapse [OF assms] show ?thesis by (simp add: account_ok_def)
  next
    fix row x
    assume e: "find_reservation db t' i = Inr row" "counts_at (c_now clock) row" "c_now clock < x"
      "snd (extend_reservation ttl clock t' i add db) = update_reservation i (\<lambda>r. r\<lparr>r_expires := x\<rparr>) db"
    have "row_hold t p (c_now clock) (row\<lparr>r_expires := x\<rparr>) \<le> row_hold t p (c_now clock) row"
      using e(2,3) by (simp add: row_hold_def counts_at_def)
    from update_account [where f = "\<lambda>r. r\<lparr>r_expires := x\<rparr>", OF assms(1) e(1) _ _ this assms(2)]
    show ?thesis by (simp add: e(4) row_ok_def)
  qed
  then show "account_ok t (c_now clock, snd (extend_reservation ttl clock t' i add db))"
    and "account_total t p (c_now clock, snd (extend_reservation ttl clock t' i add db)) \<le> account_total t p (now, db)"
    and "t_tenant_config (snd (extend_reservation ttl clock t' i add db)) = t_tenant_config db"
    by blast+
qed

lemma release_account:
  assumes "account_ok t (now, db)"
  shows "account_ok t (now, snd (release_reservation t' i db))"
    and "account_total t p (now, snd (release_reservation t' i db)) \<le> account_total t p (now, db)"
    and "t_tenant_config (snd (release_reservation t' i db)) = t_tenant_config db"
proof -
  from release_cases [of t' i db] have
    "account_ok t (now, snd (release_reservation t' i db))
     \<and> account_total t p (now, snd (release_reservation t' i db)) \<le> account_total t p (now, db)
     \<and> t_tenant_config (snd (release_reservation t' i db)) = t_tenant_config db"
  proof (elim disjE exE conjE)
    assume "snd (release_reservation t' i db) = db"
    with assms show ?thesis by simp
  next
    fix row
    assume e: "find_reservation db t' i = Inr row"
      "snd (release_reservation t' i db) = update_reservation i (\<lambda>r. r\<lparr>r_status := status_as_sql Released\<rparr>) db"
    have "0 \<le> row_hold t p now row"
      using row_ok_of e(1) row_hold_nonneg assms by (auto simp: account_ok_def)
    then have "row_hold t p now (row\<lparr>r_status := status_as_sql Released\<rparr>) \<le> row_hold t p now row"
      by (simp add: row_hold_def counts_at_def)
    from update_account [where f = "\<lambda>r. r\<lparr>r_status := status_as_sql Released\<rparr>", OF assms e(1) _ _ this]
    show ?thesis by (simp add: e(2) row_ok_def)
  qed
  then show "account_ok t (now, snd (release_reservation t' i db))"
    and "account_total t p (now, snd (release_reservation t' i db)) \<le> account_total t p (now, db)"
    and "t_tenant_config (snd (release_reservation t' i db)) = t_tenant_config db"
    by blast+
qed

lemma step_account:
  assumes "account_ok t s" "fst s \<le> op_instant op (fst s)"
  shows "account_ok t (account_step lib ttl op s)"
    and "t_tenant_config (snd (account_step lib ttl op s)) = t_tenant_config (snd s)"
    and "\<not> unbounded t op s \<Longrightarrow> account_total t p (account_step lib ttl op s) \<le> max (account_total t p s) (account_limit t s)"
proof -
  obtain now db where s: "s = (now, db)" by (cases s)
  note ok = assms(1) [unfolded s]
  have "account_ok t (account_step lib ttl op s)
    \<and> t_tenant_config (snd (account_step lib ttl op s)) = t_tenant_config (snd s)
    \<and> (\<not> unbounded t op s \<longrightarrow> account_total t p (account_step lib ttl op s) \<le> max (account_total t p s) (account_limit t s))"
  proof (cases op)
    case (ReserveOp clock uuid scope cost)
    then show ?thesis using admit_account [OF ok, of clock] assms(2)
      by (simp add: s account_step_def reserve_budget_def case_prod_beta)
  next
    case (CheckOp clock scope cost)
    then show ?thesis using admit_account [OF ok, of clock] assms(2)
      by (simp add: s account_step_def check_budget_admission_def case_prod_beta)
  next
    case (SettleOp t' i cost at_ms ev)
    have "account_ok t (max at_ms now, snd (settle t' i cost at_ms ev db))"
      using ok settle_ok settle_config by (simp add: account_ok_def)
    moreover have "account_total t p (max at_ms now, snd (settle t' i cost at_ms ev db)) \<le> account_total t p (now, db)"
      if "\<not> unbounded t op s"
      using that SettleOp by (intro settle_total [OF ok]) (auto simp: unbounded_def s)
    ultimately show ?thesis using SettleOp settle_config by (auto simp: s account_step_def)
  next
    case (ExtendOp clock t' i add)
    then show ?thesis using extend_account [OF ok, of clock] assms(2)
      by (auto simp: s account_step_def intro: le_max_iff_disj [THEN iffD2])
  next
    case (ReleaseOp t' i)
    then show ?thesis using release_account [OF ok]
      by (auto simp: s account_step_def intro: le_max_iff_disj [THEN iffD2])
  next
    case (SweepOp at_ms)
    have "account_ok t (max at_ms now, snd (sweep_expired at_ms db))"
      using ok sweep_all_ok by (simp add: account_ok_def) (simp add: sweep_expired_def Let_def)
    moreover have "account_total t p (max at_ms now, snd (sweep_expired at_ms db)) = account_total t p (max at_ms now, db)"
      by (simp add: account_total_def held_sweep_all) (simp add: sweep_expired_def Let_def tenant_spent_for_def)
    ultimately show ?thesis using SweepOp account_lapse [OF ok, of "max at_ms now" p]
      by (auto simp: s account_step_def sweep_expired_def Let_def)
  qed
  then show "account_ok t (account_step lib ttl op s)"
    and "t_tenant_config (snd (account_step lib ttl op s)) = t_tenant_config (snd s)"
    and "\<not> unbounded t op s \<Longrightarrow> account_total t p (account_step lib ttl op s) \<le> max (account_total t p s) (account_limit t s)"
    by blast+
qed

lemma step_account_ok:
  assumes "account_ok t s"
  shows "account_ok t (account_step lib ttl op s)"
    and "t_tenant_config (snd (account_step lib ttl op s)) = t_tenant_config (snd s)"
proof -
  let ?s = "(op_instant op (fst s), snd s)"
  have idem: "op_instant op (op_instant op n) = op_instant op n" for n by (cases op) simp_all
  then have e: "account_step lib ttl op ?s = account_step lib ttl op s" by (simp add: account_step_def)
  have ok: "account_ok t ?s" using assms by (simp add: account_ok_def)
  have le: "fst ?s \<le> op_instant op (fst ?s)" by (simp add: idem)
  show "account_ok t (account_step lib ttl op s)"
    and "t_tenant_config (snd (account_step lib ttl op s)) = t_tenant_config (snd s)"
    using step_account(1,2) [OF ok le, of lib ttl] unfolding e by simp_all
qed

interpretation acct: limited_account "account_total t p" "account_limit t" "account_ok t" "account_step lib ttl" "unbounded t"
  for t p lib ttl
proof
  fix s op assume ok: "account_ok t s"
  then show "account_ok t (account_step lib ttl op s)" by (rule step_account_ok)
  show "account_limit t (account_step lib ttl op s) = account_limit t s"
    using step_account_ok(2) [OF ok] by (simp add: account_limit_def)
  assume "\<not> unbounded t op s"
  then show "account_total t p (account_step lib ttl op s) \<le> max (account_total t p s) (account_limit t s)"
    using step_account(3) [OF ok] by (auto simp: unbounded_def)
qed

section \<open>Properties\<close>

text \<open>A ledger with one tenant-level budget of ten units, in one period.\<close>

definition one_month :: tz_lib where
  "one_month = \<lparr>tz_parses = (\<lambda>_. True), instant_ok = (\<lambda>_. True), local_month = (\<lambda>_ _. (2026, 9))\<rparr>"

definition ten_units :: budget_db where
  "ten_units = empty_db\<lparr>t_tenant_config := [(''t'', \<lparr>tr_limit = 10, tr_timezone = ''UTC'', tr_gate = ''paid_only''\<rparr>)]\<rparr>"

definition sample_scope :: budget_scope where
  "sample_scope = \<lparr>s_tenant = ''t'', s_key = ''k'', s_provider = ''p'', s_model = ''m''\<rparr>"

definition tick :: "int \<Rightarrow> clock_readings" where
  "tick n = \<lparr>c_now = n, c_before_commit = n, c_after_commit = n\<rparr>"

definition held_six :: budget_db where
  "held_six = ten_units\<lparr>t_reservations := [\<lparr>r_id = ''a'', r_scope = sample_scope, r_period = ''2026-09'', r_reserved = 6,
     r_status = ''active'', r_created = 0, r_expires = 100, r_actual = None, r_tenant_period = ''2026-09''\<rparr>]\<rparr>"

lemma tick_now [simp]: "c_now (tick n) = n"
  by (simp add: tick_def)

lemma blank_samples: "\<not> is_blank ''t''" "\<not> is_blank ''k''" "\<not> is_blank ''p''" "\<not> is_blank ''m''"
  by (simp_all add: is_blank_def chars_def trim_matches_def is_unicode_whitespace_def)

lemma sample_period: "billing_period_key one_month now ''UTC'' = Inr ''2026-09''"
  by (simp add: billing_period_key_def one_month_def show_year_def pad_zero_def show_nat.simps) (simp add: char_of_def bit_Suc_0_iff)

lemma sample_ok: "db_ok ten_units" "db_ok held_six" "account_ok ''t'' (n, ten_units)" "account_ok ''t'' (n, held_six)"
  by (simp_all add: db_ok_def account_ok_def ten_units_def held_six_def empty_db_def row_ok_def i64_max_def parse_gate_def)

lemmas ledger_eval = reserve_budget_def admit_def validate_scope_def blank_samples estimate_def admission_context_def
  reject_amount_overflow_def load_tenant_config_def load_config_def parse_gate_def sample_period
  sweep_expired_scope_def check_limits_def gate_of_def check_dimension_def checked_add_i64_def checked_sub_i64_def
  clamp_i64_def i64_max_def i64_min_def exceeds_limit_def tenant_spent_for_def spent_for_def
  tenant_active_reserved_for_def tenant_active_rows_def sql_sum_def counts_at_def i64_range_def
  insert_reservation_def check_reservation_deadline_def tick_def ten_units_def empty_db_def sample_scope_def ok_or_def

lemma sample_reserve:
  "reserve_budget one_month 100 (tick 0) ''a'' sample_scope (Known 6) ten_units = (Inr ''a'', held_six)"
  by (simp add: ledger_eval held_six_def i64_checked_def)

lemma sample_second_reserve:
  "snd (reserve_budget one_month 100 (tick 1) ''b'' sample_scope (Known 6) held_six) = held_six"
  by (simp add: ledger_eval held_six_def i64_checked_def)



lemma find_unique: "row \<in> set rs \<Longrightarrow> P row \<Longrightarrow> (\<And>r. r \<in> set rs \<Longrightarrow> P r \<Longrightarrow> r = row) \<Longrightarrow> find P rs = Some row"
proof (induction rs)
  case (Cons r rs)
  show ?case
  proof (cases "P r")
    case True
    then have "r = row" using Cons.prems(3) [of r] by simp
    with True show ?thesis by simp
  next
    case False
    then have "row \<in> set rs" using Cons.prems(1,2) by auto
    then have "find P rs = Some row"
      by (rule Cons.IH [OF _ Cons.prems(2)]) (rule Cons.prems(3), simp_all)
    with False show ?thesis by simp
  qed
qed simp

lemma same_id_same_row:
  "db_ok db \<Longrightarrow> r \<in> set (t_reservations db) \<Longrightarrow> r' \<in> set (t_reservations db) \<Longrightarrow> r_id r = r_id r' \<Longrightarrow> r = r'"
  by (auto simp: db_ok_def distinct_map inj_on_def)

lemma find_reservation_updated:
  assumes "db_ok db" "find_reservation db t i = Inr row" "r_id (f row) = i" "s_tenant (r_scope (f row)) = t"
    and "t_reservations db' = t_reservations (update_reservation i f db)"
  shows "find_reservation db' t i = Inr (f row)"
proof -
  have row: "row \<in> set (t_reservations db)" "r_id row = i" using assms(2) by (auto elim: find_reservationE)
  have "find (\<lambda>r. r_id r = i \<and> s_tenant (r_scope r) = t) (t_reservations db') = Some (f row)"
  proof (rule find_unique)
    show "f row \<in> set (t_reservations db')" using row by (force simp: assms(5) update_reservation_def)
  next
    fix r assume "r \<in> set (t_reservations db')" "r_id r = i \<and> s_tenant (r_scope r) = t"
    then show "r = f row"
      using same_id_same_row [OF assms(1) _ row(1)] row(2) by (auto simp: assms(5) update_reservation_def split: if_splits)
  qed (use assms in simp)
  then show ?thesis by (simp add: find_reservation_def)
qed

lemma settled_row:
  assumes "db_ok db" "settle t i cost now ev db = (r, db')" "settled_by r i" "find_reservation db t i = Inr row"
  shows "find_reservation db' t i = Inr (row\<lparr>r_status := status_as_sql Settled, r_actual := Some cost\<rparr>)"
    and "tenant_spent_for db' t' p = tenant_spent_for db t' p + (if t' = t \<and> p = r_tenant_period row then cost else 0)"
    and "spent_for db' s q = spent_for db s q + (if s = r_scope row \<and> q = r_period row then cost else 0)"
    and "0 \<le> cost"
proof -
  let ?f = "\<lambda>r. r\<lparr>r_status := status_as_sql Settled, r_actual := Some cost\<rparr>"
  have id: "r_id row = i" "s_tenant (r_scope row) = t" using assms(4) by (auto elim: find_reservationE)
  have not_err: "r \<noteq> Inl (AmountOverflow i cost)" using assms(3) by (auto simp: settled_by_def)
  from assms(2) have "0 \<le> cost \<and> record_settlement t row cost (spent_for db (r_scope row) (r_period row) + cost)
         (tenant_spent_for db t (r_tenant_period row) + cost) ev now db = Inr db'"
    by (cases rule: settleE) (use not_err assms(3,4) in auto)
  then have "0 \<le> cost" and rec: "record_settlement t row cost (spent_for db (r_scope row) (r_period row) + cost)
         (tenant_spent_for db t (r_tenant_period row) + cost) ev now db = Inr db'" by auto
  from rec show "find_reservation db' t i = Inr (?f row)"
    by (rule record_settlementE) (rule find_reservation_updated [OF assms(1,4)], simp_all add: id)
  from rec show "tenant_spent_for db' t' p = tenant_spent_for db t' p + (if t' = t \<and> p = r_tenant_period row then cost else 0)"
    by (rule record_settlementE) (simp add: spent_update)
  from rec show "spent_for db' s q = spent_for db s q + (if s = r_scope row \<and> q = r_period row then cost else 0)"
    by (rule record_settlementE) (simp add: scope_spent_update)
  show "0 \<le> cost" by fact
qed

lemma settle_settled:
  assumes "find_reservation db t i = Inr row" "r_status row = status_as_sql Settled" "0 \<le> cost"
  shows "settle t i cost now ev db = (Inl (ReservationNotActive i (status_as_sql Settled)), db)"
  using assms by (simp add: settle_def)

lemma release_settled:
  assumes "find_reservation db t i = Inr row" "r_status row = status_as_sql Settled"
  shows "release_reservation t i db = (Inl (ReservationNotActive i (status_as_sql Settled)), db)"
  using assms by (simp add: release_reservation_def)

text \<open>
  C18. A completed call is charged exactly once and in full: settling adds the actual cost to the
  spend of the reservation's own scope and period and of its tenant's period, to nothing else, also
  when the cost is reported as an overage; after that no settlement or release of that reservation,
  at any later time, changes anything.
\<close>

theorem settle_charges_exactly_once:
  assumes "db_ok db" and "settle t i cost now ev db = (r, db')" and "settled_by r i"
    and "find_reservation db t i = Inr row" and "0 \<le> cost'"
  shows "tenant_spent_for db' t' p = tenant_spent_for db t' p + (if t' = t \<and> p = r_tenant_period row then cost else 0)
    \<and> spent_for db' s q = spent_for db s q + (if s = r_scope row \<and> q = r_period row then cost else 0)
    \<and> settle t i cost' now' ev' db' = (Inl (ReservationNotActive i ''settled''), db')
    \<and> release_reservation t i db' = (Inl (ReservationNotActive i ''settled''), db')"
  using settled_row [OF assms(1-4)] settle_settled [OF settled_row(1) [OF assms(1-4)] _ assms(5)]
    release_settled [OF settled_row(1) [OF assms(1-4)]] by simp

lemma sample_settle:
  "settle ''t'' ''a'' 8 200 ''e'' held_six = (Inr \<lparr>sr_reserved_minor = 6, sr_actual_cost_minor = 8,
      sr_refunded_minor = 0, sr_late = True, sr_overage_minor = 2\<rparr>, snd (settle ''t'' ''a'' 8 200 ''e'' held_six))"
  "find_reservation held_six ''t'' ''a'' = Inr (hd (t_reservations held_six))"
proof -
  show row: "find_reservation held_six ''t'' ''a'' = Inr (hd (t_reservations held_six))"
    by (simp add: find_reservation_def held_six_def sample_scope_def)
  obtain d where d: "record_settlement ''t'' (hd (t_reservations held_six)) 8 8 8 ''e'' 200 held_six = Inr d"
    by (simp add: record_settlement_def held_six_def ledger_eval update_reservation_def Let_def)
  have c: "i64_checked 8 = Some 8" by (simp add: i64_range_def)
  have "reject_amount_overflow held_six ''t'' (Some ''a'') = Inr ()" "r_status (hd (t_reservations held_six)) = ''active''"
    "r_expires (hd (t_reservations held_six)) = 100" "r_reserved (hd (t_reservations held_six)) = 6"
    "spent_for held_six (r_scope (hd (t_reservations held_six))) (r_period (hd (t_reservations held_six))) = 0"
    "tenant_spent_for held_six ''t'' (r_tenant_period (hd (t_reservations held_six))) = 0"
    by (simp_all add: held_six_def ledger_eval)
  then show "settle ''t'' ''a'' 8 200 ''e'' held_six = (Inr \<lparr>sr_reserved_minor = 6, sr_actual_cost_minor = 8,
      sr_refunded_minor = 0, sr_late = True, sr_overage_minor = 2\<rparr>, snd (settle ''t'' ''a'' 8 200 ''e'' held_six))"
    by (simp add: settle_def row c d checked_sub_i64_def clamp_i64_def i64_max_def i64_min_def del: i64_checked_Some)
qed

theorem settle_charges_exactly_once_witness:
  "tenant_spent_for (snd (settle ''t'' ''a'' 8 200 ''e'' held_six)) ''t'' ''2026-09''
     = tenant_spent_for held_six ''t'' ''2026-09'' + 8"
  using settle_charges_exactly_once [OF sample_ok(2) sample_settle(1) _ sample_settle(2), of 0 "''t''" "''2026-09''"]
  by (simp add: settled_by_def) (simp add: held_six_def)

text \<open>
  A settlement can be replayed after a crash: replaying it with the same cost reports success and
  writes nothing, replaying it with another cost is an error and writes nothing.
\<close>

theorem replay_is_idempotent:
  assumes "db_ok db" and "settle t i cost now ev db = (r, db')" and "settled_by r i"
    and "find_reservation db t i = Inr row" and "0 \<le> cost'"
  shows "replay_settlement t i cost' now' ev' (\<lambda>d. d) db'
     = (if cost' = cost then Inr () else Inl (ReservationNotActive i ''settled''), db')"
proof -
  have row: "find_reservation db' t i = Inr (row\<lparr>r_status := status_as_sql Settled, r_actual := Some cost\<rparr>)"
    by (rule settled_row [OF assms(1-4)])
  have ok: "db_ok db'" using settle_ok [OF assms(1), of t i cost now ev] assms(2) by simp
  have "find (\<lambda>r. r_id r = i \<and> s_tenant (r_scope r) = t \<and> r_status r = ''settled'') (t_reservations db')
      = Some (row\<lparr>r_status := status_as_sql Settled, r_actual := Some cost\<rparr>)"
    using row by (elim find_reservationE, intro find_unique) (auto intro: same_id_same_row [OF ok])
  with settle_settled [OF row _ assms(5), of now' ev'] show ?thesis
    by (simp add: replay_settlement_def)
qed

theorem replay_is_idempotent_witness:
  "fst (replay_settlement ''t'' ''a'' 8 300 ''f'' (\<lambda>d. d) (snd (settle ''t'' ''a'' 8 200 ''e'' held_six))) = Inr ()
   \<and> fst (replay_settlement ''t'' ''a'' 7 300 ''f'' (\<lambda>d. d) (snd (settle ''t'' ''a'' 8 200 ''e'' held_six)))
      = Inl (ReservationNotActive ''a'' ''settled'')"
  using replay_is_idempotent [OF sample_ok(2) sample_settle(1) _ sample_settle(2), of 8 300 "''f''"]
    replay_is_idempotent [OF sample_ok(2) sample_settle(1) _ sample_settle(2), of 7 300 "''f''"]
  by (simp add: settled_by_def)

text \<open>
  Tenants are isolated: with another tenant's reservation id a caller can neither settle, extend
  nor release; every attempt is answered as not found and writes nothing.
\<close>

theorem foreign_reservation_untouchable:
  assumes "db_ok db" and "row \<in> set (t_reservations db)" and "r_id row = i" and "s_tenant (r_scope row) \<noteq> t"
    and "0 \<le> cost" and "0 < add" and "add \<le> ttl"
  shows "settle t i cost now ev db = (Inl (TenantMismatch i), db)
    \<and> extend_reservation ttl clock t i add db = (Inl (TenantMismatch i), db)
    \<and> release_reservation t i db = (Inl (TenantMismatch i), db)"
proof -
  have "find (\<lambda>r. r_id r = i \<and> s_tenant (r_scope r) = t) (t_reservations db) = None"
    using same_id_same_row [OF assms(1) _ assms(2)] assms(3,4) by (auto simp: find_None_iff)
  then have "find_reservation db t i = Inl (TenantMismatch i)"
    using assms(2,3) by (auto simp: find_reservation_def list_ex_iff)
  then show ?thesis using assms(5-7) by (simp add: settle_def extend_reservation_def release_reservation_def)
qed

theorem foreign_reservation_untouchable_witness:
  "settle ''u'' ''a'' 5 2 ''e'' held_six = (Inl (TenantMismatch ''a''), held_six)
    \<and> extend_reservation 100 (tick 2) ''u'' ''a'' 50 held_six = (Inl (TenantMismatch ''a''), held_six)
    \<and> release_reservation ''u'' ''a'' held_six = (Inl (TenantMismatch ''a''), held_six)"
  by (rule foreign_reservation_untouchable [OF sample_ok(2), of "hd (t_reservations held_six)"])
    (simp_all add: held_six_def sample_scope_def)

text \<open>
  A refused reservation holds nothing: whatever the reason (blank scope, unknown or negative
  price, no budget, limit exceeded, a deadline lost to a slow commit), once the call has returned an
  error every tenant's and every scope's spend and held amounts are what they would be without it.
\<close>

theorem refused_reservation_holds_nothing:
  assumes "reserve_budget lib ttl clock uuid scope cost db = (Inl e, db')"
    and "c_now clock \<le> now" and "c_after_commit clock \<le> now"
  shows "tenant_held db' t p now = tenant_held db t p now \<and> scope_held db' s q now = scope_held db s q now
    \<and> tenant_spent_for db' t p = tenant_spent_for db t p \<and> spent_for db' s q = spent_for db s q"
proof -
  obtain r where a: "admit lib ttl clock uuid scope cost True db = (r, db')" and r: "\<forall>x. r \<noteq> Inr (Some x)"
    using assms(1) by (cases "admit lib ttl clock uuid scope cost True db")
      (auto simp: reserve_budget_def ok_or_def result_simps split: option.splits)
  have sweep: "tenant_held (sweep_expired_scope scope period (c_now clock) db) t p now = tenant_held db t p now"
    "scope_held (sweep_expired_scope scope period (c_now clock) db) s q now = scope_held db s q now" for period
    using assms(2) by (simp_all add: tenant_held_def scope_held_def sweep_expired_scope_def comp_def)
      (intro arg_cong [where f = sum_list] map_cong refl, auto simp: row_hold_def scope_hold_def counts_at_def)+
  from a show ?thesis
  proof (cases rule: admitE)
    case (swept period)
    with sweep show ?thesis by simp
  next
    case (inserted v sub tenant period tp)
    from inserted(11) r have "c_now clock + ttl \<le> now" using assms(3) by (auto split: if_splits)
    with sweep inserted(9) show ?thesis
      by (simp add: Let_def tenant_held_def scope_held_def row_hold_def scope_hold_def counts_at_def
          tenant_spent_for_def spent_for_def) (simp add: sweep_expired_scope_def)
  qed simp
qed

theorem refused_reservation_holds_nothing_witness:
  "tenant_held (snd (reserve_budget one_month 100 (tick 0) ''b'' sample_scope UnknownPrice held_six)) ''t'' ''2026-09'' 5 = 6"
proof -
  have "reserve_budget one_month 100 (tick 0) ''b'' sample_scope UnknownPrice held_six = (Inl PriceUnknown, held_six)"
    by (simp add: ledger_eval)
  note eq = this
  have "tenant_held held_six ''t'' ''2026-09'' 5 = 6"
    by (simp add: held_six_def tenant_held_def row_hold_def counts_at_def sample_scope_def)
  with refused_reservation_holds_nothing [OF eq, of 5 "''t''" "''2026-09''"]
  show ?thesis unfolding eq by (simp add: tick_def)
qed

section \<open>One billing zone per tenant\<close>

definition zones_agree :: "budget_db \<Rightarrow> bool" where
  "zones_agree db \<longleftrightarrow> distinct (map fst (t_budget_config db))
     \<and> (\<forall>s c s' c'. load_config db s = Some c \<longrightarrow> load_config db s' = Some c' \<longrightarrow> s_tenant s = s_tenant s'
          \<longrightarrow> sc_timezone c = sc_timezone c')
     \<and> (\<forall>s c row. load_config db s = Some c \<longrightarrow> map_of (t_tenant_config db) (s_tenant s) = Some row
          \<longrightarrow> tr_timezone row = sc_timezone c)"

lemma zones_agreeD:
  assumes "zones_agree db"
  shows "load_config db s = Some c \<Longrightarrow> load_config db s' = Some c' \<Longrightarrow> s_tenant s = s_tenant s'
      \<Longrightarrow> sc_timezone c = sc_timezone c'"
    and "load_config db s = Some c \<Longrightarrow> map_of (t_tenant_config db) (s_tenant s) = Some row
      \<Longrightarrow> tr_timezone row = sc_timezone c"
    and "distinct (map fst (t_budget_config db))"
  using assms unfolding zones_agree_def by blast+

lemma zones_agreeI:
  assumes "distinct (map fst (t_budget_config db))"
    and "\<And>s c s' c'. load_config db s = Some c \<Longrightarrow> load_config db s' = Some c' \<Longrightarrow> s_tenant s = s_tenant s'
      \<Longrightarrow> sc_timezone c = sc_timezone c'"
    and "\<And>s c row. load_config db s = Some c \<Longrightarrow> map_of (t_tenant_config db) (s_tenant s) = Some row
      \<Longrightarrow> tr_timezone row = sc_timezone c"
  shows "zones_agree db"
  using assms unfolding zones_agree_def by blast

lemma sibling_None:
  assumes "sibling_sub_scope_timezone db t ex = None" "load_config db s = Some c" "s_tenant s = t"
  shows "\<exists>e. ex = Some e \<and> s_key e = s_key s \<and> s_provider e = s_provider s \<and> s_model e = s_model s"
  using assms map_of_SomeD [of "t_budget_config db" s c]
  by (auto simp: sibling_sub_scope_timezone_def load_config_def find_None_iff split: option.splits)

lemma sibling_Some:
  assumes "sibling_sub_scope_timezone db t ex = Some tz" "distinct (map fst (t_budget_config db))"
  shows "\<exists>s c. load_config db s = Some c \<and> s_tenant s = t \<and> sc_timezone c = tz"
proof -
  from assms(1) obtain s c where "(s, c) \<in> set (t_budget_config db)" "s_tenant s = t" "sc_timezone c = tz"
    by (auto simp: sibling_sub_scope_timezone_def find_Some_iff) (metis nth_mem)
  with assms(2) show ?thesis by (auto simp: load_config_def)
qed

text \<open>The zone a conflict-free configuration call agrees with.\<close>

lemma sibling_zone:
  assumes "zones_agree db" "\<forall>z. sibling_sub_scope_timezone db t ex = Some z \<longrightarrow> z = tz"
    and "load_config db s = Some c" "s_tenant s = t" "\<forall>e. ex = Some e \<longrightarrow> s_tenant e = t \<and> s \<noteq> e"
  shows "sc_timezone c = tz"
proof (cases "sibling_sub_scope_timezone db t ex")
  case None
  from sibling_None [OF None assms(3,4)] assms(4,5) show ?thesis by (auto intro: budget_scope.equality)
next
  case (Some z)
  from sibling_Some [OF Some zones_agreeD(3) [OF assms(1)]] obtain s' c' where
    "load_config db s' = Some c'" "s_tenant s' = t" "sc_timezone c' = z" by blast
  with zones_agreeD(1) [OF assms(1,3)] assms(2,4) Some show ?thesis by simp
qed

lemma configure_zones:
  assumes "zones_agree db"
  shows "zones_agree (snd (configure scope lim tz now db))"
proof (cases "fst (configure scope lim tz now db)")
  case (Inl e)
  then have "snd (configure scope lim tz now db) = db"
    by (auto simp: configure_def split: sum.splits option.splits if_splits)
  with assms show ?thesis by simp
next
  case (Inr u)
  let ?cfg = "\<lparr>sc_limit = lim, sc_timezone = tz\<rparr>"
  note I = Inr [unfolded configure_def]
  obtain tenant where tenant: "load_tenant_config db (s_tenant scope) = Inr tenant"
    using I by (cases "load_tenant_config db (s_tenant scope)") (auto split: sum.splits if_splits)
  have tz: "\<forall>cfg. tenant = Some cfg \<longrightarrow> tcf_timezone cfg = tz"
    using I by (cases tenant) (auto simp: tenant split: sum.splits if_splits)
  have sib: "\<forall>z. sibling_sub_scope_timezone db (s_tenant scope) (Some scope) = Some z \<longrightarrow> z = tz"
    using I tz by (cases "sibling_sub_scope_timezone db (s_tenant scope) (Some scope)"; cases tenant)
      (auto simp: tenant split: sum.splits if_splits)
  have db': "snd (configure scope lim tz now db) = db\<lparr>t_budget_config := AList.update scope ?cfg (t_budget_config db)\<rparr>"
    using I unfolding configure_def by (auto simp: tenant split: sum.splits option.splits if_splits)
  have row: "tr_timezone row = tz" if "map_of (t_tenant_config db) (s_tenant scope) = Some row" for row
    using that tenant tz by (auto simp: load_tenant_config_def result_simps)
  have others: "sc_timezone c = tz" if "load_config db s = Some c" "s_tenant s = s_tenant scope" "s \<noteq> scope" for s c
    using sibling_zone [OF assms sib that(1,2)] that(3) by simp
  have load: "load_config (snd (configure scope lim tz now db)) s = (if s = scope then Some ?cfg else load_config db s)" for s
    by (simp add: db' load_config_def update_conv')
  have zone: "sc_timezone c = (if s_tenant s = s_tenant scope then tz else sc_timezone (the (load_config db s)))"
    if "(if s = scope then Some ?cfg else load_config db s) = Some c" for s c
    using that others by (auto split: if_splits)
  show ?thesis
  proof (rule zones_agreeI, unfold load)
    show "distinct (map fst (t_budget_config (snd (configure scope lim tz now db))))"
      using zones_agreeD(3) [OF assms] by (simp add: db' distinct_update)
  next
    fix s c s' c'
    assume c: "(if s = scope then Some ?cfg else load_config db s) = Some c"
      "(if s' = scope then Some ?cfg else load_config db s') = Some c'" "s_tenant s = s_tenant s'"
    then show "sc_timezone c = sc_timezone c'"
    proof (cases "s_tenant s = s_tenant scope")
      case True
      then show ?thesis using zone [OF c(1)] zone [OF c(2)] c(3) by simp
    next
      case False
      then have "load_config db s = Some c" "load_config db s' = Some c'" using c by (auto split: if_splits)
      then show ?thesis using c(3) by (rule zones_agreeD(1) [OF assms])
    qed
  next
    fix s c r
    assume c: "(if s = scope then Some ?cfg else load_config db s) = Some c"
      "map_of (t_tenant_config (snd (configure scope lim tz now db))) (s_tenant s) = Some r"
    show "tr_timezone r = sc_timezone c"
    proof (cases "s_tenant s = s_tenant scope")
      case True
      then show ?thesis using zone [OF c(1)] row c(2) by (simp add: db')
    next
      case False
      then have "load_config db s = Some c" "map_of (t_tenant_config db) (s_tenant s) = Some r"
        using c by (auto simp: db' split: if_splits)
      then show ?thesis by (rule zones_agreeD(2) [OF assms])
    qed
  qed
qed

lemma configure_tenant_zones:
  assumes "zones_agree db"
  shows "zones_agree (snd (configure_tenant t lim tz gate now db))"
proof (cases "fst (configure_tenant t lim tz gate now db)")
  case (Inl e)
  then have "snd (configure_tenant t lim tz gate now db) = db"
    by (auto simp: configure_tenant_def split: sum.splits option.splits if_splits)
  with assms show ?thesis by simp
next
  case (Inr u)
  then have db': "snd (configure_tenant t lim tz gate now db) = db\<lparr>t_tenant_config :=
       AList.update t \<lparr>tr_limit = lim, tr_timezone = tz, tr_gate = gate_as_sql gate\<rparr> (t_tenant_config db)\<rparr>"
    and sib: "\<forall>z. sibling_sub_scope_timezone db t None = Some z \<longrightarrow> z = tz"
    by (auto simp: configure_tenant_def split: sum.splits option.splits if_splits)
  have others: "sc_timezone c = tz" if "load_config db s = Some c" "s_tenant s = t" for s c
    using sibling_zone [OF assms sib that] by simp
  have load: "load_config (snd (configure_tenant t lim tz gate now db)) s = load_config db s" for s
    by (simp add: db' load_config_def)
  show ?thesis
  proof (rule zones_agreeI, unfold load)
    show "distinct (map fst (t_budget_config (snd (configure_tenant t lim tz gate now db))))"
      using zones_agreeD(3) [OF assms] by (simp add: db')
  next
    fix s c s' c'
    assume "load_config db s = Some c" "load_config db s' = Some c'" "s_tenant s = s_tenant s'"
    then show "sc_timezone c = sc_timezone c'" by (rule zones_agreeD(1) [OF assms])
  next
    fix s c r
    assume c: "load_config db s = Some c"
      "map_of (t_tenant_config (snd (configure_tenant t lim tz gate now db))) (s_tenant s) = Some r"
    show "tr_timezone r = sc_timezone c"
    proof (cases "s_tenant s = t")
      case True
      with c(2) have "tr_timezone r = tz" by (auto simp: db' update_conv')
      with others [OF c(1) True] show ?thesis by simp
    next
      case False
      with c(2) have "map_of (t_tenant_config db) (s_tenant s) = Some r" by (simp add: db' update_conv')
      with c(1) show ?thesis by (rule zones_agreeD(2) [OF assms])
    qed
  qed
qed

lemma map_of_filter_key: "map_of (filter (\<lambda>(k, v). P k) xs) k = (if P k then map_of xs k else None)"
  by (induction xs) auto

lemma distinct_filter_key: "distinct (map fst xs) \<Longrightarrow> distinct (map fst (filter P xs))"
  by (rule distinct_map_filter)

lemma retain_zones:
  assumes "zones_agree db"
  shows "zones_agree (snd (retain_tenants keep db))"
proof -
  define P where "P t \<longleftrightarrow> t \<notin> set (filter (\<lambda>t. t \<notin> set keep)
    (remdups (map fst (t_tenant_config db) @ map (s_tenant \<circ> fst) (t_budget_config db))))" for t
  have db': "snd (retain_tenants keep db) = db\<lparr>t_budget_config := filter (\<lambda>(s, _). P (s_tenant s)) (t_budget_config db),
      t_tenant_config := filter (\<lambda>(t, _). P t) (t_tenant_config db)\<rparr>"
    unfolding retain_tenants_def Let_def P_def by simp
  have "load_config (snd (retain_tenants keep db)) s = (if P (s_tenant s) then load_config db s else None)" for s
    using map_of_filter_key [of "\<lambda>s. P (s_tenant s)" "t_budget_config db" s] by (simp add: db' load_config_def)
  moreover have "map_of (t_tenant_config (snd (retain_tenants keep db))) t = (if P t then map_of (t_tenant_config db) t else None)" for t
    by (simp add: db' map_of_filter_key)
  moreover have "distinct (map fst (t_budget_config (snd (retain_tenants keep db))))"
    using zones_agreeD(3) [OF assms] by (simp add: db' distinct_filter_key)
  ultimately show ?thesis
    by (intro zones_agreeI) (auto split: if_splits dest: zones_agreeD(1,2) [OF assms])
qed

text \<open>
  All budgets of one tenant share one billing time zone, so its periods never disagree: every
  sequence of configuration calls, accepted or refused, from an empty ledger keeps the zone of each of
  its sub-budgets equal to every other and to the tenant's own.
\<close>

datatype config_op =
    Configure budget_scope int string int
  | ConfigureTenant string int string spend_gate int
  | RetainTenants "string list"

fun config_step :: "config_op \<Rightarrow> budget_db \<Rightarrow> budget_db" where
  "config_step (Configure s l z n) db = snd (configure s l z n db)"
| "config_step (ConfigureTenant t l z g n) db = snd (configure_tenant t l z g n db)"
| "config_step (RetainTenants keep) db = snd (retain_tenants keep db)"

theorem one_zone_per_tenant:
  "zones_agree (fold config_step ops empty_db)"
proof -
  have step: "zones_agree db \<Longrightarrow> zones_agree (config_step op db)" for db op
    by (cases op) (simp_all add: configure_zones configure_tenant_zones retain_zones)
  have run: "zones_agree db \<Longrightarrow> zones_agree (fold config_step ops db)" for db
    by (induction ops arbitrary: db) (simp_all add: step)
  have "zones_agree empty_db" by (intro zones_agreeI) (simp_all add: empty_db_def load_config_def)
  then show ?thesis by (rule run)
qed

section \<open>The read view as the specification of admission\<close>

lemma available_decides:
  assumes "0 < cost" "0 \<le> spent" "0 \<le> reserved" "lim \<le> i64_max" "gate = PaidOnly \<or> gate = GateAll"
  shows "exceeds_limit cost lim (checked_add_i64 spent reserved) gate
    \<longleftrightarrow> checked_sub_i64 (checked_sub_i64 lim spent) reserved < cost"
  using assms
  by (auto simp: exceeds_limit_def checked_sub_i64_def checked_add_i64_def clamp_i64_def i64_max_def i64_min_def
      min_def max_def split: if_splits)

text \<open>
  C33. The read view tells the truth about admission where the tenant's budget is the only one that applies. On a
  sound database, for a valid scope that has no budget of its own, of a tenant with a limit within \<open>i64\<close> and no
  pending amount overflow, a priced reservation with a fresh id, whose transaction ends before the reservation
  would lapse, is granted exactly when its cost is at most the view's available amount, and refused
  with the view's limit and committed amounts otherwise.
\<close>

theorem readview_decides_reserve:
  assumes "db_ok db" and "tenant_readview lib (s_tenant scope) (c_now clock) db = Inr v"
    and "rv_limit_minor v \<le> i64_max" and "load_config db scope = None" and "validate_scope scope = Inr ()"
    and "reject_amount_overflow db (s_tenant scope) None = Inr ()" and "uuid \<notin> set (map r_id (t_reservations db))"
    and "i64_range (c_now clock + ttl)" and "c_before_commit clock < c_now clock + ttl"
    and "c_after_commit clock < c_now clock + ttl" and "0 < cost"
  shows "fst (reserve_budget lib ttl clock uuid scope (Known cost) db) =
    (if cost \<le> rv_available_minor v then Inr uuid
     else Inl (exceeded (s_tenant scope) (rv_limit_minor v)
            (checked_add_i64 (rv_spent_minor v) (rv_reserved_minor v)) cost))"
proof -
  let ?t = "s_tenant scope"
  from assms(2) obtain cfg period where cfg: "load_tenant_config db ?t = Inr (Some cfg)"
    and period: "billing_period_key lib (c_now clock) (tcf_timezone cfg) = Inr period"
    and held: "tenant_active_reserved_for db ?t period (c_now clock) = Inr (rv_reserved_minor v)"
    and v: "rv_limit_minor v = tcf_limit cfg" "rv_spent_minor v = tenant_spent_for db ?t period"
      "rv_available_minor v = checked_sub_i64 (checked_sub_i64 (tcf_limit cfg) (tenant_spent_for db ?t period)) (rv_reserved_minor v)"
    by (auto simp: tenant_readview_def result_simps Let_def split: if_splits)
  let ?d = "sweep_expired_scope scope period (c_now clock) db"
  have ctx: "admission_context lib scope (c_now clock) db = Inr (None, Some cfg, period, period)"
    using assms(4,6) by (simp add: admission_context_def cfg period)
  have held': "tenant_active_reserved_for ?d ?t period (c_now clock) = Inr (rv_reserved_minor v)"
    using held unfolding tenant_active_reserved_eq held_sweep .
  have pos: "0 \<le> tenant_spent_for db ?t period" "0 \<le> rv_reserved_minor v"
    using tenant_spent_nonneg [OF assms(1)] tenant_held_nonneg [OF assms(1), of ?t period "c_now clock"] held
    by (auto simp: tenant_active_reserved_eq split: if_splits)
  have dec: "exceeds_limit cost (tcf_limit cfg) (checked_add_i64 (tenant_spent_for db ?t period) (rv_reserved_minor v)) (tcf_gate cfg)
      \<longleftrightarrow> rv_available_minor v < cost"
    unfolding v(3) using assms(3,11) pos by (intro available_decides) (auto simp: v(1) intro: spend_gate.exhaust)
  have lim: "check_limits scope cost (None, Some cfg, period, period) (c_now clock) ?d =
      Inr (if rv_available_minor v < cost then Some (exceeded ?t (rv_limit_minor v)
            (checked_add_i64 (rv_spent_minor v) (rv_reserved_minor v)) cost) else None)"
    using assms(11) dec by (simp add: check_limits_def gate_of_def check_dimension_def held' v Let_def)
  have ids: "\<not> list_ex (\<lambda>r. r_id r = uuid) (t_reservations ?d)"
    using assms(7) unfolding row_id_exists sweep_ids .
  have cost: "bind_result (validate_scope scope) (\<lambda>_. estimate (Known cost)) = Inr cost"
    using assms(5,11) by (simp add: estimate_def)
  have exp: "i64_checked (c_now clock + ttl) = Some (c_now clock + ttl)" using assms(8) by simp
  show ?thesis
    using assms(9,10)
    by (simp add: reserve_budget_def admit_def cost ctx lim exp insert_reservation_def ids
        check_reservation_deadline_def ok_or_def Let_def del: i64_checked_Some)
qed

theorem readview_decides_reserve_witness:
  "fst (reserve_budget one_month 100 (tick 1) ''b'' sample_scope (Known 5) held_six)
     = Inl (exceeded ''t'' 10 6 5)"
proof -
  let ?v = "\<lparr>rv_tenant_id = ''t'', rv_period = ''2026-09'', rv_limit_minor = 10, rv_spent_minor = 0,
    rv_reserved_minor = 6, rv_remaining_minor = 10, rv_available_minor = 4, rv_billing_timezone = ''UTC'',
    rv_scope = PaidOnly\<rparr>"
  have "tenant_readview one_month (s_tenant sample_scope) (c_now (tick 1)) held_six = Inr ?v"
    by (simp add: tenant_readview_def ledger_eval held_six_def)
  from readview_decides_reserve [OF sample_ok(2) this, of "''b''" 100 5] show ?thesis
    by (simp add: i64_max_def) (simp add: ledger_eval held_six_def)
qed

end
