(* ===== verification/Append_Only.thy ===== *)
theory Append_Only
  imports Prelude "HOL-Library.Sublist"
begin

text \<open>
  The contract of a store that only grows: an operation leaves the rows as they are, or adds one
  row at the end whose identity is new and which is \<open>good\<close>. The event log and the usage and
  audit records are both such stores.
\<close>

locale append_only =
  fixes rows :: "'s \<Rightarrow> 'r list" and ident :: "'r \<Rightarrow> 'k" and good :: "'r \<Rightarrow> bool"
    and add :: "'a \<Rightarrow> 's \<Rightarrow> 's"
  assumes add_rows: "rows (add a s) = rows s
    \<or> (\<exists>r. rows (add a s) = rows s @ [r] \<and> ident r \<notin> ident ` set (rows s) \<and> good r)"
begin

lemma add_prefix: "prefix (rows s) (rows (add a s))"
  using add_rows [of a s] by auto

lemma run_prefix: "prefix (rows s) (rows (fold add as s))"
  by (induction as arbitrary: s) (auto intro: prefix_order.trans [OF add_prefix])

lemma run_keeps: "r \<in> set (rows s) \<Longrightarrow> r \<in> set (rows (fold add as s))"
  using run_prefix [of s as] by (auto simp: prefix_def)

lemma add_distinct: "distinct (map ident (rows s)) \<Longrightarrow> distinct (map ident (rows (add a s)))"
  using add_rows [of a s] by auto

lemma run_distinct: "distinct (map ident (rows s)) \<Longrightarrow> distinct (map ident (rows (fold add as s)))"
  by (induction as arbitrary: s) (simp_all add: add_distinct)

lemma add_good: "list_all good (rows s) \<Longrightarrow> list_all good (rows (add a s))"
  using add_rows [of a s] by auto

lemma run_good: "list_all good (rows s) \<Longrightarrow> list_all good (rows (fold add as s))"
  by (induction as arbitrary: s) (simp_all add: add_good)

text \<open>An identity names the same row for ever.\<close>

lemma run_find:
  assumes "distinct (map ident (rows s))" "r \<in> set (rows s)" "r' \<in> set (rows (fold add as s))"
    and "ident r' = ident r"
  shows "r' = r"
  using run_distinct [OF assms(1), of as] run_keeps [OF assms(2), of as] assms(3,4)
  by (auto simp: distinct_map dest: inj_onD)

end

end
