(* ===== verification/Event_Log.thy ===== *)
theory Event_Log
  imports Json Append_Only "HOL-Library.Product_Lexorder"
begin

text \<open>
  The event log (\<^verbatim>\<open>crates/idoris-tenancy/src/event_log/mod.rs\<close>): an append-only table of request
  metadata. A row is \<open>raw_event\<close>, with the texts the table holds; the sequence counter of the
  \<open>AUTOINCREMENT\<close> key is kept beside the rows. The \<^verbatim>\<open>uuid\<close> and \<^verbatim>\<open>serde_json\<close> crates
  are a record of functions. The schema check of \<open>migrate\<close>, the poisoned mutex and other faults
  of the database file are not modelled.
\<close>

section \<open>Events\<close>

definition MAX_STRING_UTF16_UNITS :: nat where "MAX_STRING_UTF16_UNITS = 500"
definition MAX_ARRAY_ITEMS :: nat where "MAX_ARRAY_ITEMS = 32"

definition SCALAR_KEYS :: string where
  "SCALAR_KEYS = ''component,intent,privacy,tier,provider_id,model_id,tokens_in,tokens_out,token_estimator,cost_minor,latency_ms,status,http_status,reason,rule_id,served_locality,degraded,cached,reserved_minor,settled_minor,price_version,rating,outcome,failure_mode,sensitivity,training_eligible''"

definition ARRAY_KEYS :: string where "ARRAY_KEYS = ''reason_codes,labels''"

definition OBJECT_ARRAY_KEYS :: string where "OBJECT_ARRAY_KEYS = ''rubric''"

definition CONTENT_KEYS :: string where
  "CONTENT_KEYS = ''prompt,prompts,input,inputs,content,contents,text,texts,body,messages,message,response,responses,output,outputs,completion,completions,corrected_output,query,answer,raw,data''"

datatype event_type =
    RequestReceived | Inspected | Profiled | Decided | BudgetReserved | Dispatched
  | StreamStarted | StreamChunk | StreamCompleted | Completed
  | BudgetSettled | AuditFinalized | FeedbackReceived

primrec event_type_as_str :: "event_type \<Rightarrow> string" where
  "event_type_as_str RequestReceived = ''request.received''"
| "event_type_as_str Inspected = ''inspected''"
| "event_type_as_str Profiled = ''profiled''"
| "event_type_as_str Decided = ''decided''"
| "event_type_as_str BudgetReserved = ''budget.reserved''"
| "event_type_as_str Dispatched = ''dispatched''"
| "event_type_as_str StreamStarted = ''stream.started''"
| "event_type_as_str StreamChunk = ''stream.chunk''"
| "event_type_as_str StreamCompleted = ''stream.completed''"
| "event_type_as_str Completed = ''completed''"
| "event_type_as_str BudgetSettled = ''budget.settled''"
| "event_type_as_str AuditFinalized = ''audit.finalized''"
| "event_type_as_str FeedbackReceived = ''feedback.received''"

datatype event_log_error =
    ScopeRequired | EventTenantMismatch | InvalidEventId | InvalidRecordId | InvalidLimit
  | InvalidIdentifier string | InvalidTimestamp | UnknownEventType | IdempotencyConflict
  | InvalidMetadata string | Sql string | JsonError

definition event_types :: "event_type list" where
  "event_types = [RequestReceived, Inspected, Profiled, Decided, BudgetReserved, Dispatched,
     StreamStarted, StreamChunk, StreamCompleted, Completed, BudgetSettled, AuditFinalized, FeedbackReceived]"

definition parse_event_type :: "string \<Rightarrow> event_log_error + event_type" where
  "parse_event_type value = ok_or UnknownEventType (find (\<lambda>t. event_type_as_str t = value) event_types)"

record new_event =
  event_id :: string
  ev_tenant :: string
  ev_record :: string
  event_type :: event_type
  ts_utc_ms :: int
  request_id :: "string option"
  session_id :: "string option"
  trace_id :: "string option"
  parent_id :: "string option"
  origin_record_id :: "string option"
  metadata :: json_map

record event_log_event =
  sequence :: nat
  event :: new_event

record event_log_query =
  from_ts :: "int option"
  to_ts :: "int option"
  q_record :: "string option"
  limit :: u64

text \<open>What the log takes from the \<^verbatim>\<open>uuid\<close> and \<^verbatim>\<open>serde_json\<close> crates.\<close>

record event_lib =
  uuid_version :: "string \<Rightarrow> nat option"
  json_text :: "json_map \<Rightarrow> string"
  json_read :: "string \<Rightarrow> json_map option"

section \<open>Validation\<close>

definition key_in :: "string \<Rightarrow> string \<Rightarrow> bool" where
  "key_in list key = list_ex (\<lambda>candidate. candidate = key) (split_char (CHR '','') list)"

definition valid_string :: "string \<Rightarrow> bool" where
  "valid_string text \<longleftrightarrow> utf16_len text \<le> MAX_STRING_UTF16_UNITS \<and> \<not> list_ex is_control (chars text)"

definition rubric_item_ok :: "json \<Rightarrow> bool" where
  "rubric_item_ok item = (case as_object item of
      None \<Rightarrow> False
    | Some obj \<Rightarrow> length obj = 2
        \<and> (case Option.bind (map_of obj ''id'') as_str of
             None \<Rightarrow> False | Some id' \<Rightarrow> \<not> is_blank id' \<and> valid_string id')
        \<and> (case map_of obj ''pass'' of None \<Rightarrow> False | Some v \<Rightarrow> is_boolean v))"

definition array_of :: "(json \<Rightarrow> bool) \<Rightarrow> json \<Rightarrow> bool" where
  "array_of p v = (case as_array v of
      None \<Rightarrow> False | Some items \<Rightarrow> length items \<le> MAX_ARRAY_ITEMS \<and> list_all p items)"

definition string_item_ok :: "json \<Rightarrow> bool" where
  "string_item_ok v = (case as_str v of None \<Rightarrow> False | Some s \<Rightarrow> valid_string s)"

definition scalar_ok :: "json \<Rightarrow> bool" where
  "scalar_ok v \<longleftrightarrow> as_array v = None \<and> as_object v = None
     \<and> (case as_str v of None \<Rightarrow> True | Some s \<Rightarrow> valid_string s)"

definition entry_ok :: "string \<Rightarrow> json \<Rightarrow> bool" where
  "entry_ok key v \<longleftrightarrow>
     \<not> (key_in CONTENT_KEYS key
        \<or> \<not> key_in SCALAR_KEYS key \<and> \<not> key_in ARRAY_KEYS key \<and> \<not> key_in OBJECT_ARRAY_KEYS key)
     \<and> (if key_in OBJECT_ARRAY_KEYS key then array_of rubric_item_ok v
        else if key_in ARRAY_KEYS key then array_of string_item_ok v
        else scalar_ok v)"

fun validate_metadata :: "json_map \<Rightarrow> event_log_error + unit" where
  "validate_metadata [] = Inr ()"
| "validate_metadata ((key, v) # m) =
     (if entry_ok key v then validate_metadata m else Inl (InvalidMetadata key))"

definition validate_id :: "string \<Rightarrow> string \<Rightarrow> event_log_error + unit" where
  "validate_id field value =
     (if is_blank value \<or> 128 < utf16_len value \<or> list_ex is_control (chars value)
      then Inl (InvalidIdentifier field) else Inr ())"

fun validate_optional_ids :: "(string \<times> string option) list \<Rightarrow> event_log_error + unit" where
  "validate_optional_ids [] = Inr ()"
| "validate_optional_ids ((name, None) # ids) = validate_optional_ids ids"
| "validate_optional_ids ((name, Some value) # ids) =
     bind_result (validate_id name value) (\<lambda>_. validate_optional_ids ids)"

definition validate_stored_event :: "event_lib \<Rightarrow> new_event \<Rightarrow> event_log_error + unit" where
  "validate_stored_event lib e =
     (case uuid_version lib (event_id e) of
        None \<Rightarrow> Inl InvalidEventId
      | Some v \<Rightarrow>
        if v \<noteq> 4 then Inl InvalidEventId
        else bind_result (validate_id ''tenant_id'' (ev_tenant e)) (\<lambda>_.
          if is_blank (ev_record e) then Inl InvalidRecordId
          else bind_result (validate_id ''record_id'' (ev_record e)) (\<lambda>_.
            bind_result (validate_optional_ids
              [(''request_id'', request_id e), (''session_id'', session_id e), (''trace_id'', trace_id e),
               (''parent_id'', parent_id e), (''origin_record_id'', origin_record_id e)]) (\<lambda>_.
            if ts_utc_ms e < 0 then Inl InvalidTimestamp else validate_metadata (metadata e)))))"

definition validate_event :: "event_lib \<Rightarrow> string \<Rightarrow> new_event \<Rightarrow> event_log_error + unit" where
  "validate_event lib scope e =
     (if ev_tenant e \<noteq> scope then Inl EventTenantMismatch else validate_stored_event lib e)"

definition required_scope :: "string option \<Rightarrow> event_log_error + string" where
  "required_scope scope =
     (case scope of
        None \<Rightarrow> Inl ScopeRequired
      | Some s \<Rightarrow> if is_blank s then Inl ScopeRequired
                  else bind_result (validate_id ''tenant_id'' s) (\<lambda>_. Inr s))"

section \<open>The table\<close>

record raw_event =
  rw_sequence :: nat
  rw_event_id :: string
  rw_tenant :: string
  rw_record :: string
  rw_type :: string
  rw_ts :: int
  rw_request :: "string option"
  rw_session :: "string option"
  rw_trace :: "string option"
  rw_parent :: "string option"
  rw_origin :: "string option"
  rw_metadata :: string

record event_log =
  el_rows :: "raw_event list"
  el_last :: nat

definition event_log_new :: event_log where
  "event_log_new = \<lparr>el_rows = [], el_last = 0\<rparr>"

definition raw_of :: "event_lib \<Rightarrow> string \<Rightarrow> new_event \<Rightarrow> nat \<Rightarrow> raw_event" where
  "raw_of lib scope e n =
     \<lparr>rw_sequence = n, rw_event_id = event_id e, rw_tenant = scope, rw_record = ev_record e,
      rw_type = event_type_as_str (event_type e), rw_ts = ts_utc_ms e, rw_request = request_id e,
      rw_session = session_id e, rw_trace = trace_id e, rw_parent = parent_id e,
      rw_origin = origin_record_id e, rw_metadata = json_text lib (metadata e)\<rparr>"

definition decode :: "event_lib \<Rightarrow> raw_event \<Rightarrow> event_log_error + event_log_event" where
  "decode lib raw =
     bind_result (parse_event_type (rw_type raw)) (\<lambda>t.
     bind_result (ok_or JsonError (json_read lib (rw_metadata raw))) (\<lambda>m.
     let e = \<lparr>event_id = rw_event_id raw, ev_tenant = rw_tenant raw, ev_record = rw_record raw,
              event_type = t, ts_utc_ms = rw_ts raw, request_id = rw_request raw, session_id = rw_session raw,
              trace_id = rw_trace raw, parent_id = rw_parent raw, origin_record_id = rw_origin raw, metadata = m\<rparr>
     in bind_result (validate_stored_event lib e) (\<lambda>_. Inr \<lparr>sequence = rw_sequence raw, event = e\<rparr>)))"

definition load_by_id :: "event_lib \<Rightarrow> event_log \<Rightarrow> string \<Rightarrow> event_log_error + event_log_event option" where
  "load_by_id lib L i =
     (case find (\<lambda>r. rw_event_id r = i) (el_rows L) of
        None \<Rightarrow> Inr None
      | Some raw \<Rightarrow> bind_result (decode lib raw) (\<lambda>e. Inr (Some e)))"

text \<open>\<open>==\<close> on events: the metadata by the equality of JSON values.\<close>

definition event_eq :: "new_event \<Rightarrow> new_event \<Rightarrow> bool" where
  "event_eq a b \<longleftrightarrow> a\<lparr>metadata := []\<rparr> = b\<lparr>metadata := []\<rparr> \<and> fields_eq (metadata a) (metadata b)"

definition max_sequence :: nat where "max_sequence = 2 ^ 63 - 1"

definition append_event ::
    "event_lib \<Rightarrow> string option \<Rightarrow> new_event \<Rightarrow> event_log \<Rightarrow> (event_log_error + nat) \<times> event_log" where
  "append_event lib scope e L =
     (case required_scope scope of Inl err \<Rightarrow> (Inl err, L) | Inr s \<Rightarrow>
      case validate_event lib s e of Inl err \<Rightarrow> (Inl err, L) | Inr _ \<Rightarrow>
      case load_by_id lib L (event_id e) of
        Inl err \<Rightarrow> (Inl err, L)
      | Inr (Some existing) \<Rightarrow>
          (if event_eq (event existing) e then Inr (sequence existing) else Inl IdempotencyConflict, L)
      | Inr None \<Rightarrow>
          if el_last L = max_sequence then (Inl (Sql ''database or disk is full''), L)
          else let n = el_last L + 1
               in (Inr n, \<lparr>el_rows = el_rows L @ [raw_of lib s e n], el_last = n\<rparr>))"

section \<open>Queries\<close>

definition events_for_record ::
    "event_lib \<Rightarrow> string option \<Rightarrow> string \<Rightarrow> event_log \<Rightarrow> event_log_error + event_log_event list" where
  "events_for_record lib scope record_id L =
     bind_result (required_scope scope) (\<lambda>s.
     if is_blank record_id then Inl InvalidRecordId
     else bind_result (validate_id ''record_id'' record_id) (\<lambda>_.
       collect_results (decode lib)
         (sort_key rw_sequence (filter (\<lambda>r. rw_tenant r = s \<and> rw_record r = record_id) (el_rows L)))))"

definition query_limit :: "event_log_query \<Rightarrow> event_log_error + nat" where
  "query_limit q =
     bind_result (case q_record q of
         None \<Rightarrow> Inr ()
       | Some i \<Rightarrow> if is_blank i then Inl InvalidRecordId else validate_id ''record_id'' i) (\<lambda>_.
     if 2 ^ 63 \<le> unat (limit q) then Inl InvalidLimit
     else if limit q = 0 then Inl InvalidLimit else Inr (unat (limit q)))"

definition in_query :: "event_log_query \<Rightarrow> raw_event \<Rightarrow> bool" where
  "in_query q r \<longleftrightarrow> (case from_ts q of None \<Rightarrow> True | Some t \<Rightarrow> t \<le> rw_ts r)
     \<and> (case to_ts q of None \<Rightarrow> True | Some t \<Rightarrow> rw_ts r < t)
     \<and> (case q_record q of None \<Rightarrow> True | Some i \<Rightarrow> rw_record r = i)"

definition events_for_tenant ::
    "event_lib \<Rightarrow> string option \<Rightarrow> event_log_query \<Rightarrow> event_log \<Rightarrow> event_log_error + event_log_event list" where
  "events_for_tenant lib scope q L =
     bind_result (required_scope scope) (\<lambda>s.
     bind_result (query_limit q) (\<lambda>n.
       collect_results (decode lib)
         (take n (sort_key rw_sequence (filter (\<lambda>r. rw_tenant r = s \<and> in_query q r) (el_rows L))))))"

text \<open>A row is superseded by a later one of the same tenant, record and type, whatever its time.\<close>

definition superseded :: "event_log \<Rightarrow> raw_event \<Rightarrow> bool" where
  "superseded L r = list_ex (\<lambda>later. rw_tenant later = rw_tenant r \<and> rw_record later = rw_record r
     \<and> rw_type later = rw_type r \<and> rw_sequence r < rw_sequence later) (el_rows L)"

definition events_for_tenant_type ::
    "event_lib \<Rightarrow> string option \<Rightarrow> event_type \<Rightarrow> event_log_query \<Rightarrow> event_log
     \<Rightarrow> event_log_error + event_log_event list" where
  "events_for_tenant_type lib scope t q L =
     bind_result (required_scope scope) (\<lambda>s.
     bind_result (query_limit q) (\<lambda>n.
       collect_results (decode lib)
         (take n (sort_key (\<lambda>r. (rw_ts r, rw_record r, rw_sequence r))
           (filter (\<lambda>r. rw_tenant r = s \<and> rw_type r = event_type_as_str t \<and> in_query q r \<and> \<not> superseded L r)
             (el_rows L))))))"

section \<open>The log as an append-only store\<close>

text \<open>What is stored of an event: the row of a validated event of its own tenant.\<close>

definition good_row :: "event_lib \<Rightarrow> raw_event \<Rightarrow> bool" where
  "good_row lib r \<longleftrightarrow> (\<exists>e. validate_stored_event lib e = Inr () \<and> r = raw_of lib (ev_tenant e) e (rw_sequence r))"

definition append_step :: "event_lib \<Rightarrow> string option \<times> new_event \<Rightarrow> event_log \<Rightarrow> event_log" where
  "append_step lib a L = snd (append_event lib (fst a) (snd a) L)"

lemma log_scopeD: "required_scope scope = Inr s \<Longrightarrow> scope = Some s"
  by (auto simp: required_scope_def result_simps split: option.splits if_splits)

lemma validate_eventD: "validate_event lib s e = Inr u \<Longrightarrow> ev_tenant e = s \<and> validate_stored_event lib e = Inr ()"
  by (cases u) (auto simp: validate_event_def split: if_splits)

lemma load_by_id_None: "load_by_id lib L i = Inr None \<longleftrightarrow> find (\<lambda>r. rw_event_id r = i) (el_rows L) = None"
  by (auto simp: load_by_id_def result_simps split: option.splits)

lemma append_cases:
  "snd (append_event lib scope e L) = L
   \<or> scope = Some (ev_tenant e) \<and> validate_stored_event lib e = Inr ()
     \<and> find (\<lambda>r. rw_event_id r = event_id e) (el_rows L) = None
     \<and> append_event lib scope e L
         = (Inr (el_last L + 1), \<lparr>el_rows = el_rows L @ [raw_of lib (ev_tenant e) e (el_last L + 1)], el_last = el_last L + 1\<rparr>)"
proof (cases "required_scope scope")
  case (Inr s)
  note scope = Inr
  show ?thesis
  proof (cases "validate_event lib s e")
    case (Inr u)
    with scope show ?thesis
      by (cases "load_by_id lib L (event_id e)")
        (auto simp: append_event_def Let_def load_by_id_None split: option.splits
          dest: validate_eventD log_scopeD)
  qed (simp add: append_event_def scope)
qed (simp add: append_event_def)

lemma raw_of_simps [simp]:
  "rw_sequence (raw_of lib s e n) = n" "rw_event_id (raw_of lib s e n) = event_id e"
  "rw_tenant (raw_of lib s e n) = s" "rw_record (raw_of lib s e n) = ev_record e"
  "rw_type (raw_of lib s e n) = event_type_as_str (event_type e)" "rw_ts (raw_of lib s e n) = ts_utc_ms e"
  "rw_metadata (raw_of lib s e n) = json_text lib (metadata e)"
  by (simp_all add: raw_of_def)

lemma append_step_cases:
  "append_step lib a L = L
   \<or> (\<exists>e. validate_stored_event lib e = Inr () \<and> event_id e \<notin> rw_event_id ` set (el_rows L)
        \<and> append_step lib a L = \<lparr>el_rows = el_rows L @ [raw_of lib (ev_tenant e) e (el_last L + 1)], el_last = el_last L + 1\<rparr>)"
  unfolding append_step_def using append_cases [of lib "fst a" "snd a" L]
  by (auto simp: find_None_iff intro!: exI [of _ "snd a"])

interpretation log: append_only el_rows rw_event_id "good_row lib" "append_step lib" for lib
proof
  fix a L
  show "el_rows (append_step lib a L) = el_rows L
    \<or> (\<exists>r. el_rows (append_step lib a L) = el_rows L @ [r]
         \<and> rw_event_id r \<notin> rw_event_id ` set (el_rows L) \<and> good_row lib r)"
    using append_step_cases [of lib a L] by (auto simp: good_row_def)
qed

lemma parse_event_type_as_str [simp]: "parse_event_type (event_type_as_str t) = Inr t"
  by (cases t) (simp_all add: parse_event_type_def event_types_def ok_or_def)

text \<open>Ids are unique, sequence numbers grow along the rows, and the counter is never behind.\<close>

definition log_wf :: "event_log \<Rightarrow> bool" where
  "log_wf L \<longleftrightarrow> distinct (map rw_event_id (el_rows L)) \<and> sorted_wrt (<) (map rw_sequence (el_rows L))
     \<and> (\<forall>r \<in> set (el_rows L). 0 < rw_sequence r \<and> rw_sequence r \<le> el_last L)"

lemma log_wf_new: "log_wf event_log_new"
  by (simp add: log_wf_def event_log_new_def)

lemma append_step_wf: "log_wf L \<Longrightarrow> log_wf (append_step lib a L)"
  using append_step_cases [of lib a L]
  by (auto simp: log_wf_def sorted_wrt_append less_Suc_eq_le le_SucI)

lemma log_run_wf: "log_wf L \<Longrightarrow> log_wf (fold (append_step lib) as L)"
  by (induction as arbitrary: L) (simp_all add: append_step_wf)

text \<open>The metadata of the event survives being written and read, and is equal to itself.\<close>

definition metadata_stable :: "event_lib \<Rightarrow> new_event \<Rightarrow> bool" where
  "metadata_stable lib e \<longleftrightarrow> json_read lib (json_text lib (metadata e)) = Some (metadata e)
     \<and> fields_eq (metadata e) (metadata e)"

lemma decode_raw_of:
  assumes "validate_stored_event lib e = Inr ()" "json_read lib (json_text lib (metadata e)) = Some (metadata e)"
  shows "decode lib (raw_of lib (ev_tenant e) e n) = Inr \<lparr>sequence = n, event = e\<rparr>"
  using assms by (cases e) (simp add: decode_def raw_of_def ok_or_def)

lemma decode_fields:
  "decode lib r = Inr x \<Longrightarrow> sequence x = rw_sequence r \<and> event_id (event x) = rw_event_id r
     \<and> ev_tenant (event x) = rw_tenant r \<and> ev_record (event x) = rw_record r
     \<and> parse_event_type (rw_type r) = Inr (event_type (event x))"
  by (auto simp: decode_def result_simps Let_def)

section \<open>Properties\<close>

lemma accepted_stored:
  assumes "append_event lib scope e L = (Inr n, L')"
  shows "\<exists>r \<in> set (el_rows L'). rw_event_id r = event_id e \<and> rw_sequence r = n"
proof -
  from assms obtain s where s: "required_scope scope = Inr s" "validate_event lib s e = Inr ()"
    by (auto simp: append_event_def split: sum.splits)
  show ?thesis
  proof (cases "find (\<lambda>r. rw_event_id r = event_id e) (el_rows L)")
    case None
    with assms s show ?thesis
      by (auto simp: append_event_def load_by_id_def Let_def split: if_splits)
  next
    case (Some raw)
    with s assms obtain x where "decode lib raw = Inr x"
      by (cases "decode lib raw") (simp_all add: append_event_def load_by_id_def)
    with Some s assms have "L' = L" "n = rw_sequence raw"
      by (auto simp: append_event_def load_by_id_def dest: decode_fields split: if_splits)
    moreover from Some have "raw \<in> set (el_rows L)" "rw_event_id raw = event_id e"
      by (auto simp: find_Some_iff)
    ultimately have "raw \<in> set (el_rows L') \<and> rw_event_id raw = event_id e \<and> rw_sequence raw = n" by simp
    then show ?thesis by blast
  qed
qed

text \<open>
  C28. The event log only grows. Let it have taken any events from empty, and then take any further ones:
  the earlier rows stay as they are and where they are; event ids are unique and sequence numbers
  grow along the rows; every row is what is stored of an event that passed the validation; and an
  append that was answered with a number has its event's row, under that number, then and ever after.
\<close>

theorem event_log_append_only:
  "let L = fold (append_step lib) as event_log_new; M = fold (append_step lib) bs L in
     prefix (el_rows L) (el_rows M)
     \<and> distinct (map rw_event_id (el_rows M)) \<and> sorted_wrt (<) (map rw_sequence (el_rows M))
     \<and> list_all (\<lambda>r. \<exists>e. validate_stored_event lib e = Inr () \<and> r = raw_of lib (ev_tenant e) e (rw_sequence r))
         (el_rows M)
     \<and> (append_event lib scope e L = (Inr n, L') \<longrightarrow>
          list_ex (\<lambda>r. rw_event_id r = event_id e \<and> rw_sequence r = n) (el_rows (fold (append_step lib) bs L')))"
proof -
  let ?L = "fold (append_step lib) as event_log_new" and ?run = "fold (append_step lib) bs"
  have "log_wf (?run ?L)" by (intro log_run_wf log_wf_new)
  moreover have "list_all (good_row lib) (el_rows (?run ?L))"
    by (intro log.run_good) (simp add: event_log_new_def)
  moreover have "list_ex (\<lambda>r. rw_event_id r = event_id e \<and> rw_sequence r = n) (el_rows (?run L'))"
    if "append_event lib scope e ?L = (Inr n, L')"
    using accepted_stored [OF that] log.run_keeps [of _ L' lib bs] by (auto simp: list_ex_iff)
  ultimately show ?thesis
    using log.run_prefix [of ?L lib bs] unfolding Let_def log_wf_def good_row_def by blast
qed

lemma find_append: "find p (xs @ ys) = (case find p xs of None \<Rightarrow> find p ys | Some x \<Rightarrow> Some x)"
  by (induction xs) auto

lemma find_prefix: "find p xs = Some y \<Longrightarrow> prefix xs zs \<Longrightarrow> find p zs = Some y"
  by (auto simp: prefix_def find_append)

text \<open>Where an event of that id is stored, an append of the id changes nothing.\<close>

lemma append_present:
  assumes "find (\<lambda>r. rw_event_id r = event_id e) (el_rows L) = Some raw"
  shows "snd (append_event lib scope e L) = L"
  using append_cases [of lib scope e L] assms by auto

lemma append_okE:
  assumes "append_event lib scope e L = (Inr n, L1)" and "metadata_stable lib e"
  obtains s raw x where "required_scope scope = Inr s" "validate_event lib s e = Inr ()"
    "find (\<lambda>r. rw_event_id r = event_id e) (el_rows L1) = Some raw" "decode lib raw = Inr x"
    "sequence x = n" "event_eq (event x) e"
proof -
  from assms(1) obtain s where s: "required_scope scope = Inr s" "validate_event lib s e = Inr ()"
    by (auto simp: append_event_def split: sum.splits)
  show thesis
  proof (cases "find (\<lambda>r. rw_event_id r = event_id e) (el_rows L)")
    case None
    with assms(1) s have n: "n = el_last L + 1" "el_rows L1 = el_rows L @ [raw_of lib s e n]"
      by (auto simp: append_event_def load_by_id_def Let_def split: if_splits)
    from s have e: "ev_tenant e = s" "validate_stored_event lib e = Inr ()" by (auto dest: validate_eventD)
    have "decode lib (raw_of lib s e n) = Inr \<lparr>sequence = n, event = e\<rparr>"
      using decode_raw_of [OF e(2)] e(1) assms(2) by (simp add: metadata_stable_def)
    moreover have "find (\<lambda>r. rw_event_id r = event_id e) (el_rows L1) = Some (raw_of lib s e n)"
      using None by (simp add: n find_append)
    ultimately show thesis
      using that [OF s] assms(2) by (simp add: event_eq_def metadata_stable_def)
  next
    case (Some raw)
    with s assms(1) obtain x where x: "decode lib raw = Inr x"
      by (cases "decode lib raw") (simp_all add: append_event_def load_by_id_def)
    with Some s assms(1) show thesis
      by (intro that [OF s, of raw x]) (auto simp: append_event_def load_by_id_def split: if_splits)
  qed
qed

text \<open>
  Appending is idempotent: once an event is accepted with a sequence number, appending it again,
  after any other traffic, answers the same number and stores nothing, and no other event can be
  stored under its id. The metadata must survive being written and read back as JSON.
\<close>

theorem event_replay_idempotent:
  assumes "append_event lib scope e L = (Inr n, L1)" and "metadata_stable lib e"
    and "L2 = fold (append_step lib) as L1"
  shows "append_event lib scope e L2 = (Inr n, L2)
    \<and> (event_id e' = event_id e \<longrightarrow> snd (append_event lib scope' e' L2) = L2)"
proof -
  from append_okE [OF assms(1,2)] obtain s raw x where
    s: "required_scope scope = Inr s" "validate_event lib s e = Inr ()"
    and raw: "find (\<lambda>r. rw_event_id r = event_id e) (el_rows L1) = Some raw"
    and x: "decode lib raw = Inr x" "sequence x = n" "event_eq (event x) e" .
  have found: "find (\<lambda>r. rw_event_id r = event_id e) (el_rows L2) = Some raw"
    using find_prefix [OF raw] log.run_prefix unfolding assms(3) by blast
  with s x have "append_event lib scope e L2 = (Inr n, L2)"
    by (simp add: append_event_def load_by_id_def)
  with found append_present show ?thesis by metis
qed

text \<open>The strings inside a value, object keys included.\<close>

fun strings_in :: "json \<Rightarrow> string list"
  and strings_in_items :: "json list \<Rightarrow> string list"
  and strings_in_fields :: "json_map \<Rightarrow> string list" where
  "strings_in (JStr s) = [s]"
| "strings_in (JArr xs) = strings_in_items xs"
| "strings_in (JObj m) = strings_in_fields m"
| "strings_in _ = []"
| "strings_in_items [] = []"
| "strings_in_items (x # xs) = strings_in x @ strings_in_items xs"
| "strings_in_fields [] = []"
| "strings_in_fields ((k, x) # m) = k # strings_in x @ strings_in_fields m"

definition small_strings :: "nat \<Rightarrow> json \<Rightarrow> bool" where
  "small_strings n v \<longleftrightarrow> length (strings_in v) \<le> n \<and> list_all valid_string (strings_in v)"

lemma valid_names: "valid_string ''id''" "valid_string ''pass''"
  by (simp_all add: valid_string_def utf16_len_def chars_def MAX_STRING_UTF16_UNITS_def is_control_def)

lemma rubric_item_strings: "rubric_item_ok v \<Longrightarrow> small_strings 3 v"
proof -
  assume ok: "rubric_item_ok v"
  then obtain obj where v: "v = JObj obj" "length obj = 2"
    by (cases v) (auto simp: rubric_item_ok_def)
  then obtain a x b y where obj: "obj = [(a, x), (b, y)]"
    by (auto simp: length_Suc_conv numeral_2_eq_2)
  show ?thesis
    using ok unfolding v(1) obj
    by (cases x; cases y)
      (auto simp: rubric_item_ok_def small_strings_def valid_names split: if_splits option.splits)
qed

lemma string_item_strings: "string_item_ok v \<Longrightarrow> small_strings 3 v"
  by (cases v) (auto simp: string_item_ok_def small_strings_def)

lemma array_strings:
  assumes "array_of p v" and p: "\<And>x. p x \<Longrightarrow> small_strings 3 x"
  shows "small_strings 96 v"
proof -
  from assms(1) obtain xs where v: "v = JArr xs" "length xs \<le> 32" "list_all p xs"
    by (cases v) (auto simp: array_of_def MAX_ARRAY_ITEMS_def)
  from v(3) have "length (strings_in_items xs) \<le> 3 * length xs \<and> list_all valid_string (strings_in_items xs)"
    by (induction xs) (auto simp: small_strings_def dest!: p)
  with v show ?thesis by (auto simp: small_strings_def)
qed

lemma scalar_strings: "scalar_ok v \<Longrightarrow> small_strings 96 v"
  by (cases v) (auto simp: scalar_ok_def small_strings_def)

lemma entry_strings: "entry_ok k v \<Longrightarrow> small_strings 96 v"
  by (auto simp: entry_ok_def intro: array_strings rubric_item_strings string_item_strings scalar_strings
      split: if_splits)

lemma validate_metadata_ok: "validate_metadata m = Inr u \<longleftrightarrow> list_all (\<lambda>(k, v). entry_ok k v) m"
  by (induction m rule: validate_metadata.induct) auto

lemma validated_metadata: "validate_stored_event lib e = Inr u \<Longrightarrow> list_all (\<lambda>(k, v). entry_ok k v) (metadata e)"
  by (auto simp: validate_stored_event_def result_simps validate_metadata_ok split: option.splits if_splits)

text \<open>The names under which a request or an answer would travel.\<close>

definition content_names :: "string list" where
  "content_names = [''prompt'', ''prompts'', ''input'', ''inputs'', ''content'', ''contents'', ''text'', ''texts'',
     ''body'', ''messages'', ''message'', ''response'', ''responses'', ''output'', ''outputs'', ''completion'',
     ''completions'', ''corrected_output'', ''query'', ''answer'', ''raw'', ''data'']"

lemma content_names_split: "split_char (CHR '','') CONTENT_KEYS = content_names"
  by (simp add: CONTENT_KEYS_def content_names_def)

text \<open>
  C36. The event log holds no request content: in a log grown from the empty one, the metadata of every
  row is a map none of whose keys is a content name, and whose values hold at most 96 strings each,
  all of at most 500 UTF-16 units and free of control characters, at any depth.
\<close>

theorem event_log_holds_no_content:
  "list_all (\<lambda>r. \<exists>m. rw_metadata r = json_text lib m
       \<and> list_all (\<lambda>(k, v). k \<notin> set content_names \<and> small_strings 96 v) m)
     (el_rows (fold (append_step lib) as event_log_new))"
proof -
  have "list_all (good_row lib) (el_rows (fold (append_step lib) as event_log_new))"
    by (rule log.run_good) (simp add: event_log_new_def)
  then show ?thesis
  proof (rule list.pred_mono_strong)
    fix r assume "good_row lib r"
    then obtain e where e: "validate_stored_event lib e = Inr ()" "rw_metadata r = json_text lib (metadata e)"
      by (metis good_row_def raw_of_simps(7))
    have "list_all (\<lambda>(k, v). k \<notin> set content_names \<and> small_strings 96 v) (metadata e)"
      using validated_metadata [OF e(1)]
      by (auto simp: list_all_iff key_in_def list_ex_iff content_names_split entry_strings)
        (auto simp: entry_ok_def key_in_def list_ex_iff content_names_split)
    with e(2) show "\<exists>m. rw_metadata r = json_text lib m
       \<and> list_all (\<lambda>(k, v). k \<notin> set content_names \<and> small_strings 96 v) m" by blast
  qed
qed

section \<open>Reading\<close>

lemma run_stored:
  assumes "list_all (\<lambda>a. metadata_stable lib (snd a)) as" and "r \<in> set (el_rows (fold (append_step lib) as L))"
  shows "r \<in> set (el_rows L) \<or> (\<exists>x. decode lib r = Inr x)"
  using assms
proof (induction as arbitrary: L)
  case (Cons a as)
  then have "r \<in> set (el_rows (append_step lib a L)) \<or> (\<exists>x. decode lib r = Inr x)" by simp
  then show ?case
  proof
    assume r: "r \<in> set (el_rows (append_step lib a L))"
    have "decode lib (raw_of lib (ev_tenant (snd a)) (snd a) n) = Inr \<lparr>sequence = n, event = snd a\<rparr>"
      if "validate_stored_event lib (snd a) = Inr ()" for n
      using decode_raw_of [OF that] Cons.prems(1) by (simp add: metadata_stable_def)
    with r append_cases [of lib "fst a" "snd a" L] show ?thesis
      by (auto simp: append_step_def)
  qed simp
qed simp

text \<open>A log grown from the empty one by events whose metadata survives the JSON round trip.\<close>

definition grown_log :: "event_lib \<Rightarrow> event_log \<Rightarrow> bool" where
  "grown_log lib L \<longleftrightarrow> (\<exists>as. list_all (\<lambda>a. metadata_stable lib (snd a)) as
     \<and> L = fold (append_step lib) as event_log_new)"

lemma grown_decodes: "grown_log lib L \<Longrightarrow> r \<in> set (el_rows L) \<Longrightarrow> \<exists>x. decode lib r = Inr x"
  using run_stored [of lib _ r event_log_new] by (auto simp: grown_log_def event_log_new_def)

lemma grown_wf: "grown_log lib L \<Longrightarrow> log_wf L"
  by (auto simp: grown_log_def intro: log_run_wf log_wf_new)

definition decoded :: "event_lib \<Rightarrow> raw_event \<Rightarrow> event_log_event" where
  "decoded lib r = projr (decode lib r)"

lemma decoded_rows:
  assumes "grown_log lib L" "set rs \<subseteq> set (el_rows L)"
  shows "collect_results (decode lib) rs = Inr (map (decoded lib) rs)"
  using grown_decodes [OF assms(1)] assms(2) by (intro collect_results_all) (force simp: decoded_def)

lemma decoded_fields:
  assumes "grown_log lib L" "r \<in> set (el_rows L)"
  shows "sequence (decoded lib r) = rw_sequence r" "ev_tenant (event (decoded lib r)) = rw_tenant r"
    "ev_record (event (decoded lib r)) = rw_record r"
    "parse_event_type (rw_type r) = Inr (event_type (event (decoded lib r)))"
  using grown_decodes [OF assms] decode_fields [of lib r] by (auto simp: decoded_def)

lemma sorted_by_sequence:
  assumes "log_wf L"
  shows "sort_key rw_sequence (filter p (el_rows L)) = filter p (el_rows L)"
proof -
  have "sorted_wrt (\<lambda>a b. rw_sequence a < rw_sequence b) (el_rows L)"
    using assms by (simp add: log_wf_def sorted_wrt_map)
  then have "sorted_wrt (\<lambda>a b. rw_sequence a < rw_sequence b) (filter p (el_rows L))"
    by (rule sorted_wrt_filter)
  then have "sorted (map rw_sequence (filter p (el_rows L)))"
    by (simp add: sorted_map sorted_wrt_mono_rel [of _ "\<lambda>a b. rw_sequence a < rw_sequence b"])
  then show ?thesis by (rule sort_key_id_if_sorted)
qed

text \<open>
  A tenant reads back its own events and no one else's: on a log grown from the empty one, the
  query of a tenant with a valid scope and limit never fails, answers only events of that tenant, in
  sequence order and at most as many as the limit, and misses a matching row only if the limit is reached.
\<close>

theorem event_reads_scoped_and_complete:
  assumes "grown_log lib L" and scope: "required_scope (Some s) = Inr s" and limit: "query_limit q = Inr n"
  shows "\<exists>es. events_for_tenant lib (Some s) q L = Inr es
    \<and> list_all (\<lambda>x. ev_tenant (event x) = s) es \<and> sorted_wrt (<) (map sequence es) \<and> length es \<le> n
    \<and> (length es < n \<longrightarrow> map sequence es
         = map rw_sequence (filter (\<lambda>r. rw_tenant r = s \<and> in_query q r) (el_rows L)))"
proof -
  let ?rs = "filter (\<lambda>r. rw_tenant r = s \<and> in_query q r) (el_rows L)"
  note wf = grown_wf [OF assms(1)]
  have sub: "set (take n ?rs) \<subseteq> set (el_rows L)" using set_take_subset [of n ?rs] by auto
  have es: "events_for_tenant lib (Some s) q L = Inr (map (decoded lib) (take n ?rs))"
    by (simp add: events_for_tenant_def scope limit sorted_by_sequence [OF wf] decoded_rows [OF assms(1) sub])
  have seqs: "map sequence (map (decoded lib) (take n ?rs)) = map rw_sequence (take n ?rs)"
    using sub by (auto intro!: decoded_fields(1) [OF assms(1)])
  have tenants: "list_all (\<lambda>x. ev_tenant (event x) = s) (map (decoded lib) (take n ?rs))"
    using sub decoded_fields(2) [OF assms(1)] set_take_subset [of n ?rs] by (auto simp: list_all_iff)
  have "sorted_wrt (\<lambda>a b. rw_sequence a < rw_sequence b) (el_rows L)"
    using wf by (simp add: log_wf_def sorted_wrt_map)
  then have "sorted_wrt (<) (map rw_sequence (take n ?rs))"
    by (simp add: sorted_wrt_map sorted_wrt_filter sorted_wrt_take)
  then have sorted: "sorted_wrt (<) (map sequence (map (decoded lib) (take n ?rs)))" unfolding seqs .
  have "map sequence (map (decoded lib) (take n ?rs)) = map rw_sequence ?rs" if "length (take n ?rs) < n"
    using that unfolding seqs by simp
  with es tenants sorted show ?thesis by (intro exI [of _ "map (decoded lib) (take n ?rs)"]) simp
qed

text \<open>The rows that the query by type selects: not superseded, hence one for each record.\<close>

definition type_rows :: "event_log \<Rightarrow> string \<Rightarrow> event_type \<Rightarrow> event_log_query \<Rightarrow> raw_event list" where
  "type_rows L s t q = filter (\<lambda>r. rw_tenant r = s \<and> rw_type r = event_type_as_str t \<and> in_query q r \<and> \<not> superseded L r) (el_rows L)"

lemma type_row_latest:
  assumes "r \<in> set (type_rows L s t q)" "r' \<in> set (el_rows L)" "rw_tenant r' = s" "rw_record r' = rw_record r"
    "rw_type r' = event_type_as_str t"
  shows "rw_sequence r' \<le> rw_sequence r"
  using assms by (force simp: type_rows_def superseded_def list_ex_iff)

lemma type_rows_inj:
  assumes "log_wf L"
  shows "inj_on rw_record (set (type_rows L s t q))"
proof (rule inj_onI)
  fix a b assume ab: "a \<in> set (type_rows L s t q)" "b \<in> set (type_rows L s t q)" "rw_record a = rw_record b"
  have rows: "x \<in> set (el_rows L)" "rw_tenant x = s" "rw_type x = event_type_as_str t" if "x \<in> set (type_rows L s t q)" for x
    using that by (simp_all add: type_rows_def)
  have "rw_sequence a = rw_sequence b"
    using type_row_latest [OF ab(2), of a] type_row_latest [OF ab(1), of b] ab rows by (simp add: order_antisym)
  moreover have "inj_on rw_sequence (set (el_rows L))"
    using assms by (simp add: log_wf_def strict_sorted_iff distinct_map)
  ultimately show "a = b" using rows(1) [OF ab(1)] rows(1) [OF ab(2)] by (meson inj_onD)
qed

text \<open>
  Of the events of one type a tenant sees at most one for each record, the latest: any row of the same
  tenant, record and type has no greater sequence number, whatever time it carries.
\<close>

theorem latest_event_per_record:
  assumes "grown_log lib L" and "events_for_tenant_type lib (Some s) t q L = Inr es"
  shows "distinct (map (\<lambda>x. ev_record (event x)) es)
    \<and> list_all (\<lambda>x. ev_tenant (event x) = s \<and> event_type (event x) = t
        \<and> list_all (\<lambda>r. rw_tenant r = s \<and> rw_record r = ev_record (event x) \<and> rw_type r = event_type_as_str t
             \<longrightarrow> rw_sequence r \<le> sequence x) (el_rows L)) es"
proof -
  from assms(2) obtain n where n: "collect_results (decode lib)
      (take n (sort_key (\<lambda>r. (rw_ts r, rw_record r, rw_sequence r)) (type_rows L s t q))) = Inr es"
    by (auto simp: events_for_tenant_type_def type_rows_def result_simps dest: log_scopeD)
  define S where "S = take n (sort_key (\<lambda>r. (rw_ts r, rw_record r, rw_sequence r)) (type_rows L s t q))"
  have S: "set S \<subseteq> set (type_rows L s t q)" unfolding S_def by (auto dest: in_set_takeD)
  then have rows: "set S \<subseteq> set (el_rows L)" "\<And>r. r \<in> set S \<Longrightarrow> rw_tenant r = s"
    "\<And>r. r \<in> set S \<Longrightarrow> rw_type r = event_type_as_str t" by (auto simp: type_rows_def)
  have es: "es = map (decoded lib) S" using n decoded_rows [OF assms(1) rows(1)] by (simp add: S_def)
  note decoded = decoded_fields [OF assms(1) subsetD [OF rows(1)]]
  note wf = grown_wf [OF assms(1)]
  have "distinct (type_rows L s t q)" using wf by (simp add: type_rows_def log_wf_def distinct_map)
  then have "distinct (map rw_record S)"
    using inj_on_subset [OF type_rows_inj [OF wf] S] by (simp add: S_def distinct_map)
  then have "distinct (map (\<lambda>x. ev_record (event x)) es)"
    unfolding es using decoded(3) by (simp cong: map_cong add: comp_def)
  moreover have "list_all (\<lambda>x. ev_tenant (event x) = s \<and> event_type (event x) = t
        \<and> list_all (\<lambda>r. rw_tenant r = s \<and> rw_record r = ev_record (event x) \<and> rw_type r = event_type_as_str t
             \<longrightarrow> rw_sequence r \<le> sequence x) (el_rows L)) (map (decoded lib) S)"
    using type_row_latest [of _ L s t q] S decoded rows(2,3) by (auto simp: list_all_iff)
  ultimately show ?thesis unfolding es by blast
qed

section \<open>Concrete logs\<close>

definition sample_lib :: event_lib where
  "sample_lib = \<lparr>uuid_version = (\<lambda>_. Some 4), json_text = (\<lambda>_. ''{...}''),
     json_read = (\<lambda>_. Some [(''status'', JStr ''selected'')])\<rparr>"

definition sample_event :: "string \<Rightarrow> new_event" where
  "sample_event i = \<lparr>event_id = i, ev_tenant = ''acme'', ev_record = ''r1'', event_type = Decided, ts_utc_ms = 5,
     request_id = Some ''req'', session_id = None, trace_id = None, parent_id = None, origin_record_id = None,
     metadata = [(''status'', JStr ''selected'')]\<rparr>"

definition sample_query :: event_log_query where
  "sample_query = \<lparr>from_ts = None, to_ts = Some 9, q_record = None, limit = 10\<rparr>"

lemma sample_ids:
  "\<not> is_blank ''acme''" "\<not> is_blank ''r1''" "\<not> is_blank ''req''"
  "validate_id f ''acme'' = Inr ()" "validate_id f ''r1'' = Inr ()" "validate_id f ''req'' = Inr ()"
  by (simp_all add: validate_id_def is_blank_def chars_def utf16_len_def is_control_def trim_matches_def
      is_unicode_whitespace_def)

lemma sample_entry: "entry_ok ''status'' (JStr ''selected'')"
  by (simp add: entry_ok_def key_in_def SCALAR_KEYS_def CONTENT_KEYS_def ARRAY_KEYS_def OBJECT_ARRAY_KEYS_def
      scalar_ok_def valid_string_def utf16_len_def chars_def is_control_def MAX_STRING_UTF16_UNITS_def)

lemma sample_valid: "validate_stored_event sample_lib (sample_event i) = Inr ()"
  by (simp add: validate_stored_event_def sample_lib_def sample_event_def sample_ids sample_entry)

lemma sample_scope: "required_scope (Some ''acme'') = Inr ''acme''"
  by (simp add: required_scope_def sample_ids)

lemma sample_stable: "metadata_stable sample_lib (sample_event i)"
  by (simp add: metadata_stable_def sample_lib_def sample_event_def)

definition sample_log :: event_log where
  "sample_log = \<lparr>el_rows = [raw_of sample_lib ''acme'' (sample_event ''e1'') 1], el_last = 1\<rparr>"

lemma sample_append:
  "append_event sample_lib (Some ''acme'') (sample_event ''e1'') event_log_new = (Inr 1, sample_log)"
proof -
  have "ev_tenant (sample_event i) = ''acme''" for i by (simp add: sample_event_def)
  then show ?thesis
    by (simp add: append_event_def sample_scope validate_event_def sample_valid load_by_id_def
        event_log_new_def sample_log_def max_sequence_def)
qed

lemma sample_step: "append_step sample_lib (Some ''acme'', sample_event ''e1'') event_log_new = sample_log"
  by (simp add: append_step_def sample_append)

lemma sample_grown: "grown_log sample_lib sample_log"
  unfolding grown_log_def
  by (rule exI [of _ "[(Some ''acme'', sample_event ''e1'')]"]) (simp add: sample_stable sample_step)

lemma sample_limit: "query_limit sample_query = Inr 10"
  by (simp add: query_limit_def sample_query_def)

theorem event_log_append_only_witness:
  "list_ex (\<lambda>r. rw_event_id r = ''e1'' \<and> rw_sequence r = 1)
     (el_rows (fold (append_step sample_lib) [(Some ''acme'', sample_event ''e2'')] sample_log))"
  using event_log_append_only [where lib = sample_lib and as = "[]" and e = "sample_event ''e1''"
      and scope = "Some ''acme''" and bs = "[(Some ''acme'', sample_event ''e2'')]" and n = 1 and L' = sample_log]
  by (simp add: sample_append Let_def) (simp add: sample_event_def)

theorem event_replay_idempotent_witness:
  "append_event sample_lib (Some ''acme'') (sample_event ''e1'') sample_log = (Inr 1, sample_log)
   \<and> snd (append_event sample_lib (Some ''other'') (sample_event ''e1'') sample_log) = sample_log"
  using event_replay_idempotent [OF sample_append sample_stable, of sample_log "[]" "sample_event ''e1''" "Some ''other''"]
  by simp

theorem event_reads_scoped_and_complete_witness:
  "\<exists>es. events_for_tenant sample_lib (Some ''acme'') sample_query sample_log = Inr es
    \<and> list_all (\<lambda>x. ev_tenant (event x) = ''acme'') es \<and> map sequence es = [1]"
proof -
  have "in_query sample_query (raw_of sample_lib ''acme'' (sample_event ''e1'') 1)"
    by (simp add: in_query_def sample_query_def sample_event_def)
  then have rows: "filter (\<lambda>r. rw_tenant r = ''acme'' \<and> in_query sample_query r) (el_rows sample_log) = el_rows sample_log"
    by (simp add: sample_log_def)
  obtain es where es: "events_for_tenant sample_lib (Some ''acme'') sample_query sample_log = Inr es"
    "list_all (\<lambda>x. ev_tenant (event x) = ''acme'') es" "length es \<le> 10"
    "length es < 10 \<longrightarrow> map sequence es = map rw_sequence (el_rows sample_log)"
    using event_reads_scoped_and_complete [OF sample_grown sample_scope sample_limit] unfolding rows by blast
  have "length es < 10"
    using es(1) by (auto simp: events_for_tenant_def sample_scope sample_limit result_simps sample_log_def
        dest!: list_all2_lengthD split: if_splits)
  with es show ?thesis by (auto simp: sample_log_def)
qed

theorem latest_event_per_record_witness:
  "\<exists>es. events_for_tenant_type sample_lib (Some ''acme'') Decided sample_query sample_log = Inr es
    \<and> distinct (map (\<lambda>x. ev_record (event x)) es)"
proof -
  have "\<exists>es. events_for_tenant_type sample_lib (Some ''acme'') Decided sample_query sample_log = Inr es"
    by (simp add: events_for_tenant_type_def sample_scope sample_limit)
      (rule exI, rule decoded_rows [OF sample_grown], auto dest: in_set_takeD)
  then show ?thesis using latest_event_per_record [OF sample_grown] by blast
qed

end
