(* ===== verification/Virtual_Keys.thy ===== *)
theory Virtual_Keys
  imports Json Contracts
begin

text \<open>
  Virtual keys (\<^verbatim>\<open>crates/idoris-tenancy/src/virtual_key.rs\<close>, \<^verbatim>\<open>virtual_key/store.rs\<close>): the wire
  form of a key, its verifier, and the table of verifiers with their scopes. The hash function, the
  random bytes of a fresh key and the JSON texts of the lists in a row are parameters; schema
  migration and faults of the database file are not modelled.
\<close>

section \<open>Keys and verifiers\<close>

definition VIRTUAL_KEY_PREFIX :: string where "VIRTUAL_KEY_PREFIX = ''idk_''"
definition SECRET_HEX_LEN :: nat where "SECRET_HEX_LEN = 64"
definition VIRTUAL_KEY_LEN :: nat where "VIRTUAL_KEY_LEN = length VIRTUAL_KEY_PREFIX + SECRET_HEX_LEN"

datatype virtual_key_error = InvalidFormat

definition is_lower_hex :: "char \<Rightarrow> bool" where
  "is_lower_hex c \<longleftrightarrow> CHR ''0'' \<le> c \<and> c \<le> CHR ''9'' \<or> CHR ''a'' \<le> c \<and> c \<le> CHR ''f''"

definition parse_secret :: "string \<Rightarrow> virtual_key_error + string" where
  "parse_secret raw =
     (if length raw \<noteq> VIRTUAL_KEY_LEN \<or> take (length VIRTUAL_KEY_PREFIX) raw \<noteq> VIRTUAL_KEY_PREFIX
      then Inl InvalidFormat
      else let payload = drop (length VIRTUAL_KEY_PREFIX) raw
           in if \<not> list_all is_lower_hex payload then Inl InvalidFormat else Inr raw)"

type_synonym key_hash = "8 word list"

definition HEX_DIGITS :: string where "HEX_DIGITS = ''0123456789abcdef''"

definition hex :: "8 word list \<Rightarrow> string" where
  "hex bytes = concat (map (\<lambda>b. [HEX_DIGITS ! unat (drop_bit 4 b), HEX_DIGITS ! unat (b AND 0x0F)]) bytes)"

definition secret_hash :: "(string \<Rightarrow> key_hash) \<Rightarrow> string \<Rightarrow> key_hash" where
  "secret_hash sha secret = sha secret"

definition hash_matches :: "(string \<Rightarrow> key_hash) \<Rightarrow> key_hash \<Rightarrow> string \<Rightarrow> bool" where
  "hash_matches sha h secret \<longleftrightarrow> h = secret_hash sha secret"

definition fingerprint :: "key_hash \<Rightarrow> string" where
  "fingerprint h = hex (take 6 h)"

record minted_key =
  mk_id :: string
  mk_secret :: string
  mk_hash :: key_hash

text \<open>The three UUIDs as their sixteen bytes, which \<open>simple()\<close> prints in hexadecimal.\<close>

definition mint :: "(string \<Rightarrow> key_hash) \<Rightarrow> 8 word list \<Rightarrow> 8 word list \<Rightarrow> 8 word list \<Rightarrow> minted_key" where
  "mint sha u1 u2 u3 =
     (let payload = hex u1 @ hex u2; secret = VIRTUAL_KEY_PREFIX @ payload
      in \<lparr>mk_id = ''vk_'' @ hex u3, mk_secret = secret, mk_hash = secret_hash sha secret\<rparr>)"

section \<open>The store\<close>

record key_scope =
  ks_owner :: string
  ks_tenant :: "string option"
  allowed_privacy :: "privacy_class list"
  allowed_roles :: "string list"
  budget_ref :: "string option"
  expires_at_ms :: "int option"
  admin_scopes :: "string list"

record authenticated_key =
  ak_id :: string
  ak_scope :: key_scope

datatype key_store_error = InvalidKeyMetadata | KeySql string | KeyJson

record key_record =
  kr_id :: string
  kr_scope :: key_scope
  kr_revoked_at :: "int option"

record key_row =
  vk_id :: string
  vk_hash :: key_hash
  vk_owner :: string
  vk_tenant :: "string option"
  vk_privacy :: string
  vk_roles :: string
  vk_budget_ref :: "string option"
  vk_expires :: "int option"
  vk_scopes :: string
  vk_status :: string
  vk_revoked_at :: "int option"

type_synonym key_store = "key_row list"

text \<open>The JSON texts of the two kinds of list in a row.\<close>

record key_lib =
  privacy_text :: "privacy_class list \<Rightarrow> string"
  privacy_read :: "string \<Rightarrow> privacy_class list option"
  strings_text :: "string list \<Rightarrow> string"
  strings_read :: "string \<Rightarrow> string list option"

definition is_trimmed :: "string \<Rightarrow> bool" where
  "is_trimmed s \<longleftrightarrow> trim_matches is_unicode_whitespace (chars s) = chars s"

definition validate_key_metadata :: "string \<Rightarrow> key_scope \<Rightarrow> key_store_error + unit" where
  "validate_key_metadata key_id scope =
     (if is_blank key_id
         \<or> is_blank (ks_owner scope)
         \<or> (case ks_tenant scope of None \<Rightarrow> False
            | Some t \<Rightarrow> t = [] \<or> 128 < length t \<or> \<not> is_trimmed t \<or> list_ex is_control (chars t))
         \<or> allowed_privacy scope = []
         \<or> list_ex is_blank (allowed_roles scope @ admin_scopes scope)
         \<or> (case budget_ref scope of None \<Rightarrow> False | Some v \<Rightarrow> is_blank v)
         \<or> (case expires_at_ms scope of None \<Rightarrow> False | Some v \<Rightarrow> v \<le> 0)
      then Inl InvalidKeyMetadata else Inr ())"

definition active_row :: "key_lib \<Rightarrow> string \<Rightarrow> key_hash \<Rightarrow> key_scope \<Rightarrow> key_row" where
  "active_row lib key_id h scope =
     \<lparr>vk_id = key_id, vk_hash = h, vk_owner = ks_owner scope, vk_tenant = ks_tenant scope,
      vk_privacy = privacy_text lib (allowed_privacy scope), vk_roles = strings_text lib (allowed_roles scope),
      vk_budget_ref = budget_ref scope, vk_expires = expires_at_ms scope,
      vk_scopes = strings_text lib (admin_scopes scope), vk_status = ''active'', vk_revoked_at = None\<rparr>"

text \<open>The primary key and the unique verifier refuse a second row.\<close>

definition insert_active ::
    "key_lib \<Rightarrow> string \<Rightarrow> key_hash \<Rightarrow> key_scope \<Rightarrow> key_store \<Rightarrow> (key_store_error + unit) \<times> key_store" where
  "insert_active lib key_id h scope st =
     (case validate_key_metadata key_id scope of Inl e \<Rightarrow> (Inl e, st) | Inr _ \<Rightarrow>
      if list_ex (\<lambda>r. vk_id r = key_id) st
      then (Inl (KeySql ''UNIQUE constraint failed: virtual_keys.key_id''), st)
      else if list_ex (\<lambda>r. vk_hash r = h) st
      then (Inl (KeySql ''UNIQUE constraint failed: virtual_keys.key_hash''), st)
      else (Inr (), st @ [active_row lib key_id h scope]))"

definition raw_to_identity :: "key_lib \<Rightarrow> key_row \<Rightarrow> key_store_error + authenticated_key" where
  "raw_to_identity lib r =
     bind_result (ok_or KeyJson (privacy_read lib (vk_privacy r))) (\<lambda>privacy.
     bind_result (ok_or KeyJson (strings_read lib (vk_roles r))) (\<lambda>roles.
     bind_result (ok_or KeyJson (strings_read lib (vk_scopes r))) (\<lambda>scopes.
     Inr \<lparr>ak_id = vk_id r,
          ak_scope = \<lparr>ks_owner = vk_owner r, ks_tenant = vk_tenant r, allowed_privacy = privacy,
            allowed_roles = roles, budget_ref = vk_budget_ref r, expires_at_ms = vk_expires r,
            admin_scopes = scopes\<rparr>\<rparr>)))"

definition is_live :: "int \<Rightarrow> key_row \<Rightarrow> bool" where
  "is_live now_ms r \<longleftrightarrow> vk_status r = ''active'' \<and> (case vk_expires r of None \<Rightarrow> True | Some t \<Rightarrow> now_ms < t)"

definition authenticate ::
    "key_lib \<Rightarrow> (string \<Rightarrow> key_hash) \<Rightarrow> string \<Rightarrow> int \<Rightarrow> key_store \<Rightarrow> key_store_error + authenticated_key option" where
  "authenticate lib sha secret now_ms st =
     (if now_ms < 0 then Inl InvalidKeyMetadata
      else case find (\<lambda>r. vk_hash r = secret_hash sha secret \<and> is_live now_ms r) st of
             None \<Rightarrow> Inr None
           | Some r \<Rightarrow> bind_result (raw_to_identity lib r) (\<lambda>a. Inr (Some a)))"

definition has_active_key :: "int \<Rightarrow> key_store \<Rightarrow> key_store_error + bool" where
  "has_active_key now_ms st =
     (if now_ms < 0 then Inl InvalidKeyMetadata else Inr (list_ex (is_live now_ms) st))"

definition revoke_row :: "string \<Rightarrow> int \<Rightarrow> key_row \<Rightarrow> key_row" where
  "revoke_row key_id revoked_at_ms r =
     (if vk_id r = key_id \<and> vk_status r = ''active''
      then r\<lparr>vk_status := ''revoked'', vk_revoked_at := Some revoked_at_ms\<rparr> else r)"

definition revoke :: "string \<Rightarrow> int \<Rightarrow> key_store \<Rightarrow> (key_store_error + bool) \<times> key_store" where
  "revoke key_id revoked_at_ms st =
     (if is_blank key_id \<or> revoked_at_ms \<le> 0 then (Inl InvalidKeyMetadata, st)
      else (Inr (length (filter (\<lambda>r. vk_id r = key_id \<and> vk_status r = ''active'') st) = 1),
            map (revoke_row key_id revoked_at_ms) st))"

definition list_keys :: "key_lib \<Rightarrow> key_store \<Rightarrow> key_store_error + key_record list" where
  "list_keys lib st =
     collect_results (\<lambda>r. bind_result (raw_to_identity lib r) (\<lambda>a.
       Inr \<lparr>kr_id = ak_id a, kr_scope = ak_scope a, kr_revoked_at = vk_revoked_at r\<rparr>)) st"

section \<open>Invariant\<close>

datatype key_op = InsertKey string key_hash key_scope | RevokeKey string int

fun key_step :: "key_lib \<Rightarrow> key_op \<Rightarrow> key_store \<Rightarrow> key_store" where
  "key_step lib (InsertKey k h s) st = snd (insert_active lib k h s st)"
| "key_step lib (RevokeKey k t) st = snd (revoke k t st)"

text \<open>Ids and verifiers are unique, and a row is active or carries the time it was revoked.\<close>

definition key_store_wf :: "key_store \<Rightarrow> bool" where
  "key_store_wf st \<longleftrightarrow> distinct (map vk_id st) \<and> distinct (map vk_hash st)
     \<and> list_all (\<lambda>r. vk_status r = ''active'' \<and> vk_revoked_at r = None
          \<or> vk_status r = ''revoked'' \<and> (\<exists>t. vk_revoked_at r = Some t \<and> 0 < t)) st"

lemma insert_cases:
  "snd (insert_active lib k h s st) = st
   \<or> validate_key_metadata k s = Inr () \<and> k \<notin> vk_id ` set st \<and> h \<notin> vk_hash ` set st
     \<and> insert_active lib k h s st = (Inr (), st @ [active_row lib k h s])"
  by (auto simp: insert_active_def list_ex_iff split: sum.splits)

lemma active_row_simps [simp]:
  "vk_id (active_row lib k h s) = k" "vk_hash (active_row lib k h s) = h"
  "vk_status (active_row lib k h s) = ''active''" "vk_revoked_at (active_row lib k h s) = None"
  "vk_expires (active_row lib k h s) = expires_at_ms s"
  by (simp_all add: active_row_def)

lemma revoke_row_simps [simp]:
  "vk_id (revoke_row k t r) = vk_id r" "vk_hash (revoke_row k t r) = vk_hash r"
  "vk_status r = ''revoked'' \<Longrightarrow> revoke_row k t r = r"
  "vk_id r = k \<Longrightarrow> vk_status r = ''active'' \<Longrightarrow> vk_status (revoke_row k t r) = ''revoked''"
  "vk_id r \<noteq> k \<Longrightarrow> revoke_row k t r = r"
  by (simp_all add: revoke_row_def)

lemma key_step_wf: "key_store_wf st \<Longrightarrow> key_store_wf (key_step lib op st)"
proof (cases op)
  case (InsertKey k h s)
  assume "key_store_wf st"
  with insert_cases [of lib k h s st] show ?thesis
    by (auto simp: InsertKey key_store_wf_def)
next
  case (RevokeKey k t)
  assume wf: "key_store_wf st"
  have "map vk_id (snd (revoke k t st)) = map vk_id st" "map vk_hash (snd (revoke k t st)) = map vk_hash st"
    by (auto simp: revoke_def)
  with wf show ?thesis by (auto simp: RevokeKey key_store_wf_def list_all_iff revoke_def revoke_row_def)
qed

lemma key_run_wf: "key_store_wf st \<Longrightarrow> key_store_wf (fold (key_step lib) ops st)"
  by (induction ops arbitrary: st) (simp_all add: key_step_wf)

text \<open>No operation removes a row, changes whom it verifies, or turns it from revoked to active.\<close>

lemma step_row:
  assumes "r \<in> set st"
  shows "\<exists>r' \<in> set (key_step lib op st). vk_id r' = vk_id r \<and> vk_hash r' = vk_hash r
    \<and> (vk_status r = ''revoked'' \<longrightarrow> r' = r)"
proof (cases op)
  case (InsertKey k h s)
  then show ?thesis using assms insert_cases [of lib k h s st] by auto
next
  case (RevokeKey k t)
  then have "revoke_row k t r \<in> set (key_step lib op st) \<or> r \<in> set (key_step lib op st)"
    using assms by (simp add: revoke_def)
  then show ?thesis by (auto intro: bexI [of _ r] bexI [of _ "revoke_row k t r"])
qed

lemma run_row:
  assumes "r \<in> set st"
  shows "\<exists>r' \<in> set (fold (key_step lib) ops st). vk_id r' = vk_id r \<and> vk_hash r' = vk_hash r
    \<and> (vk_status r = ''revoked'' \<longrightarrow> r' = r)"
  using assms
proof (induction ops arbitrary: r st)
  case (Cons op ops)
  from step_row [OF Cons.prems, of lib op] obtain r1 where r1: "r1 \<in> set (key_step lib op st)"
    "vk_id r1 = vk_id r" "vk_hash r1 = vk_hash r" "vk_status r = ''revoked'' \<longrightarrow> r1 = r" by blast
  from Cons.IH [OF r1(1)] r1(2-) show ?case by auto
qed auto

lemma same_id_same_key:
  "key_store_wf st \<Longrightarrow> r \<in> set st \<Longrightarrow> r' \<in> set st \<Longrightarrow> vk_id r = vk_id r' \<Longrightarrow> r = r'"
  by (auto simp: key_store_wf_def distinct_map dest: inj_onD)

lemma same_hash_same_key:
  "key_store_wf st \<Longrightarrow> r \<in> set st \<Longrightarrow> r' \<in> set st \<Longrightarrow> vk_hash r = vk_hash r' \<Longrightarrow> r = r'"
  by (auto simp: key_store_wf_def distinct_map dest: inj_onD)

lemma find_row:
  assumes "key_store_wf st" "r \<in> set st" "vk_hash r = h" "p r"
  shows "find (\<lambda>r. vk_hash r = h \<and> p r) st = Some r"
proof -
  from assms(2-) obtain r' where r': "find (\<lambda>r. vk_hash r = h \<and> p r) st = Some r'"
    by (cases "find (\<lambda>r. vk_hash r = h \<and> p r) st") (auto simp: find_None_iff)
  then have "r' \<in> set st" "vk_hash r' = h" by (auto simp: find_Some_iff)
  with assms r' same_hash_same_key [OF assms(1)] show ?thesis by metis
qed

section \<open>Properties\<close>

lemma authenticate_SomeD:
  "authenticate lib sha secret now st = Inr (Some a) \<Longrightarrow> 0 \<le> now
    \<and> (\<exists>r \<in> set st. vk_hash r = secret_hash sha secret \<and> is_live now r \<and> raw_to_identity lib r = Inr a)"
  by (fastforce simp: authenticate_def result_simps find_Some_iff split: if_splits option.splits)

text \<open>
  Revocation is final: once a stored key is revoked, no sequence of insertions and revocations, and no
  secret, time or other key, ever authenticates under its id again.
\<close>

theorem revoked_key_never_authenticates:
  assumes "key_store_wf st" and "revoke k t st = (Inr b, st')" and "k \<in> vk_id ` set st"
    and "authenticate lib sha secret now (fold (key_step lib) ops st') = Inr (Some a)"
  shows "ak_id a \<noteq> k"
proof
  assume k: "ak_id a = k"
  have st': "st' = key_step lib (RevokeKey k t) st" using assms(2) by simp
  have wf': "key_store_wf (fold (key_step lib) ops st')" unfolding st' by (intro key_run_wf key_step_wf assms(1))
  from assms(3) obtain r0 where r0: "r0 \<in> set st" "vk_id r0 = k" by blast
  with assms(1) have "vk_status r0 = ''active'' \<or> vk_status r0 = ''revoked''"
    by (auto simp: key_store_wf_def list_all_iff)
  then have "vk_status (revoke_row k t r0) = ''revoked''" using r0(2) by auto
  moreover have "revoke_row k t r0 \<in> set st'" using r0(1) assms(2) by (auto simp: revoke_def split: if_splits)
  ultimately have "\<exists>r \<in> set st'. vk_id r = k \<and> vk_status r = ''revoked''"
    using r0(2) by (intro bexI [of _ "revoke_row k t r0"]) simp_all
  then obtain r where r: "r \<in> set (fold (key_step lib) ops st')" "vk_id r = k" "vk_status r = ''revoked''"
    using run_row by metis
  from authenticate_SomeD [OF assms(4)] obtain r' where
    r': "r' \<in> set (fold (key_step lib) ops st')" "is_live now r'" "raw_to_identity lib r' = Inr a" by blast
  then have "vk_id r' = k" using k by (auto simp: raw_to_identity_def result_simps)
  with r r' same_id_same_key [OF wf'] have "r' = r" by simp
  with r(3) r'(2) show False by (simp add: is_live_def)
qed

text \<open>The lists of a scope survive being written and read as JSON.\<close>

definition scope_stable :: "key_lib \<Rightarrow> key_scope \<Rightarrow> bool" where
  "scope_stable lib s \<longleftrightarrow> privacy_read lib (privacy_text lib (allowed_privacy s)) = Some (allowed_privacy s)
     \<and> strings_read lib (strings_text lib (allowed_roles s)) = Some (allowed_roles s)
     \<and> strings_read lib (strings_text lib (admin_scopes s)) = Some (admin_scopes s)"

lemma identity_active_row:
  "scope_stable lib s \<Longrightarrow> raw_to_identity lib (active_row lib k h s) = Inr \<lparr>ak_id = k, ak_scope = s\<rparr>"
  by (cases s) (simp add: raw_to_identity_def active_row_def scope_stable_def ok_or_def)

section \<open>The history of the store\<close>

text \<open>
  What a history of operations on the empty store says of a key, without looking at the rows: it was
  inserted under this id, verifier and scope, the store accepted it, and no revocation of its id with a
  positive time came after.
\<close>

definition key_issued :: "key_lib \<Rightarrow> key_op list \<Rightarrow> string \<Rightarrow> key_hash \<Rightarrow> key_scope \<Rightarrow> bool" where
  "key_issued lib ops k h s \<longleftrightarrow>
     (\<exists>pre post. ops = pre @ InsertKey k h s # post
        \<and> fst (insert_active lib k h s (fold (key_step lib) pre [])) = Inr ()
        \<and> (\<forall>t. RevokeKey k t \<in> set post \<longrightarrow> t \<le> 0))"

lemma key_issued_Nil [simp]: "\<not> key_issued lib [] k h s"
  by (simp add: key_issued_def)

lemma key_issued_snoc:
  "key_issued lib (ops @ [op]) k h s \<longleftrightarrow>
     op = InsertKey k h s \<and> fst (insert_active lib k h s (fold (key_step lib) ops [])) = Inr ()
     \<or> key_issued lib ops k h s \<and> (\<forall>t. op = RevokeKey k t \<longrightarrow> t \<le> 0)" (is "?l \<longleftrightarrow> ?r")
proof
  assume ?l
  then obtain pre post where p: "ops @ [op] = pre @ InsertKey k h s # post"
    "fst (insert_active lib k h s (fold (key_step lib) pre [])) = Inr ()"
    "\<forall>t. RevokeKey k t \<in> set post \<longrightarrow> t \<le> 0" unfolding key_issued_def by blast
  show ?r
  proof (cases post rule: rev_cases)
    case Nil
    with p show ?thesis by simp
  next
    case (snoc post' op')
    with p have "ops = pre @ InsertKey k h s # post'" "op' = op"
      "\<forall>t. RevokeKey k t \<in> set post' \<longrightarrow> t \<le> 0" "\<forall>t. op = RevokeKey k t \<longrightarrow> t \<le> 0" by auto
    with p(2) show ?thesis unfolding key_issued_def by blast
  qed
next
  assume ?r
  then show ?l
  proof
    assume "op = InsertKey k h s \<and> fst (insert_active lib k h s (fold (key_step lib) ops [])) = Inr ()"
    then show ?l unfolding key_issued_def by (intro exI [of _ ops] exI [of _ "[]"]) simp
  next
    assume "key_issued lib ops k h s \<and> (\<forall>t. op = RevokeKey k t \<longrightarrow> t \<le> 0)"
    then obtain pre post where "ops = pre @ InsertKey k h s # post"
      "fst (insert_active lib k h s (fold (key_step lib) pre [])) = Inr ()"
      "\<forall>t. RevokeKey k t \<in> set (post @ [op]) \<longrightarrow> t \<le> 0" unfolding key_issued_def by auto
    then show ?l unfolding key_issued_def by (intro exI [of _ pre] exI [of _ "post @ [op]"]) simp
  qed
qed

lemma issued_not_blank: "key_issued lib ops k h s \<Longrightarrow> \<not> is_blank k"
  by (auto simp: key_issued_def insert_active_def validate_key_metadata_def split: sum.splits if_splits)

lemma insert_accepted:
  "fst (insert_active lib k h s st) = Inr () \<Longrightarrow> snd (insert_active lib k h s st) = st @ [active_row lib k h s]"
  by (auto simp: insert_active_def split: sum.splits if_splits)

lemma insert_refused:
  "fst (insert_active lib k h s st) \<noteq> Inr () \<Longrightarrow> snd (insert_active lib k h s st) = st"
  by (auto simp: insert_active_def split: sum.splits if_splits)

lemma revoke_active_rows:
  assumes "\<not> is_blank k" and "0 < t"
  shows "r \<in> set (snd (revoke k t st)) \<and> vk_status r = ''active''
     \<longleftrightarrow> r \<in> set st \<and> vk_status r = ''active'' \<and> vk_id r \<noteq> k"
  using assms by (force simp: revoke_def revoke_row_def image_iff)

text \<open>The active rows of a reached store are exactly the rows of the issued keys.\<close>

lemma active_rows_issued:
  "r \<in> set (fold (key_step lib) ops []) \<and> vk_status r = ''active''
     \<longleftrightarrow> (\<exists>k h s. r = active_row lib k h s \<and> key_issued lib ops k h s)"
proof (induction ops arbitrary: r rule: rev_induct)
  case (snoc op ops)
  let ?st = "fold (key_step lib) ops []"
  show ?case
  proof (cases op)
    case (InsertKey k h s)
    then show ?thesis
      using snoc.IH [of r] insert_accepted [of lib k h s ?st] insert_refused [of lib k h s ?st]
      by (cases "fst (insert_active lib k h s ?st) = Inr ()") (auto simp: key_issued_snoc)
  next
    case (RevokeKey k t)
    show ?thesis
    proof (cases "is_blank k \<or> t \<le> 0")
      case True
      then have "key_step lib op ?st = ?st" by (simp add: RevokeKey revoke_def)
      with True snoc.IH [of r] issued_not_blank [of lib ops] show ?thesis
        by (fastforce simp: key_issued_snoc RevokeKey)
    next
      case False
      then have "r \<in> set (fold (key_step lib) (ops @ [op]) []) \<and> vk_status r = ''active''
          \<longleftrightarrow> (\<exists>k' h s. r = active_row lib k' h s \<and> key_issued lib ops k' h s) \<and> vk_id r \<noteq> k"
        using revoke_active_rows [of k t r ?st] snoc.IH [of r] by (auto simp: RevokeKey)
      also have "\<dots> \<longleftrightarrow> (\<exists>k' h s. r = active_row lib k' h s \<and> key_issued lib (ops @ [op]) k' h s)"
        using False by (fastforce simp: key_issued_snoc RevokeKey)
      finally show ?thesis .
    qed
  qed
qed simp

text \<open>A key that may be used at an instant: issued, and not past its expiry.\<close>

definition key_usable :: "key_lib \<Rightarrow> key_op list \<Rightarrow> int \<Rightarrow> string \<Rightarrow> key_hash \<Rightarrow> key_scope \<Rightarrow> bool" where
  "key_usable lib ops now k h s \<longleftrightarrow>
     key_issued lib ops k h s \<and> (\<forall>t. expires_at_ms s = Some t \<longrightarrow> now < t)"

lemma live_rows_usable:
  "r \<in> set (fold (key_step lib) ops []) \<and> is_live now r
     \<longleftrightarrow> (\<exists>k h s. r = active_row lib k h s \<and> key_usable lib ops now k h s)"
proof -
  have "is_live now (active_row lib k h s) \<longleftrightarrow> (\<forall>t. expires_at_ms s = Some t \<longrightarrow> now < t)" for k h s
    by (cases "expires_at_ms s") (simp_all add: is_live_def)
  then show ?thesis
    using active_rows_issued [of r lib ops] unfolding key_usable_def by (metis is_live_def)
qed

lemma issued_scope_stable:
  "key_issued lib ops k h s \<Longrightarrow> list_all (\<lambda>op. \<forall>k h s. op = InsertKey k h s \<longrightarrow> scope_stable lib s) ops
     \<Longrightarrow> scope_stable lib s"
  by (auto simp: key_issued_def)

text \<open>
  C24. Authentication is exact with respect to the history of the store, whatever was inserted and
  revoked before: at a non-negative time a secret authenticates, as the key it was issued for and with the
  scope it was issued with, exactly when that key was accepted with the secret's verifier, was not revoked
  since and has not expired; it gets the one answer \<open>None\<close> exactly when there is no such key, be
  it unknown, revoked or expired; and a negative time is refused. The lists of the inserted scopes are
  assumed to survive being written and read as JSON.
\<close>

theorem authenticate_exact:
  assumes "list_all (\<lambda>op. \<forall>k h s. op = InsertKey k h s \<longrightarrow> scope_stable lib s) ops"
  shows "(authenticate lib sha secret now (fold (key_step lib) ops []) = Inr (Some a)
      \<longleftrightarrow> 0 \<le> now \<and> key_usable lib ops now (ak_id a) (secret_hash sha secret) (ak_scope a))
    \<and> (authenticate lib sha secret now (fold (key_step lib) ops []) = Inr None
      \<longleftrightarrow> 0 \<le> now \<and> (\<nexists>k s. key_usable lib ops now k (secret_hash sha secret) s))
    \<and> (now < 0 \<longrightarrow> authenticate lib sha secret now (fold (key_step lib) ops []) = Inl InvalidKeyMetadata)"
proof -
  let ?st = "fold (key_step lib) ops []" and ?h = "secret_hash sha secret"
  have wf: "key_store_wf ?st" by (rule key_run_wf) (simp add: key_store_wf_def)
  have some: "authenticate lib sha secret now ?st = Inr (Some \<lparr>ak_id = k, ak_scope = s\<rparr>)"
    if now: "0 \<le> now" and u: "key_usable lib ops now k ?h s" for k s
  proof -
    from u live_rows_usable [of "active_row lib k ?h s" lib ops now]
    have "active_row lib k ?h s \<in> set ?st" "is_live now (active_row lib k ?h s)" by blast+
    then have "find (\<lambda>r. vk_hash r = ?h \<and> is_live now r) ?st = Some (active_row lib k ?h s)"
      by (intro find_row [OF wf]) simp_all
    then show ?thesis
      using now identity_active_row [OF issued_scope_stable [OF _ assms], of k ?h s k ?h] u
      by (simp add: authenticate_def key_usable_def)
  qed
  have none: "authenticate lib sha secret now ?st = Inr None"
    if now: "0 \<le> now" and n: "\<nexists>k s. key_usable lib ops now k ?h s"
  proof -
    have "find (\<lambda>r. vk_hash r = ?h \<and> is_live now r) ?st = None"
      using n live_rows_usable [of _ lib ops now] by (force simp: find_None_iff)
    with now show ?thesis by (simp add: authenticate_def)
  qed
  have refused: "now < 0 \<Longrightarrow> authenticate lib sha secret now ?st = Inl InvalidKeyMetadata"
    by (simp add: authenticate_def)
  show ?thesis
  proof (cases "0 \<le> now")
    case False
    with refused show ?thesis by simp
  next
    case now: True
    show ?thesis
    proof (cases "\<exists>k s. key_usable lib ops now k ?h s")
      case True
      then obtain k s where u: "key_usable lib ops now k ?h s" by blast
      have "a = \<lparr>ak_id = k, ak_scope = s\<rparr>" if "key_usable lib ops now (ak_id a) ?h (ak_scope a)"
        using some [OF now that] some [OF now u] by simp
      with some [OF now u] now u show ?thesis by auto
    next
      case False
      with none [OF now] now show ?thesis by auto
    qed
  qed
qed

lemma run_keeps_row:
  "r \<in> set st \<Longrightarrow> list_all (\<lambda>op. \<forall>t. op \<noteq> RevokeKey (vk_id r) t) ops \<Longrightarrow> r \<in> set (fold (key_step lib) ops st)"
proof (induction ops arbitrary: st)
  case (Cons op ops)
  have "r \<in> set (key_step lib op st)"
  proof (cases op)
    case (InsertKey k h s)
    then show ?thesis using Cons.prems(1) insert_cases [of lib k h s st] by auto
  next
    case (RevokeKey k t)
    then show ?thesis using Cons.prems by (force simp: revoke_def)
  qed
  with Cons show ?case by simp
qed simp

text \<open>
  A key that was issued works as issued: from its insertion until it is revoked or expires, whatever
  else happens to the store, its secret authenticates as its id with exactly the scope it was given.
\<close>

theorem issued_key_authenticates:
  assumes "key_store_wf st" and "insert_active lib k (secret_hash sha secret) scope st = (Inr (), st1)"
    and "list_all (\<lambda>op. \<forall>t. op \<noteq> RevokeKey k t) ops"
    and "0 \<le> now" and "case expires_at_ms scope of None \<Rightarrow> True | Some t \<Rightarrow> now < t" and "scope_stable lib scope"
  shows "authenticate lib sha secret now (fold (key_step lib) ops st1) = Inr (Some \<lparr>ak_id = k, ak_scope = scope\<rparr>)"
proof -
  let ?r = "active_row lib k (secret_hash sha secret) scope"
  have st1: "st1 = key_step lib (InsertKey k (secret_hash sha secret) scope) st" using assms(2) by simp
  have wf: "key_store_wf (fold (key_step lib) ops st1)" unfolding st1 by (intro key_run_wf key_step_wf assms(1))
  have "?r \<in> set st1"
    using assms(2) by (auto simp: insert_active_def split: sum.splits if_splits)
  then have r: "?r \<in> set (fold (key_step lib) ops st1)" using assms(3) by (intro run_keeps_row) simp_all
  have "find (\<lambda>r. vk_hash r = secret_hash sha secret \<and> is_live now r) (fold (key_step lib) ops st1) = Some ?r"
    using assms(5) by (intro find_row [OF wf r]) (simp_all add: is_live_def)
  with assms(4) identity_active_row [OF assms(6)] show ?thesis by (simp add: authenticate_def)
qed

lemma hex_digit: "n < 16 \<Longrightarrow> is_lower_hex (HEX_DIGITS ! n)"
proof -
  assume "n < 16"
  moreover have "list_all is_lower_hex HEX_DIGITS" "length HEX_DIGITS = 16"
    by (simp_all add: HEX_DIGITS_def is_lower_hex_def less_eq_char_def)
  ultimately show ?thesis by (auto simp: list_all_length)
qed

lemma nibbles: "unat (drop_bit 4 b) < 16" "unat (b AND 0x0F) < 16" for b :: "8 word"
proof -
  have "unat b < 256" using unsigned_less [of b, where ?'a = nat] by simp
  then show "unat (drop_bit 4 b) < 16" by (simp add: drop_bit_eq_div unat_div)
  have "b AND 0x0F = take_bit 4 b" using take_bit_eq_mask [of 4 b] by (simp add: mask_eq_decr_exp)
  then show "unat (b AND 0x0F) < 16" by (simp add: unat_mod take_bit_eq_mod)
qed

lemma hex_lower: "list_all is_lower_hex (hex bs)"
  by (induction bs) (auto simp: hex_def hex_digit nibbles)

lemma hex_length: "length (hex bs) = 2 * length bs"
  by (induction bs) (auto simp: hex_def)

lemma parse_secret_iff:
  "parse_secret raw = Inr s \<longleftrightarrow> s = raw \<and> (\<exists>p. raw = ''idk_'' @ p \<and> length p = 64 \<and> list_all is_lower_hex p)"
proof
  assume "parse_secret raw = Inr s"
  then have "s = raw" "length raw = 68" "take 4 raw = ''idk_''" "list_all is_lower_hex (drop 4 raw)"
    by (auto simp: parse_secret_def VIRTUAL_KEY_LEN_def VIRTUAL_KEY_PREFIX_def SECRET_HEX_LEN_def Let_def
        eval_nat_numeral split: if_splits)
  moreover from this(3) have "raw = ''idk_'' @ drop 4 raw" by (metis append_take_drop_id)
  ultimately show "s = raw \<and> (\<exists>p. raw = ''idk_'' @ p \<and> length p = 64 \<and> list_all is_lower_hex p)"
    by (intro conjI exI [of _ "drop 4 raw"]) simp_all
qed (auto simp: parse_secret_def VIRTUAL_KEY_LEN_def VIRTUAL_KEY_PREFIX_def SECRET_HEX_LEN_def Let_def)

text \<open>
  A freshly minted key is in the one accepted form and verifies against its own verifier: the secret
  parses back to itself, its hash matches it, and the displayed fingerprint is twelve hexadecimal digits.
  The accepted form is exactly the prefix followed by 64 lower-case hexadecimal digits.
\<close>

theorem minted_key_parses:
  assumes "length u1 = 16" "length u2 = 16" and "length (sha (mk_secret (mint sha u1 u2 u3))) = 32"
  shows "let m = mint sha u1 u2 u3 in
      parse_secret (mk_secret m) = Inr (mk_secret m) \<and> hash_matches sha (mk_hash m) (mk_secret m)
      \<and> length (fingerprint (mk_hash m)) = 12 \<and> list_all is_lower_hex (fingerprint (mk_hash m))
      \<and> (\<forall>raw s. parse_secret raw = Inr s
           \<longleftrightarrow> s = raw \<and> (\<exists>p. raw = ''idk_'' @ p \<and> length p = 64 \<and> list_all is_lower_hex p))"
  using assms parse_secret_iff
  by (simp add: mint_def Let_def hash_matches_def secret_hash_def fingerprint_def hex_length hex_lower
      VIRTUAL_KEY_PREFIX_def)

section \<open>A concrete store\<close>

definition sample_key_lib :: key_lib where
  "sample_key_lib = \<lparr>privacy_text = (\<lambda>_. ''[...]''), privacy_read = (\<lambda>_. Some [LocalOnly]),
     strings_text = (\<lambda>_. ''[]''), strings_read = (\<lambda>_. Some [])\<rparr>"

definition sample_sha :: "string \<Rightarrow> key_hash" where
  "sample_sha s = replicate 32 (of_nat (length s))"

definition sample_key_scope :: key_scope where
  "sample_key_scope = \<lparr>ks_owner = ''o'', ks_tenant = None, allowed_privacy = [LocalOnly], allowed_roles = [],
     budget_ref = None, expires_at_ms = Some 100, admin_scopes = []\<rparr>"

definition sample_keys :: key_store where
  "sample_keys = [active_row sample_key_lib ''k1'' (secret_hash sample_sha ''secret'') sample_key_scope]"

lemma sample_not_blank: "\<not> is_blank ''k1''" "\<not> is_blank ''o''"
  by (simp_all add: is_blank_def chars_def trim_matches_def is_unicode_whitespace_def)

lemma sample_insert:
  "insert_active sample_key_lib ''k1'' (secret_hash sample_sha ''secret'') sample_key_scope [] = (Inr (), sample_keys)"
  by (simp add: insert_active_def validate_key_metadata_def sample_not_blank sample_keys_def sample_key_scope_def)

lemma sample_keys_wf: "key_store_wf sample_keys"
  by (simp add: key_store_wf_def sample_keys_def)

lemma sample_scope_stable: "scope_stable sample_key_lib sample_key_scope"
  by (simp add: scope_stable_def sample_key_lib_def sample_key_scope_def)

theorem issued_key_authenticates_witness:
  "authenticate sample_key_lib sample_sha ''secret'' 50
     (fold (key_step sample_key_lib) [RevokeKey ''k2'' 10] sample_keys)
   = Inr (Some \<lparr>ak_id = ''k1'', ak_scope = sample_key_scope\<rparr>)"
  by (rule issued_key_authenticates [OF _ sample_insert _ _ _ sample_scope_stable])
    (simp_all add: key_store_wf_def sample_key_scope_def)

text \<open>A history with an expiring key that is inserted, refused a second time, and revoked.\<close>

definition sample_history :: "key_op list" where
  "sample_history = [InsertKey ''k1'' (secret_hash sample_sha ''secret'') sample_key_scope,
     InsertKey ''k1'' (secret_hash sample_sha ''another'') sample_key_scope, RevokeKey ''k1'' 50]"

lemma sample_history_stable:
  "list_all (\<lambda>op. \<forall>k h s. op = InsertKey k h s \<longrightarrow> scope_stable sample_key_lib s) sample_history"
  by (simp add: sample_history_def sample_scope_stable)

theorem authenticate_exact_witness:
  "authenticate sample_key_lib sample_sha ''secret'' 60 (fold (key_step sample_key_lib) sample_history []) = Inr None"
proof -
  have "\<not> key_usable sample_key_lib sample_history 60 k (secret_hash sample_sha ''secret'') s" for k s
    by (auto simp: key_usable_def key_issued_def sample_history_def Cons_eq_append_conv secret_hash_def
        sample_sha_def)
  with authenticate_exact [OF sample_history_stable, of sample_sha "''secret''" 60]
  show ?thesis by simp
qed

definition second_scope :: key_scope where
  "second_scope = sample_key_scope\<lparr>expires_at_ms := None\<rparr>"

theorem revoked_key_never_authenticates_witness:
  "\<exists>a. authenticate sample_key_lib sample_sha ''other'' 60
     (fold (key_step sample_key_lib) [InsertKey ''k2'' (secret_hash sample_sha ''other'') second_scope]
       (snd (revoke ''k1'' 50 sample_keys))) = Inr (Some a) \<and> ak_id a \<noteq> ''k1''"
proof -
  have nb: "\<not> is_blank ''k2''"
    by (simp add: is_blank_def chars_def trim_matches_def is_unicode_whitespace_def)
  have rev: "revoke ''k1'' 50 sample_keys = (Inr True, snd (revoke ''k1'' 50 sample_keys))"
    by (simp add: revoke_def sample_not_blank sample_keys_def)
  have wf: "key_store_wf (snd (revoke ''k1'' 50 sample_keys))"
    using key_step_wf [OF sample_keys_wf, of sample_key_lib "RevokeKey ''k1'' 50"] by simp
  have ne: "secret_hash sample_sha ''secret'' \<noteq> secret_hash sample_sha ''other''"
    by (simp add: secret_hash_def sample_sha_def)
  have ins: "insert_active sample_key_lib ''k2'' (secret_hash sample_sha ''other'') second_scope
      (snd (revoke ''k1'' 50 sample_keys)) = (Inr (), snd (revoke ''k1'' 50 sample_keys)
        @ [active_row sample_key_lib ''k2'' (secret_hash sample_sha ''other'') second_scope])"
    using ne by (simp add: insert_active_def validate_key_metadata_def nb sample_not_blank second_scope_def
        sample_key_scope_def revoke_def sample_keys_def)
  have auth: "authenticate sample_key_lib sample_sha ''other'' 60
      (fold (key_step sample_key_lib) [InsertKey ''k2'' (secret_hash sample_sha ''other'') second_scope]
       (snd (revoke ''k1'' 50 sample_keys))) = Inr (Some \<lparr>ak_id = ''k2'', ak_scope = second_scope\<rparr>)"
    unfolding fold.simps comp_def key_step.simps ins
    using identity_active_row [of sample_key_lib second_scope] ne wf
    by (simp add: authenticate_def revoke_def sample_keys_def sample_not_blank is_live_def second_scope_def
        scope_stable_def sample_key_lib_def sample_key_scope_def)
  from revoked_key_never_authenticates [OF sample_keys_wf rev _ auth] auth show ?thesis
    by (auto simp: sample_keys_def)
qed

theorem minted_key_parses_witness:
  "parse_secret (mk_secret (mint sample_sha (replicate 16 0xAB) (replicate 16 7) (replicate 16 0)))
   = Inr (mk_secret (mint sample_sha (replicate 16 0xAB) (replicate 16 7) (replicate 16 0)))"
  using minted_key_parses [where ?u1.0 = "replicate 16 0xAB" and ?u2.0 = "replicate 16 7"
      and ?u3.0 = "replicate 16 0" and sha = sample_sha]
  by (simp add: sample_sha_def Let_def)

end
