(* ===== verification/Records.thy ===== *)
theory Records
  imports Json Accounts Append_Only Contracts "HOL-Library.Product_Lexorder"
begin

text \<open>
  Usage and audit records (\<^verbatim>\<open>crates/idoris-tenancy/src/store.rs\<close>, \<^verbatim>\<open>usage.rs\<close>), the billing months
  over them (\<^verbatim>\<open>billing.rs\<close>, \<^verbatim>\<open>billing/period.rs\<close>) and the token estimate
  (\<^verbatim>\<open>budget/estimator.rs\<close>). The store is its table, in row order; the JSON text of a payload,
  the local midnight of a month and the UTC text of an instant are parameters. Schema migration and
  faults of the database file are not modelled.
\<close>

section \<open>The store\<close>

datatype record_kind = Usage | Audit

primrec kind_as_str :: "record_kind \<Rightarrow> string" where
  "kind_as_str Usage = ''usage''"
| "kind_as_str Audit = ''audit''"

datatype store_error = ScopeRequired | TenantMismatch | Sql string | JsonError

definition kind_from_str :: "string \<Rightarrow> store_error + record_kind" where
  "kind_from_str value =
     (if value = ''usage'' then Inr Usage else if value = ''audit'' then Inr Audit
      else Inl (Sql ''Invalid column type Text at index: 1, name: kind''))"

record tenant_record =
  tr_tenant :: string
  tr_kind :: record_kind
  tr_record :: string
  tr_request :: string
  tr_origin :: "string option"
  payload :: json_map

record raw_record =
  rr_tenant :: string
  rr_kind :: string
  rr_record :: string
  rr_request :: string
  rr_origin :: "string option"
  rr_payload :: string

type_synonym tenant_store = "raw_record list"

record payload_lib =
  payload_text :: "json_map \<Rightarrow> string"
  payload_read :: "string \<Rightarrow> json_map option"

definition required_scope :: "string option \<Rightarrow> store_error + string" where
  "required_scope scope =
     (case scope of None \<Rightarrow> Inl ScopeRequired | Some s \<Rightarrow> if is_blank s then Inl ScopeRequired else Inr s)"

text \<open>SQLite's \<open>trim(x) <> ''\<close>, which only knows the space.\<close>

definition sql_blank :: "string \<Rightarrow> bool" where
  "sql_blank s \<longleftrightarrow> list_all (\<lambda>c. c = CHR '' '') s"

definition row_key :: "raw_record \<Rightarrow> string \<times> string \<times> string" where
  "row_key r = (rr_tenant r, rr_kind r, rr_record r)"

text \<open>\<open>INSERT INTO tenant_records\<close> with the checks and the primary key of the table.\<close>

definition insert_record :: "raw_record \<Rightarrow> tenant_store \<Rightarrow> (store_error + unit) \<times> tenant_store" where
  "insert_record row st =
     (if sql_blank (rr_tenant row) \<or> sql_blank (rr_record row) \<or> sql_blank (rr_request row)
      then (Inl (Sql ''CHECK constraint failed: tenant_records''), st)
      else if row_key row \<in> row_key ` set st
      then (Inl (Sql ''UNIQUE constraint failed: tenant_records.tenant_id, tenant_records.kind, tenant_records.record_id''), st)
      else (Inr (), st @ [row]))"

definition raw_of_record :: "payload_lib \<Rightarrow> string \<Rightarrow> tenant_record \<Rightarrow> raw_record" where
  "raw_of_record lib scope r =
     \<lparr>rr_tenant = scope, rr_kind = kind_as_str (tr_kind r), rr_record = tr_record r, rr_request = tr_request r,
      rr_origin = tr_origin r, rr_payload = payload_text lib (payload r)\<rparr>"

definition put_record ::
    "payload_lib \<Rightarrow> string option \<Rightarrow> tenant_record \<Rightarrow> tenant_store \<Rightarrow> (store_error + unit) \<times> tenant_store" where
  "put_record lib scope r st =
     (case required_scope scope of Inl e \<Rightarrow> (Inl e, st) | Inr s \<Rightarrow>
      if tr_tenant r \<noteq> s then (Inl TenantMismatch, st) else insert_record (raw_of_record lib s r) st)"

definition raw_to_record :: "payload_lib \<Rightarrow> raw_record \<Rightarrow> store_error + tenant_record" where
  "raw_to_record lib raw =
     bind_result (kind_from_str (rr_kind raw)) (\<lambda>k.
     bind_result (ok_or JsonError (payload_read lib (rr_payload raw))) (\<lambda>m.
     Inr \<lparr>tr_tenant = rr_tenant raw, tr_kind = k, tr_record = rr_record raw, tr_request = rr_request raw,
          tr_origin = rr_origin raw, payload = m\<rparr>))"

definition list_records ::
    "payload_lib \<Rightarrow> string option \<Rightarrow> record_kind option \<Rightarrow> tenant_store \<Rightarrow> store_error + tenant_record list" where
  "list_records lib scope kind st =
     bind_result (required_scope scope) (\<lambda>s.
       collect_results (raw_to_record lib)
         (sort_key (\<lambda>r. (rr_kind r, rr_record r))
           (filter (\<lambda>r. rr_tenant r = s \<and> (case kind of None \<Rightarrow> True | Some k \<Rightarrow> rr_kind r = kind_as_str k)) st)))"

definition audit_tenants_for_migration :: "tenant_store \<Rightarrow> string list" where
  "audit_tenants_for_migration st = sort (remdups (map rr_tenant (filter (\<lambda>r. rr_kind r = ''audit'') st)))"

definition audit_migration_batch ::
    "payload_lib \<Rightarrow> string option \<Rightarrow> string option \<Rightarrow> u64 \<Rightarrow> tenant_store \<Rightarrow> store_error + tenant_record list" where
  "audit_migration_batch lib scope after_record limit st =
     bind_result (required_scope scope) (\<lambda>s.
       collect_results (raw_to_record lib)
         (take (min (unat limit) (2 ^ 63 - 1)) (sort_key rr_record
           (filter (\<lambda>r. rr_tenant r = s \<and> rr_kind r = ''audit''
              \<and> (case after_record of None \<Rightarrow> True | Some i \<Rightarrow> i < rr_record r)) st))))"

definition get_record ::
    "payload_lib \<Rightarrow> string option \<Rightarrow> record_kind \<Rightarrow> string \<Rightarrow> tenant_store \<Rightarrow> store_error + tenant_record option" where
  "get_record lib scope kind record_id st =
     bind_result (required_scope scope) (\<lambda>s.
     case find (\<lambda>r. rr_tenant r = s \<and> rr_kind r = kind_as_str kind \<and> rr_record r = record_id) st of
       None \<Rightarrow> Inr None
     | Some raw \<Rightarrow> bind_result (raw_to_record lib raw) (\<lambda>r. Inr (Some r)))"

section \<open>Usage\<close>

record usage_entry =
  ue_ts_utc :: int
  ue_cost_minor :: "int option"
  ue_tokens_in :: "u64 option"
  ue_tokens_out :: "u64 option"
  ue_request_id :: "string option"

datatype usage_error = InvalidCost | StoreFailed store_error

definition json_i64 :: "int \<Rightarrow> json" where
  "json_i64 i = JNum (if i < 0 then NegInt i else PosInt (of_int i))"

definition insert_some :: "string \<Rightarrow> ('a \<Rightarrow> json) \<Rightarrow> 'a option \<Rightarrow> json_map \<Rightarrow> json_map" where
  "insert_some k f v m = (case v of None \<Rightarrow> m | Some x \<Rightarrow> bt_insert k (f x) m)"

definition usage_payload :: "usage_entry \<Rightarrow> json_map" where
  "usage_payload entry =
     insert_some ''request_id'' JStr (ue_request_id entry)
    (insert_some ''tokens_out'' (\<lambda>n. JNum (PosInt n)) (ue_tokens_out entry)
    (insert_some ''tokens_in'' (\<lambda>n. JNum (PosInt n)) (ue_tokens_in entry)
    (insert_some ''cost_minor'' json_i64 (ue_cost_minor entry)
    (bt_insert ''ts_utc'' (json_i64 (ue_ts_utc entry)) []))))"

definition write_usage_record ::
    "payload_lib \<Rightarrow> string option \<Rightarrow> string \<Rightarrow> usage_entry \<Rightarrow> tenant_store
     \<Rightarrow> (usage_error + tenant_record) \<times> tenant_store" where
  "write_usage_record lib tenant_id record_id entry st =
     (if (case ue_cost_minor entry of None \<Rightarrow> False | Some c \<Rightarrow> c < 0) then (Inl InvalidCost, st)
      else case required_scope tenant_id of Inl e \<Rightarrow> (Inl (StoreFailed e), st) | Inr t \<Rightarrow>
      let r = \<lparr>tr_tenant = t, tr_kind = Usage, tr_record = record_id,
               tr_request = (case ue_request_id entry of None \<Rightarrow> record_id | Some i \<Rightarrow> i),
               tr_origin = None, payload = usage_payload entry\<rparr>
      in case put_record lib (Some t) r st of
           (Inl e, st') \<Rightarrow> (Inl (StoreFailed e), st')
         | (Inr _, st') \<Rightarrow> (Inr r, st'))"

section \<open>Billing months\<close>

record billing_range =
  br_from :: int
  br_to :: int

datatype billing_error = InvalidPeriod string | InvalidTimeZone string | InvalidBoundary string string

text \<open>Which zone names parse, and the instant of the one local midnight that starts a month.\<close>

record zone_lib =
  zone_parses :: "string \<Rightarrow> bool"
  month_start :: "string \<Rightarrow> nat \<Rightarrow> nat \<Rightarrow> int option"
  iso_utc :: "int \<Rightarrow> string option"

definition is_digit :: "char \<Rightarrow> bool" where
  "is_digit c \<longleftrightarrow> CHR ''0'' \<le> c \<and> c \<le> CHR ''9''"

definition parse_digits :: "string \<Rightarrow> nat" where
  "parse_digits s = foldl (\<lambda>n c. n * 10 + (of_char c - 48)) 0 s"

definition resolve_billing_period_range :: "zone_lib \<Rightarrow> string \<Rightarrow> string \<Rightarrow> billing_error + billing_range" where
  "resolve_billing_period_range lib period billing_timezone =
     (if length period \<noteq> 7 \<or> list_ex (\<lambda>b. \<not> is_digit b) (take 4 period) \<or> period ! 4 \<noteq> CHR ''-''
         \<or> list_ex (\<lambda>b. \<not> is_digit b) (drop 5 period)
      then Inl (InvalidPeriod period)
      else let year = parse_digits (take 4 period); month = parse_digits (drop 5 period)
      in if month < 1 \<or> 12 < month then Inl (InvalidPeriod period)
      else if \<not> zone_parses lib billing_timezone then Inl (InvalidTimeZone billing_timezone)
      else let (next_year, next_month) = (if month = 12 then (year + 1, 1) else (year, month + 1))
      in case (month_start lib billing_timezone year month, month_start lib billing_timezone next_year next_month) of
           (Some f, Some t) \<Rightarrow> Inr \<lparr>br_from = f, br_to = t\<rparr>
         | _ \<Rightarrow> Inl (InvalidBoundary period billing_timezone))"

datatype usage_source = UsageRows | AuditRows

primrec source_kind :: "usage_source \<Rightarrow> record_kind" where
  "source_kind UsageRows = Usage"
| "source_kind AuditRows = Audit"

record usage_totals =
  cost_minor :: f64
  tokens_in :: f64
  tokens_out :: f64
  calls :: u64

datatype billing_aggregate_error =
    PeriodFailed billing_error | AggregateStoreFailed store_error | BillingScopeRequired
  | InvalidRecord string string | InvalidRange

definition required_number :: "tenant_record \<Rightarrow> string \<Rightarrow> billing_aggregate_error + f64" where
  "required_number r field =
     ok_or (InvalidRecord (tr_record r) field)
       (case Option.bind (map_of (payload r) field) as_f64 of
          None \<Rightarrow> None | Some v \<Rightarrow> if f64_is_finite v then Some v else None)"

definition optional_number :: "tenant_record \<Rightarrow> string \<Rightarrow> billing_aggregate_error + f64" where
  "optional_number r field =
     (case map_of (payload r) field of
        None \<Rightarrow> Inr f64_zero
      | Some JNull \<Rightarrow> Inr f64_zero
      | Some _ \<Rightarrow> required_number r field)"

definition in_period :: "billing_range \<Rightarrow> f64 \<Rightarrow> bool" where
  "in_period rng ts \<longleftrightarrow> \<not> (f64_lt ts (f64_of_int (br_from rng)) \<or> f64_le (f64_of_int (br_to rng)) ts)"

fun add_usage :: "billing_range \<Rightarrow> tenant_record list \<Rightarrow> usage_totals \<Rightarrow> billing_aggregate_error + usage_totals" where
  "add_usage rng [] totals = Inr totals"
| "add_usage rng (r # rs) totals =
     bind_result (required_number r ''ts_utc'') (\<lambda>ts.
     if \<not> in_period rng ts then add_usage rng rs totals
     else bind_result (optional_number r ''cost_minor'') (\<lambda>c.
       bind_result (optional_number r ''tokens_in'') (\<lambda>i.
       bind_result (optional_number r ''tokens_out'') (\<lambda>out.
       add_usage rng rs
         \<lparr>cost_minor = f64_add (cost_minor totals) c, tokens_in = f64_add (tokens_in totals) i,
          tokens_out = f64_add (tokens_out totals) out, calls = saturating_add (calls totals) 1\<rparr>))))"

definition aggregate_usage_records :: "tenant_record list \<Rightarrow> billing_range \<Rightarrow> billing_aggregate_error + usage_totals" where
  "aggregate_usage_records records rng =
     add_usage rng records \<lparr>cost_minor = f64_zero, tokens_in = f64_zero, tokens_out = f64_zero, calls = 0\<rparr>"

record monthly_usage =
  mu_tenant :: string
  mu_period :: string
  mu_timezone :: string
  mu_from :: string
  mu_to :: string
  mu_totals :: usage_totals

definition store_result :: "store_error + 'a \<Rightarrow> billing_aggregate_error + 'a" where
  "store_result r = map_sum AggregateStoreFailed id r"

definition query_monthly_usage ::
    "payload_lib \<Rightarrow> zone_lib \<Rightarrow> tenant_context option \<Rightarrow> string \<Rightarrow> usage_source option \<Rightarrow> tenant_store
     \<Rightarrow> billing_aggregate_error + monthly_usage" where
  "query_monthly_usage lib zones context period source st =
     (case context of None \<Rightarrow> Inl BillingScopeRequired | Some ctx \<Rightarrow>
      bind_result (store_result (list_records lib (Some (tc_tenant_id ctx))
          (Some (source_kind (case source of None \<Rightarrow> UsageRows | Some s \<Rightarrow> s))) st)) (\<lambda>records.
      bind_result (map_sum PeriodFailed id (resolve_billing_period_range zones period (tc_billing_timezone ctx))) (\<lambda>rng.
      bind_result (ok_or InvalidRange (iso_utc zones (br_from rng))) (\<lambda>f.
      bind_result (ok_or InvalidRange (iso_utc zones (br_to rng))) (\<lambda>t.
      bind_result (aggregate_usage_records records rng) (\<lambda>totals.
      Inr \<lparr>mu_tenant = tc_tenant_id ctx, mu_period = period, mu_timezone = tc_billing_timezone ctx,
           mu_from = f, mu_to = t, mu_totals = totals\<rparr>))))))"

section \<open>Token estimates\<close>

text \<open>The two counters, as the loop over the characters leaves them, and the division rounding up.\<close>

definition count_bytes :: "string \<Rightarrow> u64 \<times> u64" where
  "count_bytes text = foldl (\<lambda>(ascii_bytes, non_ascii_bytes) c.
     if c < 0x80 then (ascii_bytes + 1, non_ascii_bytes)
     else (ascii_bytes, non_ascii_bytes + of_nat (byte_len c))) (0, 0) (chars text)"

definition div_ceil :: "u64 \<Rightarrow> u64 \<Rightarrow> u64" where
  "div_ceil a b = (if a mod b = 0 then a div b else a div b + 1)"

definition estimate_tokens :: "string \<Rightarrow> string \<Rightarrow> u64" where
  "estimate_tokens text model_family =
     (let (ascii_bytes, non_ascii_tokens) = count_bytes text in div_ceil ascii_bytes 3 + non_ascii_tokens)"

section \<open>The store as an append-only store\<close>

definition put_step :: "payload_lib \<Rightarrow> string option \<times> tenant_record \<Rightarrow> tenant_store \<Rightarrow> tenant_store" where
  "put_step lib a st = snd (put_record lib (fst a) (snd a) st)"

lemma required_scopeD: "required_scope scope = Inr s \<Longrightarrow> scope = Some s"
  by (auto simp: required_scope_def split: option.splits if_splits)

lemma put_cases:
  "snd (put_record lib scope r st) = st
   \<or> scope = Some (tr_tenant r) \<and> row_key (raw_of_record lib (tr_tenant r) r) \<notin> row_key ` set st
     \<and> put_record lib scope r st = (Inr (), st @ [raw_of_record lib (tr_tenant r) r])"
  by (auto simp: put_record_def insert_record_def split: sum.splits if_splits dest: required_scopeD)

lemma put_okE:
  assumes "put_record lib scope r st = (Inr (), st')"
  obtains "required_scope scope = Inr (tr_tenant r)" "st' = st @ [raw_of_record lib (tr_tenant r) r]"
    "row_key (raw_of_record lib (tr_tenant r) r) \<notin> row_key ` set st"
  using assms by (auto simp: put_record_def insert_record_def split: sum.splits if_splits)

interpretation recs: append_only id row_key "\<lambda>_. True" "put_step lib" for lib
proof
  fix a st
  show "id (put_step lib a st) = id st
    \<or> (\<exists>r. id (put_step lib a st) = id st @ [r] \<and> row_key r \<notin> row_key ` set (id st) \<and> True)"
    using put_cases [of lib "fst a" "snd a" st] by (auto simp: put_step_def)
qed

lemma kind_from_as_str [simp]: "kind_from_str (kind_as_str k) = Inr k"
  by (cases k) (simp_all add: kind_from_str_def)

definition payload_stable :: "payload_lib \<Rightarrow> tenant_record \<Rightarrow> bool" where
  "payload_stable lib r \<longleftrightarrow> payload_read lib (payload_text lib (payload r)) = Some (payload r)"

lemma raw_roundtrip: "payload_stable lib r \<Longrightarrow> raw_to_record lib (raw_of_record lib (tr_tenant r) r) = Inr r"
  by (cases r) (simp add: raw_to_record_def raw_of_record_def payload_stable_def ok_or_def)

section \<open>Properties of the store\<close>

text \<open>
  What was written is what is read: a record accepted for a tenant is found under its kind and id, field
  by field, after any sequence of further writes, which can never overwrite it.
\<close>

theorem record_roundtrip:
  assumes "put_record lib scope r st = (Inr (), st1)" and "distinct (map row_key st)" and "payload_stable lib r"
  shows "get_record lib scope (tr_kind r) (tr_record r) (fold (put_step lib) ops st1) = Inr (Some r)"
proof -
  let ?raw = "raw_of_record lib (tr_tenant r) r" and ?st = "fold (put_step lib) ops st1"
  from put_okE [OF assms(1)] have scope: "required_scope scope = Inr (tr_tenant r)"
    and st1: "st1 = st @ [?raw]" "row_key ?raw \<notin> row_key ` set st" by auto
  with assms(2) have dist: "distinct (map row_key (id st1))" "?raw \<in> set (id st1)" by auto
  let ?p = "\<lambda>x. rr_tenant x = tr_tenant r \<and> rr_kind x = kind_as_str (tr_kind r) \<and> rr_record x = tr_record r"
  have key: "?p x \<longleftrightarrow> row_key x = row_key ?raw" for x by (auto simp: row_key_def raw_of_record_def)
  have "?raw \<in> set ?st" using recs.run_keeps [OF dist(2)] by simp
  then obtain x where x: "find ?p ?st = Some x"
    using key by (cases "find ?p ?st") (auto simp: find_None_iff)
  then have "x \<in> set ?st" "row_key x = row_key ?raw" using key by (auto simp: find_Some_iff)
  with recs.run_find [OF dist, of x lib ops] have "x = ?raw" by simp
  with x scope raw_roundtrip [OF assms(3)] show ?thesis by (simp add: get_record_def)
qed

lemma raw_to_record_fields:
  "raw_to_record lib raw = Inr r \<Longrightarrow> tr_tenant r = rr_tenant raw \<and> rr_kind raw = kind_as_str (tr_kind r)
     \<and> tr_record r = rr_record raw"
  by (auto simp: raw_to_record_def result_simps kind_from_str_def split: if_splits)

lemma kind_inject: "kind_as_str a = kind_as_str b \<longleftrightarrow> a = b"
  by (cases a; cases b) simp_all

lemma raw_to_record_scope: "raw_to_record lib raw \<noteq> Inl ScopeRequired"
  by (auto simp: raw_to_record_def result_simps kind_from_str_def)

text \<open>
  Records are read by their own tenant only: a listing and a lookup answer only records of the tenant in
  the scope and of the kind asked for, and without a scope that names a tenant every read and write is refused
  and nothing is stored.
\<close>

theorem records_tenant_scoped:
  "(case list_records lib scope kind st of Inl _ \<Rightarrow> True
      | Inr rs \<Rightarrow> list_all (\<lambda>r. scope = Some (tr_tenant r) \<and> kind \<in> {None, Some (tr_kind r)}) rs)
   \<and> (case get_record lib scope k i st of
        Inr (Some r) \<Rightarrow> scope = Some (tr_tenant r) \<and> tr_kind r = k \<and> tr_record r = i | _ \<Rightarrow> True)
   \<and> (let no_scope = (case scope of None \<Rightarrow> True | Some s \<Rightarrow> is_blank s)
      in no_scope = (list_records lib scope kind st = Inl ScopeRequired)
         \<and> no_scope = (get_record lib scope k i st = Inl ScopeRequired)
         \<and> no_scope = (put_record lib scope r st = (Inl ScopeRequired, st)))"
proof (intro conjI)
  show "case list_records lib scope kind st of Inl _ \<Rightarrow> True
      | Inr rs \<Rightarrow> list_all (\<lambda>r. scope = Some (tr_tenant r) \<and> kind \<in> {None, Some (tr_kind r)}) rs"
  proof (cases "list_records lib scope kind st")
    case (Inr rs)
    then obtain s where s: "scope = Some s" and rs: "collect_results (raw_to_record lib)
        (sort_key (\<lambda>r. (rr_kind r, rr_record r))
           (filter (\<lambda>r. rr_tenant r = s \<and> (case kind of None \<Rightarrow> True | Some k \<Rightarrow> rr_kind r = kind_as_str k)) st)) = Inr rs"
      by (auto simp: list_records_def bind_result_eq_Inr dest: required_scopeD)
    have "scope = Some (tr_tenant r) \<and> kind \<in> {None, Some (tr_kind r)}" if r: "r \<in> set rs" for r
      using collect_results_source [OF rs r] raw_to_record_fields [of lib _ r]
      by (cases kind) (auto simp: s kind_inject)
    with Inr show ?thesis by (simp add: list_all_iff)
  qed simp
next
  show "case get_record lib scope k i st of
      Inr (Some r) \<Rightarrow> scope = Some (tr_tenant r) \<and> tr_kind r = k \<and> tr_record r = i | _ \<Rightarrow> True"
    by (auto simp: get_record_def result_simps find_Some_iff kind_inject split: sum.splits option.splits
        dest!: raw_to_record_fields required_scopeD)
next
  show "let no_scope = (case scope of None \<Rightarrow> True | Some s \<Rightarrow> is_blank s)
      in no_scope = (list_records lib scope kind st = Inl ScopeRequired)
         \<and> no_scope = (get_record lib scope k i st = Inl ScopeRequired)
         \<and> no_scope = (put_record lib scope r st = (Inl ScopeRequired, st))"
  proof (cases "required_scope scope")
    case (Inl e)
    then have "e = ScopeRequired" "case scope of None \<Rightarrow> True | Some s \<Rightarrow> is_blank s"
      by (auto simp: required_scope_def split: option.splits if_splits)
    with Inl show ?thesis by (simp add: list_records_def get_record_def put_record_def)
  next
    case (Inr s)
    then have "\<not> (case scope of None \<Rightarrow> True | Some s \<Rightarrow> is_blank s)"
      by (auto simp: required_scope_def split: option.splits if_splits)
    with Inr show ?thesis
      by (auto simp: list_records_def get_record_def put_record_def insert_record_def result_simps
          raw_to_record_scope split: option.splits dest!: collect_results_error)
  qed
qed

section \<open>Billing\<close>

text \<open>The canonical text of a month: four digits, a dash, two digits.\<close>

definition digit :: "nat \<Rightarrow> char" where "digit n = char_of (48 + n mod 10)"

definition period_text :: "nat \<Rightarrow> nat \<Rightarrow> string" where
  "period_text y m = [digit (y div 1000), digit (y div 100), digit (y div 10), digit y, CHR ''-'', digit (m div 10), digit m]"

lemma of_char_digit: "of_char (digit n) = (48 + n mod 10 :: nat)"
proof -
  have "n mod 10 < 10" by simp
  then have "48 + n mod 10 < 256" by linarith
  then show ?thesis by (simp add: digit_def)
qed

lemma is_digit_digit: "is_digit (digit n)"
proof -
  have "n mod 10 < 10" by simp
  then have "n mod 10 \<le> 9" by linarith
  then show ?thesis by (simp add: is_digit_def less_eq_char_def of_char_digit)
qed

lemma parse_year: "y < 10000 \<Longrightarrow> parse_digits [digit (y div 1000), digit (y div 100), digit (y div 10), digit y] = y"
proof -
  assume y: "y < 10000"
  have div: "y div 100 = y div 10 div 10" "y div 1000 = y div 10 div 10 div 10"
    by (simp_all flip: div_mult2_eq)
  have "y div 10 div 10 div 10 < 10" using y by (simp flip: div_mult2_eq)
  then show ?thesis
    using div_mult_mod_eq [of y 10] div_mult_mod_eq [of "y div 10" 10] div_mult_mod_eq [of "y div 10 div 10" 10]
    unfolding div by (simp add: parse_digits_def of_char_digit)
qed

lemma parse_month: "m < 100 \<Longrightarrow> parse_digits [digit (m div 10), digit m] = m"
  by (simp add: parse_digits_def of_char_digit)

lemma resolve_period_text:
  assumes "y < 10000" "1 \<le> m" "m \<le> 12"
  shows "resolve_billing_period_range lib (period_text y m) tz =
    (if \<not> zone_parses lib tz then Inl (InvalidTimeZone tz)
     else case (month_start lib tz y m,
                if m = 12 then month_start lib tz (y + 1) 1 else month_start lib tz y (m + 1)) of
            (Some f, Some t) \<Rightarrow> Inr \<lparr>br_from = f, br_to = t\<rparr>
          | _ \<Rightarrow> Inl (InvalidBoundary (period_text y m) tz))"
  using assms parse_year [OF assms(1)] parse_month [of m]
  by (auto simp: resolve_billing_period_range_def period_text_def is_digit_digit Let_def split: option.splits)

lemma f64_of_int_not_nan: "\<not> f64_is_nan (f64_of_int i)"
proof -
  have "\<not> f64_is_nan (f64_of_nat n)" for n
    unfolding f64_of_nat_def by (rule make_round_not_nan)
  moreover have "f64_magnitude (f64_neg x) = f64_magnitude x" for x
    by (simp add: f64_magnitude_def f64_neg_def take_bit_flip_bit_eq)
  ultimately show ?thesis by (simp add: f64_of_int_def f64_is_nan_def)
qed

text \<open>
  Billing months of one zone fit together without gap or overlap: for a month and the month after it,
  the first ends at the instant the second begins, no time stamp is billed in both, and one that is not
  before the first and not after the second is billed in one of them.
\<close>

theorem billing_months_adjacent:
  assumes "y < 10000" "1 \<le> m" "m \<le> 12" and following: "(y', m') = (if m = 12 then (y + 1, 1) else (y, m + 1))" "y' < 10000"
    and "resolve_billing_period_range lib (period_text y m) tz = Inr r"
    and "resolve_billing_period_range lib (period_text y' m') tz = Inr r'"
    and "\<not> f64_is_nan ts"
  shows "br_to r = br_from r' \<and> \<not> (in_period r ts \<and> in_period r' ts)
    \<and> (in_period r ts \<or> in_period r' ts
       \<or> f64_lt ts (f64_of_int (br_from r)) \<or> f64_le (f64_of_int (br_to r')) ts)"
proof -
  have m': "1 \<le> m'" "m' \<le> 12" using assms(3) following(1) by (auto split: if_splits)
  have to: "br_to r = br_from r'"
    using assms(6,7) following(1) unfolding resolve_period_text [OF assms(1-3)] resolve_period_text [OF following(2) m']
    by (auto split: if_splits option.splits)
  have "f64_lt ts (f64_of_int (br_from r')) \<longleftrightarrow> \<not> f64_le (f64_of_int (br_from r')) ts"
    using not_lt_le [OF assms(8) f64_of_int_not_nan [of "br_from r'"]] by blast
  with to show ?thesis by (auto simp: in_period_def)
qed

text \<open>A field that is absent, null or a non-negative integer, as that integer.\<close>

definition whole :: "tenant_record \<Rightarrow> string \<Rightarrow> nat option" where
  "whole r f = (case map_of (payload r) f of None \<Rightarrow> Some 0 | Some JNull \<Rightarrow> Some 0
     | Some (JNum (PosInt n)) \<Rightarrow> Some (unat n) | _ \<Rightarrow> None)"

definition stamp :: "tenant_record \<Rightarrow> f64" where
  "stamp r = projr (required_number r ''ts_utc'')"

definition billable :: "tenant_record \<Rightarrow> bool" where
  "billable r \<longleftrightarrow> is_ok (required_number r ''ts_utc'') \<and> whole r ''cost_minor'' \<noteq> None
     \<and> whole r ''tokens_in'' \<noteq> None \<and> whole r ''tokens_out'' \<noteq> None"

definition amount :: "string \<Rightarrow> tenant_record list \<Rightarrow> nat" where
  "amount f rs = sum_list (map (\<lambda>r. the (whole r f)) rs)"

lemma f64_zero_nat: "f64_zero = f64_of_nat 0"
  by (simp add: f64_zero_def f64_of_nat_def f64_make_def round_ratio_def bit_length.simps)

lemma optional_whole: "whole r f = Some n \<Longrightarrow> n < 2 ^ 53 \<Longrightarrow> optional_number r f = Inr (f64_of_nat n)"
  using f64_of_nat_exact(2) [of n]
  by (auto simp: whole_def optional_number_def required_number_def ok_or_def f64_zero_nat
      split: option.splits json.splits jnum.splits)

lemma add_usage_exact:
  assumes "list_all billable rs"
    and "c + amount ''cost_minor'' (filter (\<lambda>r. in_period rng (stamp r)) rs) < 2 ^ 53"
    and "i + amount ''tokens_in'' (filter (\<lambda>r. in_period rng (stamp r)) rs) < 2 ^ 53"
    and "out + amount ''tokens_out'' (filter (\<lambda>r. in_period rng (stamp r)) rs) < 2 ^ 53"
    and "k + length (filter (\<lambda>r. in_period rng (stamp r)) rs) < 2 ^ 64"
  shows "add_usage rng rs \<lparr>cost_minor = f64_of_nat c, tokens_in = f64_of_nat i, tokens_out = f64_of_nat out, calls = of_nat k\<rparr>
    = Inr \<lparr>cost_minor = f64_of_nat (c + amount ''cost_minor'' (filter (\<lambda>r. in_period rng (stamp r)) rs)),
           tokens_in = f64_of_nat (i + amount ''tokens_in'' (filter (\<lambda>r. in_period rng (stamp r)) rs)),
           tokens_out = f64_of_nat (out + amount ''tokens_out'' (filter (\<lambda>r. in_period rng (stamp r)) rs)),
           calls = of_nat (k + length (filter (\<lambda>r. in_period rng (stamp r)) rs))\<rparr>"
  using assms
proof (induction rs arbitrary: c i out k)
  case Nil
  then show ?case by (simp add: amount_def)
next
  case (Cons r rs)
  from Cons.prems(1) have bill: "list_all billable rs" "billable r" by simp_all
  from bill(2) obtain ts where ts: "required_number r ''ts_utc'' = Inr ts" "stamp r = ts"
    by (auto simp: billable_def is_ok_iff stamp_def)
  show ?case
  proof (cases "in_period rng ts")
    case False
    with Cons.IH [OF bill(1)] Cons.prems ts show ?thesis by simp
  next
    case True
    from bill(2) obtain nc ni no where whole: "whole r ''cost_minor'' = Some nc" "whole r ''tokens_in'' = Some ni"
      "whole r ''tokens_out'' = Some no" by (auto simp: billable_def)
    let ?rest = "\<lambda>f. amount f (filter (\<lambda>r. in_period rng (stamp r)) rs)"
    have sums: "c + nc + ?rest ''cost_minor'' < 2 ^ 53" "i + ni + ?rest ''tokens_in'' < 2 ^ 53"
      "out + no + ?rest ''tokens_out'' < 2 ^ 53" "k + 1 + length (filter (\<lambda>r. in_period rng (stamp r)) rs) < 2 ^ 64"
      using Cons.prems(2-) True whole ts(2) by (simp_all add: amount_def)
    then have small: "c + nc < 2 ^ 53" "i + ni < 2 ^ 53" "out + no < 2 ^ 53" "k + 1 < 2 ^ 64" by linarith+
    then have parts: "nc < 2 ^ 53" "ni < 2 ^ 53" "no < 2 ^ 53" by linarith+
    have k: "saturating_add (of_nat k) 1 = (of_nat (k + 1) :: u64)"
      using small(4) by (simp add: saturating_add_def unat_of_nat take_bit_nat_eq_self)
    have "add_usage rng (r # rs) \<lparr>cost_minor = f64_of_nat c, tokens_in = f64_of_nat i, tokens_out = f64_of_nat out, calls = of_nat k\<rparr>
      = add_usage rng rs \<lparr>cost_minor = f64_of_nat (c + nc), tokens_in = f64_of_nat (i + ni),
          tokens_out = f64_of_nat (out + no), calls = of_nat (k + 1)\<rparr>"
      using ts True optional_whole [OF whole(1) parts(1)] optional_whole [OF whole(2) parts(2)]
        optional_whole [OF whole(3) parts(3)]
      by (simp add: f64_add_of_nat [OF small(1)] f64_add_of_nat [OF small(2)] f64_add_of_nat [OF small(3)] k
          del: of_nat_add)
    also have "\<dots> = Inr \<lparr>cost_minor = f64_of_nat (c + nc + ?rest ''cost_minor''),
        tokens_in = f64_of_nat (i + ni + ?rest ''tokens_in''), tokens_out = f64_of_nat (out + no + ?rest ''tokens_out''),
        calls = of_nat (k + 1 + length (filter (\<lambda>r. in_period rng (stamp r)) rs))\<rparr>"
      by (rule Cons.IH [OF bill(1) sums])
    finally show ?thesis using True ts whole by (simp add: amount_def add.assoc)
  qed
qed

text \<open>
  C40. The bill of a month is exact: over records with a time stamp and whole non-negative amounts, the totals
  are the exact integer sums over the records of the month, no float drift, and the number of calls is the
  number of those records, as long as each of the three sums is below two to the 53 and there are fewer than
  two to the 64 records.
\<close>

theorem billing_totals_exact:
  assumes "list_all billable rs" and month: "month = filter (\<lambda>r. in_period rng (stamp r)) rs"
    and "amount ''cost_minor'' month < 2 ^ 53" "amount ''tokens_in'' month < 2 ^ 53" "amount ''tokens_out'' month < 2 ^ 53"
    and "length month < 2 ^ 64"
  shows "aggregate_usage_records rs rng
    = Inr \<lparr>cost_minor = f64_of_nat (amount ''cost_minor'' month), tokens_in = f64_of_nat (amount ''tokens_in'' month),
           tokens_out = f64_of_nat (amount ''tokens_out'' month), calls = of_nat (length month)\<rparr>"
  using add_usage_exact [OF assms(1), of 0 rng 0 0 0] assms(3-)
  by (simp add: aggregate_usage_records_def month f64_zero_nat)

section \<open>The estimate\<close>

definition ascii_count :: "ustr \<Rightarrow> nat" where
  "ascii_count cs = length (filter (\<lambda>c. c < 0x80) cs)"

definition wide_bytes :: "ustr \<Rightarrow> nat" where
  "wide_bytes cs = sum_list (map byte_len (filter (\<lambda>c. \<not> c < 0x80) cs))"

lemma count_bytes_eq: "count_bytes text = (of_nat (ascii_count (chars text)), of_nat (wide_bytes (chars text)))"
proof -
  have "foldl (\<lambda>(a, b) c. if c < 0x80 then (a + 1, b) else (a, b + of_nat (byte_len c))) (a, b) cs
      = (a + of_nat (ascii_count cs), b + of_nat (wide_bytes cs))" for a b :: u64 and cs
    by (induction cs arbitrary: a b) (simp_all add: ascii_count_def wide_bytes_def algebra_simps)
  from this [of 0 0 "chars text"] show ?thesis by (simp add: count_bytes_def)
qed

lemma wide_bytes_ge: "length cs \<le> ascii_count cs + wide_bytes cs"
  by (induction cs) (auto simp: ascii_count_def wide_bytes_def byte_len_def)

lemma wide_bytes_le: "ascii_count cs + wide_bytes cs \<le> 4 * length cs"
  by (induction cs) (auto simp: ascii_count_def wide_bytes_def byte_len_def)

lemma unat_of_nat_u64: "n < 2 ^ 64 \<Longrightarrow> unat (of_nat n :: u64) = n"
  by (simp add: unat_of_nat take_bit_nat_eq_self)

lemma unat_add_u64: "unat a + unat b < 2 ^ 64 \<Longrightarrow> unat (a + b) = unat a + unat b" for a b :: u64
  by (simp add: unat_word_ariths(1))

lemma div_ceil_three:
  assumes "n < 2 ^ 63"
  shows "unat (div_ceil (of_nat n) 3) = (n + 2) div 3"
proof -
  have u: "unat (of_nat n :: u64) = n" using assms by (intro unat_of_nat_u64) simp
  have "unat (of_nat n mod (3::u64)) = n mod 3" by (simp add: unat_mod u)
  then have m: "of_nat n mod (3::u64) = 0 \<longleftrightarrow> n mod 3 = 0" by (metis unat_eq_zero)
  have d: "unat (of_nat n div (3::u64)) = n div 3" by (simp add: unat_div u)
  have "unat (of_nat n div (3::u64)) + unat (1::u64) < 2 ^ 64" unfolding d using assms by simp
  from unat_add_u64 [OF this] have "unat (of_nat n div (3::u64) + 1) = n div 3 + 1" by (simp only: d unat_1)
  with m d have "unat (div_ceil (of_nat n) 3) = (if n mod 3 = 0 then n div 3 else n div 3 + 1)"
    by (simp add: div_ceil_def)
  also have "\<dots> = (n + 2) div 3" by presburger
  finally show ?thesis .
qed

text \<open>
  The token estimate is conservative: for every text of fewer than two to the 60 characters the machine
  arithmetic does not wrap, the estimate is a third of the ASCII bytes, rounded up, plus every other
  byte, and it is never below the characters divided by four, rounded up.
\<close>

theorem estimate_conservative:
  assumes "length (chars text) < 2 ^ 60"
  shows "unat (estimate_tokens text family) = (ascii_count (chars text) + 2) div 3 + wide_bytes (chars text)
    \<and> (length (chars text) + 3) div 4 \<le> unat (estimate_tokens text family)"
proof -
  let ?a = "ascii_count (chars text)" and ?w = "wide_bytes (chars text)"
  have le: "?a + ?w \<le> 4 * length (chars text)" "length (chars text) \<le> ?a + ?w"
    by (rule wide_bytes_le, rule wide_bytes_ge)
  with assms have small: "?a < 2 ^ 63" "?w < 2 ^ 64" "(?a + 2) div 3 + ?w < 2 ^ 64" by simp_all
  have "unat (div_ceil (of_nat ?a) 3 + of_nat ?w) = (?a + 2) div 3 + ?w"
  proof -
    have "unat (div_ceil (of_nat ?a) 3) + unat (of_nat ?w :: u64) < 2 ^ 64"
      unfolding div_ceil_three [OF small(1)] unat_of_nat_u64 [OF small(2)] by (rule small(3))
    from unat_add_u64 [OF this] show ?thesis
      by (simp only: div_ceil_three [OF small(1)] unat_of_nat_u64 [OF small(2)])
  qed
  then have "unat (estimate_tokens text family) = (?a + 2) div 3 + ?w"
    by (simp only: estimate_tokens_def count_bytes_eq Let_def prod.case)
  moreover have "(length (chars text) + 3) div 4 \<le> (?a + 2) div 3 + ?w"
  proof -
    have "(length (chars text) + 3) div 4 \<le> (?a + 3 + ?w * 4) div 4" using le(2) by (intro div_le_mono) simp
    also have "\<dots> = (?a + 3) div 4 + ?w" by simp
    also have "(n + 3) div 4 \<le> (n + 2) div 3" for n :: nat by presburger
    finally show ?thesis by simp
  qed
  ultimately show ?thesis by simp
qed

section \<open>Concrete records\<close>

definition sample_payload_lib :: payload_lib where
  "sample_payload_lib = \<lparr>payload_text = (\<lambda>_. ''{...}''),
     payload_read = (\<lambda>_. Some [(''cost_minor'', JNum (PosInt 7)), (''ts_utc'', JNum (PosInt 50))])\<rparr>"

definition sample_record :: "string \<Rightarrow> tenant_record" where
  "sample_record i = \<lparr>tr_tenant = ''acme'', tr_kind = Usage, tr_record = i, tr_request = ''q'', tr_origin = None,
     payload = [(''cost_minor'', JNum (PosInt 7)), (''ts_utc'', JNum (PosInt 50))]\<rparr>"

lemma sample_put:
  "put_record sample_payload_lib (Some ''acme'') (sample_record ''r1'') []
   = (Inr (), [raw_of_record sample_payload_lib ''acme'' (sample_record ''r1'')])"
  by (simp add: put_record_def required_scope_def insert_record_def sample_record_def raw_of_record_def sql_blank_def
      is_blank_def chars_def trim_matches_def is_unicode_whitespace_def)

theorem record_roundtrip_witness:
  "get_record sample_payload_lib (Some ''acme'') Usage ''r1''
     (fold (put_step sample_payload_lib) [(Some ''acme'', sample_record ''r2''), (Some ''acme'', sample_record ''r1'')]
       [raw_of_record sample_payload_lib ''acme'' (sample_record ''r1'')]) = Inr (Some (sample_record ''r1''))"
proof -
  have "payload_stable sample_payload_lib (sample_record ''r1'')"
    by (simp add: payload_stable_def sample_payload_lib_def sample_record_def)
  moreover have "tr_kind (sample_record i) = Usage" "tr_record (sample_record i) = i" for i
    by (simp_all add: sample_record_def)
  ultimately show ?thesis
    using record_roundtrip [OF sample_put, of "[(Some ''acme'', sample_record ''r2''), (Some ''acme'', sample_record ''r1'')]"]
    by (simp only: list.map distinct.simps)
qed

definition sample_zone :: zone_lib where
  "sample_zone = \<lparr>zone_parses = (\<lambda>z. z = ''UTC''), month_start = (\<lambda>_ y m. Some (int (12 * y + m))), iso_utc = (\<lambda>_. None)\<rparr>"

theorem billing_months_adjacent_witness:
  "\<exists>r r'. resolve_billing_period_range sample_zone ''2026-12'' ''UTC'' = Inr r
     \<and> resolve_billing_period_range sample_zone ''2027-01'' ''UTC'' = Inr r' \<and> br_to r = br_from r'"
proof -
  have months: "''2026-12'' = period_text 2026 12" "''2027-01'' = period_text 2027 1"
    by (simp_all add: period_text_def digit_def char_of_def bit_Suc_0_iff)
  have r: "resolve_billing_period_range sample_zone ''2026-12'' ''UTC'' = Inr \<lparr>br_from = 24324, br_to = 24325\<rparr>"
    "resolve_billing_period_range sample_zone ''2027-01'' ''UTC'' = Inr \<lparr>br_from = 24325, br_to = 24326\<rparr>"
    unfolding months by (simp_all add: resolve_period_text sample_zone_def)
  have "\<not> f64_is_nan f64_zero" by (simp add: f64_is_nan_def f64_magnitude_def f64_zero_def)
  then show ?thesis
    using billing_months_adjacent [of 2026 12 2027 1 sample_zone "''UTC''"] r unfolding months by auto
qed

lemma small_stamp:
  assumes "n < 2 ^ 53" "m < 2 ^ 53"
  shows "f64_lt (f64_of_nat n) (f64_of_nat m) \<longleftrightarrow> n < m"
  using f64_of_nat_exact [OF assms(1)] f64_of_nat_exact [OF assms(2)]
  by (simp add: f64_lt_def finite_not_nan f64_ord_units_less)

theorem billing_totals_exact_witness:
  "aggregate_usage_records [sample_record ''a'', sample_record ''b''] \<lparr>br_from = 10, br_to = 60\<rparr>
   = Inr \<lparr>cost_minor = f64_of_nat 14, tokens_in = f64_of_nat 0, tokens_out = f64_of_nat 0, calls = 2\<rparr>"
proof -
  have num: "required_number (sample_record i) ''ts_utc'' = Inr (f64_of_nat 50)" for i
    using f64_of_nat_exact(2) [of 50] by (simp add: required_number_def sample_record_def ok_or_def)
  then have stamp: "stamp (sample_record i) = f64_of_nat 50" for i by (simp add: stamp_def)
  have "in_period \<lparr>br_from = 10, br_to = 60\<rparr> (f64_of_nat 50)"
    using not_lt_le [of "f64_of_nat 50" "f64_of_nat 60"] f64_of_int_not_nan [of 50] f64_of_int_not_nan [of 60]
      small_stamp [of 50 10] small_stamp [of 50 60]
    by (auto simp: in_period_def f64_of_int_def f64_le_def f64_lt_def)
  then have month: "filter (\<lambda>r. in_period \<lparr>br_from = 10, br_to = 60\<rparr> (stamp r)) [sample_record ''a'', sample_record ''b'']
      = [sample_record ''a'', sample_record ''b'']" by (simp add: stamp)
  have whole: "whole (sample_record i) ''cost_minor'' = Some 7" "whole (sample_record i) ''tokens_in'' = Some 0"
    "whole (sample_record i) ''tokens_out'' = Some 0" for i
    by (simp_all add: whole_def sample_record_def)
  have "list_all billable [sample_record ''a'', sample_record ''b'']"
    by (simp add: billable_def num whole)
  from billing_totals_exact [OF this month [symmetric]] show ?thesis by (simp add: amount_def whole)
qed

theorem estimate_conservative_witness: "unat (estimate_tokens ''hello'' ''qwen'') = 2"
  using estimate_conservative [of "''hello''" "''qwen''"]
  by (simp add: chars_def ascii_count_def wide_bytes_def)

end
