(* ===== verification/Recommender.thy ===== *)
theory Recommender
  imports Privacy
begin

text \<open>
  The model recommender (\<^verbatim>\<open>crates/idoris-recommender/src\<close>): memory estimates (\<^verbatim>\<open>memory.rs\<close>), the
  catalogue (\<^verbatim>\<open>catalog/types.rs\<close>, \<^verbatim>\<open>roles.rs\<close>, \<^verbatim>\<open>model.rs\<close>) and the recommendation
  (\<^verbatim>\<open>recommend/\<close>). Rendered warnings and reasons are values that carry what the code
  formats; the summary text (\<open>build_tradeoff\<close>) is not modelled.
\<close>

section \<open>Memory estimates\<close>

definition DEFAULT_OVERHEAD_GB :: f64 where "DEFAULT_OVERHEAD_GB = f64_of_nat 1"
definition BYTES_PER_GB :: f64 where "BYTES_PER_GB = f64_of_nat 1000000000"
definition BYTES_PER_MIB :: f64 where "BYTES_PER_MIB = f64_mul (f64_of_nat 1024) (f64_of_nat 1024)"
definition BYTES_PER_GIB :: f64 where
  "BYTES_PER_GIB = f64_mul (f64_mul (f64_of_nat 1024) (f64_of_nat 1024)) (f64_of_nat 1024)"

record quant_entry =
  qe_bpp :: f64
  qe_quality :: f64

definition QUANT_TABLE :: "(string \<times> quant_entry) list" where
  "QUANT_TABLE =
     [(''fp16'', \<lparr>qe_bpp = f64_of_nat 2, qe_quality = f64_of_nat 1\<rparr>),
      (''q8_0'', \<lparr>qe_bpp = f64_of_nat 1, qe_quality = f64_literal 998 1000\<rparr>),
      (''q6_k'', \<lparr>qe_bpp = f64_literal 82 100, qe_quality = f64_literal 995 1000\<rparr>),
      (''q5_k_m'', \<lparr>qe_bpp = f64_literal 69 100, qe_quality = f64_literal 99 100\<rparr>),
      (''q4_k_m'', \<lparr>qe_bpp = f64_literal 55 100, qe_quality = f64_literal 98 100\<rparr>),
      (''q3_k'', \<lparr>qe_bpp = f64_literal 43 100, qe_quality = f64_literal 95 100\<rparr>),
      (''q2_k'', \<lparr>qe_bpp = f64_literal 30 100, qe_quality = f64_literal 85 100\<rparr>)]"

definition lookup_quant :: "string \<Rightarrow> quant_entry option" where
  "lookup_quant label = map_of QUANT_TABLE label"

record quant_spec =
  qs_label :: "string option"
  qs_bpp :: "f64 option"
  qs_weights_gb :: "f64 option"
  qs_quality :: f64

datatype kv_quant = Fp16 | Q8 | Q4

primrec bytes_per_element :: "kv_quant \<Rightarrow> f64" where
  "bytes_per_element Fp16 = f64_of_nat 2"
| "bytes_per_element Q8 = f64_of_nat 1"
| "bytes_per_element Q4 = f64_literal 5 10"

datatype wired_mode = Conservative | Moderate | Aggressive

primrec wired_fraction :: "wired_mode \<Rightarrow> f64" where
  "wired_fraction Conservative = f64_literal 66 100"
| "wired_fraction Moderate = f64_literal 70 100"
| "wired_fraction Aggressive = f64_literal 75 100"

record model_arch =
  n_layers :: f64
  n_kv_heads :: f64
  head_dim :: f64

datatype memory_error = MemoryError

definition bytes_to_gb :: "f64 \<Rightarrow> f64" where "bytes_to_gb bytes = f64_div bytes BYTES_PER_GB"
definition bytes_to_mib :: "f64 \<Rightarrow> f64" where "bytes_to_mib bytes = f64_div bytes BYTES_PER_MIB"
definition bytes_to_gib :: "f64 \<Rightarrow> f64" where "bytes_to_gib bytes = f64_div bytes BYTES_PER_GIB"

definition weight_bytes :: "f64 \<Rightarrow> quant_spec \<Rightarrow> memory_error + f64" where
  "weight_bytes params_total_b spec =
     (case qs_weights_gb spec of
        Some w \<Rightarrow> Inr (f64_mul w BYTES_PER_GB)
      | None \<Rightarrow> (case qs_bpp spec of
          Some bpp \<Rightarrow> Inr (f64_mul (f64_mul params_total_b bpp) BYTES_PER_GB)
        | None \<Rightarrow> Inl MemoryError))"

definition weights_gb :: "f64 \<Rightarrow> quant_spec \<Rightarrow> memory_error + f64" where
  "weights_gb params_total_b spec = map_sum id bytes_to_gb (weight_bytes params_total_b spec)"

definition kv_bytes :: "model_arch \<Rightarrow> u64 \<Rightarrow> kv_quant \<Rightarrow> f64" where
  "kv_bytes arch ctx q =
     f64_mul (f64_mul (f64_mul (f64_mul (f64_mul (f64_of_nat 2) (n_layers arch)) (n_kv_heads arch)) (head_dim arch))
       (f64_of_nat (unat ctx))) (bytes_per_element q)"

definition kv_cache_gb :: "model_arch \<Rightarrow> u64 \<Rightarrow> kv_quant \<Rightarrow> f64" where
  "kv_cache_gb arch ctx q = bytes_to_gb (kv_bytes arch ctx q)"

definition footprint_gb ::
    "f64 \<Rightarrow> quant_spec \<Rightarrow> model_arch \<Rightarrow> u64 \<Rightarrow> kv_quant \<Rightarrow> f64 option \<Rightarrow> memory_error + f64" where
  "footprint_gb params_total_b quant arch ctx q overhead_gb =
     bind_result (weights_gb params_total_b quant) (\<lambda>w.
     Inr (f64_add (f64_add w (kv_cache_gb arch ctx q))
       (case overhead_gb of None \<Rightarrow> DEFAULT_OVERHEAD_GB | Some g \<Rightarrow> g)))"

text \<open>\<open>f64::clamp\<close>.\<close>

definition f64_clamp :: "f64 \<Rightarrow> f64 \<Rightarrow> f64 \<Rightarrow> f64" where
  "f64_clamp x lo hi = (if f64_lt x lo then lo else if f64_lt hi x then hi else x)"

text \<open>\<open>round() as i64\<close>: half away from zero, saturating, and zero for NaN.\<close>

definition f64_round_i64 :: "f64 \<Rightarrow> int" where
  "f64_round_i64 x =
     (let n = int ((2 * magnitude_units (f64_magnitude x) + 2 ^ 1074) div 2 ^ 1075)
      in if f64_is_nan x then 0
         else if f64_is_inf x then (if f64_negative x then - (2 ^ 63) else 2 ^ 63 - 1)
         else max (- (2 ^ 63)) (min (2 ^ 63 - 1) (if f64_negative x then - n else n)))"

definition apple_reserve_gb :: "f64 \<Rightarrow> f64" where
  "apple_reserve_gb ram_gb = f64_clamp (f64_mul ram_gb (f64_literal 30 100)) (f64_of_nat 3) (f64_of_nat 16)"

definition apple_usable_gb :: "f64 \<Rightarrow> wired_mode \<Rightarrow> f64" where
  "apple_usable_gb ram_gb mode =
     f64_min (f64_mul ram_gb (wired_fraction mode)) (f64_sub ram_gb (apple_reserve_gb ram_gb))"

definition recommended_wired_limit_mb :: "f64 \<Rightarrow> int" where
  "recommended_wired_limit_mb usable_gb = f64_round_i64 (f64_mul usable_gb (f64_of_nat 1024))"

section \<open>The catalogue\<close>

text \<open>An error's message is kept as the data it is rendered from, its path as the text.\<close>

datatype catalog_message =
    Message string | DuplicateModel string | UnknownRole string | DuplicateRole string | UnknownLoadHint

datatype catalog_error = CatalogError catalog_message string

text \<open>A \<open>CatalogRole\<close> is a role other than \<open>auto\<close>.\<close>

definition catalog_role_new :: "role \<Rightarrow> catalog_error + role" where
  "catalog_role_new r =
     (if is_catalog_role r then Inr r else Inl (CatalogError (Message ''auto is not a catalog role'') ''$.roles''))"

definition catalog_role_parse :: "string \<Rightarrow> catalog_error + role" where
  "catalog_role_parse value =
     (case parse_model_role (chars (''idoris/'' @ value)) of
        Inr (Some r) \<Rightarrow> catalog_role_new r
      | _ \<Rightarrow> Inl (CatalogError (UnknownRole value) ''$.roles''))"

record catalog_quant =
  cq_label :: string
  cq_bpp :: "f64 option"
  cq_weights_gb :: "f64 option"
  cq_quality :: f64

definition as_quant_spec :: "catalog_quant \<Rightarrow> quant_spec" where
  "as_quant_spec q = \<lparr>qs_label = Some (cq_label q), qs_bpp = cq_bpp q, qs_weights_gb = cq_weights_gb q,
     qs_quality = cq_quality q\<rparr>"

datatype load_hint = OnDemand

record catalog_model =
  cm_id :: string
  cm_family :: "string option"
  params_total_b :: f64
  params_active_b :: "f64 option"
  cm_arch :: model_arch
  cm_modality :: "string list option"
  cm_roles :: "role list"
  load_hint :: "load_hint option"
  cm_capability :: "(string \<times> f64) list option"
  quant_options :: "catalog_quant list"
  cm_license :: "string option"
  cm_min_ram_gb :: f64
  cm_status :: "string option"
  cm_note :: "string option"
  cm_scenarios :: "(string \<times> f64) list option"

record catalog_excluded =
  ex_id :: string
  ex_reason :: string

record catalog =
  cat_version :: f64
  cat_models :: "catalog_model list"
  cat_excluded :: "catalog_excluded list option"

definition model_is_eligible :: "catalog_model \<Rightarrow> role \<Rightarrow> f64 option \<Rightarrow> bool" where
  "model_is_eligible m r available_ram_gb =
     is_role_metadata_eligible (cm_status m = Some ''experiment'') (cm_min_ram_gb m) (cm_roles m) r available_ram_gb"

definition role_candidates :: "catalog \<Rightarrow> role \<Rightarrow> string list option \<Rightarrow> f64 option \<Rightarrow> string list" where
  "role_candidates cat r installed available_ram_gb =
     map cm_id (filter (\<lambda>m. case installed of None \<Rightarrow> True | Some ids \<Rightarrow> list_ex (\<lambda>i. i = cm_id m) ids)
       (filter (\<lambda>m. model_is_eligible m r available_ram_gb) (cat_models cat)))"

definition find_model :: "catalog \<Rightarrow> string \<Rightarrow> catalog_model option" where
  "find_model cat i = find (\<lambda>m. cm_id m = i) (cat_models cat)"

record model_estimate =
  me_catalog_id :: string
  me_quant :: string
  me_ctx :: u64
  me_kv_quant :: kv_quant
  me_weights_gb :: f64
  me_kv_gb :: f64
  me_overhead_gb :: f64
  me_footprint_gb :: f64
  me_min_ram_gb :: f64
  me_roles :: "string list"
  me_capabilities :: "(string \<times> f64) list"

datatype model_api_error =
    UnknownModel string | UnknownQuant string string | InvalidContext | InvalidRole
  | NoCandidates string | InvalidEstimateError

definition estimate_model ::
    "catalog \<Rightarrow> string \<Rightarrow> string \<Rightarrow> u64 \<Rightarrow> kv_quant \<Rightarrow> model_api_error + model_estimate" where
  "estimate_model cat catalog_id quant_label ctx q =
     (if ctx = 0 then Inl InvalidContext
      else bind_result (ok_or (UnknownModel catalog_id) (find_model cat catalog_id)) (\<lambda>model.
      bind_result (ok_or (UnknownQuant catalog_id quant_label)
        (find (\<lambda>o'. cq_label o' = quant_label) (quant_options model))) (\<lambda>quant.
      bind_result (map_sum (\<lambda>_. InvalidEstimateError) id (weights_gb (params_total_b model) (as_quant_spec quant))) (\<lambda>weights.
      let kv = kv_cache_gb (cm_arch model) ctx q; footprint = f64_add (f64_add weights kv) DEFAULT_OVERHEAD_GB
      in if \<not> f64_is_finite weights \<or> \<not> f64_is_finite kv \<or> \<not> f64_is_finite footprint
            \<or> f64_le weights f64_zero \<or> f64_le footprint f64_zero
         then Inl InvalidEstimateError
         else Inr \<lparr>me_catalog_id = cm_id model, me_quant = cq_label quant, me_ctx = ctx, me_kv_quant = q,
                me_weights_gb = weights, me_kv_gb = kv, me_overhead_gb = DEFAULT_OVERHEAD_GB,
                me_footprint_gb = footprint, me_min_ram_gb = cm_min_ram_gb model,
                me_roles = map role_as_str (cm_roles model),
                me_capabilities = (case cm_capability model of None \<Rightarrow> [] | Some c \<Rightarrow> c)\<rparr>))))"

definition candidates_for_role :: "catalog \<Rightarrow> role \<Rightarrow> f64 option \<Rightarrow> model_api_error + string list" where
  "candidates_for_role cat r available_ram_gb =
     bind_result (map_sum (\<lambda>_. InvalidRole) id (catalog_role_new r)) (\<lambda>cr.
     let candidates = role_candidates cat cr None available_ram_gb
     in if candidates = [] then Inl (NoCandidates (role_as_str r)) else Inr candidates)"

section \<open>Policy and picks\<close>

record recommender_policy =
  wired_mode :: wired_mode
  context_target :: u64
  rp_kv_quant :: kv_quant
  temp_slots :: u32
  quality_threshold :: f64
  needed_capabilities :: "capability list"

definition default_policy :: recommender_policy where
  "default_policy = \<lparr>wired_mode = Conservative, context_target = 32768, rp_kv_quant = Q8, temp_slots = 1,
     quality_threshold = f64_literal 98 100, needed_capabilities = [Vision, Coding]\<rparr>"

record partial_policy =
  pp_wired_mode :: "wired_mode option"
  pp_context_target :: "u64 option"
  pp_kv_quant :: "kv_quant option"
  pp_temp_slots :: "u32 option"
  pp_quality_threshold :: "f64 option"
  pp_needed_capabilities :: "capability list option"

definition unwrap_or :: "'a option \<Rightarrow> 'a \<Rightarrow> 'a" where
  "unwrap_or x d = (case x of None \<Rightarrow> d | Some y \<Rightarrow> y)"

definition merged_policy :: "partial_policy option \<Rightarrow> recommender_policy" where
  "merged_policy partial =
     (case partial of None \<Rightarrow> default_policy | Some p \<Rightarrow>
       \<lparr>wired_mode = unwrap_or (pp_wired_mode p) (wired_mode default_policy),
        context_target = unwrap_or (pp_context_target p) (context_target default_policy),
        rp_kv_quant = unwrap_or (pp_kv_quant p) (rp_kv_quant default_policy),
        temp_slots = unwrap_or (pp_temp_slots p) (temp_slots default_policy),
        quality_threshold = unwrap_or (pp_quality_threshold p) (quality_threshold default_policy),
        needed_capabilities = unwrap_or (pp_needed_capabilities p) (needed_capabilities default_policy)\<rparr>)"

record quant_pick =
  qp_label :: string
  qp_quality :: f64
  qp_weights_gb :: f64
  qp_kv_gb :: f64
  qp_footprint_gb :: f64

definition to_pick :: "catalog_quant \<Rightarrow> catalog_model \<Rightarrow> recommender_policy \<Rightarrow> quant_pick option" where
  "to_pick quant model policy =
     (case weights_gb (params_total_b model) (as_quant_spec quant) of
        Inl _ \<Rightarrow> None
      | Inr w \<Rightarrow> let kv = kv_cache_gb (cm_arch model) (context_target policy) (rp_kv_quant policy)
          in Some \<lparr>qp_label = cq_label quant, qp_quality = cq_quality quant, qp_weights_gb = w, qp_kv_gb = kv,
                qp_footprint_gb = f64_add (f64_add w kv) DEFAULT_OVERHEAD_GB\<rparr>)"

text \<open>The best-so-far of the loops: a later element replaces it when it is better.\<close>

definition keep_best :: "('a \<Rightarrow> 'a \<Rightarrow> bool) \<Rightarrow> 'a option \<Rightarrow> 'a \<Rightarrow> 'a option" where
  "keep_best better best x = (case best of None \<Rightarrow> Some x | Some c \<Rightarrow> if better x c then Some x else best)"

definition better_pick :: "quant_pick \<Rightarrow> quant_pick \<Rightarrow> bool" where
  "better_pick p c \<longleftrightarrow> f64_lt (qp_quality c) (qp_quality p)
     \<or> f64_eq (qp_quality p) (qp_quality c) \<and> f64_lt (qp_footprint_gb p) (qp_footprint_gb c)"

definition smaller_pick :: "quant_pick \<Rightarrow> quant_pick \<Rightarrow> bool" where
  "smaller_pick p c \<longleftrightarrow> f64_lt (qp_footprint_gb p) (qp_footprint_gb c)"

text \<open>The question mark inside the loops ends the function with \<open>None\<close>.\<close>

fun pick_loop ::
    "catalog_model \<Rightarrow> f64 \<Rightarrow> recommender_policy \<Rightarrow> f64 \<Rightarrow> quant_pick option \<Rightarrow> catalog_quant list \<Rightarrow> quant_pick option" where
  "pick_loop model budget policy min_quality best [] = best"
| "pick_loop model budget policy min_quality best (q # qs) =
     (if f64_lt (cq_quality q) min_quality then pick_loop model budget policy min_quality best qs
      else case to_pick q model policy of
        None \<Rightarrow> None
      | Some pick \<Rightarrow>
          if f64_lt budget (qp_footprint_gb pick) then pick_loop model budget policy min_quality best qs
          else pick_loop model budget policy min_quality (keep_best better_pick best pick) qs)"

definition pick_quant :: "catalog_model \<Rightarrow> f64 \<Rightarrow> recommender_policy \<Rightarrow> f64 \<Rightarrow> quant_pick option" where
  "pick_quant model budget_gb policy min_quality =
     pick_loop model budget_gb policy min_quality None (quant_options model)"

fun lowest_loop :: "catalog_model \<Rightarrow> recommender_policy \<Rightarrow> quant_pick option \<Rightarrow> catalog_quant list \<Rightarrow> quant_pick option" where
  "lowest_loop model policy best [] = best"
| "lowest_loop model policy best (q # qs) =
     (case to_pick q model policy of
        None \<Rightarrow> None
      | Some pick \<Rightarrow> lowest_loop model policy (keep_best smaller_pick best pick) qs)"

definition lowest_footprint_pick :: "catalog_model \<Rightarrow> recommender_policy \<Rightarrow> quant_pick option" where
  "lowest_footprint_pick model policy = lowest_loop model policy None (quant_options model)"

definition quant_by_label :: "catalog_model \<Rightarrow> string \<Rightarrow> recommender_policy \<Rightarrow> quant_pick option" where
  "quant_by_label model label policy =
     Option.bind (find (\<lambda>q. cq_label q = label) (quant_options model)) (\<lambda>q. to_pick q model policy)"

end
