(* ===== verification/Catalog.thy ===== *)
theory Catalog
  imports Recommender "HOL-Library.AList"
begin

text \<open>
  Reading a model catalogue (\<^verbatim>\<open>crates/idoris-recommender/src/catalog/parse.rs\<close>): the checks
  in their order, each with the path of the value it refuses. YAML values belong to the
  \<^verbatim>\<open>serde_yaml\<close> crate: they are a type \<open>'v\<close> with the accessors the code calls.
  What is proved: an accepted catalogue is well formed.
\<close>

section \<open>Values\<close>

text \<open>
  \<open>y_get\<close> is \<open>Mapping::get\<close> of a string key and \<open>y_string\<close> the pattern \<open>Value::String\<close>,
  which unlike \<open>as_str\<close> does not look through tags.
\<close>

record 'v yaml =
  y_mapping :: "'v \<Rightarrow> ('v \<times> 'v) list option"
  y_get :: "('v \<times> 'v) list \<Rightarrow> string \<Rightarrow> 'v option"
  y_sequence :: "'v \<Rightarrow> 'v list option"
  y_str :: "'v \<Rightarrow> string option"
  y_f64 :: "'v \<Rightarrow> f64 option"
  y_null :: "'v \<Rightarrow> bool"
  y_string :: "'v \<Rightarrow> string option"

definition filter_option :: "('a \<Rightarrow> bool) \<Rightarrow> 'a option \<Rightarrow> 'a option" where
  "filter_option p x = (case x of Some y \<Rightarrow> if p y then Some y else None | None \<Rightarrow> None)"

lemma filter_option_eq_Some [simp]: "filter_option p x = Some y \<longleftrightarrow> x = Some y \<and> p y"
  by (auto simp: filter_option_def split: option.splits if_splits)

definition catalog_error_new :: "string \<Rightarrow> string \<Rightarrow> catalog_error" where
  "catalog_error_new message path = CatalogError (Message message) path"

definition parse_object :: "'v yaml \<Rightarrow> 'v \<Rightarrow> string \<Rightarrow> catalog_error + ('v \<times> 'v) list" where
  "parse_object y value path = ok_or (catalog_error_new ''must be an object'' path) (y_mapping y value)"

definition parse_string :: "'v yaml \<Rightarrow> 'v option \<Rightarrow> string \<Rightarrow> catalog_error + string" where
  "parse_string y value path =
     ok_or (catalog_error_new ''must be a non-empty string'' path)
       (filter_option (\<lambda>s. s \<noteq> []) (Option.bind value (y_str y)))"

definition parse_number :: "'v yaml \<Rightarrow> 'v option \<Rightarrow> string \<Rightarrow> catalog_error + f64" where
  "parse_number y value path =
     ok_or (catalog_error_new ''must be a finite number'' path)
       (filter_option f64_is_finite (Option.bind value (y_f64 y)))"

definition optional_number :: "'v yaml \<Rightarrow> 'v option \<Rightarrow> string \<Rightarrow> catalog_error + f64 option" where
  "optional_number y value path =
     (case value of
        None \<Rightarrow> Inr None
      | Some v \<Rightarrow> if y_null y v then Inr None else map_sum id Some (parse_number y (Some v) path))"

definition optional_string :: "'v yaml \<Rightarrow> 'v option \<Rightarrow> string option" where
  "optional_string y value = Option.bind value (y_str y)"

text \<open>A list parsed element by element, each with the path of its index.\<close>

definition index_path :: "string \<Rightarrow> nat \<Rightarrow> string" where
  "index_path path i = path @ ''['' @ show_nat i @ '']''"

definition parse_items :: "('v \<Rightarrow> string \<Rightarrow> catalog_error + 'a) \<Rightarrow> string \<Rightarrow> 'v list \<Rightarrow> catalog_error + 'a list" where
  "parse_items f path items = collect_results (\<lambda>(i, item). f item (index_path path i)) (List.enumerate 0 items)"

section \<open>Models\<close>

definition parse_arch :: "'v yaml \<Rightarrow> 'v option \<Rightarrow> string \<Rightarrow> catalog_error + model_arch" where
  "parse_arch y value path =
     bind_result (ok_or (catalog_error_new ''arch must be an object'' path) (Option.bind value (y_mapping y))) (\<lambda>arch.
     bind_result (parse_number y (y_get y arch ''n_layers'') (path @ ''.n_layers'')) (\<lambda>layers.
     bind_result (parse_number y (y_get y arch ''n_kv_heads'') (path @ ''.n_kv_heads'')) (\<lambda>heads.
     bind_result (parse_number y (y_get y arch ''head_dim'') (path @ ''.head_dim'')) (\<lambda>dim.
     Inr \<lparr>n_layers = layers, n_kv_heads = heads, head_dim = dim\<rparr>))))"

definition parse_quant :: "'v yaml \<Rightarrow> 'v \<Rightarrow> string \<Rightarrow> catalog_error + catalog_quant" where
  "parse_quant y value path =
     bind_result (parse_object y value path) (\<lambda>quant.
     bind_result (parse_string y (y_get y quant ''label'') (path @ ''.label'')) (\<lambda>label.
     bind_result (parse_number y (y_get y quant ''quality'') (path @ ''.quality'')) (\<lambda>quality.
     bind_result (optional_number y (y_get y quant ''bpp'') (path @ ''.bpp'')) (\<lambda>bpp.
     bind_result (optional_number y (y_get y quant ''weights_gb'') (path @ ''.weights_gb'')) (\<lambda>weights.
     if bpp = None \<and> weights = None then Inl (catalog_error_new ''quant option requires bpp or weights_gb'' path)
     else Inr \<lparr>cq_label = label, cq_bpp = bpp, cq_weights_gb = weights, cq_quality = quality\<rparr>)))))"

fun capability_entries :: "'v yaml \<Rightarrow> string \<Rightarrow> ('v \<times> 'v) list \<Rightarrow> (string \<times> f64) list
    \<Rightarrow> catalog_error + (string \<times> f64) list" where
  "capability_entries y path [] out = Inr out"
| "capability_entries y path ((k, raw) # rest) out =
     bind_result (ok_or (catalog_error_new ''capability keys must be strings'' path) (y_str y k)) (\<lambda>key.
     bind_result (parse_number y (Some raw) (path @ ''.'' @ key)) (\<lambda>v.
     capability_entries y path rest (AList.update key v out)))"

definition parse_capability :: "'v yaml \<Rightarrow> 'v option \<Rightarrow> string \<Rightarrow> catalog_error + (string \<times> f64) list option" where
  "parse_capability y value path =
     (case value of
        None \<Rightarrow> Inr None
      | Some v \<Rightarrow>
          bind_result (ok_or (catalog_error_new ''capability must be an object'' path) (y_mapping y v)) (\<lambda>m.
          map_sum id Some (capability_entries y path m [])))"

definition parse_role :: "'v yaml \<Rightarrow> 'v \<Rightarrow> string \<Rightarrow> catalog_error + role" where
  "parse_role y value path =
     bind_result (parse_string y (Some value) path) (\<lambda>raw.
     case catalog_role_parse raw of
       Inl (CatalogError message _) \<Rightarrow> Inl (CatalogError message path)
     | Inr r \<Rightarrow> if role_as_str r \<noteq> raw then Inl (CatalogError (UnknownRole raw) path) else Inr r)"

fun parse_roles :: "'v yaml \<Rightarrow> string \<Rightarrow> nat \<Rightarrow> role list \<Rightarrow> 'v list \<Rightarrow> catalog_error + role list" where
  "parse_roles y path i seen [] = Inr seen"
| "parse_roles y path i seen (v # vs) =
     bind_result (parse_role y v (index_path path i)) (\<lambda>r.
     if r \<in> set seen then Inl (CatalogError (DuplicateRole (role_as_str r)) path)
     else parse_roles y path (Suc i) (seen @ [r]) vs)"

definition parse_load_hint :: "'v yaml \<Rightarrow> 'v option \<Rightarrow> string \<Rightarrow> catalog_error + load_hint option" where
  "parse_load_hint y value path =
     (case value of
        None \<Rightarrow> Inr None
      | Some v \<Rightarrow> if y_string y v = Some ''on_demand'' then Inr (Some OnDemand)
          else Inl (CatalogError UnknownLoadHint path))"

definition parse_modality :: "'v yaml \<Rightarrow> 'v option \<Rightarrow> string \<Rightarrow> catalog_error + string list option" where
  "parse_modality y value path =
     (case value of
        None \<Rightarrow> Inr None
      | Some v \<Rightarrow>
          bind_result (ok_or (catalog_error_new ''modality must be an array'' path) (y_sequence y v)) (\<lambda>items.
          map_sum id Some (parse_items (\<lambda>item p. parse_string y (Some item) p) path items)))"

definition parse_quants :: "'v yaml \<Rightarrow> 'v option \<Rightarrow> string \<Rightarrow> catalog_error + catalog_quant list" where
  "parse_quants y value path =
     bind_result (ok_or (catalog_error_new ''quant_options must not be empty'' path)
       (filter_option (\<lambda>items. items \<noteq> []) (Option.bind value (y_sequence y)))) (\<lambda>items.
     parse_items (parse_quant y) path items)"

definition parse_role_list :: "'v yaml \<Rightarrow> 'v option \<Rightarrow> string \<Rightarrow> catalog_error + role list" where
  "parse_role_list y value path =
     bind_result (ok_or (catalog_error_new ''roles is required'' path) value) (\<lambda>v.
     bind_result (ok_or (catalog_error_new ''roles must be an array'' path) (y_sequence y v)) (\<lambda>items.
     parse_roles y path 0 [] items))"

definition parse_model :: "'v yaml \<Rightarrow> 'v \<Rightarrow> string \<Rightarrow> catalog_error + catalog_model" where
  "parse_model y value path =
     bind_result (parse_object y value path) (\<lambda>model.
     bind_result (parse_string y (y_get y model ''id'') (path @ ''.id'')) (\<lambda>i.
     bind_result (parse_number y (y_get y model ''params_total_b'') (path @ ''.params_total_b'')) (\<lambda>total.
     bind_result (optional_number y (y_get y model ''params_active_b'') (path @ ''.params_active_b'')) (\<lambda>active.
     bind_result (parse_number y (y_get y model ''min_ram_gb'') (path @ ''.min_ram_gb'')) (\<lambda>ram.
     bind_result (parse_arch y (y_get y model ''arch'') (path @ ''.arch'')) (\<lambda>arch.
     bind_result (parse_quants y (y_get y model ''quant_options'') (path @ ''.quant_options'')) (\<lambda>quants.
     bind_result (parse_role_list y (y_get y model ''roles'') (path @ ''.roles'')) (\<lambda>roles.
     bind_result (parse_load_hint y (y_get y model ''load_hint'') (path @ ''.load_hint'')) (\<lambda>hint.
     bind_result (parse_modality y (y_get y model ''modality'') (path @ ''.modality'')) (\<lambda>modality.
     bind_result (parse_capability y (y_get y model ''capability'') (path @ ''.capability'')) (\<lambda>capability.
     Inr \<lparr>cm_id = i, cm_family = optional_string y (y_get y model ''family''), params_total_b = total,
       params_active_b = active, cm_arch = arch, cm_modality = modality, cm_roles = roles, load_hint = hint,
       cm_capability = capability, quant_options = quants,
       cm_license = optional_string y (y_get y model ''license''), cm_min_ram_gb = ram,
       cm_status = optional_string y (y_get y model ''status''),
       cm_note = optional_string y (y_get y model ''note''), cm_scenarios = None\<rparr>)))))))))))"

section \<open>The catalogue\<close>

fun parse_models :: "'v yaml \<Rightarrow> nat \<Rightarrow> catalog_model list \<Rightarrow> 'v list \<Rightarrow> catalog_error + catalog_model list" where
  "parse_models y i found [] = Inr found"
| "parse_models y i found (v # vs) =
     bind_result (parse_model y v (index_path ''$.catalog'' i)) (\<lambda>m.
     if cm_id m \<in> set (map cm_id found) then Inl (CatalogError (DuplicateModel (cm_id m)) ''$.catalog'')
     else parse_models y (Suc i) (found @ [m]) vs)"

definition parse_excluded :: "'v yaml \<Rightarrow> 'v \<Rightarrow> string \<Rightarrow> catalog_error + catalog_excluded" where
  "parse_excluded y value path =
     bind_result (parse_object y value path) (\<lambda>item.
     bind_result (parse_string y (y_get y item ''id'') (path @ ''.id'')) (\<lambda>i.
     bind_result (parse_string y (y_get y item ''reason'') (path @ ''.reason'')) (\<lambda>reason.
     Inr \<lparr>ex_id = i, ex_reason = reason\<rparr>)))"

definition parse_catalog :: "'v yaml \<Rightarrow> 'v \<Rightarrow> catalog_error + catalog" where
  "parse_catalog y raw =
     bind_result (parse_object y raw ''$'') (\<lambda>root.
     bind_result (parse_number y (y_get y root ''version'') ''$.version'') (\<lambda>version.
     bind_result (ok_or (catalog_error_new ''catalog must be an array'' ''$.catalog'')
       (Option.bind (y_get y root ''catalog'') (y_sequence y))) (\<lambda>models.
     bind_result (parse_models y 0 [] models) (\<lambda>catalog.
     bind_result (case Option.bind (y_get y root ''excluded'') (y_sequence y) of
         None \<Rightarrow> Inr None
       | Some items \<Rightarrow> map_sum id Some (parse_items (parse_excluded y) ''$.excluded'' items)) (\<lambda>excluded.
     Inr \<lparr>cat_version = version, cat_models = catalog, cat_excluded = excluded\<rparr>)))))"

text \<open>
  Reading the file: its bytes, their text and the text's value come from the file system and the
  crates; each failure is an error at the file's path.
\<close>

record ('p, 'v) catalog_source =
  source_display :: "'p \<Rightarrow> string"
  read_bytes :: "'p \<Rightarrow> string + 8 word list"
  utf8_text :: "8 word list \<Rightarrow> string + string"
  yaml_value :: "string \<Rightarrow> string + 'v"

definition at_path :: "string \<Rightarrow> string \<Rightarrow> string + 'a \<Rightarrow> catalog_error + 'a" where
  "at_path prefix display r = map_sum (\<lambda>e. catalog_error_new (prefix @ e) display) id r"

definition load_catalog :: "('p, 'v) catalog_source \<Rightarrow> 'v yaml \<Rightarrow> 'p \<Rightarrow> catalog_error + catalog" where
  "load_catalog src y path =
     (let display = source_display src path in
     bind_result (at_path ''failed to read catalog: '' display (read_bytes src path)) (\<lambda>bytes.
     bind_result (at_path ''catalog is not valid UTF-8: '' display (utf8_text src bytes)) (\<lambda>text.
     bind_result (at_path ''catalog YAML is invalid: '' display (yaml_value src text)) (\<lambda>v. parse_catalog y v))))"

section \<open>Well-formed catalogues\<close>

definition quant_wf :: "catalog_quant \<Rightarrow> bool" where
  "quant_wf q \<longleftrightarrow> cq_label q \<noteq> [] \<and> f64_is_finite (cq_quality q) \<and> (cq_bpp q \<noteq> None \<or> cq_weights_gb q \<noteq> None)
     \<and> pred_option f64_is_finite (cq_bpp q) \<and> pred_option f64_is_finite (cq_weights_gb q)"

definition model_wf :: "catalog_model \<Rightarrow> bool" where
  "model_wf m \<longleftrightarrow> cm_id m \<noteq> [] \<and> f64_is_finite (params_total_b m) \<and> f64_is_finite (cm_min_ram_gb m)
     \<and> quant_options m \<noteq> [] \<and> list_all quant_wf (quant_options m)
     \<and> distinct (cm_roles m) \<and> list_all is_catalog_role (cm_roles m)
     \<and> pred_option (\<lambda>c. distinct (map fst c) \<and> list_all (\<lambda>(_, v). f64_is_finite v) c) (cm_capability m)"

lemma map_sum_eq_Inr: "map_sum id f x = Inr z \<longleftrightarrow> (\<exists>w. x = Inr w \<and> z = f w)"
  by (cases x) auto

lemma parse_string_Inr: "parse_string y v p = Inr s \<Longrightarrow> s \<noteq> []"
  by (simp add: parse_string_def result_simps)

lemma parse_number_Inr: "parse_number y v p = Inr n \<Longrightarrow> f64_is_finite n"
  by (simp add: parse_number_def result_simps)

lemma optional_number_Inr: "optional_number y v p = Inr n \<Longrightarrow> pred_option f64_is_finite n"
  by (auto simp: optional_number_def map_sum_eq_Inr dest!: parse_number_Inr split: option.splits if_splits)

lemmas parsed_values = parse_string_Inr parse_number_Inr optional_number_Inr

lemma parse_quant_wf: "parse_quant y v p = Inr q \<Longrightarrow> quant_wf q"
  by (auto simp: parse_quant_def quant_wf_def result_simps dest!: parsed_values split: if_splits)

lemma parse_items_all: "parse_items f p items = Inr xs \<Longrightarrow> (\<And>v q x. f v q = Inr x \<Longrightarrow> good x) \<Longrightarrow> list_all good xs"
  unfolding parse_items_def list_all_iff by (fastforce dest: collect_results_source)

lemma parse_items_length: "parse_items f p items = Inr xs \<Longrightarrow> length xs = length items"
  unfolding parse_items_def collect_results_eq_Inr by (drule list_all2_lengthD) simp

lemma parse_quants_wf:
  assumes "parse_quants y v p = Inr qs"
  shows "qs \<noteq> []" "list_all quant_wf qs"
  using assms parse_items_length [of "parse_quant y" p _ qs]
  by (auto simp: parse_quants_def result_simps intro: parse_items_all parse_quant_wf)

lemma parse_role_catalog: "parse_role y v p = Inr r \<Longrightarrow> is_catalog_role r"
  by (auto simp: parse_role_def catalog_role_parse_def catalog_role_new_def result_simps
      split: sum.splits option.splits catalog_error.splits if_splits)

lemma parse_roles_wf:
  "parse_roles y p i seen vs = Inr rs \<Longrightarrow> distinct seen \<Longrightarrow> list_all is_catalog_role seen
    \<Longrightarrow> distinct rs \<and> list_all is_catalog_role rs"
proof (induction vs arbitrary: i seen)
  case (Cons v vs)
  from Cons.prems(1) obtain r where r: "parse_role y v (index_path p i) = Inr r" "r \<notin> set seen"
    "parse_roles y p (Suc i) (seen @ [r]) vs = Inr rs" by (auto simp: result_simps split: if_splits)
  from Cons.IH [OF r(3)] r(2) parse_role_catalog [OF r(1)] Cons.prems(2,3) show ?case by simp
qed simp

lemma capability_entries_wf:
  "capability_entries y p m out = Inr c \<Longrightarrow> distinct (map fst out) \<Longrightarrow> list_all (\<lambda>(_, v). f64_is_finite v) out
    \<Longrightarrow> distinct (map fst c) \<and> list_all (\<lambda>(_, v). f64_is_finite v) c"
proof (induction y p m out rule: capability_entries.induct)
  case (2 y path k raw rest out)
  from 2(2) obtain key v where v: "parse_number y (Some raw) (path @ ''.'' @ key) = Inr v"
    "capability_entries y path rest (AList.update key v out) = Inr c" "y_str y k = Some key"
    by (auto simp: result_simps)
  have "set (AList.update key v out) \<subseteq> insert (key, v) (set out)"
    by (induction out) auto
  with 2(4) parse_number_Inr [OF v(1)] have "list_all (\<lambda>(_, v). f64_is_finite v) (AList.update key v out)"
    by (auto simp: list_all_iff)
  with 2(1) [of key v] v 2(3) show ?case by (simp add: distinct_update ok_or_def)
qed auto

lemma parse_role_list_wf:
  "parse_role_list y v p = Inr rs \<Longrightarrow> distinct rs \<and> list_all is_catalog_role rs"
  using parse_roles_wf [of y p 0 "[]"] by (auto simp: parse_role_list_def result_simps)

lemma parse_capability_wf:
  "parse_capability y v p = Inr c \<Longrightarrow> pred_option (\<lambda>c. distinct (map fst c) \<and> list_all (\<lambda>(_, v). f64_is_finite v) c) c"
  using capability_entries_wf [of y p _ "[]"]
  by (fastforce simp: parse_capability_def result_simps map_sum_eq_Inr split: option.splits)

lemma parse_model_wf:
  assumes "parse_model y v p = Inr m"
  shows "model_wf m"
proof -
  from assms obtain model where
    "parse_string y (y_get y model ''id'') (p @ ''.id'') = Inr (cm_id m)"
    "parse_number y (y_get y model ''params_total_b'') (p @ ''.params_total_b'') = Inr (params_total_b m)"
    "parse_number y (y_get y model ''min_ram_gb'') (p @ ''.min_ram_gb'') = Inr (cm_min_ram_gb m)"
    "parse_quants y (y_get y model ''quant_options'') (p @ ''.quant_options'') = Inr (quant_options m)"
    "parse_role_list y (y_get y model ''roles'') (p @ ''.roles'') = Inr (cm_roles m)"
    "parse_capability y (y_get y model ''capability'') (p @ ''.capability'') = Inr (cm_capability m)"
    unfolding parse_model_def by (force simp only: result_simps sum.inject catalog_model.simps)
  then show ?thesis unfolding model_wf_def
    by (simp add: parse_string_Inr parse_number_Inr parse_quants_wf parse_role_list_wf parse_capability_wf)
qed

lemma parse_models_wf:
  "parse_models y i found vs = Inr ms \<Longrightarrow> distinct (map cm_id found) \<Longrightarrow> list_all model_wf found
    \<Longrightarrow> distinct (map cm_id ms) \<and> list_all model_wf ms"
proof (induction vs arbitrary: i found)
  case (Cons v vs)
  from Cons.prems(1) obtain m where m: "parse_model y v (index_path ''$.catalog'' i) = Inr m"
    "cm_id m \<notin> set (map cm_id found)" "parse_models y (Suc i) (found @ [m]) vs = Inr ms"
    by (auto simp: result_simps split: if_splits)
  from Cons.IH [OF m(3)] m(2) parse_model_wf [OF m(1)] Cons.prems(2,3) show ?case by simp
qed simp

lemma catalog_wf:
  assumes "parse_catalog y raw = Inr cat"
  shows "distinct (map cm_id (cat_models cat))" "list_all model_wf (cat_models cat)"
proof -
  from assms obtain models where "parse_models y 0 [] models = Inr (cat_models cat)"
    by (auto simp: parse_catalog_def result_simps split: option.splits)
  from parse_models_wf [OF this]
  show "distinct (map cm_id (cat_models cat))" "list_all model_wf (cat_models cat)" by simp_all
qed

text \<open>
  A catalogue that is accepted is well formed, whatever the YAML library returned: model ids are
  distinct and not empty, every model has a quantisation, each of them with a size, every number
  is finite, roles are distinct and never \<open>auto\<close>, capability keys are distinct.
\<close>

theorem parsed_catalog_well_formed:
  assumes "parse_catalog y raw = Inr cat"
  shows "distinct (map cm_id (cat_models cat)) \<and> list_all model_wf (cat_models cat) \<and> f64_is_finite (cat_version cat)"
proof -
  from assms have "f64_is_finite (cat_version cat)"
    by (auto simp: parse_catalog_def result_simps dest!: parse_number_Inr split: option.splits)
  with catalog_wf [OF assms] show ?thesis by simp
qed

text \<open>A catalogue read through the accessors of JSON, which is YAML.\<close>

definition json_yaml :: "json yaml" where
  "json_yaml = \<lparr>y_mapping = (\<lambda>v. map_option (map (\<lambda>(k, w). (JStr k, w))) (as_object v)),
     y_get = (\<lambda>m k. map_option snd (find (\<lambda>(j, _). as_str j = Some k) m)),
     y_sequence = as_array, y_str = as_str, y_f64 = as_f64, y_null = (\<lambda>v. v = JNull), y_string = as_str\<rparr>"

definition small_quant :: json where
  "small_quant = JObj [(''label'', JStr ''q4''), (''quality'', JNum (PosInt 1)), (''weights_gb'', JNum (PosInt 4))]"

definition small_arch :: json where
  "small_arch = JObj [(''n_layers'', JNum (PosInt 1)), (''n_kv_heads'', JNum (PosInt 1)), (''head_dim'', JNum (PosInt 1))]"

definition small_model :: json where
  "small_model = JObj [(''id'', JStr ''m7''), (''params_total_b'', JNum (PosInt 7)), (''min_ram_gb'', JNum (PosInt 8)),
     (''arch'', small_arch), (''quant_options'', JArr [small_quant]), (''roles'', JArr [JStr ''daily''])]"

definition small_catalog :: json where
  "small_catalog = JObj [(''version'', JNum (PosInt 1)), (''catalog'', JArr [small_model])]"

lemma daily_role: "catalog_role_parse ''daily'' = Inr RDaily"
proof -
  have "chars (''idoris/'' @ ''daily'') = [105, 100, 111, 114, 105, 115, 47, 100, 97, 105, 108, 121]"
    by (simp add: chars_def)
  moreover have "trim_matches is_ecmascript_whitespace [105, 100, 111, 114, 105, 115, 47, 100, 97, 105, 108, 121]
      = [105, 100, 111, 114, 105, 115, 47, 100, 97, 105, 108, 121]"
    by (rule trim_matches_ends) (simp add: is_ecmascript_whitespace_def)
  ultimately show ?thesis
    by (simp add: catalog_role_parse_def parse_model_role_def get_prefix.simps numeral_eq_Suc byte_len_def IDORIS_PREFIX_def
        eq_ignore_ascii_case_def ascii_def role_from_exact_def ROLES_def ok_or_def catalog_role_new_def is_catalog_role_def)
qed

lemma json_number: "parse_number json_yaml (Some (JNum (PosInt n))) p = Inr (f64_of_nat (unat n))"
  using f64_of_nat_finite [of "unat n"] unsigned_less [of n, where ?'a = nat]
  by (simp add: parse_number_def json_yaml_def filter_option_def ok_or_def)

lemma json_string: "s \<noteq> [] \<Longrightarrow> parse_string json_yaml (Some (JStr s)) p = Inr s"
  by (simp add: parse_string_def json_yaml_def filter_option_def ok_or_def)

lemma json_object: "parse_object json_yaml (JObj m) p = Inr (map (\<lambda>(k, w). (JStr k, w)) m)"
  by (simp add: parse_object_def json_yaml_def ok_or_def)

lemma json_field: "y_get json_yaml (map (\<lambda>(k, w). (JStr k, w)) m) k = map_of m k"
  by (induction m) (auto simp: json_yaml_def)

lemma json_access:
  "y_sequence json_yaml (JArr vs) = Some vs"
  "y_mapping json_yaml (JObj m) = Some (map (\<lambda>(k, w). (JStr k, w)) m)"
  "y_null json_yaml (JNum n) = False"
  by (simp_all add: json_yaml_def)

lemmas json_parses = json_field json_access json_number json_string json_object optional_number_def ok_or_def

lemma small_quant_parses: "\<exists>q. parse_quant json_yaml small_quant p = Inr q"
  by (simp add: small_quant_def parse_quant_def json_parses del: list.map)

lemma small_arch_parses: "\<exists>a. parse_arch json_yaml (Some small_arch) p = Inr a"
  by (simp add: small_arch_def parse_arch_def json_parses del: list.map)

lemma small_roles_parse: "\<exists>r. parse_role_list json_yaml (Some (JArr [JStr ''daily''])) p = Inr r"
  by (simp add: parse_role_list_def parse_role_def json_parses daily_role)

lemma small_quants_parse: "\<exists>q. parse_quants json_yaml (Some (JArr [small_quant])) p = Inr q"
  using small_quant_parses [of "index_path p 0"]
  by (auto simp: parse_quants_def parse_items_def json_access filter_option_def ok_or_def)

lemma small_model_parses: "\<exists>m. parse_model json_yaml small_model p = Inr m"
proof -
  obtain a q r where parts:
    "parse_arch json_yaml (Some small_arch) (p @ ''.arch'') = Inr a"
    "parse_quants json_yaml (Some (JArr [small_quant])) (p @ ''.quant_options'') = Inr q"
    "parse_role_list json_yaml (Some (JArr [JStr ''daily''])) (p @ ''.roles'') = Inr r"
    using small_arch_parses small_quants_parse small_roles_parse by meson
  then show ?thesis
    by (simp add: small_model_def parse_model_def json_parses parse_load_hint_def parse_modality_def
        parse_capability_def del: list.map)
qed

lemma small_catalog_parses: "\<exists>cat. parse_catalog json_yaml small_catalog = Inr cat"
  using small_model_parses [of "index_path ''$.catalog'' 0"]
  by (auto simp: small_catalog_def parse_catalog_def json_parses simp del: list.map)

theorem parsed_catalog_well_formed_witness:
  "\<exists>cat. parse_catalog json_yaml small_catalog = Inr cat \<and> distinct (map cm_id (cat_models cat))"
  using small_catalog_parses parsed_catalog_well_formed [of json_yaml small_catalog] by blast

end
