(* ===== verification/Probe.thy ===== *)
theory Probe
  imports Recommender
begin

text \<open>
  Facts about the host (\<^verbatim>\<open>crates/idoris-recommender/src/probe.rs\<close>,
  \<^verbatim>\<open>probe/source.rs\<close>): the nominal memory, the chip name cleaned of its vendor and the
  number of GPU cores. The texts are read character by character, as code points.
\<close>

definition UNKNOWN_CHIP :: ustr where "UNKNOWN_CHIP = ascii ''unknown''"

datatype facts_source = Injected | Probed

record host_facts =
  ram_gb :: f64
  chip :: ustr
  gpu_cores :: "u32 option"
  os :: ustr
  facts_source :: facts_source

record host_facts_input =
  in_ram_gb :: f64
  in_chip :: "ustr option"
  in_gpu_cores :: "u32 option"
  in_os :: "ustr option"

datatype probe_error = ProbeError string

text \<open>\<open>f64::round\<close>: the nearest integer, half away from zero, with the sign kept.\<close>

definition f64_round :: "f64 \<Rightarrow> f64" where
  "f64_round x =
     (if f64_is_nan x \<or> f64_is_inf x then x
      else f64_make (f64_negative x)
        (round_ratio ((2 * magnitude_units (f64_magnitude x) + 2 ^ 1074) div 2 ^ 1075 * 2 ^ 1074) 1))"

definition nominal_ram_gb :: "f64 \<Rightarrow> probe_error + f64" where
  "nominal_ram_gb total_mem_bytes =
     (if \<not> f64_is_finite total_mem_bytes \<or> f64_le total_mem_bytes f64_zero
      then Inl (ProbeError ''total_mem_bytes must be finite and > 0'')
      else Inr (f64_round (f64_div total_mem_bytes (f64_of_nat (1024 ^ 3)))))"

text \<open>\<open>find\<close> with the slice after it: the text after the first occurrence.\<close>

fun after_first :: "ustr \<Rightarrow> ustr \<Rightarrow> ustr option" where
  "after_first p [] = (if p = [] then Some [] else None)"
| "after_first p (c # cs) = (if take (length p) (c # cs) = p then Some (drop (length p) (c # cs)) else after_first p cs)"

fun split_on :: "(nat \<Rightarrow> bool) \<Rightarrow> ustr \<Rightarrow> ustr list" where
  "split_on p [] = [[]]"
| "split_on p (c # cs) =
     (if p c then [] # split_on p cs else (c # hd (split_on p cs)) # tl (split_on p cs))"

definition split_whitespace :: "ustr \<Rightarrow> ustr list" where
  "split_whitespace s = filter (\<lambda>w. w \<noteq> []) (split_on is_unicode_whitespace s)"

definition strip_prefix :: "ustr \<Rightarrow> ustr \<Rightarrow> ustr option" where
  "strip_prefix p s = (if take (length p) s = p then Some (drop (length p) s) else None)"

text \<open>An Apple chip in the words after the vendor: \<open>M\<close> with its number, and a known suffix.\<close>

definition apple_chip :: "ustr list \<Rightarrow> ustr option" where
  "apple_chip parts =
     (case parts of
        [] \<Rightarrow> None
      | model # rest \<Rightarrow>
          if hd model = 77 \<and> tl model \<noteq> [] \<and> list_all is_ascii_digit (tl model)
          then Some (case rest of
              suffix # _ \<Rightarrow> if suffix \<in> set (map ascii [''Pro'', ''Max'', ''Ultra''])
                then model @ [32] @ suffix else model
            | [] \<Rightarrow> model)
          else None)"

definition parse_chip :: "ustr option \<Rightarrow> ustr" where
  "parse_chip cpu_model =
     (case cpu_model of
        None \<Rightarrow> UNKNOWN_CHIP
      | Some text \<Rightarrow>
        let raw = trim_matches is_unicode_whitespace text in
        if raw = [] then UNKNOWN_CHIP
        else case Option.bind (after_first (ascii ''Apple '') raw) (\<lambda>rest. apple_chip (split_whitespace rest)) of
               Some c \<Rightarrow> c
             | None \<Rightarrow> trim_matches is_unicode_whitespace
                 (case strip_prefix (ascii ''Apple '') raw of Some rest \<Rightarrow> rest | None \<Rightarrow> raw))"

text \<open>\<open>parse::<u32>\<close> on decimal digits: refused beyond the largest \<open>u32\<close>.\<close>

definition parse_u32 :: "ustr \<Rightarrow> u32 option" where
  "parse_u32 digits = (if decimal_value digits < 2 ^ 32 then Some (of_nat (decimal_value digits)) else None)"

definition parse_system_profiler_gpu_cores :: "ustr \<Rightarrow> u32 option" where
  "parse_system_profiler_gpu_cores output =
     Option.bind (after_first (ascii ''Total Number of Cores:'') output) (\<lambda>rest.
     let digits = takeWhile is_ascii_digit (dropWhile is_unicode_whitespace rest)
     in if digits = [] then None else parse_u32 digits)"

definition non_empty_or :: "ustr \<Rightarrow> ustr option \<Rightarrow> ustr" where
  "non_empty_or d x = (case x of Some (c # cs) \<Rightarrow> c # cs | _ \<Rightarrow> d)"

definition make_host_facts :: "host_facts_input \<Rightarrow> probe_error + host_facts" where
  "make_host_facts input =
     (if \<not> f64_is_finite (in_ram_gb input) \<or> f64_le (in_ram_gb input) f64_zero
      then Inl (ProbeError ''ram_gb must be finite and > 0'')
      else Inr \<lparr>ram_gb = in_ram_gb input, chip = non_empty_or UNKNOWN_CHIP (in_chip input),
             gpu_cores = in_gpu_cores input, os = non_empty_or (ascii ''unknown'') (in_os input),
             facts_source = Injected\<rparr>)"

definition probed_host_facts :: "f64 \<Rightarrow> ustr option \<Rightarrow> ustr \<Rightarrow> probe_error + host_facts" where
  "probed_host_facts total_mem_bytes cpu_model os_name =
     bind_result (nominal_ram_gb total_mem_bytes) (\<lambda>ram.
     Inr \<lparr>ram_gb = ram, chip = parse_chip cpu_model, gpu_cores = None,
          os = (if os_name = [] then ascii ''unknown'' else os_name), facts_source = Probed\<rparr>)"

definition with_system_profiler :: "host_facts \<Rightarrow> ustr \<Rightarrow> host_facts" where
  "with_system_profiler base output = base\<lparr>gpu_cores := parse_system_profiler_gpu_cores output\<rparr>"

text \<open>The three samples of a \<open>HostProbe\<close>, as the values its methods return.\<close>

record host_probe =
  total_mem_bytes :: "probe_error + f64"
  cpu_model :: "probe_error + ustr option"
  platform :: "probe_error + ustr"

definition inspect_host :: "host_probe \<Rightarrow> probe_error + host_facts" where
  "inspect_host probe =
     bind_result (total_mem_bytes probe) (\<lambda>total.
     bind_result (cpu_model probe) (\<lambda>cpu.
     bind_result (platform probe) (\<lambda>p. probed_host_facts total cpu p)))"

end
