(* ===== verification/Recommendation.thy ===== *)
theory Recommendation
  imports Catalog Probe "HOL-Library.Product_Lexorder"
begin

text \<open>
  The recommendation itself (\<^verbatim>\<open>crates/idoris-recommender/src/recommend\<close>): the memory budget and
  the resident model (\<^verbatim>\<open>resident.rs\<close>), the on-demand models (\<^verbatim>\<open>temp.rs\<close>), the user's override
  (\<^verbatim>\<open>forced.rs\<close>) and their composition (\<^verbatim>\<open>diagnostics.rs\<close>), with its properties.
\<close>

section \<open>Budget and resident model\<close>

definition TEMP_SLOT_RESERVE_GB :: f64 where "TEMP_SLOT_RESERVE_GB = f64_literal 35 10"
definition HEADROOM_GB :: f64 where "HEADROOM_GB = f64_of_nat 1"

record gb_budget =
  allocated_budget_bytes :: "u64 option"
  reserve_gb :: f64
  usable_gb :: f64
  temp_reserve_gb :: f64
  resident_budget_gb :: f64

definition budget_breakdown :: "host_facts \<Rightarrow> recommender_policy \<Rightarrow> u64 option \<Rightarrow> gb_budget" where
  "budget_breakdown host policy allocated =
     (let (reserve, usable) = (case allocated of
            Some bytes \<Rightarrow> (f64_zero, f64_div (f64_of_nat (unat bytes)) (f64_of_nat 1000000000))
          | None \<Rightarrow> (apple_reserve_gb (ram_gb host), apple_usable_gb (ram_gb host) (wired_mode policy)));
          temp_reserve = f64_mul (f64_of_nat (unat (temp_slots policy))) TEMP_SLOT_RESERVE_GB
      in \<lparr>allocated_budget_bytes = allocated, reserve_gb = reserve, usable_gb = usable,
          temp_reserve_gb = temp_reserve,
          resident_budget_gb = f64_sub (f64_sub usable temp_reserve) HEADROOM_GB\<rparr>)"

record resident_choice =
  rc_id :: string
  rc_ctx :: u64
  rc_score :: f64
  rc_label :: string
  rc_quality :: f64
  rc_weights_gb :: f64
  rc_kv_gb :: f64
  rc_footprint_gb :: f64

definition from_pick :: "string \<Rightarrow> u64 \<Rightarrow> f64 \<Rightarrow> quant_pick \<Rightarrow> resident_choice" where
  "from_pick i ctx score pick =
     \<lparr>rc_id = i, rc_ctx = ctx, rc_score = score, rc_label = qp_label pick, rc_quality = qp_quality pick,
      rc_weights_gb = qp_weights_gb pick, rc_kv_gb = qp_kv_gb pick, rc_footprint_gb = qp_footprint_gb pick\<rparr>"

record temp_alternative =
  ta_id :: string
  ta_capability :: capability
  ta_quant :: quant_pick

text \<open>Why a model is blocked, with the numbers the code prints.\<close>

datatype blocked_reason = BelowMinRam f64 f64 | AboveAllocation f64 f64

record blocked_choice =
  bc_id :: string
  bc_min_ram_gb :: f64
  bc_estimated_memory_gb :: f64
  bc_reason :: blocked_reason
  degraded_alternatives :: "temp_alternative list"

datatype resident_error = EmptyQuantOptions string

definition block_reason ::
    "host_facts \<Rightarrow> gb_budget \<Rightarrow> catalog_model \<Rightarrow> quant_pick \<Rightarrow> blocked_reason option" where
  "block_reason host budget m pick =
     (if f64_lt (ram_gb host) (cm_min_ram_gb m) then Some (BelowMinRam (cm_min_ram_gb m) (ram_gb host))
      else if f64_lt (usable_gb budget) (qp_footprint_gb pick)
      then Some (AboveAllocation (qp_footprint_gb pick) (usable_gb budget)) else None)"

fun blocked_choices ::
    "host_facts \<Rightarrow> recommender_policy \<Rightarrow> gb_budget \<Rightarrow> catalog_model list
      \<Rightarrow> resident_error + blocked_choice list" where
  "blocked_choices host policy budget [] = Inr []"
| "blocked_choices host policy budget (m # ms) =
     (if \<not> f64_lt (ram_gb host) (cm_min_ram_gb m) \<and> allocated_budget_bytes budget = None
      then blocked_choices host policy budget ms
      else bind_result (ok_or (EmptyQuantOptions (cm_id m)) (lowest_footprint_pick m policy)) (\<lambda>pick.
        bind_result (blocked_choices host policy budget ms) (\<lambda>rest.
        Inr (case block_reason host budget m pick of
               None \<Rightarrow> rest
             | Some reason \<Rightarrow> \<lparr>bc_id = cm_id m, bc_min_ram_gb = cm_min_ram_gb m,
                 bc_estimated_memory_gb = qp_footprint_gb pick, bc_reason = reason, degraded_alternatives = []\<rparr> # rest))))"

definition capability_score :: "catalog_model \<Rightarrow> string \<Rightarrow> f64" where
  "capability_score m key =
     (case Option.bind (cm_capability m) (\<lambda>c. map_of c key) of None \<Rightarrow> f64_zero | Some v \<Rightarrow> v)"

definition better_resident :: "resident_choice \<Rightarrow> resident_choice \<Rightarrow> bool" where
  "better_resident r c \<longleftrightarrow> f64_lt (rc_score c) (rc_score r)
     \<or> f64_eq (rc_score r) (rc_score c) \<and> f64_lt (rc_footprint_gb r) (rc_footprint_gb c)"

text \<open>What a candidate id contributes to the loop: nothing, or the choice it stands for.\<close>

definition resident_option :: "catalog \<Rightarrow> recommender_policy \<Rightarrow> f64 \<Rightarrow> string \<Rightarrow> resident_choice option" where
  "resident_option cat policy budget i =
     Option.bind (find_model cat i) (\<lambda>m.
     Option.bind (pick_quant m budget policy (quality_threshold policy)) (\<lambda>pick.
     Some (from_pick (cm_id m) (context_target policy)
       (f64_mul (capability_score m ''reasoning'') (qp_quality pick)) pick)))"

definition choose_resident ::
    "catalog \<Rightarrow> host_facts \<Rightarrow> recommender_policy \<Rightarrow> gb_budget \<Rightarrow> resident_choice option" where
  "choose_resident cat host policy budget =
     (case catalog_role_new RDaily of
        Inl _ \<Rightarrow> None
      | Inr daily \<Rightarrow>
          foldl (keep_best better_resident) None
            (List.map_filter (resident_option cat policy (resident_budget_gb budget))
              (role_candidates cat daily None (Some (ram_gb host)))))"

section \<open>On-demand models\<close>

datatype temp_status = TempReady | TempRequiresEviction

record temp_choice =
  tc_id :: string
  tc_capability :: capability
  tc_status :: temp_status
  tc_min_ram_gb :: f64
  tc_quant :: quant_pick
  tc_remaining :: f64
  degraded_alternative :: "temp_alternative option"

text \<open>A warning of the on-demand part: capability, model, footprint and what remains.\<close>

datatype temp_warning = NeedsEviction capability string f64 f64

record temp_result =
  choices :: "temp_choice list"
  temp_warnings :: "temp_warning list"
  blocked_alternatives :: "(string \<times> temp_alternative) list"

primrec capability_key :: "capability \<Rightarrow> string" where
  "capability_key Chat = ''chat''"
| "capability_key Reasoning = ''reasoning''"
| "capability_key Vision = ''vision''"
| "capability_key Asr = ''asr''"
| "capability_key Tts = ''tts''"
| "capability_key Coding = ''coding''"
| "capability_key Embedding = ''embedding''"
| "capability_key Rerank = ''rerank''"

definition is_temp_eligible :: "host_facts \<Rightarrow> resident_choice option \<Rightarrow> catalog_model \<Rightarrow> bool" where
  "is_temp_eligible host resident m \<longleftrightarrow> cm_status m \<noteq> Some ''experiment''
     \<and> f64_le (cm_min_ram_gb m) (ram_gb host)
     \<and> (case resident of None \<Rightarrow> True | Some c \<Rightarrow> rc_id c \<noteq> cm_id m)"

definition best_model_for_capability ::
    "catalog \<Rightarrow> host_facts \<Rightarrow> resident_choice option \<Rightarrow> capability \<Rightarrow> catalog_model option" where
  "best_model_for_capability cat host resident cap =
     fst (foldl (\<lambda>(best, best_value) m.
       if \<not> is_temp_eligible host resident m then (best, best_value)
       else let v = capability_score m (capability_key cap)
            in if f64_lt f64_zero v \<and> f64_lt best_value v then (Some m, v) else (best, best_value))
       (None, f64_neg (f64_of_nat 1)) (cat_models cat))"

definition degraded_alternative_for ::
    "catalog \<Rightarrow> host_facts \<Rightarrow> recommender_policy \<Rightarrow> resident_choice option \<Rightarrow> capability \<Rightarrow> catalog_model \<Rightarrow> f64
     \<Rightarrow> temp_alternative option" where
  "degraded_alternative_for cat host policy resident cap best remaining =
     map_option (\<lambda>(_, m, q). \<lparr>ta_id = cm_id m, ta_capability = cap, ta_quant = q\<rparr>)
       (foldl (\<lambda>found m.
          if cm_id m = cm_id best \<or> \<not> is_temp_eligible host resident m then found
          else let v = capability_score m (capability_key cap)
               in if f64_le v f64_zero \<or> (case found of None \<Rightarrow> False | Some (w, _, _) \<Rightarrow> f64_le v w) then found
                  else case pick_quant m remaining policy (quality_threshold policy) of
                         None \<Rightarrow> found
                       | Some q \<Rightarrow> Some (v, m, q))
         None (cat_models cat))"

definition temp_quant :: "catalog_model \<Rightarrow> recommender_policy \<Rightarrow> f64 \<Rightarrow> f64 \<Rightarrow> quant_pick option" where
  "temp_quant m policy remaining usable =
     (case pick_quant m remaining policy (quality_threshold policy) of
        Some q \<Rightarrow> Some q
      | None \<Rightarrow> (case pick_quant m usable policy (quality_threshold policy) of
          Some q \<Rightarrow> Some q
        | None \<Rightarrow> lowest_footprint_pick m policy))"

definition add_blocked_alternative ::
    "string \<Rightarrow> temp_alternative option \<Rightarrow> (string \<times> temp_alternative) list \<Rightarrow> (string \<times> temp_alternative) list" where
  "add_blocked_alternative i alt known =
     (case alt of
        None \<Rightarrow> known
      | Some a \<Rightarrow> if list_ex (\<lambda>(j, k). j = i \<and> ta_capability k = ta_capability a) known then known else known @ [(i, a)])"

definition admit_temp ::
    "catalog \<Rightarrow> host_facts \<Rightarrow> recommender_policy \<Rightarrow> resident_choice option \<Rightarrow> gb_budget \<Rightarrow> capability
     \<Rightarrow> temp_result \<Rightarrow> temp_result" where
  "admit_temp cat host policy resident budget cap acc =
     (let usable = usable_gb budget;
          remaining = f64_sub usable (case resident of None \<Rightarrow> f64_zero | Some c \<Rightarrow> rc_footprint_gb c)
      in case best_model_for_capability cat host resident cap of
        None \<Rightarrow> acc
      | Some m \<Rightarrow>
        (case temp_quant m policy remaining usable of
           None \<Rightarrow> acc
         | Some quant \<Rightarrow>
           let fits_quality_and_remaining = (pick_quant m remaining policy (quality_threshold policy) \<noteq> None);
               allocated = (allocated_budget_bytes budget \<noteq> None);
               alternative = degraded_alternative_for cat host policy resident cap m remaining
           in if allocated \<and> f64_lt usable (qp_footprint_gb quant)
              then acc\<lparr>blocked_alternatives := add_blocked_alternative (cm_id m) alternative (blocked_alternatives acc)\<rparr>
              else if fits_quality_and_remaining \<or> allocated \<and> f64_le (qp_footprint_gb quant) remaining
              then acc\<lparr>choices := choices acc @
                [\<lparr>tc_id = cm_id m, tc_capability = cap, tc_status = TempReady, tc_min_ram_gb = cm_min_ram_gb m,
                  tc_quant = quant, tc_remaining = remaining, degraded_alternative = None\<rparr>]\<rparr>
              else acc\<lparr>choices := choices acc @
                [\<lparr>tc_id = cm_id m, tc_capability = cap, tc_status = TempRequiresEviction, tc_min_ram_gb = cm_min_ram_gb m,
                  tc_quant = quant, tc_remaining = remaining, degraded_alternative = alternative\<rparr>],
                temp_warnings := temp_warnings acc @ [NeedsEviction cap (cm_id m) (qp_footprint_gb quant) remaining]\<rparr>))"

definition temp_admission ::
    "catalog \<Rightarrow> host_facts \<Rightarrow> recommender_policy \<Rightarrow> resident_choice option \<Rightarrow> gb_budget \<Rightarrow> temp_result" where
  "temp_admission cat host policy resident budget =
     foldl (\<lambda>acc cap. admit_temp cat host policy resident budget cap acc)
       \<lparr>choices = [], temp_warnings = [], blocked_alternatives = []\<rparr> (needed_capabilities policy)"

section \<open>The user's override\<close>

datatype forced_warning =
    NotInCatalog string
  | QuantLabelMissing string
  | NoQuantAvailable string
  | OverrideBlocked string f64 f64 f64 f64
  | ForcedPastBudget string f64
  | AboveResidentBudget string f64 f64
  | BypassesMinRam string f64 f64
  | OverrideActive string

record core_override =
  co_id :: string
  co_active :: bool

record forced_result =
  fr_resident :: "resident_choice option"
  override_choice :: "core_override option"
  fr_warnings :: "forced_warning list"

definition forced_pick ::
    "catalog_model \<Rightarrow> recommender_policy \<Rightarrow> f64 \<Rightarrow> string option \<Rightarrow> (quant_pick option \<times> bool) \<times> forced_warning list" where
  "forced_pick m policy resident_budget forced_quant =
     (let named = Option.bind forced_quant (\<lambda>label. quant_by_label m label policy);
          warnings = (case forced_quant of
              Some label \<Rightarrow> if named = None then [QuantLabelMissing label] else [] | None \<Rightarrow> []);
          picked = (case named of Some p \<Rightarrow> Some p | None \<Rightarrow> pick_quant m resident_budget policy f64_zero)
      in ((case picked of
             Some p \<Rightarrow> (Some p, False)
           | None \<Rightarrow> (lowest_footprint_pick m policy, lowest_footprint_pick m policy \<noteq> None)), warnings))"

definition apply_core_override ::
    "catalog \<Rightarrow> host_facts \<Rightarrow> recommender_policy \<Rightarrow> string option \<Rightarrow> resident_choice option \<Rightarrow> gb_budget
     \<Rightarrow> forced_result" where
  "apply_core_override cat host policy forced current budget =
     (case map_option str_trim forced of
        None \<Rightarrow> \<lparr>fr_resident = current, override_choice = None, fr_warnings = []\<rparr>
      | Some [] \<Rightarrow> \<lparr>fr_resident = current, override_choice = None, fr_warnings = []\<rparr>
      | Some f \<Rightarrow>
        let parts = split_char (CHR ''@'') f; forced_id = hd parts;
            forced_quant = (case tl parts of [] \<Rightarrow> None | q # _ \<Rightarrow> Some q)
        in case find_model cat forced_id of
          None \<Rightarrow> \<lparr>fr_resident = current, override_choice = None, fr_warnings = [NotInCatalog f]\<rparr>
        | Some m \<Rightarrow>
          let resident_budget = resident_budget_gb budget;
              ((picked, used_lowest_fallback), warnings) = forced_pick m policy resident_budget forced_quant
          in case picked of
            None \<Rightarrow> \<lparr>fr_resident = current, override_choice = None, fr_warnings = [NoQuantAvailable f]\<rparr>
          | Some pick \<Rightarrow>
            let below_min_ram = f64_lt (ram_gb host) (cm_min_ram_gb m) in
            if allocated_budget_bytes budget \<noteq> None \<and> (f64_lt (usable_gb budget) (qp_footprint_gb pick) \<or> below_min_ram)
            then \<lparr>fr_resident = current, override_choice = Some \<lparr>co_id = cm_id m, co_active = False\<rparr>,
                  fr_warnings = warnings @ [OverrideBlocked f (qp_footprint_gb pick) (usable_gb budget)
                    (cm_min_ram_gb m) (ram_gb host)]\<rparr>
            else \<lparr>fr_resident = Some (from_pick (cm_id m) (context_target policy)
                    (f64_mul (capability_score m ''reasoning'') (qp_quality pick)) pick),
                  override_choice = Some \<lparr>co_id = cm_id m, co_active = True\<rparr>,
                  fr_warnings = warnings
                    @ (if used_lowest_fallback \<and> allocated_budget_bytes budget = None
                       then [ForcedPastBudget (cm_id m) resident_budget]
                       else if f64_lt resident_budget (qp_footprint_gb pick)
                       then [AboveResidentBudget (cm_id m) (qp_footprint_gb pick) resident_budget] else [])
                    @ (if below_min_ram then [BypassesMinRam (cm_id m) (cm_min_ram_gb m) (ram_gb host)] else [])
                    @ [OverrideActive f]\<rparr>)"

section \<open>The recommendation\<close>

datatype warning =
    BudgetLine gb_budget | BlockedLine blocked_choice | ForcedLine forced_warning
  | TempLine temp_warning | NoResident

record recommendation =
  rec_hardware :: host_facts
  rec_policy :: recommender_policy
  rec_budget :: gb_budget
  rec_resident :: "resident_choice option"
  resident_label :: "string option"
  rec_temp :: "temp_choice list"
  rec_blocked :: "blocked_choice list"
  rec_warnings :: "warning list"
  rec_wired_limit_mb :: int
  rec_override :: "core_override option"
  headroom_breach_option :: "resident_choice option"

fun attach_alternative :: "blocked_choice list \<Rightarrow> string \<times> temp_alternative \<Rightarrow> blocked_choice list" where
  "attach_alternative [] p = []"
| "attach_alternative (b # bs) (i, a) =
     (if bc_id b = i then b\<lparr>degraded_alternatives := degraded_alternatives b @ [a]\<rparr> # bs
      else b # attach_alternative bs (i, a))"

definition recommend ::
    "host_facts \<Rightarrow> catalog \<Rightarrow> partial_policy option \<Rightarrow> string option \<Rightarrow> u64 option \<Rightarrow> resident_error + recommendation" where
  "recommend hardware cat partial forced allocated =
     (let policy = merged_policy partial; budget = budget_breakdown hardware policy allocated in
      bind_result (blocked_choices hardware policy budget (cat_models cat)) (\<lambda>blocked.
      let automatic = choose_resident cat hardware policy budget;
          fr = apply_core_override cat hardware policy forced automatic budget;
          relaxed = budget\<lparr>resident_budget_gb := f64_min (f64_add (resident_budget_gb budget) HEADROOM_GB) (usable_gb budget)\<rparr>;
          breach = (if override_choice fr \<noteq> None then None
            else case choose_resident cat hardware policy relaxed of
                None \<Rightarrow> None
              | Some c \<Rightarrow> (case automatic of
                    None \<Rightarrow> Some c | Some a \<Rightarrow> if f64_lt (rc_score a) (rc_score c) then Some c else None));
          tr = temp_admission cat hardware policy (fr_resident fr) budget;
          blocked' = foldl attach_alternative blocked (blocked_alternatives tr)
      in Inr \<lparr>rec_hardware = hardware, rec_policy = policy, rec_budget = budget, rec_resident = fr_resident fr,
              resident_label = map_option (\<lambda>c. rc_id c @ ''@'' @ rc_label c) (fr_resident fr),
              rec_temp = choices tr, rec_blocked = blocked',
              rec_warnings = [BudgetLine budget] @ map BlockedLine blocked' @ map ForcedLine (fr_warnings fr)
                @ map TempLine (temp_warnings tr) @ (if fr_resident fr = None then [NoResident] else []),
              rec_wired_limit_mb = recommended_wired_limit_mb (apple_usable_gb (ram_gb hardware) (wired_mode policy)),
              rec_override = override_choice fr, headroom_breach_option = breach\<rparr>))"

datatype recommend_error = CatalogFailed catalog_error | ResidentFailed resident_error

definition recommend_from_file ::
    "('p, 'v) catalog_source \<Rightarrow> 'v yaml \<Rightarrow> 'p \<Rightarrow> host_facts \<Rightarrow> partial_policy option \<Rightarrow> string option \<Rightarrow> u64 option
     \<Rightarrow> recommend_error + recommendation" where
  "recommend_from_file src y path hardware partial forced allocated =
     bind_result (map_sum CatalogFailed id (load_catalog src y path)) (\<lambda>cat.
     map_sum ResidentFailed id (recommend hardware cat partial forced allocated))"

section \<open>The best of a list\<close>

text \<open>
  The loops keep the best so far by a float comparison. On elements that are \<open>ok\<close>, none of whose
  numbers is NaN, the comparison is the order of a \<open>rank\<close>, and what the loop keeps is a maximum.
\<close>

lemma keep_best_in: "foldl (keep_best better) b xs = Some m \<Longrightarrow> m \<in> set xs \<or> b = Some m"
proof (induction xs arbitrary: b)
  case (Cons x xs)
  then have "m \<in> set xs \<or> keep_best better b x = Some m" by simp
  then show ?case by (auto simp: keep_best_def split: option.splits if_splits)
qed simp

lemma keep_best_None: "foldl (keep_best better) b xs = None \<longleftrightarrow> b = None \<and> xs = []"
proof (induction xs arbitrary: b)
  case (Cons x xs)
  have "keep_best better b x \<noteq> None" by (auto simp: keep_best_def split: option.splits)
  with Cons show ?case by simp
qed simp

locale preference =
  fixes better :: "'a \<Rightarrow> 'a \<Rightarrow> bool" and rank :: "'a \<Rightarrow> 'k::linorder" and ok :: "'a \<Rightarrow> bool"
  assumes better_rank: "ok x \<Longrightarrow> ok y \<Longrightarrow> better x y \<longleftrightarrow> rank y < rank x"
begin

lemma keep_best_max:
  "foldl (keep_best better) b xs = Some m \<Longrightarrow> list_all ok xs \<Longrightarrow> pred_option ok b
    \<Longrightarrow> x \<in> set xs \<or> b = Some x \<Longrightarrow> rank x \<le> rank m"
proof (induction xs arbitrary: b x)
  case (Cons y ys)
  define c where "c = keep_best better b y"
  have ok: "pred_option ok c" using Cons.prems(2,3)
    by (auto simp: c_def keep_best_def split: option.splits)
  have fold: "foldl (keep_best better) c ys = Some m" "list_all ok ys" using Cons.prems(1,2) by (simp_all add: c_def)
  have "c \<noteq> None" by (auto simp: c_def keep_best_def split: option.splits)
  then obtain z where z: "c = Some z" by blast
  have zm: "rank z \<le> rank m" using Cons.IH [OF fold ok] z by blast
  have "rank y \<le> rank z" "\<And>w. b = Some w \<Longrightarrow> rank w \<le> rank z"
    using z Cons.prems(2,3) better_rank [of y]
    by (auto simp: c_def keep_best_def split: option.splits if_splits)
  with zm Cons.prems(4) Cons.IH [OF fold ok] show ?case by (auto intro: order_trans)
qed simp

end

definition pick_rank :: "quant_pick \<Rightarrow> int \<times> int" where
  "pick_rank p = (f64_ord (qp_quality p), - f64_ord (qp_footprint_gb p))"

definition pick_numbers :: "quant_pick \<Rightarrow> bool" where
  "pick_numbers p \<longleftrightarrow> \<not> f64_is_nan (qp_quality p) \<and> \<not> f64_is_nan (qp_footprint_gb p)"

interpretation picks: preference better_pick pick_rank pick_numbers
  by unfold_locales (auto simp: better_pick_def pick_rank_def pick_numbers_def f64_lt_def f64_eq_def)

interpretation sizes: preference smaller_pick "\<lambda>p. - f64_ord (qp_footprint_gb p)" pick_numbers
  by unfold_locales (auto simp: smaller_pick_def pick_numbers_def f64_lt_def)

definition resident_rank :: "resident_choice \<Rightarrow> int \<times> int" where
  "resident_rank r = (f64_ord (rc_score r), - f64_ord (rc_footprint_gb r))"

definition resident_numbers :: "resident_choice \<Rightarrow> bool" where
  "resident_numbers r \<longleftrightarrow> \<not> f64_is_nan (rc_score r) \<and> \<not> f64_is_nan (rc_footprint_gb r)"

interpretation residents: preference better_resident resident_rank resident_numbers
  by unfold_locales (auto simp: better_resident_def resident_rank_def resident_numbers_def f64_lt_def f64_eq_def)

section \<open>Lemmas about the picks\<close>

text \<open>A quantisation that the loop considers, with the pick it stands for.\<close>

definition considered :: "catalog_model \<Rightarrow> f64 \<Rightarrow> recommender_policy \<Rightarrow> f64 \<Rightarrow> catalog_quant \<Rightarrow> quant_pick \<Rightarrow> bool" where
  "considered m budget policy min_quality q p \<longleftrightarrow> \<not> f64_lt (cq_quality q) min_quality
     \<and> to_pick q m policy = Some p \<and> \<not> f64_lt budget (qp_footprint_gb p)"

lemma pick_loop_keep:
  assumes "pick_loop m budget policy mq best qs = Some p"
  shows "\<exists>ps. foldl (keep_best better_pick) best ps = Some p
    \<and> set ps = {x. \<exists>q \<in> set qs. considered m budget policy mq q x}"
  using assms
proof (induction qs arbitrary: best)
  case (Cons q qs)
  consider "f64_lt (cq_quality q) mq"
    | x where "\<not> f64_lt (cq_quality q) mq" "to_pick q m policy = Some x" "f64_lt budget (qp_footprint_gb x)"
    | x where "considered m budget policy mq q x"
    using Cons.prems by (fastforce simp: considered_def split: if_splits option.splits)
  then show ?case
  proof cases
    case 1
    then have none: "\<not> considered m budget policy mq q y" for y by (simp add: considered_def)
    from 1 Cons.prems Cons.IH [of best] show ?thesis by (simp add: none)
  next
    case (2 x)
    then have none: "\<not> considered m budget policy mq q y" for y by (auto simp: considered_def)
    from 2 Cons.prems Cons.IH [of best] show ?thesis by (simp add: none)
  next
    case 3
    then have x: "\<not> f64_lt (cq_quality q) mq" "to_pick q m policy = Some x" "\<not> f64_lt budget (qp_footprint_gb x)"
      by (simp_all add: considered_def)
    with Cons.prems have "pick_loop m budget policy mq (keep_best better_pick best x) qs = Some p" by simp
    from Cons.IH [OF this] obtain ps where
      ps: "foldl (keep_best better_pick) (keep_best better_pick best x) ps = Some p"
        "set ps = {x. \<exists>q \<in> set qs. considered m budget policy mq q x}" by blast
    show ?thesis
      by (rule exI [of _ "x # ps"]) (use ps x in \<open>auto simp: considered_def\<close>)
  qed
qed auto

lemma pick_quant_fits:
  assumes "pick_quant m budget policy mq = Some p"
  obtains q where "q \<in> set (quant_options m)" "considered m budget policy mq q p"
  using pick_loop_keep [OF assms [unfolded pick_quant_def]] keep_best_in by fastforce

text \<open>
  The quantisation chosen for a model is the best one that fits: it is one of the model's, meets the
  quality bar and the budget, no other that does has a higher quality, and none of the same quality
  a smaller footprint (qualities and footprints being numbers).
\<close>

theorem pick_quant_best:
  assumes "pick_quant m budget policy mq = Some p"
    and numbers: "\<And>q x. q \<in> set (quant_options m) \<Longrightarrow> to_pick q m policy = Some x \<Longrightarrow> pick_numbers x"
  shows "\<exists>q \<in> set (quant_options m). to_pick q m policy = Some p
      \<and> \<not> f64_lt (cq_quality q) mq \<and> \<not> f64_lt budget (qp_footprint_gb p)
      \<and> (\<forall>q' \<in> set (quant_options m). \<forall>x. considered m budget policy mq q' x \<longrightarrow>
           f64_le (qp_quality x) (qp_quality p)
           \<and> (f64_eq (qp_quality x) (qp_quality p) \<longrightarrow> f64_le (qp_footprint_gb p) (qp_footprint_gb x)))"
proof -
  from pick_loop_keep [OF assms(1) [unfolded pick_quant_def]] obtain ps where
    ps: "foldl (keep_best better_pick) None ps = Some p"
      "set ps = {x. \<exists>q \<in> set (quant_options m). considered m budget policy mq q x}" by blast
  from numbers ps(2) have ok: "list_all pick_numbers ps" by (auto simp: list_all_iff considered_def)
  from keep_best_in [OF ps(1)] have p: "p \<in> set ps" by simp
  have "f64_le (qp_quality x) (qp_quality p)
      \<and> (f64_eq (qp_quality x) (qp_quality p) \<longrightarrow> f64_le (qp_footprint_gb p) (qp_footprint_gb x))" if "x \<in> set ps" for x
    using picks.keep_best_max [OF ps(1) ok, of x] that p ok
    by (auto simp: pick_rank_def list_all_iff pick_numbers_def f64_le_def f64_eq_def)
  with p ps(2) show ?thesis by (auto simp: considered_def)
qed

section \<open>Lemmas about the budget\<close>

lemma temp_slot_number:
  "f64_is_finite TEMP_SLOT_RESERVE_GB" "\<not> f64_negative TEMP_SLOT_RESERVE_GB"
  "magnitude_units (f64_magnitude TEMP_SLOT_RESERVE_GB) \<le> 4 * 2 ^ 1074"
proof -
  let ?m = "round_ratio (7 * 2 ^ 1073) 1"
  have "(35::nat) * 2 ^ 1074 = 7 * 2 ^ 1073 * 10" by (simp add: power_Suc [of 2 1073, symmetric])
  then have lit: "TEMP_SLOT_RESERVE_GB = f64_make False ?m"
    using round_ratio_scale [of 10 "7 * 2 ^ 1073"] by (simp only: TEMP_SLOT_RESERVE_GB_def f64_literal_def)
  have "(7::nat) * 2 ^ 1073 \<le> 4 * 2 ^ 1074" by simp
  then have "?m \<le> round_ratio (4 * 2 ^ 1074) 1" by (rule round_ratio_mono)
  also have "\<dots> = f64_magnitude (f64_of_nat 4)" by (simp only: f64_of_nat_def magnitude_make_round)
  finally have m4: "?m \<le> f64_magnitude (f64_of_nat 4)" .
  have fin4: "f64_is_finite (f64_of_nat 4)" by (rule f64_of_nat_exact) simp
  have mag: "f64_magnitude TEMP_SLOT_RESERVE_GB = ?m" unfolding lit by (rule magnitude_make_round)
  show "f64_is_finite TEMP_SLOT_RESERVE_GB" using m4 fin4 mag by (simp only: f64_is_finite_def)
  show "\<not> f64_negative TEMP_SLOT_RESERVE_GB" unfolding lit negative_make_round by simp
  have "magnitude_units ?m \<le> magnitude_units (f64_magnitude (f64_of_nat 4))"
    using m4 magnitude_units_less [of "f64_magnitude (f64_of_nat 4)" ?m] by linarith
  also have "\<dots> = 4 * 2 ^ 1074" by (rule f64_of_nat_magnitude) simp
  finally show "magnitude_units (f64_magnitude TEMP_SLOT_RESERVE_GB) \<le> 4 * 2 ^ 1074" unfolding mag .
qed

lemma temp_reserve_number:
  assumes "n < 2 ^ 32"
  shows "f64_is_finite (f64_mul (f64_of_nat n) TEMP_SLOT_RESERVE_GB)"
    "\<not> f64_negative (f64_mul (f64_of_nat n) TEMP_SLOT_RESERVE_GB)"
proof -
  from assms have n: "n < 2 ^ 53" by simp
  define u where "u = magnitude_units (f64_magnitude TEMP_SLOT_RESERVE_GB)"
  have m: "u \<le> 4 * 2 ^ 1074" unfolding u_def by (rule temp_slot_number)
  note nx = f64_of_nat_exact(2,3) [OF n] f64_of_nat_magnitude [OF n]
  have mul: "f64_mul (f64_of_nat n) TEMP_SLOT_RESERVE_GB
      = f64_make False (round_ratio (n * 2 ^ 1074 * u) (2 ^ 1074))"
    using nx temp_slot_number finite_not_nan finite_not_inf by (simp only: f64_mul_def Let_def u_def) simp
  then show "\<not> f64_negative (f64_mul (f64_of_nat n) TEMP_SLOT_RESERVE_GB)"
    unfolding mul negative_make_round by simp
  have "n * 2 ^ 1074 * u div 2 ^ 1074 = n * u"
    by (simp add: mult.assoc mult.commute [of "2 ^ 1074"] flip: mult.assoc)
  also have "\<dots> \<le> 2 ^ 32 * (4 * 2 ^ 1074)" using assms m by (intro mult_le_mono) simp_all
  also have "(2::nat) ^ 32 * (4 * 2 ^ 1074) = 2 ^ 1108" by (simp flip: power_add)
  finally have "n * 2 ^ 1074 * u div 2 ^ 1074 < 2 ^ 1109"
    by (rule le_less_trans) (rule power_strict_increasing; simp)
  then have "bit_length (n * 2 ^ 1074 * u div 2 ^ 1074) \<le> 1109" by (rule bit_length_bound)
  then have "(bit_length (n * 2 ^ 1074 * u div 2 ^ 1074) - 53 + 2) * 2 ^ 52 < f64_infinity_bits"
    by (simp add: f64_infinity_bits_def)
  then have "round_ratio (n * 2 ^ 1074 * u) (2 ^ 1074) < f64_infinity_bits"
    using round_ratio_le le_less_trans by blast
  then show "f64_is_finite (f64_mul (f64_of_nat n) TEMP_SLOT_RESERVE_GB)"
    by (simp only: mul f64_is_finite_def magnitude_make_round)
qed

lemma f64_le_trans: "f64_le a b \<Longrightarrow> f64_le b c \<Longrightarrow> f64_le a c"
  by (auto simp: f64_le_def)

lemma div_not_nan:
  assumes "f64_is_finite a" "f64_is_finite b" "magnitude_units (f64_magnitude b) \<noteq> 0"
  shows "\<not> f64_is_nan (f64_div a b)"
  using assms make_round_not_nan by (simp add: f64_div_def Let_def finite_not_nan finite_not_inf)

lemma allocated_budget:
  assumes "budget = budget_breakdown host policy (Some bytes)"
  shows "allocated_budget_bytes budget = Some bytes" "\<not> f64_is_nan (usable_gb budget)"
    "f64_le (resident_budget_gb budget) (usable_gb budget)"
proof -
  have slots: "unat (temp_slots policy) < 2 ^ 32" using unsigned_less [of "temp_slots policy", where ?'a = nat] by simp
  have bytes: "unat bytes < 2 ^ 64" using unsigned_less [of bytes, where ?'a = nat] by simp
  have "magnitude_units (f64_magnitude (f64_of_nat 1000000000)) \<noteq> 0"
    by (subst f64_of_nat_magnitude) simp_all
  then have nan: "\<not> f64_is_nan (f64_div (f64_of_nat (unat bytes)) (f64_of_nat 1000000000))"
    by (intro div_not_nan f64_of_nat_finite bytes) simp_all
  then show "\<not> f64_is_nan (usable_gb budget)" by (simp add: assms budget_breakdown_def Let_def)
  show "allocated_budget_bytes budget = Some bytes" by (simp add: assms budget_breakdown_def Let_def)
  let ?u = "usable_gb budget" and ?t = "f64_mul (f64_of_nat (unat (temp_slots policy))) TEMP_SLOT_RESERVE_GB"
  have r: "resident_budget_gb budget = f64_sub (f64_sub ?u ?t) HEADROOM_GB"
    by (simp add: assms budget_breakdown_def Let_def)
  have first: "f64_le (f64_sub ?u ?t) ?u"
    using nan temp_reserve_number [OF slots] by (intro f64_sub_le) (simp_all add: assms budget_breakdown_def Let_def)
  have "f64_is_finite HEADROOM_GB" "\<not> f64_negative HEADROOM_GB"
    unfolding HEADROOM_GB_def using f64_of_nat_exact(2,3) [of 1] by simp_all
  moreover have "\<not> f64_is_nan (f64_sub ?u ?t)" using first by (simp add: f64_le_def)
  ultimately have "f64_le (f64_sub (f64_sub ?u ?t) HEADROOM_GB) (f64_sub ?u ?t)" by (intro f64_sub_le)
  with first show "f64_le (resident_budget_gb budget) ?u" unfolding r by (rule f64_le_trans [rotated])
qed

lemma resident_optionE:
  assumes "resident_option cat policy budget i = Some c"
  obtains m q pick where "m \<in> set (cat_models cat)" "cm_id m = i" "q \<in> set (quant_options m)"
    "considered m budget policy (quality_threshold policy) q pick"
    "c = from_pick i (context_target policy) (f64_mul (capability_score m ''reasoning'') (qp_quality pick)) pick"
    "pick_quant m budget policy (quality_threshold policy) = Some pick"
proof -
  from assms obtain m pick where m: "find (\<lambda>m. cm_id m = i) (cat_models cat) = Some m"
    and pick: "pick_quant m budget policy (quality_threshold policy) = Some pick"
    and c: "c = from_pick (cm_id m) (context_target policy) (f64_mul (capability_score m ''reasoning'') (qp_quality pick)) pick"
    by (auto simp: resident_option_def find_model_def bind_eq_Some_conv)
  from m have "m \<in> set (cat_models cat)" "cm_id m = i" by (auto simp: find_Some_iff)
  with pick c show thesis by (metis pick_quant_fits that)
qed

lemma map_filter_set: "set (List.map_filter f xs) = {y. \<exists>x \<in> set xs. f x = Some y}"
  by (induction xs) (auto simp: map_filter_simps split: option.splits)

lemma choose_residentE:
  assumes "choose_resident cat host policy budget = Some c"
  obtains i where "i \<in> set (role_candidates cat RDaily None (Some (ram_gb host)))"
    "resident_option cat policy (resident_budget_gb budget) i = Some c"
  using keep_best_in [OF assms [unfolded choose_resident_def catalog_role_new_def is_catalog_role_def, simplified]]
  by (auto simp: map_filter_set)

lemma choose_resident_fits:
  "choose_resident cat host policy budget = Some c \<Longrightarrow> \<not> f64_lt (resident_budget_gb budget) (rc_footprint_gb c)"
  by (erule choose_residentE, erule resident_optionE) (simp add: from_pick_def considered_def)

section \<open>Properties of the recommendation\<close>

text \<open>
  The resident model recommended is the best that fits: a candidate for the daily role with a positive
  answer from the quantisation search, within the resident budget, of the highest score, and among equal
  scores of the smallest footprint (scores and footprints being numbers).
\<close>

theorem choose_resident_best:
  assumes "choose_resident cat host policy budget = Some c"
    and numbers: "\<And>i r. i \<in> set (role_candidates cat RDaily None (Some (ram_gb host)))
      \<Longrightarrow> resident_option cat policy (resident_budget_gb budget) i = Some r \<Longrightarrow> resident_numbers r"
  shows "rc_id c \<in> set (role_candidates cat RDaily None (Some (ram_gb host)))
    \<and> \<not> f64_lt (resident_budget_gb budget) (rc_footprint_gb c)
    \<and> (\<forall>i \<in> set (role_candidates cat RDaily None (Some (ram_gb host))). \<forall>r.
         resident_option cat policy (resident_budget_gb budget) i = Some r \<longrightarrow>
           f64_le (rc_score r) (rc_score c)
           \<and> (f64_eq (rc_score r) (rc_score c) \<longrightarrow> f64_le (rc_footprint_gb c) (rc_footprint_gb r)))"
proof (intro conjI ballI allI impI)
  let ?cs = "role_candidates cat RDaily None (Some (ram_gb host))"
  let ?rs = "List.map_filter (resident_option cat policy (resident_budget_gb budget)) ?cs"
  have fold: "foldl (keep_best better_resident) None ?rs = Some c"
    using assms(1) by (simp add: choose_resident_def catalog_role_new_def is_catalog_role_def)
  have ok: "list_all resident_numbers ?rs" using numbers by (auto simp: list_all_iff map_filter_set)
  show "rc_id c \<in> set ?cs"
    using assms(1) by (rule choose_residentE) (erule resident_optionE, simp add: from_pick_def)
  show "\<not> f64_lt (resident_budget_gb budget) (rc_footprint_gb c)" by (rule choose_resident_fits [OF assms(1)])
  fix i r assume ir: "i \<in> set ?cs" "resident_option cat policy (resident_budget_gb budget) i = Some r"
  then have r: "r \<in> set ?rs" by (auto simp: map_filter_set)
  from residents.keep_best_max [OF fold ok, of r] r have rank: "resident_rank r \<le> resident_rank c" by simp
  have "resident_numbers r" "resident_numbers c"
    using ok r keep_best_in [OF fold] by (auto simp: list_all_iff)
  with rank show "f64_le (rc_score r) (rc_score c)"
    "f64_eq (rc_score r) (rc_score c) \<Longrightarrow> f64_le (rc_footprint_gb c) (rc_footprint_gb r)"
    by (auto simp: resident_rank_def resident_numbers_def f64_le_def f64_eq_def)
qed

lemma override_resident:
  "fr_resident (apply_core_override cat host policy forced current budget) = current
   \<or> (\<exists>c. fr_resident (apply_core_override cat host policy forced current budget) = Some c
        \<and> (allocated_budget_bytes budget \<noteq> None \<longrightarrow> \<not> f64_lt (usable_gb budget) (rc_footprint_gb c)))"
  by (auto simp: apply_core_override_def Let_def from_pick_def split: option.splits list.splits prod.splits)

lemma admit_temp_choices:
  "set (choices (admit_temp cat host policy resident budget cap acc)) \<subseteq> set (choices acc)
     \<union> {t. (allocated_budget_bytes budget \<noteq> None \<longrightarrow> \<not> f64_lt (usable_gb budget) (qp_footprint_gb (tc_quant t)))}"
  by (auto simp: admit_temp_def Let_def split: option.splits if_splits)

lemma temp_choices_allocated:
  assumes "t \<in> set (choices (temp_admission cat host policy resident budget))" "allocated_budget_bytes budget \<noteq> None"
  shows "\<not> f64_lt (usable_gb budget) (qp_footprint_gb (tc_quant t))"
proof -
  have "t \<in> set (choices acc) \<or> \<not> f64_lt (usable_gb budget) (qp_footprint_gb (tc_quant t))"
    if "t \<in> set (choices (foldl (\<lambda>acc cap. admit_temp cat host policy resident budget cap acc) acc caps))" for acc caps
    using that
  proof (induction caps arbitrary: acc)
    case (Cons cap caps)
    then have "t \<in> set (choices (admit_temp cat host policy resident budget cap acc))
        \<or> \<not> f64_lt (usable_gb budget) (qp_footprint_gb (tc_quant t))" by simp
    with admit_temp_choices [of cat host policy resident budget cap acc] assms(2) show ?case by auto
  qed simp
  from this [OF assms(1) [unfolded temp_admission_def]] show ?thesis by simp
qed

lemma recommendE:
  assumes "recommend hw cat partial forced allocated = Inr rec"
  obtains budget current where "budget = budget_breakdown hw (merged_policy partial) allocated"
    "rec_budget rec = budget" "current = choose_resident cat hw (merged_policy partial) budget"
    "rec_resident rec = fr_resident (apply_core_override cat hw (merged_policy partial) forced current budget)"
    "rec_temp rec = choices (temp_admission cat hw (merged_policy partial) (rec_resident rec) budget)"
    "\<And>c. headroom_breach_option rec = Some c \<Longrightarrow> choose_resident cat hw (merged_policy partial)
       (budget\<lparr>resident_budget_gb := f64_min (f64_add (resident_budget_gb budget) HEADROOM_GB) (usable_gb budget)\<rparr>) = Some c
       \<and> (case current of None \<Rightarrow> True | Some a \<Rightarrow> f64_lt (rc_score a) (rc_score c))"
proof
  show "rec_budget rec = budget_breakdown hw (merged_policy partial) allocated"
    "rec_resident rec = fr_resident (apply_core_override cat hw (merged_policy partial) forced
       (choose_resident cat hw (merged_policy partial) (budget_breakdown hw (merged_policy partial) allocated))
       (budget_breakdown hw (merged_policy partial) allocated))"
    "rec_temp rec = choices (temp_admission cat hw (merged_policy partial) (rec_resident rec)
       (budget_breakdown hw (merged_policy partial) allocated))"
    using assms by (auto simp: recommend_def Let_def result_simps)
  fix c assume "headroom_breach_option rec = Some c"
  with assms show "choose_resident cat hw (merged_policy partial)
       (budget_breakdown hw (merged_policy partial) allocated\<lparr>resident_budget_gb := f64_min
          (f64_add (resident_budget_gb (budget_breakdown hw (merged_policy partial) allocated)) HEADROOM_GB)
          (usable_gb (budget_breakdown hw (merged_policy partial) allocated))\<rparr>) = Some c
       \<and> (case choose_resident cat hw (merged_policy partial) (budget_breakdown hw (merged_policy partial) allocated) of
            None \<Rightarrow> True | Some a \<Rightarrow> f64_lt (rc_score a) (rc_score c))"
    by (auto simp: recommend_def Let_def result_simps split: option.splits if_splits)
qed (rule refl)+

lemma min_not_above: "\<not> f64_is_nan u \<Longrightarrow> \<not> f64_lt (f64_min x u) f \<Longrightarrow> \<not> f64_lt u f"
  by (auto simp: f64_min_def f64_lt_def split: if_splits)

text \<open>
  C34. An allocation from outside is never exceeded: when a total number of bytes is given, neither the
  resident model, forced by the user or not, nor any on-demand model offered, nor the larger resident
  offered for confirmation has a footprint above that total. The larger one is only ever an offer of a higher score.
\<close>

theorem allocation_never_exceeded:
  assumes "recommend hw cat partial forced (Some bytes) = Inr rec"
  shows "(\<forall>c \<in> set_option (rec_resident rec). \<not> f64_lt (usable_gb (rec_budget rec)) (rc_footprint_gb c))
    \<and> list_all (\<lambda>t. \<not> f64_lt (usable_gb (rec_budget rec)) (qp_footprint_gb (tc_quant t))) (rec_temp rec)
    \<and> (\<forall>c \<in> set_option (headroom_breach_option rec). \<not> f64_lt (usable_gb (rec_budget rec)) (rc_footprint_gb c))
    \<and> usable_gb (rec_budget rec) = f64_div (f64_of_nat (unat bytes)) (f64_of_nat 1000000000)"
proof -
  from recommendE [OF assms] obtain budget current where
    b: "budget = budget_breakdown hw (merged_policy partial) (Some bytes)" "rec_budget rec = budget"
    and cur: "current = choose_resident cat hw (merged_policy partial) budget"
    and rest: "rec_resident rec = fr_resident (apply_core_override cat hw (merged_policy partial) forced current budget)"
      "rec_temp rec = choices (temp_admission cat hw (merged_policy partial) (rec_resident rec) budget)"
    and breach: "\<And>c. headroom_breach_option rec = Some c \<Longrightarrow> choose_resident cat hw (merged_policy partial)
       (budget\<lparr>resident_budget_gb := f64_min (f64_add (resident_budget_gb budget) HEADROOM_GB) (usable_gb budget)\<rparr>) = Some c"
    by metis
  note alloc = allocated_budget [OF b(1)]
  have above: "\<not> f64_lt (usable_gb budget) f" if "\<not> f64_lt (resident_budget_gb budget) f" for f
    using that alloc(3) by (auto simp: f64_lt_def f64_le_def)
  have "\<not> f64_lt (usable_gb budget) (rc_footprint_gb c)" if "rec_resident rec = Some c" for c
    using override_resident [of cat hw "merged_policy partial" forced current budget] that
      above choose_resident_fits [OF cur [symmetric, THEN trans]] cur alloc(1)
    by (auto simp: rest(1))
  moreover have "list_all (\<lambda>t. \<not> f64_lt (usable_gb budget) (qp_footprint_gb (tc_quant t))) (rec_temp rec)"
    using temp_choices_allocated alloc(1) by (auto simp: rest(2) list_all_iff)
  moreover have "\<not> f64_lt (usable_gb budget) (rc_footprint_gb c)" if "headroom_breach_option rec = Some c" for c
    using choose_resident_fits [OF breach [OF that]] min_not_above [OF alloc(2)] by simp
  ultimately show ?thesis by (simp add: b budget_breakdown_def Let_def)
qed

lemma to_pick_total: "cq_bpp q \<noteq> None \<or> cq_weights_gb q \<noteq> None \<Longrightarrow> \<exists>p. to_pick q m policy = Some p"
  by (auto simp: to_pick_def weights_gb_def weight_bytes_def as_quant_spec_def Let_def split: option.splits)

lemma lowest_loop_total:
  "list_all (\<lambda>q. cq_bpp q \<noteq> None \<or> cq_weights_gb q \<noteq> None) qs \<Longrightarrow> qs \<noteq> [] \<or> best \<noteq> None
    \<Longrightarrow> \<exists>p. lowest_loop m policy best qs = Some p"
proof (induction qs arbitrary: best)
  case (Cons q qs)
  then have "cq_bpp q \<noteq> None \<or> cq_weights_gb q \<noteq> None" by simp
  then obtain p where "to_pick q m policy = Some p" by (rule to_pick_total [THEN exE])
  moreover have "keep_best smaller_pick best p \<noteq> None" by (auto simp: keep_best_def split: option.splits)
  ultimately show ?case using Cons.IH [of "keep_best smaller_pick best p"] Cons.prems(1) by simp
qed auto

definition sized_catalog :: "catalog_model list \<Rightarrow> bool" where
  "sized_catalog ms \<longleftrightarrow> list_all (\<lambda>m. quant_options m \<noteq> []
     \<and> list_all (\<lambda>q. cq_bpp q \<noteq> None \<or> cq_weights_gb q \<noteq> None) (quant_options m)) ms"

lemma blocked_choices_total: "sized_catalog ms \<Longrightarrow> \<exists>bs. blocked_choices host policy budget ms = Inr bs"
proof (induction ms)
  case (Cons m ms)
  then obtain bs where "blocked_choices host policy budget ms = Inr bs" by (auto simp: sized_catalog_def)
  moreover from Cons.prems have "\<exists>p. lowest_footprint_pick m policy = Some p"
    unfolding lowest_footprint_pick_def by (intro lowest_loop_total) (simp_all add: sized_catalog_def)
  ultimately show ?case by (auto simp: ok_or_def)
qed simp

lemma recommend_total:
  assumes "sized_catalog (cat_models cat)"
  shows "\<exists>rec. recommend hw cat partial forced allocated = Inr rec"
proof -
  obtain bs where "blocked_choices hw (merged_policy partial) (budget_breakdown hw (merged_policy partial) allocated)
      (cat_models cat) = Inr bs"
    using blocked_choices_total [OF assms] by blast
  then show ?thesis by (simp add: recommend_def Let_def)
qed

lemma loaded_catalog_sized:
  assumes "load_catalog src y path = Inr cat"
  shows "sized_catalog (cat_models cat)"
proof -
  from assms obtain v where "parse_catalog y v = Inr cat"
    by (auto simp: load_catalog_def Let_def result_simps)
  from catalog_wf [OF this] show ?thesis
    by (auto simp: sized_catalog_def list_all_iff model_wf_def quant_wf_def)
qed

text \<open>
  A recommendation from a file fails only where the file does: if the catalogue cannot be loaded the
  error is its error, and from every catalogue that loads there is a recommendation, for any host,
  policy, override and allocation.
\<close>

theorem recommend_from_file_total:
  "case load_catalog src y path of
     Inl c \<Rightarrow> recommend_from_file src y path hw partial forced allocated = Inl (CatalogFailed c)
   | Inr cat \<Rightarrow> \<exists>rec. recommend hw cat partial forced allocated = Inr rec
       \<and> recommend_from_file src y path hw partial forced allocated = Inr rec"
proof (cases "load_catalog src y path")
  case (Inr cat)
  with recommend_total [OF loaded_catalog_sized [OF Inr], of hw partial forced allocated] show ?thesis
    by (auto simp: recommend_from_file_def)
qed (simp add: recommend_from_file_def)

section \<open>A concrete catalogue\<close>

definition sample_model :: catalog_model where
  "sample_model = \<lparr>cm_id = ''m7'', cm_family = None, params_total_b = f64_of_nat 7, params_active_b = None,
     cm_arch = \<lparr>n_layers = f64_of_nat 0, n_kv_heads = f64_of_nat 0, head_dim = f64_of_nat 0\<rparr>, cm_modality = None,
     cm_roles = [RDaily], load_hint = None, cm_capability = Some [(''reasoning'', f64_of_nat 3)],
     quant_options = [\<lparr>cq_label = ''q4'', cq_bpp = None, cq_weights_gb = Some (f64_of_nat 4), cq_quality = f64_of_nat 1\<rparr>],
     cm_license = None, cm_min_ram_gb = f64_of_nat 8, cm_status = None, cm_note = None, cm_scenarios = None\<rparr>"

definition sample_catalog :: catalog where
  "sample_catalog = \<lparr>cat_version = f64_of_nat 1, cat_models = [sample_model], cat_excluded = None\<rparr>"

definition sample_partial :: partial_policy where
  "sample_partial = \<lparr>pp_wired_mode = None, pp_context_target = Some 10, pp_kv_quant = None, pp_temp_slots = Some 0,
     pp_quality_threshold = Some (f64_of_nat 1), pp_needed_capabilities = Some []\<rparr>"

abbreviation sample_policy :: recommender_policy where
  "sample_policy \<equiv> merged_policy (Some sample_partial)"

definition sample_host :: host_facts where
  "sample_host = \<lparr>ram_gb = f64_of_nat 32, chip = ascii ''M4'', gpu_cores = None, os = ascii ''macos'', facts_source = Injected\<rparr>"

definition sample_pick :: quant_pick where
  "sample_pick = \<lparr>qp_label = ''q4'', qp_quality = f64_of_nat 1, qp_weights_gb = f64_of_nat 4, qp_kv_gb = f64_of_nat 0,
     qp_footprint_gb = f64_of_nat 5\<rparr>"

lemma sample_to_pick:
  "q \<in> set (quant_options sample_model) \<Longrightarrow> to_pick q sample_model sample_policy = Some sample_pick"
proof -
  assume q: "q \<in> set (quant_options sample_model)"
  have w: "bytes_to_gb (f64_mul (f64_of_nat 4) BYTES_PER_GB) = f64_of_nat 4"
    using f64_div_of_nat [of 4 1000000000] by (simp add: bytes_to_gb_def BYTES_PER_GB_def f64_mul_of_nat)
  have kv: "kv_cache_gb (cm_arch sample_model) 10 Q8 = f64_of_nat 0"
    using f64_div_of_nat [of 0 1000000000]
    by (simp add: kv_cache_gb_def kv_bytes_def sample_model_def f64_mul_of_nat bytes_to_gb_def BYTES_PER_GB_def)
  from q w kv show ?thesis
    by (simp add: to_pick_def weights_gb_def weight_bytes_def as_quant_spec_def sample_model_def sample_pick_def
        merged_policy_def sample_partial_def default_policy_def unwrap_or_def DEFAULT_OVERHEAD_GB_def f64_add_of_nat)
qed

lemma sample_pick_quant:
  "pick_quant sample_model (f64_of_nat 19) sample_policy (f64_of_nat 1) = Some sample_pick"
  using sample_to_pick [of "hd (quant_options sample_model)"]
  by (simp add: pick_quant_def sample_model_def keep_best_def f64_of_nat_compare sample_pick_def)

lemma of_nat_not_nan: "n < 2 ^ 53 \<Longrightarrow> \<not> f64_is_nan (f64_of_nat n)"
  by (rule finite_not_nan [OF f64_of_nat_exact(2)])

theorem pick_quant_best_witness:
  "\<not> f64_lt (f64_of_nat 19) (qp_footprint_gb sample_pick)
   \<and> (\<exists>q \<in> set (quant_options sample_model). to_pick q sample_model sample_policy = Some sample_pick)"
proof -
  have numbers: "pick_numbers x"
    if "q \<in> set (quant_options sample_model)" "to_pick q sample_model sample_policy = Some x" for q x
    using that sample_to_pick [OF that(1)] by (auto simp: pick_numbers_def sample_pick_def of_nat_not_nan)
  show ?thesis using pick_quant_best [OF sample_pick_quant] numbers by blast
qed

lemma sample_budget:
  "budget_breakdown sample_host sample_policy (Some 20000000000)
   = \<lparr>allocated_budget_bytes = Some 20000000000, reserve_gb = f64_zero, usable_gb = f64_of_nat 20,
      temp_reserve_gb = f64_of_nat 0, resident_budget_gb = f64_of_nat 19\<rparr>"
proof -
  have t: "f64_mul (f64_of_nat 0) TEMP_SLOT_RESERVE_GB = f64_of_nat 0"
  proof -
    have "round_ratio 0 d = 0" for d by (simp add: round_ratio_def bit_length.simps)
    with temp_slot_number f64_of_nat_exact [of 0] f64_of_nat_magnitude [of 0] show ?thesis
      by (simp add: f64_mul_def finite_not_nan finite_not_inf f64_of_nat_def [of 0])
  qed
  have u: "f64_div (f64_of_nat 20000000000) (f64_of_nat 1000000000) = f64_of_nat 20"
    using f64_div_of_nat [of 20 1000000000] by simp
  show ?thesis
    by (simp add: budget_breakdown_def Let_def merged_policy_def sample_partial_def default_policy_def unwrap_or_def
        t u f64_of_nat_sub HEADROOM_GB_def)
qed

lemma sample_candidates: "role_candidates sample_catalog RDaily None (Some (ram_gb sample_host)) = [''m7'']"
  by (simp add: sample_catalog_def role_candidates_def model_is_eligible_def is_role_metadata_eligible_def is_catalog_role_def
      is_catalog_metadata_eligible_def sample_model_def sample_host_def of_nat_not_nan f64_of_nat_compare)

lemma sample_resident:
  "resident_option sample_catalog sample_policy (f64_of_nat 19) ''m7'' = Some (from_pick ''m7'' 10 (f64_of_nat 3) sample_pick)"
proof -
  have "quality_threshold sample_policy = f64_of_nat 1" "context_target sample_policy = 10" "cm_id sample_model = ''m7''"
    "capability_score sample_model ''reasoning'' = f64_of_nat 3" "qp_quality sample_pick = f64_of_nat 1"
    by (simp_all add: merged_policy_def sample_partial_def unwrap_or_def capability_score_def sample_model_def sample_pick_def)
  then show ?thesis by (simp add: resident_option_def find_model_def sample_catalog_def sample_pick_quant f64_mul_of_nat del: One_nat_def)
qed

theorem choose_resident_best_witness:
  "\<exists>c. choose_resident sample_catalog sample_host sample_policy
      (budget_breakdown sample_host sample_policy (Some 20000000000)) = Some c
    \<and> \<not> f64_lt (f64_of_nat 19) (rc_footprint_gb c)"
proof -
  let ?b = "budget_breakdown sample_host sample_policy (Some 20000000000)"
  have rb: "resident_budget_gb ?b = f64_of_nat 19" by (simp add: sample_budget)
  have c: "choose_resident sample_catalog sample_host sample_policy ?b = Some (from_pick ''m7'' 10 (f64_of_nat 3) sample_pick)"
    by (simp add: choose_resident_def catalog_role_new_def is_catalog_role_def sample_candidates rb sample_resident
        keep_best_def map_filter_simps)
  have "resident_numbers r" if "i \<in> set (role_candidates sample_catalog RDaily None (Some (ram_gb sample_host)))"
    "resident_option sample_catalog sample_policy (resident_budget_gb ?b) i = Some r" for i r
    using that by (auto simp: rb sample_candidates sample_resident resident_numbers_def from_pick_def sample_pick_def of_nat_not_nan)
  note numbers = this
  show ?thesis using choose_resident_best [OF c] numbers c unfolding rb by blast
qed

lemma sample_sized: "sized_catalog (cat_models sample_catalog)"
  by (simp add: sized_catalog_def sample_catalog_def sample_model_def)

theorem allocation_never_exceeded_witness:
  "\<exists>rec. recommend sample_host sample_catalog (Some sample_partial) None (Some 20000000000) = Inr rec
    \<and> (\<forall>c \<in> set_option (rec_resident rec). \<not> f64_lt (f64_of_nat 20) (rc_footprint_gb c))"
proof -
  from blocked_choices_total [OF sample_sized] obtain bs where "blocked_choices sample_host sample_policy
      (budget_breakdown sample_host sample_policy (Some 20000000000)) (cat_models sample_catalog) = Inr bs" by blast
  then obtain rec where rec: "recommend sample_host sample_catalog (Some sample_partial) None (Some 20000000000) = Inr rec"
    by (simp add: recommend_def Let_def)
  have "f64_div (f64_of_nat (unat (20000000000 :: u64))) (f64_of_nat 1000000000) = f64_of_nat 20"
    using f64_div_of_nat [of 20 1000000000] by simp
  then have usable: "usable_gb (rec_budget rec) = f64_of_nat 20"
    using allocation_never_exceeded [OF rec] by simp
  with allocation_never_exceeded [OF rec] rec show ?thesis unfolding usable by blast
qed

end
