(* ===== verification/Unicode.thy ===== *)
theory Unicode
  imports Prelude
begin

text \<open>
  UTF-8 and UTF-16, as \<open>str\<close> offers them: the bytes and the code units of a text, and the
  checked conversions back. A text is its list of scalar values.
\<close>

section \<open>Scalar values\<close>

definition is_high_surrogate :: "nat \<Rightarrow> bool" where
  "is_high_surrogate u \<longleftrightarrow> 0xD800 \<le> u \<and> u \<le> 0xDBFF"

definition is_low_surrogate :: "nat \<Rightarrow> bool" where
  "is_low_surrogate u \<longleftrightarrow> 0xDC00 \<le> u \<and> u \<le> 0xDFFF"

definition is_scalar :: "nat \<Rightarrow> bool" where
  "is_scalar c \<longleftrightarrow> c < 0x110000 \<and> \<not> is_high_surrogate c \<and> \<not> is_low_surrogate c"

definition decode_surrogate_pair :: "nat \<Rightarrow> nat \<Rightarrow> nat" where
  "decode_surrogate_pair h l = 0x10000 + (h - 0xD800) * 1024 + (l - 0xDC00)"

section \<open>UTF-16\<close>

definition utf16_char :: "nat \<Rightarrow> nat list" where
  "utf16_char c = (if c < 0x10000 then [c]
     else [0xD800 + (c - 0x10000) div 1024, 0xDC00 + (c - 0x10000) mod 1024])"

definition utf16 :: "ustr \<Rightarrow> nat list" where
  "utf16 cs = concat (map utf16_char cs)"

fun from_utf16 :: "nat list \<Rightarrow> ustr option" where
  "from_utf16 [] = Some []"
| "from_utf16 [u] = (if is_high_surrogate u \<or> is_low_surrogate u then None else Some [u])"
| "from_utf16 (u # v # us) =
     (if is_high_surrogate u
      then if is_low_surrogate v then map_option ((#) (decode_surrogate_pair u v)) (from_utf16 us) else None
      else if is_low_surrogate u then None
      else map_option ((#) u) (from_utf16 (v # us)))"

lemma utf16_simps [simp]: "utf16 [] = []" "utf16 (c # cs) = utf16_char c @ utf16 cs" "utf16 (cs @ ds) = utf16 cs @ utf16 ds"
  by (simp_all add: utf16_def)

lemma surrogates_disjoint: "is_high_surrogate u \<Longrightarrow> \<not> is_low_surrogate u"
  by (simp add: is_high_surrogate_def is_low_surrogate_def)

lemma utf16_char_cases:
  assumes "is_scalar c"
  obtains (unit) "utf16_char c = [c]" "\<not> is_high_surrogate c" "\<not> is_low_surrogate c"
  | (pair) h l where "utf16_char c = [h, l]" "is_high_surrogate h" "is_low_surrogate l" "decode_surrogate_pair h l = c"
proof (cases "c < 0x10000")
  case True
  with assms unit show ?thesis by (simp add: utf16_char_def is_scalar_def)
next
  case False
  define d where "d = c - 0x10000"
  have "c < 0x110000" using assms by (simp add: is_scalar_def)
  with False have d: "c = 0x10000 + d" "d < 0x100000" unfolding d_def by linarith+
  then have "d div 1024 < 1024" by (simp add: less_mult_imp_div_less)
  with d False show ?thesis
    by (intro pair [of "0xD800 + d div 1024" "0xDC00 + d mod 1024"])
      (simp_all add: utf16_char_def is_high_surrogate_def is_low_surrogate_def decode_surrogate_pair_def)
qed

lemma from_utf16_Cons: "\<not> is_high_surrogate u \<Longrightarrow> \<not> is_low_surrogate u \<Longrightarrow> from_utf16 (u # us) = map_option ((#) u) (from_utf16 us)"
  by (cases us) simp_all

lemma from_utf16_utf16: "list_all is_scalar cs \<Longrightarrow> from_utf16 (utf16 cs) = Some cs"
proof (induction cs)
  case (Cons c cs)
  then have IH: "from_utf16 (utf16 cs) = Some cs" and "is_scalar c" by simp_all
  from this(2) show ?case by (cases rule: utf16_char_cases) (simp_all add: IH from_utf16_Cons)
qed simp

lemma utf16_inj: "list_all is_scalar a \<Longrightarrow> list_all is_scalar b \<Longrightarrow> utf16 a = utf16 b \<longleftrightarrow> a = b"
  using from_utf16_utf16 by (metis option.inject)

section \<open>UTF-8\<close>

definition utf8_char :: "nat \<Rightarrow> nat list" where
  "utf8_char c =
     (if c < 0x80 then [c]
      else if c < 0x800 then [0xC0 + c div 64, 0x80 + c mod 64]
      else if c < 0x10000 then [0xE0 + c div 4096, 0x80 + c div 64 mod 64, 0x80 + c mod 64]
      else [0xF0 + c div 262144, 0x80 + c div 4096 mod 64, 0x80 + c div 64 mod 64, 0x80 + c mod 64])"

definition utf8 :: "ustr \<Rightarrow> nat list" where
  "utf8 cs = concat (map utf8_char cs)"

text \<open>\<open>str::from_utf8\<close>: the text whose encoding the bytes are, if there is one.\<close>

definition from_utf8 :: "nat list \<Rightarrow> ustr option" where
  "from_utf8 bs = (let cs = chars_from bs in if list_all is_scalar cs \<and> utf8 cs = bs then Some cs else None)"

lemma utf8_simps [simp]: "utf8 [] = []" "utf8 (c # cs) = utf8_char c @ utf8 cs" "utf8 (cs @ ds) = utf8 cs @ utf8 ds"
  by (simp_all add: utf8_def)

lemma chars_from_utf8_char:
  assumes "is_scalar c"
  shows "chars_from (utf8_char c @ bs) = c # chars_from bs"
proof -
  have c: "c < 0x110000" using assms by (simp add: is_scalar_def)
  define q1 q2 q3 where q: "q1 = c div 64" "q2 = q1 div 64" "q3 = q2 div 64"
  have d: "c div 4096 = q2" "c div 262144 = q3" by (simp_all add: q flip: div_mult2_eq)
  have e: "c = q1 * 64 + c mod 64" "q1 = q2 * 64 + q1 mod 64" "q2 = q3 * 64 + q2 mod 64" by (simp_all add: q)
  consider "c < 0x80" | "0x80 \<le> c" "c < 0x800" | "0x800 \<le> c" "c < 0x10000" | "0x10000 \<le> c" by linarith
  then show ?thesis
  proof cases
    case 2
    then have "q1 < 32" "2 \<le> q1" using e by linarith+
    then show ?thesis using 2 e by (simp add: utf8_char_def flip: q)
  next
    case 3
    then have "q2 < 16" using e by linarith
    then show ?thesis using 3 e by (simp add: utf8_char_def d flip: q)
  next
    case 4
    then have "q3 < 5" using e c by linarith
    then show ?thesis using 4 e by (simp add: utf8_char_def d flip: q)
  qed (simp add: utf8_char_def)
qed

lemma from_utf8_utf8: "list_all is_scalar cs \<Longrightarrow> from_utf8 (utf8 cs) = Some cs"
proof -
  assume cs: "list_all is_scalar cs"
  then have "chars_from (utf8 cs) = cs" by (induction cs) (simp_all add: chars_from_utf8_char)
  with cs show ?thesis by (simp add: from_utf8_def)
qed

lemma length_utf16_le: "length (utf16 cs) \<le> length (utf8 cs)"
  by (induction cs) (auto simp: utf16_char_def utf8_char_def)

lemma length_utf8: "length (utf8 cs) = sum_list (map byte_len cs)"
  by (induction cs) (simp_all add: utf8_char_def byte_len_def)

end
