(* ===== verification/Findings.thy ===== *)
theory Findings
  imports Unicode "HOL-Library.Product_Lexorder"
begin

text \<open>
  What the content inspection reports (\<^verbatim>\<open>crates/idoris-contracts/src/inspect.rs\<close>) and the walks its
  scanners share: maximal runs of units, and blocks, which are runs with an end of their own. Units are
  UTF-16 code units and positions are indices into the unit list, as natural numbers: no scanner computes a
  position beyond the end of its input, which is what \<open>hit_in\<close> says.
\<close>

section \<open>The contract\<close>

datatype sensitivity = S0 | S1 | S2 | S3

primrec sensitivity_rank :: "sensitivity \<Rightarrow> nat" where
  "sensitivity_rank S0 = 0" | "sensitivity_rank S1 = 1" | "sensitivity_rank S2 = 2" | "sensitivity_rank S3 = 3"

instantiation sensitivity :: linorder
begin

definition less_eq_sensitivity :: "sensitivity \<Rightarrow> sensitivity \<Rightarrow> bool" where
  "a \<le> b \<longleftrightarrow> sensitivity_rank a \<le> sensitivity_rank b"

definition less_sensitivity :: "sensitivity \<Rightarrow> sensitivity \<Rightarrow> bool" where
  "a < b \<longleftrightarrow> sensitivity_rank a < sensitivity_rank b"

instance
proof
  fix a b :: sensitivity
  show "a \<le> b \<Longrightarrow> b \<le> a \<Longrightarrow> a = b" by (cases a; cases b) (simp_all add: less_eq_sensitivity_def)
qed (auto simp: less_eq_sensitivity_def less_sensitivity_def)

end

datatype inspect_action = Block | Redact | Allow

datatype finding_kind =
    CnResidentId | CnMobile | BankCard | CnUnifiedSocialCreditCode | CnLicensePlate | CnPassport
  | HkIdentityCard | HkMacauTravelPermit | EmailAddress | ApiKey | PrivateKey | HighEntropySecret
  | CredentialPath | InputLimitExceeded

primrec kind_as_str :: "finding_kind \<Rightarrow> string" where
  "kind_as_str CnResidentId = ''cn_resident_id''"
| "kind_as_str CnMobile = ''cn_mobile''"
| "kind_as_str BankCard = ''bank_card''"
| "kind_as_str CnUnifiedSocialCreditCode = ''cn_unified_social_credit_code''"
| "kind_as_str CnLicensePlate = ''cn_license_plate''"
| "kind_as_str CnPassport = ''cn_passport''"
| "kind_as_str HkIdentityCard = ''hk_identity_card''"
| "kind_as_str HkMacauTravelPermit = ''hk_macau_travel_permit''"
| "kind_as_str EmailAddress = ''email_address''"
| "kind_as_str ApiKey = ''api_key''"
| "kind_as_str PrivateKey = ''private_key''"
| "kind_as_str HighEntropySecret = ''high_entropy_secret''"
| "kind_as_str CredentialPath = ''credential_path''"
| "kind_as_str InputLimitExceeded = ''input_limit_exceeded''"

text \<open>\<open>kind as u8\<close>: the position of the variant.\<close>

primrec kind_index :: "finding_kind \<Rightarrow> nat" where
  "kind_index CnResidentId = 0" | "kind_index CnMobile = 1" | "kind_index BankCard = 2"
| "kind_index CnUnifiedSocialCreditCode = 3" | "kind_index CnLicensePlate = 4" | "kind_index CnPassport = 5"
| "kind_index HkIdentityCard = 6" | "kind_index HkMacauTravelPermit = 7" | "kind_index EmailAddress = 8"
| "kind_index ApiKey = 9" | "kind_index PrivateKey = 10" | "kind_index HighEntropySecret = 11"
| "kind_index CredentialPath = 12" | "kind_index InputLimitExceeded = 13"

lemma kind_index_inject: "kind_index a = kind_index b \<longleftrightarrow> a = b"
  by (cases a; cases b) simp_all

record inspect_span =
  span_start :: nat
  span_length :: nat

record inspect_finding =
  f_kind :: finding_kind
  f_span :: "inspect_span option"

record inspect_response =
  r_sensitivity :: sensitivity
  r_findings :: "inspect_finding list"
  r_action :: inspect_action

datatype response_error = SpanOnUnscanned | UnscannedNotBlocked | EmptySpan

fun check_unscanned :: "inspect_action \<Rightarrow> inspect_finding list \<Rightarrow> response_error + unit" where
  "check_unscanned action [] = Inr ()"
| "check_unscanned action (f # fs) =
     (if f_kind f = InputLimitExceeded \<and> f_span f \<noteq> None then Inl SpanOnUnscanned
      else if f_kind f = InputLimitExceeded \<and> action \<noteq> Block then Inl UnscannedNotBlocked
      else check_unscanned action fs)"

definition validate_response :: "inspect_response \<Rightarrow> response_error + unit" where
  "validate_response r =
     bind_result (check_unscanned (r_action r) (r_findings r)) (\<lambda>_.
     if list_ex (\<lambda>s. span_length s = 0) (List.map_filter f_span (r_findings r)) then Inl EmptySpan else Inr ())"

section \<open>Hits\<close>

record hit =
  h_kind :: finding_kind
  h_start :: nat
  h_length :: nat
  h_sensitivity :: sensitivity

definition mk_hit :: "finding_kind \<Rightarrow> nat \<Rightarrow> nat \<Rightarrow> sensitivity \<Rightarrow> hit" where
  "mk_hit kind start end s = \<lparr>h_kind = kind, h_start = start, h_length = end - start, h_sensitivity = s\<rparr>"

lemma mk_hit_simps [simp]:
  "h_kind (mk_hit k a b s) = k" "h_start (mk_hit k a b s) = a" "h_length (mk_hit k a b s) = b - a"
  "h_sensitivity (mk_hit k a b s) = s"
  by (simp_all add: mk_hit_def)

text \<open>
  A hit of a scanner covers at least one unit, all of them within the first \<open>n\<close>; an exceeded limit is
  not a hit.
\<close>

definition hit_in :: "nat \<Rightarrow> hit \<Rightarrow> bool" where
  "hit_in n h \<longleftrightarrow> 1 \<le> h_length h \<and> h_start h + h_length h \<le> n \<and> h_kind h \<noteq> InputLimitExceeded"

lemma mk_hit_in: "hit_in n (mk_hit k a b s) \<longleftrightarrow> a < b \<and> b \<le> n \<and> k \<noteq> InputLimitExceeded"
  by (auto simp: hit_in_def)

lemma hit_in_mono: "hit_in m h \<Longrightarrow> m \<le> n \<Longrightarrow> hit_in n h"
  by (simp add: hit_in_def)

named_theorems hit_bounds \<open>hits of a scanner lie within its input\<close>

section \<open>Walks\<close>

definition slice :: "'a list \<Rightarrow> nat \<Rightarrow> nat \<Rightarrow> 'a list" where
  "slice xs a b = take (b - a) (drop a xs)"

lemma length_slice [simp]: "length (slice xs a b) = min (b - a) (length xs - a)"
  by (simp add: slice_def)

text \<open>The unit at a position satisfies a predicate, and there is one.\<close>

definition unit_at :: "nat list \<Rightarrow> nat \<Rightarrow> (nat \<Rightarrow> bool) \<Rightarrow> bool" where
  "unit_at us i p \<longleftrightarrow> i < length us \<and> p (us ! i)"

definition run_end :: "('a \<Rightarrow> bool) \<Rightarrow> 'a list \<Rightarrow> nat \<Rightarrow> nat" where
  "run_end p us i = i + length (takeWhile p (drop i us))"

lemma run_end_ge [simp]: "i \<le> run_end p us i"
  by (simp add: run_end_def)

lemma run_end_step:
  "run_end p us i < n \<Longrightarrow> n - Suc (run_end p us i) < n - i" "i < n \<Longrightarrow> n - Suc (min n (run_end p us i)) < n - i"
  using run_end_ge [of i p us] by linarith+

lemma run_end_le: "i \<le> length us \<Longrightarrow> run_end p us i \<le> length us"
  using length_takeWhile_le [of p "drop i us"] by (simp add: run_end_def)

lemma run_end_less: "i < length us \<Longrightarrow> p (us ! i) \<Longrightarrow> i < run_end p us i"
  by (simp add: run_end_def Cons_nth_drop_Suc [symmetric])

lemma run_end_member: "i \<le> j \<Longrightarrow> j < run_end p us i \<Longrightarrow> p (us ! j)"
proof -
  assume j: "i \<le> j" "j < run_end p us i"
  then have "j - i < length (takeWhile p (drop i us))" by (simp add: run_end_def)
  then have "p (takeWhile p (drop i us) ! (j - i))" by (meson nth_mem set_takeWhileD)
  moreover have "takeWhile p (drop i us) ! (j - i) = us ! j"
    using j length_takeWhile_le [of p "drop i us"] by (subst takeWhile_nth) (auto simp: run_end_def)
  ultimately show ?thesis by simp
qed

lemma run_end_stop: "run_end p us i < length us \<Longrightarrow> \<not> p (us ! run_end p us i)"
  using nth_length_takeWhile [of p "drop i us"] by (simp add: run_end_def)

function blocks :: "(nat \<Rightarrow> bool) \<Rightarrow> (nat \<Rightarrow> nat) \<Rightarrow> nat list \<Rightarrow> nat \<Rightarrow> (nat \<times> nat) list" where
  "blocks p e us i =
     (if i < length us
      then if p (us ! i) then (i, e i) # blocks p e us (max (Suc i) (e i)) else blocks p e us (Suc i)
      else [])"
  by pat_completeness auto
termination by (relation "measure (\<lambda>(p, e, us, i). length us - i)") auto

declare blocks.simps [simp del]

definition runs :: "(nat \<Rightarrow> bool) \<Rightarrow> nat list \<Rightarrow> (nat \<times> nat) list" where
  "runs p us = blocks p (run_end p us) us 0"

lemma blocks_in: "(a, b) \<in> set (blocks p e us i) \<Longrightarrow> i \<le> a \<and> a < length us \<and> p (us ! a) \<and> b = e a"
proof (induction p e us i rule: blocks.induct)
  case (1 p e us i)
  then show ?case by (subst (asm) (3) blocks.simps) (fastforce split: if_splits)
qed

lemma runs_in:
  assumes "(a, b) \<in> set (runs p us)"
  shows "a < b" "b \<le> length us" "b = run_end p us a"
  using blocks_in [OF assms [unfolded runs_def]] run_end_less [of a us p] run_end_le [of a us p] by auto

text \<open>A position that satisfies \<open>p\<close> and that no earlier block crosses starts a block.\<close>

lemma blocks_start:
  assumes "i \<le> q" "q < length us" "p (us ! q)"
    and "\<And>a. i \<le> a \<Longrightarrow> a < q \<Longrightarrow> p (us ! a) \<Longrightarrow> e a \<le> q"
  shows "(q, e q) \<in> set (blocks p e us i)"
  using assms
proof (induction p e us i rule: blocks.induct)
  case (1 p e us i)
  show ?case
  proof (cases "i = q")
    case True
    with 1(3-) show ?thesis by (subst blocks.simps) simp
  next
    case False
    with 1(3) have i: "i < q" by simp
    show ?thesis
    proof (cases "p (us ! i)")
      case True
      have "max (Suc i) (e i) \<le> q" using 1(6) [of i] i True by simp
      with 1(1) [OF _ True] 1(3-) i True show ?thesis by (subst blocks.simps) simp
    next
      case False
      with 1(2) [OF _ False] 1(3-) i show ?thesis by (subst blocks.simps) simp
    qed
  qed
qed

text \<open>\<open>position\<close> of an element.\<close>

fun index_of :: "'a \<Rightarrow> 'a list \<Rightarrow> nat option" where
  "index_of x [] = None"
| "index_of x (y # ys) = (if x = y then Some 0 else map_option Suc (index_of x ys))"

text \<open>\<open>windows\<close>, and the first position of a pattern from an index on.\<close>

definition windows :: "nat \<Rightarrow> 'a list \<Rightarrow> 'a list list" where
  "windows n xs = map (\<lambda>i. take n (drop i xs)) [0..<length xs + 1 - n]"

definition find_units :: "nat list \<Rightarrow> nat \<Rightarrow> nat list \<Rightarrow> nat option" where
  "find_units us from pattern =
     (if length us < from then None
      else find (\<lambda>i. take (length pattern) (drop i us) = pattern) [from..<length us + 1 - length pattern])"

lemma find_units_Some:
  assumes "find_units us from pattern = Some i"
  shows "from \<le> i" "i + length pattern \<le> length us" "take (length pattern) (drop i us) = pattern"
proof -
  from assms have "i \<in> set [from..<length us + 1 - length pattern]" and p: "take (length pattern) (drop i us) = pattern"
    by (auto simp: find_units_def find_Some_iff split: if_splits)
  then show "from \<le> i" "i + length pattern \<le> length us" by auto
  show "take (length pattern) (drop i us) = pattern" by (rule p)
qed

section \<open>Characters\<close>

definition is_upper :: "nat \<Rightarrow> bool" where "is_upper u \<longleftrightarrow> 65 \<le> u \<and> u \<le> 90"
definition is_lower :: "nat \<Rightarrow> bool" where "is_lower u \<longleftrightarrow> 97 \<le> u \<and> u \<le> 122"
definition is_alnum :: "nat \<Rightarrow> bool" where "is_alnum u \<longleftrightarrow> is_ascii_digit u \<or> is_upper u \<or> is_lower u"
definition to_upper :: "nat \<Rightarrow> nat" where "to_upper u = (if is_lower u then u - 32 else u)"
definition to_lower :: "nat \<Rightarrow> nat" where "to_lower u = (if is_upper u then u + 32 else u)"

end
