(* ===== verification/Views.thy ===== *)
theory Views
  imports Findings
begin

text \<open>
  The views of a text that the inspection scans
  (\<^verbatim>\<open>crates/idoris-policy/src/inspect/normalize.rs\<close>): unfolded, folded with and without the
  ignorable characters, with digits and look-alike letters folded, and with short escape prefixes skipped.
  Each view remembers where its units come from.
\<close>

record normalized =
  n_units :: "nat list"
  n_origin :: "nat list"

definition is_default_ignorable :: "nat \<Rightarrow> bool" where
  "is_default_ignorable cp \<longleftrightarrow>
     cp = 0x00AD \<or> cp = 0x034F \<or> cp = 0x061C \<or> 0x115F \<le> cp \<and> cp \<le> 0x1160 \<or> 0x17B4 \<le> cp \<and> cp \<le> 0x17B5
     \<or> 0x180B \<le> cp \<and> cp \<le> 0x180F \<or> 0x200B \<le> cp \<and> cp \<le> 0x200F \<or> 0x202A \<le> cp \<and> cp \<le> 0x202E
     \<or> 0x2060 \<le> cp \<and> cp \<le> 0x206F \<or> cp = 0x3164 \<or> 0xFE00 \<le> cp \<and> cp \<le> 0xFE0F \<or> cp = 0xFEFF \<or> cp = 0xFFA0
     \<or> 0xFFF0 \<le> cp \<and> cp \<le> 0xFFF8 \<or> 0x1BCA0 \<le> cp \<and> cp \<le> 0x1BCA3 \<or> 0x1D173 \<le> cp \<and> cp \<le> 0x1D17A
     \<or> 0xE0000 \<le> cp \<and> cp \<le> 0xE0FFF"

definition identity_view :: "nat list \<Rightarrow> normalized" where
  "identity_view us = \<lparr>n_units = us, n_origin = [0..<length us]\<rparr>"

definition DIGIT_ZEROS :: "nat list" where
  "DIGIT_ZEROS =
     [0x0660, 0x06F0, 0x07C0, 0x0966, 0x09E6, 0x0A66, 0x0AE6, 0x0B66, 0x0BE6, 0x0C66, 0x0CE6, 0x0D66,
      0x0DE6, 0x0E50, 0x0ED0, 0x0F20, 0x1040, 0x1090, 0x17E0, 0x1810, 0x1946, 0x19D0, 0x1A80, 0x1A90,
      0x1B50, 0x1BB0, 0x1C40, 0x1C50, 0xA620, 0xA8D0, 0xA900, 0xA9D0, 0xA9F0, 0xAA50, 0xABF0]"

definition decimal_digit_zero :: "nat \<Rightarrow> nat option" where
  "decimal_digit_zero u = find (\<lambda>zero. zero \<le> u \<and> u < zero + 10) DIGIT_ZEROS"

definition LATIN_CONFUSABLES :: "(nat \<times> nat) list" where
  "LATIN_CONFUSABLES =
     [(0x0430, 97), (0x0435, 101), (0x043E, 111), (0x03BF, 111), (0x0440, 112), (0x0441, 99), (0x0443, 121),
      (0x0445, 120), (0x0455, 115), (0x0456, 105), (0x0458, 106), (0x0410, 65), (0x0391, 65), (0x0412, 66),
      (0x0392, 66), (0x0415, 69), (0x0395, 69), (0x041A, 75), (0x039A, 75), (0x041C, 77), (0x039C, 77),
      (0x041D, 72), (0x0397, 72), (0x041E, 79), (0x039F, 79), (0x0420, 80), (0x03A1, 80), (0x0421, 67),
      (0x0422, 84), (0x03A4, 84), (0x0425, 88), (0x03A7, 88), (0x0406, 73), (0x0399, 73), (0x0408, 74),
      (0x0405, 83), (0x0396, 90), (0x039D, 78), (0x03A5, 89)]"

definition latin_confusable :: "nat \<Rightarrow> nat option" where
  "latin_confusable u = map_of LATIN_CONFUSABLES u"

definition fold_width_units :: "nat \<Rightarrow> nat" where
  "fold_width_units u =
     (if 0xFF01 \<le> u \<and> u \<le> 0xFF5E then u - 0xFEE0
      else if u = 0x3000 then 32
      else if 0x2010 \<le> u \<and> u \<le> 0x2015 \<or> u = 0x2212 then 45
      else u)"

definition fold_bmp :: "bool \<Rightarrow> nat \<Rightarrow> nat" where
  "fold_bmp fold_scripts u =
     (if fold_scripts
      then case decimal_digit_zero u of
             Some zero \<Rightarrow> u - zero + 48
           | None \<Rightarrow> (case latin_confusable u of Some latin \<Rightarrow> latin | None \<Rightarrow> fold_width_units u)
      else fold_width_units u)"

text \<open>\<open>rewrite\<close>: the kept units with the index each comes from.\<close>

fun rewrite_from :: "bool \<Rightarrow> bool \<Rightarrow> nat \<Rightarrow> nat list \<Rightarrow> (nat \<times> nat) list" where
  "rewrite_from dropping scripts i [] = []"
| "rewrite_from dropping scripts i [u] =
     (if dropping \<and> is_default_ignorable u then [] else [(fold_bmp scripts u, i)])"
| "rewrite_from dropping scripts i (u # v # us) =
     (if is_high_surrogate u \<and> is_low_surrogate v
      then if dropping \<and> is_default_ignorable (decode_surrogate_pair u v) then rewrite_from dropping scripts (i + 2) us
           else (u, i) # (v, i + 1) # rewrite_from dropping scripts (i + 2) us
      else if dropping \<and> is_default_ignorable u then rewrite_from dropping scripts (i + 1) (v # us)
      else (fold_bmp scripts u, i) # rewrite_from dropping scripts (i + 1) (v # us))"

definition view_of :: "(nat \<times> nat) list \<Rightarrow> normalized" where
  "view_of ps = \<lparr>n_units = map fst ps, n_origin = map snd ps\<rparr>"

definition rewrite :: "bool \<Rightarrow> bool \<Rightarrow> nat list \<Rightarrow> normalized" where
  "rewrite dropping scripts us = view_of (rewrite_from dropping scripts 0 us)"

definition normalize :: "nat list \<Rightarrow> normalized" where
  "normalize us = rewrite True False us"

definition fold_keeping_ignorables :: "nat list \<Rightarrow> normalized" where
  "fold_keeping_ignorables us = rewrite False False us"

definition fold_digits_and_homoglyphs :: "nat list \<Rightarrow> normalized" where
  "fold_digits_and_homoglyphs us = rewrite True True us"

text \<open>The indices that \<open>skip_short_escape_digits\<close> keeps, and whether it skipped any.\<close>

function skip_from :: "nat list \<Rightarrow> nat \<Rightarrow> nat \<Rightarrow> nat list \<times> bool" where
  "skip_from us k i =
     (if i < length us
      then if us ! i = 117 \<and> 0 < i \<and> us ! (i - 1) = 92 \<and> i + 1 + k < length us
              \<and> list_all is_ascii_digit (slice us (i + 1) (i + k + 2))
           then (let (kept, _) = skip_from us k (i + 1 + k) in (i # kept, True))
           else (let (kept, changed) = skip_from us k (i + 1) in (i # kept, changed))
      else ([], False))"
  by pat_completeness auto
termination by (relation "measure (\<lambda>(us, k, i). length us - i)") auto

declare skip_from.simps [simp del]

definition skip_short_escape_digits :: "nat list \<Rightarrow> nat \<Rightarrow> normalized option" where
  "skip_short_escape_digits us k =
     (let (kept, changed) = skip_from us k 0
      in if changed then Some (view_of (map (\<lambda>i. (us ! i, i)) kept)) else None)"

definition original_span :: "normalized \<Rightarrow> nat \<Rightarrow> nat \<Rightarrow> nat \<times> nat" where
  "original_span v start len =
     (let first = n_origin v ! start; last = n_origin v ! (start + len - 1) in (first, last + 1 - first))"

section \<open>Origins\<close>

text \<open>A view of a text of \<open>n\<close> units: each unit has an origin below \<open>n\<close>, and origins grow.\<close>

definition view_wf :: "nat \<Rightarrow> normalized \<Rightarrow> bool" where
  "view_wf n v \<longleftrightarrow> length (n_origin v) = length (n_units v) \<and> sorted_wrt (<) (n_origin v) \<and> list_all (\<lambda>i. i < n) (n_origin v)"

definition origins_in :: "nat \<Rightarrow> nat \<Rightarrow> nat list \<Rightarrow> bool" where
  "origins_in a b js \<longleftrightarrow> sorted_wrt (<) js \<and> list_all (\<lambda>j. a \<le> j \<and> j < b) js"

lemma origins_in_simps:
  "origins_in a b []" "a \<le> j \<Longrightarrow> j < b \<Longrightarrow> origins_in (Suc j) b js \<Longrightarrow> origins_in a b (j # js)"
  "a \<le> a' \<Longrightarrow> origins_in a' b js \<Longrightarrow> origins_in a b js"
  by (auto simp: origins_in_def list_all_iff Suc_le_eq)

lemma rewrite_from_origins: "origins_in i (i + length us) (map snd (rewrite_from d s i us))"
proof (induction d s i us rule: rewrite_from.induct)
  case (3 d s i u v us)
  show ?case
  proof (cases "is_high_surrogate u \<and> is_low_surrogate v")
    case pair: True
    show ?thesis
    proof (cases "d \<and> is_default_ignorable (decode_surrogate_pair u v)")
      case True
      from 3(1) [OF pair True] show ?thesis
        unfolding rewrite_from.simps if_P [OF pair] if_P [OF True] by (auto elim: origins_in_simps(3) [rotated])
    next
      case False
      from 3(2) [OF pair False] show ?thesis
        unfolding rewrite_from.simps if_P [OF pair] if_not_P [OF False]
        by (auto intro!: origins_in_simps(2) simp: numeral_2_eq_2)
    qed
  next
    case unit: False
    show ?thesis
    proof (cases "d \<and> is_default_ignorable u")
      case True
      from 3(3) [OF unit True] show ?thesis
        unfolding rewrite_from.simps if_not_P [OF unit] if_P [OF True] by (auto elim: origins_in_simps(3) [rotated])
    next
      case False
      from 3(4) [OF unit False] show ?thesis
        unfolding rewrite_from.simps if_not_P [OF unit] if_not_P [OF False] by (auto intro!: origins_in_simps(2))
    qed
  qed
qed (auto intro: origins_in_simps(1,2))

lemma rewrite_wf: "view_wf (length us) (rewrite d s us)"
  using rewrite_from_origins [of 0 us d s]
  by (simp add: view_wf_def rewrite_def view_of_def origins_in_def list_all_iff)

lemma skip_from_origins: "origins_in i (length us) (fst (skip_from us k i))"
proof (induction us k i rule: skip_from.induct)
  case (1 us k i)
  show ?case
  proof (cases "i < length us")
    case True
    let ?g = "us ! i = 117 \<and> 0 < i \<and> us ! (i - 1) = 92 \<and> i + 1 + k < length us
      \<and> list_all is_ascii_digit (slice us (i + 1) (i + k + 2))"
    define j where "j = (if ?g then i + 1 + k else i + 1)"
    have IH: "origins_in j (length us) (fst (skip_from us k j))"
      using 1 [OF True] unfolding j_def by presburger
    have "fst (skip_from us k i) = i # fst (skip_from us k j)"
      using True by (subst skip_from.simps) (simp add: j_def case_prod_beta Let_def)
    moreover have "Suc i \<le> j" by (simp add: j_def)
    ultimately show ?thesis using IH True by (metis order_refl origins_in_simps(2,3))
  next
    case False
    then show ?thesis by (subst skip_from.simps) (simp add: origins_in_simps)
  qed
qed

lemma view_wfs:
  "view_wf (length us) (identity_view us)" "view_wf (length us) (normalize us)"
  "view_wf (length us) (fold_keeping_ignorables us)" "view_wf (length us) (fold_digits_and_homoglyphs us)"
  unfolding normalize_def fold_keeping_ignorables_def fold_digits_and_homoglyphs_def
  by (rule rewrite_wf | simp add: identity_view_def view_wf_def list_all_iff)+

lemma skip_view_wf: "skip_short_escape_digits us k = Some v \<Longrightarrow> view_wf (length us) v"
  using skip_from_origins [of 0 us k]
  by (auto simp: skip_short_escape_digits_def view_of_def view_wf_def origins_in_def list_all_iff comp_def
      split: prod.splits if_splits)

text \<open>A hit within a view lies, mapped back, within the text.\<close>

lemma original_span_in:
  assumes "view_wf n v" "1 \<le> len" "start + len \<le> length (n_units v)" "original_span v start len = (a, l)"
  shows "1 \<le> l \<and> a + l \<le> n"
proof -
  from assms have a: "a = n_origin v ! start" and l: "l = n_origin v ! (start + len - 1) + 1 - a"
    by (auto simp: original_span_def Let_def)
  have idx: "start + len - 1 < length (n_origin v)" using assms(1-3) by (simp add: view_wf_def)
  then have "n_origin v ! (start + len - 1) < n" using assms(1) by (simp add: view_wf_def list_all_length)
  moreover have "a \<le> n_origin v ! (start + len - 1)"
  proof (cases "len = 1")
    case False
    then have "start < start + len - 1" using assms(2) by simp
    with idx show ?thesis using assms(1) a sorted_wrt_nth_less [of "(<)" "n_origin v" start "start + len - 1"]
      by (simp add: view_wf_def)
  qed (simp add: a)
  ultimately show ?thesis using l by simp
qed

text \<open>The identity view changes no span.\<close>

lemma identity_span:
  "1 \<le> len \<Longrightarrow> start + len \<le> length us \<Longrightarrow> original_span (identity_view us) start len = (start, len)"
  by (simp add: original_span_def identity_view_def Let_def)

end
