(* ===== verification/Scan_Numbers.thy ===== *)
theory Scan_Numbers
  imports Findings
begin

text \<open>
  The digit scanners of the inspection (\<^verbatim>\<open>crates/idoris-policy/src/inspect/l0.rs\<close>): resident ids, mobile
  numbers and bank cards, in plain digit groups, in formatted windows, with a country code and across lines.
  A scanner is a function from the units to its hits; a loop over maximal runs is a map over \<open>runs\<close>.
\<close>

section \<open>Numbers\<close>

definition PROVINCES :: "nat list" where
  "PROVINCES = [11, 12, 13, 14, 15, 21, 22, 23, 31, 32, 33, 34, 35, 36, 37, 41, 42, 43, 44, 45, 46, 50, 51, 52,
     53, 54, 61, 62, 63, 64, 65, 71, 81, 82]"

definition ID_WEIGHTS :: "nat list" where
  "ID_WEIGHTS = [7, 9, 10, 5, 8, 4, 2, 1, 6, 3, 7, 9, 10, 5, 8, 4, 2]"

definition ID_CHECK :: "nat list" where
  "ID_CHECK = [49, 48, 88, 57, 56, 55, 54, 53, 52, 51, 50]"

record candidate =
  c_digits :: "nat list"
  c_start :: nat
  c_end :: nat
  c_x_suffix :: bool

definition number :: "nat list \<Rightarrow> nat" where
  "number d = foldl (\<lambda>acc digit. acc * 10 + digit) 0 d"

definition valid_date :: "nat \<Rightarrow> nat \<Rightarrow> nat \<Rightarrow> bool" where
  "valid_date year month day =
     (let leap = (4 dvd year \<and> \<not> 100 dvd year \<or> 400 dvd year);
          days = (if month \<in> {1, 3, 5, 7, 8, 10, 12} then Some 31
                  else if month \<in> {4, 6, 9, 11} then Some 30
                  else if month = 2 then Some (if leap then 29 else 28) else None)
      in case days of None \<Rightarrow> False | Some n \<Rightarrow> 1 \<le> day \<and> day \<le> n)"

definition id_structure :: "nat list \<Rightarrow> bool" where
  "id_structure d =
     (let year = number (slice d 6 10); province = d ! 0 * 10 + d ! 1;
          province_ok = (province \<in> set PROVINCES \<or> province = 83 \<and> slice d 2 6 = [0, 0, 0, 0])
      in province_ok \<and> 1900 \<le> year \<and> year \<le> 2100
         \<and> valid_date year (number (slice d 10 12)) (number (slice d 12 14)))"

definition legacy_id_structure :: "nat list \<Rightarrow> bool" where
  "legacy_id_structure d =
     (let year = 1900 + number (slice d 6 8)
      in d ! 0 * 10 + d ! 1 \<in> set PROVINCES \<and> valid_date year (number (slice d 8 10)) (number (slice d 10 12)))"

definition id_sensitivity :: "nat list \<Rightarrow> nat \<Rightarrow> sensitivity" where
  "id_sensitivity first17 check =
     (let sum = sum_list (map2 (*) first17 ID_WEIGHTS)
      in if ID_CHECK ! (sum mod 11) = to_upper check then S3 else S2)"

definition is_mobile :: "nat list \<Rightarrow> bool" where
  "is_mobile d \<longleftrightarrow> length d = 11 \<and> d ! 0 = 1 \<and> 3 \<le> d ! 1 \<and> d ! 1 \<le> 9"

definition luhn_valid :: "nat list \<Rightarrow> bool" where
  "luhn_valid d =
     (10 dvd sum_list (map (\<lambda>(i, digit). if odd i then (if digit * 2 > 9 then digit * 2 - 9 else digit * 2) else digit)
        (List.enumerate 0 (rev d))))"

definition mobile_digits :: "nat list \<Rightarrow> bool" where
  "mobile_digits d =
     (if length d = 11 then is_mobile d
      else if length d = 13 then take 2 d = [8, 6] \<and> is_mobile (drop 2 d) else False)"

definition classify :: "candidate \<Rightarrow> hit list" where
  "classify c =
     (let d = c_digits c; push = (\<lambda>kind end s. [mk_hit kind (c_start c) end s]) in
      (if length d = 17 \<and> c_x_suffix c \<and> id_structure d
       then push CnResidentId (c_end c + 1) (id_sensitivity d 88) else [])
      @ (if length d = 18 \<and> id_structure (take 17 d)
         then push CnResidentId (c_end c) (id_sensitivity (take 17 d) (48 + d ! 17)) else [])
      @ (if length d = 15 \<and> legacy_id_structure d then push CnResidentId (c_end c) S2 else [])
      @ (if mobile_digits d then push CnMobile (c_end c) S2 else [])
      @ (if 16 \<le> length d \<and> length d \<le> 19 \<and> d ! 0 \<noteq> 0 \<and> luhn_valid d then push BankCard (c_end c) S3 else []))"

section \<open>Digit groups\<close>

definition is_separator :: "nat \<Rightarrow> bool" where
  "is_separator u \<longleftrightarrow> u = 32 \<or> u = 45"

definition is_formatted_separator :: "nat \<Rightarrow> bool" where
  "is_formatted_separator u \<longleftrightarrow> is_separator u \<or> u = 9 \<or> u = 46 \<or> u = 47"

definition is_check_x :: "nat \<Rightarrow> bool" where
  "is_check_x u \<longleftrightarrow> u = 88 \<or> u = 120"

function group_end :: "nat list \<Rightarrow> nat \<Rightarrow> nat" where
  "group_end us start =
     (let j = run_end is_ascii_digit us start
      in if unit_at us j is_separator \<and> unit_at us (j + 1) is_ascii_digit then group_end us (j + 1) else j)"
  by pat_completeness auto
termination
proof (relation "measure (\<lambda>(us, start). length us - start)")
  fix us start j assume "j = run_end is_ascii_digit us start" "unit_at us j is_separator \<and> unit_at us (j + 1) is_ascii_digit"
  then show "((us, j + 1), us, start) \<in> measure (\<lambda>(us, start). length us - start)"
    by (simp add: unit_at_def run_end_step)
qed simp

declare group_end.simps [simp del]

definition digits_of :: "nat list \<Rightarrow> nat \<Rightarrow> nat \<Rightarrow> nat list" where
  "digits_of us a b = map (\<lambda>u. u - 48) (filter is_ascii_digit (slice us a b))"

text \<open>The runs of digits of a group, which single separators divide.\<close>

function segments :: "nat list \<Rightarrow> nat \<Rightarrow> nat \<Rightarrow> (nat \<times> nat) list" where
  "segments us a end =
     (if a < end then let b = min end (run_end is_ascii_digit us a) in (a, b) # segments us (b + 1) end else [])"
  by pat_completeness auto
termination
proof (relation "measure (\<lambda>(us, a, end). end - a)")
  fix us :: "nat list" and a "end" b :: nat assume "a < end" "b = min end (run_end is_ascii_digit us a)"
  then show "((us, b + 1, end), us, a, end) \<in> measure (\<lambda>(us, a, end). end - a)" by (simp add: run_end_step)
qed simp

declare segments.simps [simp del]

definition CUES :: "nat list list" where
  "CUES =
     [[0x7535, 0x8BDD], [0x624B, 0x673A], [0x53F7, 0x7801], [0x8054, 0x7CFB], [0x5FAE, 0x4FE1], [0x624B, 0x6A5F],
      [0x865F, 0x78BC], [0x806F, 0x7E6B], ascii ''tel'', ascii ''mobile'', ascii ''phone'', ascii ''cell'', ascii ''call'',
      ascii ''contact'', ascii ''wechat'', ascii ''whatsapp'']"

definition contains_units :: "nat list \<Rightarrow> nat list \<Rightarrow> bool" where
  "contains_units window needle = list_ex (\<lambda>chunk. chunk = needle) (windows (length needle) window)"

definition contains_ascii_ci :: "nat list \<Rightarrow> nat list \<Rightarrow> bool" where
  "contains_ascii_ci window needle =
     list_ex (\<lambda>chunk. list_all (\<lambda>(unit, want). (if is_upper (unit mod 256) then unit + 32 else unit) = want)
         (zip chunk (map to_lower needle)))
       (windows (length needle) window)"

definition phone_context :: "nat list \<Rightarrow> nat \<Rightarrow> nat \<Rightarrow> bool" where
  "phone_context us start end =
     (let window = slice us (start - 64) (min (end + 64) (length us))
      in list_ex (\<lambda>cue. if list_all (\<lambda>c. c < 0x80) cue then contains_ascii_ci window cue else contains_units window cue) CUES)"

definition group_hits :: "nat list \<Rightarrow> nat \<times> nat \<Rightarrow> hit list" where
  "group_hits us = (\<lambda>(i, end).
     let x_suffix = unit_at us end is_check_x;
         joined = digits_of us i end;
         whole = classify \<lparr>c_digits = joined, c_start = i, c_end = end, c_x_suffix = x_suffix\<rparr>
     in if length joined = end - i then whole
        else
          let segs = segments us i end;
              grouped = whole @ concat (map (\<lambda>(a, b). classify \<lparr>c_digits = digits_of us a b, c_start = a, c_end = b,
                c_x_suffix = (b = end \<and> x_suffix)\<rparr>) segs);
              lengths = map (\<lambda>(a, b). b - a) segs
          in if (lengths = [3, 3, 5] \<or> lengths = [4, 4, 3]) \<and> \<not> phone_context us i end
             then filter (\<lambda>h. h_kind h \<noteq> CnMobile \<or> h_start h \<noteq> i \<or> h_length h \<noteq> end - i) grouped
             else grouped)"

definition scan_groups :: "nat list \<Rightarrow> hit list" where
  "scan_groups us = concat (map (group_hits us) (blocks is_ascii_digit (group_end us) us 0))"

section \<open>Numbers with a country code\<close>

text \<open>\<open>left\<close> is how many further segments the loop may take.\<close>

fun country_loop :: "nat list \<Rightarrow> nat \<Rightarrow> nat list \<Rightarrow> nat list \<Rightarrow> nat \<Rightarrow> nat \<Rightarrow> hit list" where
  "country_loop us start digits lengths end left =
     (if length digits = 15 \<and> lengths \<in> {[15], [4, 11], [4, 3, 8], [4, 3, 4, 4]}
         \<and> take 4 digits = [0, 0, 8, 6] \<and> is_mobile (drop 4 digits)
      then [mk_hit CnMobile start end S2]
      else case left of
        0 \<Rightarrow> []
      | Suc left' \<Rightarrow>
          if \<not> unit_at us end is_formatted_separator \<or> \<not> unit_at us (end + 1) is_ascii_digit then []
          else
            let next = take (15 - length digits) (takeWhile is_ascii_digit (drop (end + 1) us));
                next_end = end + 1 + length next
            in if unit_at us next_end is_ascii_digit then []
               else country_loop us start (digits @ map (\<lambda>u. u - 48) next) (lengths @ [length next]) next_end left')"

declare country_loop.simps [simp del]

definition scan_country_mobile :: "nat list \<Rightarrow> hit list" where
  "scan_country_mobile us =
     concat (map (\<lambda>(a, b). if b - a > 15 then [] else country_loop us a (digits_of us a b) [b - a] b 3)
       (runs is_ascii_digit us))"

section \<open>Formatted windows\<close>

definition formatted_window :: "nat list \<Rightarrow> (nat \<times> nat) list \<Rightarrow> hit list" where
  "formatted_window us segs =
     (let count = length segs; lengths = map (\<lambda>(a, b). b - a) segs; total = sum_list lengths in
      if count = 0 \<or> 5 < count \<or> 19 < total then []
      else
        let mobile_shape = (lengths \<in> {[3, 4, 4], [2, 3, 4, 4], [2, 11]});
            card_shape = (16 \<le> total \<and> total \<le> 19 \<and> 4 \<le> count \<and> list_all (\<lambda>l. l = 4) (butlast lengths)
              \<and> 1 \<le> last lengths \<and> last lengths \<le> 4);
            id_18 = (lengths \<in> {[6, 8, 4], [6, 4, 4, 4]});
            id_17 = (lengths \<in> {[6, 8, 3], [6, 4, 4, 3]});
            last_end = snd (last segs);
            x_suffix = (id_17 \<and> unit_at us last_end is_check_x);
            id_shape = (id_18 \<or> x_suffix)
        in if \<not> (count = 1 \<or> mobile_shape \<or> card_shape \<or> id_shape) then []
           else
             let hits = classify \<lparr>c_digits = concat (map (\<lambda>(a, b). digits_of us a b) segs), c_start = fst (hd segs),
                   c_end = last_end, c_x_suffix = x_suffix\<rparr>
             in if id_shape \<and> \<not> mobile_shape \<and> \<not> card_shape then filter (\<lambda>h. h_kind h = CnResidentId) hits else hits)"

text \<open>A chain of runs that single formatted separators join.\<close>

function chain :: "nat list \<Rightarrow> nat \<Rightarrow> (nat \<times> nat) list" where
  "chain us i =
     (let e = run_end is_ascii_digit us i
      in (i, e) # (if unit_at us e is_formatted_separator \<and> unit_at us (e + 1) is_ascii_digit then chain us (e + 1) else []))"
  by pat_completeness auto
termination
proof (relation "measure (\<lambda>(us, i). length us - i)")
  fix us i e assume "e = run_end is_ascii_digit us i" "unit_at us e is_formatted_separator \<and> unit_at us (e + 1) is_ascii_digit"
  then show "((us, e + 1), us, i) \<in> measure (\<lambda>(us, i). length us - i)" by (simp add: unit_at_def run_end_step)
qed simp

declare chain.simps [simp del]

text \<open>The shortest window from a start that has hits, with the number of its segments.\<close>

fun best_window :: "nat list \<Rightarrow> (nat \<times> nat) list \<Rightarrow> nat \<Rightarrow> (nat \<times> nat) list \<Rightarrow> (nat \<times> hit list) option" where
  "best_window us taken digits [] = None"
| "best_window us taken digits (s # rest) =
     (let digits' = digits + (snd s - fst s) in
      if 19 < digits' then None
      else let found = formatted_window us (taken @ [s])
           in if found \<noteq> [] then Some (length taken + 1, found) else best_window us (taken @ [s]) digits' rest)"

fun chain_hits :: "nat list \<Rightarrow> nat \<Rightarrow> nat \<Rightarrow> (nat \<times> nat) list \<Rightarrow> hit list" where
  "chain_hits us start covered [] = []"
| "chain_hits us start covered (s # rest) =
     (case best_window us [] 0 (take 5 (s # rest)) of
        Some (n, found) \<Rightarrow>
          if covered < start + n then found @ chain_hits us (Suc start) (start + n) rest
          else chain_hits us (Suc start) covered rest
      | None \<Rightarrow> chain_hits us (Suc start) covered rest)"

definition scan_formatted :: "nat list \<Rightarrow> hit list" where
  "scan_formatted us =
     concat (map (\<lambda>(i, _). chain_hits us 0 0 (chain us i))
       (blocks is_ascii_digit (\<lambda>i. snd (last (chain us i))) us 0))"

section \<open>Ids across lines\<close>

definition crossline_separator :: "nat \<Rightarrow> bool" where
  "crossline_separator u \<longleftrightarrow> u \<in> {32, 45, 9, 10, 13}"

definition crossline_gap :: "nat list \<Rightarrow> nat \<Rightarrow> (nat \<times> bool) option" where
  "crossline_gap us start =
     (let gap = takeWhile crossline_separator (take 3 (drop start us)); end = start + length gap
      in if start < end \<and> unit_at us end is_ascii_digit then Some (end, list_ex (\<lambda>u. u = 10 \<or> u = 13) gap) else None)"

definition crossline_left_neighbor :: "nat list \<Rightarrow> nat \<Rightarrow> bool" where
  "crossline_left_neighbor us start =
     (let gap = takeWhile crossline_separator (take 3 (rev (take start us))); cursor = start - length gap
      in cursor < start \<and> 0 < cursor \<and> \<not> list_ex (\<lambda>u. u = 10 \<or> u = 13) gap \<and> is_ascii_digit (us ! (cursor - 1)))"

definition crossline_right_neighbor :: "nat list \<Rightarrow> nat \<Rightarrow> bool" where
  "crossline_right_neighbor us end \<longleftrightarrow> unit_at us end is_ascii_digit
     \<or> (case crossline_gap us end of Some (_, line_break) \<Rightarrow> \<not> line_break | None \<Rightarrow> False)"

lemma crossline_gap_Some: "crossline_gap us a = Some (b, lb) \<Longrightarrow> a < b \<and> b < length us"
  by (auto simp: crossline_gap_def Let_def unit_at_def split: if_splits)

function crossline_loop :: "nat list \<Rightarrow> nat \<Rightarrow> nat list \<Rightarrow> nat \<Rightarrow> bool \<Rightarrow> hit list" where
  "crossline_loop us start digits end crossed =
     (let x_suffix = (length digits = 17 \<and> unit_at us end is_check_x) in
      if length digits = 18 \<or> x_suffix
      then
        let check_end = (if x_suffix then end + 1 else end);
            check = (if x_suffix then 88 else digits ! 17 + 48)
        in if crossed \<and> \<not> crossline_right_neighbor us check_end \<and> id_structure (take 17 digits)
              \<and> id_sensitivity (take 17 digits) check = S3
           then [mk_hit CnResidentId start check_end S3] else []
      else case crossline_gap us end of
        None \<Rightarrow> []
      | Some (next, line_break) \<Rightarrow>
          let more = take (18 - length digits) (takeWhile is_ascii_digit (drop next us)); cursor = next + length more
          in if unit_at us cursor is_ascii_digit then []
             else crossline_loop us start (digits @ map (\<lambda>u. u - 48) more) cursor (crossed \<or> line_break))"
  by pat_completeness auto
termination
  by (relation "measure (\<lambda>(us, start, digits, end, crossed). length us - end)") (auto dest: crossline_gap_Some)

declare crossline_loop.simps [simp del]

definition scan_crossline_modern_id :: "nat list \<Rightarrow> hit list" where
  "scan_crossline_modern_id us =
     concat (map (\<lambda>(a, b). if b - a > 18 \<or> crossline_left_neighbor us a then []
         else crossline_loop us a (digits_of us a b) b False)
       (runs is_ascii_digit us))"

section \<open>Ordering\<close>

text \<open>\<open>dedup_by\<close>, which merges a later hit of the same kind and place into the one kept.\<close>

definition same_place :: "hit \<Rightarrow> hit \<Rightarrow> bool" where
  "same_place a b \<longleftrightarrow> h_kind a = h_kind b \<and> h_start a = h_start b \<and> h_length a = h_length b"

fun merge_hits :: "hit list \<Rightarrow> hit list" where
  "merge_hits [] = []"
| "merge_hits [h] = [h]"
| "merge_hits (kept # later # hs) =
     (if same_place later kept
      then merge_hits (kept\<lparr>h_sensitivity := max (h_sensitivity kept) (h_sensitivity later)\<rparr> # hs)
      else kept # merge_hits (later # hs))"

definition sort_dedup :: "hit list \<Rightarrow> hit list" where
  "sort_dedup hits = merge_hits (sort_key (\<lambda>h. (h_start h, h_length h, kind_index (h_kind h))) hits)"

section \<open>Hits lie within the input\<close>

lemma length_digits_of: "length (digits_of us a b) \<le> b - a"
  unfolding digits_of_def length_map by (rule order_trans [OF length_filter_le]) simp

lemma classify_in:
  assumes "c_digits c \<noteq> [] \<Longrightarrow> c_start c < c_end c" "c_end c \<le> n" "c_x_suffix c \<Longrightarrow> c_end c < n"
  shows "list_all (hit_in n) (classify c)"
proof (cases "c_digits c")
  case Nil
  then show ?thesis by (simp add: classify_def mobile_digits_def)
next
  case Cons
  with assms(1) have "c_start c < c_end c" by simp
  with assms(2,3) show ?thesis unfolding classify_def by (auto simp: mk_hit_in Let_def)
qed

lemma group_end_in:
  "i \<le> length us \<Longrightarrow> i \<le> group_end us i \<and> group_end us i \<le> length us"
proof (induction us i rule: group_end.induct)
  case (1 us i)
  let ?j = "run_end is_ascii_digit us i"
  show ?case
  proof (cases "unit_at us ?j is_separator \<and> unit_at us (?j + 1) is_ascii_digit")
    case True
    then have "?j + 1 \<le> length us" by (simp add: unit_at_def)
    with 1(1) [OF refl True] have "?j + 1 \<le> group_end us (?j + 1) \<and> group_end us (?j + 1) \<le> length us" by simp
    moreover have "group_end us i = group_end us (?j + 1)" using True by (subst group_end.simps) simp
    ultimately show ?thesis using run_end_ge [of i is_ascii_digit us] by linarith
  next
    case False
    then have "group_end us i = ?j" by (subst group_end.simps) auto
    with 1(2) show ?thesis by (simp add: run_end_le)
  qed
qed

lemma segments_end: "(a, b) \<in> set (segments us i e) \<Longrightarrow> b \<le> e"
  by (induction us i e rule: segments.induct) (subst (asm) (2) segments.simps, auto simp: Let_def split: if_splits)

lemma digits_of_Nil: "b \<le> a \<Longrightarrow> digits_of us a b = []"
  by (simp add: digits_of_def slice_def)

lemma group_hits_in:
  assumes "i < length us"
  shows "list_all (hit_in (length us)) (group_hits us (i, group_end us i))"
proof -
  let ?e = "group_end us i"
  have e: "?e \<le> length us" using assms group_end_in [of i us] by simp
  have whole: "list_all (hit_in (length us)) (classify \<lparr>c_digits = digits_of us i ?e, c_start = i, c_end = ?e,
      c_x_suffix = unit_at us ?e is_check_x\<rparr>)"
    using e digits_of_Nil [of ?e i us] by (intro classify_in) (auto simp: unit_at_def intro: leI)
  have seg: "list_all (hit_in (length us)) (classify \<lparr>c_digits = digits_of us a b, c_start = a, c_end = b,
      c_x_suffix = (b = ?e \<and> unit_at us ?e is_check_x)\<rparr>)" if "(a, b) \<in> set (segments us i ?e)" for a b
    using e segments_end [OF that] digits_of_Nil [of b a us]
    by (intro classify_in) (auto simp: unit_at_def intro: leI)
  have filtered: "list_all P (if c then filter q xs else xs)" if "list_all P xs" for P q c and xs :: "hit list"
    using that by (auto simp: list_all_iff)
  have "list_all (hit_in (length us)) (concat (map (\<lambda>(a, b). classify \<lparr>c_digits = digits_of us a b, c_start = a, c_end = b,
      c_x_suffix = (b = ?e \<and> unit_at us ?e is_check_x)\<rparr>) (segments us i ?e)))"
    using seg by (fastforce simp: list_all_iff)
  with whole show ?thesis
    unfolding group_hits_def Let_def split_beta fst_conv snd_conv by (auto simp: list_all_iff)
qed

lemma list_all_if: "(c \<Longrightarrow> list_all P xs) \<Longrightarrow> (\<not> c \<Longrightarrow> list_all P ys) \<Longrightarrow> list_all P (if c then xs else ys)"
  by simp

lemma list_all_filter: "list_all P xs \<Longrightarrow> list_all P (filter q xs)"
  by (simp add: list_all_iff)

lemma list_all_concat_map: "(\<And>x. x \<in> set xs \<Longrightarrow> list_all P (f x)) \<Longrightarrow> list_all P (concat (map f xs))"
  by (auto simp: list_all_iff)

lemma scan_groups_in [hit_bounds]: "list_all (hit_in (length us)) (scan_groups us)"
  unfolding scan_groups_def
proof (rule list_all_concat_map)
  fix x assume x: "x \<in> set (blocks is_ascii_digit (group_end us) us 0)"
  obtain a b where ab: "x = (a, b)" by fastforce
  from blocks_in [OF x [unfolded ab]] show "list_all (hit_in (length us)) (group_hits us x)"
    using group_hits_in [of a us] by (simp add: ab)
qed

lemma country_loop_in:
  "start < end \<Longrightarrow> end \<le> length us \<Longrightarrow> list_all (hit_in (length us)) (country_loop us start digits lengths end left)"
proof (induction us start digits lengths "end" left rule: country_loop.induct)
  case (1 us start digits lengths "end" left)
  define next' where "next' = take (15 - length digits) (takeWhile is_ascii_digit (drop (end + 1) us))"
  have le: "end + 1 + length next' \<le> length us" if "unit_at us (end + 1) is_ascii_digit"
  proof -
    have "length next' \<le> length (drop (end + 1) us)"
      using length_takeWhile_le [of is_ascii_digit "drop (end + 1) us"] by (simp add: next'_def min.coboundedI1)
    with that show ?thesis by (auto simp: unit_at_def)
  qed
  show ?case
  proof (cases "unit_at us end is_formatted_separator \<and> unit_at us (end + 1) is_ascii_digit
      \<and> \<not> unit_at us (end + 1 + length next') is_ascii_digit")
    case True
    then have IH: "list_all (hit_in (length us)) (country_loop us start (digits @ map (\<lambda>u. u - 48) next')
        (lengths @ [length next']) (end + 1 + length next') left')"
      if "\<not> (length digits = 15 \<and> lengths \<in> {[15], [4, 11], [4, 3, 8], [4, 3, 4, 4]}
         \<and> take 4 digits = [0, 0, 8, 6] \<and> is_mobile (drop 4 digits))" "left = Suc left'" for left'
      using 1(1) [OF that(1) that(2) _ next'_def refl] 1(2,3) le that by simp
    show ?thesis
      using 1(2,3) True IH by (subst country_loop.simps) (auto simp: mk_hit_in next'_def Let_def split: nat.splits)
  next
    case False
    with 1(2,3) show ?thesis
      by (subst country_loop.simps) (auto simp: mk_hit_in next'_def Let_def split: nat.splits)
  qed
qed

lemma scan_country_mobile_in [hit_bounds]: "list_all (hit_in (length us)) (scan_country_mobile us)"
  unfolding scan_country_mobile_def
  by (rule list_all_concat_map) (auto intro!: country_loop_in intro: runs_in(1,2))

text \<open>The segments of a chain: not empty, in order, within the input.\<close>

definition segs_ok :: "nat \<Rightarrow> (nat \<times> nat) list \<Rightarrow> bool" where
  "segs_ok n segs \<longleftrightarrow> list_all (\<lambda>(a, b). a < b \<and> b \<le> n) segs \<and> sorted_wrt (\<lambda>x y. snd x \<le> fst y) segs"

lemma segs_ok_mono: "segs_ok n (xs @ ys) \<Longrightarrow> segs_ok n xs \<and> segs_ok n ys"
  by (auto simp: segs_ok_def sorted_wrt_append)

lemma segs_ok_take: "segs_ok n segs \<Longrightarrow> segs_ok n (take k segs)"
  by (metis append_take_drop_id segs_ok_mono)

lemma segs_ok_span:
  assumes "segs_ok n segs" "segs \<noteq> []"
  shows "fst (hd segs) < snd (last segs)" "snd (last segs) \<le> n"
proof -
  obtain x rest where segs: "segs = x # rest" using assms(2) by (cases segs) auto
  show "snd (last segs) \<le> n"
    using assms(1) last_in_set [OF assms(2)] by (cases "last segs") (fastforce simp: segs_ok_def list_all_iff)
  show "fst (hd segs) < snd (last segs)"
  proof (cases rest)
    case Nil
    with segs assms(1) show ?thesis by (auto simp: segs_ok_def)
  next
    case (Cons y ys)
    then have "last segs \<in> set rest" by (simp add: segs)
    with assms(1) segs have "snd x \<le> fst (last segs)" "fst x < snd x" "fst (last segs) < snd (last segs)"
      by (auto simp: segs_ok_def list_all_iff)
    with segs show ?thesis by simp
  qed
qed

lemma chain_ok: "unit_at us i is_ascii_digit \<Longrightarrow> segs_ok (length us) (chain us i) \<and> list_all (\<lambda>x. i \<le> fst x) (chain us i)"
proof (induction us i rule: chain.induct)
  case (1 us i)
  let ?e = "run_end is_ascii_digit us i"
  from 1(2) have e: "i < ?e" "?e \<le> length us" by (auto simp: unit_at_def run_end_less run_end_le)
  show ?case
  proof (cases "unit_at us ?e is_formatted_separator \<and> unit_at us (?e + 1) is_ascii_digit")
    case True
    with 1(1) [OF refl True] have IH: "segs_ok (length us) (chain us (?e + 1))" "list_all (\<lambda>x. ?e + 1 \<le> fst x) (chain us (?e + 1))"
      by simp_all
    have "chain us i = (i, ?e) # chain us (?e + 1)" using True by (subst chain.simps) (simp add: Let_def)
    with IH e show ?thesis by (auto simp: segs_ok_def list_all_iff)
  next
    case False
    then have "chain us i = [(i, ?e)]" by (subst chain.simps) auto
    with e show ?thesis by (simp add: segs_ok_def)
  qed
qed

lemma formatted_window_in:
  assumes "segs_ok (length us) segs"
  shows "list_all (hit_in (length us)) (formatted_window us segs)"
proof (cases "segs = []")
  case False
  note span = segs_ok_span [OF assms False]
  have "list_all (hit_in (length us)) (classify \<lparr>c_digits = d, c_start = fst (hd segs), c_end = snd (last segs), c_x_suffix = x\<rparr>)"
    if "x \<Longrightarrow> unit_at us (snd (last segs)) is_check_x" for d x
    using span that by (intro classify_in) (auto simp: unit_at_def)
  then show ?thesis unfolding formatted_window_def Let_def by (intro list_all_if list_all_filter) simp_all
qed (simp add: formatted_window_def)

lemma best_window_found:
  "best_window us taken d rest = Some (n, found) \<Longrightarrow> \<exists>k. found = formatted_window us (taken @ take k rest)"
proof (induction us taken d rest rule: best_window.induct)
  case (2 us taken d s rest)
  show ?case
  proof (cases "19 < d + (snd s - fst s)")
    case False
    show ?thesis
    proof (cases "formatted_window us (taken @ [s]) = []")
      case True
      with 2(1) [OF refl False refl] 2(2) False obtain k where "found = formatted_window us ((taken @ [s]) @ take k rest)" by (auto simp: Let_def)
      then show ?thesis by (intro exI [of _ "Suc k"]) simp
    next
      case empty: False
      with 2(2) False show ?thesis by (intro exI [of _ 1]) (simp add: Let_def)
    qed
  qed (use 2(2) in \<open>simp add: Let_def\<close>)
qed simp

lemma chain_hits_in:
  "segs_ok (length us) segs \<Longrightarrow> list_all (hit_in (length us)) (chain_hits us start covered segs)"
proof (induction us start covered segs rule: chain_hits.induct)
  case (2 us start covered s rest)
  have ok: "segs_ok (length us) rest" using segs_ok_mono [of "length us" "[s]" rest] 2(4) by simp
  have "list_all (hit_in (length us)) found" if "best_window us [] 0 (take 5 (s # rest)) = Some (n, found)" for n found
  proof -
    from best_window_found [OF that] obtain k where "found = formatted_window us (take k (take 5 (s # rest)))"
      by (metis append_Nil)
    with formatted_window_in [OF segs_ok_take [OF segs_ok_take [OF 2(4)]]] show ?thesis by metis
  qed
  with 2(1-3) ok show ?case by (auto split: option.splits)
qed simp

lemma scan_formatted_in [hit_bounds]: "list_all (hit_in (length us)) (scan_formatted us)"
  unfolding scan_formatted_def
proof (rule list_all_concat_map)
  fix x assume x: "x \<in> set (blocks is_ascii_digit (\<lambda>i. snd (last (chain us i))) us 0)"
  obtain a b where ab: "x = (a, b)" by fastforce
  from blocks_in [OF x [unfolded ab]] have "unit_at us a is_ascii_digit" by (simp add: unit_at_def)
  from chain_ok [OF this] show "list_all (hit_in (length us)) (case x of (i, _) \<Rightarrow> chain_hits us 0 0 (chain us i))"
    by (simp add: ab chain_hits_in)
qed

lemma crossline_loop_in:
  "start < end \<Longrightarrow> end \<le> length us \<Longrightarrow> list_all (hit_in (length us)) (crossline_loop us start digits end crossed)"
proof (induction us start digits "end" crossed rule: crossline_loop.induct)
  case (1 us start digits "end" crossed)
  let ?x = "length digits = 17 \<and> unit_at us end is_check_x"
  show ?case
  proof (cases "length digits = 18 \<or> ?x")
    case True
    then show ?thesis using 1(2,3)
      by (subst crossline_loop.simps) (auto simp: mk_hit_in Let_def unit_at_def)
  next
    case False
    show ?thesis
    proof (cases "crossline_gap us end")
      case None
      then show ?thesis using False by (subst crossline_loop.simps) (auto simp: Let_def)
    next
      case (Some g)
      obtain nx lb where g: "g = (nx, lb)" by fastforce
      define more where "more = take (18 - length digits) (takeWhile is_ascii_digit (drop nx us))"
      from crossline_gap_Some Some g have nx: "end < nx" "nx < length us" by blast+
      have "length more \<le> length (drop nx us)"
        using length_takeWhile_le [of is_ascii_digit "drop nx us"] by (simp add: more_def min.coboundedI1)
      with nx have cursor: "nx + length more \<le> length us" by simp
      show ?thesis
      proof (cases "unit_at us (nx + length more) is_ascii_digit")
        case True
        then show ?thesis using False Some g by (subst crossline_loop.simps) (auto simp: Let_def more_def)
      next
        case stop: False
        have "list_all (hit_in (length us)) (crossline_loop us start (digits @ map (\<lambda>u. u - 48) more)
            (nx + length more) (crossed \<or> lb))"
          using 1(1) [OF refl False Some g [symmetric] more_def refl stop] 1(2) nx cursor by simp
        then show ?thesis using False Some g stop by (subst crossline_loop.simps) (auto simp: Let_def more_def)
      qed
    qed
  qed
qed

lemma scan_crossline_in [hit_bounds]: "list_all (hit_in (length us)) (scan_crossline_modern_id us)"
  unfolding scan_crossline_modern_id_def
  by (rule list_all_concat_map) (auto intro!: crossline_loop_in intro: runs_in(1,2))

section \<open>Merging\<close>

text \<open>
  Sorting and merging loses no place: every hit leaves one of its kind, place and at least its
  sensitivity, and every hit that is left has the place of one that went in.
\<close>

definition covers :: "hit list \<Rightarrow> hit list \<Rightarrow> bool" where
  "covers out hits \<longleftrightarrow> (\<forall>h \<in> set hits. \<exists>g \<in> set out. same_place g h \<and> h_sensitivity h \<le> h_sensitivity g)"

lemma same_place_refl [simp]: "same_place h h"
  by (simp add: same_place_def)

lemma same_place_trans: "same_place a b \<Longrightarrow> same_place b c \<Longrightarrow> same_place a c"
  by (simp add: same_place_def)

lemma covers_refl: "covers hits hits"
  by (force simp: covers_def)

lemma covers_trans: "covers a b \<Longrightarrow> covers b c \<Longrightarrow> covers a c"
  unfolding covers_def by (meson order_trans same_place_trans)

lemma covers_set: "set a = set a' \<Longrightarrow> covers a b \<longleftrightarrow> covers a' b" "set b = set b' \<Longrightarrow> covers a b \<longleftrightarrow> covers a b'"
  by (simp_all add: covers_def)

lemma covers_append: "covers out (a @ b) \<longleftrightarrow> covers out a \<and> covers out b"
  by (auto simp: covers_def)

lemma covers_append_left: "covers a c \<Longrightarrow> covers (a @ b) c" "covers b c \<Longrightarrow> covers (a @ b) c"
  by (auto simp: covers_def)

lemma merge_hits_covers: "covers (merge_hits hits) hits"
proof (induction hits rule: merge_hits.induct)
  case (3 kept later hs)
  show ?case
  proof (cases "same_place later kept")
    case True
    let ?m = "kept\<lparr>h_sensitivity := max (h_sensitivity kept) (h_sensitivity later)\<rparr>"
    have "covers (?m # hs) (kept # later # hs)"
      using True by (auto simp: covers_def same_place_def)
    with 3(1) [OF True] True show ?thesis by (auto intro: covers_trans)
  next
    case False
    with 3(2) [OF False] show ?thesis by (auto simp: covers_def)
  qed
qed (simp_all add: covers_def)

lemma merge_hits_places: "h \<in> set (merge_hits hits) \<Longrightarrow> \<exists>g \<in> set hits. same_place h g"
proof (induction hits rule: merge_hits.induct)
  case (3 kept later hs)
  show ?case
  proof (cases "same_place later kept")
    case True
    with 3(1) [OF True] 3(3) show ?thesis by (fastforce simp: same_place_def)
  next
    case False
    with 3(2) [OF False] 3(3) show ?thesis by auto
  qed
qed simp_all

lemma sort_dedup_covers: "covers (sort_dedup hits) hits"
  unfolding sort_dedup_def using merge_hits_covers by (metis covers_set(2) set_sort)

lemma sort_dedup_in: "list_all (hit_in n) hits \<Longrightarrow> list_all (hit_in n) (sort_dedup hits)"
  unfolding list_all_iff sort_dedup_def
  by (auto dest!: merge_hits_places simp: hit_in_def same_place_def) (metis+)

section \<open>Isolated numbers\<close>

text \<open>
  A run of digits that no digit and no separator touches is a group of its own, and is classified as it is.
\<close>

definition isolated :: "nat list \<Rightarrow> nat list \<Rightarrow> bool" where
  "isolated pre post \<longleftrightarrow> (pre = [] \<or> \<not> is_ascii_digit (last pre) \<and> \<not> is_separator (last pre))
     \<and> (post = [] \<or> \<not> is_ascii_digit (hd post) \<and> \<not> is_separator (hd post))"

lemma group_end_gap:
  "i \<le> j \<Longrightarrow> j < group_end us i \<Longrightarrow> is_ascii_digit (us ! j) \<or> is_separator (us ! j)"
proof (induction us i rule: group_end.induct)
  case (1 us i)
  let ?j = "run_end is_ascii_digit us i"
  show ?case
  proof (cases "unit_at us ?j is_separator \<and> unit_at us (?j + 1) is_ascii_digit")
    case True
    then have e: "group_end us i = group_end us (?j + 1)" by (subst group_end.simps) simp
    consider "j < ?j" | "j = ?j" | "?j + 1 \<le> j" by linarith
    then show ?thesis
    proof cases
      case 1
      from run_end_member [OF \<open>i \<le> j\<close> 1] show ?thesis by simp
    next
      case 3
      with "1.IH" [OF refl True 3] "1.prems"(2) e show ?thesis by simp
    qed (use True in \<open>simp add: unit_at_def\<close>)
  next
    case False
    then have "group_end us i = ?j" by (subst group_end.simps) auto
    with 1 run_end_member show ?thesis by metis
  qed
qed

lemma isolated_group:
  assumes "us = pre @ d @ post" "isolated pre post" "d \<noteq> []" "list_all is_ascii_digit d"
  shows "(length pre, length pre + length d) \<in> set (blocks is_ascii_digit (group_end us) us 0)"
    "digits_of us (length pre) (length pre + length d) = map (\<lambda>u. u - 48) d"
proof -
  let ?q = "length pre" and ?e = "length pre + length d"
  have "takeWhile is_ascii_digit post = []" using assms(2) by (cases post) (auto simp: isolated_def)
  then have run: "run_end is_ascii_digit us ?q = ?e"
    using assms(4) by (simp add: run_end_def assms(1) list_all_iff takeWhile_append2)
  have "\<not> unit_at us ?e is_separator"
    using assms(2) by (cases post) (auto simp: unit_at_def assms(1) isolated_def nth_append)
  with run have e: "group_end us ?q = ?e" by (subst group_end.simps) auto
  have q: "?q < length us" "is_ascii_digit (us ! ?q)"
    using assms(3,4) by (cases d; simp add: assms(1))+
  have no_cross: "group_end us a \<le> ?q" if "a < ?q" for a
  proof (rule ccontr)
    assume "\<not> group_end us a \<le> ?q"
    then have "is_ascii_digit (us ! (?q - 1)) \<or> is_separator (us ! (?q - 1))"
      using that by (intro group_end_gap [of a]) auto
    moreover have "us ! (?q - 1) = last pre" using that by (cases pre rule: rev_cases) (simp_all add: assms(1) nth_append)
    ultimately show False using assms(2) that by (auto simp: isolated_def)
  qed
  from blocks_start [of 0 ?q us is_ascii_digit "group_end us"] q no_cross
  show "(?q, ?e) \<in> set (blocks is_ascii_digit (group_end us) us 0)" unfolding e by blast
  show "digits_of us ?q ?e = map (\<lambda>u. u - 48) d"
    using assms(4) by (simp add: digits_of_def slice_def assms(1) list_all_iff)
qed

lemma isolated_classified:
  assumes "us = pre @ d @ post" "isolated pre post" "d \<noteq> []" "list_all is_ascii_digit d"
    and "h \<in> set (classify \<lparr>c_digits = map (\<lambda>u. u - 48) d, c_start = length pre, c_end = length pre + length d,
      c_x_suffix = unit_at us (length pre + length d) is_check_x\<rparr>)"
  shows "h \<in> set (scan_groups us)"
proof -
  note g = isolated_group [OF assms(1-4)]
  have "h \<in> set (group_hits us (length pre, length pre + length d))"
    using assms(5) g(2) by (simp add: group_hits_def Let_def)
  with g(1) show ?thesis unfolding scan_groups_def by force
qed

end
