(* ===== verification/Scan_Tokens.thy ===== *)
theory Scan_Tokens
  imports Scan_Numbers
begin

text \<open>
  The scanners of alphanumeric identifiers (\<^verbatim>\<open>crates/idoris-policy/src/inspect/tokens.rs\<close>): social
  credit codes, passports, travel permits, Hong Kong identity cards, licence plates and mail addresses.
\<close>

section \<open>Tokens\<close>

definition USCC_CHARS :: "nat list" where
  "USCC_CHARS = ascii ''0123456789ABCDEFGHJKLMNPQRTUWXY''"

definition USCC_WEIGHTS :: "nat list" where
  "USCC_WEIGHTS = [1, 3, 9, 27, 19, 26, 16, 17, 20, 29, 25, 13, 8, 24, 10, 30, 28]"

definition all_digits :: "nat list \<Rightarrow> bool" where
  "all_digits t = list_all is_ascii_digit t"

definition uscc_valid :: "nat list \<Rightarrow> bool" where
  "uscc_valid t =
     (let found = map (\<lambda>c. index_of c USCC_CHARS) t in
      if None \<in> set found then False
      else
        let vals = map the found; sum = sum_list (map2 (*) vals USCC_WEIGHTS)
        in all_digits (slice t 2 8) \<and> vals ! 17 = (31 - sum mod 31) mod 31)"

definition is_passport :: "nat list \<Rightarrow> bool" where
  "is_passport t =
     (if t ! 0 = 71 then all_digits (drop 1 t)
      else if t ! 0 = 69
      then all_digits (drop 1 t)
        \<or> is_upper (t ! 1) \<and> t ! 1 \<noteq> 73 \<and> t ! 1 \<noteq> 79 \<and> all_digits (drop 2 t)
      else False)"

definition hkid_valid :: "nat list \<Rightarrow> nat \<Rightarrow> bool" where
  "hkid_valid body check =
     (let letters = length body - 6 in
      if \<not> (1 \<le> letters \<and> letters \<le> 2) \<or> \<not> list_all is_upper (take letters body) \<or> \<not> all_digits (drop letters body)
      then False
      else
        let vals = (if letters = 1 then [36] else []) @ map (\<lambda>c. c - 65 + 10) (take letters body)
              @ map (\<lambda>c. c - 48) (drop letters body);
            sum = sum_list (map2 (*) vals (rev [2..<10]));
            digit = (11 - sum mod 11) mod 11
        in if digit = 10 then check = 65 else check = 48 + digit)"

definition hkid_paren_window :: "nat list \<Rightarrow> (nat \<times> nat) option" where
  "hkid_paren_window rest =
     (let base = (if unit_at rest 0 (\<lambda>u. u = 32) then 1 else 0) in
      if length rest \<le> base + 2 then None
      else
        let open = rest ! base; check = rest ! (base + 1); close = rest ! (base + 2);
            ascii_pair = (open = 40 \<and> close = 41); fullwidth_pair = (open = 0xFF08 \<and> close = 0xFF09)
        in if \<not> (ascii_pair \<or> fullwidth_pair) \<or> check > 0x7F then None
           else Some (to_upper check, base + 3))"

definition push_parenthesized_hkid :: "nat list \<Rightarrow> nat \<Rightarrow> nat \<Rightarrow> nat list \<Rightarrow> hit list" where
  "push_parenthesized_hkid t letters start rest =
     (if length t \<noteq> letters + 6 then []
      else case hkid_paren_window rest of
        None \<Rightarrow> []
      | Some (check, extra) \<Rightarrow>
          if hkid_valid t check then [mk_hit HkIdentityCard start (start + length t + extra) S3] else [])"

definition classify_token :: "nat list \<Rightarrow> nat \<Rightarrow> nat list \<Rightarrow> hit list" where
  "classify_token t start rest =
     (let push = (\<lambda>kind len s. [mk_hit kind start (start + len) s]) in
      (if length t = 18 \<and> uscc_valid t then push CnUnifiedSocialCreditCode 18 S1 else [])
      @ (if length t = 9 \<and> is_passport t then push CnPassport 9 S3 else [])
      @ (if length t = 9 \<and> (t ! 0 = 72 \<or> t ! 0 = 77) \<and> all_digits (drop 1 t) then push HkMacauTravelPermit 9 S3 else [])
      @ push_parenthesized_hkid t 1 start rest
      @ push_parenthesized_hkid t 2 start rest
      @ (if t \<noteq> [] \<and> hkid_valid (butlast t) (last t) then push HkIdentityCard (length t) S3 else []))"

definition scan_tokens :: "nat list \<Rightarrow> hit list" where
  "scan_tokens us =
     concat (map (\<lambda>(i, end). classify_token (map to_upper (slice us i end)) i (drop end us)) (runs is_alnum us))"

section \<open>Plates\<close>

definition PLATE_PROVINCES :: "nat list" where
  "PLATE_PROVINCES =
     [0x4EAC, 0x6D25, 0x6CAA, 0x6E1D, 0x5180, 0x8C6B, 0x4E91, 0x8FBD, 0x9ED1, 0x6E58, 0x7696, 0x9C81, 0x65B0,
      0x82CF, 0x6D59, 0x8D63, 0x9102, 0x6842, 0x7518, 0x664B, 0x8499, 0x9655, 0x5409, 0x95FD, 0x8D35, 0x7CA4,
      0x9752, 0x85CF, 0x5DDD, 0x5B81, 0x743C]"

definition plate_char :: "nat \<Rightarrow> bool" where
  "plate_char u \<longleftrightarrow> is_alnum u \<and> u \<noteq> 73 \<and> u \<noteq> 79 \<and> \<not> is_lower u"

definition plate_at :: "nat list \<Rightarrow> nat \<Rightarrow> hit list" where
  "plate_at us i =
     (if us ! i \<notin> set PLATE_PROVINCES \<or> \<not> unit_at us (i + 1) (\<lambda>office. plate_char office \<and> \<not> is_ascii_digit office) then []
      else
        let tail_start = (if unit_at us (i + 2) (\<lambda>s. s = 0xB7 \<or> s = 32) then i + 3 else i + 2);
            j = run_end plate_char us tail_start;
            tail = slice us tail_start j
        in if 5 \<le> length tail \<and> length tail \<le> 6 \<and> \<not> unit_at us j is_alnum \<and> list_ex is_ascii_digit tail
           then [mk_hit CnLicensePlate i j S2] else [])"

definition scan_plates :: "nat list \<Rightarrow> hit list" where
  "scan_plates us = concat (map (plate_at us) [0..<length us])"

section \<open>Mail addresses\<close>

definition local_char :: "nat \<Rightarrow> bool" where
  "local_char u \<longleftrightarrow> is_alnum u \<or> u \<in> set (ascii ''._%+-'')"

definition domain_char :: "nat \<Rightarrow> bool" where
  "domain_char u \<longleftrightarrow> is_alnum u \<or> u = 46 \<or> u = 45"

definition email_at :: "nat list \<Rightarrow> nat \<Rightarrow> hit list" where
  "email_at us at =
     (if us ! at \<noteq> 64 then []
      else
        let start = at - length (takeWhile local_char (rev (take at us)));
            run = slice us (at + 1) (run_end domain_char us (at + 1));
            domain = rev (dropWhile (\<lambda>c. c = 46) (rev run));
            tld = rev (takeWhile (\<lambda>c. c \<noteq> 46) (rev domain));
            tld_ok = (46 \<in> set domain \<and> 2 \<le> length tld \<and> list_all (\<lambda>c. is_upper c \<or> is_lower c) tld)
        in if start < at \<and> tld_ok then [mk_hit EmailAddress start (at + 1 + length domain) S2] else [])"

definition scan_emails :: "nat list \<Rightarrow> hit list" where
  "scan_emails us = concat (map (email_at us) [0..<length us])"

definition scan_identifiers :: "nat list \<Rightarrow> hit list" where
  "scan_identifiers us = scan_tokens us @ scan_plates us @ scan_emails us"

section \<open>Hits lie within the input\<close>

lemma hkid_paren_window_in: "hkid_paren_window rest = Some (check, extra) \<Longrightarrow> extra \<le> length rest"
  by (auto simp: hkid_paren_window_def Let_def split: if_splits)

lemma push_parenthesized_hkid_in:
  assumes "t \<noteq> []" "start + length t + length rest \<le> n"
  shows "list_all (hit_in n) (push_parenthesized_hkid t letters start rest)"
proof (cases "hkid_paren_window rest")
  case (Some w)
  obtain check extra where w: "w = (check, extra)" by fastforce
  from hkid_paren_window_in [OF Some [unfolded w]] assms show ?thesis
    by (simp add: push_parenthesized_hkid_def Some w mk_hit_in)
qed (simp add: push_parenthesized_hkid_def)

lemma classify_token_in:
  assumes "t \<noteq> []" "start + length t + length rest \<le> n"
  shows "list_all (hit_in n) (classify_token t start rest)"
  using assms push_parenthesized_hkid_in [OF assms]
  by (auto simp: classify_token_def mk_hit_in Let_def)

lemma scan_tokens_in [hit_bounds]: "list_all (hit_in (length us)) (scan_tokens us)"
  unfolding scan_tokens_def
proof (rule list_all_concat_map, clarify)
  fix i e assume "(i, e) \<in> set (runs is_alnum us)"
  note r = runs_in [OF this]
  then have "map to_upper (slice us i e) \<noteq> []" by (auto simp flip: length_greater_0_conv)
  then show "list_all (hit_in (length us)) (classify_token (map to_upper (slice us i e)) i (drop e us))"
    using r(1,2) by (intro classify_token_in) auto
qed

lemma plate_at_in: "list_all (hit_in (length us)) (plate_at us i)"
  using run_end_le [of "i + 3" us plate_char] run_end_le [of "i + 2" us plate_char]
    run_end_ge [of "i + 3" plate_char us] run_end_ge [of "i + 2" plate_char us]
  by (auto simp: plate_at_def mk_hit_in Let_def unit_at_def)

lemma scan_plates_in [hit_bounds]: "list_all (hit_in (length us)) (scan_plates us)"
  unfolding scan_plates_def by (rule list_all_concat_map) (rule plate_at_in)

lemma email_at_in:
  assumes "at < length us"
  shows "list_all (hit_in (length us)) (email_at us at)"
proof -
  let ?run = "slice us (at + 1) (run_end domain_char us (at + 1))"
  let ?domain = "rev (dropWhile (\<lambda>c. c = 46) (rev ?run))"
  have "length ?domain \<le> length ?run" using length_dropWhile_le [of "\<lambda>c. c = 46" "rev ?run"] by simp
  also have "\<dots> \<le> length us - (at + 1)" by simp
  finally have "at + 1 + length ?domain \<le> length us" using assms by linarith
  then show ?thesis by (simp add: email_at_def mk_hit_in Let_def)
qed

lemma scan_emails_in [hit_bounds]: "list_all (hit_in (length us)) (scan_emails us)"
  unfolding scan_emails_def by (rule list_all_concat_map) (simp add: email_at_in)

lemma scan_identifiers_in [hit_bounds]: "list_all (hit_in (length us)) (scan_identifiers us)"
  by (simp add: scan_identifiers_def hit_bounds)

end
