(* ===== verification/Scan_Secrets.thy ===== *)
theory Scan_Secrets
  imports Scan_Numbers F64
begin

text \<open>
  The scanners of credentials (\<^verbatim>\<open>crates/idoris-policy/src/inspect/secrets.rs\<close>): private keys, keys
  with a known prefix, random strings and the paths of credential files. The binary logarithm, which
  the platform's mathematical library provides and whose precision Rust leaves open, is the parameter \<open>lg\<close>.
\<close>

section \<open>Keys\<close>

definition KEY_PREFIXES :: "(nat list \<times> nat) list" where
  "KEY_PREFIXES = map (\<lambda>(p, n). (ascii p, n))
     [(''sk-'', 20), (''AKIA'', 16), (''ASIA'', 16), (''ghp_'', 36), (''gho_'', 36), (''ghu_'', 36), (''ghs_'', 36),
      (''ghr_'', 36), (''github_pat_'', 22), (''glpat-'', 20), (''xoxb-'', 10), (''xoxp-'', 10), (''AIza'', 35), (''hf_'', 30)]"

definition has_key_prefix :: "nat list \<Rightarrow> bool" where
  "has_key_prefix token =
     list_ex (\<lambda>(p, min_body). length p + min_body \<le> length token \<and> list_all (\<lambda>(u, b). u = b) (zip token p)) KEY_PREFIXES"

definition key_member :: "nat \<Rightarrow> bool" where
  "key_member u \<longleftrightarrow> is_alnum u \<or> u = 95 \<or> u = 45"

definition scan_api_keys :: "nat list \<Rightarrow> hit list" where
  "scan_api_keys us =
     concat (map (\<lambda>(a, b). if has_key_prefix (slice us a b) then [mk_hit ApiKey a b S3] else []) (runs key_member us))"

lemma find_units_less: "find_units us from pattern = Some i \<Longrightarrow> from \<le> i \<and> i + length pattern \<le> length us"
  using find_units_Some by blast

lemma length_ascii [simp]: "length (ascii s) = length s"
  by (simp add: ascii_def)

definition header_end :: "nat list \<Rightarrow> nat \<Rightarrow> nat" where
  "header_end us begin = (case find_units us (begin + 11) (ascii ''-----'') of None \<Rightarrow> length us | Some e \<Rightarrow> e + 5)"

definition key_end :: "nat list \<Rightarrow> nat \<Rightarrow> nat" where
  "key_end us from =
     (case find_units us from (ascii ''-----END '') of
        None \<Rightarrow> length us
      | Some e \<Rightarrow> (case find_units us (e + 9) (ascii ''-----'') of None \<Rightarrow> length us | Some close \<Rightarrow> close + 5))"

lemma header_end_in:
  assumes "begin + 11 \<le> length us"
  shows "begin + 11 \<le> header_end us begin \<and> header_end us begin \<le> length us"
  using assms find_units_less [of us "begin + 11" "ascii ''-----''"] by (auto simp: header_end_def split: option.splits)

lemma key_end_in:
  assumes "from \<le> length us"
  shows "from \<le> key_end us from \<and> key_end us from \<le> length us"
proof (cases "find_units us from (ascii ''-----END '')")
  case (Some e)
  from find_units_less [OF Some] have e: "from \<le> e" by simp
  show ?thesis
  proof (cases "find_units us (e + 9) (ascii ''-----'')")
    case s: (Some c)
    from find_units_less [OF s] e show ?thesis by (simp add: key_end_def Some s)
  qed (use assms in \<open>simp add: key_end_def Some\<close>)
qed (use assms in \<open>simp add: key_end_def\<close>)

function private_keys_from :: "nat list \<Rightarrow> nat \<Rightarrow> hit list" where
  "private_keys_from us from =
     (case find_units us from (ascii ''-----BEGIN '') of
        None \<Rightarrow> []
      | Some begin \<Rightarrow>
          let header = header_end us begin in
          if find_units (slice us begin header) 0 (ascii ''PRIVATE KEY'') = None then private_keys_from us header
          else
            let e = key_end us header in mk_hit PrivateKey begin e S3 # private_keys_from us e)"
  by pat_completeness auto
termination
proof (relation "measure (\<lambda>(us, from). length us - from)")
  fix us "from" "begin" header
  assume found: "find_units us from (ascii ''-----BEGIN '') = Some begin" and header: "header = header_end us begin"
  from find_units_less [OF found] have b: "from \<le> begin" "begin + 11 \<le> length us" by simp_all
  with header_end_in [OF b(2)] header have h: "from + 11 \<le> header" "header \<le> length us" by simp_all
  then show "((us, header), us, from) \<in> measure (\<lambda>(us, from). length us - from)" by simp
  fix e assume "e = key_end us header"
  with key_end_in [OF h(2)] h show "((us, e), us, from) \<in> measure (\<lambda>(us, from). length us - from)" by auto
qed simp

declare private_keys_from.simps [simp del]

definition scan_private_keys :: "nat list \<Rightarrow> hit list" where
  "scan_private_keys us = private_keys_from us 0"

section \<open>Random strings\<close>

definition entropy_member :: "nat \<Rightarrow> bool" where
  "entropy_member u \<longleftrightarrow> is_alnum u \<or> u \<in> set (ascii ''+/_-'')"

definition unit_class :: "nat \<Rightarrow> nat" where
  "unit_class u = (if is_lower u then 0 else if is_upper u then 1 else if is_ascii_digit u then 2 else 3)"

definition switches :: "nat list \<Rightarrow> nat" where
  "switches token = length (filter (\<lambda>w. unit_class (w ! 0) \<noteq> unit_class (w ! 1)) (windows 2 token))"

definition unit_counts :: "nat list \<Rightarrow> nat list" where
  "unit_counts token = map (\<lambda>i. length (filter (\<lambda>u. u mod 128 = i) token)) [0..<128]"

definition token_entropy :: "(f64 \<Rightarrow> f64) \<Rightarrow> nat list \<Rightarrow> f64" where
  "token_entropy lg token =
     f64_sum (map (\<lambda>count. let p = f64_div (f64_of_nat count) (f64_of_nat (length token)) in f64_mul (f64_neg p) (lg p))
       (filter (\<lambda>count. 0 < count) (unit_counts token)))"

definition looks_random :: "(f64 \<Rightarrow> f64) \<Rightarrow> nat list \<Rightarrow> bool" where
  "looks_random lg token =
     (if length token < 32 then False
      else f64_le (f64_of_nat 4) (token_entropy lg token) \<and> length token - 1 \<le> switches token * 2)"

definition value_candidate :: "nat list \<Rightarrow> nat \<times> nat \<Rightarrow> nat \<times> nat" where
  "value_candidate token = (\<lambda>(part_start, part_end).
     let padded_end = part_end + length (takeWhile (\<lambda>u. u = 61) (take 2 (drop part_end token)))
     in (part_start, if unit_at token padded_end entropy_member then part_end else padded_end))"

definition random_candidates :: "nat list \<Rightarrow> (nat \<times> nat) list" where
  "random_candidates token =
     map (value_candidate token) (runs entropy_member token)
     @ (case index_of 61 token of Some eq \<Rightarrow> [(eq + 1, length token)] | None \<Rightarrow> [])
     @ [(0, length token)]"

fun accept_candidates :: "(f64 \<Rightarrow> f64) \<Rightarrow> nat list \<Rightarrow> (nat \<times> nat) list \<Rightarrow> (nat \<times> nat) list \<Rightarrow> (nat \<times> nat) list" where
  "accept_candidates lg token accepted [] = accepted"
| "accept_candidates lg token accepted ((a, b) # rest) =
     (if looks_random lg (slice token a b) \<and> \<not> list_ex (\<lambda>(x, y). a < y \<and> x < b) accepted
      then accept_candidates lg token (accepted @ [(a, b)]) rest
      else accept_candidates lg token accepted rest)"

definition scan_random :: "(f64 \<Rightarrow> f64) \<Rightarrow> nat list \<Rightarrow> hit list" where
  "scan_random lg us =
     concat (map (\<lambda>(start, end). let token = slice us start end in
         map (\<lambda>(a, b). mk_hit HighEntropySecret (start + a) (start + b) S3)
           (accept_candidates lg token [] (random_candidates token)))
       (runs (\<lambda>u. entropy_member u \<or> u = 61) us))"

section \<open>Paths\<close>

definition CREDENTIAL_PATHS :: "nat list list" where
  "CREDENTIAL_PATHS = map ascii
     [''.ssh/'', ''id_rsa'', ''id_ed25519'', ''id_ecdsa'', ''.aws/credentials'', ''.netrc'', ''.pgpass'',
      ''.docker/config.json'', ''.kube/config'', ''.keychain'', ''.pem'', ''.p12'', ''.pfx'', ''.jks'']"

definition fold_path :: "nat list \<Rightarrow> nat list" where
  "fold_path token =
     foldl (\<lambda>folded u0. let u = (if u0 = 92 then 47 else u0) in
         if u \<noteq> 47 \<or> folded = [] \<or> last folded \<noteq> u then folded @ [u] else folded) [] token"

function env_file_from :: "nat list \<Rightarrow> nat \<Rightarrow> bool" where
  "env_file_from token from =
     (case find_units token from (ascii ''.env'') of
        None \<Rightarrow> False
      | Some at \<Rightarrow>
          let before_ok = (at = 0 \<or> token ! (at - 1) = 47 \<or> token ! (at - 1) = 126);
              after_ok = (length token \<le> at + 4 \<or> token ! (at + 4) = 46)
          in if before_ok \<and> after_ok then True else env_file_from token (at + 1))"
  by pat_completeness auto
termination
  by (relation "measure (\<lambda>(token, from). length token - from)") (auto dest!: find_units_less)

declare env_file_from.simps [simp del]

definition is_env_file :: "nat list \<Rightarrow> bool" where
  "is_env_file token = env_file_from token 0"

definition credential_path :: "nat list \<Rightarrow> bool" where
  "credential_path token \<longleftrightarrow> list_ex (\<lambda>p. find_units token 0 p \<noteq> None) CREDENTIAL_PATHS \<or> is_env_file token"

definition path_member :: "nat \<Rightarrow> bool" where
  "path_member u \<longleftrightarrow> is_alnum u \<or> u \<in> set (ascii ''._~/-'')"

definition path_hits :: "nat list \<Rightarrow> nat \<times> nat \<Rightarrow> hit list" where
  "path_hits us = (\<lambda>(start, run_end).
     let end = start + length (dropWhile (\<lambda>u. u = 92) (rev (slice us start run_end))); token = slice us start end in
     if credential_path (fold_path token) then [mk_hit CredentialPath start end S2]
     else concat (map (\<lambda>(a, b). if credential_path (slice us (start + a) (start + b))
         then [mk_hit CredentialPath (start + a) (start + b) S2] else []) (runs path_member token)))"

definition scan_paths :: "nat list \<Rightarrow> hit list" where
  "scan_paths us = concat (map (path_hits us) (runs (\<lambda>u. path_member u \<or> u = 92) us))"

definition scan_secrets :: "(f64 \<Rightarrow> f64) \<Rightarrow> nat list \<Rightarrow> hit list" where
  "scan_secrets lg us = scan_private_keys us @ scan_api_keys us @ scan_random lg us @ scan_paths us"

section \<open>Hits lie within the input\<close>

lemma private_keys_from_in: "list_all (hit_in (length us)) (private_keys_from us from)"
proof (induction us "from" rule: private_keys_from.induct)
  case (1 us "from")
  show ?case
  proof (cases "find_units us from (ascii ''-----BEGIN '')")
    case None
    then show ?thesis by (subst private_keys_from.simps) simp
  next
    case (Some start)
    from find_units_less [OF Some] have "start + 11 \<le> length us" by simp
    with header_end_in key_end_in [of "header_end us start" us]
    have "start < key_end us (header_end us start)" "key_end us (header_end us start) \<le> length us" by fastforce+
    with 1 Some show ?thesis by (subst private_keys_from.simps) (simp add: Let_def mk_hit_in)
  qed
qed

lemma scan_private_keys_in [hit_bounds]: "list_all (hit_in (length us)) (scan_private_keys us)"
  by (simp add: scan_private_keys_def private_keys_from_in)

lemma scan_api_keys_in [hit_bounds]: "list_all (hit_in (length us)) (scan_api_keys us)"
  unfolding scan_api_keys_def by (rule list_all_concat_map) (auto simp: mk_hit_in intro: runs_in(1,2))

lemma accept_candidates_from:
  "x \<in> set (accept_candidates lg token accepted cs) \<Longrightarrow>
     x \<in> set accepted \<or> x \<in> set cs \<and> looks_random lg (slice token (fst x) (snd x))"
  by (induction lg token accepted cs rule: accept_candidates.induct) (auto split: if_splits)

lemma random_candidate_in:
  assumes "(a, b) \<in> set (random_candidates token)"
  shows "b \<le> length token"
proof -
  have value_part: "snd (value_candidate token (s, e)) \<le> length token" if "(s, e) \<in> set (runs entropy_member token)" for s e
  proof -
    have "length (takeWhile (\<lambda>u. u = 61) (take 2 (drop e token))) \<le> length (take 2 (drop e token))"
      by (rule length_takeWhile_le)
    with runs_in(1,2) [OF that] show ?thesis by (auto simp: value_candidate_def Let_def)
  qed
  from assms consider "(a, b) \<in> value_candidate token ` set (runs entropy_member token)" | "b = length token"
    by (auto simp: random_candidates_def split: option.splits)
  then show ?thesis
  proof cases
    case 1
    then obtain s e where "(s, e) \<in> set (runs entropy_member token)" "value_candidate token (s, e) = (a, b)" by auto
    with value_part [of s e] show ?thesis by simp
  qed simp
qed

lemma looks_random_length: "looks_random lg t \<Longrightarrow> 32 \<le> length t"
  by (simp add: looks_random_def split: if_splits)

lemma scan_random_in [hit_bounds]: "list_all (hit_in (length us)) (scan_random lg us)"
  unfolding scan_random_def
proof (rule list_all_concat_map, clarify)
  fix s e assume "(s, e) \<in> set (runs (\<lambda>u. entropy_member u \<or> u = 61) us)"
  note r = runs_in(1,2) [OF this]
  let ?t = "slice us s e"
  have "hit_in (length us) (mk_hit HighEntropySecret (s + a) (s + b) S3)"
    if "(a, b) \<in> set (accept_candidates lg ?t [] (random_candidates ?t))" for a b
  proof -
    from accept_candidates_from [OF that] have "(a, b) \<in> set (random_candidates ?t)" "32 \<le> length (slice ?t a b)"
      by (auto dest: looks_random_length)
    with random_candidate_in [of a b ?t] r show ?thesis by (auto simp: mk_hit_in)
  qed
  then show "list_all (hit_in (length us)) (let token = ?t in
      map (\<lambda>(a, b). mk_hit HighEntropySecret (s + a) (s + b) S3) (accept_candidates lg token [] (random_candidates token)))"
    by (auto simp: list_all_iff Let_def)
qed

lemma fold_path_Nil: "credential_path [] = False"
  by (simp add: credential_path_def CREDENTIAL_PATHS_def find_units_def ascii_def is_env_file_def env_file_from.simps)

lemma path_hits_in:
  assumes "s < e" "e \<le> length us"
  shows "list_all (hit_in (length us)) (path_hits us (s, e))"
proof -
  let ?d = "dropWhile (\<lambda>u. u = 92) (rev (slice us s e))"
  let ?t = "slice us s (s + length ?d)"
  have d: "length ?d \<le> e - s" using length_dropWhile_le [of "\<lambda>u. u = 92" "rev (slice us s e)"] by simp
  have t: "s < s + length ?d" if "credential_path (fold_path ?t)"
  proof (rule ccontr)
    assume "\<not> ?thesis"
    then have "?t = []" by (simp add: slice_def)
    with that show False by (simp add: fold_path_def fold_path_Nil)
  qed
  have r: "a < b \<and> s + b \<le> length us" if "(a, b) \<in> set (runs path_member ?t)" for a b
    using runs_in(1,2) [OF that] d assms by simp
  have "list_all (hit_in (length us)) (concat (map (\<lambda>(a, b). if credential_path (slice us (s + a) (s + b))
         then [mk_hit CredentialPath (s + a) (s + b) S2] else []) (runs path_member ?t)))"
    using r by (intro list_all_concat_map) (auto simp: mk_hit_in)
  with t d assms show ?thesis
    unfolding path_hits_def Let_def prod.case by (intro list_all_if) (simp_all add: mk_hit_in)
qed

lemma scan_paths_in [hit_bounds]: "list_all (hit_in (length us)) (scan_paths us)"
  unfolding scan_paths_def
  by (rule list_all_concat_map) (auto intro!: path_hits_in intro: runs_in(1,2))

lemma scan_secrets_in [hit_bounds]: "list_all (hit_in (length us)) (scan_secrets lg us)"
  by (simp add: scan_secrets_def hit_bounds)

end
