(* ===== verification/Scan.thy ===== *)
theory Scan
  imports Views Scan_Tokens Scan_Secrets
begin

text \<open>
  The scanners together: the plain scan (\<^verbatim>\<open>l0.rs\<close>), the scan of every view of a text
  (\<^verbatim>\<open>inspect/mod.rs\<close>) and the scan of what a text encodes
  (\<^verbatim>\<open>inspect/decode.rs\<close>), which decodes one layer.
\<close>

section \<open>Plain scan\<close>

definition scan_plain :: "(f64 \<Rightarrow> f64) \<Rightarrow> nat list \<Rightarrow> hit list" where
  "scan_plain lg us =
     sort_dedup (scan_groups us @ scan_formatted us @ scan_country_mobile us @ scan_identifiers us @ scan_secrets lg us
       @ scan_crossline_modern_id us)"

section \<open>Views\<close>

definition scan_view :: "(nat list \<Rightarrow> hit list) \<Rightarrow> normalized \<Rightarrow> hit list" where
  "scan_view scan v =
     map (\<lambda>h. let (a, l) = original_span v (h_start h) (h_length h) in h\<lparr>h_start := a, h_length := l\<rparr>) (scan (n_units v))"

definition malformed_hkid_spelling :: "nat list \<Rightarrow> bool" where
  "malformed_hkid_spelling span \<longleftrightarrow>
     0x3000 \<in> set span \<or> count_list span 0xFF08 \<noteq> count_list span 0xFF09 \<or> count_list span 40 \<noteq> count_list span 41"

definition drop_folded_malformed_hkid :: "nat list \<Rightarrow> hit list \<Rightarrow> hit list" where
  "drop_folded_malformed_hkid original hits =
     filter (\<lambda>h. h_kind h \<noteq> HkIdentityCard
       \<or> \<not> malformed_hkid_spelling (slice original (h_start h) (h_start h + h_length h))) hits"

text \<open>\<open>dedup_by_key\<close> keeps the first hit of a place.\<close>

fun dedup_places :: "hit list \<Rightarrow> hit list" where
  "dedup_places [] = []"
| "dedup_places [h] = [h]"
| "dedup_places (kept # later # hs) =
     (if same_place later kept then dedup_places (kept # hs) else kept # dedup_places (later # hs))"

definition view_key :: "hit \<Rightarrow> nat \<times> nat \<times> nat \<times> int" where
  "view_key h = (h_start h, h_length h, kind_index (h_kind h), - int (sensitivity_rank (h_sensitivity h)))"

definition folded_hits :: "(nat list \<Rightarrow> hit list) \<Rightarrow> nat list \<Rightarrow> normalized \<Rightarrow> hit list" where
  "folded_hits scan us v = drop_folded_malformed_hkid us (scan_view scan v)"

definition all_view_hits :: "(nat list \<Rightarrow> hit list) \<Rightarrow> nat list \<Rightarrow> hit list" where
  "all_view_hits scan us =
     scan_view scan (identity_view us)
     @ concat (map (folded_hits scan us) [fold_keeping_ignorables us, normalize us, fold_digits_and_homoglyphs us])
     @ concat (map (\<lambda>k. case skip_short_escape_digits us k of None \<Rightarrow> [] | Some v \<Rightarrow> folded_hits scan us v) [1, 2, 3])"

definition scan_all_views :: "(nat list \<Rightarrow> hit list) \<Rightarrow> nat list \<Rightarrow> hit list" where
  "scan_all_views scan us = dedup_places (sort_key view_key (all_view_hits scan us))"

section \<open>Encodings\<close>

definition hex_value :: "nat \<Rightarrow> nat option" where
  "hex_value b =
     (if 48 \<le> b \<and> b \<le> 57 then Some (b - 48)
      else if 97 \<le> b \<and> b \<le> 102 then Some (b - 97 + 10)
      else if 65 \<le> b \<and> b \<le> 70 then Some (b - 65 + 10) else None)"

text \<open>The bytes of pairs of hexadecimal digits.\<close>

fun hex_pairs :: "nat list \<Rightarrow> nat list option" where
  "hex_pairs [] = Some []"
| "hex_pairs [a] = None"
| "hex_pairs (a # b # bs) =
     Option.bind (hex_value a) (\<lambda>hi. Option.bind (hex_value b) (\<lambda>lo. map_option ((#) (hi * 16 + lo)) (hex_pairs bs)))"

definition decode_hex :: "nat list \<Rightarrow> nat list option" where
  "decode_hex token = (if length token < 16 \<or> odd (length token) then None else hex_pairs token)"

definition base64_value :: "nat \<Rightarrow> nat option" where
  "base64_value c =
     (if is_upper c then Some (c - 65)
      else if is_lower c then Some (c - 97 + 26)
      else if is_ascii_digit c then Some (c - 48 + 52)
      else if c = 43 \<or> c = 45 then Some 62
      else if c = 47 \<or> c = 95 then Some 63 else None)"

text \<open>The loop of the decoder: the bits that are left, and how many they are.\<close>

fun base64_bytes :: "nat \<Rightarrow> nat \<Rightarrow> nat list \<Rightarrow> nat list option" where
  "base64_bytes buffer bits [] = Some []"
| "base64_bytes buffer bits (c # cs) =
     (case base64_value c of
        None \<Rightarrow> None
      | Some v \<Rightarrow>
          let buffer = buffer * 64 + v; bits = bits + 6 in
          if 8 \<le> bits
          then map_option ((#) (buffer div 2 ^ (bits - 8) mod 256)) (base64_bytes (buffer mod 2 ^ (bits - 8)) (bits - 8) cs)
          else base64_bytes buffer bits cs)"

text \<open>\<open>strip_suffix\<close>, of two signs of padding or else of one.\<close>

definition strip_padding :: "nat list \<Rightarrow> nat list" where
  "strip_padding token = take (length token - length (takeWhile (\<lambda>c. c = 61) (take 2 (rev token)))) token"

definition decode_base64 :: "nat list \<Rightarrow> nat list option" where
  "decode_base64 token =
     (let body = strip_padding token
      in if length body < 12 \<or> length body mod 4 = 1 then None else base64_bytes 0 0 body)"

definition base64_member :: "nat \<Rightarrow> bool" where
  "base64_member u \<longleftrightarrow> is_alnum u \<or> u \<in> set (ascii ''+/_-'')"

text \<open>\<open>decode_percent\<close>: each unit with the part of the input it comes from, and the escapes decoded.\<close>

definition percent_byte :: "nat list \<Rightarrow> nat \<Rightarrow> nat option" where
  "percent_byte us at =
     (if length us < at + 3 \<or> us ! at \<noteq> 37 then None
      else Option.bind (hex_value (us ! (at + 1))) (\<lambda>hi. map_option (\<lambda>lo. hi * 16 + lo) (hex_value (us ! (at + 2)))))"

definition utf8_width :: "nat \<Rightarrow> nat option" where
  "utf8_width first =
     (if first \<le> 0x7f then Some 1
      else if 0xc2 \<le> first \<and> first \<le> 0xdf then Some 2
      else if 0xe0 \<le> first \<and> first \<le> 0xef then Some 3
      else if 0xf0 \<le> first \<and> first \<le> 0xf4 then Some 4 else None)"

definition percent_char :: "nat list \<Rightarrow> nat \<Rightarrow> (nat \<times> nat) option" where
  "percent_char us i =
     Option.bind (Option.bind (percent_byte us i) utf8_width) (\<lambda>width.
       let bytes = map (\<lambda>n. percent_byte us (i + n * 3)) [0..<width] in
       if None \<in> set bytes then None
       else (case from_utf8 (map the bytes) of Some (c # _) \<Rightarrow> Some (c, width * 3) | _ \<Rightarrow> None))"

lemma percent_byte_in: "percent_byte us i = Some b \<Longrightarrow> i + 3 \<le> length us"
  by (auto simp: percent_byte_def split: if_splits)

lemma percent_char_in:
  assumes "percent_char us i = Some (c, n)"
  shows "0 < n" "i + n \<le> length us"
proof -
  obtain w where w: "utf8_width (the (percent_byte us i)) = Some w" "n = w * 3"
      "None \<notin> set (map (\<lambda>k. percent_byte us (i + k * 3)) [0..<w])"
    using assms by (auto simp: percent_char_def Let_def bind_eq_Some_conv simp del: set_map
        split: if_splits option.splits list.splits)
  then have "1 \<le> w" by (auto simp: utf8_width_def split: if_splits)
  then show "0 < n" using w(2) by simp
  from \<open>1 \<le> w\<close> have "w - 1 \<in> set [0..<w]" by simp
  with w(3) have "percent_byte us (i + (w - 1) * 3) \<noteq> None" unfolding set_map by (metis imageI)
  then obtain b where "percent_byte us (i + (w - 1) * 3) = Some b" by blast
  from percent_byte_in [OF this] \<open>1 \<le> w\<close> w(2) show "i + n \<le> length us" by (cases w) simp_all
qed

function percent_from :: "nat list \<Rightarrow> nat \<Rightarrow> (nat \<times> nat \<times> nat) list \<times> nat" where
  "percent_from us i =
     (if i < length us
      then case percent_char us i of
             Some (c, consumed) \<Rightarrow>
               (let (view, escapes) = percent_from us (i + consumed)
                in (map (\<lambda>u. (u, i, i + consumed)) (utf16_char c) @ view, escapes + 1))
           | None \<Rightarrow> (let (view, escapes) = percent_from us (i + 1) in ((us ! i, i, i + 1) # view, escapes))
      else ([], 0))"
  by pat_completeness auto
termination
  by (relation "measure (\<lambda>(us, i). length us - i)") (auto dest: percent_char_in(1))

declare percent_from.simps [simp del]

definition decode_percent :: "nat list \<Rightarrow> (nat \<times> nat \<times> nat) list option" where
  "decode_percent us = (let (view, escapes) = percent_from us 0 in if 1 \<le> escapes then Some view else None)"

definition percent_hit :: "(nat \<times> nat \<times> nat) list \<Rightarrow> hit \<Rightarrow> hit" where
  "percent_hit view h =
     (let first = fst (snd (view ! h_start h)); end = snd (snd (view ! (h_start h + h_length h - 1)))
      in h\<lparr>h_start := first, h_length := end - first\<rparr>)"

definition report_decoded :: "(f64 \<Rightarrow> f64) \<Rightarrow> nat \<Rightarrow> nat \<Rightarrow> nat list \<Rightarrow> hit list" where
  "report_decoded lg start end decoded =
     (case from_utf8 decoded of
        None \<Rightarrow> []
      | Some text \<Rightarrow>
          map (\<lambda>h. mk_hit (h_kind h) start end (h_sensitivity h)) (scan_all_views (scan_plain lg) (utf16 text)))"

definition encoded_token_hits :: "(f64 \<Rightarrow> f64) \<Rightarrow> nat list \<Rightarrow> nat \<times> nat \<Rightarrow> hit list" where
  "encoded_token_hits lg us = (\<lambda>(start, run_end).
     let end = run_end + length (takeWhile (\<lambda>u. u = 61) (take 2 (drop run_end us))); token = slice us start end
     in concat (map (report_decoded lg start end) (List.map_filter id [decode_hex token, decode_base64 token])))"

definition scan_decoded :: "(f64 \<Rightarrow> f64) \<Rightarrow> nat list \<Rightarrow> hit list" where
  "scan_decoded lg us =
     concat (map (encoded_token_hits lg us) (runs base64_member us))
     @ (case decode_percent us of
          None \<Rightarrow> []
        | Some view \<Rightarrow> map (percent_hit view) (scan_all_views (scan_plain lg) (map fst view)))"

definition l0_scan :: "(f64 \<Rightarrow> f64) \<Rightarrow> nat list \<Rightarrow> hit list" where
  "l0_scan lg us = sort_dedup (scan_plain lg us @ scan_decoded lg us)"

section \<open>The contract of a scanner\<close>

text \<open>
  All that the scan of the views asks of a scanner is that its hits lie within what it was given.
\<close>

lemma dedup_places_subset: "set (dedup_places hits) \<subseteq> set hits"
  by (induction hits rule: dedup_places.induct) auto

text \<open>In the order of the views the first hit of a place is the most sensitive one.\<close>

lemma view_key_same_place:
  "view_key kept \<le> view_key later \<Longrightarrow> same_place later kept \<Longrightarrow> h_sensitivity later \<le> h_sensitivity kept"
  by (auto simp: view_key_def same_place_def less_eq_sensitivity_def)

lemma dedup_places_covers: "sorted (map view_key hits) \<Longrightarrow> covers (dedup_places hits) hits"
proof (induction hits rule: dedup_places.induct)
  case (3 kept later hs)
  show ?case
  proof (cases "same_place later kept")
    case True
    with 3(3) have "h_sensitivity later \<le> h_sensitivity kept" by (intro view_key_same_place) simp_all
    with True have "covers (kept # hs) (kept # later # hs)" by (auto simp: covers_def same_place_def)
    with 3(1) [OF True] 3(3) True show ?thesis by (auto intro: covers_trans)
  next
    case False
    with 3(2) [OF False] 3(3) show ?thesis by (auto simp: covers_def)
  qed
qed (simp_all add: covers_def)

lemma all_views_covers: "covers (scan_all_views scan us) (all_view_hits scan us)"
  using dedup_places_covers [of "sort_key view_key (all_view_hits scan us)"]
  unfolding scan_all_views_def by (simp add: covers_set(2) [OF set_sort])

lemma drop_folded_subset: "set (drop_folded_malformed_hkid us hits) \<subseteq> set hits"
  by (auto simp: drop_folded_malformed_hkid_def)

locale scanner =
  fixes scan :: "nat list \<Rightarrow> hit list"
  assumes hits_in: "list_all (hit_in (length us)) (scan us)"
begin

lemma view_hits_in:
  assumes "view_wf n v"
  shows "list_all (hit_in n) (scan_view scan v)"
proof -
  have "hit_in n (h\<lparr>h_start := a, h_length := l\<rparr>)"
    if "h \<in> set (scan (n_units v))" "original_span v (h_start h) (h_length h) = (a, l)" for h a l
    using hits_in [of "n_units v"] that original_span_in [OF assms _ _ that(2)] by (simp add: list_all_iff hit_in_def)
  then show ?thesis by (auto simp: scan_view_def list_all_iff split: prod.splits)
qed

lemma folded_hits_in:
  assumes "view_wf (length us) v"
  shows "list_all (hit_in (length us)) (folded_hits scan us v)"
  using view_hits_in [OF assms] drop_folded_subset [of us "scan_view scan v"]
  by (auto simp: folded_hits_def list_all_iff)

lemma all_views_in: "list_all (hit_in (length us)) (scan_all_views scan us)"
proof -
  have "list_all (hit_in (length us)) (all_view_hits scan us)"
    unfolding all_view_hits_def
    by (auto simp: view_hits_in folded_hits_in view_wfs intro!: list_all_concat_map folded_hits_in
        dest: skip_view_wf split: option.splits)
  then show ?thesis
    using dedup_places_subset [of "sort_key view_key (all_view_hits scan us)"]
    by (auto simp: scan_all_views_def list_all_iff)
qed

lemma identity_hits: "scan_view scan (identity_view us) = scan us"
proof -
  have units: "n_units (identity_view us) = us" by (simp add: identity_view_def)
  have "h\<lparr>h_start := a, h_length := l\<rparr> = h"
    if "h \<in> set (scan us)" "original_span (identity_view us) (h_start h) (h_length h) = (a, l)" for h a l
    using hits_in [of us] that identity_span [of "h_length h" "h_start h" us] by (simp add: list_all_iff hit_in_def)
  then show ?thesis
    unfolding scan_view_def units by (intro map_idI) (auto split: prod.splits)
qed

text \<open>No view takes away what the unfolded text shows.\<close>

lemma all_views_cover_raw: "covers (scan_all_views scan us) (scan us)"
  using all_views_covers [of scan us] by (auto simp: all_view_hits_def identity_hits covers_append)

lemma all_views_cover_folded:
  "v \<in> {fold_keeping_ignorables us, normalize us, fold_digits_and_homoglyphs us} \<Longrightarrow>
     covers (scan_all_views scan us) (folded_hits scan us v)"
  using all_views_covers [of scan us] by (auto simp: all_view_hits_def covers_append)

end

lemma scan_plain_in: "list_all (hit_in (length us)) (scan_plain lg us)"
  unfolding scan_plain_def by (rule sort_dedup_in) (simp add: hit_bounds)

interpretation plain: scanner "scan_plain lg"
  by unfold_locales (rule scan_plain_in)

section \<open>Decoded hits\<close>

lemma encoded_end:
  assumes "(a, b) \<in> set (runs base64_member us)"
  shows "a < b + length (takeWhile (\<lambda>u. u = 61) (take 2 (drop b us)))"
    "b + length (takeWhile (\<lambda>u. u = 61) (take 2 (drop b us))) \<le> length us"
proof -
  have "length (takeWhile (\<lambda>u. u = 61) (take 2 (drop b us))) \<le> length (take 2 (drop b us))" by (rule length_takeWhile_le)
  with runs_in(1,2) [OF assms] show "a < b + length (takeWhile (\<lambda>u. u = 61) (take 2 (drop b us)))"
    "b + length (takeWhile (\<lambda>u. u = 61) (take 2 (drop b us))) \<le> length us" by auto
qed

lemma report_decoded_in: "a < b \<Longrightarrow> b \<le> n \<Longrightarrow> list_all (hit_in n) (report_decoded lg a b decoded)"
  using plain.all_views_in
  by (fastforce simp: report_decoded_def list_all_iff hit_in_def split: option.splits)

lemma encoded_token_hits_in:
  assumes "(a, b) \<in> set (runs base64_member us)"
  shows "list_all (hit_in (length us)) (encoded_token_hits lg us (a, b))"
  unfolding encoded_token_hits_def Let_def prod.case
  by (rule list_all_concat_map) (rule report_decoded_in [OF encoded_end [OF assms]])

text \<open>The parts of the input that decoded units come from lie in order.\<close>

definition parts_in :: "nat \<Rightarrow> nat \<Rightarrow> (nat \<times> nat \<times> nat) list \<Rightarrow> bool" where
  "parts_in i n view \<longleftrightarrow> list_all (\<lambda>(u, a, b). i \<le> a \<and> a < b \<and> b \<le> n) view
     \<and> sorted_wrt (\<lambda>x y. fst (snd x) \<le> fst (snd y)) view"

lemma parts_in_append:
  "i < j \<Longrightarrow> j \<le> n \<Longrightarrow> parts_in j n view \<Longrightarrow> parts_in i n (map (\<lambda>u. (u, i, j)) us @ view)"
  by (auto simp: parts_in_def list_all_iff sorted_wrt_append sorted_wrt_map)

lemma percent_from_parts: "parts_in i (length us) (fst (percent_from us i))"
proof (induction us i rule: percent_from.induct)
  case (1 us i)
  show ?case
  proof (cases "i < length us")
    case True
    show ?thesis
    proof (cases "percent_char us i")
      case None
      with 1(1) [OF True None] True parts_in_append [of i "i + 1" "length us" _ "[us ! i]"] show ?thesis
        by (subst percent_from.simps) (simp add: case_prod_beta Let_def)
    next
      case (Some p)
      obtain c n where p: "p = (c, n)" by fastforce
      note n = percent_char_in [OF Some [unfolded p]]
      from 1(2) [OF True Some p [symmetric]] n parts_in_append [of i "i + n" "length us" _ "utf16_char c"] True Some p
      show ?thesis by (subst percent_from.simps) (simp add: case_prod_beta Let_def)
    qed
  next
    case False
    then show ?thesis by (subst percent_from.simps) (simp add: parts_in_def)
  qed
qed

lemma percent_hit_in:
  assumes "parts_in 0 n view" "hit_in (length view) h"
  shows "hit_in n (percent_hit view h)"
proof -
  let ?i = "h_start h" and ?j = "h_start h + h_length h - 1"
  have j: "?i \<le> ?j" "?j < length view" using assms(2) by (auto simp: hit_in_def)
  have "fst (snd (view ! ?i)) \<le> fst (snd (view ! ?j))"
  proof (cases "?i = ?j")
    case False
    with j have "?i < ?j" by linarith
    moreover have "sorted_wrt (\<lambda>x y. fst (snd x) \<le> fst (snd y)) view" using assms(1) by (simp add: parts_in_def)
    ultimately show ?thesis using sorted_wrt_nth_less [of "\<lambda>x y. fst (snd x) \<le> fst (snd y)" view ?i ?j] j(2) by blast
  qed simp
  moreover have "fst (snd (view ! ?j)) < snd (snd (view ! ?j))" "snd (snd (view ! ?j)) \<le> n"
    using assms(1) j(2) by (auto simp: parts_in_def list_all_length split_beta)
  moreover have "h_kind h \<noteq> InputLimitExceeded" using assms(2) by (simp add: hit_in_def)
  ultimately show ?thesis by (auto simp: percent_hit_def hit_in_def Let_def)
qed

lemma scan_decoded_in: "list_all (hit_in (length us)) (scan_decoded lg us)"
proof -
  have "list_all (hit_in (length us)) (concat (map (encoded_token_hits lg us) (runs base64_member us)))"
    by (rule list_all_concat_map) (auto intro: encoded_token_hits_in)
  moreover have "list_all (hit_in (length us)) (map (percent_hit view) (scan_all_views (scan_plain lg) (map fst view)))"
    if "decode_percent us = Some view" for view
  proof -
    have "parts_in 0 (length us) view"
      using percent_from_parts [of 0 us] that by (auto simp: decode_percent_def Let_def split: prod.splits if_splits)
    with percent_hit_in plain.all_views_in [of "map fst view"] show ?thesis by (auto simp: list_all_iff)
  qed
  ultimately show ?thesis by (simp add: scan_decoded_def split: option.splits)
qed

lemma l0_scan_in: "list_all (hit_in (length us)) (l0_scan lg us)"
  unfolding l0_scan_def by (rule sort_dedup_in) (simp add: scan_plain_in scan_decoded_in)

interpretation l0: scanner "l0_scan lg"
  by unfold_locales (rule l0_scan_in)

end
