(* ===== verification/Encoded.thy ===== *)
theory Encoded
  imports Scan
begin

text \<open>
  Reference encoders for base64 and hexadecimal text, that the decoders of the inspection invert them, and
  that what is encoded in a token of its own is reported as it would be in the open.
\<close>

section \<open>Encoders\<close>

definition base64_char :: "nat \<Rightarrow> nat" where
  "base64_char v =
     (if v < 26 then 65 + v else if v < 52 then 97 + (v - 26) else if v < 62 then 48 + (v - 52)
      else if v = 62 then 43 else 47)"

fun base64_encode :: "nat list \<Rightarrow> nat list" where
  "base64_encode [] = []"
| "base64_encode [a] = [base64_char (a div 4), base64_char (a mod 4 * 16)]"
| "base64_encode [a, b] =
     [base64_char (a div 4), base64_char (a mod 4 * 16 + b div 16), base64_char (b mod 16 * 4)]"
| "base64_encode (a # b # c # bs) =
     base64_char (a div 4) # base64_char (a mod 4 * 16 + b div 16) # base64_char (b mod 16 * 4 + c div 64)
     # base64_char (c mod 64) # base64_encode bs"

definition hex_digit :: "nat \<Rightarrow> nat" where
  "hex_digit v = (if v < 10 then 48 + v else 97 + (v - 10))"

definition hex_encode :: "nat list \<Rightarrow> nat list" where
  "hex_encode bs = concat (map (\<lambda>b. [hex_digit (b div 16), hex_digit (b mod 16)]) bs)"

section \<open>Round trips\<close>

lemma base64_member_iff:
  "base64_member u \<longleftrightarrow> 48 \<le> u \<and> u \<le> 57 \<or> 65 \<le> u \<and> u \<le> 90 \<or> 97 \<le> u \<and> u \<le> 122 \<or> u = 43 \<or> u = 47 \<or> u = 95 \<or> u = 45"
  by (simp add: base64_member_def ascii_def is_alnum_def is_upper_def is_lower_def is_ascii_digit_def disj_assoc)

lemma base64_value_char: "v < 64 \<Longrightarrow> base64_value (base64_char v) = Some v"
  by (auto simp: base64_value_def base64_char_def is_upper_def is_lower_def is_ascii_digit_def)

lemma base64_quad:
  fixes a b c :: nat
  shows "a div 4 * 64 + (a mod 4 * 16 + b div 16) = a * 16 + b div 16"
    "b div 16 * 64 + (b mod 16 * 4 + c div 64) = b * 4 + c div 64" "c div 64 * 64 + c mod 64 = c"
  using div_mult_mod_eq [of a 4] div_mult_mod_eq [of b 16] div_mult_mod_eq [of c 64] by linarith+

lemma base64_bytes_encode:
  "list_all (\<lambda>b. b < 256) bs \<Longrightarrow> base64_bytes 0 0 (base64_encode bs) = Some bs"
proof (induction bs rule: base64_encode.induct)
  case (2 a)
  have "a div 4 < 64" using 2 by auto
  moreover have "a div 4 * 64 + a mod 4 * 16 = a * 16" using div_mult_mod_eq [of a 4] by linarith
  ultimately show ?case by (simp add: base64_value_char)
next
  case (3 a b)
  have quad: "a div 4 * 64 + (a mod 4 * 16 + b div 16) = a * 16 + b div 16" "b div 16 * 64 + b mod 16 * 4 = b * 4"
    using div_mult_mod_eq [of a 4] div_mult_mod_eq [of b 16] by linarith+
  have "a div 4 < 64" "b div 16 < 16" "a mod 4 * 16 + b div 16 < 64" using 3 by auto
  with 3 show ?case by (simp add: base64_value_char quad)
next
  case (4 a b c bs)
  then have lt: "a < 256" "b < 256" "c < 256" by simp_all
  have "a div 4 < 64" "b div 16 < 16" "c div 64 < 4" "a mod 4 * 16 + b div 16 < 64" "b mod 16 * 4 + c div 64 < 64" using lt by auto
  with 4 lt show ?case by (simp add: base64_value_char base64_quad)
qed simp

lemma base64_encode_members: "list_all (\<lambda>b. b < 256) bs \<Longrightarrow> list_all base64_member (base64_encode bs)"
proof -
  have c: "base64_member (base64_char v)" for v
    by (auto simp: base64_member_iff base64_char_def)
  show ?thesis by (induction bs rule: base64_encode.induct) (simp_all add: c)
qed

lemma length_base64_encode: "length (base64_encode bs) = length bs div 3 * 4 + (if length bs mod 3 = 0 then 0 else length bs mod 3 + 1)"
proof (induction bs rule: base64_encode.induct)
  case (4 a b c bs)
  have "(3 + length bs) div 3 = Suc (length bs div 3)" by simp
  with 4 show ?case by auto
qed auto

lemma base64_encode_length_mod: "length (base64_encode bs) mod 4 \<noteq> 1"
proof -
  have "length bs mod 3 \<in> {0, 1, 2}" by auto
  then show ?thesis by (auto simp: length_base64_encode mod_add_left_eq [symmetric])
qed

lemma hex_value_digit: "v < 16 \<Longrightarrow> hex_value (hex_digit v) = Some v"
  by (auto simp: hex_value_def hex_digit_def)

lemma hex_pairs_encode: "list_all (\<lambda>b. b < 256) bs \<Longrightarrow> hex_pairs (hex_encode bs) = Some bs"
  by (induction bs) (auto simp: hex_encode_def hex_value_digit)

lemma hex_encode_members: "list_all (\<lambda>b. b < 256) bs \<Longrightarrow> list_all base64_member (hex_encode bs)"
  by (induction bs)
    (auto simp: hex_encode_def hex_digit_def base64_member_iff)

lemma length_hex_encode: "length (hex_encode bs) = 2 * length bs"
  by (induction bs) (simp_all add: hex_encode_def)

lemma utf8_bytes: "list_all is_scalar cs \<Longrightarrow> list_all (\<lambda>b. b < 256) (utf8 cs)"
proof (induction cs)
  case (Cons c cs)
  then have c: "c < 0x110000" by (simp add: is_scalar_def)
  then have "c div 262144 < 5" "c < 0x800 \<Longrightarrow> c div 64 < 32" "c < 0x10000 \<Longrightarrow> c div 4096 < 16"
    "c div 64 mod 64 < 64" "c div 4096 mod 64 < 64" "c mod 64 < 64" by auto
  with Cons show ?case by (auto simp: utf8_char_def)
qed simp

lemma takeWhile_padding:
  "takeWhile (\<lambda>c. c = 61) (replicate k 61 @ xs) = replicate k 61 @ takeWhile (\<lambda>c. c = (61::nat)) xs"
  by (induction k) simp_all

lemma strip_padding_replicate:
  assumes "list_all base64_member t" "k \<le> 2"
  shows "strip_padding (t @ replicate k 61) = t"
proof -
  have "takeWhile (\<lambda>c. c = 61) (take n (rev t)) = []" for n
    using assms(1) by (cases t rule: rev_cases; cases n)
      (auto simp: base64_member_iff)
  then have "takeWhile (\<lambda>c. c = 61) (take 2 (rev (t @ replicate k 61))) = replicate k 61"
    using assms(2) by (simp add: takeWhile_padding)
  then show ?thesis by (simp add: strip_padding_def)
qed

lemma decode_base64_encode:
  assumes "list_all (\<lambda>b. b < 256) bs" "9 \<le> length bs" "k \<le> 2"
  shows "decode_base64 (base64_encode bs @ replicate k 61) = Some bs"
proof -
  have "12 \<le> length (base64_encode bs)"
  proof (cases "length bs < 12")
    case True
    then have "length bs \<in> {9, 10, 11}" using assms(2) by auto
    then show ?thesis by (auto simp: length_base64_encode)
  next
    case False
    then have "4 \<le> length bs div 3" by auto
    then show ?thesis by (simp add: length_base64_encode)
  qed
  then show ?thesis
    using base64_encode_length_mod [of bs] strip_padding_replicate [OF base64_encode_members [OF assms(1)] assms(3)]
    by (simp add: decode_base64_def Let_def base64_bytes_encode [OF assms(1)])
qed

lemma decode_hex_encode:
  "list_all (\<lambda>b. b < 256) bs \<Longrightarrow> 8 \<le> length bs \<Longrightarrow> decode_hex (hex_encode bs) = Some bs"
  by (simp add: decode_hex_def length_hex_encode hex_pairs_encode)

section \<open>What is encoded is reported\<close>

text \<open>A token of the alphabet, with up to two signs of padding, that nothing before or after extends.\<close>

definition token_alone :: "nat list \<Rightarrow> nat list \<Rightarrow> bool" where
  "token_alone pre post \<longleftrightarrow> (pre = [] \<or> \<not> base64_member (last pre))
     \<and> (post = [] \<or> \<not> base64_member (hd post) \<and> hd post \<noteq> 61)"

lemma pad_not_member: "\<not> base64_member 61"
  by (simp add: base64_member_iff)

lemma token_run:
  assumes "us = pre @ t @ replicate k 61 @ post" "token_alone pre post" "t \<noteq> []" "list_all base64_member t" "k \<le> 2"
  shows "(length pre, length pre + length t) \<in> set (runs base64_member us)"
    "length (takeWhile (\<lambda>u. u = 61) (take 2 (drop (length pre + length t) us))) = k"
proof -
  let ?q = "length pre" and ?e = "length pre + length t"
  have "takeWhile base64_member (replicate k 61 @ post) = []"
    using assms(2) pad_not_member by (cases k; cases post) (auto simp: token_alone_def)
  then have run: "run_end base64_member us ?q = ?e"
    using assms(4) by (simp add: run_end_def assms(1) list_all_iff takeWhile_append2)
  have no_cross: "run_end base64_member us a \<le> ?q" if "a < ?q" for a
  proof (rule ccontr)
    assume "\<not> run_end base64_member us a \<le> ?q"
    then have "base64_member (us ! (?q - 1))" using that run_end_member [of a "?q - 1" base64_member us] by auto
    moreover have "us ! (?q - 1) = last pre" using that by (cases pre rule: rev_cases) (simp_all add: assms(1) nth_append)
    ultimately show False using assms(2) that by (auto simp: token_alone_def)
  qed
  have q: "?q < length us" "base64_member (us ! ?q)"
    using assms(3,4) by (cases t; simp add: assms(1))+
  from blocks_start [of 0 ?q us base64_member "run_end base64_member us"] q no_cross
  show "(?q, ?e) \<in> set (runs base64_member us)" unfolding runs_def run by blast
  have "takeWhile (\<lambda>u. u = 61) (take n post) = []" for n
    using assms(2) by (cases post; cases n) (auto simp: token_alone_def)
  then show "length (takeWhile (\<lambda>u. u = 61) (take 2 (drop ?e us))) = k"
    using assms(5) by (simp add: assms(1) takeWhile_padding)
qed

lemma token_covered:
  assumes "us = pre @ t @ replicate k 61 @ post" "token_alone pre post" "t \<noteq> []" "list_all base64_member t" "k \<le> 2"
    and "decode_hex (t @ replicate k 61) = Some bs \<or> decode_base64 (t @ replicate k 61) = Some bs"
  shows "covers (l0_scan lg us) (report_decoded lg (length pre) (length pre + length t + k) bs)"
proof -
  note r = token_run [OF assms(1-5)]
  have token: "slice us (length pre) (length pre + length t + k) = t @ replicate k 61"
    by (simp add: assms(1) slice_def)
  have "encoded_token_hits lg us (length pre, length pre + length t) =
      concat (map (report_decoded lg (length pre) (length pre + length t + k))
        (List.map_filter id [decode_hex (t @ replicate k 61), decode_base64 (t @ replicate k 61)]))"
    unfolding encoded_token_hits_def prod.case Let_def r(2) token ..
  then have "set (report_decoded lg (length pre) (length pre + length t + k) bs)
      \<subseteq> set (encoded_token_hits lg us (length pre, length pre + length t))"
    using assms(6) by (auto simp: map_filter_def)
  then have "set (report_decoded lg (length pre) (length pre + length t + k) bs) \<subseteq> set (scan_decoded lg us)"
    using r(1) by (force simp: scan_decoded_def)
  then show ?thesis
    using sort_dedup_covers [of "scan_plain lg us @ scan_decoded lg us"]
    by (auto simp: l0_scan_def covers_def)
qed

lemmas token_reported = covers_trans [OF l0.all_views_cover_raw token_covered]

text \<open>The hits of a text, all at the place of the token that encodes it.\<close>

definition hits_at :: "nat \<Rightarrow> nat \<Rightarrow> hit list \<Rightarrow> hit list" where
  "hits_at start len hits = map (\<lambda>h. h\<lparr>h_start := start, h_length := len\<rparr>) hits"

lemma report_decoded_utf8:
  "list_all is_scalar text \<Longrightarrow> report_decoded lg a b (utf8 text) = hits_at a (b - a) (scan_all_views (scan_plain lg) (utf16 text))"
  by (simp add: report_decoded_def from_utf8_utf8 hits_at_def mk_hit_def)

text \<open>
  C27. A text of at least nine bytes, which is twelve characters of base64, in the standard alphabet, padded
  or not, in a token of its own, is reported with everything that the scan of the text itself finds, at no
  lower sensitivity and at the place of the token. Shorter tokens are not decoded.
\<close>

theorem base64_layer_reported:
  assumes "us = pre @ base64_encode (utf8 text) @ replicate k 61 @ post" "token_alone pre post"
    and "list_all is_scalar text" "9 \<le> length (utf8 text)" "k \<le> 2"
  shows "covers (scan_all_views (l0_scan lg) us)
    (hits_at (length pre) (length (base64_encode (utf8 text)) + k) (scan_all_views (scan_plain lg) (utf16 text)))"
proof -
  note b = utf8_bytes [OF assms(3)]
  have "base64_encode (utf8 text) \<noteq> []" using assms(4) by (cases "utf8 text" rule: base64_encode.cases) auto
  from token_reported [OF assms(1,2) this base64_encode_members [OF b] assms(5) disjI2 [OF decode_base64_encode [OF b assms(4,5)]]]
  show ?thesis by (simp add: report_decoded_utf8 [OF assms(3)] add.assoc)
qed

text \<open>A mobile number in base64.\<close>

lemma base64_layer_reported_witness:
  "covers (scan_all_views (l0_scan id) (ascii ''v:MTM4MTIzNDU2Nzg= ''))
     (hits_at 2 16 (scan_all_views (scan_plain id) (utf16 (ascii ''13812345678''))))"
proof -
  let ?t = "ascii ''13812345678''"
  have u: "utf8 ?t = ?t" by (simp add: utf8_char_def ascii_def)
  have "ascii ''v:MTM4MTIzNDU2Nzg= '' = ascii ''v:'' @ base64_encode (utf8 ?t) @ replicate 1 61 @ ascii '' ''"
    unfolding u by (simp add: ascii_def base64_char_def)
  moreover have "token_alone (ascii ''v:'') (ascii '' '')" "list_all is_scalar ?t"
    by (simp_all add: token_alone_def base64_member_iff ascii_def is_scalar_def is_high_surrogate_def is_low_surrogate_def)
  moreover have "9 \<le> length (utf8 ?t)" "length (base64_encode (utf8 ?t)) + 1 = 16" "length (ascii ''v:'') = 2"
    unfolding u by (simp_all add: ascii_def)
  ultimately show ?thesis
    using base64_layer_reported [of "ascii ''v:MTM4MTIzNDU2Nzg= ''" "ascii ''v:''" ?t 1 "ascii '' ''" id]
    by (simp add: numeral_2_eq_2)
qed

text \<open>The same of one layer of hexadecimal digits, from eight bytes on.\<close>

theorem hex_layer_reported:
  assumes "us = pre @ hex_encode (utf8 text) @ post" "token_alone pre post"
    and "list_all is_scalar text" "8 \<le> length (utf8 text)"
  shows "covers (scan_all_views (l0_scan lg) us)
    (hits_at (length pre) (length (hex_encode (utf8 text))) (scan_all_views (scan_plain lg) (utf16 text)))"
proof -
  note b = utf8_bytes [OF assms(3)]
  have "hex_encode (utf8 text) \<noteq> []" using assms(4) length_hex_encode [of "utf8 text"] by auto
  from token_reported [of us pre _ 0, OF _ assms(2) this hex_encode_members [OF b]] decode_hex_encode [OF b assms(4)]
  have "covers (scan_all_views (l0_scan lg) us)
      (report_decoded lg (length pre) (length pre + length (hex_encode (utf8 text))) (utf8 text))"
    by (simp add: assms(1))
  then show ?thesis by (simp add: report_decoded_utf8 [OF assms(3)])
qed

end
