(* ===== verification/Matcher.thy ===== *)
theory Matcher
  imports Prelude "HOL-Library.Sublist"
begin

text \<open>
  The linear-time substring search (\<open>contains_seq\<close> of
  \<^verbatim>\<open>crates/idoris-policy/src/inspect/mod.rs\<close>), and that it finds exactly the substrings. The loop
  that falls back along the table takes the length of the match as its fuel: every step shortens the match.
\<close>

section \<open>The search\<close>

fun fall_back :: "'a list \<Rightarrow> nat list \<Rightarrow> 'a \<Rightarrow> nat \<Rightarrow> nat \<Rightarrow> nat" where
  "fall_back needle table x matched 0 = matched"
| "fall_back needle table x matched (Suc fuel) =
     (if 0 < matched \<and> x \<noteq> needle ! matched then fall_back needle table x (table ! (matched - 1)) fuel else matched)"

text \<open>One unit more: fall back, and extend the match if the unit does.\<close>

definition advance_match :: "'a list \<Rightarrow> nat list \<Rightarrow> nat \<Rightarrow> 'a \<Rightarrow> nat" where
  "advance_match needle table matched x =
     (let m = fall_back needle table x matched matched in if x = needle ! m then m + 1 else m)"

definition prefix_step :: "'a list \<Rightarrow> nat list \<times> nat \<Rightarrow> nat \<Rightarrow> nat list \<times> nat" where
  "prefix_step needle = (\<lambda>(table, matched) i.
     let m = advance_match needle table matched (needle ! i) in (table[i := m], m))"

definition prefix_table :: "'a list \<Rightarrow> nat list" where
  "prefix_table needle = fst (foldl (prefix_step needle) (replicate (length needle) 0, 0) [1..<length needle])"

fun search_from :: "'a list \<Rightarrow> nat list \<Rightarrow> nat \<Rightarrow> 'a list \<Rightarrow> bool" where
  "search_from needle table matched [] = False"
| "search_from needle table matched (x # xs) =
     (let m = advance_match needle table matched x
      in if m = length needle then True else search_from needle table m xs)"

definition contains_seq :: "'a list \<Rightarrow> 'a list \<Rightarrow> bool" where
  "contains_seq haystack needle =
     (if needle = [] then True else search_from needle (prefix_table needle) 0 haystack)"

section \<open>The longest match\<close>

text \<open>How much of the beginning of the needle the end of a text is.\<close>

definition match_at :: "'a list \<Rightarrow> 'a list \<Rightarrow> nat \<Rightarrow> bool" where
  "match_at needle w k \<longleftrightarrow> k \<le> length needle \<and> suffix (take k needle) w"

definition longest :: "'a list \<Rightarrow> 'a list \<Rightarrow> nat \<Rightarrow> bool" where
  "longest needle w m \<longleftrightarrow> match_at needle w m \<and> (\<forall>k. match_at needle w k \<longrightarrow> k \<le> m)"

text \<open>The table says of every beginning of the needle how long its longest proper border is.\<close>

definition table_ok :: "'a list \<Rightarrow> nat list \<Rightarrow> nat \<Rightarrow> bool" where
  "table_ok needle table j \<longleftrightarrow>
     (\<forall>m. 1 \<le> m \<and> m \<le> j \<longrightarrow> longest needle (tl (take m needle)) (table ! (m - 1)))"

lemma match_at_0 [simp]: "match_at needle w 0"
  by (simp add: match_at_def)

lemma match_at_length: "match_at needle w k \<Longrightarrow> k \<le> length w"
  using suffix_length_le by (fastforce simp: match_at_def)

lemma match_at_snoc:
  "match_at needle (w @ [x]) (Suc k) \<longleftrightarrow> match_at needle w k \<and> k < length needle \<and> needle ! k = x"
  by (auto simp: match_at_def take_Suc_conv_app_nth)

lemma match_at_nested:
  assumes "match_at needle w k" "match_at needle w m" "k < m"
  shows "match_at needle (tl (take m needle)) k"
proof -
  from assms have "suffix (take k needle) (take m needle)" by (auto simp: match_at_def intro: suffix_length_suffix)
  then obtain zs where zs: "take m needle = zs @ take k needle" by (auto simp: suffix_def)
  moreover have "zs \<noteq> []"
  proof
    assume "zs = []"
    with zs have "length (take m needle) = length (take k needle)" by simp
    with assms show False by (simp add: match_at_def)
  qed
  ultimately show ?thesis using assms(1) by (cases zs) (auto simp: match_at_def suffix_def)
qed

lemma match_at_trans:
  assumes "match_at needle (tl (take m needle)) k" "match_at needle w m"
  shows "match_at needle w k"
proof -
  have "suffix (tl (take m needle)) (take m needle)" by (cases "take m needle") (auto simp: suffix_Cons)
  with assms show ?thesis unfolding match_at_def using suffix_order.trans by blast
qed

text \<open>Falling back ends at the longest match that the unit extends, if there is one.\<close>

lemma fall_back_correct:
  assumes "table_ok needle table j" "m \<le> fuel" "m \<le> j" "match_at needle w m" "m < length needle"
    and "\<And>k. match_at needle w k \<Longrightarrow> k < length needle \<Longrightarrow> needle ! k = x \<Longrightarrow> k \<le> m"
    and "r = fall_back needle table x m fuel"
  shows "match_at needle w r \<and> r \<le> m \<and> (r = 0 \<or> needle ! r = x)
    \<and> (\<forall>k. match_at needle w k \<longrightarrow> k < length needle \<longrightarrow> needle ! k = x \<longrightarrow> k \<le> r)"
  using assms
proof (induction needle table x m fuel rule: fall_back.induct)
  case (2 needle table x m fuel)
  show ?case
  proof (cases "0 < m \<and> x \<noteq> needle ! m")
    case True
    let ?p = "table ! (m - 1)"
    have l: "longest needle (tl (take m needle)) ?p" using 2(2,4) True by (simp add: table_ok_def)
    then have p: "?p < m" using match_at_length [of needle "tl (take m needle)" ?p] 2(6) True
      by (auto simp: longest_def)
    have keep: "k \<le> ?p" if "match_at needle w k" "k < length needle" "needle ! k = x" for k
    proof -
      from 2(7) [OF that] have "k \<le> m" .
      with that(3) True have "k < m" by (cases "k = m") auto
      from match_at_nested [OF that(1) 2(5) this] l show ?thesis by (simp add: longest_def)
    qed
    have match: "match_at needle w ?p" using l match_at_trans 2(5) by (auto simp: longest_def)
    have le: "?p \<le> fuel" "?p \<le> j" "?p < length needle" using p 2(3,4,6) by simp_all
    have r: "r = fall_back needle table x ?p fuel" using 2(8) True by simp
    have IH: "match_at needle w r \<and> r \<le> ?p \<and> (r = 0 \<or> needle ! r = x)
        \<and> (\<forall>k. match_at needle w k \<longrightarrow> k < length needle \<longrightarrow> needle ! k = x \<longrightarrow> k \<le> r)"
      by (rule 2(1) [OF True 2(2) le(1,2) match le(3) _ r]) (rule keep)
    from IH p have "r \<le> m" by linarith
    with IH show ?thesis by (elim conjE) (intro conjI)
  next
    case False
    then have "r = m" using 2(8) by auto
    with 2(5,7) False show ?thesis by auto
  qed
qed auto

lemma advance_match_longest:
  assumes "table_ok needle table j" "longest needle w m" "m \<le> j" "m < length needle"
  shows "longest needle (w @ [x]) (advance_match needle table m x)"
proof -
  define r where "r = fall_back needle table x m m"
  have r: "match_at needle w r" "r \<le> m" "r = 0 \<or> needle ! r = x"
    "\<And>k. match_at needle w k \<Longrightarrow> k < length needle \<Longrightarrow> needle ! k = x \<Longrightarrow> k \<le> r"
    using fall_back_correct [OF assms(1) order_refl assms(3) _ assms(4) _ r_def] assms(2)
    by (auto simp: longest_def)
  have *: "advance_match needle table m x = (if x = needle ! r then Suc r else r)"
    by (simp add: advance_match_def r_def Let_def)
  show ?thesis
  proof (cases "x = needle ! r")
    case True
    have "k \<le> Suc r" if "match_at needle (w @ [x]) k" for k
      using that r(4) by (cases k) (auto simp: match_at_snoc)
    with True r(1,2) assms(4) have "longest needle (w @ [x]) (Suc r)" by (simp add: longest_def match_at_snoc)
    then show ?thesis unfolding * if_P [OF True] .
  next
    case False
    with r(3) have "r = 0" by auto
    moreover have "k = 0" if "match_at needle (w @ [x]) k" for k
      using that r(4) \<open>r = 0\<close> False by (cases k) (fastforce simp: match_at_snoc)+
    ultimately show ?thesis using False by (simp add: * longest_def)
  qed
qed

section \<open>The table\<close>

lemma prefix_steps:
  assumes "1 \<le> i" "i \<le> length needle"
    and "(table, m) = foldl (prefix_step needle) (replicate (length needle) 0, 0) [1..<i]"
  shows "length table = length needle \<and> table_ok needle table i \<and> longest needle (tl (take i needle)) m"
  using assms
proof (induction i arbitrary: table m)
  case (Suc i)
  show ?case
  proof (cases "i = 0")
    case True
    with Suc(2-) have "table = replicate (length needle) 0" "m = 0" "needle \<noteq> []" by auto
    moreover from this have "take 1 needle = [hd needle]" by (cases needle) auto
    moreover have "longest needle [] 0" using match_at_length by (fastforce simp: longest_def)
    ultimately show ?thesis using True by (auto simp: table_ok_def le_Suc_eq)
  next
    case False
    obtain table' m' where before: "(table', m') = foldl (prefix_step needle) (replicate (length needle) 0, 0) [1..<i]"
      by (metis surj_pair)
    from Suc(1) [OF _ _ before] Suc(3) False
    have IH: "length table' = length needle" "table_ok needle table' i" "longest needle (tl (take i needle)) m'" by auto
    have after: "m = advance_match needle table' m' (needle ! i)" "table = table'[i := m]"
      using Suc(4) before [symmetric] False by (auto simp: prefix_step_def Let_def)
    have m': "m' < i" using IH(3) match_at_length [of needle "tl (take i needle)" m'] Suc(3) False
      by (simp add: longest_def)
    have w: "tl (take (Suc i) needle) = tl (take i needle) @ [needle ! i]"
    proof -
      have "take i needle \<noteq> []" using Suc(3) False by auto
      then show ?thesis using Suc(3) by (simp add: take_Suc_conv_app_nth)
    qed
    have new: "longest needle (tl (take (Suc i) needle)) m"
      unfolding w after(1) using m' Suc(3) by (intro advance_match_longest [OF IH(2,3)]) auto
    have "longest needle (tl (take k needle)) (table ! (k - 1))" if "1 \<le> k" "k \<le> Suc i" for k
    proof (cases "k = Suc i")
      case True
      with new after(2) IH(1) Suc(3) show ?thesis by simp
    next
      case False
      with that IH(2) after(2) show ?thesis by (simp add: table_ok_def)
    qed
    with new after(2) IH(1) show ?thesis by (simp add: table_ok_def)
  qed
qed simp

lemma prefix_table_ok:
  assumes "needle \<noteq> []"
  shows "table_ok needle (prefix_table needle) (length needle)"
proof -
  obtain table m where "(table, m) = foldl (prefix_step needle) (replicate (length needle) 0, 0) [1..<length needle]"
    by (metis surj_pair)
  moreover from this have "prefix_table needle = table" unfolding prefix_table_def by (metis fst_conv)
  ultimately show ?thesis using prefix_steps [of "length needle" needle table m] assms by (simp add: Suc_leI)
qed

section \<open>Correctness\<close>

lemma search_from_correct:
  assumes "table_ok needle table (length needle)" "longest needle w m" "m < length needle"
  shows "search_from needle table m xs \<longleftrightarrow> (\<exists>k. 1 \<le> k \<and> k \<le> length xs \<and> suffix needle (w @ take k xs))"
  using assms
proof (induction xs arbitrary: w m)
  case (Cons x xs)
  let ?m = "advance_match needle table m x"
  have new: "longest needle (w @ [x]) ?m" using advance_match_longest [OF Cons(2,3)] Cons(4) by simp
  have split: "(\<exists>k. 1 \<le> k \<and> k \<le> length (x # xs) \<and> suffix needle (w @ take k (x # xs))) \<longleftrightarrow>
      suffix needle (w @ [x]) \<or> (\<exists>k. 1 \<le> k \<and> k \<le> length xs \<and> suffix needle ((w @ [x]) @ take k xs))" (is "?L \<longleftrightarrow> ?R")
  proof
    assume ?L
    then obtain k where k: "1 \<le> k" "k \<le> Suc (length xs)" "suffix needle (w @ take k (x # xs))" by auto
    then show ?R by (cases k; cases "k - 1") auto
  next
    assume ?R
    then show ?L
    proof
      assume "suffix needle (w @ [x])"
      then show ?L by (intro exI [of _ 1]) simp
    next
      assume "\<exists>k. 1 \<le> k \<and> k \<le> length xs \<and> suffix needle ((w @ [x]) @ take k xs)"
      then obtain k where "1 \<le> k" "k \<le> length xs" "suffix needle ((w @ [x]) @ take k xs)" by auto
      then show ?L by (intro exI [of _ "Suc k"]) simp
    qed
  qed
  have full: "suffix needle (w @ [x]) \<longleftrightarrow> ?m = length needle"
  proof
    assume "suffix needle (w @ [x])"
    then have "match_at needle (w @ [x]) (length needle)" by (simp add: match_at_def)
    with new show "?m = length needle" by (auto simp: longest_def match_at_def intro: antisym)
  next
    assume "?m = length needle"
    with new show "suffix needle (w @ [x])" by (simp add: longest_def match_at_def)
  qed
  show ?case
  proof (cases "?m = length needle")
    case True
    then show ?thesis unfolding split full by (simp add: Let_def)
  next
    case False
    with new have "?m < length needle" by (simp add: longest_def match_at_def)
    from Cons(1) [OF Cons(2) new this] False show ?thesis unfolding split full by (simp add: Let_def)
  qed
qed simp

lemma contains_seq_iff: "contains_seq haystack needle \<longleftrightarrow> sublist needle haystack"
proof (cases "needle = []")
  case False
  have start: "longest needle [] 0" using match_at_length by (fastforce simp: longest_def)
  have "contains_seq haystack needle \<longleftrightarrow> (\<exists>k. 1 \<le> k \<and> k \<le> length haystack \<and> suffix needle (take k haystack))"
    using search_from_correct [OF prefix_table_ok [OF False] start] False by (simp add: contains_seq_def)
  also have "\<dots> \<longleftrightarrow> (\<exists>k. suffix needle (take k haystack))"
    using False by (metis One_nat_def Suc_leI bot_nat_0.not_eq_extremum nat_le_linear suffix_bot.extremum_uniqueI
        take_0 take_all_iff)
  also have "\<dots> \<longleftrightarrow> sublist needle haystack"
  proof
    assume "\<exists>k. suffix needle (take k haystack)"
    then show "sublist needle haystack" by (meson sublist_order.order_trans sublist_take suffix_imp_sublist)
  next
    assume "sublist needle haystack"
    then obtain a b where "haystack = a @ needle @ b" by (auto simp: sublist_def)
    then have "suffix needle (take (length a + length needle) haystack)" by (simp add: suffix_def)
    then show "\<exists>k. suffix needle (take k haystack)" ..
  qed
  finally show ?thesis .
qed (simp add: contains_seq_def)

text \<open>C32. The substring search answers whether the needle is a contiguous part of the haystack.\<close>

theorem contains_seq_sublist: "contains_seq haystack needle \<longleftrightarrow> sublist needle haystack"
  by (rule contains_seq_iff)

end
