(* ===== verification/Inspect.thy ===== *)
theory Inspect
  imports Encoded Matcher Privacy
begin

text \<open>
  Gate one (\<^verbatim>\<open>crates/idoris-policy/src/inspect/mod.rs\<close>): the verdict on a text, and the search for
  a known credential in a text, its escapes and one layer of its encodings.
\<close>

section \<open>Verdict\<close>

record inspect_ctx =
  declared :: privacy_class
  remote_allowed :: bool
  redact_consent :: bool
  max_input_utf16 :: nat

definition DEFAULT_MAX_INPUT_UTF16 :: nat where
  "DEFAULT_MAX_INPUT_UTF16 = 256 * 1024"

definition fail_closed :: inspect_ctx where
  "fail_closed =
     \<lparr>declared = LocalOnly, remote_allowed = False, redact_consent = False, max_input_utf16 = DEFAULT_MAX_INPUT_UTF16\<rparr>"

definition exceeds_limit :: "ustr \<Rightarrow> nat \<Rightarrow> bool" where
  "exceeds_limit input limit \<longleftrightarrow> limit < length (utf8 input) \<and> limit < length (utf16 input)"

text \<open>Beyond ASCII no character is one of the header, nor is its first byte one of base64.\<close>

definition is_data_url_header_char :: "nat \<Rightarrow> bool" where
  "is_data_url_header_char c =
     (if 0x80 \<le> c \<or> c < 32 \<or> c = 127 \<or> c = 32 then False
      else c \<notin> {34, 40, 41, 60, 62, 64, 44, 58, 92, 91, 93, 63})"

definition data_url_at :: "ustr \<Rightarrow> bool" where
  "data_url_at rest =
     (let header = takeWhile is_data_url_header_char rest; tail = drop (length header) rest
      in suffix (ascii '';base64'') header \<and> tail \<noteq> [] \<and> hd tail = 44
         \<and> unit_at tail 1 (\<lambda>byte. is_alnum byte \<or> byte = 43 \<or> byte = 47))"

definition contains_base64_data_url :: "ustr \<Rightarrow> bool" where
  "contains_base64_data_url input =
     (let lower = map to_lower input
      in list_ex (\<lambda>at. take 5 (drop at lower) = ascii ''data:'' \<and> data_url_at (drop (at + 5) lower)) [0..<length lower])"

definition decide_action :: "hit list \<Rightarrow> sensitivity \<Rightarrow> inspect_ctx \<Rightarrow> inspect_action" where
  "decide_action hits s ctx =
     (if declared ctx = LocalOnly \<or> \<not> remote_allowed ctx then Block
      else if hits = [] then Allow
      else if s = S3 \<or> \<not> redact_consent ctx then Block
      else Redact)"

definition hit_finding :: "hit \<Rightarrow> inspect_finding" where
  "hit_finding h = \<lparr>f_kind = h_kind h, f_span = Some \<lparr>span_start = h_start h, span_length = h_length h\<rparr>\<rparr>"

definition inspect :: "(f64 \<Rightarrow> f64) \<Rightarrow> ustr \<Rightarrow> inspect_ctx \<Rightarrow> inspect_response" where
  "inspect lg input ctx =
     (if exceeds_limit input (max_input_utf16 ctx)
      then \<lparr>r_sensitivity = S3, r_findings = [\<lparr>f_kind = InputLimitExceeded, f_span = None\<rparr>], r_action = Block\<rparr>
      else
        let hits = scan_all_views (l0_scan lg) (utf16 input);
            opaque = contains_base64_data_url input;
            s = (if opaque then S3 else fold max (map h_sensitivity hits) S0)
        in \<lparr>r_sensitivity = s, r_findings = map hit_finding hits,
            r_action = (if opaque then Block else decide_action hits s ctx)\<rparr>)"

section \<open>Credentials\<close>

definition normalized_units :: "ustr \<Rightarrow> nat list" where
  "normalized_units input = n_units (normalize (utf16 input))"

definition normalized_contains :: "ustr \<Rightarrow> nat list \<Rightarrow> bool" where
  "normalized_contains input credential = contains_seq (normalized_units input) credential"

definition escaped_hex_unit :: "ustr \<Rightarrow> nat option" where
  "escaped_hex_unit cs =
     (if length cs < 4 then None
      else foldl (\<lambda>value c. Option.bind value (\<lambda>v. map_option (\<lambda>h. v * 16 + h) (hex_value c))) (Some 0) (take 4 cs))"

text \<open>The character that the rest of an escape names, and how much of it that takes.\<close>

definition escaped_char :: "ustr \<Rightarrow> (nat \<times> nat) option" where
  "escaped_char cs =
     Option.bind (escaped_hex_unit cs) (\<lambda>first.
       if is_high_surrogate first \<and> take 2 (drop 4 cs) = [92, 117]
       then (case escaped_hex_unit (drop 6 cs) of
               Some second \<Rightarrow> if is_low_surrogate second then Some (decode_surrogate_pair first second, 10) else None
             | None \<Rightarrow> None)
       else if is_scalar first then Some (first, 4) else None)"

function decode_json_escapes :: "ustr \<Rightarrow> ustr" where
  "decode_json_escapes [] = []"
| "decode_json_escapes [c] = [c]"
| "decode_json_escapes (c # d # cs) =
     (if c \<noteq> 92 then c # decode_json_escapes (d # cs)
      else if d = 47 \<or> d = 92 \<or> d = 34 then d # decode_json_escapes cs
      else if d = 117
      then case escaped_char cs of
             Some (ch, n) \<Rightarrow> ch # decode_json_escapes (drop n cs)
           | None \<Rightarrow> 92 # decode_json_escapes (d # cs)
      else 92 # decode_json_escapes (d # cs))"
  by pat_completeness auto
termination by (relation "measure length") auto

definition decode_hex_token :: "nat list \<Rightarrow> nat list option" where
  "decode_hex_token token0 =
     (let token = (if take 2 token0 = [48, 120] \<or> take 2 token0 = [48, 88] then drop 2 token0 else token0)
      in if token = [] \<or> odd (length token) then None else hex_pairs token)"

definition decode_base64_token :: "nat list \<Rightarrow> nat list option" where
  "decode_base64_token token =
     (let body = strip_padding token
      in if body = [] \<or> length body mod 4 = 1 then None else base64_bytes 0 0 body)"

fun percent_bytes :: "nat list \<Rightarrow> nat list \<times> nat" where
  "percent_bytes (c # a # b # cs) =
     (if c = 37 \<and> hex_value a \<noteq> None \<and> hex_value b \<noteq> None
      then (let (out, escapes) = percent_bytes cs in ((the (hex_value a) * 16 + the (hex_value b)) # out, escapes + 1))
      else (let (out, escapes) = percent_bytes (a # b # cs) in (c # out, escapes)))"
| "percent_bytes cs = (cs, 0)"

definition percent_decoded :: "nat list \<Rightarrow> nat list option" where
  "percent_decoded input = (let (out, escapes) = percent_bytes input in if 0 < escapes then Some out else None)"

definition decoded_contains :: "nat list \<Rightarrow> nat list \<Rightarrow> nat list option \<Rightarrow> bool" where
  "decoded_contains secret credential decoded =
     (case decoded of
        None \<Rightarrow> False
      | Some bs \<Rightarrow> contains_seq bs secret
          \<or> (case from_utf8 bs of Some text \<Rightarrow> normalized_contains text credential | None \<Rightarrow> False))"

definition token_contains :: "nat list \<Rightarrow> nat list \<Rightarrow> nat list \<Rightarrow> bool" where
  "token_contains secret credential token \<longleftrightarrow>
     decoded_contains secret credential (decode_hex_token token)
     \<or> list_ex (\<lambda>shift. decoded_contains secret credential (decode_base64_token (drop shift token))) [0..<min 4 (length token)]"

definition encoded_contains :: "nat list \<Rightarrow> nat list \<Rightarrow> bool" where
  "encoded_contains input credential =
     (case from_utf16 credential of
        None \<Rightarrow> False
      | Some text \<Rightarrow>
          let secret = utf8 text; encoded = hex_encode secret in
          0 < length encoded \<and> length encoded \<le> length input \<and> contains_seq (map to_lower input) encoded
          \<or> list_ex (\<lambda>(start, run_end). let end = run_end + length (takeWhile (\<lambda>u. u = 61) (take 2 (drop run_end input)))
               in token_contains secret credential (slice input start end)) (runs base64_member input)
          \<or> decoded_contains secret credential (percent_decoded input))"

definition contains_credential :: "ustr \<Rightarrow> ustr \<Rightarrow> bool" where
  "contains_credential input credential =
     (let cred = normalized_units credential in
      if cred = [] then True
      else if normalized_contains input cred \<or> encoded_contains (utf8 input) cred then True
      else let escaped = decode_json_escapes input
           in normalized_contains escaped cred \<or> encoded_contains (utf8 escaped) cred)"

section \<open>The verdict holds\<close>

lemma inspect_hits_in: "list_all (hit_in (length (utf16 input))) (scan_all_views (l0_scan lg) (utf16 input))"
  by (rule l0.all_views_in)

lemma check_unscanned_hits: "list_all (hit_in n) hits \<Longrightarrow> check_unscanned a (map hit_finding hits) = Inr ()"
  by (induction hits) (auto simp: hit_finding_def hit_in_def)

text \<open>
  C38. The response is one that the contract accepts, and every span in it is a part of the text: no
  position of a finding is beyond the end.
\<close>

theorem inspect_response_valid:
  "validate_response (inspect lg input ctx) = Inr ()
   \<and> list_all (\<lambda>f. case f_span f of None \<Rightarrow> True | Some s \<Rightarrow> span_start s + span_length s \<le> length (utf16 input))
       (r_findings (inspect lg input ctx))"
proof (cases "exceeds_limit input (max_input_utf16 ctx)")
  case True
  then show ?thesis by (simp add: inspect_def validate_response_def List.map_filter_simps)
next
  case False
  let ?hits = "scan_all_views (l0_scan lg) (utf16 input)"
  note h = inspect_hits_in [of input lg]
  have f: "r_findings (inspect lg input ctx) = map hit_finding ?hits" using False by (simp add: inspect_def Let_def)
  have spans: "List.map_filter f_span (map hit_finding ?hits)
      = map (\<lambda>h. \<lparr>span_start = h_start h, span_length = h_length h\<rparr>) ?hits"
    by (simp add: map_filter_def comp_def hit_finding_def)
  have "\<not> list_ex (\<lambda>s. span_length s = 0) (List.map_filter f_span (map hit_finding ?hits))"
    using h unfolding spans by (auto simp: list_ex_iff list_all_iff hit_in_def)
  then have "validate_response (inspect lg input ctx) = Inr ()"
    by (simp add: validate_response_def f check_unscanned_hits [OF h])
  moreover have "list_all (\<lambda>f. case f_span f of None \<Rightarrow> True | Some s \<Rightarrow> span_start s + span_length s \<le> length (utf16 input))
       (r_findings (inspect lg input ctx))"
    using h by (auto simp: f list_all_iff hit_finding_def hit_in_def)
  ultimately show ?thesis by blast
qed

lemma allow_iff:
  "r_action (inspect lg input ctx) = Allow \<longleftrightarrow>
     declared ctx = AnyPrivacy \<and> remote_allowed ctx \<and> \<not> exceeds_limit input (max_input_utf16 ctx)
     \<and> \<not> contains_base64_data_url input \<and> scan_all_views (l0_scan lg) (utf16 input) = []"
  by (cases "declared ctx") (auto simp: inspect_def decide_action_def Let_def)

lemma fold_max_ge: "s \<le> fold max ss s" "t \<in> set ss \<Longrightarrow> t \<le> fold max ss (s::'a::linorder)"
proof (induction ss arbitrary: s)
  case (Cons a ss)
  case 1
  have "s \<le> max a s" by simp
  also have "\<dots> \<le> fold max ss (max a s)" by (rule Cons.IH(1))
  finally show ?case by simp
  case 2
  then show ?case using Cons.IH(1) [of "max a s"] Cons.IH(2) [of "max a s"] by auto
qed simp_all

lemma S3_top: "S3 \<le> s \<longleftrightarrow> s = S3"
  by (cases s) (simp_all add: less_eq_sensitivity_def)

lemma inspect_covered:
  assumes "\<not> exceeds_limit input (max_input_utf16 ctx)" "covers (scan_all_views (l0_scan lg) (utf16 input)) hits" "h \<in> set hits"
  shows "hit_finding h \<in> set (r_findings (inspect lg input ctx))"
    "r_action (inspect lg input ctx) \<noteq> Allow" "h_sensitivity h = S3 \<Longrightarrow> r_action (inspect lg input ctx) = Block"
proof -
  let ?hits = "scan_all_views (l0_scan lg) (utf16 input)"
  from assms(2,3) obtain g where g: "g \<in> set ?hits" "same_place g h" "h_sensitivity h \<le> h_sensitivity g"
    by (auto simp: covers_def)
  from g(2) have "hit_finding g = hit_finding h" by (simp add: hit_finding_def same_place_def)
  then have "hit_finding h \<in> hit_finding ` set ?hits" using g(1) by (metis imageI)
  then show "hit_finding h \<in> set (r_findings (inspect lg input ctx))" using assms(1) by (simp add: inspect_def Let_def)
  from g(1) have ne: "?hits \<noteq> []" by auto
  then show "r_action (inspect lg input ctx) \<noteq> Allow" by (simp add: allow_iff)
  assume "h_sensitivity h = S3"
  with g(3) have "h_sensitivity g = S3" by (simp add: S3_top)
  with g(1) fold_max_ge(2) [of S3 "map h_sensitivity ?hits" S0] have "fold max (map h_sensitivity ?hits) S0 = S3"
    by (force simp: S3_top)
  with ne assms(1) show "r_action (inspect lg input ctx) = Block" by (simp add: inspect_def decide_action_def Let_def)
qed

lemma views_cover_groups: "covers (scan_all_views (l0_scan lg) us) (scan_groups us)"
proof -
  have "covers (scan_plain lg us) (scan_groups us)"
    unfolding scan_plain_def using sort_dedup_covers covers_append by blast
  moreover have "covers (l0_scan lg us) (scan_plain lg us)"
    unfolding l0_scan_def using sort_dedup_covers covers_append by blast
  ultimately show ?thesis using l0.all_views_cover_raw covers_trans by blast
qed



section \<open>A credential is found\<close>

text \<open>
  A credential in the text is found, whatever invisible characters the two hold and whatever
  width their letters have.
\<close>

theorem credential_in_open_found:
  assumes "sublist (normalized_units credential) (normalized_units input)"
  shows "contains_credential input credential"
  using assms by (simp add: contains_credential_def normalized_contains_def contains_seq_iff Let_def)

lemma decode_base64_token_encode:
  assumes "list_all (\<lambda>b. b < 256) bs" "bs \<noteq> []" "k \<le> 2"
  shows "decode_base64_token (base64_encode bs @ replicate k 61) = Some bs"
proof -
  have "base64_encode bs \<noteq> []" using assms(2) by (cases bs rule: base64_encode.cases) auto
  then show ?thesis
    using base64_encode_length_mod [of bs] strip_padding_replicate [OF base64_encode_members [OF assms(1)] assms(3)]
    by (simp add: decode_base64_token_def Let_def base64_bytes_encode [OF assms(1)])
qed

text \<open>
  C31. A credential inside anything that the text holds in base64 is found, padded or not, even when
  up to three characters of the alphabet precede the encoding.
\<close>

theorem credential_in_base64_found:
  assumes "from_utf16 (normalized_units credential) = Some secret"
    and "utf8 input = pre @ x @ base64_encode bs @ replicate k 61 @ post" "token_alone pre post" "k \<le> 2"
    and "list_all base64_member x" "length x \<le> 3" "list_all (\<lambda>b. b < 256) bs" "sublist (utf8 secret) bs" "bs \<noteq> []"
  shows "contains_credential input credential"
proof -
  let ?cred = "normalized_units credential" and ?b = "base64_encode bs"
  have b: "?b \<noteq> []" using assms(9) by (cases bs rule: base64_encode.cases) auto
  have alone: "utf8 input = pre @ (x @ ?b) @ replicate k 61 @ post" using assms(2) by simp
  have members: "list_all base64_member (x @ ?b)" using assms(5) base64_encode_members [OF assms(7)] by simp
  note r = token_run [OF alone assms(3) _ members assms(4)]
  let ?q = "length pre" and ?e = "length pre + length (x @ ?b)"
  have token: "slice (utf8 input) ?q (?e + k) = x @ ?b @ replicate k 61" by (simp add: assms(2) slice_def)
  have "decoded_contains (utf8 secret) ?cred (decode_base64_token (drop (length x) (x @ ?b @ replicate k 61)))"
    using decode_base64_token_encode [OF assms(7,9,4)] assms(8) by (simp add: decoded_contains_def contains_seq_iff)
  moreover have "length x \<in> set [0..<min 4 (length (x @ ?b @ replicate k 61))]"
    using assms(6) b by (auto simp flip: length_greater_0_conv)
  ultimately have "token_contains (utf8 secret) ?cred (slice (utf8 input) ?q (?e + k))"
    unfolding token_contains_def token list_ex_iff by blast
  then have "encoded_contains (utf8 input) ?cred"
    using r b by (force simp: encoded_contains_def assms(1) list_ex_iff Let_def)
  then show ?thesis by (simp add: contains_credential_def Let_def)
qed

lemma credential_in_base64_found_witness:
  "contains_credential (ascii ''v:YWJzay1sb2NhbC0wMQ== '') (ascii ''sk-local-01'')"
proof -
  let ?i = "ascii ''v:YWJzay1sb2NhbC0wMQ== ''" and ?c = "ascii ''sk-local-01''" and ?b = "ascii ''absk-local-01''"
  have u: "utf8 ?i = ?i" "utf16 ?c = ?c" "utf8 ?c = ?c" by (simp_all add: utf16_char_def utf8_char_def ascii_def)
  have "normalized_units ?c = ?c"
    by (simp add: normalized_units_def u) (simp add: ascii_def normalize_def rewrite_def view_of_def is_high_surrogate_def
        is_default_ignorable_def fold_bmp_def fold_width_units_def)
  then have "from_utf16 (normalized_units ?c) = Some ?c"
    by (simp add: ascii_def is_high_surrogate_def is_low_surrogate_def)
  moreover have "utf8 ?i = ascii ''v:'' @ [] @ base64_encode ?b @ replicate 2 61 @ ascii '' ''"
    unfolding u by (simp add: ascii_def base64_char_def numeral_2_eq_2)
  moreover have "token_alone (ascii ''v:'') (ascii '' '')" "list_all (\<lambda>b. b < 256) ?b" "?b \<noteq> []"
    by (simp_all add: token_alone_def base64_member_iff ascii_def)
  moreover have "?b = ascii ''ab'' @ utf8 ?c @ []" unfolding u by (simp add: ascii_def)
  then have "sublist (utf8 ?c) ?b" by (metis sublist_appendI)
  ultimately show ?thesis
    using credential_in_base64_found [of ?c ?c ?i "ascii ''v:''" "[]" ?b 2 "ascii '' ''"] by simp
qed

text \<open>A credential in hexadecimal digits, of either case and wherever they stand, is found.\<close>

theorem credential_in_hex_found:
  assumes "from_utf16 (normalized_units credential) = Some secret"
    and "sublist (hex_encode (utf8 secret)) (map to_lower (utf8 input))"
  shows "contains_credential input credential"
proof (cases "secret = []")
  case True
  then show ?thesis
    using assms(1) by (simp add: contains_credential_def normalized_contains_def contains_seq_iff Let_def)
      (cases "normalized_units credential" rule: from_utf16.cases; auto split: if_splits option.splits)
next
  case False
  then have "utf8 secret \<noteq> []" by (cases secret) (auto simp: utf8_char_def)
  then have "0 < length (hex_encode (utf8 secret))" by (simp add: length_hex_encode)
  moreover have "length (hex_encode (utf8 secret)) \<le> length (utf8 input)"
    using sublist_length_le [OF assms(2)] by simp
  ultimately have "encoded_contains (utf8 input) (normalized_units credential)"
    using assms(2) by (simp add: encoded_contains_def assms(1) contains_seq_iff Let_def)
  then show ?thesis by (simp add: contains_credential_def Let_def)
qed

end
