(* ===== verification/Redact.thy ===== *)
theory Redact
  imports Inspect "HOL-Library.AList"
begin

text \<open>
  Reversible redaction (\<^verbatim>\<open>crates/idoris-policy/src/inspect/redact.rs\<close>): the substitution of
  placeholders for what the inspection found, and the incremental restorer. A text is its list of
  characters; where the code measures a text it is in bytes (\<open>length (utf8 s)\<close>).
\<close>

section \<open>Names\<close>

datatype redact_error = NotRedactable | ResidualFinding | InvalidSpan

datatype restore_error = UnknownPlaceholder | MangledPlaceholder

record redaction =
  rd_text :: ustr
  rd_table :: "(ustr \<times> ustr) list"
  rd_literals :: "ustr list"

definition fold_width :: "nat \<Rightarrow> nat" where
  "fold_width c = (if 0xff01 \<le> c \<and> c \<le> 0xff5e then c - 0xfee0 else c)"

definition normalize_name :: "ustr \<Rightarrow> ustr" where
  "normalize_name text = map to_upper (filter is_alnum (map fold_width text))"

definition finding_kinds :: "finding_kind list" where
  "finding_kinds =
     [CnResidentId, CnMobile, BankCard, CnUnifiedSocialCreditCode, CnLicensePlate, CnPassport, HkIdentityCard,
      HkMacauTravelPermit, EmailAddress, ApiKey, PrivateKey, HighEntropySecret, CredentialPath, InputLimitExceeded]"

definition reserved_kind :: "ustr \<Rightarrow> bool" where
  "reserved_kind kind \<longleftrightarrow> eq_ignore_ascii_case kind (ascii ''person'')
     \<or> list_ex (\<lambda>k. eq_ignore_ascii_case kind (ascii (kind_as_str k))) finding_kinds"

definition label :: "finding_kind \<Rightarrow> ustr" where
  "label kind = map to_upper (ascii (kind_as_str kind))"

definition placeholder :: "ustr \<Rightarrow> nat \<Rightarrow> ustr" where
  "placeholder kind n = [91] @ kind @ [95] @ ascii (show_nat n) @ [93]"

section \<open>Brackets\<close>

record token =
  spelling :: ustr
  overflow :: bool
  uppercase :: bool
  reserved :: bool
  digits :: bool
  indexed :: bool

definition token_new :: token where
  "token_new =
     \<lparr>spelling = [91], overflow = False, uppercase = True, reserved = False, digits = False, indexed = False\<rparr>"

definition token_advance :: "nat \<Rightarrow> token \<Rightarrow> token" where
  "token_advance c0 t =
     (let c = fold_width c0; t = t\<lparr>uppercase := uppercase t \<and> \<not> is_lower c\<rparr> in
      if c = 95
      then t\<lparr>reserved := \<not> overflow t \<and> reserved_kind (map fold_width (tl (spelling t))),
             indexed := overflow t \<or> 1 < length (utf8 (spelling t)), digits := False\<rparr>
      else if is_ascii_digit c then t\<lparr>digits := indexed t\<rparr>
      else t\<lparr>indexed := False, digits := False\<rparr>)"

definition token_placeholder :: "token \<Rightarrow> bool" where
  "token_placeholder t \<longleftrightarrow> digits t \<and> (uppercase t \<or> reserved t)"

definition word_char :: "nat \<Rightarrow> bool" where
  "word_char c \<longleftrightarrow> is_alnum (fold_width c) \<or> fold_width c = 95"

text \<open>The bracketed words of a text, each from its innermost opening bracket.\<close>

fun tokens_from :: "token option \<Rightarrow> ustr \<Rightarrow> ustr list" where
  "tokens_from token [] = []"
| "tokens_from token (c # cs) =
     (if c = 91 then tokens_from (Some token_new) cs
      else case token of
        None \<Rightarrow> tokens_from None cs
      | Some current \<Rightarrow>
          if c = 93 then (spelling current @ [c]) # tokens_from None cs
          else if word_char c
          then let current = token_advance c current
               in tokens_from (Some (current\<lparr>spelling := spelling current @ [c]\<rparr>)) cs
          else tokens_from None cs)"

definition placeholder_tokens :: "ustr \<Rightarrow> ustr list" where
  "placeholder_tokens text = tokens_from None text"

section \<open>Substitution\<close>

text \<open>The regions to replace: overlapping findings are one, named by the first of them.\<close>

fun merge_regions :: "nat \<Rightarrow> (nat \<times> nat \<times> ustr) list \<Rightarrow> inspect_finding list \<Rightarrow> redact_error + (nat \<times> nat \<times> ustr) list" where
  "merge_regions n regions [] = Inr regions"
| "merge_regions n regions (f # fs) =
     (case f_span f of
        None \<Rightarrow> Inl NotRedactable
      | Some span \<Rightarrow>
          let start = span_start span; end = start + span_length span in
          if n < end then Inl InvalidSpan
          else if regions \<noteq> [] \<and> start < fst (snd (last regions))
          then let (s, e, kind) = last regions in merge_regions n (butlast regions @ [(s, max e end, kind)]) fs
          else merge_regions n (regions @ [(start, end, label (f_kind f))]) fs)"

text \<open>The first number from \<open>n\<close> on whose placeholder neither the text nor what is out already spells.\<close>

lemma show_nat_bound: "n < 10 ^ length (show_nat n)"
proof (induction n rule: show_nat.induct)
  case (1 n)
  show ?case
  proof (cases "n < 10")
    case True
    then show ?thesis by (subst show_nat.simps) simp
  next
    case False
    with 1 have "n div 10 < 10 ^ length (show_nat (n div 10))" by simp
    then have "n < 10 * 10 ^ length (show_nat (n div 10))" by linarith
    with False show ?thesis by (subst show_nat.simps) simp
  qed
qed

lemma show_nat_digits: "list_all is_ascii_digit (ascii (show_nat n))"
proof (induction n rule: show_nat.induct)
  case (1 n)
  have "is_ascii_digit (of_char (char_of (48 + n mod 10) :: char))" by (simp add: is_ascii_digit_def)
  with 1 show ?case by (cases "n < 10"; subst show_nat.simps) (simp_all add: ascii_def)
qed

definition spelled :: "ustr \<Rightarrow> ustr \<Rightarrow> ustr \<Rightarrow> bool" where
  "spelled normalized_input text candidate \<longleftrightarrow>
     sublist (normalize_name candidate) normalized_input \<or> sublist candidate text"

lemma digits_normalize: "list_all is_ascii_digit ds \<Longrightarrow> normalize_name ds = ds"
  by (induction ds) (auto simp: normalize_name_def fold_width_def is_alnum_def is_ascii_digit_def to_upper_def is_lower_def)

lemma normalize_name_append: "normalize_name (a @ b) = normalize_name a @ normalize_name b"
  by (simp add: normalize_name_def)

lemma spelled_bound:
  assumes "spelled ni text (placeholder kind n)"
  shows "n < 10 ^ (length ni + length text)"
proof -
  have "length (show_nat n) \<le> length (normalize_name (placeholder kind n))"
    unfolding placeholder_def normalize_name_append length_append digits_normalize [OF show_nat_digits [of n]] by simp
  moreover have "length (show_nat n) \<le> length (placeholder kind n)" by (simp add: placeholder_def)
  ultimately have "length (show_nat n) \<le> length ni + length text"
    using assms sublist_length_le by (fastforce simp: spelled_def)
  then have "(10::nat) ^ length (show_nat n) \<le> 10 ^ (length ni + length text)" by (simp add: power_increasing)
  with show_nat_bound [of n] show ?thesis by linarith
qed

function mint :: "ustr \<Rightarrow> ustr \<Rightarrow> ustr \<Rightarrow> nat \<Rightarrow> nat" where
  "mint normalized_input text kind n =
     (if spelled normalized_input text (placeholder kind n) then mint normalized_input text kind (n + 1) else n)"
  by pat_completeness auto
termination
  by (relation "measure (\<lambda>(ni, text, kind, n). 10 ^ (length ni + length text) - n)") (auto dest: spelled_bound)

declare mint.simps [simp del]

definition units_text :: "nat list \<Rightarrow> redact_error + ustr" where
  "units_text us = (case from_utf16 us of None \<Rightarrow> Inl InvalidSpan | Some s \<Rightarrow> Inr s)"

definition next_count :: "(ustr \<times> nat) list \<Rightarrow> ustr \<Rightarrow> nat" where
  "next_count counters kind = (case map_of counters kind of Some n \<Rightarrow> n + 1 | None \<Rightarrow> 1)"

fun substitute_from ::
  "nat list \<Rightarrow> ustr \<Rightarrow> nat \<Rightarrow> (ustr \<times> nat) list \<Rightarrow> redaction \<Rightarrow> (nat \<times> nat \<times> ustr) list \<Rightarrow> redact_error + redaction" where
  "substitute_from us ni cursor counters out [] =
     bind_result (units_text (drop cursor us)) (\<lambda>tail. Inr (out\<lparr>rd_text := rd_text out @ tail\<rparr>))"
| "substitute_from us ni cursor counters out ((start, end, kind) # rest) =
     bind_result (units_text (slice us cursor start)) (\<lambda>plain.
     bind_result (units_text (slice us start end)) (\<lambda>original.
       let text = rd_text out @ plain in
       case find (\<lambda>(p, value). value = original) (rd_table out) of
         Some (p, _) \<Rightarrow> substitute_from us ni end counters (out\<lparr>rd_text := text @ p\<rparr>) rest
       | None \<Rightarrow>
           let n = next_count counters kind; p = placeholder kind (mint ni text kind n)
           in substitute_from us ni end (AList.update kind n counters)
                (out\<lparr>rd_text := text @ p, rd_table := rd_table out @ [(p, original)]\<rparr>) rest))"

definition substitute :: "ustr \<Rightarrow> inspect_finding list \<Rightarrow> redact_error + redaction" where
  "substitute input findings =
     bind_result (merge_regions (length (utf16 input)) [] findings) (\<lambda>regions.
       substitute_from (utf16 input) (normalize_name input) 0 []
         \<lparr>rd_text = [], rd_table = [], rd_literals = placeholder_tokens input\<rparr> regions)"

definition redact :: "(f64 \<Rightarrow> f64) \<Rightarrow> ustr \<Rightarrow> inspect_response \<Rightarrow> inspect_ctx \<Rightarrow> redact_error + redaction" where
  "redact lg input verdict ctx =
     (if r_action verdict \<noteq> Redact then Inl NotRedactable
      else bind_result (substitute input (r_findings verdict)) (\<lambda>out.
        if r_findings (inspect lg (rd_text out) ctx) \<noteq> [] then Inl ResidualFinding else Inr out))"

section \<open>Restoring\<close>

record restorer =
  rs_token :: "token option"
  rs_normalized :: ustr
  rs_seen :: "bool list"
  rs_failed :: "restore_error option"

definition names :: "redaction \<Rightarrow> ustr list" where
  "names r = map (\<lambda>(p, _). normalize_name p) (rd_table r)"

definition max_name :: "redaction \<Rightarrow> nat" where
  "max_name r = foldr max (map length (names r)) 0"

definition limit :: "redaction \<Rightarrow> nat" where
  "limit r = foldr max (map (\<lambda>(p, _). length (utf8 p)) (rd_table r) @ map (\<lambda>s. length (utf8 s)) (rd_literals r)) 64"

definition stream :: "redaction \<Rightarrow> restorer" where
  "stream r = \<lparr>rs_token = None, rs_normalized = [], rs_seen = replicate (length (rd_table r)) False, rs_failed = None\<rparr>"

text \<open>\<open>track\<close>: the end of what was written, in normal form, may not become a name.\<close>

fun track_chars :: "redaction \<Rightarrow> bool \<Rightarrow> nat \<Rightarrow> ustr \<Rightarrow> ustr \<Rightarrow> restore_error + ustr" where
  "track_chars r literal inside normalized [] = Inr normalized"
| "track_chars r literal inside normalized (c # cs) =
     (let inside = inside + (if literal then 1 else 0); normalized = normalized @ [to_upper c] in
      if list_ex (\<lambda>name. suffix name normalized \<and> inside < length name) (names r) then Inl MangledPlaceholder
      else track_chars r literal inside (drop (length normalized - max_name r) normalized) cs)"

definition track :: "redaction \<Rightarrow> bool \<Rightarrow> ustr \<Rightarrow> restorer \<Rightarrow> restore_error + restorer" where
  "track r literal text st =
     bind_result (track_chars r literal 0 (rs_normalized st) (filter is_alnum (map fold_width text)))
       (\<lambda>normalized. Inr (st\<lparr>rs_normalized := normalized\<rparr>))"

text \<open>The state, and the text written.\<close>

definition write_plain :: "redaction \<Rightarrow> ustr \<Rightarrow> restorer \<Rightarrow> restore_error + (restorer \<times> ustr)" where
  "write_plain r text st = bind_result (track r False text st) (\<lambda>st. Inr (st, text))"

definition close_token :: "redaction \<Rightarrow> token \<Rightarrow> restorer \<Rightarrow> restore_error + (restorer \<times> ustr)" where
  "close_token r token st =
     (let whole = spelling token @ [93];
          rest = (if token_placeholder token then Inl (if uppercase token then UnknownPlaceholder else MangledPlaceholder)
                  else write_plain r (if overflow token then [93] else whole) st)
      in if overflow token then rest
         else if whole \<in> set (rd_literals r)
         then bind_result (track r True whole st) (\<lambda>st. Inr (st, whole))
         else case index_of whole (map fst (rd_table r)) of
             Some i \<Rightarrow> Inr (st\<lparr>rs_seen := (rs_seen st)[i := True], rs_normalized := []\<rparr>, snd (rd_table r ! i))
           | None \<Rightarrow> rest)"

definition extend_token :: "redaction \<Rightarrow> nat \<Rightarrow> token \<Rightarrow> restorer \<Rightarrow> restore_error + (restorer \<times> ustr)" where
  "extend_token r c token0 st =
     (let token = token_advance c token0 in
      if \<not> overflow token \<and> length (utf8 (spelling token)) + length (utf8_char c) < limit r
      then Inr (st\<lparr>rs_token := Some (token\<lparr>spelling := spelling token @ [c]\<rparr>)\<rparr>, [])
      else
        bind_result (if overflow token then Inr (st, []) else write_plain r (spelling token) st) (\<lambda>(st, held).
        bind_result (write_plain r [c] st) (\<lambda>(st, out).
          Inr (st\<lparr>rs_token := Some (if overflow token then token else token\<lparr>spelling := [], overflow := True\<rparr>)\<rparr>, held @ out))))"

definition restore_char :: "redaction \<Rightarrow> nat \<Rightarrow> restorer \<Rightarrow> restore_error + (restorer \<times> ustr)" where
  "restore_char r c st =
     (case rs_token st of
        None \<Rightarrow> if c = 91 then Inr (st\<lparr>rs_token := Some token_new\<rparr>, []) else write_plain r [c] st
      | Some token \<Rightarrow>
          let st = st\<lparr>rs_token := None\<rparr> in
          if c = 93 then close_token r token st
          else if word_char c then extend_token r c token st
          else
            bind_result (write_plain r (spelling token) st) (\<lambda>(st, held).
            if c = 91 then Inr (st\<lparr>rs_token := Some token_new\<rparr>, held)
            else bind_result (write_plain r [c] st) (\<lambda>(st, out). Inr (st, held @ out))))"

fun restore_chars :: "redaction \<Rightarrow> ustr \<Rightarrow> restorer \<Rightarrow> restore_error + (restorer \<times> ustr)" where
  "restore_chars r [] st = Inr (st, [])"
| "restore_chars r (c # cs) st =
     bind_result (restore_char r c st) (\<lambda>(st, out).
     bind_result (restore_chars r cs st) (\<lambda>(st, rest). Inr (st, out @ rest)))"

text \<open>A failure poisons the restorer: what else it had changed no call reads any more.\<close>

definition push :: "redaction \<Rightarrow> ustr \<Rightarrow> restorer \<Rightarrow> restorer \<times> (restore_error + ustr)" where
  "push r chunk st =
     (case rs_failed st of
        Some e \<Rightarrow> (st, Inl e)
      | None \<Rightarrow>
          (case restore_chars r chunk st of
             Inl e \<Rightarrow> (st\<lparr>rs_failed := Some e\<rparr>, Inl e)
           | Inr (st', out) \<Rightarrow> (st', Inr out)))"

definition finish :: "redaction \<Rightarrow> restorer \<Rightarrow> restore_error + ustr" where
  "finish r st =
     (case rs_failed st of
        Some e \<Rightarrow> Inl e
      | None \<Rightarrow>
          bind_result (case rs_token st of None \<Rightarrow> Inr (st, []) | Some token \<Rightarrow> write_plain r (spelling token) (st\<lparr>rs_token := None\<rparr>))
            (\<lambda>(st, tail). if list_ex Not (rs_seen st) then Inl MangledPlaceholder else Inr tail))"

definition restore :: "redaction \<Rightarrow> ustr \<Rightarrow> restore_error + ustr" where
  "restore r output =
     (let (st, result) = push r output (stream r)
      in bind_result result (\<lambda>out. bind_result (finish r st) (\<lambda>tail. Inr (out @ tail))))"

end
