(* ===== verification/Restore.thy ===== *)
theory Restore
  imports Redact "HOL-Library.Code_Target_Numeral"
begin

text \<open>
  What redaction promises: how the text to restore is cut into chunks makes no difference, and restoring
  the redacted text gives back the original.
\<close>

section \<open>Chunks\<close>

lemma bind_result_assoc: "bind_result (bind_result x f) g = bind_result x (\<lambda>y. bind_result (f y) g)"
  by (cases x) simp_all

lemma bind_result_Inr: "bind_result x f = Inr y \<longleftrightarrow> (\<exists>z. x = Inr z \<and> f z = Inr y)"
  by (cases x) simp_all

lemma bind_result_id: "bind_result x Inr = x"
  by (cases x) simp_all

lemma restore_chars_append:
  "restore_chars r (a @ b) st =
     bind_result (restore_chars r a st) (\<lambda>(st, out).
     bind_result (restore_chars r b st) (\<lambda>(st, rest). Inr (st, out @ rest)))"
proof (induction a arbitrary: st)
  case Nil
  show ?case by (simp add: bind_result_id case_prod_beta)
next
  case (Cons c a)
  then show ?case by (simp add: bind_result_assoc case_prod_unfold)
qed

text \<open>Pushing one chunk after the other, up to the first failure.\<close>

fun push_chunks :: "redaction \<Rightarrow> ustr list \<Rightarrow> restorer \<Rightarrow> restorer \<times> (restore_error + ustr)" where
  "push_chunks r [] st = (st, Inr [])"
| "push_chunks r (chunk # chunks) st =
     (case push r chunk st of
        (st', Inl e) \<Rightarrow> (st', Inl e)
      | (st', Inr out) \<Rightarrow>
          (let (st'', rest) = push_chunks r chunks st' in (st'', bind_result rest (\<lambda>rest. Inr (out @ rest)))))"

definition restore_in_chunks :: "redaction \<Rightarrow> ustr list \<Rightarrow> restore_error + ustr" where
  "restore_in_chunks r chunks =
     (let (st, result) = push_chunks r chunks (stream r)
      in bind_result result (\<lambda>out. bind_result (finish r st) (\<lambda>tail. Inr (out @ tail))))"

lemma track_failed: "track r literal s st = Inr st' \<Longrightarrow> rs_failed st' = rs_failed st"
  by (auto simp: track_def bind_result_Inr)

lemma write_plain_failed: "write_plain r s st = Inr (st', out) \<Longrightarrow> rs_failed st' = rs_failed st"
  by (auto simp: write_plain_def bind_result_Inr track_failed)

lemma close_token_failed: "close_token r t st = Inr (st', out) \<Longrightarrow> rs_failed st' = rs_failed st"
  by (auto simp: close_token_def bind_result_Inr Let_def dest: write_plain_failed track_failed
      split: if_splits option.splits)

lemma extend_token_failed: "extend_token r c t st = Inr (st', out) \<Longrightarrow> rs_failed st' = rs_failed st"
  by (auto simp: extend_token_def bind_result_Inr Let_def dest!: write_plain_failed split: if_splits)

lemma restore_char_failed: "restore_char r c st = Inr (st', out) \<Longrightarrow> rs_failed st' = rs_failed st"
  by (auto simp: restore_char_def bind_result_Inr Let_def
      dest!: write_plain_failed close_token_failed extend_token_failed split: if_splits option.splits)

lemma restore_chars_failed: "restore_chars r cs st = Inr (st', out) \<Longrightarrow> rs_failed st' = rs_failed st"
  by (induction cs arbitrary: st st' out) (auto simp: bind_result_Inr dest: restore_char_failed)

text \<open>Pushing chunks is pushing the text they make up.\<close>

lemma push_chunks_concat:
  "rs_failed st = None \<Longrightarrow>
     (case push_chunks r chunks st of
        (st', Inr out) \<Rightarrow> restore_chars r (concat chunks) st = Inr (st', out) \<and> rs_failed st' = None
      | (st', Inl e) \<Rightarrow> restore_chars r (concat chunks) st = Inl e)"
proof (induction chunks arbitrary: st)
  case (Cons chunk chunks)
  show ?case
  proof (cases "restore_chars r chunk st")
    case (Inl e)
    with Cons(2) show ?thesis by (simp add: push_def restore_chars_append)
  next
    case (Inr p)
    obtain st' out where p: "p = (st', out)" by fastforce
    have "rs_failed st' = None" using restore_chars_failed [OF Inr [unfolded p]] Cons(2) by simp
    from Cons(1) [OF this] Inr p Cons(2) show ?thesis
      by (auto simp: push_def restore_chars_append split: prod.splits sum.splits)
  qed
qed simp

lemma stream_failed [simp]: "rs_failed (stream r) = None"
  by (simp add: stream_def)

text \<open>
  Restoring does not depend on where the text is cut: pushing any chunks and finishing gives what restoring
  their concatenation gives, the failure included.
\<close>

theorem restore_chunks_independent: "restore_in_chunks r chunks = restore r (concat chunks)"
proof -
  obtain st res where p: "push_chunks r chunks (stream r) = (st, res)" by fastforce
  from push_chunks_concat [of "stream r" r chunks] p
  have c: "case res of Inr out \<Rightarrow> restore_chars r (concat chunks) (stream r) = Inr (st, out) \<and> rs_failed st = None
      | Inl e \<Rightarrow> restore_chars r (concat chunks) (stream r) = Inl e" by simp
  show ?thesis using c p by (cases res) (simp_all add: restore_in_chunks_def restore_def push_def)
qed

section \<open>Words in brackets\<close>

lemma word_char_not_bracket: "word_char c \<Longrightarrow> c \<noteq> 91 \<and> c \<noteq> 93"
  by (auto simp: word_char_def fold_width_def is_alnum_def is_ascii_digit_def is_upper_def is_lower_def)

lemma token_advance_simps [simp]: "spelling (token_advance c t) = spelling t" "overflow (token_advance c t) = overflow t"
  by (simp_all add: token_advance_def Let_def)

lemma tokens_of_word:
  "list_all word_char w \<Longrightarrow> (spelling t @ w @ [93]) \<in> set (tokens_from (Some t) (w @ 93 # b))"
proof (induction w arbitrary: t)
  case (Cons c w)
  then have c: "c \<noteq> 91" "c \<noteq> 93" "word_char c" using word_char_not_bracket by auto
  let ?t = "(token_advance c t)\<lparr>spelling := spelling t @ [c]\<rparr>"
  from Cons(1) [of ?t] Cons(2) have "spelling ?t @ w @ [93] \<in> set (tokens_from (Some ?t) (w @ 93 # b))" by simp
  with c show ?case by (simp add: Let_def)
qed simp

lemma tokens_from_later: "\<exists>t'. set (tokens_from t' b) \<subseteq> set (tokens_from t (a @ b))"
proof (induction a arbitrary: t)
  case (Cons c a)
  have "\<exists>t'. set (tokens_from t' (a @ b)) \<subseteq> set (tokens_from t ((c # a) @ b))"
    by (auto simp: Let_def split: option.splits)
  with Cons show ?case by (meson order_trans)
qed auto

lemma bracket_is_literal:
  assumes "sublist (91 # w @ [93]) text" "list_all word_char w"
  shows "91 # w @ [93] \<in> set (placeholder_tokens text)"
proof -
  from assms(1) obtain a b where split: "text = a @ 91 # w @ 93 # b" by (auto simp: sublist_def)
  obtain t where "set (tokens_from t (91 # w @ 93 # b)) \<subseteq> set (tokens_from None text)"
    unfolding split using tokens_from_later by blast
  moreover have "91 # w @ [93] \<in> set (tokens_from t (91 # w @ 93 # b))"
    using tokens_of_word [OF assms(2), of token_new b] by (simp add: token_new_def)
  ultimately show ?thesis by (auto simp: placeholder_tokens_def)
qed

lemma tokens_from_sublist:
  "s \<in> set (tokens_from t cs) \<Longrightarrow> sublist s ((case t of None \<Rightarrow> [] | Some k \<Rightarrow> spelling k) @ cs)"
proof (induction t cs rule: tokens_from.induct)
  case (2 t c cs)
  have left: "sublist s (b @ xs)" if "sublist s xs" for b xs :: ustr
    using that by (meson sublist_append_leftI sublist_order.order_trans)
  show ?case
  proof (cases "c = 91")
    case True
    then have "s \<in> set (tokens_from (Some token_new) cs)" using 2(6) by simp
    from 2(1) [OF True this] have "sublist s (91 # cs)" by (simp add: token_new_def)
    with True left show ?thesis by blast
  next
    case notopen: False
    show ?thesis
    proof (cases t)
      case None
      then have "sublist s cs" using 2(2) [OF notopen None] 2(6) notopen by simp
      with left [of cs "[c]"] None show ?thesis by simp
    next
      case (Some k)
      consider "c = 93" | "c \<noteq> 93" "word_char c" | "c \<noteq> 93" "\<not> word_char c" by blast
      then show ?thesis
      proof cases
        case 1
        then consider "s = spelling k @ [93]" | "sublist s cs" using 2(3) [OF notopen Some] 2(6) notopen Some by auto
        then show ?thesis
          using 1 Some left [of cs "spelling k @ [c]"] sublist_append_rightI [of "spelling k @ [93]" cs] by cases auto
      next
        case two: 2
        with 2(4) [OF notopen Some two refl] 2(6) notopen Some show ?thesis by (simp add: Let_def)
      next
        case 3
        then have "sublist s cs" using 2 notopen Some by auto
        with left [of cs "spelling k @ [c]"] Some show ?thesis by simp
      qed
    qed
  qed
qed simp

lemma literal_sublist: "s \<in> set (placeholder_tokens text) \<Longrightarrow> sublist s text"
  using tokens_from_sublist [of s None "text"] by (simp add: placeholder_tokens_def)

section \<open>Names that the text does not spell\<close>

lemma normalize_name_sublist: "sublist a b \<Longrightarrow> sublist (normalize_name a) (normalize_name b)"
proof -
  assume "sublist a b"
  then obtain ps ss where "b = ps @ a @ ss" by (auto simp: sublist_def)
  then show ?thesis by (simp add: normalize_name_append)
qed

definition unspelled :: "redaction \<Rightarrow> ustr \<Rightarrow> bool" where
  "unspelled r input \<longleftrightarrow> list_all (\<lambda>name. \<not> sublist name (normalize_name input)) (names r)"

lemma track_chars_ok:
  assumes "list_all (\<lambda>name. \<not> sublist name (w @ map to_upper cs)) (names r)" "suffix buf w"
  shows "\<exists>buf'. track_chars r literal inside buf cs = Inr buf' \<and> suffix buf' (w @ map to_upper cs)"
  using assms
proof (induction cs arbitrary: buf w inside)
  case (Cons c cs)
  let ?b = "buf @ [to_upper c]"
  have b: "suffix ?b (w @ [to_upper c])" using Cons(3) by (auto simp: suffix_def)
  have "\<not> suffix name ?b" if "name \<in> set (names r)" for name
  proof
    assume "suffix name ?b"
    with b have "sublist name (w @ [to_upper c])" by (meson suffix_imp_sublist suffix_order.order_trans)
    moreover have "sublist (w @ [to_upper c]) (w @ map to_upper (c # cs))"
      using sublist_append_rightI [of "w @ [to_upper c]" "map to_upper cs"] by simp
    ultimately have "sublist name (w @ map to_upper (c # cs))" by (meson sublist_order.order_trans)
    with Cons(2) that show False by (auto simp: list_all_iff)
  qed
  then have step: "track_chars r literal inside buf (c # cs) =
      track_chars r literal (inside + (if literal then 1 else 0)) (drop (length ?b - max_name r) ?b) cs"
    by (auto simp: list_ex_iff Let_def)
  have "suffix (drop (length ?b - max_name r) ?b) (w @ [to_upper c])"
    using b suffix_drop suffix_order.order_trans by blast
  with Cons(1) [of "w @ [to_upper c]"] Cons(2) show ?case unfolding step by simp
qed simp

lemma track_ok:
  assumes "unspelled r input" "sublist (pre @ s) input" "suffix (rs_normalized st) (normalize_name pre)"
  shows "\<exists>buf. track r literal s st = Inr (st\<lparr>rs_normalized := buf\<rparr>) \<and> suffix buf (normalize_name (pre @ s))"
proof -
  have n: "normalize_name (pre @ s) = normalize_name pre @ map to_upper (filter is_alnum (map fold_width s))"
    unfolding normalize_name_append by (simp add: normalize_name_def)
  have "list_all (\<lambda>name. \<not> sublist name (normalize_name (pre @ s))) (names r)"
    using assms(1) sublist_order.order_trans [OF _ normalize_name_sublist [OF assms(2)]]
    by (auto simp: unspelled_def list_all_iff)
  from track_chars_ok [OF this [unfolded n] assms(3)] obtain buf where
    "track_chars r literal 0 (rs_normalized st) (filter is_alnum (map fold_width s)) = Inr buf"
    "suffix buf (normalize_name (pre @ s))"
    unfolding n by blast
  then show ?thesis by (intro exI [of _ buf]) (simp add: track_def)
qed

lemma write_plain_ok:
  assumes "unspelled r input" "sublist (pre @ s) input" "suffix (rs_normalized st) (normalize_name pre)"
  shows "\<exists>buf. write_plain r s st = Inr (st\<lparr>rs_normalized := buf\<rparr>, s) \<and> suffix buf (normalize_name (pre @ s))"
  using track_ok [OF assms, of False] by (auto simp: write_plain_def)

section \<open>Plain text\<close>

text \<open>
  Where the restorer stands after a stretch of plain text: what it still holds back is an opening bracket and
  word characters, and what it remembers of its output is the end of the stretch.
\<close>

definition at_plain :: "redaction \<Rightarrow> ustr \<Rightarrow> restorer \<Rightarrow> ustr \<Rightarrow> bool" where
  "at_plain r done st out \<longleftrightarrow>
     (case rs_token st of
        None \<Rightarrow> out = done \<and> suffix (rs_normalized st) (normalize_name done)
      | Some t \<Rightarrow> \<exists>pre w. done = pre @ 91 # w \<and> list_all word_char w
          \<and> (if overflow t
             then out = done \<and> spelling t = [] \<and> limit r \<le> length (utf8 (91 # w))
               \<and> suffix (rs_normalized st) (normalize_name done)
             else out = pre \<and> spelling t = 91 # w \<and> suffix (rs_normalized st) (normalize_name pre)))"

lemma length_utf8_snoc: "length (utf8 (s @ [c])) = length (utf8 s) + length (utf8_char c)"
  by simp

lemma foldr_max_ge: "x \<in> set xs \<Longrightarrow> x \<le> foldr max xs (b::nat)"
  by (induction xs) auto

lemma literal_limit: "s \<in> set (rd_literals r) \<Longrightarrow> length (utf8 s) \<le> limit r"
  unfolding limit_def by (intro foldr_max_ge) auto

lemma table_limit: "(p, v) \<in> set (rd_table r) \<Longrightarrow> length (utf8 p) \<le> limit r"
  unfolding limit_def by (intro foldr_max_ge) force

text \<open>A held token is written as it was read.\<close>

lemma flush_ok:
  assumes "unspelled r input" "sublist done input" "at_plain r done st out" "rs_token st = Some t"
  shows "\<exists>buf. write_plain r (spelling t) (st\<lparr>rs_token := None\<rparr>) = Inr (st\<lparr>rs_token := None, rs_normalized := buf\<rparr>, spelling t)
    \<and> out @ spelling t = done \<and> suffix buf (normalize_name done)"
proof (cases "overflow t")
  case True
  with assms(3,4) have "spelling t = []" "out = done" "suffix (rs_normalized st) (normalize_name done)"
    by (auto simp: at_plain_def)
  then show ?thesis
    by (intro exI [of _ "rs_normalized st"]) (simp add: write_plain_def track_def)
next
  case False
  with assms(3,4) obtain w where w: "done = out @ spelling t" "suffix (rs_normalized st) (normalize_name out)"
    by (auto simp: at_plain_def)
  from write_plain_ok [OF assms(1) assms(2) [unfolded w(1)], of "st\<lparr>rs_token := None\<rparr>"] w show ?thesis by auto
qed

lemma close_ok:
  assumes "rd_literals r = placeholder_tokens input" "unspelled r input" "sublist (done @ [93]) input"
    "at_plain r done st out" "rs_token st = Some t"
  shows "\<exists>st' new. close_token r t (st\<lparr>rs_token := None\<rparr>) = Inr (st', new) \<and> at_plain r (done @ [93]) st' (out @ new)
    \<and> rs_seen st' = rs_seen st"
proof -
  from assms(4,5) obtain pre w where d: "done = pre @ 91 # w" and w: "list_all word_char w"
    and held: "if overflow t then limit r \<le> length (utf8 (91 # w))
       else out = pre \<and> spelling t = 91 # w \<and> suffix (rs_normalized st) (normalize_name pre)"
    by (auto simp: at_plain_def split: if_splits)
  have whole: "sublist (pre @ 91 # w @ [93]) input" using assms(3) by (simp add: d)
  then have "sublist (91 # w @ [93]) input" by (meson sublist_append_leftI sublist_order.order_trans)
  from bracket_is_literal [OF this w] have lit: "91 # w @ [93] \<in> set (rd_literals r)" by (simp add: assms(1))
  have "\<not> overflow t"
  proof
    assume "overflow t"
    with held literal_limit [OF lit] show False by (simp add: utf8_char_def)
  qed
  with held have o: "out = pre" "spelling t = 91 # w" "suffix (rs_normalized st) (normalize_name pre)" by simp_all
  obtain buf where "track r True (91 # w @ [93]) (st\<lparr>rs_token := None\<rparr>) = Inr (st\<lparr>rs_token := None, rs_normalized := buf\<rparr>)"
    "suffix buf (normalize_name (pre @ 91 # w @ [93]))"
    using track_ok [OF assms(2) whole, of "st\<lparr>rs_token := None\<rparr>"] o(3) by auto
  then show ?thesis
    using lit \<open>\<not> overflow t\<close> o d by (simp add: close_token_def Let_def at_plain_def)
qed

lemma extend_ok:
  assumes "unspelled r input" "sublist (done @ [c]) input" "at_plain r done st out" "rs_token st = Some t" "word_char c"
  shows "\<exists>st' new. extend_token r c t (st\<lparr>rs_token := None\<rparr>) = Inr (st', new) \<and> at_plain r (done @ [c]) st' (out @ new)
    \<and> rs_seen st' = rs_seen st"
proof -
  from assms(3,4) obtain pre w where d: "done = pre @ 91 # w" and w: "list_all word_char w"
    and held: "if overflow t then out = done \<and> spelling t = [] \<and> limit r \<le> length (utf8 (91 # w))
         \<and> suffix (rs_normalized st) (normalize_name done)
       else out = pre \<and> spelling t = 91 # w \<and> suffix (rs_normalized st) (normalize_name pre)"
    by (auto simp: at_plain_def)
  have dc: "done @ [c] = pre @ 91 # (w @ [c])" "list_all word_char (w @ [c])" using d w assms(5) by simp_all
  have sub: "sublist done input" using assms(2) by (meson sublist_append_rightI sublist_order.order_trans)
  have longer: "length (utf8 (91 # w)) \<le> length (utf8 (91 # w @ [c]))" by simp
  let ?st = "st\<lparr>rs_token := None\<rparr>"
  show ?thesis
  proof (cases "\<not> overflow t \<and> length (utf8 (spelling t)) + length (utf8_char c) < limit r")
    case True
    with held have o: "out = pre" "spelling t = 91 # w" "suffix (rs_normalized st) (normalize_name pre)" by simp_all
    have "extend_token r c t ?st = Inr (?st\<lparr>rs_token := Some ((token_advance c t)\<lparr>spelling := spelling t @ [c]\<rparr>)\<rparr>, [])"
      using True by (simp add: extend_token_def Let_def)
    moreover have "at_plain r (done @ [c]) (?st\<lparr>rs_token := Some ((token_advance c t)\<lparr>spelling := spelling t @ [c]\<rparr>)\<rparr>) out"
      unfolding at_plain_def using True o dc by auto
    ultimately show ?thesis by auto
  next
    case False
    obtain b1 where b1: "write_plain r (spelling t) ?st = Inr (?st\<lparr>rs_normalized := b1\<rparr>, spelling t)"
      "out @ spelling t = done" "suffix b1 (normalize_name done)"
      using flush_ok [OF assms(1) sub assms(3,4)] by auto
    obtain b2 where b2: "write_plain r [c] (?st\<lparr>rs_normalized := b1\<rparr>) = Inr (?st\<lparr>rs_normalized := b2\<rparr>, [c])"
      "suffix b2 (normalize_name (done @ [c]))"
      using write_plain_ok [OF assms(1,2), of "?st\<lparr>rs_normalized := b1\<rparr>"] b1(3) by auto
    have full: "limit r \<le> length (utf8 (91 # w @ [c]))"
      using False held longer by (auto split: if_splits)
    show ?thesis
    proof (cases "overflow t")
      case True
      then have o: "out = done" "spelling t = []" "suffix (rs_normalized st) (normalize_name done)" using held by simp_all
      obtain b where b: "write_plain r [c] ?st = Inr (?st\<lparr>rs_normalized := b\<rparr>, [c])" "suffix b (normalize_name (done @ [c]))"
        using write_plain_ok [OF assms(1,2), of ?st] o(3) by auto
      have "extend_token r c t ?st = Inr (?st\<lparr>rs_normalized := b, rs_token := Some (token_advance c t)\<rparr>, [c])"
        using True b(1) by (simp add: extend_token_def Let_def)
      moreover have "at_plain r (done @ [c]) (?st\<lparr>rs_normalized := b, rs_token := Some (token_advance c t)\<rparr>) (out @ [c])"
        unfolding at_plain_def using True o dc b(2) full
        by (simp add: d) (intro exI [of _ pre] exI [of _ "w @ [c]"], simp)
      ultimately show ?thesis by auto
    next
      case notover: False
      have "extend_token r c t ?st = Inr (?st\<lparr>rs_normalized := b2,
          rs_token := Some ((token_advance c t)\<lparr>spelling := [], overflow := True\<rparr>)\<rparr>, spelling t @ [c])"
        using False notover b1(1) b2(1) by (simp add: extend_token_def Let_def)
      moreover have "at_plain r (done @ [c]) (?st\<lparr>rs_normalized := b2,
          rs_token := Some ((token_advance c t)\<lparr>spelling := [], overflow := True\<rparr>)\<rparr>) (out @ spelling t @ [c])"
        unfolding at_plain_def using b1(2) b2(2) dc full
        by (simp add: d) (intro exI [of _ pre] exI [of _ "w @ [c]"], simp)
      ultimately show ?thesis by auto
    qed
  qed
qed

lemma restore_char_plain:
  assumes "rd_literals r = placeholder_tokens input" "unspelled r input" "sublist (done @ [c]) input" "at_plain r done st out"
  shows "\<exists>st' new. restore_char r c st = Inr (st', new) \<and> at_plain r (done @ [c]) st' (out @ new) \<and> rs_seen st' = rs_seen st"
proof -
  have sub: "sublist done input" using assms(3) by (meson sublist_append_rightI sublist_order.order_trans)
  show ?thesis
  proof (cases "rs_token st")
    case None
    with assms(4) have o: "out = done" "suffix (rs_normalized st) (normalize_name done)" by (simp_all add: at_plain_def)
    show ?thesis
    proof (cases "c = 91")
      case True
      with None o show ?thesis by (auto simp: restore_char_def at_plain_def token_new_def)
    next
      case False
      from write_plain_ok [OF assms(2,3) o(2)] False None o show ?thesis by (auto simp: restore_char_def at_plain_def)
    qed
  next
    case (Some t)
    consider "c = 93" | "c \<noteq> 93" "word_char c" | "c \<noteq> 93" "\<not> word_char c" by blast
    then show ?thesis
    proof cases
      case 1
      with close_ok [OF assms(1-2) assms(3) [unfolded 1] assms(4) Some] Some show ?thesis
        by (simp add: restore_char_def Let_def)
    next
      case 2
      with extend_ok [OF assms(2-4) Some] Some show ?thesis by (simp add: restore_char_def Let_def)
    next
      case 3
      let ?st = "st\<lparr>rs_token := None\<rparr>"
      obtain b where b: "write_plain r (spelling t) ?st = Inr (?st\<lparr>rs_normalized := b\<rparr>, spelling t)"
        "out @ spelling t = done" "suffix b (normalize_name done)"
        using flush_ok [OF assms(2) sub assms(4) Some] by auto
      show ?thesis
      proof (cases "c = 91")
        case True
        with 3 Some b show ?thesis by (auto simp: restore_char_def Let_def at_plain_def token_new_def)
      next
        case False
        obtain b2 where b2: "write_plain r [c] (?st\<lparr>rs_normalized := b\<rparr>) = Inr (?st\<lparr>rs_normalized := b2\<rparr>, [c])"
          "suffix b2 (normalize_name (done @ [c]))"
          using write_plain_ok [OF assms(2,3), of "?st\<lparr>rs_normalized := b\<rparr>"] b(3) by auto
        with 3 Some b(1,2) False show ?thesis by (auto simp: restore_char_def Let_def at_plain_def)
      qed
    qed
  qed
qed

lemma restore_chars_plain:
  assumes "rd_literals r = placeholder_tokens input" "unspelled r input" "sublist (done @ s) input" "at_plain r done st out"
  shows "\<exists>st' new. restore_chars r s st = Inr (st', new) \<and> at_plain r (done @ s) st' (out @ new) \<and> rs_seen st' = rs_seen st"
  using assms(3,4)
proof (induction s arbitrary: "done" st out)
  case (Cons c s)
  have "sublist (done @ [c]) input" using Cons(2) by (metis append_Cons append_Nil append_assoc sublist_append_rightI sublist_order.order_trans)
  from restore_char_plain [OF assms(1,2) this Cons(3)] obtain st1 new1 where
    1: "restore_char r c st = Inr (st1, new1)" "at_plain r (done @ [c]) st1 (out @ new1)" "rs_seen st1 = rs_seen st" by blast
  from Cons(1) [OF _ 1(2)] Cons(2) obtain st2 new2 where
    "restore_chars r s st1 = Inr (st2, new2)" "at_plain r (done @ c # s) st2 (out @ new1 @ new2)" "rs_seen st2 = rs_seen st1"
    by auto
  with 1 show ?case by auto
qed simp

section \<open>Placeholders\<close>

text \<open>
  The table of a redaction of an input: placeholders that are words in brackets, each once, of names that the
  input does not spell.
\<close>

definition table_ok_for :: "redaction \<Rightarrow> ustr \<Rightarrow> bool" where
  "table_ok_for r input \<longleftrightarrow> rd_literals r = placeholder_tokens input \<and> unspelled r input \<and> distinct (map fst (rd_table r))
     \<and> list_all (\<lambda>(p, v). \<exists>w. p = 91 # w @ [93] \<and> list_all word_char w) (rd_table r)"

lemma table_ok_forD:
  assumes "table_ok_for r input"
  shows "rd_literals r = placeholder_tokens input" "unspelled r input"
  using assms by (simp_all add: table_ok_for_def)

lemma index_of_nth: "distinct xs \<Longrightarrow> i < length xs \<Longrightarrow> index_of (xs ! i) xs = Some i"
proof (induction xs arbitrary: i)
  case (Cons x xs)
  then show ?case by (cases i) auto
qed simp

lemma hold_word:
  "list_all word_char w \<Longrightarrow> rs_token st = Some t \<Longrightarrow> \<not> overflow t \<Longrightarrow> length (utf8 (spelling t @ w)) < limit r \<Longrightarrow>
     \<exists>t'. restore_chars r w st = Inr (st\<lparr>rs_token := Some t'\<rparr>, []) \<and> \<not> overflow t' \<and> spelling t' = spelling t @ w"
proof (induction w arbitrary: st t)
  case (Cons c w)
  then have c: "c \<noteq> 91" "c \<noteq> 93" "word_char c" using word_char_not_bracket by auto
  let ?t = "(token_advance c t)\<lparr>spelling := spelling t @ [c]\<rparr>"
  have "restore_char r c st = Inr (st\<lparr>rs_token := Some ?t\<rparr>, [])"
    using c Cons(3-5) by (simp add: restore_char_def extend_token_def Let_def)
  with Cons(1) [of "st\<lparr>rs_token := Some ?t\<rparr>" ?t] Cons(2,4,5) show ?case by auto
next
  case Nil
  have "st = st\<lparr>rs_token := Some t\<rparr>" using Nil(2) by (cases st) simp
  with Nil show ?case by (intro exI [of _ t]) simp
qed

lemma restore_placeholder:
  assumes "table_ok_for r input" "sublist done input" "at_plain r done st out" "i < length (rd_table r)"
  shows "\<exists>st' new. restore_chars r (fst (rd_table r ! i)) st = Inr (st', new) \<and> out @ new = done @ snd (rd_table r ! i)
    \<and> rs_token st' = None \<and> rs_normalized st' = [] \<and> rs_seen st' = (rs_seen st)[i := True]"
proof -
  obtain p v where pv: "rd_table r ! i = (p, v)" by fastforce
  then have mem: "(p, v) \<in> set (rd_table r)" using assms(4) by (metis nth_mem)
  with assms(1) obtain w where p: "p = 91 # w @ [93]" and w: "list_all word_char w"
    by (auto simp: table_ok_for_def list_all_iff)
  note r = table_ok_forD [OF assms(1)]
  have "\<exists>st1 new. restore_char r 91 st = Inr (st1\<lparr>rs_token := Some token_new\<rparr>, new) \<and> out @ new = done
      \<and> rs_seen st1 = rs_seen st"
  proof (cases "rs_token st")
    case None
    with assms(3) show ?thesis by (auto simp: restore_char_def at_plain_def)
  next
    case (Some t)
    obtain b where b: "write_plain r (spelling t) (st\<lparr>rs_token := None\<rparr>) = Inr (st\<lparr>rs_token := None, rs_normalized := b\<rparr>, spelling t)"
      "out @ spelling t = done"
      using flush_ok [OF r(2) assms(2,3) Some] by auto
    have "\<not> word_char 91" using word_char_not_bracket by blast
    then have "restore_char r 91 st = Inr ((st\<lparr>rs_normalized := b\<rparr>)\<lparr>rs_token := Some token_new\<rparr>, spelling t)"
      using Some b(1) by (simp add: restore_char_def Let_def)
    with b(2) show ?thesis by (intro exI [of _ "st\<lparr>rs_normalized := b\<rparr>"] exI [of _ "spelling t"]) simp
  qed
  then obtain st1 new where open_bracket: "restore_char r 91 st = Inr (st1\<lparr>rs_token := Some token_new\<rparr>, new)"
    "out @ new = done" "rs_seen st1 = rs_seen st" by blast
  have "length (utf8 (91 # w)) < limit r" using table_limit [OF mem] by (simp add: p utf8_char_def)
  then obtain t where held: "restore_chars r w (st1\<lparr>rs_token := Some token_new\<rparr>) = Inr (st1\<lparr>rs_token := Some t\<rparr>, [])"
    "\<not> overflow t" "spelling t = 91 # w"
    using hold_word [OF w, of "st1\<lparr>rs_token := Some token_new\<rparr>" token_new r] by (auto simp: token_new_def)
  have "p \<notin> set (rd_literals r)"
  proof
    assume "p \<in> set (rd_literals r)"
    then have "sublist p input" by (simp add: r(1) literal_sublist)
    then have "sublist (normalize_name p) (normalize_name input)" by (rule normalize_name_sublist)
    moreover have "normalize_name p \<in> set (names r)" using mem by (force simp: names_def)
    ultimately show False using r(2) by (auto simp: unspelled_def list_all_iff)
  qed
  moreover have "index_of p (map fst (rd_table r)) = Some i"
    using index_of_nth [of "map fst (rd_table r)" i] assms(1,4) pv by (simp add: table_ok_for_def)
  ultimately have "close_token r t (st1\<lparr>rs_token := None\<rparr>)
      = Inr (st1\<lparr>rs_token := None, rs_seen := (rs_seen st1)[i := True], rs_normalized := []\<rparr>, v)"
    using held(2,3) p pv by (simp add: close_token_def Let_def)
  then have "restore_char r 93 (st1\<lparr>rs_token := Some t\<rparr>)
      = Inr (st1\<lparr>rs_token := None, rs_seen := (rs_seen st1)[i := True], rs_normalized := []\<rparr>, v)"
    by (simp add: restore_char_def)
  then show ?thesis
    using open_bracket held(1) by (auto simp: pv p restore_chars_append)
qed

section \<open>The redacted text\<close>

text \<open>
  A redacted text as its parts: before each placeholder a stretch of the input, with the index of the
  placeholder in the table; and the rest of the input.
\<close>

definition redacted_text :: "redaction \<Rightarrow> (ustr \<times> nat) list \<Rightarrow> ustr \<Rightarrow> ustr" where
  "redacted_text r parts tail = concat (map (\<lambda>(s, i). s @ fst (rd_table r ! i)) parts) @ tail"

definition original_text :: "redaction \<Rightarrow> (ustr \<times> nat) list \<Rightarrow> ustr \<Rightarrow> ustr" where
  "original_text r parts tail = concat (map (\<lambda>(s, i). s @ snd (rd_table r ! i)) parts) @ tail"

definition held :: "restorer \<Rightarrow> ustr" where
  "held st = (case rs_token st of None \<Rightarrow> [] | Some t \<Rightarrow> spelling t)"

lemma at_plain_start: "rs_token st = None \<Longrightarrow> rs_normalized st = [] \<Longrightarrow> at_plain r [] st []"
  by (simp add: at_plain_def)

lemma at_plain_held: "at_plain r done st out \<Longrightarrow> out @ held st = done"
  by (auto simp: at_plain_def held_def split: option.splits if_splits)

lemma restore_parts:
  assumes "table_ok_for r input" "sublist tail input"
    and "list_all (\<lambda>(s, i). sublist s input \<and> i < length (rd_table r)) parts" "at_plain r [] st []"
  shows "\<exists>st' new out. restore_chars r (redacted_text r parts tail) st = Inr (st', new) \<and> at_plain r tail st' out
    \<and> new @ held st' = original_text r parts tail \<and> length (rs_seen st') = length (rs_seen st)
    \<and> (\<forall>i < length (rs_seen st). (rs_seen st ! i \<longrightarrow> rs_seen st' ! i) \<and> (i \<in> snd ` set parts \<longrightarrow> rs_seen st' ! i))"
  using assms(3,4)
proof (induction parts arbitrary: st)
  case Nil
  from restore_chars_plain [OF table_ok_forD [OF assms(1)], of "[]" tail st "[]"] assms(2) Nil(2)
  show ?case by (auto simp: redacted_text_def original_text_def dest: at_plain_held)
next
  case (Cons part parts)
  obtain s i where part: "part = (s, i)" by fastforce
  from Cons(2) have s: "sublist s input" and i: "i < length (rd_table r)" by (simp_all add: part)
  from restore_chars_plain [OF table_ok_forD [OF assms(1)], of "[]" s st "[]"] s Cons(3)
  obtain st1 new1 where 1: "restore_chars r s st = Inr (st1, new1)" "at_plain r s st1 new1" "rs_seen st1 = rs_seen st"
    by auto
  from restore_placeholder [OF assms(1) s 1(2) i] obtain st2 new2 where
    2: "restore_chars r (fst (rd_table r ! i)) st1 = Inr (st2, new2)" "new1 @ new2 = s @ snd (rd_table r ! i)"
      "rs_token st2 = None" "rs_normalized st2 = []" "rs_seen st2 = (rs_seen st1)[i := True]" by blast
  from Cons(1) [of st2] Cons(2) at_plain_start [OF 2(3,4)] obtain st3 new3 out where
    3: "restore_chars r (redacted_text r parts tail) st2 = Inr (st3, new3)" "at_plain r tail st3 out"
      "new3 @ held st3 = original_text r parts tail" "length (rs_seen st3) = length (rs_seen st2)"
      "\<forall>j < length (rs_seen st2). (rs_seen st2 ! j \<longrightarrow> rs_seen st3 ! j) \<and> (j \<in> snd ` set parts \<longrightarrow> rs_seen st3 ! j)"
    by auto
  have "redacted_text r (part # parts) tail = s @ fst (rd_table r ! i) @ redacted_text r parts tail"
    by (simp add: redacted_text_def part)
  then have "restore_chars r (redacted_text r (part # parts) tail) st = Inr (st3, new1 @ new2 @ new3)"
    by (simp add: restore_chars_append 1(1) 2(1) 3(1))
  moreover have "(new1 @ new2 @ new3) @ held st3 = original_text r (part # parts) tail"
    using 2(2) 3(3) by (simp add: original_text_def part)
  moreover have "(rs_seen st ! j \<longrightarrow> rs_seen st3 ! j) \<and> (j \<in> snd ` set (part # parts) \<longrightarrow> rs_seen st3 ! j)"
    if "j < length (rs_seen st)" for j
    using 3(5) that 1(3) 2(5) by (cases "j = i") (auto simp: part)
  ultimately show ?case using 3(2,4) 1(3) 2(5) by fastforce
qed

lemma restore_redacted:
  assumes "table_ok_for r input" "sublist tail input"
    and "list_all (\<lambda>(s, i). sublist s input \<and> i < length (rd_table r)) parts"
    and "{..<length (rd_table r)} \<subseteq> snd ` set parts"
  shows "restore r (redacted_text r parts tail) = Inr (original_text r parts tail)"
proof -
  have "at_plain r [] (stream r) []" by (rule at_plain_start) (simp_all add: stream_def)
  from restore_parts [OF assms(1-3) this] obtain st new out where
    1: "restore_chars r (redacted_text r parts tail) (stream r) = Inr (st, new)" "at_plain r tail st out"
      "new @ held st = original_text r parts tail" "length (rs_seen st) = length (rd_table r)"
    and seen: "\<forall>i < length (rd_table r). i \<in> snd ` set parts \<longrightarrow> rs_seen st ! i"
    by (auto simp: stream_def)
  have failed: "rs_failed st = None" using restore_chars_failed [OF 1(1)] by simp
  have all: "\<not> list_ex Not (rs_seen st)"
    using seen assms(4) 1(4) by (force simp: list_ex_iff in_set_conv_nth)
  have "finish r st = Inr (held st)"
  proof (cases "rs_token st")
    case None
    with failed all show ?thesis by (simp add: finish_def held_def)
  next
    case (Some t)
    with flush_ok [OF table_ok_forD(2) [OF assms(1)] assms(2) 1(2) Some] failed all show ?thesis
      by (auto simp: finish_def held_def)
  qed
  then show ?thesis using 1(1,3) by (simp add: restore_def push_def)
qed

section \<open>What substitution makes\<close>

lemma from_utf16_append: "from_utf16 xs = Some a \<Longrightarrow> from_utf16 ys = Some b \<Longrightarrow> from_utf16 (xs @ ys) = Some (a @ b)"
proof (induction xs arbitrary: a rule: from_utf16.induct)
  case (2 u)
  then show ?case by (auto simp: from_utf16_Cons split: if_splits)
next
  case (3 u v us)
  then show ?case by (auto split: if_splits)
qed simp

text \<open>The regions lie in order within the units.\<close>

fun regions_in :: "nat \<Rightarrow> nat \<Rightarrow> (nat \<times> nat \<times> ustr) list \<Rightarrow> bool" where
  "regions_in cursor n [] \<longleftrightarrow> cursor \<le> n"
| "regions_in cursor n ((start, end, kind) # rest) \<longleftrightarrow>
     cursor \<le> start \<and> start \<le> end \<and> end \<le> n \<and> list_all word_char kind \<and> regions_in end n rest"

lemma regions_in_snoc:
  "regions_in c n (rs @ [(s, e, k)]) \<longleftrightarrow> regions_in c n rs \<and> (if rs = [] then c else fst (snd (last rs))) \<le> s
     \<and> s \<le> e \<and> e \<le> n \<and> list_all word_char k"
proof (induction rs arbitrary: c)
  case (Cons x rs)
  obtain a b k where "x = (a, b, k)" by (cases x) auto
  then show ?case using Cons by auto
qed auto

lemma label_word: "list_all word_char (label k)"
  by (cases k) (simp_all add: label_def ascii_def word_char_def fold_width_def to_upper_def is_lower_def is_alnum_def is_upper_def
      is_ascii_digit_def)

lemma merge_regions_in: "regions_in 0 n rs \<Longrightarrow> merge_regions n rs fs = Inr regions \<Longrightarrow> regions_in 0 n regions"
proof (induction n rs fs rule: merge_regions.induct)
  case (2 n rs f fs)
  obtain span where span: "f_span f = Some span" using 2(4) by (cases "f_span f") auto
  let ?s = "span_start span" and ?e = "span_start span + span_length span"
  have n: "\<not> n < ?e" using 2(4) span by (auto simp: Let_def split: if_splits)
  show ?case
  proof (cases "rs \<noteq> [] \<and> ?s < fst (snd (last rs))")
    case True
    obtain s e k where l: "last rs = (s, e, k)" by (cases "last rs") auto
    then have rs: "rs = butlast rs @ [(s, e, k)]" using True by (metis append_butlast_last_id)
    have "regions_in 0 n (butlast rs @ [(s, max e ?e, k)])"
      using 2(3) n unfolding regions_in_snoc by (subst (asm) rs) (auto simp: regions_in_snoc)
    with 2(1) [OF span refl refl n True l [symmetric] refl] 2(4) span n True l show ?thesis by (simp add: Let_def)
  next
    case False
    have "regions_in 0 n (rs @ [(?s, ?e, label (f_kind f))])"
      unfolding regions_in_snoc using 2(3) n False label_word by auto
    with 2(2) [OF span refl refl n False] 2(4) span n False show ?thesis by (simp add: Let_def)
  qed
qed simp

lemma mint_fresh: "\<not> spelled ni t (placeholder kind (mint ni t kind n))"
proof (induction ni t kind n rule: mint.induct)
  case (1 ni t kind n)
  then show ?case by (cases "spelled ni t (placeholder kind n)"; subst mint.simps) simp_all
qed

lemma placeholder_word:
  assumes "list_all word_char kind"
  shows "\<exists>w. placeholder kind n = 91 # w @ [93] \<and> list_all word_char w"
proof -
  have "list_all word_char (ascii (show_nat n))"
    using show_nat_digits [of n]
    by (auto simp: list_all_iff word_char_def fold_width_def is_alnum_def is_ascii_digit_def)
  then have "list_all word_char (kind @ [95] @ ascii (show_nat n))"
    using assms by (simp add: word_char_def fold_width_def)
  moreover have "placeholder kind n = 91 # (kind @ [95] @ ascii (show_nat n)) @ [93]" by (simp add: placeholder_def)
  ultimately show ?thesis by blast
qed

lemma units_text_Inr: "units_text us = Inr s \<longleftrightarrow> from_utf16 us = Some s"
  by (simp add: units_text_def split: option.splits)

lemma drop_slices: "a \<le> b \<Longrightarrow> b \<le> c \<Longrightarrow> drop a us = slice us a b @ slice us b c @ drop c us"
  unfolding slice_def by (metis append_take_drop_id drop_drop le_add_diff_inverse2 add.commute)

lemma part_text:
  "redacted_text r ((s, i) # parts) tail = s @ fst (rd_table r ! i) @ redacted_text r parts tail"
  "original_text r ((s, i) # parts) tail = s @ snd (rd_table r ! i) @ original_text r parts tail"
  by (simp_all add: redacted_text_def original_text_def)

lemma substitute_from_parts:
  assumes "substitute_from us ni cursor counters out regions = Inr r" "regions_in cursor (length us) regions"
    and "list_all (\<lambda>(p, v). sublist p (rd_text out)) (rd_table out)" "distinct (map fst (rd_table out))"
  shows "\<exists>new parts tail. rd_table r = rd_table out @ new \<and> rd_literals r = rd_literals out
    \<and> rd_text r = rd_text out @ redacted_text r parts tail \<and> from_utf16 (drop cursor us) = Some (original_text r parts tail)
    \<and> distinct (map fst (rd_table r)) \<and> list_all (\<lambda>(s, i). i < length (rd_table r)) parts
    \<and> {length (rd_table out)..<length (rd_table r)} \<subseteq> snd ` set parts
    \<and> list_all (\<lambda>(p, v). (\<exists>w. p = 91 # w @ [93] \<and> list_all word_char w) \<and> \<not> sublist (normalize_name p) ni) new"
  using assms
proof (induction us ni cursor counters out regions rule: substitute_from.induct)
  case (1 us ni cursor counters out)
  then obtain tail where "from_utf16 (drop cursor us) = Some tail" "r = out\<lparr>rd_text := rd_text out @ tail\<rparr>"
    by (auto simp: bind_result_Inr units_text_Inr)
  with 1(4) show ?case
    by (intro exI [of _ "[]"] exI [of _ tail]) (simp add: redacted_text_def original_text_def)
next
  case (2 us ni cursor counters out start "end" kind rest)
  from 2(3) obtain plain original where plain: "units_text (slice us cursor start) = Inr plain"
    and original: "units_text (slice us start end) = Inr original"
    by (auto simp: bind_result_Inr)
  from 2(4) have range: "cursor \<le> start" "start \<le> end" "list_all word_char kind" "regions_in end (length us) rest"
    by simp_all
  let ?text = "rd_text out @ plain"
  have units: "from_utf16 (drop cursor us) = Some (plain @ original @ later)" if "from_utf16 (drop end us) = Some later" for later
    unfolding drop_slices [OF range(1,2)]
    using plain original that by (intro from_utf16_append) (simp_all add: units_text_Inr)
  show ?case
  proof (cases "find (\<lambda>(p, value). value = original) (rd_table out)")
    case (Some pv)
    obtain p v where pv: "pv = (p, v)" by fastforce
    let ?out = "out\<lparr>rd_text := ?text @ p\<rparr>"
    from Some pv obtain i where i: "i < length (rd_table out)" "rd_table out ! i = (p, original)"
      by (auto simp: find_Some_iff)
    have rec: "substitute_from us ni end counters ?out rest = Inr r"
      using 2(3) Some pv plain original by simp
    have "list_all (\<lambda>(p, v). sublist p (rd_text ?out)) (rd_table ?out)"
      using 2(5) by (auto simp: list_all_iff intro: sublist_order.order_trans [OF _ sublist_append_rightI])
    from 2(2) [OF plain original refl Some pv [symmetric] rec range(4) this] 2(6) obtain new parts tail where
      IH: "rd_table r = rd_table out @ new" "rd_literals r = rd_literals out" "rd_text r = ?text @ p @ redacted_text r parts tail"
        "from_utf16 (drop end us) = Some (original_text r parts tail)" "distinct (map fst (rd_table r))"
        "list_all (\<lambda>(s, i). i < length (rd_table r)) parts" "{length (rd_table out)..<length (rd_table r)} \<subseteq> snd ` set parts"
        "list_all (\<lambda>(p, v). (\<exists>w. p = 91 # w @ [93] \<and> list_all word_char w) \<and> \<not> sublist (normalize_name p) ni) new"
      by auto
    have ri: "rd_table r ! i = (p, original)" "i < length (rd_table r)" using IH(1) i by (simp_all add: nth_append)
    show ?thesis
      by (intro exI [of _ new] exI [of _ "(plain, i) # parts"] exI [of _ tail] conjI)
        (use IH ri units in \<open>auto simp: part_text\<close>)
  next
    case None
    let ?p = "placeholder kind (mint ni ?text kind (next_count counters kind))"
    let ?out = "out\<lparr>rd_text := ?text @ ?p, rd_table := rd_table out @ [(?p, original)]\<rparr>"
    let ?counters = "AList.update kind (next_count counters kind) counters"
    have fresh: "\<not> sublist (normalize_name ?p) ni" "\<not> sublist ?p ?text" using mint_fresh by (auto simp: spelled_def)
    have rec: "substitute_from us ni end ?counters ?out rest = Inr r"
      using 2(3) None plain original by (simp add: Let_def)
    have "list_all (\<lambda>(p, v). sublist p (rd_text ?out)) (rd_table ?out)"
      using 2(5) sublist_append_leftI [of ?p ?text]
      by (auto simp: list_all_iff intro: sublist_order.order_trans [OF _ sublist_append_rightI])
    moreover have "?p \<notin> fst ` set (rd_table out)"
    proof
      assume "?p \<in> fst ` set (rd_table out)"
      then have "sublist ?p (rd_text out)" using 2(5) by (auto simp: list_all_iff)
      then have "sublist ?p ?text" by (meson sublist_append_rightI sublist_order.order_trans)
      with fresh(2) show False by blast
    qed
    then have "distinct (map fst (rd_table ?out))" using 2(6) by simp
    ultimately obtain new parts tail where
      IH: "rd_table r = rd_table out @ (?p, original) # new" "rd_literals r = rd_literals out"
        "rd_text r = ?text @ ?p @ redacted_text r parts tail"
        "from_utf16 (drop end us) = Some (original_text r parts tail)" "distinct (map fst (rd_table r))"
        "list_all (\<lambda>(s, i). i < length (rd_table r)) parts" "{Suc (length (rd_table out))..<length (rd_table r)} \<subseteq> snd ` set parts"
        "list_all (\<lambda>(p, v). (\<exists>w. p = 91 # w @ [93] \<and> list_all word_char w) \<and> \<not> sublist (normalize_name p) ni) new"
      using 2(1) [OF plain original refl None refl refl rec range(4)] by auto
    let ?i = "length (rd_table out)"
    have ri: "rd_table r ! ?i = (?p, original)" "?i < length (rd_table r)" using IH(1) by (simp_all add: nth_append)
    have cover: "{?i..<length (rd_table r)} \<subseteq> snd ` set ((plain, ?i) # parts)"
    proof
      fix j assume "j \<in> {?i..<length (rd_table r)}"
      then consider "j = ?i" | "j \<in> {Suc ?i..<length (rd_table r)}" by force
      then show "j \<in> snd ` set ((plain, ?i) # parts)" using subsetD [OF IH(7)] by cases auto
    qed
    show ?thesis
    proof (intro exI conjI)
      show "rd_table r = rd_table out @ (?p, original) # new" by (rule IH(1))
      show "rd_text r = rd_text out @ redacted_text r ((plain, ?i) # parts) tail"
        unfolding part_text ri(1) IH(3) by simp
      show "from_utf16 (drop cursor us) = Some (original_text r ((plain, ?i) # parts) tail)"
        unfolding part_text ri(1) snd_conv by (rule units [OF IH(4)])
      show "list_all (\<lambda>(s, i). i < length (rd_table r)) ((plain, ?i) # parts)" using IH(6) ri(2) by simp
      show "list_all (\<lambda>(p, v). (\<exists>w. p = 91 # w @ [93] \<and> list_all word_char w) \<and> \<not> sublist (normalize_name p) ni)
          ((?p, original) # new)"
        using IH(8) fresh(1) placeholder_word [OF range(3)] by simp
    qed (fact IH(2) IH(5) cover)+
  qed
qed

lemma parts_sublist:
  assumes "original_text r parts tail = input"
  shows "sublist tail input" "list_all (\<lambda>(s, i). sublist s input) parts"
proof -
  show "sublist tail input" by (simp flip: assms add: original_text_def)
  have "sublist s (original_text r parts tail)" if "(s, i) \<in> set parts" for s i
    using that
  proof (induction parts)
    case (Cons part parts)
    obtain s' j where part: "part = (s', j)" by fastforce
    show ?case
    proof (cases "part = (s, i)")
      case True
      then show ?thesis by (simp add: part_text)
    next
      case False
      with Cons have "sublist s (original_text r parts tail)" by auto
      then show ?thesis
        unfolding part part_text by (meson sublist_append_leftI sublist_order.order_trans)
    qed
  qed simp
  then show "list_all (\<lambda>(s, i). sublist s input) parts" by (auto simp: list_all_iff assms)
qed

text \<open>Restoring the substituted text gives back the input, and the whole of it.\<close>

lemma restore_substitute:
  assumes "substitute input findings = Inr r" "list_all is_scalar input"
  shows "restore r (rd_text r) = Inr input"
proof -
  let ?us = "utf16 input" and ?out = "\<lparr>rd_text = [], rd_table = [], rd_literals = placeholder_tokens input\<rparr>"
  from assms(1) obtain regions where merged: "merge_regions (length ?us) [] findings = Inr regions"
    and sub: "substitute_from ?us (normalize_name input) 0 [] ?out regions = Inr r"
    by (auto simp: substitute_def bind_result_Inr)
  from merge_regions_in [OF _ merged] have "regions_in 0 (length ?us) regions" by simp
  from substitute_from_parts [OF sub this] obtain new parts tail where
    p: "rd_table r = new" "rd_literals r = placeholder_tokens input" "rd_text r = redacted_text r parts tail"
      "from_utf16 ?us = Some (original_text r parts tail)" "distinct (map fst (rd_table r))"
      "list_all (\<lambda>(s, i). i < length (rd_table r)) parts" "{0..<length (rd_table r)} \<subseteq> snd ` set parts"
      "list_all (\<lambda>(p, v). (\<exists>w. p = 91 # w @ [93] \<and> list_all word_char w) \<and> \<not> sublist (normalize_name p) (normalize_name input)) new"
    by auto
  have input: "original_text r parts tail = input" using p(4) from_utf16_utf16 [OF assms(2)] by simp
  have "table_ok_for r input"
    using p(1,2,5,8) by (auto simp: table_ok_for_def unspelled_def names_def list_all_iff)
  moreover have "list_all (\<lambda>(s, i). sublist s input \<and> i < length (rd_table r)) parts"
    using parts_sublist(2) [OF input] p(6) by (auto simp: list_all_iff)
  ultimately show ?thesis
    using restore_redacted [of r input tail parts] parts_sublist(1) [OF input] p(3,7) input
    by (simp add: atLeast0LessThan)
qed

text \<open>
  C15. Redaction is reversible and leaves nothing: the text that goes out has no finding, and however it comes back
  in chunks, restoring it gives the input.
\<close>

theorem redaction_restored:
  assumes "redact lg input verdict ctx = Inr r" "list_all is_scalar input" "concat chunks = rd_text r"
  shows "restore_in_chunks r chunks = Inr input \<and> r_findings (inspect lg (rd_text r) ctx) = []"
proof -
  from assms(1) have "substitute input (r_findings verdict) = Inr r" "r_findings (inspect lg (rd_text r) ctx) = []"
    by (auto simp: redact_def bind_result_Inr split: if_splits)
  with restore_substitute [OF _ assms(2)] show ?thesis by (simp add: restore_chunks_independent assms(3))
qed

lemma redaction_restored_witness:
  "restore_in_chunks
     \<lparr>rd_text = ascii ''tel:[CN_MOBILE_1]!'', rd_table = [(ascii ''[CN_MOBILE_1]'', ascii ''13812345678'')], rd_literals = []\<rparr>
     [ascii ''tel:[CN_M'', ascii ''OBILE_1]!''] = Inr (ascii ''tel:13812345678!'')"
proof -
  let ?ctx = "\<lparr>declared = AnyPrivacy, remote_allowed = True, redact_consent = True, max_input_utf16 = 1000\<rparr>"
  let ?i = "ascii ''tel:13812345678!''"
  let ?r = "\<lparr>rd_text = ascii ''tel:[CN_MOBILE_1]!'', rd_table = [(ascii ''[CN_MOBILE_1]'', ascii ''13812345678'')],
    rd_literals = []\<rparr>"
  have "redact id ?i (inspect id ?i ?ctx) ?ctx = Inr ?r" by code_simp
  moreover have "list_all is_scalar ?i" by code_simp
  moreover have "concat [ascii ''tel:[CN_M'', ascii ''OBILE_1]!''] = rd_text ?r" by code_simp
  ultimately show ?thesis using redaction_restored by blast
qed

end
