(* ===== verification/Clean_Text.thy ===== *)
theory Clean_Text
  imports Inspect
begin

text \<open>
  What a text that gate one (\<^verbatim>\<open>crates/idoris-policy/src/inspect\<close>) lets through cannot hold. The
  content is described here by the shape of the text alone: a number or a mail address standing in it,
  the same behind full-width or foreign digits and invisible characters, the same inside one layer of base64
  or hexadecimal digits, and an embedded base64 document.
\<close>

section \<open>Content\<close>

text \<open>The sum of the Luhn check, over the digits from the last: every second one doubled, its digits added.\<close>

fun luhn_sum :: "nat list \<Rightarrow> nat" where
  "luhn_sum [] = 0"
| "luhn_sum [a] = a"
| "luhn_sum (a # b # ds) = a + (2 * b div 10 + 2 * b mod 10) + luhn_sum ds"

text \<open>A mobile number, with or without the country code, a bank card, a resident id of 18 or 15 digits.\<close>

definition personal_digits :: "nat list \<Rightarrow> bool" where
  "personal_digits ds \<longleftrightarrow>
     length ds = 11 \<and> ds ! 0 = 1 \<and> 3 \<le> ds ! 1
     \<or> length ds = 13 \<and> ds ! 0 = 8 \<and> ds ! 1 = 6 \<and> ds ! 2 = 1 \<and> 3 \<le> ds ! 3
     \<or> 16 \<le> length ds \<and> length ds \<le> 19 \<and> ds ! 0 \<noteq> 0 \<and> 10 dvd luhn_sum (rev ds)
     \<or> length ds = 18 \<and> id_structure (take 17 ds)
     \<or> length ds = 15 \<and> legacy_id_structure ds"

text \<open>A run of digits that stands alone, or one of 17 digits before the check letter of a resident id.\<close>

definition shows_number :: "nat list \<Rightarrow> bool" where
  "shows_number us \<longleftrightarrow> (\<exists>pre d post. us = pre @ d @ post \<and> isolated pre post \<and> d \<noteq> [] \<and> list_all is_ascii_digit d
     \<and> (let ds = map (\<lambda>u. u - 48) d in
          personal_digits ds
          \<or> length ds = 17 \<and> id_structure ds \<and> post \<noteq> [] \<and> (hd post = 88 \<or> hd post = 120)))"

text \<open>
  A mail address: a character of a local part, the sign, a domain, a dot and a last label of at least two letters,
  possibly with the dots of a sentence after it.
\<close>

definition shows_email :: "nat list \<Rightarrow> bool" where
  "shows_email us \<longleftrightarrow> (\<exists>pre c domain tld n post.
     us = pre @ [c, 64] @ domain @ [46] @ tld @ replicate n 46 @ post
     \<and> local_char c \<and> list_all domain_char domain \<and> 2 \<le> length tld \<and> list_all (\<lambda>u. is_upper u \<or> is_lower u) tld
     \<and> (post = [] \<or> \<not> domain_char (hd post)))"

definition shows_personal :: "nat list \<Rightarrow> bool" where
  "shows_personal us \<longleftrightarrow> shows_number us \<or> shows_email us"

text \<open>
  The ways to read a text: as it is, with wide characters and dashes folded, the same without the invisible
  characters, and also with digits and look-alike letters of other scripts folded.
\<close>

definition readings :: "nat list \<Rightarrow> nat list list" where
  "readings us = [us, n_units (fold_keeping_ignorables us), n_units (normalize us), n_units (fold_digits_and_homoglyphs us)]"

text \<open>A text stands in a token of its own, in base64, padded or not, or in hexadecimal digits.\<close>

definition carries :: "nat list \<Rightarrow> ustr \<Rightarrow> bool" where
  "carries us text \<longleftrightarrow> list_all is_scalar text \<and> (\<exists>pre post. token_alone pre post
     \<and> (9 \<le> length (utf8 text) \<and> (\<exists>k \<le> 2. us = pre @ base64_encode (utf8 text) @ replicate k 61 @ post)
        \<or> 8 \<le> length (utf8 text) \<and> us = pre @ hex_encode (utf8 text) @ post))"

text \<open>An embedded base64 document, whatever its case.\<close>

definition holds_data_url :: "ustr \<Rightarrow> bool" where
  "holds_data_url input \<longleftrightarrow> (\<exists>pre media b post.
     map to_lower input = pre @ ascii ''data:'' @ media @ ascii '';base64,'' @ b # post
     \<and> list_all is_data_url_header_char media \<and> (is_alnum b \<or> b = 43 \<or> b = 47))"

section \<open>Numbers are classified\<close>

lemma luhn_sum_enumerate:
  "even i \<Longrightarrow> list_all (\<lambda>x. x \<le> 9) ds \<Longrightarrow>
     sum_list (map (\<lambda>(i, digit). if odd i then (if digit * 2 > 9 then digit * 2 - 9 else digit * 2) else digit)
       (List.enumerate i ds)) = luhn_sum ds"
proof (induction ds arbitrary: i rule: luhn_sum.induct)
  case (3 a b ds)
  have "(if b * 2 > 9 then b * 2 - 9 else b * 2) = 2 * b div 10 + 2 * b mod 10"
  proof -
    have "b \<in> {0, 1, 2, 3, 4, 5, 6, 7, 8, 9}" using 3(3) by auto
    then show ?thesis by auto
  qed
  with 3 show ?case by simp
qed simp_all

lemma luhn_valid_sum: "list_all (\<lambda>x. x \<le> 9) ds \<Longrightarrow> luhn_valid ds \<longleftrightarrow> 10 dvd luhn_sum (rev ds)"
  unfolding luhn_valid_def by (subst luhn_sum_enumerate) (simp_all add: list_all_iff)

lemma nth_digit_le: "list_all (\<lambda>x. x \<le> 9) ds \<Longrightarrow> i < length ds \<Longrightarrow> ds ! i \<le> (9::nat)"
  by (simp add: list_all_length)

lemma personal_classified:
  assumes "personal_digits ds" "list_all (\<lambda>x. x \<le> 9) ds"
  shows "classify \<lparr>c_digits = ds, c_start = a, c_end = b, c_x_suffix = x\<rparr> \<noteq> []"
  using assms(1) unfolding personal_digits_def
proof (elim disjE)
  assume "length ds = 11 \<and> ds ! 0 = 1 \<and> 3 \<le> ds ! 1"
  with nth_digit_le [OF assms(2), of 1] show ?thesis by (simp add: classify_def mobile_digits_def is_mobile_def)
next
  assume m: "length ds = 13 \<and> ds ! 0 = 8 \<and> ds ! 1 = 6 \<and> ds ! 2 = 1 \<and> 3 \<le> ds ! 3"
  then have "take 2 ds = [8, 6]" by (cases ds rule: remdups_adj.cases) (auto simp: numeral_2_eq_2)
  with m nth_digit_le [OF assms(2), of 3] show ?thesis by (simp add: classify_def mobile_digits_def is_mobile_def numeral_3_eq_3)
qed (simp_all add: classify_def luhn_valid_sum [OF assms(2)])

lemma classify_kind: "h \<in> set (classify c) \<Longrightarrow> h_kind h \<noteq> HkIdentityCard"
  by (auto simp: classify_def Let_def mk_hit_def split: if_splits)

lemma number_hit: "shows_number us \<Longrightarrow> \<exists>h \<in> set (scan_groups us). h_kind h \<noteq> HkIdentityCard"
proof -
  assume "shows_number us"
  then obtain pre d post where s: "us = pre @ d @ post" "isolated pre post" "d \<noteq> []" "list_all is_ascii_digit d"
    and n: "personal_digits (map (\<lambda>u. u - 48) d)
      \<or> length d = 17 \<and> id_structure (map (\<lambda>u. u - 48) d) \<and> post \<noteq> [] \<and> (hd post = 88 \<or> hd post = 120)"
    unfolding shows_number_def by (auto simp: Let_def)
  let ?c = "\<lparr>c_digits = map (\<lambda>u. u - 48) d, c_start = length pre, c_end = length pre + length d,
      c_x_suffix = unit_at us (length pre + length d) is_check_x\<rparr>"
  have "list_all (\<lambda>x. x \<le> 9) (map (\<lambda>u. u - 48) d)"
    using s(4) by (auto simp: list_all_iff is_ascii_digit_def)
  moreover have "unit_at us (length pre + length d) is_check_x" if "post \<noteq> []" "hd post = 88 \<or> hd post = 120"
    using that by (cases post) (auto simp: s(1) unit_at_def is_check_x_def nth_append)
  ultimately have "classify ?c \<noteq> []"
    using n by (elim disjE) (auto dest: personal_classified, auto simp: classify_def Let_def)
  then obtain h where "h \<in> set (classify ?c)" by (meson last_in_set)
  with isolated_classified [OF s this] classify_kind [OF this] show ?thesis by blast
qed

section \<open>Mail addresses are found\<close>

lemma dropWhile_replicate: "x \<noteq> v \<Longrightarrow> dropWhile (\<lambda>c. c = v) (replicate n v @ x # xs) = x # xs"
  by (induction n) simp_all

lemma email_domain:
  assumes t: "2 \<le> length tld" "list_all (\<lambda>u. is_upper u \<or> is_lower u) tld"
  shows "rev (dropWhile (\<lambda>c. c = 46) (rev (domain @ 46 # tld @ replicate n 46))) = domain @ 46 # tld"
    "rev (takeWhile (\<lambda>c. c \<noteq> 46) (rev (domain @ 46 # tld))) = tld"
proof -
  have no_dot: "46 \<notin> set tld" using t(2) by (auto simp: list_all_iff is_upper_def is_lower_def)
  from t(1) obtain x xs where x: "rev tld = x # xs" by (cases "rev tld") auto
  then have "x \<in> set tld" by (metis list.set_intros(1) set_rev)
  with no_dot have "x \<noteq> 46" by auto
  then have "dropWhile (\<lambda>c. c = 46) (replicate n 46 @ rev tld @ 46 # rev domain) = rev tld @ 46 # rev domain"
    unfolding x by (simp add: dropWhile_replicate)
  then show "rev (dropWhile (\<lambda>c. c = 46) (rev (domain @ 46 # tld @ replicate n 46))) = domain @ 46 # tld"
    by simp
  have "takeWhile (\<lambda>c. c \<noteq> 46) (rev tld @ 46 # rev domain) = rev tld"
    using no_dot by (subst takeWhile_append2) auto
  then show "rev (takeWhile (\<lambda>c. c \<noteq> 46) (rev (domain @ 46 # tld))) = tld" by simp
qed

lemma email_hit: "shows_email us \<Longrightarrow> \<exists>h \<in> set (scan_emails us). h_kind h = EmailAddress"
proof -
  assume "shows_email us"
  then obtain pre c domain tld n post where s: "us = pre @ [c, 64] @ domain @ [46] @ tld @ replicate n 46 @ post"
    and c: "local_char c" and d: "list_all domain_char domain"
    and t: "2 \<le> length tld" "list_all (\<lambda>u. is_upper u \<or> is_lower u) tld"
    and p: "post = [] \<or> \<not> domain_char (hd post)" unfolding shows_email_def by blast
  let ?at = "length pre + 1" and ?r = "domain @ 46 # tld @ replicate n 46"
  have drop: "drop (?at + 1) us = ?r @ post" by (simp add: s)
  have "domain_char u" if "u \<in> set ?r" for u
    using that d t(2) by (auto simp: list_all_iff domain_char_def is_alnum_def)
  then have "takeWhile domain_char (?r @ post) = ?r @ takeWhile domain_char post" by (rule takeWhile_append2)
  moreover have "takeWhile domain_char post = []" using p by (cases post) auto
  ultimately have "takeWhile domain_char (drop (?at + 1) us) = ?r"
    unfolding drop by (simp only: append_Nil2)
  then have e: "run_end domain_char us (?at + 1) = ?at + 1 + length ?r" unfolding run_end_def by (simp only:)
  have run: "slice us (?at + 1) (run_end domain_char us (?at + 1)) = ?r"
    unfolding e slice_def drop diff_add_inverse by simp
  have "takeWhile local_char (rev (take ?at us)) \<noteq> []" using c by (simp add: s)
  then have "0 < length (takeWhile local_char (rev (take ?at us)))" by simp
  then have start: "?at - length (takeWhile local_char (rev (take ?at us))) < ?at" by linarith
  have "us ! ?at = 64" "?at < length us" by (simp_all add: s nth_append)
  with start t have "email_at us ?at \<noteq> []"
    unfolding email_at_def Let_def run email_domain [OF t] by simp
  then obtain h where h: "h \<in> set (email_at us ?at)" by (meson last_in_set)
  then have "h_kind h = EmailAddress" by (auto simp: email_at_def Let_def mk_hit_def split: if_splits)
  moreover have "h \<in> set (scan_emails us)" using h \<open>?at < length us\<close> by (force simp: scan_emails_def)
  ultimately show ?thesis by blast
qed

section \<open>A clean scan\<close>

text \<open>
  No hit, but for those a folded reading may show of a malformed Hong Kong identity card, which are dropped.
\<close>

definition clean :: "hit list \<Rightarrow> bool" where
  "clean hits \<longleftrightarrow> list_all (\<lambda>h. h_kind h = HkIdentityCard) hits"

lemma clean_covered: "covers a b \<Longrightarrow> clean a \<Longrightarrow> clean b"
  by (fastforce simp: covers_def clean_def list_all_iff same_place_def)

lemma clean_folded: "clean (folded_hits scan us v) \<Longrightarrow> clean (scan (n_units v))"
proof -
  assume "clean (folded_hits scan us v)"
  then have "clean (scan_view scan v)"
    by (fastforce simp: clean_def list_all_iff folded_hits_def drop_folded_malformed_hkid_def)
  then show ?thesis by (fastforce simp: clean_def list_all_iff scan_view_def split: prod.splits)
qed

context scanner
begin

lemma clean_readings: "clean (scan_all_views scan us) \<Longrightarrow> list_all (\<lambda>r. clean (scan r)) (readings us)"
  unfolding readings_def
  using clean_covered [OF all_views_cover_raw [of us]]
    clean_covered [OF all_views_cover_folded [of _ us], THEN clean_folded]
  by simp

end

lemma clean_plain: "clean (scan_plain lg us) \<Longrightarrow> \<not> shows_personal us"
proof
  assume c: "clean (scan_plain lg us)" and "shows_personal us"
  then have "\<exists>h \<in> set (scan_groups us @ scan_formatted us @ scan_country_mobile us
      @ (scan_tokens us @ scan_plates us @ scan_emails us) @ scan_secrets lg us @ scan_crossline_modern_id us).
        h_kind h \<noteq> HkIdentityCard"
    unfolding shows_personal_def
  proof (elim disjE)
    assume "shows_number us"
    from number_hit [OF this] show ?thesis by auto
  next
    assume "shows_email us"
    from email_hit [OF this] show ?thesis by force
  qed
  moreover from clean_covered [OF sort_dedup_covers c [unfolded scan_plain_def scan_identifiers_def]]
  have "clean (scan_groups us @ scan_formatted us @ scan_country_mobile us
      @ (scan_tokens us @ scan_plates us @ scan_emails us) @ scan_secrets lg us @ scan_crossline_modern_id us)" .
  ultimately show False unfolding clean_def list_all_iff by blast
qed

lemma clean_l0: "clean (l0_scan lg us) \<Longrightarrow> clean (scan_plain lg us)"
  unfolding l0_scan_def by (drule clean_covered [OF sort_dedup_covers]) (simp add: clean_def)

lemma clean_carried:
  assumes "clean (l0_scan lg us)" "carries us text"
  shows "clean (scan_all_views (scan_plain lg) (utf16 text))"
proof -
  from assms(2) obtain pre t k post where s: "us = pre @ t @ replicate k 61 @ post" "token_alone pre post" "k \<le> 2"
    and sc: "list_all is_scalar text"
    and t: "t = base64_encode (utf8 text) \<and> 9 \<le> length (utf8 text)
      \<or> t = hex_encode (utf8 text) \<and> 8 \<le> length (utf8 text) \<and> k = 0"
    unfolding carries_def by (metis append_Nil le0 replicate_0)
  note b = utf8_bytes [OF sc]
  from t have "t \<noteq> []" using length_base64_encode [of "utf8 text"] length_hex_encode [of "utf8 text"]
    by (cases "utf8 text" rule: base64_encode.cases) (auto simp: hex_encode_def)
  moreover from t have "list_all base64_member t" using base64_encode_members [OF b] hex_encode_members [OF b] by auto
  moreover from t have "decode_hex (t @ replicate k 61) = Some (utf8 text) \<or> decode_base64 (t @ replicate k 61) = Some (utf8 text)"
    using decode_base64_encode [OF b _ s(3)] decode_hex_encode [OF b] by auto
  ultimately have "covers (l0_scan lg us) (hits_at (length pre) (length t + k) (scan_all_views (scan_plain lg) (utf16 text)))"
    using token_covered [OF s(1,2) _ _ s(3), of "utf8 text" lg] by (simp add: report_decoded_utf8 [OF sc])
  from clean_covered [OF this assms(1)] show ?thesis by (simp add: clean_def hits_at_def list_all_iff)
qed

section \<open>Data addresses are seen\<close>

lemma data_url_seen: "holds_data_url input \<Longrightarrow> contains_base64_data_url input"
proof -
  assume "holds_data_url input"
  then obtain pre media b post where
    s: "map to_lower input = pre @ ascii ''data:'' @ media @ ascii '';base64,'' @ b # post"
    and m: "list_all is_data_url_header_char media" and b: "is_alnum b \<or> b = 43 \<or> b = 47"
    unfolding holds_data_url_def by blast
  let ?lower = "map to_lower input" and ?rest = "media @ ascii '';base64'' @ 44 # b # post"
  have split: "ascii '';base64,'' = ascii '';base64'' @ [44]" by (simp add: ascii_def)
  have h: "takeWhile is_data_url_header_char ?rest = media @ ascii '';base64''"
    using m by (simp add: takeWhile_append2 list_all_iff) (simp add: ascii_def is_data_url_header_char_def)
  have "data_url_at ?rest"
    unfolding data_url_at_def h Let_def using b by (simp add: unit_at_def suffixI)
  moreover have "take 5 (drop (length pre) ?lower) = ascii ''data:''" "drop (length pre + 5) ?lower = ?rest"
    unfolding s split by (simp_all add: ascii_def)
  moreover have "length pre < length ?lower" unfolding s by (simp add: ascii_def)
  ultimately show ?thesis unfolding contains_base64_data_url_def Let_def list_ex_iff by force
qed

section \<open>The property\<close>


definition open_ctx :: inspect_ctx where
  "open_ctx = \<lparr>declared = AnyPrivacy, remote_allowed = True, redact_consent = False, max_input_utf16 = 100\<rparr>"

text \<open>Two Chinese characters.\<close>

definition sample_text :: ustr where
  "sample_text = [0x4F60, 0x597D]"

lemma sample_units: "utf16 sample_text = sample_text" "utf8 sample_text = [228, 189, 160, 229, 165, 189]"
  by (simp_all add: sample_text_def utf16_char_def utf8_char_def)

lemma sample_no_runs: "\<not> p 0x4F60 \<Longrightarrow> \<not> p 0x597D \<Longrightarrow> blocks p e sample_text 0 = []"
  by (simp add: sample_text_def blocks.simps)

lemma sample_classes:
  "\<not> is_ascii_digit u" "\<not> is_alnum u" "\<not> key_member u" "\<not> entropy_member u" "\<not> path_member u" "\<not> base64_member u"
  if "u = 0x4F60 \<or> u = 0x597D"
  using that by (auto simp: is_ascii_digit_def is_alnum_def is_upper_def is_lower_def key_member_def entropy_member_def
      path_member_def base64_member_iff ascii_def)

lemma sample_plain: "scan_plain id sample_text = []"
proof -
  have "scan_groups sample_text = []" "scan_formatted sample_text = []" "scan_country_mobile sample_text = []"
    "scan_crossline_modern_id sample_text = []" "scan_tokens sample_text = []" "scan_api_keys sample_text = []"
    "scan_random id sample_text = []" "scan_paths sample_text = []"
    unfolding scan_groups_def scan_formatted_def scan_country_mobile_def scan_crossline_modern_id_def scan_tokens_def
      scan_api_keys_def scan_random_def scan_paths_def runs_def
    by (subst sample_no_runs; simp add: sample_classes)+
  moreover have "scan_plates sample_text = []"
    by (simp add: scan_plates_def sample_text_def plate_at_def PLATE_PROVINCES_def)
  moreover have "scan_emails sample_text = []" by (simp add: scan_emails_def sample_text_def email_at_def)
  moreover have "find_units sample_text 0 (ascii ''-----BEGIN '') = None"
    by (simp add: find_units_def sample_text_def)
  then have "scan_private_keys sample_text = []" by (simp add: scan_private_keys_def private_keys_from.simps)
  ultimately show ?thesis
    by (simp add: scan_plain_def scan_identifiers_def scan_secrets_def sort_dedup_def)
qed

lemma sample_scan: "l0_scan id sample_text = []"
proof -
  have "runs base64_member sample_text = []" unfolding runs_def by (rule sample_no_runs) (simp_all add: sample_classes)
  moreover have "decode_percent sample_text = None"
    by (simp add: decode_percent_def percent_from.simps percent_char_def percent_byte_def sample_text_def)
  ultimately show ?thesis by (simp add: l0_scan_def scan_decoded_def sample_plain sort_dedup_def)
qed

lemma sample_views:
  "n_units (fold_keeping_ignorables sample_text) = sample_text" "n_units (normalize sample_text) = sample_text"
  "n_units (fold_digits_and_homoglyphs sample_text) = sample_text" "skip_short_escape_digits sample_text k = None"
  by (simp_all add: fold_keeping_ignorables_def normalize_def fold_digits_and_homoglyphs_def rewrite_def view_of_def
      sample_text_def is_high_surrogate_def is_default_ignorable_def fold_bmp_def fold_width_units_def
      decimal_digit_zero_def DIGIT_ZEROS_def latin_confusable_def LATIN_CONFUSABLES_def
      skip_short_escape_digits_def skip_from.simps)

lemma sample_allowed: "r_action (inspect id sample_text open_ctx) = Allow"
proof -
  have "scan_all_views (l0_scan id) (utf16 sample_text) = []"
    by (simp add: scan_all_views_def all_view_hits_def scan_view_def folded_hits_def drop_folded_malformed_hkid_def
        sample_units sample_views sample_scan identity_view_def)
  moreover have "\<not> contains_base64_data_url sample_text"
    by (simp add: contains_base64_data_url_def sample_text_def ascii_def to_lower_def is_upper_def)
  moreover have "\<not> exceeds_limit sample_text (max_input_utf16 open_ctx)"
    by (simp add: exceeds_limit_def sample_units open_ctx_def)
  ultimately show ?thesis by (simp add: allow_iff open_ctx_def)
qed


end
