(* ===== verification/Residency.thy ===== *)
theory Residency
  imports Capacity Eviction Contracts "HOL-Library.AList"
begin

text \<open>
  What the supervisor knows about the engine's memory
  (\<^verbatim>\<open>crates/idoris-backend/src/supervisor.rs\<close>, \<open>ModelSlot\<close>, \<open>Env\<close> and the functions over
  them): one slot per model id, the aggregate the engine itself reports, and this runtime's claim
  on the process-wide ledger.

  A \<open>HashMap\<close> is an association list in the map's iteration order, which decides the order of the
  floating-point sums. \<open>CapacityCharge\<close> is its \<open>u128\<close>. A method that mutates \<open>Env\<close> returns the
  new one beside its result.
\<close>

section \<open>Types\<close>

datatype pressure = PressureOk | PressureSoft | PressureHard | PressureCeiling | PressureUnknown

record backend_status =
  bs_pressure :: pressure
  bs_used_gb :: f64
  bs_model_memory_max_gb :: f64
  bs_loaded :: "string list"

record slot =
  sl_memory_gb :: f64
  sl_charge :: u128
  sl_state :: model_state
  sl_last_used_seq :: u64
  sl_policy :: load_policy
  sl_inflight :: u32
  sl_unconfirmed :: bool
  sl_inherited :: bool

type_synonym slots = "(string \<times> slot) list"

record previous_model =
  pm_state :: model_state
  pm_policy :: load_policy
  pm_memory_gb :: f64
  pm_charge :: u128
  pm_inherited :: bool

record tracking =
  tr_ledger :: capacity_ledger
  tr_key :: string
  tr_claimed_gb :: f64
  tr_exact_claim :: "u128 option"

record env =
  env_budget_gb :: f64
  env_reserved_gb :: f64
  env_covered :: "(string \<times> f64) list"
  env_capacity :: "tracking option"
  env_startup_error :: "backend_error option"

definition at_least_soft :: "pressure \<Rightarrow> bool" where
  "at_least_soft p \<longleftrightarrow> p \<noteq> PressureOk"

section \<open>Error texts\<close>

text \<open>\<open>Display\<close> of \<open>BackendError\<close>, with its arguments unprinted.\<close>

fun display_error :: "backend_error \<Rightarrow> message" where
  "display_error (ModelNotFound m) = [Text ''model not found: '', Text m]"
| "display_error (ModelLoading m) = [Text ''model still loading: '', Text m]"
| "display_error (ModelUnavailable m) = [Text ''model unavailable: '', Text m]"
| "display_error (EvictionImpossible m) = [Text ''cannot admit '', Text m, Text '': no viable eviction plan'']"
| "display_error (EvictionFailed m) =
     [Text ''eviction failed while admitting '', Text m, Text '': a chosen victim's unload failed'']"
| "display_error (Oom m) = [Text ''out of memory while loading '', Text m]"
| "display_error (HeadroomConfirmationRequired m) =
     [Text ''loading '', Text m, Text '' needs the reserved memory headroom; explicit confirmation required'']"
| "display_error (ProbeTimedOut m) = [Text ''timed out waiting for '', Text m, Text '' to become ready'']"
| "display_error (AdapterTimedOut m) = [Text ''adapter call for '', Text m, Text '' timed out'']"
| "display_error (AdapterPanicked m e) = [Text ''adapter call for '', Text m, Text '' panicked: ''] @ e"
| "display_error (LoadUnconfirmed m e) = [Text ''load of '', Text m, Text '' not confirmed: ''] @ e"
| "display_error (LoadPostconditionFailed m e) = [Text ''load postcondition failed for '', Text m, Text '': ''] @ e"
| "display_error (Upstream e) = Text ''upstream error: '' # e"
| "display_error Cancelled = [Text ''request cancelled'']"
| "display_error (InvalidRequest e) = Text ''invalid request: '' # e"
| "display_error SupervisorUnavailable = [Text ''supervisor is not running'']"
| "display_error (Busy r _ _) = Text ''supervisor busy: '' # r"
| "display_error (InvariantViolation e) = Text ''internal invariant violated: '' # e"
| "display_error (LockPoisoned e) = Text ''internal lock poisoned: '' # e"
| "display_error (Internal e) = Text ''internal backend error: '' # e"

section \<open>Accounting\<close>

definition sum_gb :: "slot list \<Rightarrow> f64" where
  "sum_gb ss = f64_sum (map sl_memory_gb (filter (\<lambda>s. occupies_budget (sl_state s)) ss))"

text \<open>A slot an aggregate snapshot can already contain: it occupies memory and its load is over.\<close>

definition covers_aggregate :: "slot \<Rightarrow> bool" where
  "covers_aggregate s \<longleftrightarrow> occupies_budget (sl_state s) \<and> \<not> sl_unconfirmed s"

fun covered_charge :: "slots \<Rightarrow> (string \<times> f64) list \<Rightarrow> u128 \<Rightarrow> backend_error + u128" where
  "covered_charge ms [] acc = Inr acc"
| "covered_charge ms ((i, credit) # cs) acc =
     bind_result
       (case map_of ms i of
          Some s \<Rightarrow> if covers_aggregate s
                    then bind_result (charge_from_gb credit) (\<lambda>c. Inr (min (sl_charge s) c)) else Inr 0
        | None \<Rightarrow> Inr 0) (\<lambda>charge.
     bind_result (charge_checked_add acc charge) (\<lambda>sum'. covered_charge ms cs sum'))"

definition exact_reserved_charge :: "env \<Rightarrow> slots \<Rightarrow> backend_error + u128" where
  "exact_reserved_charge E ms =
     bind_result (covered_charge ms (env_covered E) 0) (\<lambda>covered.
     bind_result (charge_from_gb (env_reserved_gb E)) (\<lambda>reserved.
     Inr (charge_saturating_sub reserved covered)))"

fun add_charges :: "slot list \<Rightarrow> u128 \<Rightarrow> backend_error + u128" where
  "add_charges [] acc = Inr acc"
| "add_charges (s # ss) acc =
     (if occupies_budget (sl_state s)
      then bind_result (charge_checked_add acc (sl_charge s)) (\<lambda>sum'. add_charges ss sum')
      else add_charges ss acc)"

definition exact_charge :: "env \<Rightarrow> slots \<Rightarrow> slot list \<Rightarrow> backend_error + u128" where
  "exact_charge E ms ss = bind_result (exact_reserved_charge E ms) (\<lambda>reserved. add_charges ss reserved)"

definition effective_reserved_gb_except :: "env \<Rightarrow> slots \<Rightarrow> string option \<Rightarrow> f64" where
  "effective_reserved_gb_except E ms excluded =
     (let credit = (\<lambda>(i, credited_gb). case map_of ms i of
            Some s \<Rightarrow> if covers_aggregate s then Some (f64_min (sl_memory_gb s) credited_gb) else None
          | None \<Rightarrow> None)
      in f64_max (f64_sub (env_reserved_gb E)
           (f64_sum (List.map_filter credit (filter (\<lambda>(i, _). excluded \<noteq> Some i) (env_covered E))))) f64_zero)"

definition effective_reserved_gb :: "env \<Rightarrow> slots \<Rightarrow> f64" where
  "effective_reserved_gb E ms = effective_reserved_gb_except E ms None"

definition accounted_gb :: "env \<Rightarrow> slots \<Rightarrow> f64" where
  "accounted_gb E ms = f64_add (sum_gb (map snd ms)) (effective_reserved_gb E ms)"

definition ledger_used_except :: "slots \<Rightarrow> string \<Rightarrow> f64" where
  "ledger_used_except ms exclude = sum_gb (map snd (filter (\<lambda>(i, _). i \<noteq> exclude) ms))"

definition refresh_aggregate_except ::
    "slots \<Rightarrow> backend_status \<Rightarrow> string option \<Rightarrow> f64 \<Rightarrow> env \<Rightarrow> env" where
  "refresh_aggregate_except ms status excluded excluded_credit_gb E =
     (let cover = fold (\<lambda>i c. case map_of ms i of
            Some s \<Rightarrow> if excluded \<noteq> Some i \<and> covers_aggregate s then AList.update i (sl_memory_gb s) c else c
          | None \<Rightarrow> c) (bs_loaded status) [];
          cover' = (case excluded of
            Some i \<Rightarrow> if f64_lt f64_zero excluded_credit_gb \<and> i \<in> set (bs_loaded status)
                      then AList.update i excluded_credit_gb cover else cover
          | None \<Rightarrow> cover)
      in E\<lparr>env_reserved_gb := bs_used_gb status, env_covered := cover'\<rparr>)"

definition refresh_aggregate :: "slots \<Rightarrow> backend_status \<Rightarrow> env \<Rightarrow> env" where
  "refresh_aggregate ms status E = refresh_aggregate_except ms status None f64_zero E"

section \<open>The runtime's claim on the shared ledger\<close>

definition record_observed_claim :: "f64 \<Rightarrow> tracking \<Rightarrow> (backend_error + unit) \<times> tracking" where
  "record_observed_claim gb t =
     (case tr_exact_claim t of
        None \<Rightarrow> (Inr (), t\<lparr>tr_claimed_gb := gb\<rparr>)
      | Some _ \<Rightarrow> (case charge_from_gb gb of
            Inl e \<Rightarrow> (Inl e, t)
          | Inr c \<Rightarrow> (Inr (), t\<lparr>tr_exact_claim := Some c, tr_claimed_gb := gb\<rparr>)))"

definition claim_tracking :: "f64 \<Rightarrow> u128 option \<Rightarrow> bool \<Rightarrow> tracking \<Rightarrow> (backend_error + unit) \<times> tracking" where
  "claim_tracking planned_gb planned_charge allow t =
     (case tr_exact_claim t of
        Some current \<Rightarrow>
          (case planned_charge of
             None \<Rightarrow> (Inl (InvariantViolation [Text ''missing exact load charge'']), t)
           | Some planned \<Rightarrow>
               let (r, L) = claim_charge (tr_key t) current planned allow (tr_ledger t)
               in (r, if is_ok r then t\<lparr>tr_ledger := L, tr_exact_claim := Some (max current planned)\<rparr>
                      else t\<lparr>tr_ledger := L\<rparr>))
      | None \<Rightarrow>
          let next_gb = f64_max (tr_claimed_gb t) planned_gb in
          if f64_eq next_gb (tr_claimed_gb t) then (Inr (), t)
          else let (r, L) = resize (tr_key t) (Some (tr_claimed_gb t)) (Some next_gb) (tr_ledger t)
               in (r, if is_ok r then t\<lparr>tr_ledger := L, tr_claimed_gb := next_gb\<rparr> else t\<lparr>tr_ledger := L\<rparr>))"

definition claim_runtime_capacity ::
    "f64 \<Rightarrow> u128 option \<Rightarrow> bool \<Rightarrow> env \<Rightarrow> (backend_error + unit) \<times> env" where
  "claim_runtime_capacity planned_gb planned_charge allow E =
     (case env_capacity E of
        None \<Rightarrow> (Inr (), E)
      | Some t \<Rightarrow> let (r, t') = claim_tracking planned_gb planned_charge allow t
                  in (r, E\<lparr>env_capacity := Some t'\<rparr>))"

abbreviation claim_exceeded :: backend_error where
  "claim_exceeded \<equiv> InvariantViolation [Text ''runtime capacity exceeded its admitted global claim'']"

definition settle_exact :: "bool \<Rightarrow> u128 \<Rightarrow> u128 \<Rightarrow> tracking \<Rightarrow> (backend_error + unit) \<times> tracking" where
  "settle_exact unconfirmed current accounted t =
     (if current < accounted \<or> \<not> unconfirmed then
        let (r, L) = update_charge (tr_key t) (Some current) accounted (accounted \<le> current) (tr_ledger t)
        in if \<not> is_ok r then (r, t\<lparr>tr_ledger := L\<rparr>)
           else (if current < accounted \<and> \<not> unconfirmed then Inl claim_exceeded else Inr (),
                 t\<lparr>tr_ledger := L, tr_exact_claim := Some accounted\<rparr>)
      else (Inr (), t))"

definition settle_estimate :: "bool \<Rightarrow> f64 \<Rightarrow> tracking \<Rightarrow> (backend_error + unit) \<times> tracking" where
  "settle_estimate unconfirmed accounted t =
     (if f64_le (f64_abs (f64_sub accounted (tr_claimed_gb t))) CAPACITY_EPSILON_GB then (Inr (), t)
      else if f64_lt (tr_claimed_gb t) accounted then
        let (r, L) = adopt_observed (tr_key t) (Some (tr_claimed_gb t)) accounted (tr_ledger t)
        in if \<not> is_ok r then (r, t\<lparr>tr_ledger := L\<rparr>)
           else (if unconfirmed then Inr () else Inl claim_exceeded, t\<lparr>tr_ledger := L, tr_claimed_gb := accounted\<rparr>)
      else if \<not> unconfirmed then
        let (r, L) = resize (tr_key t) (Some (tr_claimed_gb t)) (Some accounted) (tr_ledger t)
        in if \<not> is_ok r then (r, t\<lparr>tr_ledger := L\<rparr>)
           else (Inr (), t\<lparr>tr_ledger := L, tr_claimed_gb := accounted\<rparr>)
      else (Inr (), t))"

definition settle_runtime_capacity :: "slots \<Rightarrow> env \<Rightarrow> (backend_error + unit) \<times> env" where
  "settle_runtime_capacity ms E =
     (case env_capacity E of
        None \<Rightarrow> (Inr (), E)
      | Some t \<Rightarrow>
          let unconfirmed = list_ex (\<lambda>(_, s). sl_unconfirmed s) ms in
          (case tr_exact_claim t of
             Some current \<Rightarrow>
               (case exact_charge E ms (map snd ms) of
                  Inl e \<Rightarrow> (Inl e, E)
                | Inr accounted \<Rightarrow>
                    let (r, t') = settle_exact unconfirmed current accounted t in (r, E\<lparr>env_capacity := Some t'\<rparr>))
           | None \<Rightarrow>
               let (r, t') = settle_estimate unconfirmed (accounted_gb E ms) t in (r, E\<lparr>env_capacity := Some t'\<rparr>)))"

section \<open>What the planner sees\<close>

definition slot_pinned :: "slot \<Rightarrow> bool" where
  "slot_pinned s \<longleftrightarrow> sl_unconfirmed s \<or> sl_inherited s \<or> lp_keepalive (sl_policy s) = Pinned True"

definition model_entry_of :: "string \<times> slot \<Rightarrow> model_entry" where
  "model_entry_of p = (case p of (i, s) \<Rightarrow>
     \<lparr>m_id = i, memory_gb = sl_memory_gb s, m_state = sl_state s, pinned = slot_pinned s,
      last_used_seq = sl_last_used_seq s, inflight = sl_inflight s\<rparr>)"

definition build_snapshot :: "slots \<Rightarrow> f64 \<Rightarrow> string \<Rightarrow> snapshot" where
  "build_snapshot ms budget exclude =
     \<lparr>budget_gb = budget, models = map model_entry_of (filter (\<lambda>(i, _). i \<noteq> exclude) ms)\<rparr>"

text \<open>\<open>map_plan_error\<close>: the snapshot containing the request itself is a panic, \<open>None\<close>.\<close>

fun map_plan_error :: "plan_error \<Rightarrow> string \<Rightarrow> backend_error option" where
  "map_plan_error (InsufficientCapacity _ _ _ _) i = Some (EvictionImpossible i)"
| "map_plan_error (InvalidCapacity field v) i =
     Some (InvalidRequest [Text ''invalid capacity for '', Text field, Text '': '', Float v])"
| "map_plan_error (SnapshotContainsRequestedModel _) i = None"

definition previous_of :: "slot \<Rightarrow> previous_model" where
  "previous_of s = \<lparr>pm_state = sl_state s, pm_policy = sl_policy s, pm_memory_gb = sl_memory_gb s,
     pm_charge = sl_charge s, pm_inherited = sl_inherited s\<rparr>"

end
