(* ===== verification/Load_Flow.thy ===== *)
theory Load_Flow
  imports Residency
begin

text \<open>
  The background half of the supervisor (\<^verbatim>\<open>crates/idoris-backend/src/supervisor.rs\<close>):
  \<open>run_load_flow\<close> with its helpers, and the unload task. The engine behind the adapter is a
  parameter: a record of functions that answer a call from the whole history of calls made so far,
  newest first, so that every behaviour in time is some engine. A call returns, hangs until the
  deadline, or panics; a panic unwinds the flow, and the task that awaits it turns it into an outcome.
  Waiting between polls is not recorded.
\<close>

section \<open>The engine and the calls\<close>

datatype call =
    LoadCall string load_policy
  | UnloadCall string
  | StatusCall
  | ProbeCall string
  | FenceClear

datatype 'a answer = Answered "backend_error + 'a" | TimedOut | Panicked message

record engine =
  eng_load :: "call list \<Rightarrow> unit answer"
  eng_unload :: "call list \<Rightarrow> unit answer"
  eng_status :: "call list \<Rightarrow> backend_status answer"
  eng_probe :: "call list \<Rightarrow> bool answer"
  eng_fence_clear :: "call list \<Rightarrow> backend_error + unit"

record poll_limits =
  probe_max_attempts :: u32
  release_confirm_max_attempts :: u32

type_synonym 'a flow = "call list \<Rightarrow> (message + 'a) \<times> call list"

definition flow_return :: "'a \<Rightarrow> 'a flow" where
  "flow_return x h = (Inr x, h)"

definition flow_bind :: "'a flow \<Rightarrow> ('a \<Rightarrow> 'b flow) \<Rightarrow> 'b flow" where
  "flow_bind f g h = (case f h of (Inl m, h') \<Rightarrow> (Inl m, h') | (Inr x, h') \<Rightarrow> g x h')"

definition with_adapter_timeout :: "call \<Rightarrow> (call list \<Rightarrow> 'a answer) \<Rightarrow> string \<Rightarrow> (backend_error + 'a) flow" where
  "with_adapter_timeout c answers label h =
     (case answers (c # h) of
        Answered r \<Rightarrow> (Inr r, c # h)
      | TimedOut \<Rightarrow> (Inr (Inl (AdapterTimedOut label)), c # h)
      | Panicked m \<Rightarrow> (Inl m, c # h))"

definition clear_fence :: "engine \<Rightarrow> (backend_error + unit) flow" where
  "clear_fence E h = (Inr (eng_fence_clear E (FenceClear # h)), FenceClear # h)"

section \<open>Outcomes\<close>

datatype failure_outcome =
    Settle model_state
  | SettleReleased backend_status
  | RestorePrevious previous_model
  | RetainPreviousOnError previous_model
  | RetainUnconfirmedLoad "previous_model option"

record load_outcome =
  lo_result :: "backend_error + unit"
  lo_victims :: "(string \<times> (backend_error + unit)) list"
  lo_aggregate :: "backend_status option"
  lo_target_credit_gb :: f64
  lo_failure :: failure_outcome

datatype op_outcome =
    LoadOutcome load_outcome
  | UnloadOutcome "backend_error + unit" "backend_status option"

record load_task =
  lt_id :: string
  lt_policy :: load_policy
  lt_evict :: "string list"
  lt_previous :: "previous_model option"
  lt_target_absent_gb :: f64
  lt_after_eviction_gb :: f64
  lt_inherited :: bool

definition after_release :: "model_state \<Rightarrow> previous_model option \<Rightarrow> failure_outcome" where
  "after_release st previous =
     (case previous of
        Some p \<Rightarrow> if occupies_budget st then RetainPreviousOnError p else Settle st
      | None \<Rightarrow> Settle st)"

section \<open>Confirming a release\<close>

definition release_shown :: "string list \<Rightarrow> f64 \<Rightarrow> backend_status \<Rightarrow> bool" where
  "release_shown targets max_used_gb st \<longleftrightarrow>
     f64_is_finite (bs_used_gb st) \<and> f64_le f64_zero (bs_used_gb st)
     \<and> (f64_lt f64_zero (bs_used_gb st) \<or> bs_loaded st = [])
     \<and> f64_le (bs_used_gb st) (f64_add max_used_gb CAPACITY_EPSILON_GB)
     \<and> list_all (\<lambda>i. i \<notin> set (bs_loaded st)) targets"

fun confirm_attempts :: "engine \<Rightarrow> string list \<Rightarrow> f64 \<Rightarrow> nat \<Rightarrow> (backend_error + backend_status) flow" where
  "confirm_attempts E targets max_used_gb 0 =
     flow_return (Inl (Internal [Text ''memory release could not be confirmed'']))"
| "confirm_attempts E targets max_used_gb (Suc n) =
     flow_bind (with_adapter_timeout StatusCall (eng_status E) ''status'') (\<lambda>r.
       case r of
         Inr st \<Rightarrow> if release_shown targets max_used_gb st then flow_return (Inr st)
                   else confirm_attempts E targets max_used_gb n
       | Inl _ \<Rightarrow> confirm_attempts E targets max_used_gb n)"

definition confirm_memory_released ::
    "engine \<Rightarrow> poll_limits \<Rightarrow> string list \<Rightarrow> f64 \<Rightarrow> (backend_error + backend_status) flow" where
  "confirm_memory_released E cfg targets max_used_gb =
     confirm_attempts E targets max_used_gb (unat (release_confirm_max_attempts cfg))"

definition best_effort_release :: "engine \<Rightarrow> poll_limits \<Rightarrow> string \<Rightarrow> f64 \<Rightarrow> backend_status option flow" where
  "best_effort_release E cfg i max_used_gb =
     flow_bind (with_adapter_timeout (UnloadCall i) (eng_unload E) i) (\<lambda>r.
       if \<not> is_ok r then flow_return None
       else flow_bind (confirm_memory_released E cfg [i] max_used_gb) (\<lambda>c.
         flow_return (case c of Inr st \<Rightarrow> Some st | Inl _ \<Rightarrow> None)))"

section \<open>A failed load\<close>

text \<open>The engine may still be executing the load after these errors.\<close>

fun load_unresolved :: "backend_error \<Rightarrow> bool" where
  "load_unresolved (AdapterTimedOut _) = True"
| "load_unresolved (LoadUnconfirmed _ _) = True"
| "load_unresolved _ = False"

fun is_postcondition_failure :: "backend_error \<Rightarrow> bool" where
  "is_postcondition_failure (LoadPostconditionFailed _ _) = True"
| "is_postcondition_failure _ = False"

definition resolve_load_failure ::
    "engine \<Rightarrow> poll_limits \<Rightarrow> string \<Rightarrow> backend_error \<Rightarrow> previous_model option \<Rightarrow> f64 \<Rightarrow> failure_outcome flow" where
  "resolve_load_failure E cfg i err previous release_limit_gb =
     (if is_postcondition_failure err then
        flow_bind (best_effort_release E cfg i release_limit_gb) (\<lambda>r.
          flow_return (case r of Some st \<Rightarrow> SettleReleased st | None \<Rightarrow> after_release MError previous))
      else if load_unresolved err then
        flow_bind (best_effort_release E cfg i release_limit_gb) (\<lambda>_.
          flow_return (RetainUnconfirmedLoad previous))
      else flow_return (case previous of Some p \<Rightarrow> RestorePrevious p | None \<Rightarrow> Settle Stopped))"

text \<open>Settle on an outcome if the durable fence can be cleared, else keep the load unconfirmed.\<close>

definition settle_if_cleared :: "engine \<Rightarrow> previous_model option \<Rightarrow> failure_outcome \<Rightarrow> failure_outcome flow" where
  "settle_if_cleared E previous f =
     flow_bind (clear_fence E) (\<lambda>c. flow_return (if is_ok c then f else RetainUnconfirmedLoad previous))"

record progress =
  pg_victims :: "(string \<times> (backend_error + unit)) list"
  pg_aggregate :: "backend_status option"
  pg_credit_gb :: f64

definition report :: "progress \<Rightarrow> backend_error + unit \<Rightarrow> failure_outcome \<Rightarrow> load_outcome" where
  "report p r f = \<lparr>lo_result = r, lo_victims = pg_victims p, lo_aggregate = pg_aggregate p,
     lo_target_credit_gb = pg_credit_gb p, lo_failure = f\<rparr>"

definition load_failed ::
    "engine \<Rightarrow> poll_limits \<Rightarrow> load_task \<Rightarrow> previous_model option \<Rightarrow> progress \<Rightarrow> backend_error \<Rightarrow> load_outcome flow" where
  "load_failed E cfg T previous p err =
     flow_bind (resolve_load_failure E cfg (lt_id T) err previous (lt_target_absent_gb T)) (\<lambda>f.
     flow_bind (if load_unresolved err then flow_return f else settle_if_cleared E previous f) (\<lambda>f'.
     flow_return (report p (Inl err) f')))"

section \<open>The stages of a load\<close>

fun unload_victims :: "engine \<Rightarrow> string list \<Rightarrow> (string \<times> (backend_error + unit)) list flow" where
  "unload_victims E [] = flow_return []"
| "unload_victims E (v # vs) =
     flow_bind (with_adapter_timeout (UnloadCall v) (eng_unload E) v) (\<lambda>r.
     flow_bind (unload_victims E vs) (\<lambda>rs. flow_return ((v, r) # rs)))"

definition confirm_victims ::
    "engine \<Rightarrow> poll_limits \<Rightarrow> load_task \<Rightarrow> (string \<times> (backend_error + unit)) list \<Rightarrow> (progress \<times> bool) flow" where
  "confirm_victims E cfg T rs =
     (let credit = (case lt_previous T of None \<Rightarrow> f64_zero | Some m \<Rightarrow> pm_memory_gb m);
          failed = list_ex (\<lambda>(_, r). \<not> is_ok r) rs
      in if lt_evict T = []
         then flow_return (\<lparr>pg_victims = rs, pg_aggregate = None, pg_credit_gb = credit\<rparr>, failed)
         else flow_bind (confirm_memory_released E cfg (lt_evict T) (lt_after_eviction_gb T)) (\<lambda>c.
           flow_return (case c of
             Inr st \<Rightarrow> (\<lparr>pg_victims = rs, pg_aggregate = Some st, pg_credit_gb = credit\<rparr>, failed)
           | Inl _ \<Rightarrow> (\<lparr>pg_victims = map (\<lambda>(v, _). (v, Inl (EvictionFailed (lt_id T)))) rs,
                        pg_aggregate = None, pg_credit_gb = credit\<rparr>, True))))"

definition evict_stage :: "engine \<Rightarrow> poll_limits \<Rightarrow> load_task \<Rightarrow> (progress \<times> bool) flow" where
  "evict_stage E cfg T = flow_bind (unload_victims E (lt_evict T)) (confirm_victims E cfg T)"

definition eviction_failure :: "engine \<Rightarrow> poll_limits \<Rightarrow> load_task \<Rightarrow> progress \<Rightarrow> load_outcome flow" where
  "eviction_failure E cfg T p =
     flow_bind (resolve_load_failure E cfg (lt_id T) (EvictionFailed (lt_id T)) (lt_previous T)
         (lt_target_absent_gb T)) (\<lambda>f.
     flow_bind (settle_if_cleared E (lt_previous T) f) (\<lambda>f'.
     flow_return (report p (Inl (EvictionFailed (lt_id T))) f')))"

definition verify_inherited :: "engine \<Rightarrow> load_task \<Rightarrow> bool flow" where
  "verify_inherited E T =
     flow_bind (with_adapter_timeout StatusCall (eng_status E) ''startup/inherited-status'') (\<lambda>r.
       let identified = (case r of
           Inr st \<Rightarrow> f64_is_finite (bs_used_gb st) \<and> f64_lt f64_zero (bs_used_gb st)
             \<and> f64_le (bs_used_gb st) (f64_add (lt_after_eviction_gb T) CAPACITY_EPSILON_GB)
             \<and> lt_id T \<in> set (bs_loaded st)
         | Inl _ \<Rightarrow> False)
       in if \<not> identified then flow_return False
          else flow_bind (with_adapter_timeout (ProbeCall (lt_id T)) (eng_probe E) (lt_id T)) (\<lambda>q.
            flow_return (q = Inr True)))"

fun probe_loop ::
    "engine \<Rightarrow> poll_limits \<Rightarrow> load_task \<Rightarrow> previous_model option \<Rightarrow> progress \<Rightarrow> nat \<Rightarrow> load_outcome flow" where
  "probe_loop E cfg T previous p 0 =
     flow_bind (best_effort_release E cfg (lt_id T) (lt_target_absent_gb T)) (\<lambda>_.
     flow_return (report p (Inl (ProbeTimedOut (lt_id T))) (RetainUnconfirmedLoad previous)))"
| "probe_loop E cfg T previous p (Suc n) =
     flow_bind (with_adapter_timeout (ProbeCall (lt_id T)) (eng_probe E) (lt_id T)) (\<lambda>q.
       case q of
         Inr True \<Rightarrow>
           flow_bind (clear_fence E) (\<lambda>c.
             flow_return (case c of
               Inl e \<Rightarrow> report p (Inl e) (RetainUnconfirmedLoad previous)
             | Inr _ \<Rightarrow> report p (Inr ()) (Settle MError)))
       | Inr False \<Rightarrow> probe_loop E cfg T previous p n
       | Inl err \<Rightarrow>
           flow_bind (best_effort_release E cfg (lt_id T) (lt_target_absent_gb T)) (\<lambda>_.
           flow_return (report p (Inl err) (RetainUnconfirmedLoad previous))))"

definition after_attempt ::
    "engine \<Rightarrow> poll_limits \<Rightarrow> load_task \<Rightarrow> previous_model option \<Rightarrow> progress \<Rightarrow> backend_error + unit \<Rightarrow> load_outcome flow" where
  "after_attempt E cfg T previous p attempt =
     (case attempt of
        Inl err \<Rightarrow> load_failed E cfg T previous p err
      | Inr _ \<Rightarrow> probe_loop E cfg T previous p (unat (probe_max_attempts cfg)))"

definition try_load :: "engine \<Rightarrow> load_task \<Rightarrow> (backend_error + unit) flow" where
  "try_load E T = with_adapter_timeout (LoadCall (lt_id T) (lt_policy T)) (eng_load E) (lt_id T)"

text \<open>The one retry after an out-of-memory answer.\<close>

definition oom_unreleased :: "engine \<Rightarrow> poll_limits \<Rightarrow> load_task \<Rightarrow> progress \<Rightarrow> backend_error \<Rightarrow> load_outcome flow" where
  "oom_unreleased E cfg T p err =
     flow_bind (best_effort_release E cfg (lt_id T) (lt_target_absent_gb T)) (\<lambda>cleanup.
     flow_bind (settle_if_cleared E (lt_previous T) (case cleanup of
         Some st \<Rightarrow> SettleReleased st | None \<Rightarrow> after_release MError (lt_previous T))) (\<lambda>f.
     flow_return (report p (Inl err) f)))"

definition oom_released ::
    "engine \<Rightarrow> poll_limits \<Rightarrow> load_task \<Rightarrow> progress \<Rightarrow> backend_error \<Rightarrow> backend_status \<Rightarrow> load_outcome flow" where
  "oom_released E cfg T p err st =
     (if lt_inherited T then
        flow_bind (settle_if_cleared E (lt_previous T) (SettleReleased st)) (\<lambda>f.
        flow_return (report p (Inl err) f))
      else
        flow_bind (try_load E T)
          (after_attempt E cfg T None (p\<lparr>pg_aggregate := Some st, pg_credit_gb := f64_zero\<rparr>)))"

definition oom_stage :: "engine \<Rightarrow> poll_limits \<Rightarrow> load_task \<Rightarrow> progress \<Rightarrow> backend_error \<Rightarrow> load_outcome flow" where
  "oom_stage E cfg T p err =
     flow_bind (confirm_memory_released E cfg [lt_id T] (lt_target_absent_gb T)) (\<lambda>release.
       case release of
         Inl _ \<Rightarrow> oom_unreleased E cfg T p err
       | Inr st \<Rightarrow> oom_released E cfg T p err st)"

definition after_first_attempt ::
    "engine \<Rightarrow> poll_limits \<Rightarrow> load_task \<Rightarrow> progress \<Rightarrow> backend_error + unit \<Rightarrow> load_outcome flow" where
  "after_first_attempt E cfg T p attempt =
     (case attempt of
        Inl err \<Rightarrow> if is_oom err then oom_stage E cfg T p err
                   else after_attempt E cfg T (lt_previous T) p attempt
      | Inr _ \<Rightarrow> after_attempt E cfg T (lt_previous T) p attempt)"

definition load_stage :: "engine \<Rightarrow> poll_limits \<Rightarrow> load_task \<Rightarrow> progress \<Rightarrow> load_outcome flow" where
  "load_stage E cfg T p = flow_bind (try_load E T) (after_first_attempt E cfg T p)"

definition inherited_unverified :: "engine \<Rightarrow> load_task \<Rightarrow> progress \<Rightarrow> load_outcome flow" where
  "inherited_unverified E T p =
     flow_bind (settle_if_cleared E (lt_previous T)
         (case lt_previous T of None \<Rightarrow> Settle Stopped | Some m \<Rightarrow> RestorePrevious m)) (\<lambda>f.
     flow_return (report p (Inl (ModelUnavailable (lt_id T))) f))"

definition admitted_load :: "engine \<Rightarrow> poll_limits \<Rightarrow> load_task \<Rightarrow> progress \<Rightarrow> load_outcome flow" where
  "admitted_load E cfg T p =
     flow_bind (if lt_inherited T then verify_inherited E T else flow_return True) (\<lambda>verified.
       if verified then load_stage E cfg T p else inherited_unverified E T p)"

definition run_load_flow :: "engine \<Rightarrow> poll_limits \<Rightarrow> load_task \<Rightarrow> load_outcome flow" where
  "run_load_flow E cfg T =
     flow_bind (evict_stage E cfg T) (\<lambda>(p, failed).
       if failed then eviction_failure E cfg T p else admitted_load E cfg T p)"

section \<open>The spawned tasks\<close>

definition panicked_load :: "load_task \<Rightarrow> message \<Rightarrow> load_outcome" where
  "panicked_load T m =
     \<lparr>lo_result = Inl (AdapterPanicked (lt_id T) m),
      lo_victims = map (\<lambda>v. (v, Inl (AdapterPanicked v
        [Text ''load task panicked mid-eviction; this victim's real state is unknown'']))) (lt_evict T),
      lo_aggregate = None, lo_target_credit_gb = f64_zero,
      lo_failure = RetainUnconfirmedLoad (lt_previous T)\<rparr>"

definition load_task_outcome :: "engine \<Rightarrow> poll_limits \<Rightarrow> load_task \<Rightarrow> load_outcome \<times> call list" where
  "load_task_outcome E cfg T =
     (case run_load_flow E cfg T [] of
        (Inr o', h) \<Rightarrow> (o', h)
      | (Inl m, h) \<Rightarrow> (panicked_load T m, h))"

definition unload_flow :: "engine \<Rightarrow> poll_limits \<Rightarrow> string \<Rightarrow> f64 \<Rightarrow> (backend_error + backend_status) flow" where
  "unload_flow E cfg i max_used_gb =
     flow_bind (with_adapter_timeout (UnloadCall i) (eng_unload E) i) (\<lambda>r.
       case r of
         Inl e \<Rightarrow> flow_return (Inl e)
       | Inr _ \<Rightarrow> confirm_memory_released E cfg [i] max_used_gb)"

definition unload_task_outcome :: "engine \<Rightarrow> poll_limits \<Rightarrow> string \<Rightarrow> f64 \<Rightarrow> op_outcome \<times> call list" where
  "unload_task_outcome E cfg i max_used_gb =
     (case unload_flow E cfg i max_used_gb [] of
        (Inr (Inr st), h) \<Rightarrow> (UnloadOutcome (Inr ()) (Some st), h)
      | (Inr (Inl e), h) \<Rightarrow> (UnloadOutcome (Inl e) None, h)
      | (Inl m, h) \<Rightarrow> (UnloadOutcome (Inl (AdapterPanicked i m)) None, h))"

end
