(* ===== verification/Load_Protocol.thy ===== *)
theory Load_Protocol
  imports Load_Flow
begin

text \<open>
  What the load flow promises the engine and the supervisor, as a monitor over the history of calls:
  each call is legal where it is made. A load is asked for only once every victim is seen to be
  gone, at most a second time and then only after an out-of-memory answer and a confirmed release,
  and the durable fence is cleared only when no load can still be running in the engine.
\<close>

section \<open>The monitor\<close>

fun open_load :: "engine \<Rightarrow> call list \<Rightarrow> bool" where
  "open_load E [] = False"
| "open_load E (c # h) =
     (case c of
        LoadCall _ _ \<Rightarrow> (case eng_load E (c # h) of Answered (Inl e) \<Rightarrow> load_unresolved e | _ \<Rightarrow> True)
      | ProbeCall _ \<Rightarrow> open_load E h \<and> eng_probe E (c # h) \<noteq> Answered (Inr True)
      | _ \<Rightarrow> open_load E h)"

fun load_count :: "call list \<Rightarrow> nat" where
  "load_count [] = 0"
| "load_count (c # h) = (case c of LoadCall _ _ \<Rightarrow> Suc (load_count h) | _ \<Rightarrow> load_count h)"

fun unloaded :: "engine \<Rightarrow> string \<Rightarrow> call list \<Rightarrow> bool" where
  "unloaded E v [] = False"
| "unloaded E v (c # h) =
     (c = UnloadCall v \<and> eng_unload E (c # h) = Answered (Inr ()) \<or> unloaded E v h)"

fun released :: "engine \<Rightarrow> string list \<Rightarrow> f64 \<Rightarrow> call list \<Rightarrow> bool" where
  "released E targets gb [] = False"
| "released E targets gb (c # h) =
     (c = StatusCall \<and> (case eng_status E (c # h) of
         Answered (Inr st) \<Rightarrow> release_shown targets gb st | _ \<Rightarrow> False) \<or> released E targets gb h)"

fun last_load_oom :: "engine \<Rightarrow> call list \<Rightarrow> bool" where
  "last_load_oom E [] = False"
| "last_load_oom E (c # h) =
     (case c of
        LoadCall _ _ \<Rightarrow> (case eng_load E (c # h) of Answered (Inl e) \<Rightarrow> is_oom e | _ \<Rightarrow> False)
      | _ \<Rightarrow> last_load_oom E h)"

text \<open>The last load was refused for memory, and after that its target was seen to be absent.\<close>

fun refused_and_released :: "engine \<Rightarrow> load_task \<Rightarrow> call list \<Rightarrow> bool" where
  "refused_and_released E T [] = False"
| "refused_and_released E T (c # h) =
     (case c of
        LoadCall _ _ \<Rightarrow> False
      | StatusCall \<Rightarrow> refused_and_released E T h \<or> last_load_oom E h
          \<and> (case eng_status E (c # h) of
               Answered (Inr st) \<Rightarrow> release_shown [lt_id T] (lt_target_absent_gb T) st | _ \<Rightarrow> False)
      | _ \<Rightarrow> refused_and_released E T h)"

definition victims_gone :: "engine \<Rightarrow> load_task \<Rightarrow> call list \<Rightarrow> bool" where
  "victims_gone E T h \<longleftrightarrow> list_all (\<lambda>v. unloaded E v h) (lt_evict T)
     \<and> (lt_evict T = [] \<or> released E (lt_evict T) (lt_after_eviction_gb T) h)"

fun allowed :: "engine \<Rightarrow> load_task \<Rightarrow> call \<Rightarrow> call list \<Rightarrow> bool" where
  "allowed E T (LoadCall i p) h \<longleftrightarrow> i = lt_id T \<and> p = lt_policy T \<and> victims_gone E T h
     \<and> (load_count h = 0 \<or> load_count h = 1 \<and> \<not> lt_inherited T \<and> refused_and_released E T h)"
| "allowed E T (UnloadCall v) h \<longleftrightarrow> v = lt_id T \<or> v \<in> set (lt_evict T)"
| "allowed E T StatusCall h \<longleftrightarrow> True"
| "allowed E T (ProbeCall i) h \<longleftrightarrow> i = lt_id T"
| "allowed E T FenceClear h \<longleftrightarrow> \<not> open_load E h"

fun legal :: "engine \<Rightarrow> load_task \<Rightarrow> call list \<Rightarrow> bool" where
  "legal E T [] = True"
| "legal E T (c # h) = (allowed E T c h \<and> legal E T h)"

fun fence_cleared :: "engine \<Rightarrow> call list \<Rightarrow> bool" where
  "fence_cleared E [] = False"
| "fence_cleared E (c # h) = (c = FenceClear \<and> is_ok (eng_fence_clear E (c # h)) \<or> fence_cleared E h)"

fun retains :: "failure_outcome \<Rightarrow> bool" where
  "retains (RetainUnconfirmedLoad _) = True"
| "retains _ = False"

text \<open>The outcome that lets the supervisor use or reuse the slot.\<close>

definition settled :: "load_outcome \<Rightarrow> bool" where
  "settled r \<longleftrightarrow> is_ok (lo_result r) \<or> \<not> retains (lo_failure r)"

section \<open>Specifications of flows\<close>

definition flow_spec :: "(call list \<Rightarrow> bool) \<Rightarrow> 'a flow \<Rightarrow> (message + 'a \<Rightarrow> call list \<Rightarrow> bool) \<Rightarrow> bool" where
  "flow_spec P f Q \<longleftrightarrow> (\<forall>h. P h \<longrightarrow> (case f h of (r, h') \<Rightarrow> Q r h'))"

lemma spec_return: "(\<And>h. P h \<Longrightarrow> Q (Inr x) h) \<Longrightarrow> flow_spec P (flow_return x) Q"
  by (simp add: flow_spec_def flow_return_def)

lemma spec_bind:
  assumes "flow_spec P f R" and "\<And>x. flow_spec (R (Inr x)) (g x) Q" and "\<And>m h. R (Inl m) h \<Longrightarrow> Q (Inl m) h"
  shows "flow_spec P (flow_bind f g) Q"
  using assms unfolding flow_spec_def flow_bind_def
  by (fastforce split: prod.splits sum.splits)

lemma spec_conseq:
  "flow_spec P' f Q' \<Longrightarrow> (\<And>h. P h \<Longrightarrow> P' h) \<Longrightarrow> (\<And>r h. Q' r h \<Longrightarrow> Q r h) \<Longrightarrow> flow_spec P f Q"
  unfolding flow_spec_def by fastforce

text \<open>A predicate that survives the calls that neither load nor clear the fence.\<close>

definition quiet :: "load_task \<Rightarrow> call \<Rightarrow> bool" where
  "quiet T c \<longleftrightarrow> c = StatusCall \<or> c = ProbeCall (lt_id T) \<or> c = UnloadCall (lt_id T)
     \<or> (\<exists>v \<in> set (lt_evict T). c = UnloadCall v)"

definition stable :: "load_task \<Rightarrow> (call list \<Rightarrow> bool) \<Rightarrow> bool" where
  "stable T P \<longleftrightarrow> (\<forall>c h. quiet T c \<longrightarrow> P h \<longrightarrow> P (c # h))"

lemma stable_conj: "stable T P \<Longrightarrow> stable T Q \<Longrightarrow> stable T (\<lambda>h. P h \<and> Q h)"
  by (simp add: stable_def)

lemma stable_const: "stable T (\<lambda>h. b)"
  by (simp add: stable_def)

lemma stable_imp: "stable T Q \<Longrightarrow> stable T (\<lambda>h. b \<longrightarrow> Q h)"
  by (simp add: stable_def)

lemma stable_monitor:
  "stable T (legal E T)" "stable T (\<lambda>h. \<not> fence_cleared E h)" "stable T (\<lambda>h. \<not> open_load E h)"
  "stable T (\<lambda>h. load_count h = n)" "stable T (unloaded E v)" "stable T (released E ts gb)"
  "stable T (last_load_oom E)" "stable T (refused_and_released E T)"
  by (auto simp: stable_def quiet_def)

lemma stable_victims_gone: "stable T (victims_gone E T)"
  using stable_monitor(5,6) unfolding stable_def victims_gone_def list_all_iff by blast

lemma spec_call:
  assumes "stable T P" "quiet T c"
  shows "flow_spec P (with_adapter_timeout c a l) (\<lambda>r h. P h)"
  using assms by (auto simp: flow_spec_def with_adapter_timeout_def stable_def split: answer.splits)

text \<open>What a confirmed release leaves in the history.\<close>

definition shows_release :: "load_task \<Rightarrow> engine \<Rightarrow> string list \<Rightarrow> f64 \<Rightarrow> call list \<Rightarrow> bool" where
  "shows_release T E ts gb h \<longleftrightarrow> released E ts gb h
     \<and> (ts = [lt_id T] \<longrightarrow> gb = lt_target_absent_gb T \<longrightarrow> last_load_oom E h \<longrightarrow> refused_and_released E T h)"

lemma spec_confirm_attempts:
  assumes "stable T P"
  shows "flow_spec P (confirm_attempts E ts gb n)
    (\<lambda>r h. P h \<and> (\<forall>st. r = Inr (Inr st) \<longrightarrow> shows_release T E ts gb h))"
proof (induction n)
  case 0
  show ?case by (auto simp: flow_spec_def flow_return_def)
next
  case (Suc n)
  let ?call = "with_adapter_timeout StatusCall (eng_status E) ''status''"
  have "flow_spec P ?call (\<lambda>r h. P h \<and> (\<forall>st. r = Inr (Inr st) \<longrightarrow> release_shown ts gb st \<longrightarrow> shows_release T E ts gb h))"
    using assms by (auto simp: flow_spec_def with_adapter_timeout_def stable_def quiet_def shows_release_def
      split: answer.splits)
  moreover have "flow_spec (\<lambda>h. P h \<and> (\<forall>st. x = Inr st \<longrightarrow> release_shown ts gb st \<longrightarrow> shows_release T E ts gb h))
      (case x of Inr st \<Rightarrow> if release_shown ts gb st then flow_return (Inr st) else confirm_attempts E ts gb n
       | Inl _ \<Rightarrow> confirm_attempts E ts gb n)
      (\<lambda>r h. P h \<and> (\<forall>st. r = Inr (Inr st) \<longrightarrow> shows_release T E ts gb h))" for x
    using Suc.IH by (auto simp: flow_spec_def flow_return_def split: sum.splits)
  ultimately show ?case
    by (simp, elim spec_bind) auto
qed

lemma spec_confirm:
  assumes "stable T P"
  shows "flow_spec P (confirm_memory_released E cfg ts gb)
    (\<lambda>r h. P h \<and> (\<forall>st. r = Inr (Inr st) \<longrightarrow> shows_release T E ts gb h))"
  using spec_confirm_attempts [OF assms] by (simp add: confirm_memory_released_def)

lemma spec_best_effort:
  assumes "stable T P"
  shows "flow_spec P (best_effort_release E cfg (lt_id T) gb) (\<lambda>r h. P h)"
  unfolding best_effort_release_def
proof (rule spec_bind [where R = "\<lambda>r h. P h"])
  show "flow_spec P (with_adapter_timeout (UnloadCall (lt_id T)) (eng_unload E) (lt_id T)) (\<lambda>r h. P h)"
    using assms by (rule spec_call) (simp add: quiet_def)
  show "flow_spec P (if \<not> is_ok x then flow_return None
      else flow_bind (confirm_memory_released E cfg [lt_id T] gb) (\<lambda>c.
        flow_return (case c of Inr st \<Rightarrow> Some st | Inl _ \<Rightarrow> None))) (\<lambda>r h. P h)" for x :: "backend_error + unit"
    by (cases "is_ok x") (auto intro!: spec_return spec_bind [OF spec_confirm [OF assms]])
qed

section \<open>The stages\<close>

definition legal_so_far :: "engine \<Rightarrow> load_task \<Rightarrow> call list \<Rightarrow> bool" where
  "legal_so_far E T h \<longleftrightarrow> legal E T h \<and> \<not> fence_cleared E h"

definition idle :: "engine \<Rightarrow> load_task \<Rightarrow> call list \<Rightarrow> bool" where
  "idle E T h \<longleftrightarrow> legal_so_far E T h \<and> \<not> open_load E h"

definition finished :: "engine \<Rightarrow> load_task \<Rightarrow> message + load_outcome \<Rightarrow> call list \<Rightarrow> bool" where
  "finished E T r h \<longleftrightarrow> legal E T h
     \<and> (case r of Inl _ \<Rightarrow> \<not> fence_cleared E h | Inr x \<Rightarrow> settled x \<longleftrightarrow> fence_cleared E h)"

lemma stable_legal_so_far: "stable T (legal_so_far E T)"
  using stable_monitor(1,2) [of T E] unfolding legal_so_far_def by (rule stable_conj)

lemma stable_idle: "stable T (idle E T)"
  using stable_legal_so_far stable_monitor(3) unfolding idle_def by (rule stable_conj)

lemma finished_panic: "legal_so_far E T h \<Longrightarrow> finished E T (Inl m) h"
  by (simp add: finished_def legal_so_far_def)

lemma idle_legal: "idle E T h \<Longrightarrow> legal_so_far E T h"
  by (simp add: idle_def)

lemma finished_unresolved:
  "legal_so_far E T h \<Longrightarrow> \<not> settled x \<Longrightarrow> finished E T (Inr x) h"
  by (simp add: finished_def legal_so_far_def)

lemma spec_settle:
  assumes "\<not> retains f"
  shows "flow_spec (idle E T) (settle_if_cleared E prev f)
    (\<lambda>r h. legal E T h \<and> (\<exists>f'. r = Inr f' \<and> (retains f' \<longleftrightarrow> \<not> fence_cleared E h)))"
  using assms by (simp add: flow_spec_def settle_if_cleared_def flow_bind_def clear_fence_def flow_return_def
    idle_def legal_so_far_def)

lemma spec_settle_report:
  assumes "\<not> retains f"
  shows "flow_spec (idle E T) (flow_bind (settle_if_cleared E prev f) (\<lambda>f'. flow_return (report p (Inl err) f')))
    (finished E T)"
  by (rule spec_bind [OF spec_settle [OF assms]])
     (auto simp: flow_spec_def flow_return_def finished_def settled_def report_def)

lemma retains_after_release: "\<not> retains (after_release st prev)"
  by (simp add: after_release_def split: option.split)

lemma postcondition_resolved: "is_postcondition_failure e \<Longrightarrow> \<not> load_unresolved e"
  by (cases e) auto

lemma spec_resolve:
  assumes "stable T P"
  shows "flow_spec P (resolve_load_failure E cfg (lt_id T) err prev gb)
    (\<lambda>r h. P h \<and> (\<forall>f. r = Inr f \<longrightarrow> (retains f \<longleftrightarrow> load_unresolved err)))"
  unfolding resolve_load_failure_def using postcondition_resolved [of err]
  by (auto intro!: spec_return spec_bind [OF spec_best_effort [OF assms]] simp: retains_after_release split: option.splits)

lemma spec_load_failed:
  "flow_spec (\<lambda>h. legal_so_far E T h \<and> (load_unresolved err \<or> \<not> open_load E h)) (load_failed E cfg T prev p err) (finished E T)"
proof (cases "load_unresolved err")
  case True
  show ?thesis
    unfolding load_failed_def
    by (rule spec_conseq [OF spec_bind [OF spec_resolve [OF stable_legal_so_far]]])
       (auto simp: True flow_spec_def flow_return_def flow_bind_def finished_panic finished_unresolved settled_def report_def)
next
  case False
  have "flow_spec (\<lambda>h. idle E T h \<and> \<not> retains f)
      (flow_bind (settle_if_cleared E prev f) (\<lambda>f'. flow_return (report p (Inl err) f'))) (finished E T)" for f
    using spec_settle_report [of f E T prev p err] by (cases "retains f") (auto simp: flow_spec_def)
  then show ?thesis
    unfolding load_failed_def
    by (intro spec_conseq [OF spec_bind [OF spec_resolve [OF stable_idle]]])
       (auto simp: False idle_def finished_panic)
qed

lemma spec_probe:
  "flow_spec (legal_so_far E T) (with_adapter_timeout (ProbeCall (lt_id T)) (eng_probe E) (lt_id T))
    (\<lambda>r h. legal_so_far E T h \<and> (r = Inr (Inr True) \<longrightarrow> \<not> open_load E h))"
  by (auto simp: flow_spec_def with_adapter_timeout_def legal_so_far_def split: answer.splits)

lemma spec_give_up:
  assumes "r \<noteq> Inr ()"
  shows "flow_spec (legal_so_far E T) (flow_bind (best_effort_release E cfg (lt_id T) gb) (\<lambda>_.
    flow_return (report p r (RetainUnconfirmedLoad prev)))) (finished E T)"
  using assms
  by (intro spec_bind [OF spec_best_effort [OF stable_legal_so_far]] spec_return)
     (cases r; auto simp: finished_unresolved finished_panic settled_def report_def)+

lemma spec_ready:
  "flow_spec (\<lambda>h. legal_so_far E T h \<and> \<not> open_load E h) (flow_bind (clear_fence E) (\<lambda>c. flow_return (case c of
       Inl e \<Rightarrow> report p (Inl e) (RetainUnconfirmedLoad prev) | Inr _ \<Rightarrow> report p (Inr ()) (Settle MError)))) (finished E T)"
  by (auto simp: flow_spec_def flow_bind_def clear_fence_def flow_return_def finished_def legal_so_far_def
    settled_def report_def split: sum.splits)

lemma spec_probe_loop: "flow_spec (legal_so_far E T) (probe_loop E cfg T prev p n) (finished E T)"
proof (induction n)
  case 0
  show ?case by (simp add: spec_give_up)
next
  case (Suc n)
  show ?case
    unfolding probe_loop.simps
  proof (rule spec_bind [OF spec_probe])
    fix q :: "backend_error + bool"
    consider e where "q = Inl e" | "q = Inr True" | "q = Inr False" by (cases q) auto
    then show "flow_spec (\<lambda>h. legal_so_far E T h \<and> (Inr q = (Inr (Inr True) :: message + _) \<longrightarrow> \<not> open_load E h))
      (case q of
         Inr True \<Rightarrow> flow_bind (clear_fence E) (\<lambda>c. flow_return (case c of
             Inl e \<Rightarrow> report p (Inl e) (RetainUnconfirmedLoad prev) | Inr _ \<Rightarrow> report p (Inr ()) (Settle MError)))
       | Inr False \<Rightarrow> probe_loop E cfg T prev p n
       | Inl err \<Rightarrow> flow_bind (best_effort_release E cfg (lt_id T) (lt_target_absent_gb T)) (\<lambda>_.
           flow_return (report p (Inl err) (RetainUnconfirmedLoad prev)))) (finished E T)"
      using spec_give_up [of _ E T cfg] spec_ready [of E T p prev] Suc.IH
      by cases auto
  qed (simp add: finished_panic)
qed

lemma spec_after_attempt:
  "flow_spec (\<lambda>h. legal_so_far E T h \<and> (\<forall>e. a = Inl e \<longrightarrow> load_unresolved e \<or> \<not> open_load E h))
    (after_attempt E cfg T prev p a) (finished E T)"
  using spec_load_failed [of E T] spec_probe_loop [of E T cfg prev p]
  by (cases a) (auto simp: after_attempt_def flow_spec_def)

lemma victims_gone_mono: "victims_gone E T h \<Longrightarrow> victims_gone E T (c # h)"
  by (auto simp: victims_gone_def list_all_iff)

definition may_load :: "engine \<Rightarrow> load_task \<Rightarrow> nat \<Rightarrow> call list \<Rightarrow> bool" where
  "may_load E T n h \<longleftrightarrow> idle E T h \<and> victims_gone E T h \<and> load_count h = n
     \<and> (n = 0 \<or> n = 1 \<and> \<not> lt_inherited T \<and> refused_and_released E T h)"

lemma oom_resolved: "is_oom e \<Longrightarrow> \<not> load_unresolved e"
  by (cases e) auto

lemma spec_try_load:
  "flow_spec (may_load E T n) (try_load E T) (\<lambda>r h. legal_so_far E T h \<and> victims_gone E T h \<and> load_count h = Suc n
     \<and> (\<forall>e. r = Inr (Inl e) \<longrightarrow> load_unresolved e \<or> \<not> open_load E h \<and> (is_oom e \<longrightarrow> last_load_oom E h)))"
  by (auto simp: flow_spec_def try_load_def with_adapter_timeout_def may_load_def idle_def legal_so_far_def
      victims_gone_mono split: answer.splits)

lemma spec_oom_unreleased: "flow_spec (idle E T) (oom_unreleased E cfg T p err) (finished E T)"
  unfolding oom_unreleased_def
  by (rule spec_bind [OF spec_best_effort [OF stable_idle] spec_settle_report])
     (auto simp: retains_after_release finished_panic idle_legal split: option.splits)

lemma spec_oom_released:
  "flow_spec (\<lambda>h. idle E T h \<and> (\<not> lt_inherited T \<longrightarrow> may_load E T 1 h)) (oom_released E cfg T p err st) (finished E T)"
proof (cases "lt_inherited T")
  case True
  then show ?thesis
    unfolding oom_released_def by (auto intro: spec_conseq [OF spec_settle_report])
next
  case False
  then show ?thesis
    unfolding oom_released_def if_not_P [OF False]
    by (intro spec_conseq [OF spec_bind [OF spec_try_load [of E T 1] spec_conseq [OF spec_after_attempt]]])
       (auto simp: finished_panic)
qed

lemma spec_oom_stage:
  "flow_spec (\<lambda>h. idle E T h \<and> victims_gone E T h \<and> load_count h = 1 \<and> last_load_oom E h)
    (oom_stage E cfg T p err) (finished E T)"
  unfolding oom_stage_def
proof (rule spec_bind [OF spec_confirm])
  show "stable T (\<lambda>h. idle E T h \<and> victims_gone E T h \<and> load_count h = 1 \<and> last_load_oom E h)"
    by (intro stable_conj stable_idle stable_victims_gone stable_monitor)
  fix x :: "backend_error + backend_status"
  show "flow_spec (\<lambda>h. (idle E T h \<and> victims_gone E T h \<and> load_count h = 1 \<and> last_load_oom E h)
       \<and> (\<forall>st. (Inr x :: message + _) = Inr (Inr st) \<longrightarrow> shows_release T E [lt_id T] (lt_target_absent_gb T) h))
     (case x of Inl _ \<Rightarrow> oom_unreleased E cfg T p err | Inr st \<Rightarrow> oom_released E cfg T p err st) (finished E T)"
    by (cases x) (auto intro: spec_conseq [OF spec_oom_unreleased] spec_conseq [OF spec_oom_released]
      simp: may_load_def shows_release_def)
qed (simp add: finished_panic idle_legal)

lemma spec_after_first_attempt:
  "flow_spec (\<lambda>h. legal_so_far E T h \<and> victims_gone E T h \<and> load_count h = 1
     \<and> (\<forall>e. a = Inl e \<longrightarrow> load_unresolved e \<or> \<not> open_load E h \<and> (is_oom e \<longrightarrow> last_load_oom E h)))
   (after_first_attempt E cfg T p a) (finished E T)"
  using oom_resolved unfolding after_first_attempt_def
  by (cases a) (auto intro!: spec_conseq [OF spec_after_attempt] spec_conseq [OF spec_oom_stage] simp: idle_def)

lemma spec_load_stage: "flow_spec (may_load E T 0) (load_stage E cfg T p) (finished E T)"
  unfolding load_stage_def
  by (rule spec_bind [OF spec_try_load spec_conseq [OF spec_after_first_attempt]]) (auto simp: finished_panic)

lemma spec_unload_victims:
  assumes "stable T P" "set vs \<subseteq> set (lt_evict T)"
  shows "flow_spec P (unload_victims E vs) (\<lambda>r h. P h \<and> (\<forall>rs. r = Inr rs \<longrightarrow> map fst rs = vs
    \<and> (\<forall>(v, x) \<in> set rs. is_ok x \<longrightarrow> unloaded E v h)))"
  using assms
proof (induction vs arbitrary: P)
  case Nil
  show ?case by (simp add: flow_spec_def flow_return_def)
next
  case (Cons v vs)
  let ?P = "\<lambda>x h. P h \<and> (is_ok x \<longrightarrow> unloaded E v h)"
  have P: "stable T (?P x)" for x :: "backend_error + unit"
    using Cons.prems(1) by (intro stable_conj stable_imp stable_monitor)
  have "flow_spec P (with_adapter_timeout (UnloadCall v) (eng_unload E) v) (\<lambda>r h. P h \<and> (\<forall>x. r = Inr x \<longrightarrow> ?P x h))"
    using Cons.prems by (auto simp: flow_spec_def with_adapter_timeout_def stable_def quiet_def
      split: answer.splits sum.splits elim: is_ok.elims)
  then show ?case
    unfolding unload_victims.simps
  proof (rule spec_bind)
    fix x :: "backend_error + unit"
    have "flow_spec (?P x) (flow_bind (unload_victims E vs) (\<lambda>rs. flow_return ((v, x) # rs)))
       (\<lambda>r h. P h \<and> (\<forall>rs. r = Inr rs \<longrightarrow> map fst rs = v # vs \<and> (\<forall>(v, x) \<in> set rs. is_ok x \<longrightarrow> unloaded E v h)))"
      using Cons.prems(2) by (intro spec_bind [OF Cons.IH [OF P]] spec_return) auto
    then show "flow_spec (\<lambda>h. P h \<and> (\<forall>y. (Inr x :: message + _) = Inr y \<longrightarrow> ?P y h))
       (flow_bind (unload_victims E vs) (\<lambda>rs. flow_return ((v, x) # rs)))
       (\<lambda>r h. P h \<and> (\<forall>rs. r = Inr rs \<longrightarrow> map fst rs = v # vs \<and> (\<forall>(v, x) \<in> set rs. is_ok x \<longrightarrow> unloaded E v h)))"
      by (rule spec_conseq) simp_all
  qed simp
qed

lemma spec_confirm_victims:
  assumes "stable T P"
  shows "flow_spec (\<lambda>h. P h \<and> map fst rs = lt_evict T \<and> (\<forall>(v, x) \<in> set rs. is_ok x \<longrightarrow> unloaded E v h))
    (confirm_victims E cfg T rs) (\<lambda>r h. P h \<and> (\<forall>p. r = Inr (p, False) \<longrightarrow> victims_gone E T h))"
proof -
  let ?P = "\<lambda>h. P h \<and> map fst rs = lt_evict T \<and> (\<forall>(v, x) \<in> set rs. is_ok x \<longrightarrow> unloaded E v h)"
  have P: "stable T ?P"
    using assms stable_monitor(5) unfolding stable_def case_prod_beta by blast
  have gone: "list_all (\<lambda>v. unloaded E v h) (lt_evict T)" if "?P h" "\<not> list_ex (\<lambda>(_, r). \<not> is_ok r) rs" for h
  proof -
    from that have "\<forall>(v, x) \<in> set rs. unloaded E v h" unfolding list_ex_iff by blast
    then have "\<forall>v \<in> set (map fst rs). unloaded E v h" by auto
    with that(1) show ?thesis by (simp add: list_all_iff)
  qed
  show ?thesis
  proof (cases "lt_evict T = []")
    case True
    then show ?thesis
      by (auto simp: confirm_victims_def flow_spec_def flow_return_def victims_gone_def)
  next
    case False
    then show ?thesis
      unfolding confirm_victims_def Let_def if_not_P [OF False]
      by (intro spec_bind [OF spec_confirm [OF P]] spec_return)
         (auto simp: victims_gone_def shows_release_def gone split: sum.splits)
  qed
qed

lemma spec_evict_stage:
  assumes "stable T P"
  shows "flow_spec P (evict_stage E cfg T) (\<lambda>r h. P h \<and> (\<forall>p. r = Inr (p, False) \<longrightarrow> victims_gone E T h))"
  unfolding evict_stage_def
  by (rule spec_bind [OF spec_unload_victims [OF assms order.refl] spec_conseq [OF spec_confirm_victims [OF assms]]]) auto

lemma spec_eviction_failure: "flow_spec (idle E T) (eviction_failure E cfg T p) (finished E T)"
  unfolding eviction_failure_def
proof (rule spec_bind [OF spec_resolve [OF stable_idle]])
  fix f
  show "flow_spec (\<lambda>h. idle E T h \<and> (\<forall>g. (Inr f :: message + _) = Inr g \<longrightarrow> retains g = load_unresolved (EvictionFailed (lt_id T))))
     (flow_bind (settle_if_cleared E (lt_previous T) f) (\<lambda>f'. flow_return (report p (Inl (EvictionFailed (lt_id T))) f')))
     (finished E T)"
    using spec_settle_report [of f E T] by (cases "retains f") (auto simp: flow_spec_def)
qed (simp add: finished_panic idle_legal)

lemma spec_verify_inherited:
  assumes "stable T P"
  shows "flow_spec P (verify_inherited E T) (\<lambda>r h. P h)"
  unfolding verify_inherited_def Let_def
  by (intro spec_bind [OF spec_call [OF assms]])
     (auto intro!: spec_return spec_bind [OF spec_call [OF assms]] simp: quiet_def)

lemma spec_inherited_unverified: "flow_spec (idle E T) (inherited_unverified E T p) (finished E T)"
  unfolding inherited_unverified_def by (rule spec_settle_report) (simp split: option.split)

lemma spec_admitted_load: "flow_spec (may_load E T 0) (admitted_load E cfg T p) (finished E T)"
  unfolding admitted_load_def
proof (rule spec_bind)
  have "stable T (may_load E T 0)"
    unfolding may_load_def by (simp, intro stable_conj stable_idle stable_victims_gone stable_monitor)
  then show "flow_spec (may_load E T 0) (if lt_inherited T then verify_inherited E T else flow_return True) (\<lambda>r h. may_load E T 0 h)"
    using spec_verify_inherited [of T _ E] by (auto intro: spec_return)
  show "flow_spec (may_load E T 0) (if verified then load_stage E cfg T p else inherited_unverified E T p) (finished E T)" for verified
    by (auto intro: spec_load_stage spec_conseq [OF spec_inherited_unverified] simp: may_load_def)
qed (simp add: finished_panic idle_legal may_load_def)

lemma spec_run_load_flow: "flow_spec (\<lambda>h. h = []) (run_load_flow E cfg T) (finished E T)"
  unfolding run_load_flow_def
proof (rule spec_bind)
  have "stable T (\<lambda>h. idle E T h \<and> load_count h = 0)" by (intro stable_conj stable_idle stable_monitor)
  from spec_evict_stage [OF this]
  show "flow_spec (\<lambda>h. h = []) (evict_stage E cfg T)
      (\<lambda>r h. (idle E T h \<and> load_count h = 0) \<and> (\<forall>p. r = Inr (p, False) \<longrightarrow> victims_gone E T h))"
    by (rule spec_conseq) (auto simp: idle_def legal_so_far_def)
  show "flow_spec (\<lambda>h. (idle E T h \<and> load_count h = 0) \<and> (\<forall>p. (Inr x :: message + _) = Inr (p, False) \<longrightarrow> victims_gone E T h))
     (case x of (p, failed) \<Rightarrow> if failed then eviction_failure E cfg T p else admitted_load E cfg T p) (finished E T)" for x
    by (cases x; cases "snd x")
       (auto intro: spec_conseq [OF spec_eviction_failure] spec_conseq [OF spec_admitted_load] simp: may_load_def)
qed (simp add: finished_panic idle_legal)

section \<open>The number of calls\<close>

definition at_most :: "nat \<Rightarrow> 'a flow \<Rightarrow> bool" where
  "at_most n f \<longleftrightarrow> (\<forall>h. length (snd (f h)) \<le> length h + n)"

lemma at_most_return [intro]: "at_most n (flow_return x)"
  by (simp add: at_most_def flow_return_def)

lemma at_most_bind:
  assumes "at_most m f" "\<And>x. at_most n (g x)" "m + n \<le> k"
  shows "at_most k (flow_bind f g)"
  unfolding at_most_def
proof
  fix h
  obtain r h' where f: "f h = (r, h')" by (cases "f h")
  have f': "length h' \<le> length h + m" using assms(1) by (metis at_most_def f snd_conv)
  have g': "length (snd (g x h')) \<le> length h' + n" for x using assms(2) by (simp add: at_most_def)
  have "length (snd (g x h')) \<le> length h + k" "length h' \<le> length h + k" for x
    using assms(3) f' g' [of x] by linarith+
  then show "length (snd (flow_bind f g h)) \<le> length h + k"
    by (cases r) (simp_all add: flow_bind_def f)
qed

lemma at_most_mono: "at_most m f \<Longrightarrow> m \<le> n \<Longrightarrow> at_most n f"
  unfolding at_most_def by (meson add_left_mono order_trans)

lemma at_most_call: "at_most (Suc 0) (with_adapter_timeout c a l)" "at_most (Suc 0) (clear_fence E)"
  by (auto simp: at_most_def with_adapter_timeout_def clear_fence_def split: answer.splits)

abbreviation confirm_bound :: "poll_limits \<Rightarrow> nat" where
  "confirm_bound cfg \<equiv> unat (release_confirm_max_attempts cfg)"

abbreviation probe_bound :: "poll_limits \<Rightarrow> nat" where
  "probe_bound cfg \<equiv> unat (probe_max_attempts cfg)"

lemma at_most_confirm: "at_most (confirm_bound cfg) (confirm_memory_released E cfg ts gb)"
proof -
  have "at_most n (confirm_attempts E ts gb n)" for n
    by (induction n) (auto intro!: at_most_bind [OF at_most_call(1)] split: sum.split)
  then show ?thesis by (simp add: confirm_memory_released_def)
qed

lemma at_most_best_effort: "at_most (Suc (confirm_bound cfg)) (best_effort_release E cfg i gb)"
  unfolding best_effort_release_def
  by (rule at_most_bind [OF at_most_call(1), where n = "confirm_bound cfg"])
     (auto intro!: at_most_bind [OF at_most_confirm, where n = 0])

lemma at_most_resolve: "at_most (Suc (confirm_bound cfg)) (resolve_load_failure E cfg i e prev gb)"
  unfolding resolve_load_failure_def
  by (auto intro!: at_most_bind [OF at_most_best_effort, where n = 0])

lemma at_most_settle: "at_most (Suc 0) (settle_if_cleared E prev f)"
  unfolding settle_if_cleared_def by (auto intro!: at_most_bind [OF at_most_call(2), where n = 0])

lemma at_most_load_failed: "at_most (confirm_bound cfg + 2) (load_failed E cfg T prev p err)"
  unfolding load_failed_def
  by (rule at_most_bind [OF at_most_resolve, where n = 1])
     (auto intro!: at_most_bind [OF at_most_settle, where n = 0] at_most_bind [where m = "Suc 0" and n = 0]
       intro: at_most_settle)

lemma at_most_probe_loop: "at_most (n + confirm_bound cfg + 1) (probe_loop E cfg T prev p n)"
proof (induction n)
  case 0
  show ?case by (simp, rule at_most_bind [OF at_most_best_effort, where n = 0]) auto
next
  case (Suc n)
  show ?case
    unfolding probe_loop.simps
  proof (rule at_most_bind [OF at_most_call(1), where n = "n + confirm_bound cfg + 1"])
    fix q :: "backend_error + bool"
    show "at_most (n + confirm_bound cfg + 1) (case q of
         Inr True \<Rightarrow> flow_bind (clear_fence E) (\<lambda>c. flow_return (case c of
             Inl e \<Rightarrow> report p (Inl e) (RetainUnconfirmedLoad prev) | Inr _ \<Rightarrow> report p (Inr ()) (Settle MError)))
       | Inr False \<Rightarrow> probe_loop E cfg T prev p n
       | Inl err \<Rightarrow> flow_bind (best_effort_release E cfg (lt_id T) (lt_target_absent_gb T)) (\<lambda>_.
           flow_return (report p (Inl err) (RetainUnconfirmedLoad prev))))"
      using Suc.IH
      by (auto intro!: at_most_bind [OF at_most_call(2), where n = 0] at_most_bind [OF at_most_best_effort, where n = 0]
        split: sum.split bool.split)
  qed simp
qed

lemma at_most_after_attempt: "at_most (probe_bound cfg + confirm_bound cfg + 2) (after_attempt E cfg T prev p a)"
  unfolding after_attempt_def
  by (auto intro: at_most_mono [OF at_most_load_failed] at_most_mono [OF at_most_probe_loop] split: sum.split)

lemma at_most_try_load: "at_most (Suc 0) (try_load E T)"
  by (simp add: try_load_def at_most_call)

lemma at_most_oom_stage: "at_most (probe_bound cfg + 2 * confirm_bound cfg + 3) (oom_stage E cfg T p err)"
  unfolding oom_stage_def
proof (rule at_most_bind [OF at_most_confirm, where n = "probe_bound cfg + confirm_bound cfg + 3"])
  have "at_most (confirm_bound cfg + 2) (oom_unreleased E cfg T p err)"
    unfolding oom_unreleased_def
    by (rule at_most_bind [OF at_most_best_effort, where n = 1])
       (auto intro!: at_most_bind [OF at_most_settle, where n = 0])
  moreover have "at_most (probe_bound cfg + confirm_bound cfg + 3) (oom_released E cfg T p err st)" for st
    unfolding oom_released_def
    by (auto intro!: at_most_bind [OF at_most_settle, where n = 0]
      at_most_bind [OF at_most_try_load at_most_after_attempt])
  ultimately show "at_most (probe_bound cfg + confirm_bound cfg + 3)
     (case x of Inl _ \<Rightarrow> oom_unreleased E cfg T p err | Inr st \<Rightarrow> oom_released E cfg T p err st)" for x
    by (cases x) (auto intro: at_most_mono)
qed simp

lemma at_most_load_stage: "at_most (probe_bound cfg + 2 * confirm_bound cfg + 4) (load_stage E cfg T p)"
  unfolding load_stage_def
  by (rule at_most_bind [OF at_most_try_load, where n = "probe_bound cfg + 2 * confirm_bound cfg + 3"])
     (auto simp: after_first_attempt_def intro: at_most_oom_stage at_most_mono [OF at_most_after_attempt] split: sum.split)

lemma at_most_evict_stage: "at_most (length (lt_evict T) + confirm_bound cfg) (evict_stage E cfg T)"
proof -
  have "at_most (length vs) (unload_victims E vs)" for vs
    by (induction vs) (auto intro!: at_most_bind [OF at_most_call(1)] at_most_bind [where n = 0])
  then show ?thesis
    unfolding evict_stage_def
    by (rule at_most_bind [where n = "confirm_bound cfg"])
       (auto simp: confirm_victims_def Let_def intro!: at_most_bind [OF at_most_confirm, where n = 0])
qed

lemma at_most_run_load_flow:
  "at_most (length (lt_evict T) + probe_bound cfg + 3 * confirm_bound cfg + 6) (run_load_flow E cfg T)"
  unfolding run_load_flow_def
proof (rule at_most_bind [OF at_most_evict_stage, where n = "probe_bound cfg + 2 * confirm_bound cfg + 6"])
  have "at_most (confirm_bound cfg + 2) (eviction_failure E cfg T p)" for p
    unfolding eviction_failure_def
    by (rule at_most_bind [OF at_most_resolve, where n = 1]) (auto intro!: at_most_bind [OF at_most_settle, where n = 0])
  moreover have "at_most 2 (verify_inherited E T)"
    unfolding verify_inherited_def Let_def
    by (rule at_most_bind [OF at_most_call(1), where n = 1]) (auto intro!: at_most_bind [OF at_most_call(1), where n = 0])
  then have "at_most (probe_bound cfg + 2 * confirm_bound cfg + 6) (admitted_load E cfg T p)" for p
    unfolding admitted_load_def inherited_unverified_def
    by (intro at_most_bind [where m = 2 and n = "probe_bound cfg + 2 * confirm_bound cfg + 4"])
       (auto intro!: at_most_load_stage at_most_bind [OF at_most_settle, where n = 0])
  ultimately show "at_most (probe_bound cfg + 2 * confirm_bound cfg + 6)
     (case x of (p, failed) \<Rightarrow> if failed then eviction_failure E cfg T p else admitted_load E cfg T p)" for x
    by (cases x) (auto intro: at_most_mono [where m = "confirm_bound cfg + 2"])
qed simp

section \<open>What an outcome holds\<close>

text \<open>An outcome speaks of exactly the chosen victims, and restores only what was there.\<close>

fun failure_fits :: "load_task \<Rightarrow> failure_outcome \<Rightarrow> bool" where
  "failure_fits T (Settle st) \<longleftrightarrow> st = Stopped \<or> st = MError"
| "failure_fits T (SettleReleased _) \<longleftrightarrow> True"
| "failure_fits T (RestorePrevious m) \<longleftrightarrow> lt_previous T = Some m"
| "failure_fits T (RetainPreviousOnError m) \<longleftrightarrow> lt_previous T = Some m"
| "failure_fits T (RetainUnconfirmedLoad m) \<longleftrightarrow> m = None \<or> m = lt_previous T"

definition outcome_fits :: "load_task \<Rightarrow> load_outcome \<Rightarrow> bool" where
  "outcome_fits T r \<longleftrightarrow> map fst (lo_victims r) = lt_evict T \<and> failure_fits T (lo_failure r)"

definition yields :: "'a flow \<Rightarrow> ('a \<Rightarrow> bool) \<Rightarrow> bool" where
  "yields f S \<longleftrightarrow> (\<forall>h x h'. f h = (Inr x, h') \<longrightarrow> S x)"

lemma yields_return: "S x \<Longrightarrow> yields (flow_return x) S"
  by (simp add: yields_def flow_return_def)

lemma yields_any: "yields f (\<lambda>_. True)"
  by (simp add: yields_def)

lemma yields_bind: "yields f R \<Longrightarrow> (\<And>x. R x \<Longrightarrow> yields (g x) S) \<Longrightarrow> yields (flow_bind f g) S"
  unfolding yields_def flow_bind_def by (fastforce split: prod.splits sum.splits)

lemma yields_mono: "yields f R \<Longrightarrow> (\<And>x. R x \<Longrightarrow> S x) \<Longrightarrow> yields f S"
  unfolding yields_def by blast

definition prev_fits :: "load_task \<Rightarrow> previous_model option \<Rightarrow> bool" where
  "prev_fits T prev \<longleftrightarrow> prev = None \<or> prev = lt_previous T"

lemma fits_simps:
  "prev_fits T (lt_previous T)" "prev_fits T None"
  "prev_fits T prev \<Longrightarrow> failure_fits T (after_release MError prev)"
  "prev_fits T prev \<Longrightarrow> failure_fits T (RetainUnconfirmedLoad prev)"
  "prev_fits T prev \<Longrightarrow> failure_fits T (case prev of Some m \<Rightarrow> RestorePrevious m | None \<Rightarrow> Settle Stopped)"
  by (auto simp: prev_fits_def after_release_def split: option.splits)

lemma outcome_fits_report:
  "map fst (pg_victims p) = lt_evict T \<Longrightarrow> failure_fits T f \<Longrightarrow> outcome_fits T (report p r f)"
  by (simp add: outcome_fits_def report_def)

lemma yields_settle: "prev_fits T prev \<Longrightarrow> failure_fits T f \<Longrightarrow> yields (settle_if_cleared E prev f) (failure_fits T)"
  unfolding settle_if_cleared_def by (auto intro!: yields_bind [OF yields_any] yields_return simp: prev_fits_def)

lemma yields_resolve: "prev_fits T prev \<Longrightarrow> yields (resolve_load_failure E cfg i e prev gb) (failure_fits T)"
  unfolding resolve_load_failure_def
  by (auto intro!: yields_bind [OF yields_any] yields_return simp: prev_fits_def after_release_def split: option.split)

lemma yields_settle_report:
  assumes "map fst (pg_victims p) = lt_evict T" "prev_fits T prev" "failure_fits T f"
  shows "yields (flow_bind (settle_if_cleared E prev f) (\<lambda>f'. flow_return (report p r f'))) (outcome_fits T)"
  using assms by (auto intro!: yields_bind [OF yields_settle] yields_return outcome_fits_report)

lemma yields_load_failed:
  assumes "map fst (pg_victims p) = lt_evict T" "prev_fits T prev"
  shows "yields (load_failed E cfg T prev p err) (outcome_fits T)"
  unfolding load_failed_def using assms
  by (intro yields_bind [OF yields_resolve] yields_bind [where R = "failure_fits T"] yields_return)
     (auto intro: yields_return yields_settle outcome_fits_report)

lemma yields_probe_loop:
  assumes "map fst (pg_victims p) = lt_evict T" "prev_fits T prev"
  shows "yields (probe_loop E cfg T prev p n) (outcome_fits T)"
  using assms
proof (induction n)
  case 0
  then show ?case
    by (auto intro!: yields_bind [OF yields_any] yields_return outcome_fits_report simp: prev_fits_def)
next
  case (Suc n)
  then show ?case
    by (auto intro!: yields_bind [OF yields_any] yields_return outcome_fits_report simp: prev_fits_def
      split: sum.split bool.split)
qed

lemma yields_after_attempt:
  assumes "map fst (pg_victims p) = lt_evict T" "prev_fits T prev"
  shows "yields (after_attempt E cfg T prev p a) (outcome_fits T)"
  using assms by (auto simp: after_attempt_def yields_load_failed yields_probe_loop split: sum.split)

lemma yields_oom_stage:
  assumes "map fst (pg_victims p) = lt_evict T"
  shows "yields (oom_stage E cfg T p err) (outcome_fits T)"
proof -
  have "yields (oom_unreleased E cfg T p err) (outcome_fits T)"
    unfolding oom_unreleased_def
    by (rule yields_bind [OF yields_any], rule yields_settle_report [OF assms])
       (auto simp: prev_fits_def after_release_def split: option.split)
  moreover have "yields (oom_released E cfg T p err st) (outcome_fits T)" for st
    unfolding oom_released_def using assms
    by (auto intro: yields_settle_report intro!: yields_bind [OF yields_any yields_after_attempt] simp: prev_fits_def)
  ultimately show ?thesis
    unfolding oom_stage_def by (auto intro: yields_bind [OF yields_any] split: sum.split)
qed

lemma yields_confirm_victims:
  "map fst rs = lt_evict T \<Longrightarrow> yields (confirm_victims E cfg T rs) (\<lambda>(p, _). map fst (pg_victims p) = lt_evict T)"
  unfolding confirm_victims_def Let_def case_prod_beta
  by (cases "lt_evict T = []")
     (simp_all, auto intro!: yields_return yields_bind [OF yields_any] simp: comp_def split: sum.split)

lemma yields_evict_stage: "yields (evict_stage E cfg T) (\<lambda>(p, _). map fst (pg_victims p) = lt_evict T)"
proof -
  have "yields (unload_victims E vs) (\<lambda>rs. map fst rs = vs)" for vs
    by (induction vs) (auto intro: yields_return intro!: yields_bind [OF yields_any] elim!: yields_bind)
  then show ?thesis
    unfolding evict_stage_def by (rule yields_bind) (rule yields_confirm_victims)
qed

lemma yields_run_load_flow: "yields (run_load_flow E cfg T) (outcome_fits T)"
  unfolding run_load_flow_def
proof (rule yields_bind [OF yields_evict_stage])
  fix x :: "progress \<times> bool"
  obtain p failed where x: "x = (p, failed)" by (cases x)
  assume "case x of (p, _) \<Rightarrow> map fst (pg_victims p) = lt_evict T"
  then have p: "map fst (pg_victims p) = lt_evict T" by (simp add: x)
  have "yields (eviction_failure E cfg T p) (outcome_fits T)"
    unfolding eviction_failure_def
    by (rule yields_bind [OF yields_resolve]) (auto intro: yields_settle_report simp: p fits_simps)
  moreover have "yields (admitted_load E cfg T p) (outcome_fits T)"
  proof -
    have "yields (load_stage E cfg T p) (outcome_fits T)"
      unfolding load_stage_def after_first_attempt_def
      by (rule yields_bind [OF yields_any])
         (auto intro: yields_oom_stage yields_after_attempt p fits_simps split: sum.split)
    moreover have "yields (inherited_unverified E T p) (outcome_fits T)"
      unfolding inherited_unverified_def
      by (rule yields_settle_report [OF p]) (auto simp: prev_fits_def split: option.split)
    ultimately show ?thesis
      unfolding admitted_load_def by (auto intro: yields_bind [OF yields_any])
  qed
  ultimately show "yields (case x of (p, failed) \<Rightarrow> if failed then eviction_failure E cfg T p else admitted_load E cfg T p)
     (outcome_fits T)"
    by (simp add: x)
qed

lemma load_task_fits: "outcome_fits T (fst (load_task_outcome E cfg T))"
  using yields_run_load_flow [of E cfg T]
  by (auto simp: yields_def load_task_outcome_def panicked_load_def outcome_fits_def comp_def
      split: prod.splits sum.splits)

section \<open>Properties\<close>

text \<open>
  C10. Whatever the engine answers, hangs on or panics at, each call of a load is legal where it is
  made: victims and the target only are unloaded, the load is requested once every victim was
  unloaded and seen to be gone, a second time only after an out-of-memory answer and a confirmed
  release, and the durable fence is cleared only when no load can still be running.
\<close>

theorem load_calls_legal: "legal E T (snd (load_task_outcome E cfg T))"
  using spec_run_load_flow [of E cfg T]
  by (auto simp: flow_spec_def finished_def load_task_outcome_def split: prod.splits sum.splits)

text \<open>
  C22. The slot and the durable marker never disagree: the outcome lets the supervisor use or reuse
  the slot exactly when the fence was cleared, and otherwise keeps the load unconfirmed.
\<close>

theorem load_settled_iff_fence_cleared:
  "settled (fst (load_task_outcome E cfg T)) \<longleftrightarrow> fence_cleared E (snd (load_task_outcome E cfg T))"
  using spec_run_load_flow [of E cfg T]
  by (auto simp: flow_spec_def finished_def load_task_outcome_def panicked_load_def settled_def
      split: prod.splits sum.splits)

text \<open>
  A load always comes to an end, whatever the engine does: the number of calls it makes is bounded
  by the victims and the configured attempts, and each call is bounded by its deadline.
\<close>

theorem load_calls_bounded:
  "length (snd (load_task_outcome E cfg T))
     \<le> length (lt_evict T) + unat (probe_max_attempts cfg) + 3 * unat (release_confirm_max_attempts cfg) + 6"
  using at_most_run_load_flow [of T cfg E]
  by (auto simp: at_most_def load_task_outcome_def split: prod.splits sum.splits dest: spec [of _ "[]"])

end
