(* ===== verification/Supervisor.thy ===== *)
theory Supervisor
  imports Load_Protocol
begin

text \<open>
  The supervisor's actor (\<^verbatim>\<open>crates/idoris-backend/src/supervisor.rs\<close>): one task that owns every
  slot and handles one message at a time. A handler maps the actor and the message to the next
  actor and the effects it has: replies on the callers' channels, which are numbered, and spawned
  tasks. \<open>None\<close> is a panic of the actor task. What the file system answers to the durable fence is
  an argument of the step; the semaphore's free permits are part of the state.
\<close>

datatype reply_value = Done | StatusOf backend_status | ReadyIs bool

datatype effect =
    Reply nat "backend_error + reply_value"
  | StartLoad load_task
  | StartUnload string f64
  | StartChat string nat
  | StartList nat

datatype command =
    CmdList nat
  | CmdStatus nat
  | CmdIsReady string nat
  | CmdChat string nat
  | CmdLoad string f64 load_policy bool nat
  | CmdUnload string nat

datatype actor_msg =
    Cmd command
  | OpDone string op_outcome
  | ChatDone string

text \<open>A load keeps its request and its waiters; an unload its waiters and whether it has started.\<close>

datatype active_kind =
    ActiveLoad load_policy f64 bool "nat list"
  | ActiveUnload "nat list" bool

record fence_io =
  fence_begin :: "backend_error + unit"
  fence_clear :: "backend_error + unit"

record actor =
  ac_models :: slots
  ac_active :: "(string \<times> active_kind) option"
  ac_next_seq :: u64
  ac_poisoned :: "message option"
  ac_env :: env
  ac_has_fence :: bool
  ac_permits :: nat

section \<open>Helpers\<close>

definition answer :: "nat \<Rightarrow> backend_error + reply_value \<Rightarrow> actor \<Rightarrow> (actor \<times> effect list) option" where
  "answer r v A = Some (A, [Reply r v])"

fun done_or :: "backend_error + unit \<Rightarrow> backend_error + reply_value" where
  "done_or (Inr _) = Inr Done"
| "done_or (Inl e) = Inl e"

text \<open>\<open>not_ready_error\<close>, with its unreachable arm as \<open>None\<close>.\<close>

fun not_ready_error :: "string \<Rightarrow> model_state \<Rightarrow> backend_error option" where
  "not_ready_error m Launching = Some (ModelLoading m)"
| "not_ready_error m Loading = Some (ModelLoading m)"
| "not_ready_error m MReady = None"
| "not_ready_error m MError = Some (ModelUnavailable m)"
| "not_ready_error m Stopping = Some (ModelUnavailable m)"
| "not_ready_error m Stopped = Some (ModelUnavailable m)"

definition set_state_or_panic :: "slots \<Rightarrow> string \<Rightarrow> model_state \<Rightarrow> slots option" where
  "set_state_or_panic ms i st =
     (case map_of ms i of None \<Rightarrow> None | Some s \<Rightarrow> Some (AList.update i (s\<lparr>sl_state := st\<rparr>) ms))"

definition set_state_or_poison :: "slots \<Rightarrow> string \<Rightarrow> model_state \<Rightarrow> message + slots" where
  "set_state_or_poison ms i st =
     (case map_of ms i of
        None \<Rightarrow> Inl [Text ''ledger has no entry for '', Quoted i]
      | Some s \<Rightarrow> Inr (AList.update i
          (s\<lparr>sl_state := st, sl_inherited := (sl_inherited s \<and> st \<noteq> Stopped)\<rparr>) ms))"

fun waiters_of :: "active_kind \<Rightarrow> nat list" where
  "waiters_of (ActiveLoad _ _ _ ws) = ws"
| "waiters_of (ActiveUnload ws _) = ws"

definition other_model_busy :: "string \<Rightarrow> backend_error" where
  "other_model_busy i =
     Busy [Text ''a different id currently holds the load/evict/unload mutex''] (Some i) None"

abbreviation calls_busy :: backend_error where
  "calls_busy \<equiv> Busy [Text ''concurrent adapter-call limit reached''] None None"

section \<open>Load\<close>

text \<open>A request for the model that is being worked on joins it only if it asks for the very same.\<close>

fun join_load :: "string \<Rightarrow> f64 \<Rightarrow> load_policy \<Rightarrow> bool \<Rightarrow> nat \<Rightarrow> active_kind \<Rightarrow> actor \<Rightarrow> (actor \<times> effect list) option" where
  "join_load i gb policy breach r (ActiveLoad policy' gb' breach' ws) A =
     (if policy' = policy \<and> f64_eq gb' gb then
        if breach' = breach
        then Some (A\<lparr>ac_active := Some (i, ActiveLoad policy' gb' breach' (ws @ [r]))\<rparr>, [])
        else answer r (Inl (Busy [Text ''another request is loading this model with a different headroom confirmation; retry shortly'']
          (Some i) None)) A
      else answer r (Inl (Busy [Text ''a load for this id with a different policy or memory_gb is already in flight'']
        (Some i) None)) A)"
| "join_load i gb policy breach r (ActiveUnload _ _) A =
     answer r (Inl (Busy [Text ''a load for this id with a different policy or memory_gb is already in flight'']
       (Some i) None)) A"

text \<open>What the slot alone decides, before the mutex is looked at.\<close>

definition load_shortcut :: "slots \<Rightarrow> string \<Rightarrow> load_policy \<Rightarrow> (backend_error + unit) option" where
  "load_shortcut ms i policy =
     (case map_of ms i of
        None \<Rightarrow> None
      | Some s \<Rightarrow>
          if sl_unconfirmed s then Some (Inl (ModelUnavailable i))
          else if sl_state s = MReady \<and> sl_policy s = policy then Some (Inr ())
          else if sl_inflight s \<noteq> 0 then Some (Inl (Busy [Text ''model has chats in flight''] (Some i) None))
          else None)"

record load_plan =
  pl_evict :: "string list"
  pl_inherited :: bool
  pl_request_gb :: f64
  pl_planned_gb :: f64
  pl_planned_charge :: "u128 option"
  pl_charge :: u128

definition charge_plan :: "env \<Rightarrow> slots \<Rightarrow> string \<Rightarrow> f64 \<Rightarrow> bool \<Rightarrow> string list \<Rightarrow> backend_error + (u128 option \<times> u128)" where
  "charge_plan E ms i gb inherited evict =
     (case Option.bind (env_capacity E) tr_exact_claim of
        None \<Rightarrow> Inr (None, 0)
      | Some _ \<Rightarrow>
          bind_result (charge_from_gb gb) (\<lambda>target.
          bind_result (if inherited then bind_result (exact_reserved_charge E ms) (\<lambda>r. Inr (charge_saturating_sub target r))
                       else Inr target) (\<lambda>charge.
          bind_result (exact_charge E ms (map snd (filter (\<lambda>(j, _). j \<noteq> i \<and> j \<notin> set evict) ms))) (\<lambda>rest.
          bind_result (charge_checked_add rest charge) (\<lambda>planned.
          Inr (Some planned, charge))))))"

definition remaining_gb :: "slots \<Rightarrow> string \<Rightarrow> string list \<Rightarrow> f64" where
  "remaining_gb ms i evict = sum_gb (map snd (filter (\<lambda>(j, _). j \<noteq> i \<and> j \<notin> set evict) ms))"

fun evicted_ids :: "eviction_plan \<Rightarrow> string list" where
  "evicted_ids NotNeeded = []"
| "evicted_ids (Evict vs) = vs"

definition plan_load :: "env \<Rightarrow> slots \<Rightarrow> string \<Rightarrow> f64 \<Rightarrow> (backend_error + load_plan) option" where
  "plan_load E ms i gb =
     (let inherited = (case map_of ms i of Some s \<Rightarrow> sl_inherited s | None \<Rightarrow> False);
          reservation = effective_reserved_gb E ms
      in if f64_lt (env_budget_gb E) reservation then Some (Inl (EvictionImpossible i))
         else
           let request_gb = (if inherited then f64_sub (f64_max gb reservation) reservation else gb)
           in case plan_eviction (build_snapshot ms (f64_sub (env_budget_gb E) reservation) i)
                     \<lparr>need_id = i, need_memory_gb = request_gb\<rparr> of
                Inl err \<Rightarrow> map_option Inl (map_plan_error err i)
              | Inr plan \<Rightarrow>
                  let evict = evicted_ids plan;
                      planned_gb = f64_add (f64_add reservation request_gb) (remaining_gb ms i evict)
                  in Some (bind_result (charge_plan E ms i gb inherited evict) (\<lambda>(planned_charge, charge).
                       Inr \<lparr>pl_evict = evict, pl_inherited = inherited, pl_request_gb = request_gb,
                            pl_planned_gb = planned_gb, pl_planned_charge = planned_charge, pl_charge = charge\<rparr>)))"

fun mark_stopping :: "string list \<Rightarrow> slots \<Rightarrow> slots option" where
  "mark_stopping [] ms = Some ms"
| "mark_stopping (v # vs) ms = Option.bind (set_state_or_panic ms v Stopping) (mark_stopping vs)"

definition start_load ::
    "string \<Rightarrow> load_policy \<Rightarrow> string list \<Rightarrow> previous_model option \<Rightarrow> env \<Rightarrow> slots \<Rightarrow> (slots \<times> load_task) option" where
  "start_load i policy evict previous E ms =
     Option.bind (set_state_or_panic ms i Loading) (\<lambda>ms'.
       let previous_gb = (case previous of None \<Rightarrow> f64_zero | Some m \<Rightarrow> pm_memory_gb m);
           release_limit_gb = remaining_gb ms' i evict;
           reserved = effective_reserved_gb E ms'
       in Some (ms', \<lparr>lt_id = i, lt_policy = policy, lt_evict = evict, lt_previous = previous,
            lt_target_absent_gb = f64_add release_limit_gb reserved,
            lt_after_eviction_gb = f64_add (f64_add release_limit_gb previous_gb) reserved,
            lt_inherited = (case previous of None \<Rightarrow> False | Some m \<Rightarrow> pm_inherited m)\<rparr>))"

definition new_slot :: "load_plan \<Rightarrow> f64 \<Rightarrow> load_policy \<Rightarrow> u64 \<Rightarrow> slot" where
  "new_slot p gb policy seq =
     \<lparr>sl_memory_gb = (if pl_inherited p then pl_request_gb p else gb), sl_charge = pl_charge p,
      sl_state = Launching, sl_last_used_seq = seq, sl_policy = policy, sl_inflight = 0,
      sl_unconfirmed = False, sl_inherited = pl_inherited p\<rparr>"

definition install_load ::
    "string \<Rightarrow> f64 \<Rightarrow> load_policy \<Rightarrow> bool \<Rightarrow> nat \<Rightarrow> load_plan \<Rightarrow> env \<Rightarrow> actor \<Rightarrow> (actor \<times> effect list) option" where
  "install_load i gb policy breach r p E A =
     Option.bind (mark_stopping (pl_evict p) (ac_models A)) (\<lambda>ms.
       let seq = (case map_of ms i of None \<Rightarrow> 0 | Some s \<Rightarrow> sl_last_used_seq s);
           previous = (case map_of ms i of
               None \<Rightarrow> None
             | Some s \<Rightarrow> if occupies_budget (sl_state s) then Some (previous_of s) else None)
       in Option.bind (start_load i policy (pl_evict p) previous E (AList.update i (new_slot p gb policy seq) ms)) (\<lambda>(ms', T).
          Some (A\<lparr>ac_models := ms', ac_env := E, ac_active := Some (i, ActiveLoad policy gb breach [r])\<rparr>, [StartLoad T])))"

definition admit_load ::
    "fence_io \<Rightarrow> string \<Rightarrow> f64 \<Rightarrow> load_policy \<Rightarrow> bool \<Rightarrow> nat \<Rightarrow> actor \<Rightarrow> (actor \<times> effect list) option" where
  "admit_load fio i gb policy breach r A =
     Option.bind (plan_load (ac_env A) (ac_models A) i gb) (\<lambda>plan.
       case plan of
         Inl err \<Rightarrow> answer r (Inl err) A
       | Inr p \<Rightarrow>
           if \<not> ac_has_fence A then answer r (Inl (Internal [Text ''load fence is unavailable''])) A
           else case fence_begin fio of
             Inl err \<Rightarrow> answer r (Inl err) A
           | Inr _ \<Rightarrow>
               (case claim_runtime_capacity (pl_planned_gb p) (pl_planned_charge p) breach (ac_env A) of
                  (Inl err, E) \<Rightarrow>
                    answer r (Inl (case fence_clear fio of Inr _ \<Rightarrow> err | Inl clear_err \<Rightarrow> clear_err)) (A\<lparr>ac_env := E\<rparr>)
                | (Inr _, E) \<Rightarrow> install_load i gb policy breach r p E A))"

definition handle_load ::
    "fence_io \<Rightarrow> string \<Rightarrow> f64 \<Rightarrow> load_policy \<Rightarrow> bool \<Rightarrow> nat \<Rightarrow> actor \<Rightarrow> (actor \<times> effect list) option" where
  "handle_load fio i gb policy breach r A =
     (if \<not> f64_is_finite gb \<or> f64_lt gb f64_zero
      then answer r (Inl (InvalidRequest [Text ''memory_gb must be finite and >= 0, got '', Float gb])) A
      else
        let admit = (case load_shortcut (ac_models A) i policy of
              Some v \<Rightarrow> answer r (done_or v) A
            | None \<Rightarrow> (case ac_active A of
                Some (j, _) \<Rightarrow> answer r (Inl (other_model_busy j)) A
              | None \<Rightarrow> admit_load fio i gb policy breach r A))
        in case ac_active A of
             Some (j, kind) \<Rightarrow> if j = i then join_load i gb policy breach r kind A else admit
           | None \<Rightarrow> admit)"

section \<open>Unload\<close>

definition unload_limit_gb :: "env \<Rightarrow> slots \<Rightarrow> string \<Rightarrow> f64" where
  "unload_limit_gb E ms i = f64_add (ledger_used_except ms i) (effective_reserved_gb_except E ms (Some i))"

definition begin_unload :: "string \<Rightarrow> nat \<Rightarrow> actor \<Rightarrow> (actor \<times> effect list) option" where
  "begin_unload i r A =
     Option.bind (set_state_or_panic (ac_models A) i Stopping) (\<lambda>ms.
       let inflight = (case map_of ms i of None \<Rightarrow> 0 | Some s \<Rightarrow> sl_inflight s)
       in Some (A\<lparr>ac_models := ms, ac_active := Some (i, ActiveUnload [r] (inflight = 0))\<rparr>,
            if inflight = 0 then [StartUnload i (unload_limit_gb (ac_env A) ms i)] else []))"

definition handle_unload :: "string \<Rightarrow> nat \<Rightarrow> actor \<Rightarrow> (actor \<times> effect list) option" where
  "handle_unload i r A =
     (let proceed = (case map_of (ac_models A) i of
            None \<Rightarrow> answer r (Inl (ModelNotFound i)) A
          | Some s \<Rightarrow>
              if sl_state s = Stopped \<and> \<not> sl_inherited s then answer r (Inr Done) A
              else if sl_unconfirmed s then answer r (Inl (ModelUnavailable i)) A
              else (case ac_active A of
                  Some (j, _) \<Rightarrow> answer r (Inl (other_model_busy j)) A
                | None \<Rightarrow> begin_unload i r A))
      in case ac_active A of
           Some (j, kind) \<Rightarrow>
             if j = i then
               (case kind of
                  ActiveUnload ws started \<Rightarrow> Some (A\<lparr>ac_active := Some (i, ActiveUnload (ws @ [r]) started)\<rparr>, [])
                | ActiveLoad _ _ _ _ \<Rightarrow> answer r (Inl (Busy [Text ''a load for this id is already in flight''] (Some i) None)) A)
             else proceed
         | None \<Rightarrow> proceed)"

section \<open>The other commands\<close>

definition handle_chat :: "string \<Rightarrow> nat \<Rightarrow> actor \<Rightarrow> (actor \<times> effect list) option" where
  "handle_chat m r A =
     (case map_of (ac_models A) m of
        None \<Rightarrow> answer r (Inl (ModelNotFound m)) A
      | Some s \<Rightarrow>
          if sl_state s \<noteq> MReady
          then Option.bind (not_ready_error m (sl_state s)) (\<lambda>e. answer r (Inl e) A)
          else if ac_permits A = 0 then answer r (Inl calls_busy) A
          else let seq = ac_next_seq A + 1
               in Some (A\<lparr>ac_next_seq := seq, ac_permits := ac_permits A - 1,
                    ac_models := AList.update m (s\<lparr>sl_last_used_seq := seq, sl_inflight := sl_inflight s + 1\<rparr>) (ac_models A)\<rparr>,
                    [StartChat m r]))"

definition handle_list :: "nat \<Rightarrow> actor \<Rightarrow> (actor \<times> effect list) option" where
  "handle_list r A =
     (if ac_permits A = 0 then answer r (Inl calls_busy) A
      else Some (A\<lparr>ac_permits := ac_permits A - 1\<rparr>, [StartList r]))"

definition pressure_of :: "f64 \<Rightarrow> f64 \<Rightarrow> pressure" where
  "pressure_of budget used =
     (if f64_le budget used then PressureHard
      else if f64_le (f64_mul budget (f64_literal 8 10)) used then PressureSoft else PressureOk)"

definition status_of :: "actor \<Rightarrow> backend_status" where
  "status_of A =
     (let used = accounted_gb (ac_env A) (ac_models A)
      in \<lparr>bs_pressure = pressure_of (env_budget_gb (ac_env A)) used, bs_used_gb = used,
          bs_model_memory_max_gb = env_budget_gb (ac_env A),
          bs_loaded = map fst (filter (\<lambda>(_, s). sl_state s = MReady \<or> sl_inherited s \<and> sl_state s \<noteq> Stopped) (ac_models A))\<rparr>)"

definition is_ready :: "string \<Rightarrow> actor \<Rightarrow> bool" where
  "is_ready i A = (case map_of (ac_models A) i of None \<Rightarrow> False | Some s \<Rightarrow> sl_state s = MReady)"

fun reply_of :: "command \<Rightarrow> nat" where
  "reply_of (CmdList r) = r"
| "reply_of (CmdStatus r) = r"
| "reply_of (CmdIsReady _ r) = r"
| "reply_of (CmdChat _ r) = r"
| "reply_of (CmdLoad _ _ _ _ r) = r"
| "reply_of (CmdUnload _ r) = r"

definition unless_startup_error ::
    "nat \<Rightarrow> actor \<Rightarrow> (actor \<times> effect list) option \<Rightarrow> (actor \<times> effect list) option" where
  "unless_startup_error r A k = (case env_startup_error (ac_env A) of Some e \<Rightarrow> answer r (Inl e) A | None \<Rightarrow> k)"

fun handle_command :: "fence_io \<Rightarrow> command \<Rightarrow> actor \<Rightarrow> (actor \<times> effect list) option" where
  "handle_command fio (CmdList r) A = unless_startup_error r A (handle_list r A)"
| "handle_command fio (CmdStatus r) A = unless_startup_error r A (answer r (Inr (StatusOf (status_of A))) A)"
| "handle_command fio (CmdIsReady i r) A = answer r (Inr (ReadyIs (is_ready i A))) A"
| "handle_command fio (CmdChat m r) A = unless_startup_error r A (handle_chat m r A)"
| "handle_command fio (CmdLoad i gb policy breach r) A =
     unless_startup_error r A (handle_load fio i gb policy breach r A)"
| "handle_command fio (CmdUnload i r) A = unless_startup_error r A (handle_unload i r A)"

section \<open>Completions\<close>

fun apply_victims :: "(string \<times> (backend_error + unit)) list \<Rightarrow> slots \<Rightarrow> message option \<times> slots" where
  "apply_victims [] ms = (None, ms)"
| "apply_victims ((v, r) # vs) ms =
     (case set_state_or_poison ms v (if is_ok r then Stopped else MError) of
        Inl m \<Rightarrow> (Some m, ms)
      | Inr ms' \<Rightarrow> apply_victims vs ms')"

definition apply_success :: "string \<Rightarrow> model_state \<Rightarrow> u64 \<Rightarrow> slots \<Rightarrow> message option \<times> slots" where
  "apply_success i done_state seq ms =
     (case map_of ms i of
        None \<Rightarrow> (Some [Text ''ledger lost '', Quoted i, Text '' mid-op''], ms)
      | Some s \<Rightarrow> (None, AList.update i (s\<lparr>sl_state := done_state,
            sl_inherited := (sl_inherited s \<and> done_state \<noteq> Stopped),
            sl_last_used_seq := (if done_state = MReady then seq else sl_last_used_seq s)\<rparr>) ms))"

definition restore_slot :: "previous_model \<Rightarrow> slot \<Rightarrow> slot" where
  "restore_slot m s = s\<lparr>sl_state := pm_state m, sl_policy := pm_policy m, sl_memory_gb := pm_memory_gb m,
     sl_charge := pm_charge m, sl_inherited := pm_inherited m\<rparr>"

definition retain_on_error :: "previous_model \<Rightarrow> slot \<Rightarrow> slot" where
  "retain_on_error m s = restore_slot (m\<lparr>pm_state := MError,
     pm_memory_gb := f64_max (sl_memory_gb s) (pm_memory_gb m), pm_charge := max (sl_charge s) (pm_charge m)\<rparr>) s"

definition retain_unconfirmed :: "previous_model option \<Rightarrow> slot \<Rightarrow> slot" where
  "retain_unconfirmed previous s =
     (let s' = s\<lparr>sl_state := MError, sl_unconfirmed := True\<rparr>
      in case previous of
           None \<Rightarrow> s'
         | Some m \<Rightarrow> s'\<lparr>sl_policy := pm_policy m, sl_memory_gb := f64_max (sl_memory_gb s) (pm_memory_gb m),
                        sl_charge := max (sl_charge s) (pm_charge m)\<rparr>)"

definition change_slot :: "string \<Rightarrow> string \<Rightarrow> (slot \<Rightarrow> slot) \<Rightarrow> slots \<Rightarrow> message option \<times> slots" where
  "change_slot i suffix f ms =
     (case map_of ms i of
        None \<Rightarrow> (Some [Text ''ledger lost '', Quoted i, Text ('' mid-op '' @ suffix)], ms)
      | Some s \<Rightarrow> (None, AList.update i (f s) ms))"

fun apply_failure :: "string \<Rightarrow> failure_outcome \<Rightarrow> slots \<Rightarrow> env \<Rightarrow> message option \<times> slots \<times> env" where
  "apply_failure i (Settle st) ms E =
     (case set_state_or_poison ms i st of Inl m \<Rightarrow> (Some m, ms, E) | Inr ms' \<Rightarrow> (None, ms', E))"
| "apply_failure i (SettleReleased status) ms E =
     (case set_state_or_poison ms i Stopped of
        Inl m \<Rightarrow> (Some m, ms, E) | Inr ms' \<Rightarrow> (None, ms', refresh_aggregate ms' status E))"
| "apply_failure i (RestorePrevious m) ms E =
     (let (v, ms') = change_slot i ''(reload)'' (restore_slot m) ms in (v, ms', E))"
| "apply_failure i (RetainPreviousOnError m) ms E =
     (let (v, ms') = change_slot i ''(reload)'' (retain_on_error m) ms in (v, ms', E))"
| "apply_failure i (RetainUnconfirmedLoad previous) ms E =
     (let (v, ms') = change_slot i ''(unconfirmed load)'' (retain_unconfirmed previous) ms in (v, ms', E))"

text \<open>The slots and the aggregate after an outcome, with the sequence number it may use up.\<close>

definition apply_result ::
    "string \<Rightarrow> model_state \<Rightarrow> backend_error + unit \<Rightarrow> failure_outcome \<Rightarrow> u64 \<Rightarrow> slots \<Rightarrow> env
     \<Rightarrow> message option \<times> slots \<times> env \<times> u64" where
  "apply_result i done_state result f seq ms E =
     (case result of
        Inr _ \<Rightarrow> (let (v, ms') = apply_success i done_state (seq + 1) ms in (v, ms', E, seq + 1))
      | Inl _ \<Rightarrow> (let (v, ms', E') = apply_failure i f ms E in (v, ms', E', seq)))"

fun apply_outcome :: "string \<Rightarrow> op_outcome \<Rightarrow> u64 \<Rightarrow> slots \<Rightarrow> env \<Rightarrow> message option \<times> slots \<times> env \<times> u64" where
  "apply_outcome i (LoadOutcome r) seq ms E =
     (case apply_victims (lo_victims r) ms of
        (Some m, ms') \<Rightarrow> (Some m, ms', E, seq)
      | (None, ms') \<Rightarrow>
          let E' = (case lo_aggregate r of
                None \<Rightarrow> E
              | Some status \<Rightarrow> refresh_aggregate_except ms' status (Some i) (lo_target_credit_gb r) E)
          in apply_result i MReady (lo_result r) (lo_failure r) seq ms' E')"
| "apply_outcome i (UnloadOutcome result status) seq ms E =
     (let (v, ms', E', seq') = apply_result i Stopped result (Settle MError) seq ms E
      in (v, ms', case status of None \<Rightarrow> E' | Some st \<Rightarrow> refresh_aggregate ms' st E', seq'))"

fun outcome_result :: "op_outcome \<Rightarrow> backend_error + unit" where
  "outcome_result (LoadOutcome r) = lo_result r"
| "outcome_result (UnloadOutcome result _) = result"

definition reply_all :: "nat list \<Rightarrow> backend_error + unit \<Rightarrow> effect list" where
  "reply_all ws v = map (\<lambda>w. Reply w (done_or v)) ws"

definition op_done :: "string \<Rightarrow> op_outcome \<Rightarrow> actor \<Rightarrow> (actor \<times> effect list) option" where
  "op_done i outcome A =
     (let (v, ms, E, seq) = apply_outcome i outcome (ac_next_seq A) (ac_models A) (ac_env A);
          waiters = map_option (\<lambda>(_, kind). waiters_of kind) (ac_active A);
          v' = (if v = None \<and> waiters = None
                then Some [Text ''OpDone for '', Quoted i, Text '' with no active op''] else v);
          (v'', E') = (if v' \<noteq> None then (v', E)
                else case settle_runtime_capacity ms E of
                  (Inl e, E1) \<Rightarrow> (Some (Text ''global capacity reconciliation failed: '' # display_error e), E1)
                | (Inr _, E1) \<Rightarrow> (None, E1));
          A' = A\<lparr>ac_models := ms, ac_env := E', ac_next_seq := seq, ac_active := None\<rparr>
      in case (v'', waiters) of
           (Some m, Some ws) \<Rightarrow> Some (A'\<lparr>ac_poisoned := Some m\<rparr>, reply_all ws (Inl (InvariantViolation m)))
         | (Some m, None) \<Rightarrow> Some (A'\<lparr>ac_poisoned := Some m\<rparr>, [])
         | (None, Some ws) \<Rightarrow> Some (A', reply_all ws (outcome_result outcome))
         | (None, None) \<Rightarrow> None)"

definition op_done_poisoned :: "message \<Rightarrow> actor \<Rightarrow> (actor \<times> effect list) option" where
  "op_done_poisoned m A =
     Some (A\<lparr>ac_active := None\<rparr>,
       case ac_active A of None \<Rightarrow> [] | Some (_, kind) \<Rightarrow> reply_all (waiters_of kind) (Inl (InvariantViolation m)))"

definition chat_done :: "string \<Rightarrow> actor \<Rightarrow> (actor \<times> effect list) option" where
  "chat_done m A =
     (case map_of (ac_models A) m of
        None \<Rightarrow> Some (A\<lparr>ac_poisoned := Some [Text ''ledger has no entry for '', Quoted m]\<rparr>, [])
      | Some s \<Rightarrow>
          let inflight = saturating_sub (sl_inflight s) 1;
              ms = AList.update m (s\<lparr>sl_inflight := inflight\<rparr>) (ac_models A);
              A' = A\<lparr>ac_models := ms\<rparr>
          in case ac_active A of
               Some (i, ActiveUnload ws False) \<Rightarrow>
                 if inflight = 0 \<and> i = m
                 then Some (A'\<lparr>ac_active := Some (i, ActiveUnload ws True)\<rparr>, [StartUnload m (unload_limit_gb (ac_env A) ms m)])
                 else Some (A', [])
             | _ \<Rightarrow> Some (A', []))"

section \<open>One step\<close>

fun actor_step :: "fence_io \<Rightarrow> actor_msg \<Rightarrow> actor \<Rightarrow> (actor \<times> effect list) option" where
  "actor_step fio (Cmd c) A =
     (case ac_poisoned A of
        Some m \<Rightarrow> answer (reply_of c) (Inl (InvariantViolation m)) A
      | None \<Rightarrow> handle_command fio c A)"
| "actor_step fio (OpDone i outcome) A =
     (case ac_poisoned A of Some m \<Rightarrow> op_done_poisoned m A | None \<Rightarrow> op_done i outcome A)"
| "actor_step fio (ChatDone m) A =
     (case ac_poisoned A of Some _ \<Rightarrow> Some (A, []) | None \<Rightarrow> chat_done m A)"

section \<open>Startup\<close>

record supervisor_config =
  cfg_budget_gb :: f64
  cfg_max_calls :: nat
  cfg_polls :: poll_limits

text \<open>The startup sample: no probe is \<open>None\<close>.\<close>

definition startup_status :: "f64 \<Rightarrow> backend_status answer option \<Rightarrow> backend_error + backend_status" where
  "startup_status budget probe =
     bind_result (case probe of
         None \<Rightarrow> Inr \<lparr>bs_pressure = PressureUnknown, bs_used_gb = f64_zero, bs_model_memory_max_gb = budget, bs_loaded = []\<rparr>
       | Some (Answered r) \<Rightarrow> r
       | Some TimedOut \<Rightarrow> Inl (AdapterTimedOut ''startup/status'')
       | Some (Panicked m) \<Rightarrow> Inl (AdapterPanicked ''startup/status'' m)) (\<lambda>st.
     if \<not> f64_is_finite (bs_used_gb st) \<or> f64_lt (bs_used_gb st) f64_zero
        \<or> f64_eq (bs_used_gb st) f64_zero \<and> bs_loaded st \<noteq> []
     then Inl (Internal [Text ''engine residency has no valid memory measurement''])
     else Inr st)"

fun first_error :: "backend_error + unit \<Rightarrow> backend_error option" where
  "first_error (Inl e) = Some e"
| "first_error (Inr _) = None"

definition startup_tracking :: "backend_error + backend_status \<Rightarrow> tracking \<Rightarrow> backend_error option \<times> tracking" where
  "startup_tracking startup t =
     (case startup of
        Inr st \<Rightarrow>
          (case adopt_observed (tr_key t) None (bs_used_gb st) (tr_ledger t) of
             (Inl e, L) \<Rightarrow> (Some e, t\<lparr>tr_ledger := L\<rparr>)
           | (Inr _, L) \<Rightarrow> (let (r, t') = record_observed_claim (bs_used_gb st) (t\<lparr>tr_ledger := L\<rparr>) in (first_error r, t')))
      | Inl _ \<Rightarrow>
          (case block_growth_for_unknown_residency (tr_key t) None (tr_ledger t) of
             (Inl e, L) \<Rightarrow> (Some e, t\<lparr>tr_ledger := L\<rparr>)
           | (Inr gb, L) \<Rightarrow> (let (r, t') = record_observed_claim gb (t\<lparr>tr_ledger := L\<rparr>) in (first_error r, t'))))"

definition inherited_slot :: slot where
  "inherited_slot = \<lparr>sl_memory_gb = f64_zero, sl_charge = 0, sl_state = MError, sl_last_used_seq = 0,
     sl_policy = \<lparr>lp_mode = OnDemand, lp_keepalive = Pinned True, lp_admission = Coexist\<rparr>,
     sl_inflight = 0, sl_unconfirmed = False, sl_inherited = True\<rparr>"

definition or_else :: "'a option \<Rightarrow> 'a option \<Rightarrow> 'a option" where
  "or_else a b = (case a of Some _ \<Rightarrow> a | None \<Rightarrow> b)"

text \<open>The fence is claimed (\<open>Inl\<close> if it cannot be) and then checked for a left-over marker.\<close>

definition start_actor ::
    "supervisor_config \<Rightarrow> backend_error + (backend_error + unit) \<Rightarrow> tracking option \<Rightarrow> backend_status answer option \<Rightarrow> actor" where
  "start_actor cfg fence capacity probe =
     (let fence_error = (case fence of Inl e \<Rightarrow> Some e | Inr check \<Rightarrow> first_error check);
          startup = startup_status (cfg_budget_gb cfg) probe;
          tracked = map_option (startup_tracking startup) (if probe = None then None else capacity);
          ms = (case startup of Inl _ \<Rightarrow> [] | Inr st \<Rightarrow> fold (\<lambda>i. AList.update i inherited_slot) (bs_loaded st) [])
      in \<lparr>ac_models = ms, ac_active = None, ac_next_seq = 0, ac_poisoned = None,
          ac_env = \<lparr>env_budget_gb = cfg_budget_gb cfg,
            env_reserved_gb = (case startup of Inl _ \<Rightarrow> f64_zero | Inr st \<Rightarrow> bs_used_gb st),
            env_covered = [], env_capacity = map_option snd tracked,
            env_startup_error = or_else (or_else fence_error (Option.bind tracked fst))
              (case startup of Inl e \<Rightarrow> Some e | Inr _ \<Rightarrow> None)\<rparr>,
          ac_has_fence = (case fence of Inl _ \<Rightarrow> False | Inr _ \<Rightarrow> True),
          ac_permits = max (cfg_max_calls cfg) 1\<rparr>)"

definition spawn_inner ::
    "supervisor_config \<Rightarrow> backend_error + (backend_error + unit) \<Rightarrow> tracking option \<Rightarrow> backend_status answer option
     \<Rightarrow> backend_error + actor" where
  "spawn_inner cfg fence capacity probe =
     (if \<not> f64_is_finite (cfg_budget_gb cfg) \<or> f64_lt (cfg_budget_gb cfg) f64_zero
      then Inl (Internal [Text ''SupervisorConfig::budget_gb must be finite and >= 0, got '', Float (cfg_budget_gb cfg)])
      else Inr (start_actor cfg fence capacity probe))"

definition spawn_with_startup_capacity ::
    "supervisor_config \<Rightarrow> backend_error + (backend_error + unit) \<Rightarrow> capacity_ledger \<Rightarrow> string \<Rightarrow> backend_status answer option
     \<Rightarrow> backend_error + actor" where
  "spawn_with_startup_capacity cfg fence L runtime_id probe =
     (if is_blank runtime_id then Inl (InvalidRequest [Text ''startup capacity runtime id must not be empty''])
      else spawn_inner cfg fence (Some \<lparr>tr_ledger = L, tr_key = ''runtime:'' @ runtime_id, tr_claimed_gb = f64_zero,
             tr_exact_claim = (if uses_exact_bytes L then Some 0 else None)\<rparr>) probe)"

end
