(* ===== verification/Supervisor_Safety.thy ===== *)
theory Supervisor_Safety
  imports Supervisor "HOL-Library.Multiset"
begin

text \<open>
  The actor and the tasks it spawns as one system, and the invariant that ties them together. A
  task ends when its report is handled: a report waiting in the channel has no effect on the actor
  before that. Only a chat's permit is given back earlier, by at most as many chats as the channel
  holds reports.
\<close>

section \<open>The invariant of the actor\<close>

datatype task =
    LoadTask load_task
  | UnloadTask string f64
  | ChatTask string bool
  | ListTask

fun task_of :: "effect \<Rightarrow> task list" where
  "task_of (StartLoad T) = [LoadTask T]"
| "task_of (StartUnload i gb) = [UnloadTask i gb]"
| "task_of (StartChat m _) = [ChatTask m True]"
| "task_of (StartList _) = [ListTask]"
| "task_of (Reply _ _) = []"

definition spawned :: "effect list \<Rightarrow> task list" where
  "spawned es = concat (map task_of es)"

fun is_op :: "task \<Rightarrow> bool" where
  "is_op (LoadTask _) = True"
| "is_op (UnloadTask _ _) = True"
| "is_op _ = False"

fun chats_on :: "string \<Rightarrow> task list \<Rightarrow> nat" where
  "chats_on m [] = 0"
| "chats_on m (t # ts) = (case t of ChatTask j _ \<Rightarrow> (if j = m then 1 else 0) | _ \<Rightarrow> 0) + chats_on m ts"

definition resting :: "slot \<Rightarrow> bool" where
  "resting s \<longleftrightarrow> sl_state s \<in> {MReady, MError, Stopped} \<and> (sl_unconfirmed s \<longrightarrow> sl_state s = MError)"

text \<open>A slot an operation is working on: no chat is running on it and its state is as given.\<close>

definition held :: "slots \<Rightarrow> string \<Rightarrow> model_state \<Rightarrow> bool" where
  "held ms i st \<longleftrightarrow> (case map_of ms i of None \<Rightarrow> False
     | Some s \<Rightarrow> sl_state s = st \<and> sl_inflight s = 0 \<and> \<not> sl_unconfirmed s)"

definition others_rest :: "slots \<Rightarrow> string set \<Rightarrow> bool" where
  "others_rest ms X \<longleftrightarrow> (\<forall>j s. j \<notin> X \<longrightarrow> map_of ms j = Some s \<longrightarrow> resting s)"

definition load_held :: "slots \<Rightarrow> load_task \<Rightarrow> bool" where
  "load_held ms T \<longleftrightarrow> held ms (lt_id T) Loading \<and> lt_id T \<notin> set (lt_evict T)
     \<and> (\<forall>v \<in> set (lt_evict T). held ms v Stopping)
     \<and> others_rest ms (insert (lt_id T) (set (lt_evict T)))
     \<and> (\<forall>m. lt_previous T = Some m \<longrightarrow> pm_state m \<in> {MReady, MError})"

definition draining :: "slots \<Rightarrow> string \<Rightarrow> bool" where
  "draining ms i \<longleftrightarrow> (case map_of ms i of None \<Rightarrow> False
     | Some s \<Rightarrow> sl_state s = Stopping \<and> sl_inflight s \<noteq> 0 \<and> \<not> sl_unconfirmed s)"

text \<open>The operation the actor has on record against the operation tasks that exist.\<close>

fun op_inv :: "slots \<Rightarrow> (string \<times> active_kind) option \<Rightarrow> task list \<Rightarrow> bool" where
  "op_inv ms None ops \<longleftrightarrow> ops = [] \<and> others_rest ms {}"
| "op_inv ms (Some (i, ActiveLoad _ _ _ _)) ops \<longleftrightarrow> (\<exists>T. ops = [LoadTask T] \<and> lt_id T = i \<and> load_held ms T)"
| "op_inv ms (Some (i, ActiveUnload _ True)) ops \<longleftrightarrow>
     (\<exists>gb. ops = [UnloadTask i gb] \<and> held ms i Stopping \<and> others_rest ms {i})"
| "op_inv ms (Some (i, ActiveUnload _ False)) ops \<longleftrightarrow> ops = [] \<and> draining ms i \<and> others_rest ms {i}"

definition counts_chats :: "slots \<Rightarrow> (string \<Rightarrow> nat) \<Rightarrow> bool" where
  "counts_chats ms n \<longleftrightarrow> (\<forall>j. n j = (case map_of ms j of None \<Rightarrow> 0 | Some s \<Rightarrow> unat (sl_inflight s)))"

abbreviation capacity_failure :: msg_part where
  "capacity_failure \<equiv> Text ''global capacity reconciliation failed: ''"

definition actor_inv :: "actor \<Rightarrow> task list \<Rightarrow> (string \<Rightarrow> nat) \<Rightarrow> bool" where
  "actor_inv A ops n \<longleftrightarrow> distinct (map fst (ac_models A))
     \<and> (case ac_poisoned A of
          Some m \<Rightarrow> (\<exists>e. m = capacity_failure # display_error e) \<and> ac_active A = None \<and> ops = []
            \<and> others_rest (ac_models A) {}
        | None \<Rightarrow> counts_chats (ac_models A) n \<and> op_inv (ac_models A) (ac_active A) ops)"

text \<open>What is known of a load that may still be running is not forgotten.\<close>

definition retained :: "slots \<Rightarrow> slots \<Rightarrow> bool" where
  "retained ms ms' \<longleftrightarrow> (\<forall>i s. map_of ms i = Some s \<longrightarrow> sl_unconfirmed s \<longrightarrow>
     (\<exists>s'. map_of ms' i = Some s' \<and> sl_unconfirmed s' \<and> sl_state s' = sl_state s
        \<and> sl_memory_gb s' = sl_memory_gb s \<and> sl_charge s' = sl_charge s))"

text \<open>
  A handler does not panic, and what it leaves satisfies the invariant with the tasks it adds and
  keeps the slots whose load is unconfirmed.
\<close>

definition keeps :: "actor \<Rightarrow> task list \<Rightarrow> (string \<Rightarrow> nat) \<Rightarrow> (actor \<times> effect list) option \<Rightarrow> bool" where
  "keeps A ops n r \<longleftrightarrow> (case r of None \<Rightarrow> False
     | Some (A', es) \<Rightarrow> actor_inv A' (ops @ filter is_op (spawned es)) (\<lambda>j. n j + chats_on j (spawned es))
         \<and> retained (ac_models A) (ac_models A'))"

section \<open>Slots and their updates\<close>

lemma spawned_simps [simp]: "spawned [] = []" "spawned (e # es) = task_of e @ spawned es"
  by (simp_all add: spawned_def)

lemma chats_on_append [simp]: "chats_on m (ts @ us) = chats_on m ts + chats_on m us"
  by (induction ts) simp_all

lemmas alist_simps = update_conv' distinct_update

lemma spawned_reply_all [simp]: "spawned (reply_all ws v) = []"
  by (induction ws) (simp_all add: reply_all_def)

lemma retained_refl [simp]: "retained ms ms"
  by (simp add: retained_def)

lemma retained_update:
  assumes "map_of ms i = Some s"
    and "sl_unconfirmed s \<Longrightarrow> sl_unconfirmed s' \<and> sl_state s' = sl_state s \<and> sl_memory_gb s' = sl_memory_gb s \<and> sl_charge s' = sl_charge s"
  shows "retained ms (AList.update i s' ms)"
  using assms by (auto simp: retained_def alist_simps)

lemma retained_unless:
  assumes "\<And>j. j \<notin> X \<Longrightarrow> map_of ms' j = map_of ms j"
    and "\<And>j s. j \<in> X \<Longrightarrow> map_of ms j = Some s \<Longrightarrow> \<not> sl_unconfirmed s"
  shows "retained ms ms'"
  unfolding retained_def using assms by metis

lemma keeps_some [simp]:
  "keeps A ops n (Some (A', es)) \<longleftrightarrow>
     actor_inv A' (ops @ filter is_op (spawned es)) (\<lambda>j. n j + chats_on j (spawned es)) \<and> retained (ac_models A) (ac_models A')"
  by (simp add: keeps_def)

lemma keeps_answer: "actor_inv A' ops n \<Longrightarrow> ac_models A' = ac_models A \<Longrightarrow> keeps A ops n (answer r v A')"
  by (simp add: answer_def)

lemma actor_inv_env [simp]: "actor_inv (A\<lparr>ac_env := E\<rparr>) ops n = actor_inv A ops n"
  by (simp add: actor_inv_def split: option.split)

lemma actor_inv_permits [simp]: "actor_inv (A\<lparr>ac_permits := k\<rparr>) ops n = actor_inv A ops n"
  by (simp add: actor_inv_def split: option.split)

lemma heldE:
  assumes "held ms i st"
  obtains s where "map_of ms i = Some s" "sl_state s = st" "sl_inflight s = 0" "\<not> sl_unconfirmed s"
  using assms by (auto simp: held_def split: option.splits)

lemma heldI:
  "map_of ms i = Some s \<Longrightarrow> sl_state s = st \<Longrightarrow> sl_inflight s = 0 \<Longrightarrow> \<not> sl_unconfirmed s \<Longrightarrow> held ms i st"
  by (simp add: held_def)

lemma counts_chats_update:
  "map_of ms i = Some s \<Longrightarrow> sl_inflight s' = sl_inflight s \<Longrightarrow> counts_chats ms n \<Longrightarrow> counts_chats (AList.update i s' ms) n"
  by (simp add: counts_chats_def alist_simps)

lemma set_state_total:
  "map_of ms i = Some s \<Longrightarrow> set_state_or_panic ms i st = Some (AList.update i (s\<lparr>sl_state := st\<rparr>) ms)"
  by (simp add: set_state_or_panic_def)

section \<open>Planning\<close>

lemma plan_contains_self:
  assumes "plan_eviction st need = Inl (SnapshotContainsRequestedModel i)"
  shows "\<exists>m \<in> set (models st). m_id m = need_id need"
proof (rule ccontr)
  assume "\<not> ?thesis"
  then show False
    using eviction_refusal_exact [OF assms] by auto
qed

lemma snapshot_excludes: "m \<in> set (models (build_snapshot ms gb i)) \<Longrightarrow> m_id m \<noteq> i"
  by (auto simp: build_snapshot_def model_entry_of_def)

lemma plan_load_total: "plan_load E ms i gb \<noteq> None"
proof -
  have "map_plan_error e i \<noteq> None"
    if "plan_eviction (build_snapshot ms b i) \<lparr>need_id = i, need_memory_gb = g\<rparr> = Inl e" for b g e
    using plan_contains_self [of _ "\<lparr>need_id = i, need_memory_gb = g\<rparr>"] snapshot_excludes [of _ ms b i] that
    by (cases e) fastforce+
  then show ?thesis
    by (auto simp: plan_load_def Let_def split: sum.splits)
qed

text \<open>What the plan may evict: other models that rest, hold no chat and are confirmed.\<close>

lemma plan_load_victims:
  assumes "plan_load E ms i gb = Some (Inr p)" "v \<in> set (pl_evict p)" "distinct (map fst ms)"
  shows "v \<noteq> i \<and> (\<exists>s. map_of ms v = Some s \<and> sl_state s \<in> {MReady, MError} \<and> sl_inflight s = 0 \<and> \<not> sl_unconfirmed s)"
proof -
  from assms(1) obtain b g plan where
    pl: "plan_eviction (build_snapshot ms b i) \<lparr>need_id = i, need_memory_gb = g\<rparr> = Inr plan" "pl_evict p = evicted_ids plan"
    by (auto simp: plan_load_def Let_def result_simps split: if_splits sum.splits option.splits)
  with assms(2) obtain vs where "plan = Evict vs" "v \<in> set vs" by (cases plan) auto
  with eviction_victims_safe [of "build_snapshot ms b i"] pl(1) obtain m where
    m: "m \<in> set (models (build_snapshot ms b i))" "m_id m = v" "m_state m \<in> {MReady, MError}" "\<not> pinned m" "inflight m = 0" "v \<noteq> i"
    by fastforce
  then obtain s where "(v, s) \<in> set ms" "m = model_entry_of (v, s)"
    by (auto simp: build_snapshot_def model_entry_of_def)
  with m assms(3) show ?thesis
    by (auto simp: model_entry_of_def slot_pinned_def)
qed

section \<open>Commands keep the invariant\<close>

lemma mark_stopping_ok:
  assumes "distinct (map fst ms)" "\<forall>v \<in> set vs. map_of ms v \<noteq> None"
  shows "\<exists>ms'. mark_stopping vs ms = Some ms' \<and> distinct (map fst ms')
    \<and> (\<forall>j. map_of ms' j = (if j \<in> set vs then map_option (\<lambda>s. s\<lparr>sl_state := Stopping\<rparr>) (map_of ms j) else map_of ms j))"
  using assms
proof (induction vs arbitrary: ms)
  case Nil
  then show ?case by simp
next
  case (Cons v vs)
  from Cons.prems(2) obtain s where s: "map_of ms v = Some s" by auto
  let ?ms = "AList.update v (s\<lparr>sl_state := Stopping\<rparr>) ms"
  have "distinct (map fst ?ms)" "\<forall>w \<in> set vs. map_of ?ms w \<noteq> None"
    using Cons.prems by (auto simp: alist_simps)
  from Cons.IH [OF this] obtain ms' where ms': "mark_stopping vs ?ms = Some ms'" "distinct (map fst ms')"
    "\<forall>j. map_of ms' j = (if j \<in> set vs then map_option (\<lambda>s. s\<lparr>sl_state := Stopping\<rparr>) (map_of ?ms j) else map_of ?ms j)"
    by blast
  then show ?case
    by (intro exI [of _ ms']) (auto simp: set_state_total [OF s] alist_simps s)
qed

lemma install_load_keeps:
  assumes inv: "actor_inv A [] n" and idle: "ac_active A = None" "ac_poisoned A = None"
    and plan: "plan_load (ac_env A) (ac_models A) i gb = Some (Inr p)"
    and short: "load_shortcut (ac_models A) i policy = None"
  shows "keeps A [] n (install_load i gb policy breach r p E A)"
proof -
  let ?ms = "ac_models A"
  from inv idle have d: "distinct (map fst ?ms)" and n: "counts_chats ?ms n" and rest: "others_rest ?ms {}"
    by (auto simp: actor_inv_def)
  note victims = plan_load_victims [OF plan _ d]
  from mark_stopping_ok [OF d, of "pl_evict p"] victims obtain ms' where
    ms': "mark_stopping (pl_evict p) ?ms = Some ms'" "distinct (map fst ms')"
      "\<And>j. map_of ms' j = (if j \<in> set (pl_evict p) then map_option (\<lambda>s. s\<lparr>sl_state := Stopping\<rparr>) (map_of ?ms j) else map_of ?ms j)"
    by blast
  have i: "i \<notin> set (pl_evict p)" using victims by blast
  have old: "resting s" "sl_inflight s = 0" "\<not> sl_unconfirmed s" if "map_of ?ms i = Some s" for s
    using that rest short by (auto simp: load_shortcut_def others_rest_def split: if_splits)
  have ni: "n i = 0"
    using n old unfolding counts_chats_def by (cases "map_of ?ms i") auto
  define slot where "slot = new_slot p gb policy (case map_of ms' i of None \<Rightarrow> 0 | Some s \<Rightarrow> sl_last_used_seq s)"
  define prev where "prev = (case map_of ms' i of None \<Rightarrow> None
     | Some s \<Rightarrow> if occupies_budget (sl_state s) then Some (previous_of s) else None)"
  define ms2 where "ms2 = AList.update i (slot\<lparr>sl_state := Loading\<rparr>) (AList.update i slot ms')"
  obtain T where st: "start_load i policy (pl_evict p) prev E (AList.update i slot ms') = Some (ms2, T)"
    and T: "lt_id T = i" "lt_evict T = pl_evict p" "lt_previous T = prev"
    by (simp add: start_load_def set_state_total alist_simps ms2_def Let_def)
  have look: "map_of ms2 j = (if j = i then Some (slot\<lparr>sl_state := Loading\<rparr>) else map_of ms' j)" for j
    by (simp add: ms2_def alist_simps)
  have "load_held ms2 T"
    unfolding load_held_def T
  proof (intro conjI ballI allI impI)
    show "held ms2 i Loading" by (simp add: held_def look slot_def new_slot_def)
    show "held ms2 v Stopping" if "v \<in> set (pl_evict p)" for v
      using victims [OF that] that i by (auto simp: held_def look ms'(3))
    show "others_rest ms2 (insert i (set (pl_evict p)))"
      using rest by (auto simp: others_rest_def look ms'(3))
    show "pm_state m \<in> {MReady, MError}" if "prev = Some m" for m
      using that old i by (auto simp: prev_def ms'(3) previous_of_def resting_def split: option.splits if_splits)
  qed (rule i)
  moreover have "counts_chats ms2 n"
    using n ni unfolding counts_chats_def look by (auto simp: slot_def new_slot_def ms'(3) split: option.split)
  moreover have "distinct (map fst ms2)" by (simp add: ms2_def alist_simps ms'(2))
  moreover have "retained ?ms ms2"
  proof (rule retained_unless [where X = "insert i (set (pl_evict p))"])
    show "map_of ms2 j = map_of ?ms j" if "j \<notin> insert i (set (pl_evict p))" for j
      using that by (simp add: look ms'(3))
    show "\<not> sl_unconfirmed s" if "j \<in> insert i (set (pl_evict p))" "map_of ?ms j = Some s" for j s
      using that old(3) victims [of j] by (cases "j = i") auto
  qed
  ultimately show ?thesis
    using idle unfolding install_load_def ms'(1) bind.bind_lunit Let_def slot_def [symmetric] prev_def [symmetric] st
    by (simp add: keeps_def actor_inv_def T)
qed

lemma handle_load_keeps:
  assumes "actor_inv A ops n" "ac_poisoned A = None"
  shows "keeps A ops n (handle_load fio i gb policy breach r A)"
proof -
  have admit: "keeps A ops n (admit_load fio i gb policy breach r A)"
    if "ac_active A = None" "load_shortcut (ac_models A) i policy = None"
  proof -
    from assms that(1) have "ops = []" by (simp add: actor_inv_def)
    with install_load_keeps [OF _ that(1) assms(2) _ that(2)] assms plan_load_total [of "ac_env A" "ac_models A" i gb]
    show ?thesis
      by (auto simp: admit_load_def keeps_answer split: sum.split prod.split)
  qed
  have join: "keeps A ops n (join_load i gb policy breach r kind A)" if "ac_active A = Some (i, kind)" for kind
    using assms that
    by (cases kind) (auto simp: keeps_answer, auto simp: keeps_def actor_inv_def)
  show ?thesis
    using admit join assms(1)
    by (auto simp: handle_load_def keeps_answer Let_def split: option.split)
qed

lemma begin_unload_keeps:
  assumes inv: "actor_inv A [] n" and "ac_active A = None" "ac_poisoned A = None"
    and s: "map_of (ac_models A) i = Some s" and conf: "\<not> sl_unconfirmed s"
  shows "keeps A [] n (begin_unload i r A)"
proof -
  let ?ms = "AList.update i (s\<lparr>sl_state := Stopping\<rparr>) (ac_models A)"
  from assms have d: "distinct (map fst ?ms)" and n: "counts_chats ?ms n" and rest: "others_rest (ac_models A) {}"
    by (auto simp: actor_inv_def alist_simps counts_chats_update)
  from rest have "others_rest ?ms {i}" by (auto simp: others_rest_def alist_simps)
  moreover have "if sl_inflight s = 0 then held ?ms i Stopping else draining ?ms i"
    using conf by (simp add: held_def draining_def alist_simps)
  moreover have "retained (ac_models A) ?ms" by (rule retained_update [OF s]) (simp add: conf)
  ultimately show ?thesis
    using assms d n
    by (auto simp: begin_unload_def set_state_total [OF s] Let_def alist_simps keeps_def actor_inv_def split: if_splits)
qed

lemma handle_unload_keeps:
  assumes "actor_inv A ops n" "ac_poisoned A = None"
  shows "keeps A ops n (handle_unload i r A)"
proof -
  have join: "keeps A ops n (Some (A\<lparr>ac_active := Some (i, ActiveUnload (ws @ [r]) b)\<rparr>, []))"
    if "ac_active A = Some (i, ActiveUnload ws b)" for ws b
    using assms that by (cases b) (auto simp: keeps_def actor_inv_def)
  have go: "keeps A ops n (begin_unload i r A)"
    if "ac_active A = None" "map_of (ac_models A) i = Some s" "\<not> sl_unconfirmed s" for s
  proof -
    from assms that(1) have "ops = []" by (simp add: actor_inv_def)
    with begin_unload_keeps [OF _ that(1) assms(2) that(2,3)] assms show ?thesis by simp
  qed
  show ?thesis
    using join go assms(1)
    by (auto simp: handle_unload_def keeps_answer Let_def split: option.split active_kind.split)
qed

lemma held_update_other:
  "j \<noteq> m \<Longrightarrow> held (AList.update m s' ms) j st = held ms j st"
  "j \<noteq> m \<Longrightarrow> draining (AList.update m s' ms) j = draining ms j"
  by (simp_all add: held_def draining_def alist_simps)

lemma others_rest_update:
  "others_rest ms X \<Longrightarrow> m \<in> X \<or> resting s' \<Longrightarrow> others_rest (AList.update m s' ms) X"
  by (auto simp: others_rest_def alist_simps)

lemma op_inv_resting_update:
  assumes "map_of ms m = Some s" "resting s" "resting s'" "op_inv ms a ops"
  shows "op_inv (AList.update m s' ms) a ops"
proof -
  have "\<not> held ms m Loading" "\<not> held ms m Stopping" "\<not> draining ms m"
    using assms(1,2) by (auto simp: held_def draining_def resting_def)
  then have "held (AList.update m s' ms) j st" if "held ms j st" "st \<in> {Loading, Stopping}" for j st
    using that by (cases "j = m") (auto simp: held_update_other)
  moreover have "draining (AList.update m s' ms) j" if "draining ms j" for j
    using that \<open>\<not> draining ms m\<close> by (cases "j = m") (auto simp: held_update_other)
  moreover note others_rest_update [OF _ disjI2 [OF assms(3)], of ms _ m]
  ultimately show ?thesis
    using assms(4) by (cases "(ms, a, ops)" rule: op_inv.cases) (auto simp: load_held_def)
qed

definition worked_on :: "slots \<Rightarrow> string \<Rightarrow> bool" where
  "worked_on ms j \<longleftrightarrow> held ms j Loading \<or> held ms j Stopping \<or> draining ms j"

lemma op_inv_worked_on: "op_inv ms a ops \<Longrightarrow> \<exists>X. others_rest ms X \<and> (\<forall>j \<in> X. worked_on ms j)"
  by (cases "(ms, a, ops)" rule: op_inv.cases) (auto simp: load_held_def worked_on_def)

lemma ready_resting:
  assumes "op_inv ms a ops" "map_of ms m = Some s" "sl_state s \<in> {MReady, MError, Stopped}"
  shows "resting s"
proof -
  from assms(1) obtain X where X: "others_rest ms X" "\<forall>j \<in> X. worked_on ms j"
    using op_inv_worked_on by blast
  have "\<not> worked_on ms m" using assms(2,3) by (auto simp: worked_on_def held_def draining_def)
  with X assms(2) show ?thesis by (auto simp: others_rest_def)
qed

lemma handle_chat_keeps:
  assumes inv: "actor_inv A ops n" and ok: "ac_poisoned A = None" and bound: "Suc (n m) < 2 ^ 32"
  shows "keeps A ops n (handle_chat m r A)"
proof (cases "map_of (ac_models A) m")
  case None
  with inv show ?thesis by (simp add: handle_chat_def keeps_answer)
next
  case (Some s)
  show ?thesis
  proof (cases "sl_state s = MReady")
    case False
    then have "not_ready_error m (sl_state s) \<noteq> None" by (cases "sl_state s") auto
    with False Some inv show ?thesis by (auto simp: handle_chat_def keeps_answer)
  next
    case True
    define s' where "s' = s\<lparr>sl_last_used_seq := ac_next_seq A + 1, sl_inflight := sl_inflight s + 1\<rparr>"
    from inv ok have op: "op_inv (ac_models A) (ac_active A) ops" and n: "counts_chats (ac_models A) n"
      by (auto simp: actor_inv_def)
    have rest: "resting s" using ready_resting [OF op Some] True by simp
    then have "resting s'" by (simp add: resting_def s'_def)
    with op_inv_resting_update [OF Some rest _ op]
    have op': "op_inv (AList.update m s' (ac_models A)) (ac_active A) ops" by blast
    have nm: "n m = unat (sl_inflight s)" using n Some unfolding counts_chats_def by (metis option.simps(5))
    with bound have "unat (sl_inflight s + 1) = unat (sl_inflight s) + 1"
      by (simp add: unat_word_ariths)
    then have "counts_chats (AList.update m s' (ac_models A)) (\<lambda>j. n j + (if m = j then 1 else 0))"
      using n Some nm by (auto simp: counts_chats_def alist_simps s'_def)
    moreover have "retained (ac_models A) (AList.update m s' (ac_models A))"
      by (rule retained_update [OF Some]) (simp add: s'_def)
    ultimately show ?thesis
      using op' inv ok Some True by (auto simp: handle_chat_def keeps_answer actor_inv_def alist_simps Let_def s'_def)
  qed
qed

lemma handle_list_keeps: "actor_inv A ops n \<Longrightarrow> keeps A ops n (handle_list r A)"
  by (simp add: handle_list_def keeps_answer)

lemma command_keeps:
  assumes "actor_inv A ops n" "\<forall>m. Suc (n m) < 2 ^ 32"
  shows "keeps A ops n (actor_step fio (Cmd c) A)"
proof (cases "ac_poisoned A")
  case (Some m)
  with assms show ?thesis by (simp add: keeps_answer)
next
  case None
  with assms show ?thesis
    by (cases c) (simp_all add: unless_startup_error_def keeps_answer handle_list_keeps handle_chat_keeps
      handle_load_keeps handle_unload_keeps split: option.split)
qed

section \<open>Completions keep the invariant\<close>

lemma set_state_or_poison_ok:
  "map_of ms i = Some s \<Longrightarrow> set_state_or_poison ms i st
     = Inr (AList.update i (s\<lparr>sl_state := st, sl_inherited := (sl_inherited s \<and> st \<noteq> Stopped)\<rparr>) ms)"
  by (simp add: set_state_or_poison_def)

text \<open>What an outcome does to a slot it may touch: chats stay, and it rests.\<close>

definition settles :: "slots \<Rightarrow> slots \<Rightarrow> string set \<Rightarrow> bool" where
  "settles ms ms' X \<longleftrightarrow> (\<forall>j. if j \<in> X
     then (\<exists>s s'. map_of ms j = Some s \<and> map_of ms' j = Some s' \<and> sl_inflight s' = sl_inflight s \<and> resting s')
     else map_of ms' j = map_of ms j)"

lemma settlesE:
  assumes "settles ms ms' X" "j \<in> X"
  obtains s s' where "map_of ms j = Some s" "map_of ms' j = Some s'" "sl_inflight s' = sl_inflight s" "resting s'"
  using assms unfolding settles_def by metis

lemma settles_other: "settles ms ms' X \<Longrightarrow> j \<notin> X \<Longrightarrow> map_of ms' j = map_of ms j"
  unfolding settles_def by metis

lemma settles_update:
  "map_of ms i = Some s \<Longrightarrow> sl_inflight s' = sl_inflight s \<Longrightarrow> resting s' \<Longrightarrow> settles ms (AList.update i s' ms) {i}"
  by (auto simp: settles_def alist_simps)

lemma settles_trans:
  assumes "settles ms ms1 X" "settles ms1 ms2 Y"
  shows "settles ms ms2 (X \<union> Y)"
  unfolding settles_def
proof
  fix j
  show "if j \<in> X \<union> Y then (\<exists>s s'. map_of ms j = Some s \<and> map_of ms2 j = Some s' \<and> sl_inflight s' = sl_inflight s \<and> resting s')
    else map_of ms2 j = map_of ms j"
  proof (cases "j \<in> Y")
    case True
    then obtain s1 s2 where 2: "map_of ms1 j = Some s1" "map_of ms2 j = Some s2" "sl_inflight s2 = sl_inflight s1" "resting s2"
      by (rule settlesE [OF assms(2)])
    show ?thesis
    proof (cases "j \<in> X")
      case T: True
      then show ?thesis using 2 by (auto elim!: settlesE [OF assms(1)])
    next
      case False
      with settles_other [OF assms(1) False] 2 True show ?thesis by (metis Un_iff)
    qed
  next
    case False
    with settles_other [OF assms(2) False] settles_other [OF assms(1), of j] show ?thesis
      by (auto elim!: settlesE [OF assms(1)])
  qed
qed

lemma settles_others_rest:
  assumes "settles ms ms' X" "others_rest ms X"
  shows "others_rest ms' {}"
  unfolding others_rest_def
proof (intro allI impI)
  fix j s
  assume s: "map_of ms' j = Some s"
  show "resting s"
  proof (cases "j \<in> X")
    case True
    with s show ?thesis by (auto elim: settlesE [OF assms(1)])
  next
    case False
    with s assms(2) settles_other [OF assms(1) False] show ?thesis by (auto simp: others_rest_def)
  qed
qed

lemma settles_counts:
  assumes "settles ms ms' X" "counts_chats ms n"
  shows "counts_chats ms' n"
  unfolding counts_chats_def
proof
  fix j
  show "n j = (case map_of ms' j of None \<Rightarrow> 0 | Some s \<Rightarrow> unat (sl_inflight s))"
    using assms(2) settles_other [OF assms(1), of j]
    by (cases "j \<in> X") (auto simp: counts_chats_def elim!: settlesE [OF assms(1)])
qed

lemma apply_victims_settles:
  assumes "distinct (map fst ms)" "\<forall>v \<in> set (map fst vs). \<exists>s. map_of ms v = Some s \<and> \<not> sl_unconfirmed s"
  shows "\<exists>ms'. apply_victims vs ms = (None, ms') \<and> distinct (map fst ms') \<and> settles ms ms' (set (map fst vs))"
  using assms
proof (induction vs arbitrary: ms)
  case Nil
  then show ?case by (simp add: settles_def)
next
  case (Cons p vs)
  obtain v r where p: "p = (v, r)" by (cases p)
  from Cons.prems(2) obtain s where s: "map_of ms v = Some s" "\<not> sl_unconfirmed s" by (auto simp: p)
  let ?st = "if is_ok r then Stopped else MError"
  let ?s = "s\<lparr>sl_state := ?st, sl_inherited := (sl_inherited s \<and> ?st \<noteq> Stopped)\<rparr>"
  let ?ms = "AList.update v ?s ms"
  have "\<exists>s'. map_of ?ms w = Some s' \<and> \<not> sl_unconfirmed s'" if "w \<in> set (map fst vs)" for w
    using Cons.prems(2) that s by (cases "w = v") (auto simp: alist_simps)
  then obtain ms' where ms': "apply_victims vs ?ms = (None, ms')" "distinct (map fst ms')" "settles ?ms ms' (set (map fst vs))"
    using Cons.IH [of ?ms] Cons.prems(1) by (auto simp: alist_simps)
  have "settles ms ?ms {v}" by (rule settles_update [OF s(1)]) (auto simp: resting_def s(2))
  from settles_trans [OF this ms'(3)] ms'(1,2) show ?case
    by (simp add: p set_state_or_poison_ok [OF s(1)])
qed

fun failure_rests :: "failure_outcome \<Rightarrow> bool" where
  "failure_rests (Settle st) \<longleftrightarrow> st \<in> {Stopped, MError}"
| "failure_rests (RestorePrevious m) \<longleftrightarrow> pm_state m \<in> {MReady, MError}"
| "failure_rests _ \<longleftrightarrow> True"

lemma apply_failure_settles:
  assumes s: "map_of ms i = Some s" "\<not> sl_unconfirmed s" and d: "distinct (map fst ms)" and f: "failure_rests f"
  shows "\<exists>ms' E'. apply_failure i f ms E = (None, ms', E') \<and> distinct (map fst ms') \<and> settles ms ms' {i}"
proof (cases f)
  case (RetainUnconfirmedLoad prev)
  then show ?thesis
    by (cases prev) (auto simp: change_slot_def retain_unconfirmed_def s d alist_simps resting_def
      intro!: settles_update [OF s(1)])
qed (use s d f in \<open>auto simp: set_state_or_poison_ok change_slot_def restore_slot_def retain_on_error_def alist_simps resting_def
    intro!: settles_update [OF s(1)]\<close>)

lemma apply_result_settles:
  assumes s: "map_of ms i = Some s" "\<not> sl_unconfirmed s" and d: "distinct (map fst ms)" and f: "failure_rests f"
    and st: "st \<in> {MReady, Stopped}"
  shows "\<exists>ms' E' seq'. apply_result i st r f seq ms E = (None, ms', E', seq') \<and> distinct (map fst ms') \<and> settles ms ms' {i}"
proof (cases r)
  case (Inl e)
  with apply_failure_settles [OF s d f, of E] show ?thesis by (auto simp: apply_result_def)
next
  case (Inr u)
  then show ?thesis
    using s d st by (auto simp: apply_result_def apply_success_def alist_simps resting_def intro!: settles_update [OF s(1)])
qed

lemma op_done_keeps:
  assumes inv: "actor_inv A ops n" "ac_poisoned A = None" "ac_active A = Some a"
    and out: "apply_outcome i outcome (ac_next_seq A) (ac_models A) (ac_env A) = (None, ms, E, seq)"
    and ms: "distinct (map fst ms)" "settles (ac_models A) ms X" "others_rest (ac_models A) X"
    and X: "\<forall>j \<in> X. worked_on (ac_models A) j"
  shows "keeps A [] n (op_done i outcome A)"
proof -
  have "retained (ac_models A) ms"
    by (rule retained_unless [OF settles_other [OF ms(2)]])
       (use X in \<open>auto simp: worked_on_def held_def draining_def\<close>)
  moreover
  have "counts_chats ms n" "others_rest ms {}"
    using settles_counts [OF ms(2)] settles_others_rest [OF ms(2,3)] inv by (auto simp: actor_inv_def)
  ultimately show ?thesis
    using inv ms(1)
    by (auto simp: op_done_def out Let_def actor_inv_def split: prod.split sum.split)
qed

lemma load_done_keeps:
  assumes inv: "actor_inv A [LoadTask T] n" and fits: "outcome_fits T r"
  shows "keeps A [] n (actor_step fio (OpDone (lt_id T) (LoadOutcome r)) A)"
proof -
  let ?ms = "ac_models A" and ?X = "insert (lt_id T) (set (lt_evict T))"
  from inv have ok: "ac_poisoned A = None" by (auto simp: actor_inv_def split: option.splits)
  with inv have d: "distinct (map fst ?ms)" and op: "op_inv ?ms (ac_active A) [LoadTask T]"
    by (auto simp: actor_inv_def)
  from op obtain a where a: "ac_active A = Some a" and held: "load_held ?ms T"
    by (cases "(?ms, ac_active A, [LoadTask T])" rule: op_inv.cases) auto
  have victims: "set (map fst (lo_victims r)) = set (lt_evict T)" using fits by (metis outcome_fits_def)
  have "\<exists>s. map_of ?ms v = Some s \<and> \<not> sl_unconfirmed s" if "v \<in> set (map fst (lo_victims r))" for v
    using held that victims by (auto simp: load_held_def elim!: heldE)
  then obtain ms1 where ms1: "apply_victims (lo_victims r) ?ms = (None, ms1)" "distinct (map fst ms1)"
    "settles ?ms ms1 (set (lt_evict T))"
    using apply_victims_settles [OF d, of "lo_victims r"] victims by auto
  obtain s where s: "map_of ms1 (lt_id T) = Some s" "\<not> sl_unconfirmed s"
    using held settles_other [OF ms1(3), of "lt_id T"] by (auto simp: load_held_def elim!: heldE)
  have "failure_rests (lo_failure r)"
    using fits held by (cases "lo_failure r") (auto simp: outcome_fits_def load_held_def)
  from apply_result_settles [OF s ms1(2) this]
  obtain ms2 E2 seq2 where r: "apply_outcome (lt_id T) (LoadOutcome r) (ac_next_seq A) ?ms (ac_env A) = (None, ms2, E2, seq2)"
    and ms2: "distinct (map fst ms2)" "settles ms1 ms2 {lt_id T}"
    by (fastforce simp: ms1(1) Let_def)
  have "settles ?ms ms2 ?X" using settles_trans [OF ms1(3) ms2(2)] by simp
  moreover have "others_rest ?ms ?X" "\<forall>j \<in> ?X. worked_on ?ms j"
    using held by (simp_all add: load_held_def worked_on_def)
  ultimately show ?thesis using op_done_keeps [OF inv ok a r ms2(1)] by (simp add: ok)
qed

lemma unload_done_keeps:
  assumes inv: "actor_inv A [UnloadTask i gb] n"
  shows "keeps A [] n (actor_step fio (OpDone i (UnloadOutcome r st)) A)"
proof -
  let ?ms = "ac_models A"
  from inv have ok: "ac_poisoned A = None" by (auto simp: actor_inv_def split: option.splits)
  with inv have d: "distinct (map fst ?ms)" and op: "op_inv ?ms (ac_active A) [UnloadTask i gb]"
    by (auto simp: actor_inv_def)
  from op obtain a where a: "ac_active A = Some a" and held: "held ?ms i Stopping" "others_rest ?ms {i}"
    by (cases "(?ms, ac_active A, [UnloadTask i gb])" rule: op_inv.cases) auto
  from held(1) obtain s where s: "map_of ?ms i = Some s" "\<not> sl_unconfirmed s" by (rule heldE)
  from apply_result_settles [OF s d, of "Settle MError" Stopped r "ac_next_seq A" "ac_env A"]
  obtain ms2 E2 seq2 where r: "apply_result i Stopped r (Settle MError) (ac_next_seq A) ?ms (ac_env A) = (None, ms2, E2, seq2)"
    and ms2: "distinct (map fst ms2)" "settles ?ms ms2 {i}"
    by auto
  then have "apply_outcome i (UnloadOutcome r st) (ac_next_seq A) ?ms (ac_env A)
      = (None, ms2, case st of None \<Rightarrow> E2 | Some x \<Rightarrow> refresh_aggregate ms2 x E2, seq2)"
    by simp
  from op_done_keeps [OF inv ok a this ms2(1,2) held(2)] held(1) show ?thesis by (simp add: ok worked_on_def)
qed

lemma chat_done_keeps:
  assumes inv: "actor_inv A ops n" and pos: "0 < n m"
  shows "keeps A ops (n(m := n m - 1)) (actor_step fio (ChatDone m) A)"
proof (cases "ac_poisoned A")
  case (Some x)
  with inv show ?thesis by (simp add: actor_inv_def)
next
  case None
  let ?ms = "ac_models A"
  from inv None have d: "distinct (map fst ?ms)" and n: "counts_chats ?ms n" and op: "op_inv ?ms (ac_active A) ops"
    by (auto simp: actor_inv_def)
  from n pos obtain s where s: "map_of ?ms m = Some s" and nm: "n m = unat (sl_inflight s)"
    unfolding counts_chats_def by (cases "map_of ?ms m") (auto dest: spec [of _ m])
  define s' where "s' = s\<lparr>sl_inflight := saturating_sub (sl_inflight s) 1\<rparr>"
  let ?ms' = "AList.update m s' ?ms"
  have down: "unat (sl_inflight s') = n m - 1"
    using nm by (simp add: s'_def saturating_sub_def unat_sub word_le_nat_alt)
  have n': "counts_chats ?ms' (n(m := n m - 1))"
    using n down by (auto simp: counts_chats_def alist_simps)
  have d': "distinct (map fst ?ms')" using d by (simp add: alist_simps)
  have free: "\<not> held ?ms m st" for st
    using s nm pos by (auto simp: held_def)
  have held': "held ?ms' j st" if "held ?ms j st" for j st
    using that free by (cases "j = m") (auto simp: held_update_other)
  have drain': "draining ?ms' j" if "draining ?ms j" "j = m \<longrightarrow> sl_inflight s' \<noteq> 0" for j
    using that s by (cases "j = m") (auto simp: held_update_other draining_def alist_simps s'_def)
  have rest': "others_rest ?ms' X" if "others_rest ?ms X" for X
  proof (rule others_rest_update [OF that])
    show "m \<in> X \<or> resting s'"
      using that s by (auto simp: others_rest_def resting_def s'_def)
  qed
  have last: "held ?ms' m Stopping" if "draining ?ms m" "sl_inflight s' = 0"
    using that s by (simp add: held_def draining_def alist_simps s'_def)
  have kept: "retained ?ms ?ms'" by (rule retained_update [OF s]) (simp add: s'_def)
  have infl: "sl_inflight s' = saturating_sub (sl_inflight s) 1" by (simp add: s'_def)
  have step: "actor_step fio (ChatDone m) A = (let A' = A\<lparr>ac_models := ?ms'\<rparr> in case ac_active A of
       Some (i, ActiveUnload ws False) \<Rightarrow>
         if sl_inflight s' = 0 \<and> i = m
         then Some (A'\<lparr>ac_active := Some (i, ActiveUnload ws True)\<rparr>, [StartUnload m (unload_limit_gb (ac_env A) ?ms' m)])
         else Some (A', [])
     | _ \<Rightarrow> Some (A', []))"
    unfolding actor_step.simps None option.case chat_done_def s Let_def unfolding s'_def [symmetric]
    unfolding infl [symmetric] by (rule refl)
  show ?thesis
  proof (cases "(?ms, ac_active A, ops)" rule: op_inv.cases)
    case (1 ms ops')
    with op n' d' kept rest' show ?thesis unfolding step by (simp add: None Let_def actor_inv_def fun_upd_def)
  next
    case (2 ms i p g b ws ops')
    with op n' d' kept rest' held' show ?thesis unfolding step by (auto simp: None Let_def actor_inv_def load_held_def fun_upd_def)
  next
    case (3 ms i ws ops')
    with op n' d' kept rest' held' show ?thesis unfolding step by (auto simp: None Let_def actor_inv_def fun_upd_def)
  next
    case (4 ms i ws ops')
    with op n' d' kept rest' last drain' show ?thesis unfolding step by (auto simp: None Let_def actor_inv_def fun_upd_def)
  qed
qed

section \<open>The system\<close>

record system =
  sy_actor :: actor
  sy_tasks :: "task list"

text \<open>The report channel holds 64 messages, so at most 64 chats have given back their permit early.\<close>

definition CHANNEL_CAPACITY :: nat where
  "CHANNEL_CAPACITY = 64"

fun holds_permit :: "task \<Rightarrow> bool" where
  "holds_permit (ChatTask _ b) = b"
| "holds_permit ListTask = True"
| "holds_permit _ = False"

definition reporting_chat :: "task \<Rightarrow> bool" where
  "reporting_chat t \<longleftrightarrow> (\<exists>m. t = ChatTask m False)"

inductive sys_step :: "poll_limits \<Rightarrow> system \<Rightarrow> system \<Rightarrow> bool" for cfg where
  command: "actor_step fio (Cmd c) A = Some (A', es) \<Longrightarrow>
     sys_step cfg \<lparr>sy_actor = A, sy_tasks = ts\<rparr> \<lparr>sy_actor = A', sy_tasks = ts @ spawned es\<rparr>"
| load_ends: "actor_step fio (OpDone (lt_id T) (LoadOutcome (fst (load_task_outcome E cfg T)))) A = Some (A', es) \<Longrightarrow>
     sys_step cfg \<lparr>sy_actor = A, sy_tasks = ts @ LoadTask T # us\<rparr> \<lparr>sy_actor = A', sy_tasks = ts @ us @ spawned es\<rparr>"
| unload_ends: "actor_step fio (OpDone i (fst (unload_task_outcome E cfg i gb))) A = Some (A', es) \<Longrightarrow>
     sys_step cfg \<lparr>sy_actor = A, sy_tasks = ts @ UnloadTask i gb # us\<rparr> \<lparr>sy_actor = A', sy_tasks = ts @ us @ spawned es\<rparr>"
| chat_reports: "length (filter reporting_chat (ts @ us)) < CHANNEL_CAPACITY \<Longrightarrow>
     sys_step cfg \<lparr>sy_actor = A, sy_tasks = ts @ ChatTask m True # us\<rparr>
       \<lparr>sy_actor = A\<lparr>ac_permits := Suc (ac_permits A)\<rparr>, sy_tasks = ts @ ChatTask m False # us\<rparr>"
| chat_ends: "actor_step fio (ChatDone m) A = Some (A', es) \<Longrightarrow>
     sys_step cfg \<lparr>sy_actor = A, sy_tasks = ts @ ChatTask m False # us\<rparr> \<lparr>sy_actor = A', sy_tasks = ts @ us @ spawned es\<rparr>"
| list_ends:
     "sys_step cfg \<lparr>sy_actor = A, sy_tasks = ts @ ListTask # us\<rparr>
       \<lparr>sy_actor = A\<lparr>ac_permits := Suc (ac_permits A)\<rparr>, sy_tasks = ts @ us\<rparr>"
| rehash: "mset ms = mset (ac_models A) \<Longrightarrow> mset c = mset (env_covered (ac_env A)) \<Longrightarrow>
     sys_step cfg \<lparr>sy_actor = A, sy_tasks = ts\<rparr>
       \<lparr>sy_actor = A\<lparr>ac_models := ms, ac_env := (ac_env A)\<lparr>env_covered := c\<rparr>\<rparr>, sy_tasks = ts\<rparr>"
| other_runtime: "env_capacity (ac_env A) = Some t \<Longrightarrow>
     sys_step cfg \<lparr>sy_actor = A, sy_tasks = ts\<rparr>
       \<lparr>sy_actor = A\<lparr>ac_env := (ac_env A)\<lparr>env_capacity := Some (t\<lparr>tr_ledger := L\<rparr>)\<rparr>\<rparr>, sy_tasks = ts\<rparr>"

inductive reachable ::
    "supervisor_config \<Rightarrow> backend_error + (backend_error + unit) \<Rightarrow> tracking option \<Rightarrow> backend_status answer option \<Rightarrow> system \<Rightarrow> bool"
  for cfg fence capacity probe where
  start: "reachable cfg fence capacity probe \<lparr>sy_actor = start_actor cfg fence capacity probe, sy_tasks = []\<rparr>"
| step: "reachable cfg fence capacity probe S \<Longrightarrow> sys_step (cfg_polls cfg) S S' \<Longrightarrow> reachable cfg fence capacity probe S'"

definition sys_inv :: "nat \<Rightarrow> system \<Rightarrow> bool" where
  "sys_inv limit S \<longleftrightarrow> actor_inv (sy_actor S) (filter is_op (sy_tasks S)) (\<lambda>j. chats_on j (sy_tasks S))
     \<and> ac_permits (sy_actor S) + length (filter holds_permit (sy_tasks S)) = limit
     \<and> length (filter reporting_chat (sy_tasks S)) \<le> CHANNEL_CAPACITY"

lemma chats_on_bound:
  "chats_on m ts \<le> length (filter holds_permit ts) + length (filter reporting_chat ts)"
proof (induction ts)
  case (Cons t ts)
  then show ?case by (cases t) (auto simp: reporting_chat_def)
qed simp

lemma task_of_reports [simp]: "filter reporting_chat (task_of e) = []"
  by (cases e) (simp_all add: reporting_chat_def)

lemma spawned_reports [simp]: "filter reporting_chat (spawned es) = []"
  by (induction es) simp_all

text \<open>Only chats and listings take a permit, one each.\<close>

definition permits_kept :: "actor \<Rightarrow> (actor \<times> effect list) option \<Rightarrow> bool" where
  "permits_kept A r \<longleftrightarrow> (case r of None \<Rightarrow> True
     | Some (A', es) \<Rightarrow> ac_permits A' + length (filter holds_permit (spawned es)) = ac_permits A)"

lemma permits_some [simp]:
  "permits_kept A (Some (A', es)) = (ac_permits A' + length (filter holds_permit (spawned es)) = ac_permits A)"
  "permits_kept A None"
  by (simp_all add: permits_kept_def)

lemma permits_answer [simp]: "permits_kept A (answer r v A') = (ac_permits A' = ac_permits A)"
  by (simp add: answer_def)

lemma permits_bind: "(\<And>x. f = Some x \<Longrightarrow> permits_kept A (g x)) \<Longrightarrow> permits_kept A (Option.bind f g)"
  by (cases f) simp_all

lemma permits_load: "permits_kept A (handle_load fio i gb policy breach r A)"
proof -
  have "permits_kept A (install_load i gb policy breach r p E A)" for p E
    unfolding install_load_def Let_def by (intro permits_bind) (auto intro!: permits_bind)
  then have "permits_kept A (admit_load fio i gb policy breach r A)"
    unfolding admit_load_def by (intro permits_bind) (auto split: sum.split prod.split)
  moreover have "permits_kept A (join_load i gb policy breach r k A)" for k
    by (cases k) auto
  ultimately show ?thesis
    by (auto simp: handle_load_def Let_def split: option.split)
qed

lemma permits_unload: "permits_kept A (handle_unload i r A)"
  by (auto simp: handle_unload_def begin_unload_def Let_def intro!: permits_bind split: option.split active_kind.split)

lemma permits_step: "permits_kept A (actor_step fio m A)"
proof (cases m)
  case (Cmd c)
  then show ?thesis
    using permits_load permits_unload
    by (cases c) (auto simp: unless_startup_error_def handle_list_def handle_chat_def Let_def intro!: permits_bind
      split: option.split)
next
  case (OpDone i x)
  then show ?thesis
    by (auto simp: op_done_poisoned_def op_done_def Let_def split: option.split prod.split sum.split)
next
  case (ChatDone j)
  then show ?thesis
    by (auto simp: chat_done_def Let_def split: option.split active_kind.split bool.split prod.split)
qed

lemma op_inv_cong:
  assumes "map_of ms = map_of ms'"
  shows "op_inv ms a ops = op_inv ms' a ops"
  by (cases "(ms, a, ops)" rule: op_inv.cases)
     (simp_all add: assms held_def draining_def others_rest_def load_held_def)

lemma map_of_rehash:
  assumes "mset ms = mset ms'" "distinct (map fst ms')"
  shows "map_of ms = map_of ms'" "distinct (map fst ms)"
  using assms by (metis map_of_inject_set mset_eq_imp_distinct_iff mset_eq_setD mset_map)+

lemma actor_inv_rehash:
  assumes "mset ms = mset (ac_models A)"
  shows "actor_inv (A\<lparr>ac_models := ms, ac_env := E\<rparr>) ops n = actor_inv A ops n"
proof (cases "distinct (map fst (ac_models A))")
  case True
  with map_of_rehash [OF assms] show ?thesis
    by (simp add: actor_inv_def counts_chats_def others_rest_def op_inv_cong [of ms] split: option.split)
next
  case False
  with assms have "\<not> distinct (map fst ms)" by (metis mset_eq_imp_distinct_iff mset_map)
  with False show ?thesis by (simp add: actor_inv_def)
qed

lemma inherited_slots:
  assumes "distinct (map fst ms)" "\<forall>j s. map_of ms j = Some s \<longrightarrow> s = inherited_slot"
  shows "distinct (map fst (fold (\<lambda>i. AList.update i inherited_slot) xs ms))
    \<and> (\<forall>j s. map_of (fold (\<lambda>i. AList.update i inherited_slot) xs ms) j = Some s \<longrightarrow> s = inherited_slot)"
  using assms
proof (induction xs arbitrary: ms)
  case (Cons x xs)
  have "distinct (map fst (AList.update x inherited_slot ms))" using Cons.prems(1) by (rule distinct_update)
  moreover have "\<forall>j s. map_of (AList.update x inherited_slot ms) j = Some s \<longrightarrow> s = inherited_slot"
    using Cons.prems(2) by (metis fun_upd_apply option.inject update_conv')
  ultimately show ?case unfolding fold.simps o_apply by (rule Cons.IH)
qed simp

lemma start_actor_inv: "actor_inv (start_actor cfg fence capacity probe) [] (\<lambda>j. 0)"
proof -
  define ms where "ms = ac_models (start_actor cfg fence capacity probe)"
  have ms: "distinct (map fst ms) \<and> (\<forall>j s. map_of ms j = Some s \<longrightarrow> s = inherited_slot)"
    using inherited_slots [of "[]"]
    by (cases "startup_status (cfg_budget_gb cfg) probe") (simp_all add: ms_def start_actor_def Let_def)
  have "ac_poisoned (start_actor cfg fence capacity probe) = None" "ac_active (start_actor cfg fence capacity probe) = None"
    by (simp_all add: start_actor_def Let_def)
  moreover have "resting s \<and> sl_inflight s = 0" if "map_of ms j = Some s" for j s
  proof -
    from ms that have "s = inherited_slot" by blast
    then show ?thesis by (simp add: resting_def inherited_slot_def)
  qed
  ultimately show ?thesis
    using ms unfolding actor_inv_def ms_def [symmetric]
    by (auto simp del: map_of_eq_Some_iff simp: counts_chats_def others_rest_def split: option.split)
qed

lemma ops_at_most_one:
  assumes "actor_inv A ops n"
  shows "length ops \<le> 1"
proof (cases "ac_poisoned A")
  case None
  with assms have "op_inv (ac_models A) (ac_active A) ops" by (simp add: actor_inv_def)
  then show ?thesis
    by (cases "(ac_models A, ac_active A, ops)" rule: op_inv.cases) auto
qed (use assms in \<open>auto simp: actor_inv_def\<close>)

lemma sole_op:
  assumes "actor_inv A (filter is_op (ts @ t # us)) n" "is_op t"
  shows "filter is_op ts = []" "filter is_op us = []" "actor_inv A [t] n"
  using ops_at_most_one [OF assms(1)] assms by (auto simp: filter_empty_conv)

lemma keepsD: "keeps A ops n r \<Longrightarrow> r = Some (A', es) \<Longrightarrow>
    actor_inv A' (ops @ filter is_op (spawned es)) (\<lambda>j. n j + chats_on j (spawned es))
    \<and> retained (ac_models A) (ac_models A')"
  by simp

lemma permitsD: "actor_step fio m A = Some (A', es) \<Longrightarrow>
    ac_permits A' + length (filter holds_permit (spawned es)) = ac_permits A"
  using permits_step [of A fio m] by simp

lemma op_no_chat: "is_op t \<Longrightarrow> chats_on j (t # ts) = chats_on j ts" "is_op t \<Longrightarrow> \<not> holds_permit t \<and> \<not> reporting_chat t"
  by (cases t; simp add: reporting_chat_def)+

lemma reporting_chat_simps [simp]:
  "reporting_chat (ChatTask m b) = (\<not> b)" "\<not> reporting_chat ListTask"
  by (simp_all add: reporting_chat_def)

text \<open>An operation's task ends: what is left satisfies the invariant if its report is handled well.\<close>

lemma op_ends_inv:
  assumes inv: "sys_inv k \<lparr>sy_actor = A, sy_tasks = ts @ t # us\<rparr>" and t: "is_op t"
    and keep: "actor_inv A [t] (\<lambda>j. chats_on j (ts @ us)) \<Longrightarrow> keeps A [] (\<lambda>j. chats_on j (ts @ us)) (actor_step fio m A)"
    and step: "actor_step fio m A = Some (A', es)"
  shows "sys_inv k \<lparr>sy_actor = A', sy_tasks = ts @ us @ spawned es\<rparr> \<and> retained (ac_models A) (ac_models A')"
proof -
  have n: "(\<lambda>j. chats_on j (ts @ t # us)) = (\<lambda>j. chats_on j (ts @ us))"
    using op_no_chat(1) [OF t] by (simp del: chats_on.simps)
  from inv have "actor_inv A (filter is_op (ts @ t # us)) (\<lambda>j. chats_on j (ts @ us))"
    unfolding n [symmetric] by (simp add: sys_inv_def)
  note one = sole_op [OF this t]
  from keepsD [OF keep [OF one(3)] step] inv permitsD [OF step] one op_no_chat(2) [OF t] show ?thesis
    by (simp add: sys_inv_def add.assoc)
qed

lemma sys_step_inv:
  assumes "sys_step cfg S S'" "sys_inv k S" "k + CHANNEL_CAPACITY < 2 ^ 32 - 1"
  shows "sys_inv k S' \<and> retained (ac_models (sy_actor S)) (ac_models (sy_actor S'))"
  using assms
proof (induction rule: sys_step.induct)
  case (command fio c A A' es ts)
  have "Suc (chats_on m ts) < 2 ^ 32" for m
    using command.prems chats_on_bound [of m ts] by (simp add: sys_inv_def)
  then have "keeps A (filter is_op ts) (\<lambda>j. chats_on j ts) (actor_step fio (Cmd c) A)"
    using command.prems(1) by (intro command_keeps) (simp_all add: sys_inv_def)
  from keepsD [OF this command.hyps] command.prems(1) permitsD [OF command.hyps] show ?case
    by (simp add: sys_inv_def)
next
  case (load_ends fio T E A A' es ts us)
  show ?case
    unfolding system.simps
    by (rule op_ends_inv [OF load_ends.prems(1) _ _ load_ends.hyps]) (simp, rule load_done_keeps [OF _ load_task_fits])
next
  case (unload_ends fio i E gb A A' es ts us)
  have "keeps A [] (\<lambda>j. chats_on j (ts @ us)) (actor_step fio (OpDone i (fst (unload_task_outcome E cfg i gb))) A)"
    if "actor_inv A [UnloadTask i gb] (\<lambda>j. chats_on j (ts @ us))"
    using unload_done_keeps [OF that] by (auto simp: unload_task_outcome_def split: prod.split sum.split simp del: actor_step.simps)
  then show ?case
    unfolding system.simps by (intro op_ends_inv [OF unload_ends.prems(1) _ _ unload_ends.hyps]) simp_all
next
  case (chat_reports ts us A m)
  have "(\<lambda>j. chats_on j (ts @ ChatTask m True # us)) = (\<lambda>j. chats_on j (ts @ ChatTask m False # us))" by simp
  with chat_reports show ?case by (simp add: sys_inv_def)
next
  case (chat_ends fio m A A' es ts us)
  let ?n = "\<lambda>j. chats_on j (ts @ ChatTask m False # us)"
  have n: "?n(m := ?n m - 1) = (\<lambda>j. chats_on j (ts @ us))" by (auto simp: fun_eq_iff)
  have "keeps A (filter is_op (ts @ us)) (?n(m := ?n m - 1)) (actor_step fio (ChatDone m) A)"
    using chat_ends.prems(1) by (intro chat_done_keeps) (simp_all add: sys_inv_def)
  from keepsD [OF this [unfolded n] chat_ends.hyps] chat_ends.prems(1) permitsD [OF chat_ends.hyps] show ?case
    by (simp add: sys_inv_def add.assoc)
next
  case (list_ends A ts us)
  then show ?case by (simp add: sys_inv_def)
next
  case (rehash ms A c ts)
  then have "distinct (map fst (ac_models A))" by (simp add: sys_inv_def actor_inv_def)
  from map_of_rehash(1) [OF rehash.hyps(1) this] rehash.prems show ?case
    using actor_inv_rehash [OF rehash.hyps(1), of "ac_env A\<lparr>env_covered := c\<rparr>"]
    by (simp only: sys_inv_def system.simps) (simp add: retained_def)
next
  case (other_runtime A t ts L)
  then show ?case by (simp add: sys_inv_def)
qed

lemma reachable_inv:
  assumes "reachable cfg fence capacity probe S" "max (cfg_max_calls cfg) 1 + CHANNEL_CAPACITY < 2 ^ 32 - 1"
  shows "sys_inv (max (cfg_max_calls cfg) 1) S"
  using assms
proof (induction rule: reachable.induct)
  case start
  then show ?case
    by (simp add: sys_inv_def start_actor_inv) (simp add: start_actor_def Let_def)
next
  case (step S S')
  then show ?case using sys_step_inv by metis
qed

end
