(* ===== verification/Supervision.thy ===== *)
theory Supervision
  imports Supervisor_Safety "HOL-Library.Code_Target_Numeral"
begin

text \<open>
  What the supervisor guarantees, for every engine, every order of commands and completions, every
  iteration order of its maps and whatever other runtimes do to the shared ledger: consequences of
  the invariant of \<^verbatim>\<open>Supervisor_Safety\<close>, with a run that reaches them.
\<close>

section \<open>A sample run\<close>

definition sample_config :: supervisor_config where
  "sample_config = \<lparr>cfg_budget_gb = 0x4020000000000000, cfg_max_calls = 2,
     cfg_polls = \<lparr>probe_max_attempts = 2, release_confirm_max_attempts = 2\<rparr>\<rparr>"

definition sample_policy :: load_policy where
  "sample_policy = \<lparr>lp_mode = OnDemand, lp_keepalive = IdleTtl 60, lp_admission = Coexist\<rparr>"

definition fence_ok :: fence_io where
  "fence_ok = \<lparr>fence_begin = Inr (), fence_clear = Inr ()\<rparr>"

definition idle_actor :: actor where
  "idle_actor = start_actor sample_config (Inr (Inr ())) None None"

definition load_two_gb :: command where
  "load_two_gb = CmdLoad ''m'' 0x4000000000000000 sample_policy False 7"

lemma run_floats:
  "f64_sum [] = 0x8000000000000000"
  "f64_sub f64_zero 0x8000000000000000 = f64_zero"
  "f64_sub 0x4020000000000000 f64_zero = 0x4020000000000000"
  "f64_sub 0x4020000000000000 0x8000000000000000 = 0x4020000000000000"
  "f64_add 0x4020000000000000 CAPACITY_EPSILON_GB = 0x40200000218DEF41"
  by (simp_all add: f64_sum_def f64_neg_def f64_zero_def f64_eval epsilon_bits)

lemma run_compare:
  "\<not> f64_lt 0x4020000000000000 f64_zero" "f64_is_finite 0x4020000000000000" "f64_le f64_zero 0x4020000000000000"
  "f64_is_finite 0x8000000000000000" "f64_le f64_zero 0x8000000000000000"
  "f64_is_finite 0x4000000000000000" "f64_le f64_zero 0x4000000000000000" "\<not> f64_lt 0x4000000000000000 f64_zero"
  "f64_le 0x4000000000000000 0x40200000218DEF41" "f64_max f64_zero f64_zero = f64_zero"
  by (simp_all add: f64_compare f64_zero_def f64_max_def)

lemma idle_values:
  "ac_models idle_actor = []" "ac_active idle_actor = None" "ac_poisoned idle_actor = None" "ac_has_fence idle_actor"
  "env_covered (ac_env idle_actor) = []" "env_reserved_gb (ac_env idle_actor) = f64_zero"
  "env_budget_gb (ac_env idle_actor) = 0x4020000000000000" "env_capacity (ac_env idle_actor) = None"
  "env_startup_error (ac_env idle_actor) = None"
  by (simp_all add: idle_actor_def start_actor_def startup_status_def sample_config_def Let_def or_else_def
      f64_is_finite_def f64_compare)

lemma idle_reserved: "effective_reserved_gb (ac_env idle_actor) [] = f64_zero"
  by (simp add: effective_reserved_gb_def effective_reserved_gb_except_def idle_values run_floats run_compare
      map_filter_def)

lemma idle_plan:
  "plan_eviction (build_snapshot [] 0x4020000000000000 ''m'') \<lparr>need_id = ''m'', need_memory_gb = 0x4000000000000000\<rparr> = Inr NotNeeded"
  by (simp add: plan_eviction_def build_snapshot_def validate_capacity_def occupied_gb_def available_gb_def
      run_floats run_compare)

lemma idle_load_plan:
  "\<exists>p. plan_load (ac_env idle_actor) [] ''m'' 0x4000000000000000 = Some (Inr p) \<and> pl_evict p = [] \<and> \<not> pl_inherited p"
  by (simp add: plan_load_def idle_reserved idle_values run_floats run_compare idle_plan charge_plan_def Let_def)

lemma sample_load:
  "\<exists>A T. actor_step fence_ok (Cmd load_two_gb) idle_actor = Some (A, [StartLoad T]) \<and> lt_id T = ''m'' \<and> lt_evict T = []
     \<and> ac_active A = Some (''m'', ActiveLoad sample_policy 0x4000000000000000 False [7])"
  using idle_load_plan
  by (auto simp: load_two_gb_def idle_values unless_startup_error_def handle_load_def run_compare load_shortcut_def
      admit_load_def fence_ok_def claim_runtime_capacity_def install_load_def start_load_def set_state_or_panic_def Let_def)

definition loading_system :: system where
  "loading_system = (case actor_step fence_ok (Cmd load_two_gb) idle_actor of
     Some (A, es) \<Rightarrow> \<lparr>sy_actor = A, sy_tasks = spawned es\<rparr> | None \<Rightarrow> \<lparr>sy_actor = idle_actor, sy_tasks = []\<rparr>)"

lemma sample_reachable: "reachable sample_config (Inr (Inr ())) None None loading_system"
proof -
  obtain A T where A: "actor_step fence_ok (Cmd load_two_gb) idle_actor = Some (A, [StartLoad T])"
    using sample_load by blast
  have "sys_step (cfg_polls sample_config) \<lparr>sy_actor = idle_actor, sy_tasks = []\<rparr> loading_system"
    using sys_step.command [OF A, of _ "[]"] by (simp add: loading_system_def A del: actor_step.simps)
  with reachable.start [of sample_config "Inr (Inr ())" None None] show ?thesis
    unfolding idle_actor_def [symmetric] by (rule reachable.step)
qed

lemma sample_task:
  "\<exists>T. sy_tasks loading_system = [LoadTask T] \<and> lt_id T = ''m''"
  "ac_active (sy_actor loading_system) = Some (''m'', ActiveLoad sample_policy 0x4000000000000000 False [7])"
  using sample_load by (auto simp: loading_system_def)

lemma sample_bound: "cfg_max_calls sample_config < 2 ^ 32 - 66"
  by (simp add: sample_config_def)

lemma calls_bound: "cfg_max_calls cfg < 2 ^ 32 - 66 \<Longrightarrow> max (cfg_max_calls cfg) 1 + CHANNEL_CAPACITY < 2 ^ 32 - 1"
  by (simp add: CHANNEL_CAPACITY_def)

lemma reachable_steps:
  "(sys_step (cfg_polls cfg))\<^sup>*\<^sup>* S S' \<Longrightarrow> reachable cfg fence capacity probe S \<Longrightarrow> reachable cfg fence capacity probe S'"
  by (induction rule: rtranclp_induct) (auto intro: reachable.step)

section \<open>Properties\<close>

text \<open>
  C16. The actor never dies and never distrusts its own slots: no message it can receive makes it
  panic, and the only thing that can poison it is a failed reconciliation with the shared ledger.
\<close>

theorem supervisor_never_panics:
  assumes "reachable cfg fence capacity probe S" and "cfg_max_calls cfg < 2 ^ 32 - 66"
  shows "(\<forall>fio c. actor_step fio (Cmd c) (sy_actor S) \<noteq> None)
    \<and> (\<forall>fio T E. LoadTask T \<in> set (sy_tasks S) \<longrightarrow>
         actor_step fio (OpDone (lt_id T) (LoadOutcome (fst (load_task_outcome E (cfg_polls cfg) T)))) (sy_actor S) \<noteq> None)
    \<and> (\<forall>fio i gb E. UnloadTask i gb \<in> set (sy_tasks S) \<longrightarrow>
         actor_step fio (OpDone i (fst (unload_task_outcome E (cfg_polls cfg) i gb))) (sy_actor S) \<noteq> None)
    \<and> (\<forall>fio m b. ChatTask m b \<in> set (sy_tasks S) \<longrightarrow> actor_step fio (ChatDone m) (sy_actor S) \<noteq> None)
    \<and> (\<forall>m. ac_poisoned (sy_actor S) = Some m \<longrightarrow> (\<exists>e. m = capacity_failure # display_error e))"
proof (intro conjI allI impI)
  let ?A = "sy_actor S" and ?n = "\<lambda>j. chats_on j (sy_tasks S)"
  from reachable_inv [OF assms(1) calls_bound [OF assms(2)]] obtain k where
    inv: "sys_inv k S" and k: "k + CHANNEL_CAPACITY < 2 ^ 32 - 1"
    using calls_bound [OF assms(2)] by blast
  then have A: "actor_inv ?A (filter is_op (sy_tasks S)) ?n" by (simp add: sys_inv_def)
  have total: "r \<noteq> None" if "keeps ?A ops n r" for ops n r
    using that by (cases r) (auto simp: keeps_def)
  show "actor_step fio (Cmd c) ?A \<noteq> None" for fio c
  proof (rule total [OF command_keeps [OF A]], rule allI)
    fix m
    show "Suc (chats_on m (sy_tasks S)) < 2 ^ 32"
      using inv k chats_on_bound [of m "sy_tasks S"] by (simp add: sys_inv_def)
  qed
  have sole: "actor_inv ?A [t] ?n" if "t \<in> set (sy_tasks S)" "is_op t" for t
  proof -
    from that(1) obtain ts us where "sy_tasks S = ts @ t # us" by (auto simp: in_set_conv_decomp)
    with sole_op(3) [OF _ that(2)] A show ?thesis by metis
  qed
  show "actor_step fio (OpDone (lt_id T) (LoadOutcome (fst (load_task_outcome E (cfg_polls cfg) T)))) ?A \<noteq> None"
    if "LoadTask T \<in> set (sy_tasks S)" for fio T E
    by (rule total [OF load_done_keeps [OF sole [OF that] load_task_fits]]) simp
  show "actor_step fio (OpDone i (fst (unload_task_outcome E (cfg_polls cfg) i gb))) ?A \<noteq> None"
    if "UnloadTask i gb \<in> set (sy_tasks S)" for fio i gb E
    using total [OF unload_done_keeps [OF sole [OF that]]]
    by (auto simp: unload_task_outcome_def split: prod.split sum.split simp del: actor_step.simps)
  show "actor_step fio (ChatDone m) ?A \<noteq> None" if "ChatTask m b \<in> set (sy_tasks S)" for fio m b
  proof (rule total [OF chat_done_keeps [OF A]])
    from that obtain ts us where "sy_tasks S = ts @ ChatTask m b # us" by (auto simp: in_set_conv_decomp)
    then show "0 < chats_on m (sy_tasks S)" by simp
  qed
  show "\<exists>e. m = capacity_failure # display_error e" if "ac_poisoned ?A = Some m" for m
    using A that by (simp add: actor_inv_def)
qed

theorem supervisor_never_panics_witness:
  "actor_step fence_ok (Cmd load_two_gb) (sy_actor loading_system) \<noteq> None"
  using supervisor_never_panics [OF sample_reachable sample_bound] by blast

text \<open>
  C6. A model is never loaded, unloaded or evicted under a running chat, and one operation runs at
  a time: while a load runs there is no chat on its target or on any of its victims, and while an
  unload runs none on its model.
\<close>

theorem no_chat_under_operation:
  assumes "reachable cfg fence capacity probe S" and "cfg_max_calls cfg < 2 ^ 32 - 66"
  shows "length (filter is_op (sy_tasks S)) \<le> 1
    \<and> (\<forall>T. LoadTask T \<in> set (sy_tasks S) \<longrightarrow>
         (\<forall>j \<in> insert (lt_id T) (set (lt_evict T)). \<forall>b. ChatTask j b \<notin> set (sy_tasks S)))
    \<and> (\<forall>i gb. UnloadTask i gb \<in> set (sy_tasks S) \<longrightarrow> (\<forall>b. ChatTask i b \<notin> set (sy_tasks S)))"
proof -
  let ?A = "sy_actor S" and ?n = "\<lambda>j. chats_on j (sy_tasks S)"
  have A: "actor_inv ?A (filter is_op (sy_tasks S)) ?n"
    using reachable_inv [OF assms(1) calls_bound [OF assms(2)]] by (simp add: sys_inv_def)
  have none: "ChatTask j b \<notin> set (sy_tasks S)" if "held (ac_models ?A) j st" "counts_chats (ac_models ?A) ?n" for j b st
  proof
    assume "ChatTask j b \<in> set (sy_tasks S)"
    then obtain ts us where "sy_tasks S = ts @ ChatTask j b # us" by (auto simp: in_set_conv_decomp)
    then have "0 < ?n j" by simp
    moreover have "?n j = 0" using that by (auto simp: counts_chats_def elim!: heldE)
    ultimately show False by simp
  qed
  have op: "op_inv (ac_models ?A) (ac_active ?A) [t] \<and> counts_chats (ac_models ?A) ?n" if "t \<in> set (sy_tasks S)" "is_op t" for t
  proof -
    from that(1) obtain ts us where "sy_tasks S = ts @ t # us" by (auto simp: in_set_conv_decomp)
    with sole_op(3) [OF _ that(2)] A have "actor_inv ?A [t] ?n" by metis
    then show ?thesis by (auto simp: actor_inv_def split: option.splits)
  qed
  have "held (ac_models ?A) j Loading \<or> held (ac_models ?A) j Stopping"
    if "LoadTask T \<in> set (sy_tasks S)" "j \<in> insert (lt_id T) (set (lt_evict T))" for T j
    using op [OF that(1)] that(2)
    by (cases "(ac_models ?A, ac_active ?A, [LoadTask T])" rule: op_inv.cases) (auto simp: load_held_def)
  moreover have "held (ac_models ?A) i Stopping" if "UnloadTask i gb \<in> set (sy_tasks S)" for i gb
    using op [OF that]
    by (cases "(ac_models ?A, ac_active ?A, [UnloadTask i gb])" rule: op_inv.cases) auto
  ultimately show ?thesis
    using none op ops_at_most_one [OF A] by (metis is_op.simps(1,2))
qed

theorem no_chat_under_operation_witness: "ChatTask ''m'' True \<notin> set (sy_tasks loading_system)"
  using no_chat_under_operation [OF sample_reachable sample_bound] sample_task by fastforce

text \<open>
  C19. An operation on record is always being worked on, so the mutex is always given back: either
  its task exists, or it is an unload that waits for a chat on its model which exists.
\<close>

theorem operation_never_orphaned:
  assumes "reachable cfg fence capacity probe S" and "cfg_max_calls cfg < 2 ^ 32 - 66"
    and "ac_active (sy_actor S) = Some (i, kind)"
  shows "(\<exists>T. LoadTask T \<in> set (sy_tasks S) \<and> lt_id T = i) \<or> (\<exists>gb. UnloadTask i gb \<in> set (sy_tasks S))
    \<or> (\<exists>b. ChatTask i b \<in> set (sy_tasks S))"
proof -
  let ?A = "sy_actor S" and ?n = "\<lambda>j. chats_on j (sy_tasks S)" and ?ops = "filter is_op (sy_tasks S)"
  have "actor_inv ?A ?ops ?n"
    using reachable_inv [OF assms(1) calls_bound [OF assms(2)]] by (simp add: sys_inv_def)
  with assms(3) have op: "op_inv (ac_models ?A) (Some (i, kind)) ?ops" and n: "counts_chats (ac_models ?A) ?n"
    by (auto simp: actor_inv_def split: option.splits)
  have chat: "\<exists>b. ChatTask i b \<in> set ts" if "0 < chats_on i ts" for ts
    using that by (induction ts) (auto split: task.splits if_splits)
  have run: "t \<in> set (sy_tasks S)" if "?ops = [t]" for t
  proof -
    from that have "t \<in> set ?ops" by simp
    then show ?thesis by simp
  qed
  have wait: "0 < ?n i" if "draining (ac_models ?A) i"
    using that n by (auto simp: draining_def counts_chats_def unat_gt_0 split: option.splits)
  show ?thesis
  proof (cases kind)
    case (ActiveLoad p gb b ws)
    with op obtain T where "?ops = [LoadTask T]" "lt_id T = i" by auto
    with run show ?thesis by blast
  next
    case (ActiveUnload ws started)
    show ?thesis
    proof (cases started)
      case True
      with op ActiveUnload obtain gb where "?ops = [UnloadTask i gb]" by auto
      with run show ?thesis by blast
    next
      case False
      with op ActiveUnload wait chat show ?thesis by auto
    qed
  qed
qed

theorem operation_never_orphaned_witness: "\<exists>t \<in> set (sy_tasks loading_system). \<exists>T. t = LoadTask T"
  using operation_never_orphaned [OF sample_reachable sample_bound sample_task(2)] sample_task(1) by auto

text \<open>
  C8. A load whose end was never established is never given up: its slot stays in error with its
  memory charged, whatever happens afterwards, and no load, eviction or unload works on it again.
\<close>

theorem unconfirmed_load_retained:
  assumes "reachable cfg fence capacity probe S" and "cfg_max_calls cfg < 2 ^ 32 - 66"
    and "(sys_step (cfg_polls cfg))\<^sup>*\<^sup>* S S'"
    and "map_of (ac_models (sy_actor S)) i = Some s" and "sl_unconfirmed s"
  shows "\<exists>s'. map_of (ac_models (sy_actor S')) i = Some s' \<and> sl_unconfirmed s' \<and> sl_state s' = MError
      \<and> sl_memory_gb s' = sl_memory_gb s \<and> sl_charge s' = sl_charge s
      \<and> (\<forall>T. LoadTask T \<in> set (sy_tasks S') \<longrightarrow> i \<noteq> lt_id T \<and> i \<notin> set (lt_evict T))
      \<and> (\<forall>gb. UnloadTask i gb \<notin> set (sy_tasks S'))"
proof -
  note bound = calls_bound [OF assms(2)]
  from assms(3) have "\<exists>s'. map_of (ac_models (sy_actor S')) i = Some s' \<and> sl_unconfirmed s'
      \<and> sl_memory_gb s' = sl_memory_gb s \<and> sl_charge s' = sl_charge s"
  proof (induction rule: rtranclp_induct)
    case base
    with assms(4,5) show ?case by simp
  next
    case (step T T')
    have "sys_inv (max (cfg_max_calls cfg) 1) T"
      using reachable_inv [OF reachable_steps [OF step.hyps(1) assms(1)] bound] .
    with sys_step_inv [OF step.hyps(2) _ bound] have "retained (ac_models (sy_actor T)) (ac_models (sy_actor T'))" by blast
    with step.IH show ?case unfolding retained_def by metis
  qed
  then obtain s' where s': "map_of (ac_models (sy_actor S')) i = Some s'" "sl_unconfirmed s'"
    "sl_memory_gb s' = sl_memory_gb s" "sl_charge s' = sl_charge s" by blast
  let ?A = "sy_actor S'" and ?n = "\<lambda>j. chats_on j (sy_tasks S')" and ?ops = "filter is_op (sy_tasks S')"
  have A: "actor_inv ?A ?ops ?n"
    using reachable_inv [OF reachable_steps [OF assms(3,1)] bound] by (simp add: sys_inv_def)
  have free: "\<not> worked_on (ac_models ?A) i"
    using s' by (auto simp: worked_on_def held_def draining_def)
  have "resting s'"
  proof (cases "ac_poisoned ?A")
    case None
    with A obtain X where "others_rest (ac_models ?A) X" "\<forall>j \<in> X. worked_on (ac_models ?A) j"
      using op_inv_worked_on by (fastforce simp: actor_inv_def)
    with free s' show ?thesis by (auto simp: others_rest_def)
  next
    case (Some m)
    with A s' show ?thesis by (auto simp: actor_inv_def others_rest_def)
  qed
  then have "sl_state s' = MError" using s'(2) by (simp add: resting_def)
  moreover have "worked_on (ac_models ?A) j"
    if "t \<in> set (sy_tasks S')" "(\<exists>T. t = LoadTask T \<and> (j = lt_id T \<or> j \<in> set (lt_evict T))) \<or> (\<exists>gb. t = UnloadTask j gb)" for t j
  proof -
    from that(2) have "is_op t" by auto
    from that(1) obtain ts us where "sy_tasks S' = ts @ t # us" by (auto simp: in_set_conv_decomp)
    with sole_op(3) [OF _ \<open>is_op t\<close>] A have "actor_inv ?A [t] ?n" by metis
    then have "op_inv (ac_models ?A) (ac_active ?A) [t]" by (auto simp: actor_inv_def split: option.splits)
    with that(2) show ?thesis
      by (cases "(ac_models ?A, ac_active ?A, [t])" rule: op_inv.cases) (auto simp: load_held_def worked_on_def)
  qed
  ultimately show ?thesis using s' free by blast
qed

text \<open>A run in which the engine never answers: the load stays unconfirmed.\<close>

definition silent_engine :: engine where
  "silent_engine = \<lparr>eng_load = (\<lambda>_. TimedOut), eng_unload = (\<lambda>_. TimedOut), eng_status = (\<lambda>_. TimedOut),
     eng_probe = (\<lambda>_. TimedOut), eng_fence_clear = (\<lambda>_. Inr ())\<rparr>"

lemma silent_load:
  assumes "lt_evict T = []" "\<not> lt_inherited T" "lt_previous T = None"
  shows "lo_victims (fst (load_task_outcome silent_engine cfg T)) = []"
    and "lo_aggregate (fst (load_task_outcome silent_engine cfg T)) = None"
    and "lo_result (fst (load_task_outcome silent_engine cfg T)) = Inl (AdapterTimedOut (lt_id T))"
    and "lo_failure (fst (load_task_outcome silent_engine cfg T)) = RetainUnconfirmedLoad None"
  using assms
  by (simp_all add: load_task_outcome_def run_load_flow_def evict_stage_def confirm_victims_def admitted_load_def
      load_stage_def try_load_def after_first_attempt_def after_attempt_def load_failed_def resolve_load_failure_def
      best_effort_release_def flow_bind_def flow_return_def with_adapter_timeout_def silent_engine_def report_def)

lemma sample_installed:
  "\<exists>A T s. actor_step fence_ok (Cmd load_two_gb) idle_actor = Some (A, [StartLoad T]) \<and> lt_id T = ''m'' \<and> lt_evict T = []
     \<and> \<not> lt_inherited T \<and> lt_previous T = None \<and> ac_poisoned A = None \<and> env_capacity (ac_env A) = None
     \<and> map_of (ac_models A) ''m'' = Some s \<and> ac_active A = Some (''m'', ActiveLoad sample_policy 0x4000000000000000 False [7])"
  using idle_load_plan
  by (auto simp: load_two_gb_def idle_values unless_startup_error_def handle_load_def run_compare load_shortcut_def
      admit_load_def fence_ok_def claim_runtime_capacity_def install_load_def start_load_def set_state_or_panic_def Let_def)

lemma silent_run:
  "\<exists>S s. reachable sample_config (Inr (Inr ())) None None S \<and> map_of (ac_models (sy_actor S)) ''m'' = Some s \<and> sl_unconfirmed s"
proof -
  obtain A T s where A: "actor_step fence_ok (Cmd load_two_gb) idle_actor = Some (A, [StartLoad T])"
    and T: "lt_id T = ''m''" "lt_evict T = []" "\<not> lt_inherited T" "lt_previous T = None"
    and ok: "ac_poisoned A = None" "env_capacity (ac_env A) = None" and s: "map_of (ac_models A) ''m'' = Some s"
    and act: "ac_active A = Some (''m'', ActiveLoad sample_policy 0x4000000000000000 False [7])"
    using sample_installed by blast
  let ?r = "fst (load_task_outcome silent_engine (cfg_polls sample_config) T)"
  note silent = silent_load [OF T(2-4), of "cfg_polls sample_config"]
  have "\<exists>A' es s'. actor_step fence_ok (OpDone (lt_id T) (LoadOutcome ?r)) A = Some (A', es)
      \<and> map_of (ac_models A') ''m'' = Some s' \<and> sl_unconfirmed s'"
    using ok s act
    by (simp add: op_done_def silent T(1) apply_result_def change_slot_def retain_unconfirmed_def settle_runtime_capacity_def
        Let_def alist_simps)
  then obtain A' es s' where A': "actor_step fence_ok (OpDone (lt_id T) (LoadOutcome ?r)) A = Some (A', es)"
    and s': "map_of (ac_models A') ''m'' = Some s'" "sl_unconfirmed s'" by blast
  have L: "loading_system = \<lparr>sy_actor = A, sy_tasks = [] @ LoadTask T # []\<rparr>"
    by (simp add: loading_system_def A del: actor_step.simps)
  from sys_step.load_ends [OF A', of "[]" "[]"]
  have "sys_step (cfg_polls sample_config) loading_system \<lparr>sy_actor = A', sy_tasks = spawned es\<rparr>"
    unfolding L by simp
  from reachable.step [OF sample_reachable this] s' show ?thesis by (intro exI conjI) (assumption, simp_all)
qed

theorem unconfirmed_load_retained_witness:
  "\<exists>(S :: system) s. map_of (ac_models (sy_actor S)) ''m'' = Some s \<and> sl_unconfirmed s \<and> sl_state s = MError"
proof -
  obtain S s where S: "reachable sample_config (Inr (Inr ())) None None S" "map_of (ac_models (sy_actor S)) ''m'' = Some s"
    "sl_unconfirmed s" using silent_run by blast
  from unconfirmed_load_retained [OF S(1) sample_bound rtranclp.rtrancl_refl S(2,3)] obtain s' where
    "map_of (ac_models (sy_actor S)) ''m'' = Some s'" "sl_unconfirmed s'" "sl_state s' = MError" by blast
  then show ?thesis by (intro exI [of _ S] exI [of _ s'] conjI)
qed

section \<open>Replies\<close>

text \<open>The callers the actor still has to answer, and those a message and the effects speak for.\<close>

definition owed :: "actor \<Rightarrow> nat list" where
  "owed A = (case ac_active A of None \<Rightarrow> [] | Some (_, kind) \<Rightarrow> waiters_of kind)"

fun asked :: "actor_msg \<Rightarrow> nat list" where
  "asked (Cmd c) = [reply_of c]"
| "asked _ = []"

fun handed :: "effect \<Rightarrow> nat list" where
  "handed (Reply r _) = [r]"
| "handed (StartChat _ r) = [r]"
| "handed (StartList r) = [r]"
| "handed _ = []"

definition hands_over :: "actor \<Rightarrow> nat list \<Rightarrow> (actor \<times> effect list) option \<Rightarrow> bool" where
  "hands_over A rs r \<longleftrightarrow> (case r of None \<Rightarrow> True
     | Some (A', es) \<Rightarrow> mset (owed A) + mset rs = mset (owed A') + mset (concat (map handed es)))"

lemma hands_over_some [simp]:
  "hands_over A rs (Some (A', es)) \<longleftrightarrow> mset (owed A) + mset rs = mset (owed A') + mset (concat (map handed es))"
  "hands_over A rs None"
  by (simp_all add: hands_over_def)

lemma owed_simps [simp]:
  "owed (A\<lparr>ac_models := ms\<rparr>) = owed A" "owed (A\<lparr>ac_env := E\<rparr>) = owed A" "owed (A\<lparr>ac_permits := k\<rparr>) = owed A"
  "owed (A\<lparr>ac_next_seq := q\<rparr>) = owed A" "owed (A\<lparr>ac_poisoned := m\<rparr>) = owed A"
  "owed (A\<lparr>ac_active := Some (i, kind)\<rparr>) = waiters_of kind" "owed (A\<lparr>ac_active := None\<rparr>) = []"
  by (simp_all add: owed_def)

lemma hands_answer [simp]: "hands_over A [r] (answer r v A') \<longleftrightarrow> mset (owed A) = mset (owed A')"
  by (simp add: answer_def)

lemma hands_bind: "(\<And>x. f = Some x \<Longrightarrow> hands_over A rs (g x)) \<Longrightarrow> hands_over A rs (Option.bind f g)"
  by (cases f) simp_all

lemma handed_reply_all [simp]: "concat (map handed (reply_all ws v)) = ws"
  by (induction ws) (simp_all add: reply_all_def)

lemma hands_load: "hands_over A [r] (handle_load fio i gb policy breach r A)"
proof -
  have "hands_over A [r] (install_load i gb policy breach r p E A)" if "ac_active A = None" for p E
    unfolding install_load_def Let_def using that
    by (intro hands_bind) (auto intro!: hands_bind simp: owed_def)
  then have "hands_over A [r] (admit_load fio i gb policy breach r A)" if "ac_active A = None"
    unfolding admit_load_def using that by (intro hands_bind) (auto split: sum.split prod.split)
  moreover have "hands_over A [r] (join_load i gb policy breach r k A)" if "ac_active A = Some (i, k)" for k
    using that by (cases k) (auto simp: owed_def)
  ultimately show ?thesis
    by (auto simp: handle_load_def Let_def split: option.split)
qed

lemma hands_unload: "hands_over A [r] (handle_unload i r A)"
  by (auto simp: handle_unload_def begin_unload_def Let_def owed_def intro!: hands_bind split: option.split active_kind.split)

text \<open>
  C14. Every caller is answered exactly once: a step neither loses a reply channel nor uses one
  twice. What was owed and what is asked now is what is still owed, answered, or handed to the task
  that will answer.
\<close>

theorem replies_conserved:
  assumes "actor_step fio m A = Some (A', es)"
  shows "mset (owed A) + mset (asked m) = mset (owed A') + mset (concat (map handed es))"
proof -
  have "hands_over A (asked m) (actor_step fio m A)"
  proof (cases m)
    case (Cmd c)
    then show ?thesis
      using hands_load hands_unload
      by (cases c) (auto simp: unless_startup_error_def handle_list_def handle_chat_def Let_def intro!: hands_bind
        split: option.split)
  next
    case (OpDone i x)
    then show ?thesis
      by (auto simp: op_done_poisoned_def op_done_def Let_def owed_def split: option.split prod.split sum.split)
  next
    case (ChatDone j)
    then show ?thesis
      by (auto simp: chat_done_def Let_def owed_def split: option.split active_kind.split bool.split prod.split)
  qed
  with assms show ?thesis by simp
qed

theorem replies_conserved_witness: "\<exists>A es. actor_step fence_ok (Cmd load_two_gb) idle_actor = Some (A, es)
    \<and> mset (owed idle_actor) + {#7#} = mset (owed A) + mset (concat (map handed es))"
proof -
  obtain A T where A: "actor_step fence_ok (Cmd load_two_gb) idle_actor = Some (A, [StartLoad T])"
    using sample_load by blast
  with replies_conserved [OF A] show ?thesis by (auto simp: load_two_gb_def simp del: actor_step.simps)
qed

section \<open>Refusals and startup\<close>

lemma replace_error: "replace_allocation k e n enforce p allow L = (r, L') \<Longrightarrow> \<not> is_ok r \<Longrightarrow> L' = L"
  by (auto simp: replace_allocation_def commit_def split: sum.splits)

lemma claim_error:
  assumes "claim_runtime_capacity gb charge allow E = (Inl e, E')"
  shows "E' = E"
proof (cases "env_capacity E")
  case None
  with assms show ?thesis by (simp add: claim_runtime_capacity_def)
next
  case (Some t)
  have "t' = t" if "claim_tracking gb charge allow t = (Inl e, t')" for t'
  proof (cases "tr_exact_claim t")
    case None
    with that show ?thesis
      by (auto simp: claim_tracking_def Let_def resize_def compare_and_set_def dest: replace_error
        split: if_splits prod.splits sum.splits option.splits)
  next
    case (Some c)
    with that show ?thesis
      by (auto simp: claim_tracking_def Let_def claim_charge_def dest: replace_error
        split: if_splits prod.splits option.splits)
  qed
  with assms Some show ?thesis
    by (auto simp: claim_runtime_capacity_def split: prod.splits)
qed

lemma install_load_starts: "install_load i gb policy breach r p E A = Some (A', es) \<Longrightarrow> \<exists>T. es = [StartLoad T]"
  by (auto simp: install_load_def Let_def split: bind_splits)

text \<open>
  C26. A refused load is a pure refusal: whatever the reason, the actor that answers a load with an
  error is the actor it was, ledger claim, slots, victims and operation included.
\<close>

theorem refused_load_changes_nothing:
  assumes "actor_step fio (Cmd (CmdLoad i gb policy breach r)) A = Some (A', es)" and "Reply r (Inl e) \<in> set es"
  shows "A' = A \<and> es = [Reply r (Inl e)]"
proof -
  have ans: "B = C \<and> fs = [Reply r (Inl e)]"
    if "answer r v C = Some (B, fs)" "Reply r (Inl e) \<in> set fs" for v B C fs
    using that by (auto simp: answer_def)
  have admit: "A' = A \<and> es = [Reply r (Inl e)]" if "admit_load fio i gb policy breach r A = Some (A', es)"
    using that assms(2) ans install_load_starts
    by (fastforce simp: admit_load_def dest: claim_error split: bind_splits sum.splits prod.splits if_splits)
  have join: "A' = A \<and> es = [Reply r (Inl e)]" if "join_load i gb policy breach r kind A = Some (A', es)" for kind
    using that assms(2) by (cases kind) (auto simp: answer_def split: if_splits)
  have load: "A' = A \<and> es = [Reply r (Inl e)]" if "handle_load fio i gb policy breach r A = Some (A', es)"
    using that assms(2) ans admit join
    by (auto simp: handle_load_def Let_def split: if_splits option.splits)
  show ?thesis
    using assms ans load by (auto simp: unless_startup_error_def split: option.splits)
qed

theorem refused_load_changes_nothing_witness:
  "actor_step fence_ok (Cmd (CmdLoad ''m'' f64_nan sample_policy False 3)) idle_actor
     = Some (idle_actor, [Reply 3 (Inl (InvalidRequest [Text ''memory_gb must be finite and >= 0, got '', Float f64_nan]))])"
proof -
  obtain A es where A: "actor_step fence_ok (Cmd (CmdLoad ''m'' f64_nan sample_policy False 3)) idle_actor = Some (A, es)"
    and e: "Reply 3 (Inl (InvalidRequest [Text ''memory_gb must be finite and >= 0, got '', Float f64_nan])) \<in> set es"
    by (simp add: idle_values unless_startup_error_def handle_load_def answer_def f64_nan_def f64_compare)
  from refused_load_changes_nothing [OF A e] A show ?thesis by simp
qed

text \<open>
  C23. An unsafe start fails closed: when the engine's fence cannot be claimed, carries the marker of
  an interrupted load, or the first residency sample is missing or invalid, no command ever reaches
  the engine, and every command but the readiness query is answered with an error.
\<close>

theorem unsafe_startup_fails_closed:
  assumes "reachable cfg fence capacity probe S"
    and "(\<exists>e. fence = Inl e) \<or> (\<exists>e. fence = Inr (Inl e)) \<or> (\<exists>e. startup_status (cfg_budget_gb cfg) probe = Inl e)"
  shows "sy_tasks S = [] \<and> (\<forall>fio c. (\<forall>i r. c \<noteq> CmdIsReady i r) \<longrightarrow>
     (\<exists>e. actor_step fio (Cmd c) (sy_actor S) = Some (sy_actor S, [Reply (reply_of c) (Inl e)])))"
proof -
  have refuse: "\<exists>e. actor_step fio (Cmd c) A = Some (A, [Reply (reply_of c) (Inl e)])"
    if "\<forall>i r. c \<noteq> CmdIsReady i r" "env_startup_error (ac_env A) \<noteq> None" for fio c A
    using that by (cases c) (auto simp: answer_def unless_startup_error_def split: option.split)
  have "sy_tasks S = [] \<and> env_startup_error (ac_env (sy_actor S)) \<noteq> None"
    using assms
  proof (induction rule: reachable.induct)
    case start
    then show ?case by (auto simp: start_actor_def Let_def or_else_def split: option.splits)
  next
    case (step S S')
    then have S: "sy_tasks S = []" "env_startup_error (ac_env (sy_actor S)) \<noteq> None" by simp_all
    from step.hyps(2) S show ?case
    proof (cases rule: sys_step.cases)
      case (command fio c A A' es ts)
      show ?thesis
      proof (cases "\<exists>i r. c = CmdIsReady i r")
        case True
        with command S show ?thesis by (auto simp: answer_def split: option.splits)
      next
        case False
        with refuse [of c A fio] command S show ?thesis by auto
      qed
    qed auto
  qed
  with refuse show ?thesis by blast
qed

theorem unsafe_startup_fails_closed_witness:
  "sy_tasks \<lparr>sy_actor = start_actor sample_config (Inr (Inl Cancelled)) None None, sy_tasks = []\<rparr> = []
    \<and> (\<exists>e. actor_step fence_ok (Cmd load_two_gb) (start_actor sample_config (Inr (Inl Cancelled)) None None)
         = Some (start_actor sample_config (Inr (Inl Cancelled)) None None, [Reply 7 (Inl e)]))"
proof -
  have "\<forall>i r. load_two_gb \<noteq> CmdIsReady i r" "reply_of load_two_gb = 7" by (simp_all add: load_two_gb_def)
  with unsafe_startup_fails_closed [OF reachable.start, of "Inr (Inl Cancelled)" sample_config None None] show ?thesis
    unfolding system.simps by metis
qed

end
