(* ===== verification/Profile.thy ===== *)
theory Profile
  imports Pipeline Event_Log
begin

text \<open>
  How a request's control headers become its profile (\<^verbatim>\<open>crates/idoris-router/src/profile.rs\<close>,
  \<^verbatim>\<open>event_identifier.rs\<close>, \<^verbatim>\<open>idoris-contracts/src/deploy_mode.rs\<close>): a header that is missing has a
  default, one that is there but unusable is an error. \<open>HeaderMap\<close> belongs to the \<^verbatim>\<open>http\<close> crate: a header
  map is the list of its entries under lower-case names, and \<open>HeaderValue::to_str\<close> is a parameter.
\<close>

section \<open>Types\<close>

datatype deploy_mode = PersonalMode | TenantMode

datatype profile_message =
    FixedMessage string
  | RoleMessage role_parse_error
  | ContractMessage contract_error

record profile_error =
  pe_status :: nat
  pe_type :: string
  pe_message :: profile_message

definition invalid_header :: "profile_message \<Rightarrow> profile_error" where
  "invalid_header m = \<lparr>pe_status = 400, pe_type = ''invalid_header'', pe_message = m\<rparr>"

datatype intent_source = HeaderIntent | DetectedIntent | DefaultIntent

record parsed_profile =
  pp_task :: task_profile
  pp_role :: "role option"
  pp_tenant :: "string option"
  pp_intent_source :: intent_source

type_synonym 'v header_map = "(string \<times> 'v) list"

section \<open>Headers\<close>

datatype header_state = HeaderAbsent | HeaderInvalid | HeaderPresent string

definition get_all :: "'v header_map \<Rightarrow> string \<Rightarrow> 'v list" where
  "get_all headers name = map snd (filter (\<lambda>(n, _). n = name) headers)"

definition header_state_of :: "('v \<Rightarrow> string option) \<Rightarrow> 'v header_map \<Rightarrow> string \<Rightarrow> header_state" where
  "header_state_of to_str headers name =
     (case get_all headers name of
        [] \<Rightarrow> HeaderAbsent
      | first # rest \<Rightarrow>
          if rest \<noteq> [] then HeaderInvalid
          else case to_str first of
              Some raw \<Rightarrow> (let trimmed = str_trim raw in if trimmed = [] then HeaderInvalid else HeaderPresent trimmed)
            | None \<Rightarrow> HeaderInvalid)"

text \<open>
  \<open>to_lowercase\<close> is only compared with \<open>personal\<close>: of all characters only the ASCII capitals
  have a letter of that word as lower case.
\<close>

definition deploy_mode_from_env :: "string option \<Rightarrow> deploy_mode" where
  "deploy_mode_from_env raw =
     (let normalized = map to_ascii_lowercase (trim_matches is_unicode_whitespace
            (chars (case raw of None \<Rightarrow> [] | Some s \<Rightarrow> s)))
      in if normalized = [] \<or> normalized = ascii ''personal'' then PersonalMode else TenantMode)"

definition MAX_UTF16_UNITS :: nat where
  "MAX_UTF16_UNITS = 128"

definition event_identifier_valid :: "string \<Rightarrow> bool" where
  "event_identifier_valid value \<longleftrightarrow>
     \<not> is_blank value \<and> utf16_len value \<le> MAX_UTF16_UNITS \<and> \<not> list_ex is_control (chars value)"

section \<open>The fields\<close>

definition invalid_privacy :: profile_error where
  "invalid_privacy = \<lparr>pe_status = 400, pe_type = ''invalid_privacy'',
     pe_message = FixedMessage ''X-iDoris-Privacy must be a single, non-blank, UTF-8 value: local_only|any''\<rparr>"

definition parse_privacy :: "('v \<Rightarrow> string option) \<Rightarrow> 'v header_map \<Rightarrow> profile_error + privacy_class" where
  "parse_privacy to_str headers =
     (case header_state_of to_str headers ''x-idoris-privacy'' of
        HeaderAbsent \<Rightarrow> Inr LocalOnly
      | HeaderInvalid \<Rightarrow> Inl invalid_privacy
      | HeaderPresent s \<Rightarrow>
          if s = ''local_only'' then Inr LocalOnly
          else if s = ''any'' then Inr AnyPrivacy
          else Inl invalid_privacy)"

definition parse_intent :: "('v \<Rightarrow> string option) \<Rightarrow> 'v header_map \<Rightarrow> profile_error + string \<times> intent_source" where
  "parse_intent to_str headers =
     (case header_state_of to_str headers ''x-idoris-intent'' of
        HeaderAbsent \<Rightarrow> Inr (''chat'', DefaultIntent)
      | HeaderInvalid \<Rightarrow> Inl (invalid_header (FixedMessage
          ''X-iDoris-Intent must be a single, non-blank, UTF-8 value''))
      | HeaderPresent s \<Rightarrow> Inr (s, HeaderIntent))"

definition parse_complexity :: "('v \<Rightarrow> string option) \<Rightarrow> 'v header_map \<Rightarrow> profile_error + complexity" where
  "parse_complexity to_str headers =
     (case header_state_of to_str headers ''x-idoris-complexity'' of
        HeaderAbsent \<Rightarrow> Inr Simple
      | HeaderInvalid \<Rightarrow> Inl (invalid_header (FixedMessage
          ''X-iDoris-Complexity must be a single, non-blank, UTF-8 value: simple|complex''))
      | HeaderPresent s \<Rightarrow>
          if s = ''simple'' then Inr Simple
          else if s = ''complex'' then Inr Complex
          else Inl (invalid_header (FixedMessage ''X-iDoris-Complexity must be simple|complex'')))"

definition parse_capability :: "string \<Rightarrow> capability option" where
  "parse_capability raw =
     (if raw = ''chat'' then Some Chat
      else if raw = ''reasoning'' then Some Reasoning
      else if raw = ''vision'' then Some Vision
      else if raw = ''asr'' then Some Asr
      else if raw = ''tts'' then Some Tts
      else if raw = ''coding'' then Some Coding
      else if raw = ''embedding'' then Some Embedding
      else if raw = ''rerank'' then Some Rerank
      else None)"

text \<open>The loop over the parts: \<open>None\<close> where one is no capability.\<close>

fun collect_capabilities :: "string list \<Rightarrow> capability list option" where
  "collect_capabilities [] = Some []"
| "collect_capabilities (part # parts) =
     (if str_trim part = [] then collect_capabilities parts
      else case parse_capability (str_trim part) of
          Some cap \<Rightarrow> map_option ((#) cap) (collect_capabilities parts)
        | None \<Rightarrow> None)"

definition parse_capabilities :: "('v \<Rightarrow> string option) \<Rightarrow> 'v header_map \<Rightarrow> profile_error + capability list" where
  "parse_capabilities to_str headers =
     (case header_state_of to_str headers ''x-idoris-capabilities'' of
        HeaderAbsent \<Rightarrow> Inr [Chat]
      | HeaderInvalid \<Rightarrow> Inl (invalid_header (FixedMessage
          ''X-iDoris-Capabilities must be a single, non-blank, UTF-8 value''))
      | HeaderPresent s \<Rightarrow>
          (case collect_capabilities (split_char (CHR '','') s) of
             None \<Rightarrow> Inl (invalid_header (FixedMessage
               ''X-iDoris-Capabilities contains an unsupported capability''))
           | Some out \<Rightarrow>
               if out = [] then Inl (invalid_header (FixedMessage
                 ''X-iDoris-Capabilities must not resolve to an empty list''))
               else Inr out))"

definition parse_fallback :: "('v \<Rightarrow> string option) \<Rightarrow> 'v header_map \<Rightarrow> profile_error + fallback_policy option" where
  "parse_fallback to_str headers =
     (case header_state_of to_str headers ''x-idoris-fallback'' of
        HeaderAbsent \<Rightarrow> Inr None
      | HeaderInvalid \<Rightarrow> Inl (invalid_header (FixedMessage
          ''X-iDoris-Fallback must be a single, non-blank, UTF-8 value: fail_closed|next_in_chain''))
      | HeaderPresent s \<Rightarrow>
          if s = ''fail_closed'' then Inr (Some FailClosed)
          else if s = ''next_in_chain'' then Inr (Some NextInChain)
          else Inl (invalid_header (FixedMessage ''X-iDoris-Fallback must be fail_closed|next_in_chain'')))"

definition parse_role :: "string option \<Rightarrow> profile_error + role option" where
  "parse_role model =
     (case model of
        None \<Rightarrow> Inr None
      | Some m \<Rightarrow> map_sum (\<lambda>e. \<lparr>pe_status = 400, pe_type = ''unknown_role'', pe_message = RoleMessage e\<rparr>) id
          (parse_model_role (chars m)))"

section \<open>The profile\<close>

definition tenant_missing :: "string \<Rightarrow> profile_error" where
  "tenant_missing m = \<lparr>pe_status = 400, pe_type = ''tenant_missing'', pe_message = FixedMessage m\<rparr>"

definition parse_tenant :: "('v \<Rightarrow> string option) \<Rightarrow> 'v header_map \<Rightarrow> deploy_mode \<Rightarrow> profile_error + string option" where
  "parse_tenant to_str headers mode =
     (case mode of
        PersonalMode \<Rightarrow> Inr None
      | TenantMode \<Rightarrow>
          (case header_state_of to_str headers ''x-idoris-tenant'' of
             HeaderPresent s \<Rightarrow>
               if event_identifier_valid s then Inr (Some s)
               else Inl (tenant_missing ''deploy_mode=tenant requires a valid Event Log tenant identifier'')
           | _ \<Rightarrow> Inl (tenant_missing
               ''deploy_mode=tenant requires a single, non-blank X-iDoris-Tenant; no default tenant fallback'')))"

definition parse_profile ::
    "('v \<Rightarrow> string option) \<Rightarrow> 'v header_map \<Rightarrow> string option \<Rightarrow> deploy_mode \<Rightarrow> profile_error + parsed_profile" where
  "parse_profile to_str headers model mode =
     bind_result (parse_privacy to_str headers) (\<lambda>privacy.
     bind_result (parse_intent to_str headers) (\<lambda>(intent, intent_source).
     bind_result (parse_complexity to_str headers) (\<lambda>complexity.
     bind_result (parse_capabilities to_str headers) (\<lambda>capabilities.
     bind_result (parse_fallback to_str headers) (\<lambda>fallback.
     bind_result (parse_role model) (\<lambda>role.
     let task = \<lparr>tp_privacy = Some privacy, tp_intent = Some intent, tp_complexity = Some complexity,
           tp_capabilities = Some capabilities, tp_fallback = fallback\<rparr>
     in bind_result (map_sum (\<lambda>e. invalid_header (ContractMessage e)) id (validate_task_profile task)) (\<lambda>_.
     bind_result (parse_tenant to_str headers mode) (\<lambda>tenant_id.
     Inr \<lparr>pp_task = task, pp_role = role, pp_tenant = tenant_id, pp_intent_source = intent_source\<rparr>))))))))"

section \<open>Lemmas\<close>

lemma header_present_nonempty: "header_state_of to_str headers name = HeaderPresent s \<Longrightarrow> s \<noteq> []"
  by (auto simp: header_state_of_def Let_def split: list.splits if_splits option.splits)

lemma parse_intent_nonempty: "parse_intent to_str headers = Inr (i, src) \<Longrightarrow> i \<noteq> []"
  by (auto simp: parse_intent_def dest: header_present_nonempty split: header_state.splits)

lemma parse_capabilities_nonempty: "parse_capabilities to_str headers = Inr cs \<Longrightarrow> cs \<noteq> []"
  by (auto simp: parse_capabilities_def split: header_state.splits option.splits if_splits)

lemma parse_profileE:
  assumes "parse_profile to_str headers model mode = Inr p"
  obtains privacy intent src complexity caps fallback role tenant
  where "parse_privacy to_str headers = Inr privacy" "parse_intent to_str headers = Inr (intent, src)"
    "parse_complexity to_str headers = Inr complexity" "parse_capabilities to_str headers = Inr caps"
    "parse_fallback to_str headers = Inr fallback" "parse_role model = Inr role"
    "parse_tenant to_str headers mode = Inr tenant"
    "p = \<lparr>pp_task = \<lparr>tp_privacy = Some privacy, tp_intent = Some intent, tp_complexity = Some complexity,
           tp_capabilities = Some caps, tp_fallback = fallback\<rparr>,
         pp_role = role, pp_tenant = tenant, pp_intent_source = src\<rparr>"
  using assms that by (auto simp: parse_profile_def result_simps Let_def)

lemma is_control_same: "Json.is_control = Privacy.is_control"
  by (rule ext) (auto simp: Json.is_control_def Privacy.is_control_def)

lemma event_identifier_loggable: "event_identifier_valid s \<longleftrightarrow> validate_id field s = Inr ()"
  by (auto simp: event_identifier_valid_def validate_id_def MAX_UTF16_UNITS_def is_control_same)

lemma parse_tenantD:
  "parse_tenant to_str headers mode = Inr t \<Longrightarrow>
     (case t of None \<Rightarrow> mode = PersonalMode | Some s \<Rightarrow> mode = TenantMode \<and> event_identifier_valid s)"
  by (auto simp: parse_tenant_def split: deploy_mode.splits header_state.splits if_splits)

lemma field_errors:
  "parse_privacy to_str headers = Inl e \<Longrightarrow> pe_status e = 400"
  "parse_intent to_str headers = Inl e \<Longrightarrow> pe_status e = 400"
  "parse_complexity to_str headers = Inl e \<Longrightarrow> pe_status e = 400"
  "parse_fallback to_str headers = Inl e \<Longrightarrow> pe_status e = 400"
  "parse_role model = Inl e \<Longrightarrow> pe_status e = 400"
  by (auto simp: parse_privacy_def parse_intent_def parse_complexity_def parse_fallback_def parse_role_def
      invalid_privacy_def invalid_header_def split: header_state.splits if_splits option.splits)
    (cases "parse_model_role (chars (the model))"; auto)

lemma capabilities_error: "parse_capabilities to_str headers = Inl e \<Longrightarrow> pe_status e = 400"
  by (auto simp: parse_capabilities_def invalid_header_def split: header_state.splits if_splits option.splits)

lemma tenant_error: "parse_tenant to_str headers mode = Inl e \<Longrightarrow> pe_status e = 400"
  by (auto simp: parse_tenant_def tenant_missing_def split: deploy_mode.splits header_state.splits if_splits)

lemma contract_error_status: "map_sum (\<lambda>e. invalid_header (ContractMessage e)) id r = Inl e \<Longrightarrow> pe_status e = 400"
  by (cases r) (auto simp: invalid_header_def)

lemma parse_profile_errors: "parse_profile to_str headers model mode = Inl e \<Longrightarrow> pe_status e = 400"
  unfolding parse_profile_def Let_def bind_result_eq_Inl
  by (elim disjE exE conjE; (erule field_errors capabilities_error tenant_error contract_error_status)?)
    (auto simp: bind_result_eq_Inl intro: field_errors capabilities_error tenant_error contract_error_status)

section \<open>Properties\<close>

lemma privacy_from_header:
  assumes "parse_profile to_str headers model mode = Inr p"
  shows "tp_privacy (pp_task p) =
    Some (if header_state_of to_str headers ''x-idoris-privacy'' = HeaderPresent ''any'' then AnyPrivacy else LocalOnly)"
  using assms
  by (elim parse_profileE) (auto simp: parse_privacy_def split: header_state.splits if_splits)

text \<open>
  Privacy fails closed at the door: a profile allows more than \<open>local_only\<close> only when the
  request carries exactly one privacy header, whose trimmed value is \<open>any\<close>.
\<close>

theorem profile_privacy_fails_closed:
  assumes "parse_profile to_str headers model mode = Inr p"
  shows "tp_privacy (pp_task p) =
    Some (if header_state_of to_str headers ''x-idoris-privacy'' = HeaderPresent ''any'' then AnyPrivacy else LocalOnly)"
  using assms by (rule privacy_from_header)

text \<open>
  A profile is well formed: its task satisfies the contract, it has a tenant exactly in tenant mode,
  and that tenant's id is one the event log accepts.
\<close>

theorem profile_well_formed:
  assumes "parse_profile to_str headers model mode = Inr p"
  shows "validate_task_profile (pp_task p) = Inr () \<and> (pp_tenant p = None \<longleftrightarrow> mode = PersonalMode)
    \<and> (\<forall>t field. pp_tenant p = Some t \<longrightarrow> validate_id field t = Inr ())"
  using assms
  by (elim parse_profileE)
    (auto simp: validate_task_profile_def result_simps non_empty_def event_identifier_loggable [symmetric]
      dest!: parse_tenantD parse_intent_nonempty parse_capabilities_nonempty split: option.splits)

text \<open>
  A header that is there but unusable (repeated, not visible ASCII, blank) is never dropped: the
  request is refused with status 400, in tenant mode also for the tenant's header.
\<close>

theorem unusable_header_refused:
  assumes "header_state_of to_str headers name = HeaderInvalid"
    and "name \<in> {''x-idoris-privacy'', ''x-idoris-intent'', ''x-idoris-complexity'', ''x-idoris-capabilities'',
      ''x-idoris-fallback''} \<or> name = ''x-idoris-tenant'' \<and> mode = TenantMode"
  shows "\<exists>e. parse_profile to_str headers model mode = Inl e \<and> pe_status e = 400"
proof (cases "parse_profile to_str headers model mode")
  case (Inl e)
  with parse_profile_errors show ?thesis by blast
next
  case (Inr p)
  then show ?thesis
    by (rule parse_profileE) (use assms in \<open>auto simp: parse_privacy_def parse_intent_def parse_complexity_def
      parse_capabilities_def parse_fallback_def parse_tenant_def\<close>)
qed

section \<open>A concrete request\<close>

definition sample_headers :: "string header_map" where
  "sample_headers = [(''x-idoris-privacy'', '' any ''), (''x-idoris-capabilities'', ''chat, vision''),
     (''x-idoris-tenant'', ''t1'')]"

definition sample_profile :: parsed_profile where
  "sample_profile = \<lparr>pp_task = \<lparr>tp_privacy = Some AnyPrivacy, tp_intent = Some ''chat'', tp_complexity = Some Simple,
     tp_capabilities = Some [Chat, Vision], tp_fallback = None\<rparr>, pp_role = None, pp_tenant = Some ''t1'',
     pp_intent_source = DefaultIntent\<rparr>"

lemmas header_eval = header_state_of_def get_all_def str_trim_def chars_def trim_matches_def
  is_unicode_whitespace_def byte_len_def

lemma sample_fields:
  "header_state_of Some sample_headers ''x-idoris-privacy'' = HeaderPresent ''any''"
  "parse_privacy Some sample_headers = Inr AnyPrivacy"
  "parse_intent Some sample_headers = Inr (''chat'', DefaultIntent)"
  "parse_complexity Some sample_headers = Inr Simple"
  "parse_capabilities Some sample_headers = Inr [Chat, Vision]"
  "parse_fallback Some sample_headers = Inr None"
  "parse_tenant Some sample_headers TenantMode = Inr (Some ''t1'')"
  by (simp_all add: sample_headers_def header_eval parse_privacy_def parse_intent_def parse_complexity_def
      parse_capabilities_def parse_capability_def parse_fallback_def parse_tenant_def event_identifier_valid_def
      is_blank_def utf16_len_def Privacy.is_control_def MAX_UTF16_UNITS_def)

lemma sample_parse: "parse_profile Some sample_headers None TenantMode = Inr sample_profile"
  by (simp add: parse_profile_def sample_fields parse_role_def sample_profile_def validate_task_profile_def
      require_def non_empty_def)

theorem profile_privacy_fails_closed_witness:
  "header_state_of Some sample_headers ''x-idoris-privacy'' = HeaderPresent ''any''
   \<and> tp_privacy (pp_task sample_profile) = Some AnyPrivacy"
  using profile_privacy_fails_closed [OF sample_parse] sample_fields(1) by simp

theorem profile_well_formed_witness:
  "pp_tenant sample_profile = Some ''t1'' \<and> validate_id ''tenant_id'' ''t1'' = Inr ()"
  using profile_well_formed [OF sample_parse] by (simp add: sample_profile_def)

theorem unusable_header_refused_witness:
  "\<exists>e. parse_profile Some [(''x-idoris-privacy'', ''any''), (''x-idoris-privacy'', ''any'')] None PersonalMode = Inl e
    \<and> pe_status e = 400"
  by (rule unusable_header_refused [where name = "''x-idoris-privacy''"]) (simp_all add: header_state_of_def get_all_def)

end
