(* ===== verification/Auth.thy ===== *)
theory Auth
  imports Profile Virtual_Keys
begin

text \<open>
  Who may ask for what (\<^verbatim>\<open>crates/idoris-router/src/auth.rs\<close>): the bearer token of a request, its
  authentication against the key store with the clock read twice, and the ceiling a key puts on a
  profile. A poisoned store is \<open>None\<close>, and so is a clock that cannot be read.
\<close>

datatype virtual_key_auth_error = Unauthorized | Unavailable

datatype virtual_key_scope_error = TenantForbidden | PrivacyForbidden | RoleForbidden | FallbackForbidden

definition reason_code :: "virtual_key_scope_error \<Rightarrow> string" where
  "reason_code e = (case e of
      TenantForbidden \<Rightarrow> ''VIRTUAL_KEY_TENANT_FORBIDDEN''
    | PrivacyForbidden \<Rightarrow> ''VIRTUAL_KEY_PRIVACY_FORBIDDEN''
    | RoleForbidden \<Rightarrow> ''VIRTUAL_KEY_ROLE_FORBIDDEN''
    | FallbackForbidden \<Rightarrow> ''VIRTUAL_KEY_FALLBACK_FORBIDDEN'')"

section \<open>The ceiling\<close>

definition full_role_authority :: "key_scope \<Rightarrow> bool" where
  "full_role_authority scope \<longleftrightarrow> list_all (\<lambda>role. List.member (allowed_roles scope) (role_as_str role)) ROLES"

definition enforce_scope :: "authenticated_key \<Rightarrow> parsed_profile \<Rightarrow> virtual_key_scope_error + unit" where
  "enforce_scope identity profile =
     (let scope = ak_scope identity;
          privacy = (case tp_privacy (pp_task profile) of None \<Rightarrow> LocalOnly | Some p \<Rightarrow> p);
          full = full_role_authority scope
      in if \<not> List.member (allowed_privacy scope) privacy then Inl PrivacyForbidden
         else if tp_fallback (pp_task profile) = Some NextInChain \<and> \<not> full then Inl FallbackForbidden
         else case pp_role profile of
             None \<Rightarrow> if full then Inr () else Inl RoleForbidden
           | Some role \<Rightarrow> if \<not> List.member (allowed_roles scope) (role_as_str role) then Inl RoleForbidden else Inr ())"

section \<open>The bearer token\<close>

text \<open>\<open>split_ascii_whitespace\<close>: the maximal runs without a space, tab, line feed, form feed or return.\<close>

definition is_ascii_whitespace :: "char \<Rightarrow> bool" where
  "is_ascii_whitespace c \<longleftrightarrow> of_char c \<in> {9 :: nat, 10, 12, 13, 32}"

fun ascii_words :: "string \<Rightarrow> string \<Rightarrow> string list" where
  "ascii_words word [] = (if word = [] then [] else [rev word])"
| "ascii_words word (c # s) =
     (if is_ascii_whitespace c then (if word = [] then [] else [rev word]) @ ascii_words [] s
      else ascii_words (c # word) s)"

definition bearer_secret :: "('v \<Rightarrow> string option) \<Rightarrow> 'v header_map \<Rightarrow> virtual_key_auth_error + string" where
  "bearer_secret to_str headers =
     (case get_all headers ''authorization'' of
        [first] \<Rightarrow>
          (case to_str first of
             None \<Rightarrow> Inl Unauthorized
           | Some raw \<Rightarrow>
               (case ascii_words [] raw of
                  [scheme, token] \<Rightarrow>
                    if \<not> eq_ignore_ascii_case (ascii scheme) (ascii ''bearer'') then Inl Unauthorized
                    else map_sum (\<lambda>_. Unauthorized) id (parse_secret token)
                | _ \<Rightarrow> Inl Unauthorized))
      | _ \<Rightarrow> Inl Unauthorized)"

section \<open>Authentication\<close>

text \<open>The two readings of the clock, before the lookup and after it.\<close>

definition authenticate_secret_with_clock ::
    "key_lib \<Rightarrow> (string \<Rightarrow> key_hash) \<Rightarrow> key_store option \<Rightarrow> string \<Rightarrow> int option \<Rightarrow> int option
     \<Rightarrow> virtual_key_auth_error + authenticated_key" where
  "authenticate_secret_with_clock lib sha store secret lookup_clock decision_clock =
     bind_result (ok_or Unavailable store) (\<lambda>st.
     bind_result (ok_or Unavailable lookup_clock) (\<lambda>lookup_now.
     bind_result (map_sum (\<lambda>_. Unavailable) id (authenticate lib sha secret lookup_now st)) (\<lambda>found.
     bind_result (ok_or Unauthorized found) (\<lambda>identity.
     bind_result (ok_or Unavailable decision_clock) (\<lambda>decision_now.
     if decision_now < lookup_now then Inl Unavailable
     else if (\<exists>expires \<in> set_option (expires_at_ms (ak_scope identity)). expires \<le> decision_now) then Inl Unauthorized
     else Inr identity)))))"

definition authenticate_request ::
    "('v \<Rightarrow> string option) \<Rightarrow> key_lib \<Rightarrow> (string \<Rightarrow> key_hash) \<Rightarrow> key_store option \<Rightarrow> int option \<Rightarrow> int option
     \<Rightarrow> 'v header_map \<Rightarrow> virtual_key_auth_error + authenticated_key" where
  "authenticate_request to_str lib sha store lookup_clock decision_clock headers =
     bind_result (bearer_secret to_str headers) (\<lambda>secret.
     authenticate_secret_with_clock lib sha store secret lookup_clock decision_clock)"

section \<open>Properties\<close>

lemma enforce_scope_ok:
  "enforce_scope identity profile = Inr () \<longleftrightarrow>
     (case tp_privacy (pp_task profile) of None \<Rightarrow> LocalOnly | Some p \<Rightarrow> p) \<in> set (allowed_privacy (ak_scope identity))
     \<and> (tp_fallback (pp_task profile) = Some NextInChain \<or> pp_role profile = None \<longrightarrow> full_role_authority (ak_scope identity))
     \<and> (\<forall>role. pp_role profile = Some role \<longrightarrow> role_as_str role \<in> set (allowed_roles (ak_scope identity)))"
  by (auto simp: enforce_scope_def Let_def split: option.splits if_splits)

text \<open>
  C25. A key is a ceiling: it admits exactly the profiles whose privacy class and role it lists; no
  role, or a fallback to whatever else is there, takes a key that lists every role.
\<close>

theorem key_scope_exact:
  "enforce_scope identity profile = Inr () \<longleftrightarrow>
     (case tp_privacy (pp_task profile) of None \<Rightarrow> LocalOnly | Some p \<Rightarrow> p) \<in> set (allowed_privacy (ak_scope identity))
     \<and> (tp_fallback (pp_task profile) = Some NextInChain \<or> pp_role profile = None
          \<longrightarrow> (\<forall>role. role_as_str role \<in> set (allowed_roles (ak_scope identity))))
     \<and> (\<forall>role. pp_role profile = Some role \<longrightarrow> role_as_str role \<in> set (allowed_roles (ak_scope identity)))"
proof -
  have "r \<in> set ROLES" for r by (cases r) (simp_all add: ROLES_def)
  then have "full_role_authority (ak_scope identity)
      \<longleftrightarrow> (\<forall>role. role_as_str role \<in> set (allowed_roles (ak_scope identity)))"
    by (auto simp: full_role_authority_def list_all_iff)
  then show ?thesis by (simp add: enforce_scope_ok)
qed

theorem key_scope_exact_witness:
  "enforce_scope \<lparr>ak_id = ''k'', ak_scope = \<lparr>ks_owner = ''o'', ks_tenant = None, allowed_privacy = [LocalOnly],
       allowed_roles = [''deep''], budget_ref = None, expires_at_ms = None, admin_scopes = []\<rparr>\<rparr>
     \<lparr>pp_task = \<lparr>tp_privacy = Some LocalOnly, tp_intent = None, tp_complexity = None, tp_capabilities = None,
       tp_fallback = None\<rparr>, pp_role = Some RDeep, pp_tenant = None, pp_intent_source = DefaultIntent\<rparr> = Inr ()"
  by (simp add: key_scope_exact)

text \<open>
  A request that authenticates carries exactly one authorization header with a well-formed key, and that
  key is one the store found; it was not expired when the decision was taken, by a clock that did not go back.
\<close>

theorem authenticated_request:
  assumes "authenticate_request to_str lib sha store t t' headers = Inr identity"
  shows "\<exists>val secret st now now'. get_all headers ''authorization'' = [val] \<and> to_str val \<noteq> None
    \<and> parse_secret secret = Inr secret \<and> store = Some st \<and> t = Some now \<and> t' = Some now'
    \<and> authenticate lib sha secret now st = Inr (Some identity) \<and> now \<le> now'
    \<and> (\<forall>expires. expires_at_ms (ak_scope identity) = Some expires \<longrightarrow> now' < expires)"
proof -
  from assms obtain secret where b: "bearer_secret to_str headers = Inr secret"
    and a: "authenticate_secret_with_clock lib sha store secret t t' = Inr identity"
    by (auto simp: authenticate_request_def result_simps)
  from a obtain st now now' where s: "store = Some st" "t = Some now" "t' = Some now'"
    "authenticate lib sha secret now st = Inr (Some identity)" "now \<le> now'"
    "\<forall>expires. expires_at_ms (ak_scope identity) = Some expires \<longrightarrow> now' < expires"
    by (cases store; cases t; cases t'; cases "authenticate lib sha secret (the t) (the store)")
      (fastforce simp: authenticate_secret_with_clock_def result_simps not_less not_le split: if_splits)+
  from b obtain val token where v: "get_all headers ''authorization'' = [val]" "to_str val \<noteq> None"
    and p: "parse_secret token = Inr secret"
    by (auto simp: bearer_secret_def split: list.splits option.splits if_splits)
      (metis map_sum.simps obj_sumE id_apply sum.distinct(1) sum.inject(2))
  from p have "parse_secret secret = Inr secret"
    by (auto simp: parse_secret_def Let_def split: if_splits)
  with s v show ?thesis by blast
qed

end
