(* ===== verification/F64_Order.thy ===== *)
theory F64_Order
  imports F64
begin

text \<open>
  Further operations of \<open>f64\<close> that prices use: \<open>ceil\<close>, \<open>as i64\<close>, and that arithmetic on numbers that
  are not negative is monotone, rounding included.
\<close>

section \<open>Rounding up and casting\<close>

definition f64_ceil :: "f64 \<Rightarrow> f64" where
  "f64_ceil x =
     (let u = magnitude_units (f64_magnitude x)
      in if \<not> f64_is_finite x then x
         else if f64_negative x then f64_neg (f64_of_nat (u div 2 ^ 1074))
         else f64_of_nat ((u + (2 ^ 1074 - 1)) div 2 ^ 1074))"

text \<open>\<open>x as i64\<close> truncates towards zero and saturates; NaN becomes zero.\<close>

definition f64_as_i64 :: "f64 \<Rightarrow> int" where
  "f64_as_i64 x =
     (let t = int (magnitude_units (f64_magnitude x) div 2 ^ 1074)
      in if f64_is_nan x then 0
         else if f64_negative x then max (- t) (- (2 ^ 63)) else min t (2 ^ 63 - 1))"

section \<open>Rounding is monotone in the numerator\<close>

lemma round_ratio_quotient_half_even:
  "round_ratio n d = min ((bit_length (n div d) - 53) * 2 ^ 52
     + round_half_even n (d * 2 ^ (bit_length (n div d) - 53))) f64_infinity_bits"
  by (simp add: round_ratio_def round_half_even_def Let_def)

lemma round_half_even_quotient_range:
  assumes "53 < bit_length (n div d)"
  shows "2 ^ 52 \<le> round_half_even n (d * 2 ^ (bit_length (n div d) - 53))"
    and "round_half_even n (d * 2 ^ (bit_length (n div d) - 53)) \<le> 2 ^ 53"
proof -
  let ?q = "n div d"
  let ?D = "2 ^ (bit_length ?q - 53) :: nat"
  have "0 < ?q" using assms by (cases ?q) (simp_all add: bit_length.simps)
  have "52 + (bit_length ?q - 53) = bit_length ?q - 1" "53 + (bit_length ?q - 53) = bit_length ?q"
    using assms by simp_all
  then have D: "2 ^ 52 * ?D = 2 ^ (bit_length ?q - 1)" "2 ^ 53 * ?D = 2 ^ bit_length ?q"
    unfolding power_add [symmetric] by simp_all
  have q: "n div (d * ?D) = ?q div ?D" by (simp add: div_mult2_eq)
  have "2 ^ 52 * ?D \<le> ?q" unfolding D(1) using bit_length_lower [OF \<open>0 < ?q\<close>] by simp
  then have "2 ^ 52 \<le> ?q div ?D" by (simp add: less_eq_div_iff_mult_less_eq)
  then show "2 ^ 52 \<le> round_half_even n (d * ?D)" by (simp add: round_half_even_def q)
  have "?q < 2 ^ 53 * ?D" unfolding D(2) by (rule less_bit_length)
  then have "?q div ?D < 2 ^ 53" by (simp add: less_mult_imp_div_less)
  then show "round_half_even n (d * ?D) \<le> 2 ^ 53" by (simp add: round_half_even_def q)
qed

lemma round_ratio_mono_num:
  assumes mn: "m \<le> n" and d: "0 < d"
  shows "round_ratio m d \<le> round_ratio n d"
proof -
  let ?k = "\<lambda>n. bit_length (n div d) - 53" and ?h = "\<lambda>n. round_half_even n (d * 2 ^ (bit_length (n div d) - 53))"
  from mn have dq: "m div d \<le> n div d" by (rule div_le_mono)
  have "?k m * 2 ^ 52 + ?h m \<le> ?k n * 2 ^ 52 + ?h n"
  proof (cases "?k m = ?k n")
    case True
    with round_half_even_mono [OF mn, of "d * 2 ^ ?k n"] d show ?thesis by simp
  next
    case False
    with bit_length_mono [OF dq] have k: "?k m < ?k n" "53 < bit_length (n div d)" by linarith+
    have "?h m \<le> 2 ^ 53"
    proof (cases "53 < bit_length (m div d)")
      case True
      then show ?thesis by (rule round_half_even_quotient_range)
    next
      case False
      then have "m div d < 2 ^ 53"
        using less_bit_length [of "m div d"] power_increasing [of "bit_length (m div d)" 53 "2::nat"] by simp
      with False show ?thesis by (simp add: round_half_even_def)
    qed
    then have "?k m * 2 ^ 52 + ?h m \<le> (?k m + 1) * 2 ^ 52 + 2 ^ 52" by simp
    also have "\<dots> \<le> ?k n * 2 ^ 52 + 2 ^ 52" using k(1) by (intro add_right_mono mult_right_mono) simp_all
    also have "\<dots> \<le> ?k n * 2 ^ 52 + ?h n" using round_half_even_quotient_range(1) [OF k(2)] by simp
    finally show ?thesis .
  qed
  then show ?thesis unfolding round_ratio_quotient_half_even by (simp add: min_le_iff_disj)
qed

section \<open>Numbers that are not negative\<close>

definition f64_nonneg :: "f64 \<Rightarrow> bool" where
  "f64_nonneg x \<longleftrightarrow> \<not> f64_is_nan x \<and> (f64_negative x \<longrightarrow> f64_magnitude x = 0)"

abbreviation mag_units :: "f64 \<Rightarrow> nat" where
  "mag_units x \<equiv> magnitude_units (f64_magnitude x)"

lemma mag_units_mono: "f64_magnitude x \<le> f64_magnitude y \<Longrightarrow> mag_units x \<le> mag_units y"
  using magnitude_units_less [of "f64_magnitude y" "f64_magnitude x"] by linarith

lemma nonneg_units: "f64_nonneg x \<Longrightarrow> f64_units x = int (mag_units x)"
  by (auto simp: f64_nonneg_def f64_units_def)

lemma nonneg_ord: "f64_nonneg x \<Longrightarrow> f64_ord x = int (f64_magnitude x)"
  by (auto simp: f64_nonneg_def f64_ord_def)

lemma nonneg_not_lt_zero: "\<not> f64_is_nan x \<Longrightarrow> \<not> f64_lt x f64_zero \<Longrightarrow> f64_nonneg x"
proof -
  have "f64_ord f64_zero = 0" "\<not> f64_is_nan f64_zero"
    by (simp_all add: f64_ord_def f64_is_nan_def f64_zero_def f64_magnitude_def)
  moreover assume "\<not> f64_is_nan x" "\<not> f64_lt x f64_zero"
  ultimately show ?thesis by (auto simp: f64_nonneg_def f64_lt_def f64_ord_def split: if_splits)
qed

lemma nonneg_make_round: "f64_nonneg (f64_make False (round_ratio n d))"
  by (simp add: f64_nonneg_def make_round_not_nan negative_make_round)

lemma nonneg_of_nat: "f64_nonneg (f64_of_nat n)" "f64_magnitude (f64_of_nat n) = round_ratio (n * 2 ^ 1074) 1"
  by (simp_all add: f64_of_nat_def nonneg_make_round magnitude_make_round)

lemma of_nat_magnitude_mono: "m \<le> n \<Longrightarrow> f64_magnitude (f64_of_nat m) \<le> f64_magnitude (f64_of_nat n)"
  unfolding nonneg_of_nat by (intro round_ratio_mono_num) simp_all

lemma round_ratio_zero: "round_ratio 0 d = 0"
  by (simp add: round_ratio_def bit_length.simps)

lemma nonneg_mul:
  assumes "f64_nonneg a" "f64_is_finite a" "f64_nonneg b" "f64_is_finite b"
  shows "f64_nonneg (f64_mul a b)" "f64_magnitude (f64_mul a b) = round_ratio (mag_units a * mag_units b) (2 ^ 1074)"
proof -
  have e: "f64_mul a b = f64_make (f64_negative a \<noteq> f64_negative b) (round_ratio (mag_units a * mag_units b) (2 ^ 1074))"
    using assms by (simp add: f64_mul_def finite_not_nan finite_not_inf)
  show m: "f64_magnitude (f64_mul a b) = round_ratio (mag_units a * mag_units b) (2 ^ 1074)"
    unfolding e by (rule magnitude_make_round)
  have "f64_negative a \<noteq> f64_negative b \<Longrightarrow> mag_units a * mag_units b = 0"
    using assms(1,3) by (auto simp: f64_nonneg_def)
  then show "f64_nonneg (f64_mul a b)"
    unfolding f64_nonneg_def m unfolding e negative_make_round
    by (auto simp: make_round_not_nan round_ratio_zero)
qed

lemma nonneg_div:
  assumes "f64_nonneg a" "f64_is_finite a" "f64_is_finite b" "\<not> f64_negative b" "mag_units b \<noteq> 0"
  shows "f64_nonneg (f64_div a b)" "f64_magnitude (f64_div a b) = round_ratio (mag_units a * 2 ^ 1074) (mag_units b)"
proof -
  have e: "f64_div a b = f64_make (f64_negative a) (round_ratio (mag_units a * 2 ^ 1074) (mag_units b))"
    using assms by (simp add: f64_div_def finite_not_nan finite_not_inf)
  show m: "f64_magnitude (f64_div a b) = round_ratio (mag_units a * 2 ^ 1074) (mag_units b)"
    unfolding e by (rule magnitude_make_round)
  have "f64_negative a \<Longrightarrow> mag_units a = 0" using assms(1) by (simp add: f64_nonneg_def)
  then show "f64_nonneg (f64_div a b)"
    unfolding f64_nonneg_def m unfolding e negative_make_round
    by (auto simp: make_round_not_nan round_ratio_zero)
qed

lemma nonneg_add:
  assumes "f64_nonneg a" "f64_is_finite a" "f64_nonneg b" "f64_is_finite b"
  shows "f64_nonneg (f64_add a b)" "f64_magnitude (f64_add a b) = round_ratio (mag_units a + mag_units b) 1"
proof -
  let ?u = "mag_units a + mag_units b"
  have e: "f64_add a b = (if ?u = 0 then f64_make (f64_negative a \<and> f64_negative b) 0
      else f64_make False (round_ratio ?u 1))"
    using assms by (simp add: f64_add_def finite_not_nan finite_not_inf nonneg_units nat_add_distrib)
  show "f64_magnitude (f64_add a b) = round_ratio ?u 1"
    unfolding e by (simp add: magnitude_make_round magnitude_make round_ratio_zero)
  show "f64_nonneg (f64_add a b)"
    unfolding e using nonneg_make_round [of ?u 1]
    by (simp add: f64_nonneg_def make_zero_not_nan magnitude_make)
qed

text \<open>A sum with an operand beyond the largest number is beyond it too.\<close>

lemma nonneg_add_finite:
  assumes "f64_nonneg a" "f64_nonneg b" "f64_is_finite (f64_add a b)"
  shows "f64_is_finite a \<and> f64_is_finite b"
proof -
  have inf: "f64_is_inf x \<and> \<not> f64_negative x" if "f64_nonneg x" "\<not> f64_is_finite x" for x
    using that by (auto simp: f64_nonneg_def f64_is_nan_def f64_is_inf_def f64_is_finite_def f64_infinity_bits_def)
  have nz: "f64_is_inf x \<Longrightarrow> f64_magnitude x \<noteq> 0" for x
    by (simp add: f64_is_inf_def f64_infinity_bits_def)
  have nf: "\<not> f64_is_finite x" if "f64_is_inf x" for x
    using that by (simp add: f64_is_inf_def f64_is_finite_def)
  show ?thesis
  proof (rule ccontr)
    assume "\<not> ?thesis"
    then have "f64_is_inf (f64_add a b)"
      using assms(1,2) inf [of a] inf [of b] nz [of a] nz [of b]
      by (auto simp: f64_add_def f64_nonneg_def)
    with nf assms(3) show False by blast
  qed
qed

lemma finite_magnitude_le: "f64_magnitude x \<le> f64_magnitude y \<Longrightarrow> f64_is_finite y \<Longrightarrow> f64_is_finite x"
  by (simp add: f64_is_finite_def)

lemma nonneg_ceil:
  assumes "f64_nonneg x" "f64_is_finite x"
  shows "f64_nonneg (f64_ceil x)"
    "f64_magnitude (f64_ceil x) = f64_magnitude (f64_of_nat ((mag_units x + (2 ^ 1074 - 1)) div 2 ^ 1074))"
proof -
  have z: "f64_negative x \<Longrightarrow> mag_units x = 0" using assms(1) by (simp add: f64_nonneg_def)
  have n0: "f64_of_nat 0 = 0" by (simp add: f64_of_nat_def round_ratio_zero f64_make_def)
  have d0: "(2 ^ 1074 - 1) div 2 ^ 1074 = (0 :: nat)" by simp
  have neg: "f64_negative x \<Longrightarrow> f64_ceil x = f64_neg (f64_of_nat 0)"
    using z assms(2) by (simp add: f64_ceil_def Let_def)
  have pos: "\<not> f64_negative x \<Longrightarrow> f64_ceil x = f64_of_nat ((mag_units x + (2 ^ 1074 - 1)) div 2 ^ 1074)"
    using assms(2) by (simp add: f64_ceil_def Let_def)
  have m0: "f64_magnitude (f64_neg (f64_of_nat 0)) = 0"
    unfolding n0 magnitude_neg by (simp add: f64_magnitude_def)
  show "f64_magnitude (f64_ceil x) = f64_magnitude (f64_of_nat ((mag_units x + (2 ^ 1074 - 1)) div 2 ^ 1074))"
  proof (cases "f64_negative x")
    case True
    show ?thesis unfolding neg [OF True] m0 z [OF True] add_0 d0 by (simp add: n0 f64_magnitude_def)
  next
    case False
    show ?thesis unfolding pos [OF False] by (rule refl)
  qed
  show "f64_nonneg (f64_ceil x)"
  proof (cases "f64_negative x")
    case True
    show ?thesis unfolding neg [OF True] f64_nonneg_def m0 f64_is_nan_def by simp
  next
    case False
    show ?thesis unfolding pos [OF False] by (rule nonneg_of_nat)
  qed
qed

lemma ceil_magnitude_mono:
  assumes "f64_nonneg x" "f64_nonneg y" "f64_is_finite y" "f64_magnitude x \<le> f64_magnitude y"
  shows "f64_magnitude (f64_ceil x) \<le> f64_magnitude (f64_ceil y)"
  using assms nonneg_ceil(2) [of x] nonneg_ceil(2) [of y] finite_magnitude_le [of x y] mag_units_mono [of x y]
  by (simp only: of_nat_magnitude_mono div_le_mono add_right_mono)

lemma nonneg_as_i64: "f64_nonneg x \<Longrightarrow> f64_as_i64 x = min (int (mag_units x div 2 ^ 1074)) (2 ^ 63 - 1)"
  by (auto simp: f64_nonneg_def f64_as_i64_def Let_def)

lemma as_i64_mono:
  assumes "f64_nonneg x" "f64_nonneg y" "f64_magnitude x \<le> f64_magnitude y"
  shows "0 \<le> f64_as_i64 x \<and> f64_as_i64 x \<le> f64_as_i64 y"
proof -
  have mins: "0 \<le> min (int m) c \<and> min (int m) c \<le> min (int n) c" if "m \<le> n" "0 \<le> c" for m n and c :: int
    using that by auto
  show ?thesis
    unfolding nonneg_as_i64 [OF assms(1)] nonneg_as_i64 [OF assms(2)]
    by (intro mins div_le_mono mag_units_mono assms(3)) simp
qed

end
