(* ===== verification/Quotation.thy ===== *)
theory Quotation
  imports F64_Order Records
begin

text \<open>
  What a call may cost and what it did cost (\<^verbatim>\<open>crates/idoris-router/src/budget.rs\<close>): the output
  tokens a request reserves, the price of token counts under a provider's rates, and the usage an
  upstream reports. Reading a body as JSON is the caller's: a body that is no JSON is \<open>None\<close>.
\<close>

section \<open>Reserved tokens\<close>

definition RESERVED_COMPLETION_TOKENS :: u64 where
  "RESERVED_COMPLETION_TOKENS = 1024"

definition MAX_EXACT_COMPLETION_TOKENS :: u64 where
  "MAX_EXACT_COMPLETION_TOKENS = 2 ^ 53"

text \<open>\<open>Value::get\<close> by a key, and the same without an explicit null.\<close>

definition value_get :: "json \<Rightarrow> string \<Rightarrow> json option" where
  "value_get v key = Option.bind (as_object v) (\<lambda>m. map_of m key)"

definition get_non_null :: "json \<Rightarrow> string \<Rightarrow> json option" where
  "get_non_null v key = Option.bind (value_get v key) (\<lambda>w. if w = JNull then None else Some w)"

fun completion_fields :: "json \<Rightarrow> string list \<Rightarrow> u64 \<Rightarrow> string + u64" where
  "completion_fields body [] completion = Inr completion"
| "completion_fields body (name # names) completion =
     (case get_non_null body name of
        None \<Rightarrow> completion_fields body names completion
      | Some value \<Rightarrow>
          (case as_u64 value of
             Some cap \<Rightarrow> if cap \<le> MAX_EXACT_COMPLETION_TOKENS then completion_fields body names (max completion cap)
                         else Inl name
           | None \<Rightarrow> Inl name))"

definition completion_reservation_tokens :: "json \<Rightarrow> string + u64" where
  "completion_reservation_tokens body =
     (if (\<exists>count \<in> set_option (get_non_null body ''n''). as_u64 count \<noteq> Some 1) then Inl ''n''
      else completion_fields body [''max_tokens'', ''max_completion_tokens''] RESERVED_COMPLETION_TOKENS)"

section \<open>Prices\<close>

definition per_million :: "u64 \<Rightarrow> f64 \<Rightarrow> f64" where
  "per_million tokens rate = f64_mul (f64_div (f64_of_nat (unat tokens)) (f64_of_nat 1000000)) rate"

definition priced_minor :: "cost \<Rightarrow> u64 \<Rightarrow> u64 \<Rightarrow> int option" where
  "priced_minor cost input_tokens output_tokens =
     (if f64_eq (input_per_m cost) f64_zero \<and> f64_eq (output_per_m cost) f64_zero then Some 0
      else if \<not> f64_is_finite (input_per_m cost) \<or> \<not> f64_is_finite (output_per_m cost)
        \<or> f64_lt (input_per_m cost) f64_zero \<or> f64_lt (output_per_m cost) f64_zero then None
      else
        let total = f64_ceil (f64_add (per_million input_tokens (input_per_m cost))
              (per_million output_tokens (output_per_m cost)))
        in if f64_is_finite total \<and> f64_le f64_zero total \<and> f64_le total (f64_of_int (2 ^ 63 - 1))
           then Some (f64_as_i64 total) else None)"

definition estimate_cost_minor_with_completion :: "cost \<Rightarrow> string \<Rightarrow> u64 \<Rightarrow> int option" where
  "estimate_cost_minor_with_completion cost prompt completion =
     priced_minor cost (estimate_tokens prompt ''unknown'') (max completion RESERVED_COMPLETION_TOKENS)"

definition estimate_cost_minor :: "cost \<Rightarrow> string \<Rightarrow> int option" where
  "estimate_cost_minor cost prompt = estimate_cost_minor_with_completion cost prompt RESERVED_COMPLETION_TOKENS"

definition estimate_actual_cost_minor :: "cost \<Rightarrow> string \<Rightarrow> string \<Rightarrow> int \<Rightarrow> int" where
  "estimate_actual_cost_minor cost prompt completion reserved_minor =
     (case priced_minor cost (estimate_tokens prompt ''unknown'') (estimate_tokens completion ''unknown'') of
        Some v \<Rightarrow> v | None \<Rightarrow> reserved_minor)"

definition is_paid :: "int option \<Rightarrow> bool" where
  "is_paid estimated_cost_minor \<longleftrightarrow> (\<exists>v \<in> set_option estimated_cost_minor. v > 0)"

section \<open>Usage evidence\<close>

record usage_evidence =
  ue_input_tokens :: u64
  ue_output_tokens :: u64

datatype usage_evidence_error =
    InvalidJson | MissingUsage | InvalidPromptTokens | InvalidCompletionTokens | InvalidPriceOrAmount

definition parse_openai_usage :: "json option \<Rightarrow> usage_evidence_error + usage_evidence" where
  "parse_openai_usage body =
     bind_result (ok_or InvalidJson body) (\<lambda>value.
     bind_result (ok_or MissingUsage (Option.bind (value_get value ''usage'') as_object)) (\<lambda>usage.
     bind_result (ok_or InvalidPromptTokens (Option.bind (map_of usage ''prompt_tokens'') as_u64)) (\<lambda>input_tokens.
     bind_result (ok_or InvalidCompletionTokens (Option.bind (map_of usage ''completion_tokens'') as_u64)) (\<lambda>output_tokens.
     Inr \<lparr>ue_input_tokens = input_tokens, ue_output_tokens = output_tokens\<rparr>))))"

definition actual_cost_from_usage :: "cost \<Rightarrow> usage_evidence \<Rightarrow> usage_evidence_error + int" where
  "actual_cost_from_usage cost usage =
     ok_or InvalidPriceOrAmount (priced_minor cost (ue_input_tokens usage) (ue_output_tokens usage))"

section \<open>Prices are monotone\<close>

lemma million: "f64_is_finite (f64_of_nat 1000000)" "\<not> f64_negative (f64_of_nat 1000000)" "mag_units (f64_of_nat 1000000) \<noteq> 0"
proof -
  show "f64_is_finite (f64_of_nat 1000000)" "\<not> f64_negative (f64_of_nat 1000000)"
    by (rule f64_of_nat_exact; simp)+
  show "mag_units (f64_of_nat 1000000) \<noteq> 0" using f64_of_nat_magnitude [of 1000000] by simp
qed

lemma tokens_finite: "f64_is_finite (f64_of_nat (unat t))" for t :: u64
  using unsigned_less [of t, where ?'a = nat] by (intro f64_of_nat_finite) simp

lemma thousandths:
  "f64_nonneg (f64_div (f64_of_nat (unat t)) (f64_of_nat 1000000))"
  "f64_magnitude (f64_div (f64_of_nat (unat t)) (f64_of_nat 1000000))
     = round_ratio (mag_units (f64_of_nat (unat t)) * 2 ^ 1074) (mag_units (f64_of_nat 1000000))" for t :: u64
  by (rule nonneg_div [OF nonneg_of_nat(1) tokens_finite million])+

lemma thousandths_mono:
  "t \<le> t' \<Longrightarrow> f64_magnitude (f64_div (f64_of_nat (unat t)) (f64_of_nat 1000000))
     \<le> f64_magnitude (f64_div (f64_of_nat (unat t')) (f64_of_nat 1000000))" for t t' :: u64
  unfolding thousandths using million(3)
  by (intro round_ratio_mono_num mult_right_mono mag_units_mono of_nat_magnitude_mono)
    (simp_all add: word_le_nat_alt)

lemma mag_units_finite: "f64_is_finite x \<Longrightarrow> mag_units x < 2 ^ 2098"
proof -
  assume "f64_is_finite x"
  then have "mag_units x < magnitude_units f64_infinity_bits"
    unfolding magnitude_units_less f64_is_finite_def .
  also have "magnitude_units f64_infinity_bits = 2 ^ 52 * 2 ^ 2046"
    unfolding magnitude_units_def f64_infinity_bits_def Let_def by simp
  also have "\<dots> = 2 ^ 2098" unfolding power_add [symmetric] by simp
  finally show ?thesis .
qed

lemma thousandths_finite: "f64_is_finite (f64_div (f64_of_nat (unat t)) (f64_of_nat 1000000))" for t :: u64
proof -
  let ?n = "mag_units (f64_of_nat (unat t)) * 2 ^ 1074" and ?d = "mag_units (f64_of_nat 1000000)"
  have d: "?d = 1000000 * 2 ^ 1074" using f64_of_nat_magnitude [of 1000000] by simp
  have "?n div ?d = mag_units (f64_of_nat (unat t)) div 1000000" unfolding d by simp
  also have "\<dots> < 2 ^ 2079"
  proof -
    have "(2::nat) ^ 2098 = 2 ^ 19 * 2 ^ 2079" unfolding power_add [symmetric] by simp
    with mag_units_finite [OF tokens_finite, of t]
    have "mag_units (f64_of_nat (unat t)) < 2 ^ 2079 * 1000000" by simp
    then show ?thesis by (rule less_mult_imp_div_less)
  qed
  finally have "bit_length (?n div ?d) \<le> 2079" by (rule bit_length_bound)
  then have "(bit_length (?n div ?d) - 53 + 2) * 2 ^ 52 \<le> 2028 * 2 ^ 52" by (intro mult_right_mono) simp_all
  with round_ratio_le [of ?n ?d] have "round_ratio ?n ?d \<le> 2028 * 2 ^ 52" by (rule order_trans)
  then show ?thesis unfolding f64_is_finite_def thousandths by (simp add: f64_infinity_bits_def)
qed

lemma per_million_nonneg:
  assumes "f64_nonneg rate" "f64_is_finite rate"
  shows "f64_nonneg (per_million t rate)"
  unfolding per_million_def by (rule nonneg_mul(1) [OF thousandths(1) thousandths_finite assms])

lemma per_million_mono:
  assumes "f64_nonneg rate" "f64_is_finite rate" "t \<le> t'"
  shows "f64_magnitude (per_million t rate) \<le> f64_magnitude (per_million t' rate)"
  unfolding per_million_def nonneg_mul(2) [OF thousandths(1) thousandths_finite assms(1,2)]
  by (intro round_ratio_mono_num mult_right_mono mag_units_mono thousandths_mono assms(3)) simp_all

lemma nonneg_add_mono:
  assumes "f64_nonneg a" "f64_nonneg b" "f64_nonneg a'" "f64_nonneg b'" "f64_is_finite (f64_add a' b')"
    and "f64_magnitude a \<le> f64_magnitude a'" "f64_magnitude b \<le> f64_magnitude b'"
  shows "f64_nonneg (f64_add a b)" "f64_magnitude (f64_add a b) \<le> f64_magnitude (f64_add a' b')"
    "f64_is_finite (f64_add a b)"
proof -
  from nonneg_add_finite [OF assms(3-5)] have f': "f64_is_finite a'" "f64_is_finite b'" by simp_all
  then have f: "f64_is_finite a" "f64_is_finite b" using assms(6,7) finite_magnitude_le by blast+
  show "f64_nonneg (f64_add a b)" by (rule nonneg_add(1) [OF assms(1) f(1) assms(2) f(2)])
  show m: "f64_magnitude (f64_add a b) \<le> f64_magnitude (f64_add a' b')"
    unfolding nonneg_add(2) [OF assms(1) f(1) assms(2) f(2)] nonneg_add(2) [OF assms(3) f'(1) assms(4) f'(2)]
    by (intro round_ratio_mono_num add_mono mag_units_mono assms(6,7)) simp
  show "f64_is_finite (f64_add a b)" by (rule finite_magnitude_le [OF m assms(5)])
qed

lemma ceil_finiteD: "f64_is_finite (f64_ceil x) \<Longrightarrow> f64_is_finite x"
  by (cases "f64_is_finite x") (simp_all add: f64_ceil_def Let_def)

lemma nonneg_le_iff: "f64_nonneg x \<Longrightarrow> f64_nonneg y \<Longrightarrow> f64_le x y \<longleftrightarrow> f64_magnitude x \<le> f64_magnitude y"
  by (simp add: f64_le_def nonneg_ord) (simp add: f64_nonneg_def)

section \<open>Properties\<close>

text \<open>
  Fewer tokens never cost more: where a call is priced at \<open>v\<close>, the same call with at most as many
  tokens is priced too, at most at \<open>v\<close> and never below zero, for every rate and whatever the rounding.
\<close>

theorem priced_minor_mono:
  assumes "priced_minor cost i' k' = Some v" and "i \<le> i'" "k \<le> k'"
  shows "\<exists>w. priced_minor cost i k = Some w \<and> 0 \<le> w \<and> w \<le> v"
proof (cases "f64_eq (input_per_m cost) f64_zero \<and> f64_eq (output_per_m cost) f64_zero")
  case True
  with assms(1) show ?thesis by (simp add: priced_minor_def)
next
  case False
  let ?s = "\<lambda>i k. f64_add (per_million i (input_per_m cost)) (per_million k (output_per_m cost))"
  from assms(1) False have rate: "f64_is_finite (input_per_m cost)" "f64_is_finite (output_per_m cost)"
      "\<not> f64_lt (input_per_m cost) f64_zero" "\<not> f64_lt (output_per_m cost) f64_zero"
    and t: "f64_is_finite (f64_ceil (?s i' k'))" "f64_le (f64_ceil (?s i' k')) (f64_of_int (2 ^ 63 - 1))"
    and v: "v = f64_as_i64 (f64_ceil (?s i' k'))"
    by (auto simp: priced_minor_def Let_def split: if_splits)
  have n: "f64_nonneg (input_per_m cost)" "f64_nonneg (output_per_m cost)"
    using rate by (simp_all add: nonneg_not_lt_zero finite_not_nan)
  note pn = per_million_nonneg [OF n(1) rate(1)] per_million_nonneg [OF n(2) rate(2)]
  note fin' = ceil_finiteD [OF t(1)]
  note sum = nonneg_add_mono [OF pn pn fin' per_million_mono [OF n(1) rate(1) assms(2)]
      per_million_mono [OF n(2) rate(2) assms(3)]]
  have nn': "f64_nonneg (?s i' k')"
    by (rule nonneg_add_mono(1) [OF pn pn fin' order_refl order_refl])
  note c = nonneg_ceil(1) [OF sum(1,3)] nonneg_ceil(1) [OF nn' fin']
  note m = ceil_magnitude_mono [OF sum(1) nn' fin' sum(2)]
  have lim: "f64_nonneg (f64_of_int (2 ^ 63 - 1))" by (simp add: f64_of_int_def nonneg_of_nat)
  have z: "f64_nonneg f64_zero" by (simp add: f64_nonneg_def f64_is_nan_def f64_zero_def f64_magnitude_def)
  have "f64_is_finite (f64_ceil (?s i k))" by (rule finite_magnitude_le [OF m t(1)])
  moreover have "f64_le f64_zero (f64_ceil (?s i k))"
    unfolding nonneg_le_iff [OF z c(1)] by (simp add: f64_zero_def f64_magnitude_def)
  moreover have "f64_le (f64_ceil (?s i k)) (f64_of_int (2 ^ 63 - 1))"
    using t(2) m unfolding nonneg_le_iff [OF c(1) lim] nonneg_le_iff [OF c(2) lim] by (rule order_trans [rotated])
  ultimately have "priced_minor cost i k = Some (f64_as_i64 (f64_ceil (?s i k)))"
    using False rate by (auto simp: priced_minor_def Let_def)
  with as_i64_mono [OF c m] v show ?thesis by simp
qed

lemma priced_minor_nonneg: "priced_minor cost i k = Some v \<Longrightarrow> 0 \<le> v"
  using priced_minor_mono [of cost i k v i k] by auto

text \<open>
  C17. A quote covers the call: when neither the prompt nor the output has more tokens than were quoted, the
  cost computed from the usage the upstream reports is defined and at most the amount quoted, and so is
  the cost computed from the texts.
\<close>

theorem quote_covers_usage:
  assumes "estimate_cost_minor_with_completion cost prompt completion = Some v"
    and "ue_input_tokens usage \<le> estimate_tokens prompt ''unknown''"
    and "ue_output_tokens usage \<le> max completion RESERVED_COMPLETION_TOKENS"
  shows "(\<exists>w. actual_cost_from_usage cost usage = Inr w \<and> 0 \<le> w \<and> w \<le> v)
    \<and> (\<forall>answer. estimate_tokens answer ''unknown'' \<le> max completion RESERVED_COMPLETION_TOKENS
         \<longrightarrow> estimate_actual_cost_minor cost prompt answer v \<le> v)"
proof -
  from assms(1) have q: "priced_minor cost (estimate_tokens prompt ''unknown'') (max completion RESERVED_COMPLETION_TOKENS) = Some v"
    by (simp add: estimate_cost_minor_with_completion_def)
  have "estimate_actual_cost_minor cost prompt answer v \<le> v"
    if "estimate_tokens answer ''unknown'' \<le> max completion RESERVED_COMPLETION_TOKENS" for answer
    using priced_minor_mono [OF q order_refl that] by (auto simp: estimate_actual_cost_minor_def)
  with priced_minor_mono [OF q assms(2,3)] show ?thesis
    by (auto simp: actual_cost_from_usage_def ok_or_def)
qed

lemma completion_fields_ok:
  "completion_fields body names k = Inr c \<Longrightarrow> k \<le> c \<and>
     (\<forall>name \<in> set names. \<forall>value. get_non_null body name = Some value \<longrightarrow>
        (\<exists>cap. as_u64 value = Some cap \<and> cap \<le> c \<and> cap \<le> MAX_EXACT_COMPLETION_TOKENS))"
  by (induction body names k rule: completion_fields.induct)
    (auto split: option.splits if_splits; fastforce)+

text \<open>
  The reserved output tokens are no fewer than the 1024 of old and no fewer than any cap the request
  sets; every cap that is set is a whole number of at most two to the 53, and a request for several
  completions is refused.
\<close>

theorem completion_reserved:
  assumes "completion_reservation_tokens body = Inr c"
  shows "1024 \<le> c \<and> (\<forall>count. get_non_null body ''n'' = Some count \<longrightarrow> as_u64 count = Some 1)
    \<and> (\<forall>name \<in> {''max_tokens'', ''max_completion_tokens''}. \<forall>value. get_non_null body name = Some value \<longrightarrow>
        (\<exists>cap. as_u64 value = Some cap \<and> cap \<le> c \<and> cap \<le> 2 ^ 53))"
  using assms completion_fields_ok
    [of body "[''max_tokens'', ''max_completion_tokens'']" RESERVED_COMPLETION_TOKENS c]
  by (auto simp: completion_reservation_tokens_def RESERVED_COMPLETION_TOKENS_def MAX_EXACT_COMPLETION_TOKENS_def
      split: if_splits)

section \<open>Concrete prices\<close>

lemma per_million_exact:
  assumes "unat t = x * 1000000" "x * 1000000 < 2 ^ 53" "a < 2 ^ 53"
  shows "per_million t (f64_of_nat a) = f64_of_nat (x * a)"
proof -
  have "x < 2 ^ 53" using assms(2) by simp
  then show ?thesis
    using f64_div_of_nat [of x 1000000] f64_mul_of_nat [of x a] assms by (simp add: per_million_def)
qed

lemma f64_ceil_of_nat:
  assumes "n < 2 ^ 53"
  shows "f64_ceil (f64_of_nat n) = f64_of_nat n"
proof -
  have "(n * d + (d - 1)) div d = n" if "0 < d" for d :: nat
    using that div_mult_self3 [of d n "d - 1"] by simp
  from this [of "2 ^ 1074"] have "(n * 2 ^ 1074 + (2 ^ 1074 - 1)) div 2 ^ 1074 = n" by simp
  then show ?thesis
    unfolding f64_ceil_def Let_def f64_of_nat_magnitude [OF assms]
    using f64_of_nat_exact(2,3) [OF assms] by (simp only: if_False not_True_eq_False)
qed

text \<open>Whole millions of tokens at whole rates are priced exactly.\<close>

lemma priced_minor_exact:
  assumes "unat i = x * 1000000" "unat k = y * 1000000" "x * 1000000 < 2 ^ 53" "y * 1000000 < 2 ^ 53"
    and "a < 2 ^ 53" "b < 2 ^ 53" "x * a + y * b < 2 ^ 53"
  shows "priced_minor \<lparr>input_per_m = f64_of_nat a, output_per_m = f64_of_nat b\<rparr> i k = Some (int (x * a + y * b))"
proof -
  have z: "f64_zero = f64_of_nat 0" by (simp add: f64_zero_def f64_of_nat_def round_ratio_zero f64_make_def)
  have lim: "f64_nonneg (f64_of_int (2 ^ 63 - 1))" by (simp add: f64_of_int_def nonneg_of_nat)
  let ?n = "x * a + y * b"
  have add: "f64_add (per_million i (f64_of_nat a)) (per_million k (f64_of_nat b)) = f64_of_nat ?n"
    using assms by (simp add: per_million_exact f64_add_of_nat)
  have le: "f64_le (f64_of_nat ?n) (f64_of_int (2 ^ 63 - 1))"
    unfolding nonneg_le_iff [OF nonneg_of_nat(1) lim] using assms(7)
    by (simp add: f64_of_int_def of_nat_magnitude_mono)
  have int: "f64_as_i64 (f64_of_nat ?n) = int ?n"
  proof -
    have "int ?n < 2 ^ 53" using assms(7) by (metis of_nat_less_iff of_nat_numeral of_nat_power)
    then show ?thesis unfolding nonneg_as_i64 [OF nonneg_of_nat(1)] f64_of_nat_magnitude [OF assms(7)] by simp
  qed
  show ?thesis
    unfolding priced_minor_def Let_def z cost.simps add f64_ceil_of_nat [OF assms(7)] int
    using assms f64_of_nat_exact(2) le by (auto simp: f64_of_nat_compare)
qed

definition sample_cost :: cost where
  "sample_cost = \<lparr>input_per_m = f64_of_nat 7, output_per_m = f64_of_nat 3\<rparr>"

lemma sample_price:
  "priced_minor sample_cost 0 2000000 = Some 6"
  using priced_minor_exact [of 0 0 2000000 2 7 3] by (simp add: sample_cost_def)

lemma sample_quote: "estimate_cost_minor_with_completion sample_cost [] 2000000 = Some 6"
proof -
  have "estimate_tokens [] ''unknown'' = 0"
    by (simp add: estimate_tokens_def count_bytes_def chars_def div_ceil_def)
  then show ?thesis
    by (simp add: estimate_cost_minor_with_completion_def RESERVED_COMPLETION_TOKENS_def sample_price)
qed

theorem priced_minor_mono_witness:
  "\<exists>w. priced_minor sample_cost 0 1000000 = Some w \<and> 0 \<le> w \<and> w \<le> 6"
  by (rule priced_minor_mono [OF sample_price]) simp_all

theorem quote_covers_usage_witness:
  "\<exists>w. actual_cost_from_usage sample_cost \<lparr>ue_input_tokens = 0, ue_output_tokens = 1000000\<rparr> = Inr w \<and> 0 \<le> w \<and> w \<le> 6"
  using quote_covers_usage [OF sample_quote, of "\<lparr>ue_input_tokens = 0, ue_output_tokens = 1000000\<rparr>"]
  by (simp add: RESERVED_COMPLETION_TOKENS_def)

theorem completion_reserved_witness:
  "completion_reservation_tokens (JObj [(''max_tokens'', JNum (PosInt 4096))]) = Inr 4096 \<and> (1024 :: u64) \<le> 4096"
proof -
  have "completion_reservation_tokens (JObj [(''max_tokens'', JNum (PosInt 4096))]) = Inr 4096"
    by (simp add: completion_reservation_tokens_def get_non_null_def value_get_def RESERVED_COMPLETION_TOKENS_def
        MAX_EXACT_COMPLETION_TOKENS_def)
  with completion_reserved [OF this] show ?thesis by simp
qed

end
