(* ===== verification/Selection.thy ===== *)
theory Selection
  imports Profile Quotation
begin

text \<open>
  Which card serves a request: the routing policy's rules
  (\<^verbatim>\<open>crates/idoris-router/src/routing_policy.rs\<close>), the operator's model bindings, the candidates and
  the two passes over the decision pipeline (\<^verbatim>\<open>dispatch.rs\<close>), and the boundary of subscription cards
  (\<^verbatim>\<open>subscription/card.rs\<close>). The panic of a snapshot of the wrong length is \<open>None\<close>.
\<close>

section \<open>Routing rules\<close>

datatype matched_rule = MatchedRule nat | MatchedDefault

record route_decision =
  rd_tiers :: "tier list"
  rd_fail_closed :: bool
  rd_capability :: "capability option"
  rd_load :: "load_mode option"
  rd_matched_rule :: matched_rule

definition rule_matches :: "rp_condition \<Rightarrow> task_profile \<Rightarrow> bool" where
  "rule_matches condition profile \<longleftrightarrow>
     (\<forall>v \<in> set_option (cond_privacy condition). tp_privacy profile = Some v)
     \<and> (\<forall>v \<in> set_option (cond_intent condition). tp_intent profile = Some v)
     \<and> (\<forall>v \<in> set_option (cond_complexity condition). tp_complexity profile = Some v)
     \<and> (\<forall>need \<in> set_option (cond_capabilities condition).
          list_all (\<lambda>k. \<exists>known \<in> set_option (tp_capabilities profile). List.member known k) need)"

definition route_decide :: "routing_policy \<Rightarrow> task_profile \<Rightarrow> route_decision" where
  "route_decide policy profile =
     (let (matched_rule, action) =
          (case find (\<lambda>(i, rule). rule_matches (rule_if rule) profile) (enumerate 0 (rp_rules policy)) of
             Some (i, rule) \<Rightarrow> (MatchedRule i, rule_then rule)
           | None \<Rightarrow> (MatchedDefault, rp_default policy));
          local_only = (case tp_privacy profile of None \<Rightarrow> True | Some p \<Rightarrow> p = LocalOnly)
      in \<lparr>rd_tiers = filter (\<lambda>tier. \<not> local_only \<or> tier \<noteq> RemoteTier)
            (case act_tiers action of None \<Rightarrow> [LocalTier] | Some ts \<Rightarrow> ts),
          rd_fail_closed = (local_only \<or> act_fail_closed action = Some True),
          rd_capability = act_capability action, rd_load = act_load action, rd_matched_rule = matched_rule\<rparr>)"

definition policy_cards ::
    "component_card list \<Rightarrow> routing_policy \<Rightarrow> task_profile \<Rightarrow> component_card list \<times> route_decision" where
  "policy_cards cards policy profile =
     (let route = route_decide policy profile
      in (filter (\<lambda>card. List.member (rd_tiers route) (p_tier (c_provider card))) cards, route))"

section \<open>Subscription cards\<close>

datatype card_boundary = OrdinaryCard | SubscriptionCard

datatype subscription_card_error =
    SpawnCliImpersonation | WrongForm | WrongEndpoint | WrongTier | WrongPrivacy | InvalidCost

definition SUBSCRIPTION_ENDPOINT :: string where
  "SUBSCRIPTION_ENDPOINT = ''spawn://subscription''"

definition classify_subscription_card :: "component_card \<Rightarrow> subscription_card_error + card_boundary" where
  "classify_subscription_card c =
     (let cost = p_cost (c_provider c)
      in if p_id (c_provider c) \<noteq> SUBSCRIPTION_PROVIDER_ID then
           (if c_form c = SpawnCli then Inl SpawnCliImpersonation else Inr OrdinaryCard)
         else if c_form c \<noteq> SpawnCli then Inl WrongForm
         else if c_endpoint c \<noteq> SUBSCRIPTION_ENDPOINT then Inl WrongEndpoint
         else if p_tier (c_provider c) \<noteq> RemoteTier then Inl WrongTier
         else if p_privacy_class (c_provider c) \<noteq> AnyPrivacy \<or> c_privacy_class c \<noteq> AnyPrivacy then Inl WrongPrivacy
         else if \<not> f64_is_finite (input_per_m cost) \<or> \<not> f64_is_finite (output_per_m cost)
           \<or> \<not> f64_eq (input_per_m cost) f64_zero \<or> \<not> f64_eq (output_per_m cost) f64_zero then Inl InvalidCost
         else Inr SubscriptionCard)"

section \<open>Role bindings\<close>

datatype role_models_error = UnsupportedOnSubscription | MalformedBindings | InvalidBinding string

definition ROLE_MODELS_KEY :: string where
  "ROLE_MODELS_KEY = ''idoris_role_models''"

definition extension :: "component_card \<Rightarrow> string \<Rightarrow> json option" where
  "extension c key = Option.bind (c_extensions c) (\<lambda>m. map_of m key)"

text \<open>\<open>from_value\<close> into a map of strings, and the check of one binding, in key order.\<close>

definition string_map :: "json \<Rightarrow> (string \<times> string) list option" where
  "string_map value = Option.bind (as_object value) (\<lambda>m.
     if list_all (\<lambda>(_, v). as_str v \<noteq> None) m then Some (map (\<lambda>(k, v). (k, the (as_str v))) m) else None)"

definition binding_ok :: "string \<times> string \<Rightarrow> bool" where
  "binding_ok b = (case b of (role, model) \<Rightarrow>
     list_ex (\<lambda>r. role_as_str r = role) ROLES \<and> \<not> is_blank model \<and> model = str_trim model
     \<and> \<not> list_ex is_control (chars model) \<and> parse_model_role (chars model) = Inr None)"

definition role_models :: "component_card \<Rightarrow> role_models_error + (string \<times> string) list" where
  "role_models c =
     (case extension c ROLE_MODELS_KEY of
        None \<Rightarrow> Inr []
      | Some value \<Rightarrow>
          if p_id (c_provider c) = SUBSCRIPTION_PROVIDER_ID then Inl UnsupportedOnSubscription
          else bind_result (ok_or MalformedBindings (string_map value)) (\<lambda>models.
            case find (\<lambda>b. \<not> binding_ok b) models of
              Some (role, _) \<Rightarrow> Inl (InvalidBinding role)
            | None \<Rightarrow> Inr models))"

definition fixed_subscription_roles :: "component_card \<Rightarrow> bool" where
  "fixed_subscription_roles c \<longleftrightarrow>
     classify_subscription_card c = Inr SubscriptionCard \<and> extension c ROLE_MODELS_KEY = None"

definition has_binding :: "(string \<times> string) list \<Rightarrow> role \<Rightarrow> bool" where
  "has_binding models r \<longleftrightarrow> map_of models (role_as_str r) \<noteq> None"

section \<open>Candidates\<close>

definition is_resident_http_service :: "component_card \<Rightarrow> bool" where
  "is_resident_http_service c \<longleftrightarrow>
     c_form c = HttpService \<and> (\<exists>lp \<in> set_option (c_load_policy c). lp_mode lp = Resident)"

definition candidate :: "component_card \<Rightarrow> string \<Rightarrow> u64 \<Rightarrow> card" where
  "candidate c prompt completion =
     (let models = (case role_models c of Inr ms \<Rightarrow> ms | Inl _ \<Rightarrow> [])
      in \<lparr>component = c,
          roles = filter (\<lambda>r. is_catalog_role r \<and> (fixed_subscription_roles c \<or> has_binding models r)) ROLES,
          is_experiment = False, min_ram_gb = f64_zero,
          estimated_cost_minor =
            (if is_resident_http_service c
             then estimate_cost_minor_with_completion (p_cost (c_provider c)) prompt completion
             else estimate_cost_minor (p_cost (c_provider c)) prompt),
          admission_status = Ready\<rparr>)"

text \<open>The cards a request with this role may be decided among.\<close>

definition role_admits :: "role option \<Rightarrow> component_card \<Rightarrow> bool" where
  "role_admits wanted c =
     (case role_models c of
        Inl _ \<Rightarrow> False
      | Inr models \<Rightarrow> \<forall>r \<in> set_option wanted. fixed_subscription_roles c \<or> has_binding models r)"

definition gated_candidate :: "string \<Rightarrow> u64 \<Rightarrow> component_card \<times> bool \<Rightarrow> card" where
  "gated_candidate prompt completion cb =
     (case cb of (c, blocked) \<Rightarrow>
        let card = candidate c prompt completion
        in if blocked then card\<lparr>admission_status := Blocked\<rparr> else card)"

definition gated_candidates ::
    "component_card list \<Rightarrow> bool list \<Rightarrow> role option \<Rightarrow> string \<Rightarrow> u64 \<Rightarrow> card list" where
  "gated_candidates cards blocked wanted prompt completion =
     map (gated_candidate prompt completion) (filter (\<lambda>(c, _). role_admits wanted c) (zip cards blocked))"

definition selection_request :: "parsed_profile \<Rightarrow> bool \<Rightarrow> request_profile" where
  "selection_request profile content_tightened =
     \<lparr>task = (if content_tightened then (pp_task profile)\<lparr>tp_privacy := Some AnyPrivacy\<rparr> else pp_task profile),
      req_role = pp_role profile, tenant_id = pp_tenant profile,
      content_tightening = (if content_tightened then Some LocalOnly else None)\<rparr>"

section \<open>Selection\<close>

datatype dispatch_error = DispatchRejection rejection | DispatchInternal string

record selected =
  sel_decision :: decision
  sel_locality :: locality
  sel_card :: component_card
  sel_load_policy :: load_policy
  sel_estimate :: int

definition default_load_policy :: load_policy where
  "default_load_policy = \<lparr>lp_mode = OnDemand, lp_keepalive = IdleTtl 300, lp_admission = Coexist\<rparr>"

definition selected_of :: "decision \<times> card \<Rightarrow> selected" where
  "selected_of dc =
     (case dc of (decision, chosen) \<Rightarrow>
        \<lparr>sel_decision = decision, sel_locality = effective_served_locality chosen, sel_card = component chosen,
         sel_load_policy = (case c_load_policy (component chosen) of None \<Rightarrow> default_load_policy | Some lp \<Rightarrow> lp),
         sel_estimate = (case estimated_cost_minor chosen of None \<Rightarrow> 0 | Some v \<Rightarrow> v)\<rparr>)"

definition select_snapshot ::
    "component_card list \<Rightarrow> parsed_profile \<Rightarrow> string \<Rightarrow> string option \<Rightarrow> string set \<Rightarrow> bool list \<Rightarrow> u64 \<Rightarrow> bool
     \<Rightarrow> (dispatch_error + selected) option" where
  "select_snapshot cards profile prompt affinity ready blocked completion content_tightened =
     (if length cards \<noteq> length blocked then None
      else map_option (map_sum DispatchRejection selected_of)
        (decide_selected (selection_request profile content_tightened)
           (gated_candidates cards blocked (pp_role profile) prompt completion)
           \<lparr>ctx_min_ram_gb = None, ctx_budget = None\<rparr> affinity ready))"

definition select_with_affinity_and_ready ::
    "component_card list \<Rightarrow> parsed_profile \<Rightarrow> string \<Rightarrow> string option \<Rightarrow> string set
     \<Rightarrow> (dispatch_error + selected) option" where
  "select_with_affinity_and_ready cards profile prompt affinity ready =
     select_snapshot cards profile prompt affinity ready (replicate (length cards) False)
       RESERVED_COMPLETION_TOKENS False"

definition select_with_affinity ::
    "component_card list \<Rightarrow> parsed_profile \<Rightarrow> string \<Rightarrow> string option \<Rightarrow> (dispatch_error + selected) option" where
  "select_with_affinity cards profile prompt affinity = select_with_affinity_and_ready cards profile prompt affinity {}"

definition select :: "component_card list \<Rightarrow> parsed_profile \<Rightarrow> string \<Rightarrow> (dispatch_error + selected) option" where
  "select cards profile prompt = select_with_affinity cards profile prompt None"

text \<open>Two passes over one snapshot: only resident HTTP cards are unblocked for the second.\<close>

definition fallback_gates :: "component_card list \<Rightarrow> bool list \<Rightarrow> bool list" where
  "fallback_gates cards blocked =
     map (\<lambda>(card, blocked). blocked \<and> \<not> is_resident_http_service card) (zip cards blocked)"

definition select_with_gate_fallback ::
    "component_card list \<Rightarrow> parsed_profile \<Rightarrow> string \<Rightarrow> string option \<Rightarrow> string set \<Rightarrow> bool list \<Rightarrow> u64 \<Rightarrow> bool
     \<Rightarrow> (dispatch_error + selected) option" where
  "select_with_gate_fallback cards profile prompt affinity ready blocked completion content_tightened =
     (case select_snapshot cards profile prompt affinity ready blocked completion content_tightened of
        Some (Inl (DispatchRejection _)) \<Rightarrow>
          select_snapshot cards profile prompt affinity ready (fallback_gates cards blocked) completion
            content_tightened
      | result \<Rightarrow> result)"

section \<open>The model that executes\<close>

definition backend_model_id :: "parsed_profile \<Rightarrow> string option \<Rightarrow> component_card \<Rightarrow> dispatch_error + string" where
  "backend_model_id profile requested_model c =
     (case pp_role profile of
        None \<Rightarrow> Inr (case requested_model of None \<Rightarrow> p_id (c_provider c) | Some m \<Rightarrow> m)
      | Some role \<Rightarrow>
          ok_or (DispatchRejection (NoEligibleCandidate RoleCapability))
            (case role_models c of Inl _ \<Rightarrow> None | Inr models \<Rightarrow> map_of models (role_as_str role)))"

section \<open>Lemmas\<close>

lemma candidate_component [simp]: "component (candidate c prompt completion) = c"
  by (simp add: candidate_def Let_def)

lemma gated_candidate_simps [simp]:
  "component (gated_candidate prompt completion (c, b)) = c"
  "roles (gated_candidate prompt completion (c, b)) = roles (candidate c prompt completion)"
  "estimated_cost_minor (gated_candidate prompt completion (c, b)) = estimated_cost_minor (candidate c prompt completion)"
  "is_experiment (gated_candidate prompt completion (c, b)) = False"
  "min_ram_gb (gated_candidate prompt completion (c, b)) = f64_zero"
  "admission_status (gated_candidate prompt completion (c, b)) = (if b then Blocked else Ready)"
  by (simp_all add: gated_candidate_def candidate_def Let_def)

lemma zero_not_nan: "\<not> f64_is_nan f64_zero"
  by (simp add: f64_is_nan_def f64_zero_def f64_magnitude_def)

text \<open>Nothing but the role's capabilities can keep an admitted card out: it is bound to the role.\<close>

lemma gated_eligible:
  assumes "x \<in> set (gated_candidates cards blocked (Some r) prompt completion)" "is_catalog_role r"
  shows "is_eligible_for_role x r None"
proof -
  from assms(1) obtain c b where x: "x = gated_candidate prompt completion (c, b)" and a: "role_admits (Some r) c"
    by (auto simp: gated_candidates_def)
  from a obtain models where m: "role_models c = Inr models" and k: "fixed_subscription_roles c \<or> has_binding models r"
    by (auto simp: role_admits_def split: sum.splits)
  have "r \<in> set ROLES" by (cases r) (simp_all add: ROLES_def)
  with m k assms(2) have "List.member (roles (candidate c prompt completion)) r"
    by (simp add: candidate_def Let_def)
  then show ?thesis
    using assms(2) zero_not_nan
    by (simp add: x is_eligible_for_role_def is_role_metadata_eligible_def is_catalog_metadata_eligible_def)
qed

lemma role_stage_undegraded:
  assumes "role_stage req ctx cs = Inr (ms, rs, deg)" and "ctx_min_ram_gb ctx = None"
    and "\<And>r x. req_role req = Some r \<Longrightarrow> is_catalog_role r \<Longrightarrow> x \<in> set cs \<Longrightarrow> is_eligible_for_role x r None"
  shows "deg = None"
proof (rule ccontr)
  assume "deg \<noteq> None"
  with assms(1) obtain r where r: "req_role req = Some r" "is_catalog_role r"
    and none: "filter (\<lambda>c. is_eligible_for_role c r (ctx_min_ram_gb ctx) \<and> has_capabilities c (effective_capabilities req)) cs = []"
    and some: "filter (is_capability_candidate ctx (effective_capabilities req)) cs \<noteq> []"
    by (auto simp: role_stage_def Let_def split: if_splits option.splits)
  from some obtain x where "x \<in> set cs" "has_capabilities x (effective_capabilities req)"
    by (auto simp: filter_empty_conv is_capability_candidate_def)
  with none assms(2) assms(3) [OF r] show False by (auto simp: filter_empty_conv)
qed

lemma select_snapshotE:
  assumes "select_snapshot cards profile prompt affinity ready blocked completion tightened = Some (Inr s)"
  obtains d c b where
    "decide_selected (selection_request profile tightened)
       (gated_candidates cards blocked (pp_role profile) prompt completion)
       \<lparr>ctx_min_ram_gb = None, ctx_budget = None\<rparr> affinity ready = Some (Inr (d, gated_candidate prompt completion (c, b)))"
    "s = selected_of (d, gated_candidate prompt completion (c, b))" "(c, b) \<in> set (zip cards blocked)"
    "role_admits (pp_role profile) c" "\<not> b"
proof -
  let ?cands = "gated_candidates cards blocked (pp_role profile) prompt completion"
  let ?ctx = "\<lparr>ctx_min_ram_gb = None, ctx_budget = None\<rparr>"
  from assms obtain d x where
    dec: "decide_selected (selection_request profile tightened) ?cands ?ctx affinity ready = Some (Inr (d, x))"
    and s: "s = selected_of (d, x)"
    by (auto simp: select_snapshot_def split: if_splits) (metis (no_types, lifting) map_sum.simps obj_sumE old.prod.exhaust sum.distinct(1) sum.inject(2))
  from chosen_candidate [OF dec] have x: "x \<in> set ?cands" "admission_status x \<noteq> Blocked"
    by (simp_all add: candidate_ok_def)
  from x(1) obtain c b where "x = gated_candidate prompt completion (c, b)" "(c, b) \<in> set (zip cards blocked)"
    "role_admits (pp_role profile) c"
    by (auto simp: gated_candidates_def)
  with x(2) dec s that show ?thesis by (auto split: if_splits)
qed

lemma select_snapshot_total: "length cards = length blocked \<Longrightarrow>
    select_snapshot cards profile prompt affinity ready blocked completion tightened \<noteq> None"
  by (simp add: select_snapshot_def decision_exists)

lemma fallback_gates_length: "length cards = length blocked \<Longrightarrow> length cards = length (fallback_gates cards blocked)"
  by (simp add: fallback_gates_def)

lemma fallback_gates_zip:
  "(c, b) \<in> set (zip cards (fallback_gates cards blocked)) \<Longrightarrow>
     \<exists>b'. (c, b') \<in> set (zip cards blocked) \<and> b = (b' \<and> \<not> is_resident_http_service c)"
  unfolding fallback_gates_def
proof (induction cards arbitrary: blocked)
  case (Cons x xs)
  then show ?case by (cases blocked) auto
qed simp

text \<open>A selection comes from one of the two passes.\<close>

lemma select_with_gate_fallbackE:
  assumes "select_with_gate_fallback cards profile prompt affinity ready blocked completion tightened = Some (Inr s)"
  obtains gates where "gates = blocked \<or> gates = fallback_gates cards blocked"
    "select_snapshot cards profile prompt affinity ready gates completion tightened = Some (Inr s)"
proof (cases "select_snapshot cards profile prompt affinity ready blocked completion tightened")
  case (Some r)
  with assms that show ?thesis
    by (cases r) (auto simp: select_with_gate_fallback_def split: dispatch_error.splits)
qed (use assms in \<open>simp add: select_with_gate_fallback_def\<close>)

lemma selection_undegraded:
  assumes "decide_selected (selection_request profile tightened)
     (gated_candidates cards blocked (pp_role profile) prompt completion)
     \<lparr>ctx_min_ram_gb = None, ctx_budget = None\<rparr> affinity ready = Some (Inr (d, x))"
  shows "degradations d = []"
proof -
  let ?req = "selection_request profile tightened" and ?ctx = "\<lparr>ctx_min_ram_gb = None, ctx_budget = None\<rparr>"
  let ?cands = "gated_candidates cards blocked (pp_role profile) prompt completion"
  from assms obtain es rs deg ds bs bdeg where f: "filter_stages ?req ?ctx ?cands = Inr (es, rs, deg)"
    and b: "budget_stage ?req ?ctx es affinity ready = Some (Inr (ds, bs, bdeg))"
    and d: "degradations d = option_to_list deg @ option_to_list bdeg"
    by (auto elim: decide_selectedE)
  from f obtain cs r1 ms r2 where p: "privacy_stage ?req ?cands = Inr (cs, r1)"
    and r: "role_stage ?req ?ctx cs = Inr (ms, r2, deg)" by (rule filter_stagesE)
  have "deg = None"
  proof (rule role_stage_undegraded [OF r])
    fix w x assume "req_role ?req = Some w" "is_catalog_role w" "x \<in> set cs"
    with privacy_stage_ok [OF p] show "is_eligible_for_role x w None"
      by (auto simp: selection_request_def intro: gated_eligible)
  qed simp
  moreover have "bdeg = None" using b by (simp add: budget_stage_def)
  ultimately show ?thesis using d by (simp add: option_to_list_def)
qed

section \<open>Properties\<close>

text \<open>
  C9. A selection is sound: the card is one of those offered; its circuit is not open, unless it is a resident
  HTTP card, which the second pass offers again; the decision names it; it is bound to a model for the requested
  role, unless it is the subscription card, whose roles are fixed; its price is known, not negative and the
  estimate carried; and nothing was degraded on the way.
\<close>

theorem selection_sound:
  assumes "select_with_gate_fallback cards profile prompt affinity ready blocked completion tightened = Some (Inr s)"
  shows "(\<exists>b. (sel_card s, b) \<in> set (zip cards blocked) \<and> (b \<longrightarrow> is_resident_http_service (sel_card s)))
    \<and> chosen_id (sel_decision s) = p_id (c_provider (sel_card s)) \<and> \<not> is_degraded (sel_decision s)
    \<and> (\<forall>role requested. pp_role profile = Some role \<and> \<not> fixed_subscription_roles (sel_card s)
         \<longrightarrow> is_ok (backend_model_id profile requested (sel_card s)))
    \<and> estimated_cost_minor (candidate (sel_card s) prompt completion) = Some (sel_estimate s) \<and> 0 \<le> sel_estimate s"
  using assms
proof (rule select_with_gate_fallbackE)
  fix gates
  assume g: "gates = blocked \<or> gates = fallback_gates cards blocked"
    and "select_snapshot cards profile prompt affinity ready gates completion tightened = Some (Inr s)"
  then obtain d c b where
    dec: "decide_selected (selection_request profile tightened)
       (gated_candidates cards gates (pp_role profile) prompt completion)
       \<lparr>ctx_min_ram_gb = None, ctx_budget = None\<rparr> affinity ready = Some (Inr (d, gated_candidate prompt completion (c, b)))"
    and s: "s = selected_of (d, gated_candidate prompt completion (c, b))" and cb: "(c, b) \<in> set (zip cards gates)"
    and ra: "role_admits (pp_role profile) c" and nb: "\<not> b"
    by (elim select_snapshotE)
  have card: "sel_card s = c" by (simp add: s selected_of_def)
  have "\<exists>b. (c, b) \<in> set (zip cards blocked) \<and> (b \<longrightarrow> is_resident_http_service c)"
    using g cb nb by (auto dest: fallback_gates_zip)
  moreover from chosen_candidate [OF dec] have "chosen_id d = p_id (c_provider c)" "price_known (gated_candidate prompt completion (c, b))"
    by (simp_all add: card_id_def candidate_ok_def)
  moreover from this(2) have "estimated_cost_minor (candidate c prompt completion) = Some (sel_estimate s) \<and> 0 \<le> sel_estimate s"
    by (auto simp: s selected_of_def price_known_def)
  moreover have "is_ok (backend_model_id profile requested c)"
    if "pp_role profile = Some role" "\<not> fixed_subscription_roles c" for role requested
    using ra that by (auto simp: role_admits_def backend_model_id_def has_binding_def ok_or_def split: sum.splits)
  ultimately show ?thesis
    using selection_undegraded [OF dec] unfolding card by (simp add: s selected_of_def is_degraded_def)
qed

lemma stays_local:
  assumes "select_with_gate_fallback cards profile prompt affinity ready blocked completion tightened = Some (Inr s)"
    and "tp_privacy (pp_task profile) \<noteq> Some AnyPrivacy \<or> tightened"
  shows "sel_locality s = Loopback \<and> c_form (sel_card s) \<noteq> SpawnCli
    \<and> p_id (c_provider (sel_card s)) \<noteq> SUBSCRIPTION_PROVIDER_ID \<and> c_privacy_class (sel_card s) = LocalOnly
    \<and> set (c_allowed_egress (sel_card s)) \<subseteq> {NoEgress, LoopbackEgress}"
  using assms(1)
proof (rule select_with_gate_fallbackE)
  fix gates
  assume "select_snapshot cards profile prompt affinity ready gates completion tightened = Some (Inr s)"
  then obtain d c b where
    dec: "decide_selected (selection_request profile tightened)
       (gated_candidates cards gates (pp_role profile) prompt completion)
       \<lparr>ctx_min_ram_gb = None, ctx_budget = None\<rparr> affinity ready = Some (Inr (d, gated_candidate prompt completion (c, b)))"
    and s: "s = selected_of (d, gated_candidate prompt completion (c, b))"
    by (elim select_snapshotE)
  have "req_effective_privacy (selection_request profile tightened) = LocalOnly"
    using assms(2) by (cases "tp_privacy (pp_task profile)"; cases "the (tp_privacy (pp_task profile))")
      (auto simp: req_effective_privacy_def privacy_floor_def selection_request_def)
  with chosen_candidate [OF dec] have "is_local_capable (gated_candidate prompt completion (c, b))"
    by (simp add: candidate_ok_def)
  then show ?thesis
    by (auto simp: s selected_of_def is_local_capable_def effective_served_locality_def card_id_def list_all_iff
        is_subscription_provider_id_def split: if_splits)
qed

text \<open>
  A request that is \<open>local_only\<close>, or whose content was tightened to it, is only served by a
  trusted loopback card, whatever the role, the bindings, the breakers and the session say.
\<close>

theorem selection_stays_local:
  assumes "select_with_gate_fallback cards profile prompt affinity ready blocked completion tightened = Some (Inr s)"
    and "tp_privacy (pp_task profile) \<noteq> Some AnyPrivacy \<or> tightened"
  shows "sel_locality s = Loopback \<and> c_form (sel_card s) \<noteq> SpawnCli
    \<and> p_id (c_provider (sel_card s)) \<noteq> SUBSCRIPTION_PROVIDER_ID \<and> c_privacy_class (sel_card s) = LocalOnly
    \<and> set (c_allowed_egress (sel_card s)) \<subseteq> {NoEgress, LoopbackEgress}"
  using assms by (rule stays_local)

lemma gate_fallback_total:
  assumes "length cards = length blocked"
  shows "select_with_gate_fallback cards profile prompt affinity ready blocked completion tightened \<noteq> None"
  using select_snapshot_total [OF assms] select_snapshot_total [OF fallback_gates_length [OF assms]]
  by (auto simp: select_with_gate_fallback_def split: option.splits sum.splits dispatch_error.splits)

text \<open>Selecting never panics on a snapshot that matches the cards, in either pass.\<close>

theorem selection_total:
  assumes "length cards = length blocked"
  shows "select_with_gate_fallback cards profile prompt affinity ready blocked completion tightened \<noteq> None"
  using assms by (rule gate_fallback_total)

lemma policy_restricts:
  assumes "tp_privacy profile \<noteq> Some AnyPrivacy"
  shows "(\<forall>c \<in> set (fst (policy_cards cards policy profile)). c \<in> set cards \<and> p_tier (c_provider c) \<noteq> RemoteTier)
    \<and> rd_fail_closed (snd (policy_cards cards policy profile))"
  using assms
  by (cases "tp_privacy profile"; cases "the (tp_privacy profile)";
      auto simp: policy_cards_def route_decide_def Let_def split: prod.splits option.splits)

text \<open>
  The routing policy restricts and never widens: a \<open>local_only\<close> request keeps no card of the
  remote tier, whatever the matching rule says, and it fails closed.
\<close>

theorem policy_never_relaxes_privacy:
  assumes "tp_privacy profile \<noteq> Some AnyPrivacy"
  shows "(\<forall>c \<in> set (fst (policy_cards cards policy profile)). c \<in> set cards \<and> p_tier (c_provider c) \<noteq> RemoteTier)
    \<and> rd_fail_closed (snd (policy_cards cards policy profile))"
  using assms by (rule policy_restricts)

section \<open>A concrete selection\<close>

definition local_profile :: parsed_profile where
  "local_profile = \<lparr>pp_task = \<lparr>tp_privacy = Some LocalOnly, tp_intent = Some ''chat'', tp_complexity = Some Simple,
     tp_capabilities = Some [Chat], tp_fallback = None\<rparr>, pp_role = None, pp_tenant = None,
     pp_intent_source = DefaultIntent\<rparr>"

definition sample_component :: component_card where
  "sample_component = component (sample_card ''b'' [])"

definition sample_selected :: selected where
  "sample_selected = \<lparr>sel_decision = \<lparr>chosen_id = ''b'',
       reason_codes = [PrivacyLoopbackOnly, BudgetNoTenantContext, AdmissionReady], degradations = []\<rparr>,
     sel_locality = Loopback, sel_card = sample_component,
     sel_load_policy = \<lparr>lp_mode = Resident, lp_keepalive = Pinned True, lp_admission = Coexist\<rparr>, sel_estimate = 0\<rparr>"

lemma free_price: "estimate_cost_minor_with_completion \<lparr>input_per_m = f64_zero, output_per_m = f64_zero\<rparr> prompt k = Some 0"
  by (simp add: estimate_cost_minor_with_completion_def priced_minor_def f64_eq_def zero_not_nan)

lemma sample_selection:
  "select_with_gate_fallback [sample_component] local_profile [] None {} [False] 1024 False = Some (Inr sample_selected)"
proof -
  have "gated_candidates [sample_component] [False] None [] 1024 = [(sample_card ''b'' ROLES)\<lparr>roles := []\<rparr>]"
    by (simp add: gated_candidates_def gated_candidate_def candidate_def role_admits_def role_models_def extension_def
        fixed_subscription_roles_def classify_subscription_card_def has_binding_def is_resident_http_service_def
        sample_component_def sample_card_def SUBSCRIPTION_PROVIDER_ID_def free_price Let_def)
  then show ?thesis
    by (simp add: select_with_gate_fallback_def select_snapshot_def local_profile_def selection_request_def
        pipeline_eval selected_of_def sample_selected_def sample_component_def sample_card_def)
qed

theorem selection_sound_witness:
  "\<not> is_degraded (sel_decision sample_selected) \<and> 0 \<le> sel_estimate sample_selected"
  using selection_sound [OF sample_selection] by simp

theorem selection_stays_local_witness:
  "sel_locality sample_selected = Loopback"
  using selection_stays_local [OF sample_selection] by (simp add: local_profile_def)

theorem selection_total_witness:
  "select_with_gate_fallback [sample_component] local_profile [] None {} [True] 1024 True \<noteq> None"
  by (rule selection_total) simp

theorem policy_never_relaxes_privacy_witness:
  "rd_fail_closed (snd (policy_cards [sample_component]
     \<lparr>rp_version = 1, rp_rules = [], rp_default = \<lparr>act_tiers = Some [RemoteTier], act_fail_closed = Some False,
       act_capability = None, act_load = None\<rparr>\<rparr> (pp_task local_profile)))"
  using policy_never_relaxes_privacy [of "pp_task local_profile"] by (simp add: local_profile_def)

end
