(* ===== verification/Body_Inspection.thy ===== *)
theory Body_Inspection
  imports Inspect Event_Log
begin

text \<open>
  Inspecting a whole request body (\<^verbatim>\<open>crates/idoris-router/src/inspect.rs\<close>): everything textual in it is
  joined and classified, what cannot be read pins the request to the machine, and the fact that is logged
  about it. How \<^verbatim>\<open>serde_json\<close> prints a number and the platform's logarithm are parameters.
\<close>

section \<open>What cannot be read\<close>

definition READABLE_PART_TYPES :: "string list" where
  "READABLE_PART_TYPES = [''text'', ''input_text'', ''output_text'', ''tool_use'', ''tool_result'', ''function'',
     ''thinking'', ''refusal'', ''redacted_thinking'', ''server_tool_use'', ''mcp_tool_use'', ''mcp_tool_result'',
     ''web_search_tool_result'', ''web_search_result'']"

definition TOOL_CALL_PART_TYPES :: "string list" where
  "TOOL_CALL_PART_TYPES = [''tool_use'', ''server_tool_use'', ''mcp_tool_use'']"

definition SCHEMA_KEYS :: "string list" where
  "SCHEMA_KEYS = [''input_schema'', ''parameters'', ''json_schema'']"

definition OPAQUE_MEDIA_KEYS :: "string list" where
  "OPAQUE_MEDIA_KEYS = [''image_url'', ''audio_url'', ''video_url'', ''input_audio'', ''inline_data'', ''file'']"

definition MEDIA_TYPE_NAMES :: "string list" where
  "MEDIA_TYPE_NAMES = [''image_url'', ''input_image'', ''image'', ''image_file'', ''input_audio'', ''audio'',
     ''audio_url'', ''video'', ''video_url'', ''input_video'', ''file'', ''input_file'', ''document'',
     ''document_url'', ''inline_data'']"

text \<open>\<open>str::eq_ignore_ascii_case\<close> compares bytes.\<close>

definition same_name :: "string \<Rightarrow> string \<Rightarrow> bool" where
  "same_name a b \<longleftrightarrow> eq_ignore_ascii_case (ascii a) (ascii b)"

definition among :: "string list \<Rightarrow> string \<Rightarrow> bool" where
  "among names s \<longleftrightarrow> list_ex (same_name s) names"

definition is_data_url :: "string \<Rightarrow> bool" where
  "is_data_url text \<longleftrightarrow>
     5 \<le> length text \<and> same_name (take 5 text) ''data:''
     \<and> list_ex (\<lambda>window. same_name window '';base64,'') (windows 8 text)"

fun is_integer :: "json \<Rightarrow> bool" where
  "is_integer (JNum (PosInt _)) = True"
| "is_integer (JNum (NegInt _)) = True"
| "is_integer _ = False"

fun is_integer_token_array :: "json \<Rightarrow> bool" where
  "is_integer_token_array (JArr items) =
     (items \<noteq> [] \<and> list_all is_integer items \<or> (\<exists>item \<in> set items. is_integer_token_array item))"
| "is_integer_token_array (JObj m) = (\<exists>kv \<in> set m. is_integer_token_array (snd kv))"
| "is_integer_token_array _ = False"

definition type_of :: "json_map \<Rightarrow> string option" where
  "type_of m = Option.bind (map_of m ''type'') as_str"

definition opaque_object :: "json_map \<Rightarrow> bool \<Rightarrow> bool \<Rightarrow> bool" where
  "opaque_object m direct suppress_part_check \<longleftrightarrow>
     list_ex (\<lambda>(key, _). among OPAQUE_MEDIA_KEYS key) m
     \<or> (\<exists>kind \<in> set_option (type_of m). among MEDIA_TYPE_NAMES kind)
     \<or> direct \<and> \<not> suppress_part_check \<and> \<not> (\<exists>kind \<in> set_option (type_of m). among READABLE_PART_TYPES kind)"

definition tool_call_part :: "json_map \<Rightarrow> bool" where
  "tool_call_part m \<longleftrightarrow> (\<exists>kind \<in> set_option (type_of m). among TOOL_CALL_PART_TYPES kind)"

section \<open>Collecting the text\<close>

definition line :: "ustr \<Rightarrow> ustr" where
  "line text = text @ [0]"

text \<open>What \<open>collect\<close> appends to \<open>out\<close>, and whether it sets \<open>opaque\<close>.\<close>

fun collect_value :: "(jnum \<Rightarrow> ustr) \<Rightarrow> json \<Rightarrow> bool \<Rightarrow> bool \<Rightarrow> ustr \<times> bool"
  and collect_items :: "(jnum \<Rightarrow> ustr) \<Rightarrow> json list \<Rightarrow> bool \<Rightarrow> bool \<Rightarrow> ustr \<times> bool"
  and collect_members :: "(jnum \<Rightarrow> ustr) \<Rightarrow> json_map \<Rightarrow> bool \<Rightarrow> bool \<Rightarrow> ustr \<times> bool" where
  "collect_value nt (JStr text) direct suppress = (line (chars text), is_data_url text)"
| "collect_value nt (JNum n) direct suppress = (line (nt n), False)"
| "collect_value nt (JArr items) direct suppress = collect_items nt items direct suppress"
| "collect_value nt (JObj m) direct suppress =
     (let (out, opaque) = collect_members nt m (tool_call_part m) suppress
      in (out, opaque_object m direct suppress \<or> opaque))"
| "collect_value nt (JBool b) direct suppress = ([], False)"
| "collect_value nt JNull direct suppress = ([], False)"
| "collect_items nt [] direct suppress = ([], False)"
| "collect_items nt (item # items) direct suppress =
     (let (out, opaque) = collect_value nt item direct suppress;
          (out', opaque') = collect_items nt items direct suppress
      in (out @ out', opaque \<or> opaque'))"
| "collect_members nt [] tool suppress_part_check = ([], False)"
| "collect_members nt ((key, item) # m) tool suppress_part_check =
     (let suppress = (suppress_part_check \<or> among SCHEMA_KEYS key \<or> tool \<and> same_name key ''input'');
          (out, opaque) = collect_value nt item (same_name key ''content'' \<and> \<not> suppress) suppress;
          (out', opaque') = collect_members nt m tool suppress_part_check
      in (line (chars key) @ out @ out', opaque \<or> opaque'))"

section \<open>The inspection\<close>

record inspection =
  i_response :: inspect_response
  i_effective :: privacy_class
  i_tightened :: bool
  i_killed :: bool
  i_failed :: bool
  i_uninspectable :: bool

definition body_text :: "(jnum \<Rightarrow> ustr) \<Rightarrow> json \<Rightarrow> ustr" where
  "body_text nt body = fst (collect_value nt body False False)"

definition body_opaque :: "(jnum \<Rightarrow> ustr) \<Rightarrow> json \<Rightarrow> bool" where
  "body_opaque nt body \<longleftrightarrow>
     (\<exists>v \<in> set_option (Option.bind (as_object body) (\<lambda>m. map_of m ''input'')). is_integer_token_array v)
     \<or> snd (collect_value nt body False False)"

definition body_ctx :: "privacy_class \<Rightarrow> bool \<Rightarrow> inspect_ctx" where
  "body_ctx p kill_switch =
     \<lparr>declared = p, remote_allowed = \<not> kill_switch, redact_consent = False, max_input_utf16 = DEFAULT_MAX_INPUT_UTF16\<rparr>"

definition inspect_body :: "(f64 \<Rightarrow> f64) \<Rightarrow> (jnum \<Rightarrow> ustr) \<Rightarrow> json \<Rightarrow> privacy_class \<Rightarrow> bool \<Rightarrow> inspection" where
  "inspect_body lg nt body p kill_switch =
     (let opaque = body_opaque nt body;
          response = inspect lg (body_text nt body) (body_ctx p kill_switch);
          tightening = (if opaque \<or> r_action response \<noteq> Allow then Some LocalOnly else None);
          effective = effective_privacy p tightening;
          tightened = (p = AnyPrivacy \<and> effective = LocalOnly)
      in \<lparr>i_response = response, i_effective = effective, i_tightened = tightened,
          i_killed = (tightened \<and> kill_switch), i_failed = False,
          i_uninspectable = (tightened \<and> opaque \<and> \<not> kill_switch \<and> r_findings response = [])\<rparr>)"

definition OFF_WORKER_BYTES :: nat where
  "OFF_WORKER_BYTES = 32 * 1024"

definition failed_inspection :: "privacy_class \<Rightarrow> inspection" where
  "failed_inspection p =
     \<lparr>i_response = \<lparr>r_sensitivity = S3, r_findings = [], r_action = Block\<rparr>, i_effective = LocalOnly,
      i_tightened = (p = AnyPrivacy), i_killed = False, i_failed = True, i_uninspectable = False\<rparr>"

text \<open>\<open>joined\<close>: the task on the blocking pool came back.\<close>

definition inspect_body_on_request_path ::
    "(f64 \<Rightarrow> f64) \<Rightarrow> (jnum \<Rightarrow> ustr) \<Rightarrow> bool \<Rightarrow> json \<Rightarrow> nat \<Rightarrow> privacy_class \<Rightarrow> bool \<Rightarrow> inspection" where
  "inspect_body_on_request_path lg nt joined body raw_len p kill_switch =
     (if raw_len < OFF_WORKER_BYTES then inspect_body lg nt body p kill_switch
      else if joined then inspect_body lg nt body p kill_switch
      else failed_inspection p)"

section \<open>What is logged\<close>

fun privacy_as_str :: "privacy_class \<Rightarrow> string" where
  "privacy_as_str LocalOnly = ''local_only''"
| "privacy_as_str AnyPrivacy = ''any''"

fun sensitivity_as_str :: "sensitivity \<Rightarrow> string" where
  "sensitivity_as_str S0 = ''S0''"
| "sensitivity_as_str S1 = ''S1''"
| "sensitivity_as_str S2 = ''S2''"
| "sensitivity_as_str S3 = ''S3''"

fun distinct_labels :: "finding_kind list \<Rightarrow> finding_kind list \<Rightarrow> finding_kind list" where
  "distinct_labels labels [] = labels"
| "distinct_labels labels (k # ks) = distinct_labels (if List.member labels k then labels else labels @ [k]) ks"

definition inspected_reason :: "inspection \<Rightarrow> string option" where
  "inspected_reason i =
     (if i_failed i then Some ''inspect_failed''
      else if i_killed i then Some ''remote_kill_switch''
      else if i_uninspectable i then Some ''uninspectable_content''
      else if i_tightened i then Some ''privacy_tightened_by_content''
      else None)"

text \<open>The map in key order.\<close>

definition inspected_metadata :: "inspection \<Rightarrow> json_map" where
  "inspected_metadata i =
     [(''labels'', JArr (map (\<lambda>k. JStr (kind_as_str k)) (distinct_labels [] (map f_kind (r_findings (i_response i)))))),
      (''privacy'', JStr (privacy_as_str (i_effective i)))]
     @ (case inspected_reason i of None \<Rightarrow> [] | Some reason \<Rightarrow> [(''reason'', JStr reason)])
     @ [(''sensitivity'', JStr (sensitivity_as_str (r_sensitivity (i_response i))))]"

record correlation_ids =
  cor_session :: "string option"
  cor_trace :: "string option"
  cor_parent :: "string option"

definition inspected_event :: "string \<Rightarrow> string \<Rightarrow> string \<Rightarrow> int \<Rightarrow> correlation_ids \<Rightarrow> inspection \<Rightarrow> new_event" where
  "inspected_event uuid tenant record_id now_ms correlation i =
     \<lparr>event_id = uuid, ev_tenant = tenant, ev_record = record_id, event_type = Inspected, ts_utc_ms = now_ms,
      request_id = None, session_id = cor_session correlation, trace_id = cor_trace correlation,
      parent_id = cor_parent correlation, origin_record_id = None, metadata = inspected_metadata i\<rparr>"

definition append_inspected ::
    "event_lib \<Rightarrow> string \<Rightarrow> int \<Rightarrow> string \<Rightarrow> string \<Rightarrow> correlation_ids \<Rightarrow> inspection \<Rightarrow> event_log
     \<Rightarrow> (event_log_error + nat) \<times> event_log" where
  "append_inspected lib uuid now_ms tenant record_id correlation i L =
     append_event lib (Some tenant) (inspected_event uuid tenant record_id now_ms correlation i) L"

section \<open>Every string is scanned\<close>

text \<open>The strings and keys of a body, at any depth.\<close>

fun texts_of :: "json \<Rightarrow> ustr list"
  and texts_of_items :: "json list \<Rightarrow> ustr list"
  and texts_of_members :: "json_map \<Rightarrow> ustr list" where
  "texts_of (JStr s) = [chars s]"
| "texts_of (JArr items) = texts_of_items items"
| "texts_of (JObj m) = texts_of_members m"
| "texts_of _ = []"
| "texts_of_items [] = []"
| "texts_of_items (item # items) = texts_of item @ texts_of_items items"
| "texts_of_members [] = []"
| "texts_of_members ((key, item) # m) = chars key # texts_of item @ texts_of_members m"

text \<open>A text that stands between boundaries.\<close>

definition closed_text :: "ustr \<Rightarrow> bool" where
  "closed_text out \<longleftrightarrow> out = [] \<or> last out = 0"

definition has_line :: "ustr \<Rightarrow> ustr \<Rightarrow> bool" where
  "has_line out s \<longleftrightarrow> (\<exists>p q. out = p @ s @ 0 # q \<and> closed_text p)"

lemma closed_text_append: "closed_text a \<Longrightarrow> closed_text b \<Longrightarrow> closed_text (a @ b)"
  by (cases b) (auto simp: closed_text_def)

lemma closed_text_line [simp]: "closed_text (line s)" "closed_text []"
  by (simp_all add: closed_text_def line_def)

lemma has_line_left: "has_line a s \<Longrightarrow> has_line (a @ b) s"
  by (fastforce simp: has_line_def)

lemma has_line_right: "closed_text a \<Longrightarrow> has_line b s \<Longrightarrow> has_line (a @ b) s"
  unfolding has_line_def using closed_text_append by (metis append.assoc)

lemma has_line_self [simp]: "has_line (line s) s"
  by (auto simp: has_line_def line_def closed_text_def intro: exI [of _ "[]"])

lemma collected_closed:
  "closed_text (fst (collect_value nt v direct suppress))"
  "closed_text (fst (collect_items nt items direct suppress))"
  "closed_text (fst (collect_members nt m tool suppress))"
  by (induction nt v direct suppress and nt items direct suppress and nt m tool suppress
      rule: collect_value_collect_items_collect_members.induct)
    (auto simp: Let_def closed_text_append split: prod.splits)

lemma collected_lines:
  "s \<in> set (texts_of v) \<Longrightarrow> has_line (fst (collect_value nt v direct suppress)) s"
  "s \<in> set (texts_of_items items) \<Longrightarrow> has_line (fst (collect_items nt items direct suppress)) s"
  "s \<in> set (texts_of_members m) \<Longrightarrow> has_line (fst (collect_members nt m tool suppress)) s"
proof (induction nt v direct suppress and nt items direct suppress and nt m tool suppress
      rule: collect_value_collect_items_collect_members.induct)
  case (8 nt item items direct suppress)
  then show ?case
    using collected_closed(1) [of nt item direct suppress]
    by (auto simp: Let_def split: prod.splits intro: has_line_left has_line_right)
next
  case (10 nt key item m tool suppress_part_check)
  let ?s = "suppress_part_check \<or> among SCHEMA_KEYS key \<or> tool \<and> same_name key ''input''"
  let ?v = "collect_value nt item (same_name key ''content'' \<and> \<not> ?s) ?s"
    and ?m = "collect_members nt m tool suppress_part_check"
  have out: "fst (collect_members nt ((key, item) # m) tool suppress_part_check) = line (chars key) @ fst ?v @ fst ?m"
    by (simp add: Let_def split: prod.splits)
  have cl: "closed_text (line (chars key))" "closed_text (fst ?v)" by (simp_all add: collected_closed)
  from 10(3) consider "s = chars key" | "s \<in> set (texts_of item)" | "s \<in> set (texts_of_members m)" by auto
  then show ?case
  proof cases
    case 1
    then show ?thesis unfolding out by (simp add: has_line_left)
  next
    case 2
    with 10(1) [OF refl] have "has_line (fst ?v) s" by blast
    then show ?thesis unfolding out by (intro has_line_right [OF cl(1)] has_line_left)
  next
    case 3
    have "has_line (fst ?m) s" using 10(2) 3 by (metis prod.collapse)
    then show ?thesis unfolding out by (intro has_line_right [OF cl(1)] has_line_right [OF cl(2)])
  qed
qed (auto simp: Let_def split: prod.splits)

lemma body_has_line: "s \<in> set (texts_of body) \<Longrightarrow> has_line (body_text nt body) s"
  unfolding body_text_def by (rule collected_lines(1))

section \<open>What inspection lets through\<close>

lemma body_any:
  "i_effective (inspect_body lg nt body p kill_switch) = AnyPrivacy \<longleftrightarrow>
     p = AnyPrivacy \<and> \<not> body_opaque nt body \<and> r_action (inspect lg (body_text nt body) (body_ctx p kill_switch)) = Allow"
  by (cases p) (auto simp: inspect_body_def Let_def)

lemma body_blocked_local:
  "r_action (inspect lg (body_text nt body) (body_ctx p kill_switch)) \<noteq> Allow
     \<Longrightarrow> i_effective (inspect_body lg nt body p kill_switch) = LocalOnly"
  using body_any [of lg nt body p kill_switch] privacy_class.exhaust by metis

lemma request_path_any:
  "i_effective (inspect_body_on_request_path lg nt joined body raw_len p kill_switch) = AnyPrivacy
     \<Longrightarrow> i_effective (inspect_body lg nt body p kill_switch) = AnyPrivacy"
  by (auto simp: inspect_body_on_request_path_def failed_inspection_def split: if_splits)

lemma request_path_local:
  "i_effective (inspect_body lg nt body p kill_switch) = LocalOnly
     \<Longrightarrow> i_effective (inspect_body_on_request_path lg nt joined body raw_len p kill_switch) = LocalOnly"
  by (auto simp: inspect_body_on_request_path_def failed_inspection_def)

section \<open>A number anywhere in the body\<close>

text \<open>A text with a run of digits that stands alone and is classified as a personal number.\<close>

definition personal_number :: "ustr \<Rightarrow> bool" where
  "personal_number s \<longleftrightarrow>
     (\<exists>pre d post. utf16 s = pre @ d @ post \<and> isolated pre post \<and> d \<noteq> [] \<and> list_all is_ascii_digit d
        \<and> classify \<lparr>c_digits = map (\<lambda>u. u - 48) d, c_start = 0, c_end = 0, c_x_suffix = unit_at post 0 is_check_x\<rparr> \<noteq> [])"

lemma classify_anywhere:
  "classify \<lparr>c_digits = ds, c_start = a, c_end = b, c_x_suffix = x\<rparr> = []
     \<longleftrightarrow> classify \<lparr>c_digits = ds, c_start = 0, c_end = 0, c_x_suffix = x\<rparr> = []"
  by (simp add: classify_def Let_def)

lemma utf16_last_zero: "closed_text p \<Longrightarrow> utf16 p = [] \<or> last (utf16 p) = 0"
  by (cases p rule: rev_cases) (auto simp: closed_text_def utf16_char_def)

lemma line_number_not_allowed:
  assumes "has_line input s" "personal_number s"
  shows "r_action (inspect lg input ctx) \<noteq> Allow"
proof (cases "exceeds_limit input (max_input_utf16 ctx)")
  case True
  then show ?thesis by (simp add: inspect_def)
next
  case False
  from assms(1) obtain p q where io: "input = p @ s @ 0 # q" and p: "closed_text p" by (auto simp: has_line_def)
  from assms(2) obtain pre d post where s: "utf16 s = pre @ d @ post" and iso: "isolated pre post"
    and d: "d \<noteq> []" "list_all is_ascii_digit d"
    and c: "classify \<lparr>c_digits = map (\<lambda>u. u - 48) d, c_start = 0, c_end = 0, c_x_suffix = unit_at post 0 is_check_x\<rparr> \<noteq> []"
    by (auto simp: personal_number_def)
  let ?pre = "utf16 p @ pre" and ?post = "post @ 0 # utf16 q"
  have u: "utf16 input = ?pre @ d @ ?post" by (simp add: io s utf16_char_def)
  have boundary: "\<not> is_ascii_digit 0" "\<not> is_separator 0" "\<not> is_check_x 0"
    by (simp_all add: is_ascii_digit_def is_separator_def is_check_x_def)
  have iso': "isolated ?pre ?post"
    using iso utf16_last_zero [OF p] boundary by (cases "pre = []"; cases "post = []") (auto simp: isolated_def)
  have x: "unit_at (utf16 input) (length ?pre + length d) is_check_x = unit_at post 0 is_check_x"
    using boundary(3) by (cases post) (simp_all add: u unit_at_def nth_append)
  define c' where "c' = \<lparr>c_digits = map (\<lambda>u. u - 48) d, c_start = length ?pre, c_end = length ?pre + length d,
      c_x_suffix = unit_at (utf16 input) (length ?pre + length d) is_check_x\<rparr>"
  have "classify c' \<noteq> []" using c unfolding c'_def x by (subst classify_anywhere)
  then obtain h where "h \<in> set (classify c')" by (meson last_in_set)
  then have "h \<in> set (scan_groups (utf16 input))" using isolated_classified [OF u iso' d] unfolding c'_def by blast
  then show ?thesis by (rule inspect_covered(2) [OF False views_cover_groups])
qed



text \<open>
  A body may leave the machine only when it was declared so, was read to the end with nothing in it that
  cannot be read, and the inspection allowed it; with the kill switch on nothing does.
\<close>

theorem body_leaves_only_inspected:
  "i_effective (inspect_body_on_request_path lg nt joined body raw_len p kill_switch) = AnyPrivacy \<longleftrightarrow>
     p = AnyPrivacy \<and> \<not> kill_switch \<and> (raw_len < OFF_WORKER_BYTES \<or> joined)
     \<and> \<not> body_opaque nt body \<and> \<not> exceeds_limit (body_text nt body) DEFAULT_MAX_INPUT_UTF16
     \<and> \<not> contains_base64_data_url (body_text nt body)
     \<and> scan_all_views (l0_scan lg) (utf16 (body_text nt body)) = []"
proof -
  have "r_action (inspect lg (body_text nt body) (body_ctx p kill_switch)) = Allow \<longleftrightarrow>
     p = AnyPrivacy \<and> \<not> kill_switch \<and> \<not> exceeds_limit (body_text nt body) DEFAULT_MAX_INPUT_UTF16
     \<and> \<not> contains_base64_data_url (body_text nt body)
     \<and> scan_all_views (l0_scan lg) (utf16 (body_text nt body)) = []"
    by (cases p) (auto simp: inspect_def decide_action_def body_ctx_def Let_def)
  then show ?thesis
    using body_any [of lg nt body p kill_switch]
    by (auto simp: inspect_body_on_request_path_def failed_inspection_def)
qed

section \<open>The fact holds no content\<close>

lemma distinct_labels_distinct: "distinct acc \<Longrightarrow> distinct (distinct_labels acc ks)"
  by (induction ks arbitrary: acc) simp_all

lemma kinds_at_most_32: "distinct (ks :: finding_kind list) \<Longrightarrow> length ks \<le> 32"
proof -
  let ?all = "[CnResidentId, CnMobile, BankCard, CnUnifiedSocialCreditCode, CnLicensePlate, CnPassport, HkIdentityCard,
    HkMacauTravelPermit, EmailAddress, ApiKey, PrivateKey, HighEntropySecret, CredentialPath, InputLimitExceeded]"
  assume "distinct ks"
  then have "length ks = card (set ks)" by (simp add: distinct_card)
  also have "\<dots> \<le> card (set ?all)"
  proof (rule card_mono)
    show "set ks \<subseteq> set ?all"
    proof
      fix k show "k \<in> set ?all" by (cases k) simp_all
    qed
  qed simp
  also have "\<dots> \<le> length ?all" by (rule card_length)
  finally show ?thesis by simp
qed

lemma plain_valid_string:
  "list_all (\<lambda>c. 32 \<le> (of_char c :: nat) \<and> (of_char c :: nat) < 127) s \<Longrightarrow> length s \<le> 500 \<Longrightarrow> valid_string s"
proof -
  assume a: "list_all (\<lambda>c. 32 \<le> (of_char c :: nat) \<and> (of_char c :: nat) < 127) s" and l: "length s \<le> 500"
  have c: "chars s = map of_char s"
    unfolding chars_def by (rule chars_from_ascii) (use a in \<open>auto simp: list_all_iff\<close>)
  have "sum_list (map (\<lambda>c. if c < 0x10000 then 1 else 2) (chars s)) = sum_list (map (\<lambda>_. 1 :: nat) (chars s))"
    unfolding c using a by (intro arg_cong [of _ _ sum_list] map_cong) (auto simp: list_all_iff)
  also have "\<dots> = length s" unfolding c map_map by (induction s) simp_all
  finally have "utf16_len s = length s" by (simp add: utf16_len_def)
  moreover have "\<not> list_ex Json.is_control (chars s)" using a by (auto simp: c list_ex_iff list_all_iff Json.is_control_def)
  ultimately show ?thesis using l by (simp add: valid_string_def MAX_STRING_UTF16_UNITS_def)
qed

lemma label_valid [simp]: "valid_string (kind_as_str k)"
  by (cases k; rule plain_valid_string; simp)

lemma class_texts_valid [simp]: "valid_string (privacy_as_str p)" "valid_string (sensitivity_as_str t)"
  by (cases p; rule plain_valid_string; simp) (cases t; rule plain_valid_string; simp)

lemma reason_texts_valid [simp]: "inspected_reason i = Some reason \<Longrightarrow> valid_string reason"
  by (auto simp: inspected_reason_def split: if_splits intro!: plain_valid_string)

lemma keys_ok [simp]:
  "entry_ok ''labels'' v \<longleftrightarrow> array_of string_item_ok v" "entry_ok ''privacy'' v \<longleftrightarrow> scalar_ok v"
  "entry_ok ''reason'' v \<longleftrightarrow> scalar_ok v" "entry_ok ''sensitivity'' v \<longleftrightarrow> scalar_ok v"
  unfolding entry_ok_def key_in_def content_names_split
  by (simp_all add: content_names_def SCALAR_KEYS_def ARRAY_KEYS_def OBJECT_ARRAY_KEYS_def)

text \<open>
  The fact about an inspection is always one the event log accepts: only names of kinds and classes, whatever
  the body held, and never more labels than an array of the log may have.
\<close>

theorem inspected_fact_accepted: "validate_metadata (inspected_metadata i) = Inr ()"
proof -
  have "length (distinct_labels [] (map f_kind (r_findings (i_response i)))) \<le> 32"
    by (rule kinds_at_most_32 [OF distinct_labels_distinct]) simp
  then have "entry_ok ''labels''
      (JArr (map (\<lambda>k. JStr (kind_as_str k)) (distinct_labels [] (map f_kind (r_findings (i_response i))))))"
    by (simp add: array_of_def string_item_ok_def list_all_iff MAX_ARRAY_ITEMS_def)
  then show ?thesis
    by (simp add: validate_metadata_ok inspected_metadata_def scalar_ok_def split: option.split)
qed

end
