(* ===== verification/Request_Events.thy ===== *)
theory Request_Events
  imports Selection Body_Inspection
begin

text \<open>
  The facts a request leaves in the event log (\<^verbatim>\<open>crates/idoris-router/src/lib.rs\<close>, the
  \<open>append_*\<close> functions): what each says, and that it is appended under the request's record.
  The fresh identifier and the clock are arguments; a clock that cannot be read is \<open>None\<close>.
\<close>

section \<open>Texts\<close>

fun tier_as_str :: "tier \<Rightarrow> string" where
  "tier_as_str LocalTier = ''local''"
| "tier_as_str RemoteTier = ''remote''"
| "tier_as_str LoraTier = ''lora''"

fun locality_as_str :: "locality \<Rightarrow> string" where
  "locality_as_str Loopback = ''loopback''"
| "locality_as_str Lan = ''lan''"
| "locality_as_str Remote = ''remote''"

fun event_reason_code :: "reason_code \<Rightarrow> string" where
  "event_reason_code PrivacyLoopbackOnly = ''privacy_loopback_only''"
| "event_reason_code PrivacyTightenedByContent = ''privacy_tightened_by_content''"
| "event_reason_code (RoleMatched role) = ''role_matched:'' @ role_as_str role"
| "event_reason_code RoleFallbackCapabilityOnly = ''role_fallback_capability_only''"
| "event_reason_code PriceUnknownExcluded = ''price_unknown_excluded''"
| "event_reason_code BudgetWithinLimit = ''budget_within_limit''"
| "event_reason_code BudgetNoTenantContext = ''budget_no_tenant_context''"
| "event_reason_code BudgetFallbackToFreeCandidate = ''budget_fallback_to_free_candidate''"
| "event_reason_code AdmissionReady = ''admission_ready''"
| "event_reason_code AdmissionRequiresEviction = ''admission_requires_eviction''"

section \<open>Appending\<close>

record event_ctx =
  ec_tenant :: string
  ec_record :: string
  ec_correlation :: correlation_ids

definition request_event ::
    "event_ctx \<Rightarrow> event_type \<Rightarrow> string option \<Rightarrow> json_map \<Rightarrow> string \<Rightarrow> int \<Rightarrow> new_event" where
  "request_event ctx kind request meta uuid now_ms =
     \<lparr>event_id = uuid, ev_tenant = ec_tenant ctx, ev_record = ec_record ctx, event_type = kind, ts_utc_ms = now_ms,
      request_id = request, session_id = cor_session (ec_correlation ctx), trace_id = cor_trace (ec_correlation ctx),
      parent_id = cor_parent (ec_correlation ctx), origin_record_id = None, metadata = meta\<rparr>"

definition append_fact ::
    "event_lib \<Rightarrow> string \<times> int option \<Rightarrow> event_ctx \<Rightarrow> event_type \<Rightarrow> string option \<Rightarrow> json_map \<Rightarrow> event_log
     \<Rightarrow> bool \<times> event_log" where
  "append_fact lib mark ctx kind request meta L =
     (case snd mark of
        None \<Rightarrow> (False, L)
      | Some now_ms \<Rightarrow>
          (let (r, L') = append_event lib (Some (ec_tenant ctx)) (request_event ctx kind request meta (fst mark) now_ms) L
           in (is_ok r, L')))"

section \<open>What each fact says\<close>

text \<open>Maps in key order.\<close>

definition profiled_metadata :: "parsed_profile \<Rightarrow> json_map" where
  "profiled_metadata parsed =
     (case tp_intent (pp_task parsed) of None \<Rightarrow> [] | Some intent \<Rightarrow> [(''intent'', JStr intent)])
     @ [(''privacy'', JStr (privacy_as_str (case tp_privacy (pp_task parsed) of None \<Rightarrow> LocalOnly | Some p \<Rightarrow> p)))]"

definition rule_text :: "matched_rule \<Rightarrow> string" where
  "rule_text m = (case m of MatchedRule i \<Rightarrow> ''rule:'' @ show_nat i | MatchedDefault \<Rightarrow> ''default'')"

definition decided_metadata :: "route_decision \<Rightarrow> selected option \<Rightarrow> string option \<Rightarrow> json_map" where
  "decided_metadata route chosen rejection_reason =
     (case chosen of
        Some s \<Rightarrow>
          [(''degraded'', JBool (is_degraded (sel_decision s))),
           (''provider_id'', JStr (p_id (c_provider (sel_card s))))]
          @ (if reason_codes (sel_decision s) = [] then []
             else [(''reason_codes'', JArr (map (JStr \<circ> event_reason_code) (reason_codes (sel_decision s))))])
          @ [(''rule_id'', JStr (rule_text (rd_matched_rule route))),
             (''served_locality'', JStr (locality_as_str (sel_locality s))),
             (''status'', JStr ''selected''),
             (''tier'', JStr (tier_as_str (p_tier (c_provider (sel_card s)))))]
      | None \<Rightarrow>
          [(''reason'', JStr (case rejection_reason of None \<Rightarrow> ''no_candidate'' | Some r \<Rightarrow> r)),
           (''rule_id'', JStr (rule_text (rd_matched_rule route))),
           (''status'', JStr ''rejected'')])"

definition budget_reserved_metadata :: "selected \<Rightarrow> json_map" where
  "budget_reserved_metadata s =
     [(''provider_id'', JStr (p_id (c_provider (sel_card s)))), (''reserved_minor'', json_i64 (sel_estimate s))]"

definition dispatched_metadata :: "selected \<Rightarrow> json_map" where
  "dispatched_metadata s =
     [(''provider_id'', JStr (p_id (c_provider (sel_card s)))),
      (''served_locality'', JStr (locality_as_str (sel_locality s))), (''status'', JStr ''attempted'')]"

definition completed_metadata :: "selected \<Rightarrow> string \<Rightarrow> (u64 \<times> u64) option \<Rightarrow> json_map" where
  "completed_metadata s status usage =
     [(''provider_id'', JStr (p_id (c_provider (sel_card s)))),
      (''served_locality'', JStr (locality_as_str (sel_locality s))), (''status'', JStr status)]
     @ (case usage of None \<Rightarrow> []
        | Some (tin, tout) \<Rightarrow>
            [(''token_estimator'', JStr ''conservative''), (''tokens_in'', JNum (PosInt tin)),
             (''tokens_out'', JNum (PosInt tout))])"

definition budget_settled_metadata :: "selected \<Rightarrow> int \<Rightarrow> json_map" where
  "budget_settled_metadata s settled_minor =
     [(''provider_id'', JStr (p_id (c_provider (sel_card s)))), (''settled_minor'', json_i64 settled_minor)]"

section \<open>The facts\<close>

definition append_request_received where
  "append_request_received lib mark ctx request L = append_fact lib mark ctx RequestReceived (Some request) [] L"

definition append_profiled where
  "append_profiled lib mark ctx parsed L = append_fact lib mark ctx Profiled None (profiled_metadata parsed) L"

definition append_decided where
  "append_decided lib mark ctx route chosen rejection_reason L =
     append_fact lib mark ctx Decided None (decided_metadata route chosen rejection_reason) L"

definition append_budget_reserved where
  "append_budget_reserved lib mark ctx s L =
     (if \<not> is_paid (Some (sel_estimate s)) then (True, L)
      else append_fact lib mark ctx BudgetReserved None (budget_reserved_metadata s) L)"

definition append_dispatched where
  "append_dispatched lib mark ctx s L = append_fact lib mark ctx Dispatched None (dispatched_metadata s) L"

definition append_completed where
  "append_completed lib mark ctx s status usage L =
     append_fact lib mark ctx Completed None (completed_metadata s status usage) L"

definition append_budget_settled where
  "append_budget_settled lib mark ctx s settled_minor L =
     append_fact lib mark ctx BudgetSettled None (budget_settled_metadata s settled_minor) L"

definition append_inspection where
  "append_inspection lib mark ctx i L =
     (case snd mark of
        None \<Rightarrow> (False, L)
      | Some now_ms \<Rightarrow>
          (let (r, L') = append_inspected lib (fst mark) now_ms (ec_tenant ctx) (ec_record ctx) (ec_correlation ctx) i L
           in (is_ok r, L')))"

end
