(* ===== verification/Intent.thy ===== *)
theory Intent
  imports Profile Unicode
begin

text \<open>
  Intent detection (\<^verbatim>\<open>crates/idoris-router/src/intent\<close>): the hashing embedding and the cosine
  (\<^verbatim>\<open>embedding.rs\<close>), the detector over example utterances (\<^verbatim>\<open>detector.rs\<close>), and its place on the
  request path (\<^verbatim>\<open>mod.rs\<close>). \<open>str::to_lowercase\<close> is the parameter \<open>lowercase\<close>; a detector is
  its locality and the answer it gives, which may be an error.
\<close>

section \<open>Square root\<close>

text \<open>\<open>f64::sqrt\<close> is correctly rounded: the root of the units, with a bit that tells an inexact one.\<close>

fun isqrt :: "nat \<Rightarrow> nat" where
  "isqrt n = (if n = 0 then 0 else let r = 2 * isqrt (n div 4) in if (r + 1) * (r + 1) \<le> n then r + 1 else r)"

declare isqrt.simps [simp del]

definition f64_sqrt :: "f64 \<Rightarrow> f64" where
  "f64_sqrt x =
     (let u = magnitude_units (f64_magnitude x); n = u * 2 ^ 1202; s = isqrt n
      in if f64_is_nan x then f64_nan
         else if u = 0 then x
         else if f64_negative x then f64_nan
         else if f64_is_inf x then x
         else f64_make False (round_ratio (2 * s + (if s * s = n then 0 else 1)) (2 ^ 65)))"

section \<open>The embedding\<close>

definition fnv1a :: "nat list \<Rightarrow> 32 word" where
  "fnv1a units = foldl (\<lambda>hash unit. (hash XOR of_nat unit) * 0x01000193) 0x811c9dc5 units"

definition js_whitespace :: "nat \<Rightarrow> bool" where
  "js_whitespace c \<longleftrightarrow> 9 \<le> c \<and> c \<le> 13 \<or> 0x2000 \<le> c \<and> c \<le> 0x200a
     \<or> c \<in> {0x20, 0xa0, 0x1680, 0x2028, 0x2029, 0x202f, 0x205f, 0x3000, 0xfeff}"

text \<open>\<open>split(js_whitespace).filter(nonempty)\<close>.\<close>

fun js_tokens :: "ustr \<Rightarrow> ustr \<Rightarrow> ustr list" where
  "js_tokens token [] = (if token = [] then [] else [token])"
| "js_tokens token (c # cs) =
     (if js_whitespace c then (if token = [] then [] else [token]) @ js_tokens [] cs
      else js_tokens (token @ [c]) cs)"

fun bigrams :: "nat list \<Rightarrow> nat list list" where
  "bigrams (a # b # units) = [a, b] # bigrams (b # units)"
| "bigrams _ = []"

definition token_features :: "ustr \<Rightarrow> nat list list" where
  "token_features token = utf16 token # bigrams (utf16 token)"

definition bump :: "nat \<Rightarrow> f64 list \<Rightarrow> nat list \<Rightarrow> f64 list" where
  "bump dim vector feature =
     (let hash = fnv1a feature; i = unat hash mod dim; one = f64_of_nat 1
      in vector[i := f64_add (vector ! i) (if hash AND 0x80000000 \<noteq> 0 then f64_neg one else one)])"

definition hashing_embedding :: "(ustr \<Rightarrow> ustr) \<Rightarrow> ustr \<Rightarrow> nat \<Rightarrow> f64 list" where
  "hashing_embedding lowercase t dim =
     (let vector = foldl (bump dim) (replicate dim f64_zero) (concat (map token_features (js_tokens [] (lowercase t))));
          norm = f64_sqrt (f64_sum (map (\<lambda>x. f64_mul x x) vector))
      in if \<not> f64_eq norm f64_zero then map (\<lambda>v. f64_div v norm) vector else vector)"

definition cosine :: "f64 list \<Rightarrow> f64 list \<Rightarrow> f64" where
  "cosine a b =
     (let (dot, na, nb) = foldl (\<lambda>(dot, na, nb) (x, y). (f64_add dot (f64_mul x y), f64_add na (f64_mul x x), f64_add nb (f64_mul y y)))
            (f64_zero, f64_zero, f64_zero) (zip a b)
      in if f64_eq na f64_zero \<or> f64_eq nb f64_zero then f64_zero
         else f64_div dot (f64_mul (f64_sqrt na) (f64_sqrt nb)))"

section \<open>The detector\<close>

record chat_message =
  msg_role :: ustr
  msg_content :: ustr

record utterance_route =
  ur_intent :: string
  ur_utterances :: "ustr list"

record intent_hit =
  hit_intent :: string
  hit_score :: f64

definition js_trim :: "ustr \<Rightarrow> ustr" where
  "js_trim t = trim_matches js_whitespace t"

text \<open>The last non-blank message of the user as it is, otherwise the last message trimmed.\<close>

definition query_text :: "chat_message list \<Rightarrow> ustr" where
  "query_text messages =
     (case find (\<lambda>m. msg_role m = ascii ''user'' \<and> js_trim (msg_content m) \<noteq> []) (rev messages) of
        Some m \<Rightarrow> msg_content m
      | None \<Rightarrow> (if messages = [] then [] else js_trim (msg_content (last messages))))"

definition offer :: "f64 list \<Rightarrow> string \<Rightarrow> intent_hit option \<Rightarrow> f64 list \<Rightarrow> intent_hit option" where
  "offer query intent best vector =
     (let score = cosine query vector
      in if f64_is_finite score \<and> (\<forall>hit \<in> set_option best. f64_lt (hit_score hit) score)
         then Some \<lparr>hit_intent = intent, hit_score = score\<rparr> else best)"

text \<open>The loop over the routes: each takes as many of the vectors as it has utterances.\<close>

fun scan_routes :: "f64 list \<Rightarrow> utterance_route list \<Rightarrow> f64 list list \<Rightarrow> intent_hit option \<Rightarrow> intent_hit option" where
  "scan_routes query [] vectors best = best"
| "scan_routes query (route # routes) vectors best =
     (let n = length (ur_utterances route)
      in scan_routes query routes (drop n vectors) (foldl (offer query (ur_intent route)) best (take n vectors)))"

text \<open>The vectors of the utterances, kept once they have been computed; the embedder may fail.\<close>

definition encode_routes ::
    "(ustr list \<Rightarrow> string + f64 list list) \<Rightarrow> utterance_route list \<Rightarrow> f64 list list option
     \<Rightarrow> string + f64 list list" where
  "encode_routes emb routes encoded =
     (case encoded of
        Some vectors \<Rightarrow> Inr vectors
      | None \<Rightarrow>
          let texts = concat (map ur_utterances routes)
          in bind_result (emb texts) (\<lambda>vectors.
             if length vectors \<noteq> length texts then Inl ''embedder vector count does not match utterance count''
             else Inr vectors))"

definition detect ::
    "(ustr list \<Rightarrow> string + f64 list list) \<Rightarrow> utterance_route list \<Rightarrow> f64 \<Rightarrow> chat_message list
     \<Rightarrow> f64 list list option \<Rightarrow> (string + intent_hit option) \<times> f64 list list option" where
  "detect emb routes min_score ctx encoded =
     (let query = query_text ctx in
      if query = [] \<or> \<not> f64_is_finite min_score then (Inr None, encoded)
      else case emb [query] of
        Inl e \<Rightarrow> (Inl e, encoded)
      | Inr [] \<Rightarrow> (Inr None, encoded)
      | Inr (query_vector # _) \<Rightarrow>
          (case encode_routes emb routes encoded of
             Inl e \<Rightarrow> (Inl e, encoded)
           | Inr vectors \<Rightarrow>
               (Inr (case scan_routes query_vector routes vectors None of
                       Some hit \<Rightarrow> if f64_le min_score (hit_score hit) then Some hit else None
                     | None \<Rightarrow> None), Some vectors)))"

section \<open>On the request path\<close>

datatype detector_locality = LoopbackDetector | RemoteDetector

definition has_detectable_text :: "chat_message list \<Rightarrow> bool" where
  "has_detectable_text messages \<longleftrightarrow> query_text messages \<noteq> []"

definition resolve_profile_with_detector ::
    "parsed_profile \<Rightarrow> chat_message list \<Rightarrow> detector_locality \<Rightarrow> (chat_message list \<Rightarrow> string + intent_hit option)
     \<Rightarrow> parsed_profile" where
  "resolve_profile_with_detector parsed messages locality detector =
     (if pp_intent_source parsed = HeaderIntent
        \<or> (case tp_privacy (pp_task parsed) of None \<Rightarrow> LocalOnly | Some p \<Rightarrow> p) = LocalOnly \<and> locality = RemoteDetector
        \<or> \<not> has_detectable_text messages
      then parsed
      else case detector messages of
        Inr (Some hit) \<Rightarrow>
          let candidate = (pp_task parsed)\<lparr>tp_intent := Some (hit_intent hit)\<rparr>
          in if validate_task_profile candidate \<noteq> Inr () then parsed
             else parsed\<lparr>pp_task := candidate, pp_intent_source := DetectedIntent\<rparr>
      | _ \<Rightarrow> parsed)"

text \<open>The built-in detector runs in the process.\<close>

definition resolve_profile ::
    "(chat_message list \<Rightarrow> string + intent_hit option) \<Rightarrow> parsed_profile \<Rightarrow> chat_message list \<Rightarrow> parsed_profile" where
  "resolve_profile detector parsed messages = resolve_profile_with_detector parsed messages LoopbackDetector detector"

section \<open>The built-in detector\<close>

definition DETECTOR_DIM :: nat where "DETECTOR_DIM = 256"

definition hashing_embedder :: "(ustr \<Rightarrow> ustr) \<Rightarrow> ustr list \<Rightarrow> string + f64 list list" where
  "hashing_embedder lowercase texts = Inr (map (\<lambda>t. hashing_embedding lowercase t DETECTOR_DIM) texts)"

section \<open>Properties of the embedding\<close>

lemma isqrt_root: "isqrt n * isqrt n \<le> n \<and> n < (isqrt n + 1) * (isqrt n + 1)"
proof (induction n rule: isqrt.induct)
  case (1 n)
  show ?case
  proof (cases "n = 0")
    case False
    let ?q = "isqrt (n div 4)"
    from 1 False have q: "?q * ?q \<le> n div 4" "n div 4 < (?q + 1) * (?q + 1)" by auto
    have "4 * (?q * ?q) \<le> n" using q(1) by linarith
    moreover have "n < 4 * ((?q + 1) * (?q + 1))" using q(2) by linarith
    ultimately show ?thesis
      using False by (subst (1 2 3 4) isqrt.simps) (auto simp: Let_def algebra_simps)
  qed (simp add: isqrt.simps)
qed

lemma bump_length [simp]: "length (bump dim v f) = length v"
  by (simp add: bump_def Let_def)

lemma foldl_bump_length [simp]: "length (foldl (bump dim) v fs) = length v"
  by (induction fs arbitrary: v) simp_all

lemma hashing_embedding_length: "length (hashing_embedding lowercase t dim) = dim"
  by (simp add: hashing_embedding_def Let_def)

section \<open>Properties of the detector\<close>

text \<open>What the loop has seen: the vectors, each with the intent of its route.\<close>

fun labelled :: "utterance_route list \<Rightarrow> f64 list list \<Rightarrow> (string \<times> f64 list) list" where
  "labelled [] vectors = []"
| "labelled (route # routes) vectors =
     (let n = length (ur_utterances route)
      in map (\<lambda>v. (ur_intent route, v)) (take n vectors) @ labelled routes (drop n vectors))"

lemma scan_routes_labelled:
  "scan_routes query routes vectors best = foldl (\<lambda>b (i, v). offer query i b v) best (labelled routes vectors)"
proof (induction query routes vectors best rule: scan_routes.induct)
  case (2 query route routes vectors best)
  have "foldl (\<lambda>b (i, v). offer query i b v) b (map (\<lambda>v. (intent, v)) vs) = foldl (offer query intent) b vs" for b vs intent
    by (induction vs arbitrary: b) simp_all
  with 2 show ?case by (simp add: Let_def)
qed simp

definition best_so_far :: "f64 list \<Rightarrow> (string \<times> f64 list) list \<Rightarrow> intent_hit option \<Rightarrow> bool" where
  "best_so_far query seen best \<longleftrightarrow>
     (case best of
        None \<Rightarrow> \<forall>(i, v) \<in> set seen. \<not> f64_is_finite (cosine query v)
      | Some hit \<Rightarrow> f64_is_finite (hit_score hit)
          \<and> (\<exists>before v after. seen = before @ (hit_intent hit, v) # after \<and> hit_score hit = cosine query v
               \<and> (\<forall>(i, w) \<in> set before. f64_is_finite (cosine query w) \<longrightarrow> f64_lt (cosine query w) (hit_score hit))
               \<and> (\<forall>(i, w) \<in> set after. f64_is_finite (cosine query w) \<longrightarrow> f64_le (cosine query w) (hit_score hit))))"

lemma f64_not_lt: "f64_is_finite a \<Longrightarrow> f64_is_finite b \<Longrightarrow> \<not> f64_lt a b \<Longrightarrow> f64_le b a"
  by (auto simp: f64_lt_def f64_le_def finite_not_nan)

lemma f64_lt_after: "f64_lt a b \<Longrightarrow> f64_lt b c \<Longrightarrow> f64_lt a c" "f64_le a b \<Longrightarrow> f64_lt b c \<Longrightarrow> f64_lt a c"
  by (auto simp: f64_lt_def f64_le_def)

lemma best_here:
  assumes "f64_is_finite (hit_score hit)" "hit_score hit = cosine query v"
    and "\<forall>(i, w) \<in> set before. f64_is_finite (cosine query w) \<longrightarrow> f64_lt (cosine query w) (hit_score hit)"
    and "\<forall>(i, w) \<in> set after. f64_is_finite (cosine query w) \<longrightarrow> f64_le (cosine query w) (hit_score hit)"
  shows "best_so_far query (before @ (hit_intent hit, v) # after) (Some hit)"
  using assms unfolding best_so_far_def by auto

lemma best_step:
  assumes "best_so_far query seen best"
  shows "best_so_far query (seen @ [(i, v)]) (offer query i best v)"
proof -
  let ?hit = "\<lparr>hit_intent = i, hit_score = cosine query v\<rparr>"
  show ?thesis
  proof (cases "f64_is_finite (cosine query v) \<and> (\<forall>hit \<in> set_option best. f64_lt (hit_score hit) (cosine query v))")
    case True
    with assms have "\<forall>(j, w) \<in> set seen. f64_is_finite (cosine query w) \<longrightarrow> f64_lt (cosine query w) (cosine query v)"
      by (auto simp: best_so_far_def split: option.splits) (blast intro: f64_lt_after)+
    with True best_here [of ?hit query v seen "[]"] show ?thesis by (simp add: offer_def Let_def)
  next
    case False
    then have same: "offer query i best v = best" by (auto simp: offer_def Let_def)
    show ?thesis
    proof (cases best)
      case None
      with False assms same show ?thesis by (auto simp: best_so_far_def)
    next
      case (Some hit)
      with assms obtain before u after where b: "seen = before @ (hit_intent hit, u) # after" "hit_score hit = cosine query u"
        "\<forall>(i, w) \<in> set before. f64_is_finite (cosine query w) \<longrightarrow> f64_lt (cosine query w) (hit_score hit)"
        "\<forall>(i, w) \<in> set after. f64_is_finite (cosine query w) \<longrightarrow> f64_le (cosine query w) (hit_score hit)"
        and f: "f64_is_finite (hit_score hit)" by (auto simp: best_so_far_def)
      from False Some f have "f64_is_finite (cosine query v) \<longrightarrow> f64_le (cosine query v) (hit_score hit)"
        using f64_not_lt by auto
      with b(4) have "\<forall>(i, w) \<in> set (after @ [(i, v)]). f64_is_finite (cosine query w) \<longrightarrow> f64_le (cosine query w) (hit_score hit)"
        by auto
      from best_here [OF f b(2,3) this] show ?thesis using same Some b(1) by simp
    qed
  qed
qed

lemma best_found: "best_so_far query (labelled routes vectors) (scan_routes query routes vectors None)"
proof -
  have "best_so_far query (seen @ ls) (foldl (\<lambda>b (i, v). offer query i b v) best ls)"
    if "best_so_far query seen best" for seen ls best
    using that
  proof (induction ls arbitrary: seen best)
    case (Cons l ls)
    then show ?case using best_step [OF Cons.prems, of "fst l" "snd l"] Cons.IH [of "seen @ [l]"]
      by (cases l) simp
  qed simp
  from this [of "[]" None] show ?thesis by (simp add: scan_routes_labelled best_so_far_def)
qed

text \<open>
  A detected intent is that of the example closest to the query: its score is finite and at least the
  threshold, no example of another place scores higher, and of those that tie the first one counts.
\<close>

theorem detected_intent_is_closest:
  assumes "detect emb routes min_score ctx encoded = (Inr (Some hit), encoded')"
  shows "\<exists>query rest vectors before v after. emb [query_text ctx] = Inr (query # rest) \<and> encoded' = Some vectors
    \<and> encode_routes emb routes encoded = Inr vectors
    \<and> labelled routes vectors = before @ (hit_intent hit, v) # after
    \<and> hit_score hit = cosine query v \<and> f64_is_finite (hit_score hit) \<and> f64_le min_score (hit_score hit)
    \<and> list_all (\<lambda>(i, w). f64_is_finite (cosine query w) \<longrightarrow> f64_lt (cosine query w) (hit_score hit)) before
    \<and> list_all (\<lambda>(i, w). f64_is_finite (cosine query w) \<longrightarrow> f64_le (cosine query w) (hit_score hit)) after"
proof -
  from assms obtain query rest vectors where q: "emb [query_text ctx] = Inr (query # rest)"
    "encode_routes emb routes encoded = Inr vectors" "encoded' = Some vectors"
    "scan_routes query routes vectors None = Some hit" "f64_le min_score (hit_score hit)"
    by (auto simp: detect_def Let_def split: if_splits sum.splits list.splits option.splits)
  with best_found [of query routes vectors] obtain before v after where
    "labelled routes vectors = before @ (hit_intent hit, v) # after" "hit_score hit = cosine query v"
    "f64_is_finite (hit_score hit)"
    "\<forall>(i, w) \<in> set before. f64_is_finite (cosine query w) \<longrightarrow> f64_lt (cosine query w) (hit_score hit)"
    "\<forall>(i, w) \<in> set after. f64_is_finite (cosine query w) \<longrightarrow> f64_le (cosine query w) (hit_score hit)"
    by (auto simp: best_so_far_def)
  with q show ?thesis unfolding list_all_iff by blast
qed

text \<open>What the utterances encode to is kept from the first success on, and a failure keeps nothing.\<close>

lemma encoded_kept:
  assumes "detect emb routes min_score ctx encoded = (r, encoded')"
  shows "encoded' = encoded \<or> encoded = None \<and> is_ok r"
  using assms
  by (auto simp: detect_def encode_routes_def result_simps Let_def
      split: if_splits sum.splits list.splits option.splits)

text \<open>
  Intent detection changes the intent and nothing else: not the privacy class, the capabilities, the
  fallback, the role or the tenant; an intent given by header stands; and a remote detector is not even
  asked about a request that is \<open>local_only\<close>.
\<close>

lemma resolve_keeps:
  "tp_privacy (pp_task (resolve_profile_with_detector parsed messages locality detector)) = tp_privacy (pp_task parsed)"
  "tp_fallback (pp_task (resolve_profile_with_detector parsed messages locality detector)) = tp_fallback (pp_task parsed)"
  "tp_capabilities (pp_task (resolve_profile_with_detector parsed messages locality detector)) = tp_capabilities (pp_task parsed)"
  "tp_complexity (pp_task (resolve_profile_with_detector parsed messages locality detector)) = tp_complexity (pp_task parsed)"
  "pp_role (resolve_profile_with_detector parsed messages locality detector) = pp_role parsed"
  "pp_tenant (resolve_profile_with_detector parsed messages locality detector) = pp_tenant parsed"
  by (simp_all add: resolve_profile_with_detector_def Let_def split: sum.split option.split)

theorem intent_changes_nothing_else:
  "\<exists>intent source. resolve_profile_with_detector parsed messages locality detector
       = parsed\<lparr>pp_task := (pp_task parsed)\<lparr>tp_intent := intent\<rparr>, pp_intent_source := source\<rparr>
     \<and> (pp_intent_source parsed = HeaderIntent
          \<or> tp_privacy (pp_task parsed) \<noteq> Some AnyPrivacy \<and> locality = RemoteDetector
        \<longrightarrow> resolve_profile_with_detector parsed messages locality detector = parsed
          \<and> (\<forall>detector'. resolve_profile_with_detector parsed messages locality detector' = parsed))"
proof -
  have "\<exists>intent source. resolve_profile_with_detector parsed messages locality detector
      = parsed\<lparr>pp_task := (pp_task parsed)\<lparr>tp_intent := intent\<rparr>, pp_intent_source := source\<rparr>"
    by (cases "detector messages"; cases parsed; cases "pp_task parsed")
      (auto simp: resolve_profile_with_detector_def Let_def split: option.split)
  moreover have "resolve_profile_with_detector parsed messages locality d = parsed"
    if "pp_intent_source parsed = HeaderIntent
      \<or> tp_privacy (pp_task parsed) \<noteq> Some AnyPrivacy \<and> locality = RemoteDetector" for d
    using that by (cases "tp_privacy (pp_task parsed)"; cases "the (tp_privacy (pp_task parsed))")
      (auto simp: resolve_profile_with_detector_def)
  ultimately show ?thesis by blast
qed

text \<open>The default profile, which a detector's hit completes.\<close>

lemma intent_changes_nothing_else_witness:
  "resolve_profile_with_detector sample_profile [\<lparr>msg_role = ascii ''user'', msg_content = ascii ''hi''\<rparr>]
     LoopbackDetector (\<lambda>_. Inr (Some \<lparr>hit_intent = ''coding'', hit_score = f64_of_nat 1\<rparr>))
   \<noteq> resolve_profile_with_detector (sample_profile\<lparr>pp_intent_source := HeaderIntent\<rparr>)
     [\<lparr>msg_role = ascii ''user'', msg_content = ascii ''hi''\<rparr>] RemoteDetector (\<lambda>_. Inl ''down'')"
  using intent_changes_nothing_else [of "sample_profile\<lparr>pp_intent_source := HeaderIntent\<rparr>"
      "[\<lparr>msg_role = ascii ''user'', msg_content = ascii ''hi''\<rparr>]" RemoteDetector "\<lambda>_. Inl ''down''"]
  by (auto simp: resolve_profile_with_detector_def sample_profile_def has_detectable_text_def query_text_def js_trim_def
      trim_matches_def js_whitespace_def ascii_def validate_task_profile_def require_def result_simps non_empty_def Let_def)

text \<open>The fixed outputs of the hash.\<close>

lemma fnv1a_fixed:
  "fnv1a [] = 2166136261" "fnv1a (ascii ''a'') = 3826002220" "fnv1a (ascii ''hello'') = 1335831723"
  by (simp_all add: fnv1a_def ascii_def)

end
