(* ===== verification/Proxy.thy ===== *)
theory Proxy
  imports Selection Breaker
begin

text \<open>
  The direct HTTP proxy (\<^verbatim>\<open>crates/idoris-router/src/proxy.rs\<close>): the circuit breakers' gates around
  a send, the buffered send with its retries, the egress counter, and the idempotency cache. The URL parser,
  the digest of a payload and the serializer are a record of functions; an instant is a number of
  milliseconds and may be negative. Poisoned locks are not modelled; an exhausted issuer counter is \<open>None\<close>.
\<close>

section \<open>What the proxy takes from elsewhere\<close>

record url_parts =
  up_scheme :: string
  up_host :: "string option"
  up_port :: "nat option"

record proxy_lib =
  parse_url :: "string \<Rightarrow> url_parts option"
  loopback_ip :: "string \<Rightarrow> bool"
  digest_json :: "json \<Rightarrow> privacy_class \<Rightarrow> locality \<Rightarrow> 8 word list option"
  json_bytes :: "json \<Rightarrow> nat"
  read_json :: "string \<Rightarrow> json option"

section \<open>Addresses\<close>

text \<open>\<open>localhost\<close>, or a loopback address once the brackets are off.\<close>

definition trim_bracket :: "string \<Rightarrow> string" where
  "trim_bracket host =
     rev (dropWhile (\<lambda>c. c = CHR '']'') (rev (dropWhile (\<lambda>c. c = CHR ''['') host)))"

definition is_loopback_url :: "proxy_lib \<Rightarrow> string \<Rightarrow> bool" where
  "is_loopback_url lib url =
     (case parse_url lib url of
        None \<Rightarrow> False
      | Some parsed \<Rightarrow>
          (\<exists>host \<in> set_option (up_host parsed).
             eq_ignore_ascii_case (ascii host) (ascii ''localhost'') \<or> loopback_ip lib (trim_bracket host)))"

definition credential_class_of :: "proxy_lib \<Rightarrow> string \<Rightarrow> credential_class" where
  "credential_class_of lib url = (if is_loopback_url lib url then Local else ApiKey)"

datatype breaker_key = ProviderKey string | ConnectionKey string string nat

definition connection_key :: "proxy_lib \<Rightarrow> string \<Rightarrow> breaker_key option" where
  "connection_key lib url =
     Option.bind (parse_url lib url) (\<lambda>parsed.
       if up_scheme parsed \<noteq> ''http'' \<and> up_scheme parsed \<noteq> ''https'' then None
       else Option.bind (up_host parsed) (\<lambda>host. map_option (ConnectionKey (up_scheme parsed) host) (up_port parsed)))"

definition upstream_url :: "string \<Rightarrow> string \<Rightarrow> string" where
  "upstream_url endpoint path = rev (dropWhile (\<lambda>c. c = CHR ''/'') (rev endpoint)) @ path"

section \<open>Gates\<close>

record gate_state =
  g_enabled :: bool
  g_book :: "breaker_key book"
  g_ctr :: u64

record captured_gate =
  cg_key :: breaker_key
  cg_class :: credential_class
  cg_ticket :: ticket
  cg_probe :: bool

definition MAX_CONNECTION_RETRY_AFTER_MS :: u64 where
  "MAX_CONNECTION_RETRY_AFTER_MS = 300000"

definition is_probe :: "admission \<Rightarrow> bool" where
  "is_probe a \<longleftrightarrow> a = Probe"

definition is_rejected :: "admission \<Rightarrow> bool" where
  "is_rejected a \<longleftrightarrow> \<not> admitted a"

text \<open>What a claim does when it is dropped without an answer: its probes count as failures.\<close>

definition drop_gate :: "u64 \<Rightarrow> captured_gate \<Rightarrow> breaker_key book \<Rightarrow> breaker_key book" where
  "drop_gate now gate book =
     (if cg_probe gate then book_on_failure book (cg_key gate) (cg_class gate) (cg_ticket gate) now else book)"

definition drop_claim :: "u64 \<Rightarrow> captured_gate list \<Rightarrow> breaker_key book \<Rightarrow> breaker_key book" where
  "drop_claim now gates book = fold (drop_gate now) gates book"

text \<open>\<open>None\<close> inside: a gate is closed, and nothing is sent. The loop over the tickets, with those captured so far.\<close>

fun capture_gates ::
    "credential_class \<Rightarrow> u64 \<Rightarrow> captured_gate list \<Rightarrow> (breaker_key \<times> admission \<times> ticket option) list
     \<Rightarrow> breaker_key book \<Rightarrow> captured_gate list option \<times> breaker_key book" where
  "capture_gates class now gates [] book = (Some gates, book)"
| "capture_gates class now gates ((key, a, ticket) # admissions) book =
     (case ticket of
        None \<Rightarrow> (None, drop_claim now gates book)
      | Some t \<Rightarrow>
          capture_gates class now
            (gates @ [\<lparr>cg_key = key, cg_class = class, cg_ticket = t, cg_probe = is_probe a\<rparr>]) admissions book)"

definition claim_send ::
    "proxy_lib \<Rightarrow> string \<Rightarrow> string \<Rightarrow> u64 \<Rightarrow> gate_state \<Rightarrow> (captured_gate list option \<times> gate_state) option" where
  "claim_send lib provider_id url now g =
     (if \<not> g_enabled g then Some (Some [], g)
      else
        let class = credential_class_of lib url; provider = ProviderKey provider_id in
        case connection_key lib url of
          Some connection \<Rightarrow>
            (case book_admit_pair (g_book g) (provider, class) (connection, class) now (g_ctr g) of
               None \<Rightarrow> None
             | Some (Inl _) \<Rightarrow> Some (None, g)
             | Some (Inr (a, b, book, ctr)) \<Rightarrow>
                 let (claim, book') = capture_gates class now [] [(provider, a), (connection, b)] book
                 in Some (claim, g\<lparr>g_book := book', g_ctr := ctr\<rparr>))
        | None \<Rightarrow>
            (case book_admit (g_book g) provider class now (g_ctr g) of
               None \<Rightarrow> None
             | Some (a, book, ctr) \<Rightarrow>
                 let (claim, book') = capture_gates class now [] [(provider, a)] book
                 in Some (claim, g\<lparr>g_book := book', g_ctr := ctr\<rparr>)))"

definition is_fault_status :: "nat \<Rightarrow> bool" where
  "is_fault_status status \<longleftrightarrow> status = 408 \<or> status = 429 \<or> 500 \<le> status \<and> status < 600"

definition settle_gate :: "bool \<Rightarrow> u64 option \<Rightarrow> u64 \<Rightarrow> captured_gate \<Rightarrow> breaker_key book \<Rightarrow> breaker_key book" where
  "settle_gate fault header now gate book =
     (let k = cg_key gate; c = cg_class gate; t = cg_ticket gate
      in case k of
           ProviderKey _ \<Rightarrow> if fault then book_on_failure book k c t now else book_on_success book k c t
         | ConnectionKey _ _ _ \<Rightarrow>
             if fault \<and> cg_probe gate then book_on_failure_with_retry_after book k c t now header
             else case header of
                 Some ms \<Rightarrow> book_on_retry_after book k c t now ms
               | None \<Rightarrow> if \<not> fault then book_on_success book k c t else book)"

definition finish_claim :: "captured_gate list \<Rightarrow> nat \<Rightarrow> u64 option \<Rightarrow> u64 \<Rightarrow> breaker_key book \<Rightarrow> breaker_key book" where
  "finish_claim gates status retry now book =
     (let fault = is_fault_status status;
          header = (case retry of
              Some ms \<Rightarrow> if status = 429 \<or> status = 503 then Some (min ms MAX_CONNECTION_RETRY_AFTER_MS) else None
            | None \<Rightarrow> None)
      in fold (settle_gate fault header now) gates book)"

section \<open>Native runtimes and subscriptions\<close>

datatype provider_outcome = ProviderSuccess | ProviderFault | ProviderIgnored

record provider_capture =
  pc_key :: breaker_key
  pc_class :: credential_class
  pc_ticket :: "ticket option"
  pc_probe :: bool

definition begin_provider ::
    "string \<Rightarrow> credential_class \<Rightarrow> u64 \<Rightarrow> gate_state \<Rightarrow> (provider_capture \<times> gate_state) option" where
  "begin_provider provider_id class now g =
     (let capture = \<lparr>pc_key = ProviderKey provider_id, pc_class = class, pc_ticket = None, pc_probe = False\<rparr>
      in if \<not> g_enabled g then Some (capture, g)
         else case book_admit (g_book g) (ProviderKey provider_id) class now (g_ctr g) of
             None \<Rightarrow> None
           | Some ((a, ticket), book, ctr) \<Rightarrow>
               Some (capture\<lparr>pc_ticket := ticket, pc_probe := is_probe a\<rparr>, g\<lparr>g_book := book, g_ctr := ctr\<rparr>))"

definition finish_provider :: "provider_capture \<Rightarrow> provider_outcome \<Rightarrow> u64 \<Rightarrow> gate_state \<Rightarrow> gate_state" where
  "finish_provider capture outcome now g =
     (case pc_ticket capture of
        None \<Rightarrow> g
      | Some ticket \<Rightarrow>
          if outcome = ProviderIgnored \<and> \<not> pc_probe capture then g
          else g\<lparr>g_book :=
            (if outcome = ProviderSuccess then book_on_success (g_book g) (pc_key capture) (pc_class capture) ticket
             else book_on_failure (g_book g) (pc_key capture) (pc_class capture) ticket now)\<rparr>)"

section \<open>Which cards are cooling\<close>

definition gate_keys :: "proxy_lib \<Rightarrow> component_card \<Rightarrow> (breaker_key \<times> breaker_key option \<times> credential_class) option" where
  "gate_keys lib c =
     (let provider = ProviderKey (p_id (c_provider c)) in
      case classify_subscription_card c of
        Inr SubscriptionCard \<Rightarrow> Some (provider, None, OAuth)
      | Inr OrdinaryCard \<Rightarrow>
          if is_resident_http_service c
          then Some (provider, connection_key lib (c_endpoint c), credential_class_of lib (c_endpoint c))
          else if c_form c = HttpService then Some (provider, None, Local)
          else None
      | Inl _ \<Rightarrow> None)"

definition card_blocked :: "proxy_lib \<Rightarrow> breaker_key book \<Rightarrow> u64 \<Rightarrow> component_card \<Rightarrow> bool" where
  "card_blocked lib book now c =
     (case gate_keys lib c of
        None \<Rightarrow> False
      | Some (provider, connection, class) \<Rightarrow>
          is_rejected (book_readiness book provider class now)
          \<or> (\<exists>key \<in> set_option connection. is_rejected (book_readiness book key class now)))"

definition blocked_cards :: "proxy_lib \<Rightarrow> gate_state \<Rightarrow> u64 \<Rightarrow> component_card list \<Rightarrow> bool list" where
  "blocked_cards lib g now cards =
     (if \<not> g_enabled g then replicate (length cards) False else map (card_blocked lib (g_book g) now) cards)"

section \<open>What leaves the machine\<close>

definition IDENTITY_FIELDS :: "string list" where
  "IDENTITY_FIELDS = [''user'', ''safety_identifier'', ''prompt_cache_key'', ''metadata'']"

definition without_keys :: "string list \<Rightarrow> json_map \<Rightarrow> json_map" where
  "without_keys keys m = filter (\<lambda>(k, _). \<not> List.member keys k) m"

fun unnamed :: "json \<Rightarrow> json" where
  "unnamed (JObj m) = JObj (without_keys [''name''] m)"
| "unnamed v = v"

fun unnamed_messages :: "string \<times> json \<Rightarrow> string \<times> json" where
  "unnamed_messages (key, JArr messages) = (key, if key = ''messages'' then JArr (map unnamed messages) else JArr messages)"
| "unnamed_messages kv = kv"

fun decorrelate :: "json \<Rightarrow> json" where
  "decorrelate (JObj m) = JObj (map unnamed_messages (without_keys IDENTITY_FIELDS m))"
| "decorrelate v = v"

record egress_count =
  eg_requests :: u64
  eg_bytes :: u64

text \<open>The payload on the wire, and the counter before it goes.\<close>

definition count_egress :: "proxy_lib \<Rightarrow> string \<Rightarrow> nat \<Rightarrow> egress_count \<Rightarrow> egress_count" where
  "count_egress lib url bytes e =
     (if is_loopback_url lib url then e
      else e\<lparr>eg_requests := eg_requests e + 1, eg_bytes := eg_bytes e + of_nat bytes\<rparr>)"

definition outbound :: "proxy_lib \<Rightarrow> string \<Rightarrow> json \<Rightarrow> egress_count \<Rightarrow> json \<times> egress_count" where
  "outbound lib url body e =
     (let wire = (if is_loopback_url lib url then body else decorrelate body)
      in (wire, count_egress lib url (json_bytes lib wire) e))"

section \<open>Outcomes\<close>

datatype disposition = NotExecuted | Executed | Uncertain | Replay

record forward_outcome =
  fo_status :: nat
  fo_body :: string
  fo_content_type :: "string option"
  fo_cached :: bool
  fo_origin :: "string option"
  fo_locality :: "locality option"
  fo_retries :: nat
  fo_execution :: disposition

definition JSON_TYPE :: string where
  "JSON_TYPE = ''application/json''"

definition failed_outcome :: "nat \<Rightarrow> string \<Rightarrow> nat \<Rightarrow> disposition \<Rightarrow> forward_outcome" where
  "failed_outcome status text retries execution =
     \<lparr>fo_status = status, fo_body = text, fo_content_type = Some JSON_TYPE, fo_cached = False, fo_origin = None,
      fo_locality = None, fo_retries = retries, fo_execution = execution\<rparr>"

definition failure_with_execution :: "nat \<Rightarrow> nat \<Rightarrow> disposition \<Rightarrow> forward_outcome" where
  "failure_with_execution status retries execution =
     failed_outcome status ''{\"error\":{\"type\":\"upstream_unavailable\"}}'' retries execution"

definition failure :: "nat \<Rightarrow> nat \<Rightarrow> forward_outcome" where
  "failure status retries = failure_with_execution status retries NotExecuted"

definition flight_failure_with_execution :: "nat \<Rightarrow> string \<Rightarrow> disposition \<Rightarrow> forward_outcome" where
  "flight_failure_with_execution status kind execution =
     failed_outcome status (''{\"error\":{\"type\":\"'' @ kind @ ''\"}}'') 0 execution"

definition flight_failure :: "nat \<Rightarrow> string \<Rightarrow> forward_outcome" where
  "flight_failure status kind = flight_failure_with_execution status kind NotExecuted"

definition upstream_auth_failure :: "nat \<Rightarrow> forward_outcome" where
  "upstream_auth_failure retries =
     failed_outcome 502 ''{\"error\":{\"type\":\"upstream_auth_failed\",\"reason_code\":\"upstream_auth_failed\"}}''
       retries Executed"

definition is_success :: "nat \<Rightarrow> bool" where
  "is_success status \<longleftrightarrow> 200 \<le> status \<and> status < 300"

text \<open>\<open>error_text\<close> prints the envelope of a gate's refusal.\<close>

definition finalize_success ::
    "(nat \<times> string \<times> string \<Rightarrow> string) \<Rightarrow> (forward_outcome \<Rightarrow> nat \<times> string \<times> string + unit) \<Rightarrow> forward_outcome
     \<Rightarrow> forward_outcome \<times> bool" where
  "finalize_success error_text success_gate outcome =
     (if fo_execution outcome = Executed \<and> is_success (fo_status outcome) \<and> \<not> fo_cached outcome
      then case success_gate outcome of
          Inl e \<Rightarrow> (failed_outcome (fst e) (error_text e) 0 Uncertain, True)
        | Inr _ \<Rightarrow> (outcome, False)
      else (outcome, False))"

section \<open>Reading a body\<close>

datatype read_event = Chunk string | EndOfBody | ReadFailed bool | DeadlinePassed

fun read_chunks :: "nat \<Rightarrow> string \<Rightarrow> read_event list \<Rightarrow> nat + string" where
  "read_chunks most bytes [] = Inl 504"
| "read_chunks most bytes (Chunk c # es) =
     (if most - length bytes < length c then Inl 502 else read_chunks most (bytes @ c) es)"
| "read_chunks most bytes (EndOfBody # es) = Inr bytes"
| "read_chunks most bytes (ReadFailed is_timeout # es) = Inl (if is_timeout then 504 else 502)"
| "read_chunks most bytes (DeadlinePassed # es) = Inl 504"

definition read_buffered :: "nat \<Rightarrow> nat option \<Rightarrow> read_event list \<Rightarrow> nat + string" where
  "read_buffered most content_length events =
     (if (\<exists>n \<in> set_option content_length. most < n) then Inl 502 else read_chunks most [] events)"

section \<open>The send\<close>

record upstream_answer =
  ua_status :: nat
  ua_content_type :: "string option"
  ua_retry_after :: "string option"
  ua_length :: "nat option"
  ua_body :: "read_event list"

datatype sent = Answered upstream_answer | SendFailed bool bool | HeadersTimedOut

record send_report =
  sr_outcome :: forward_outcome
  sr_uncertain :: bool
  sr_retry_after :: "u64 option"
  sr_raw_auth :: "nat option"

record send_config =
  sc_retries :: nat
  sc_max_body :: nat
  sc_require_usage :: bool

definition is_upstream_auth_status :: "nat \<Rightarrow> bool" where
  "is_upstream_auth_status status \<longleftrightarrow> status = 401 \<or> status = 403"

definition not_proof_of_execution :: "nat \<Rightarrow> bool" where
  "not_proof_of_execution status \<longleftrightarrow> 300 \<le> status \<and> status < 400 \<or> status = 408 \<or> 500 \<le> status \<and> status < 600"

definition answered_outcome :: "proxy_lib \<Rightarrow> send_config \<Rightarrow> nat \<Rightarrow> upstream_answer \<Rightarrow> send_report" where
  "answered_outcome lib cfg attempt resp =
     (let status = ua_status resp;
          retry = map_option (\<lambda>ms. min ms MAX_CONNECTION_RETRY_AFTER_MS)
            (Option.bind (ua_retry_after resp) (\<lambda>raw. parse_retry_after_ms (chars raw)));
          report = (\<lambda>outcome uncertain. \<lparr>sr_outcome = outcome, sr_uncertain = uncertain, sr_retry_after = retry,
            sr_raw_auth = None\<rparr>)
      in if is_upstream_auth_status status
         then (report (upstream_auth_failure attempt) False)\<lparr>sr_raw_auth := Some status\<rparr>
         else case read_buffered (sc_max_body cfg) (ua_length resp) (ua_body resp) of
           Inl e \<Rightarrow> report (failure_with_execution e attempt Uncertain) True
         | Inr body \<Rightarrow>
             if is_success status \<and> sc_require_usage cfg \<and> \<not> is_ok (parse_openai_usage (read_json lib body))
             then report (flight_failure_with_execution 502 ''upstream_usage_invalid'' Uncertain) True
             else
               let doubtful = not_proof_of_execution status
               in report \<lparr>fo_status = status, fo_body = body, fo_content_type = ua_content_type resp, fo_cached = False,
                    fo_origin = None, fo_locality = None, fo_retries = attempt,
                    fo_execution = (if doubtful then Uncertain else Executed)\<rparr> doubtful)"

text \<open>\<open>answer k\<close> is what became of the \<open>k\<close>-th send of the loop.\<close>

function send_from :: "proxy_lib \<Rightarrow> send_config \<Rightarrow> (nat \<Rightarrow> sent) \<Rightarrow> nat \<Rightarrow> send_report" where
  "send_from lib cfg answer attempt =
     (let failed = (\<lambda>outcome uncertain. \<lparr>sr_outcome = outcome, sr_uncertain = uncertain, sr_retry_after = None,
        sr_raw_auth = None\<rparr>)
      in case answer attempt of
           Answered resp \<Rightarrow> answered_outcome lib cfg attempt resp
         | SendFailed is_connect is_timeout \<Rightarrow>
             if is_connect \<and> attempt < sc_retries cfg then send_from lib cfg answer (attempt + 1)
             else failed (failure_with_execution (if is_timeout then 504 else 502) attempt
               (if is_connect then NotExecuted else Uncertain)) (\<not> is_connect)
         | HeadersTimedOut \<Rightarrow> failed (failure_with_execution 504 attempt Uncertain) True)"
  by pat_completeness auto
termination by (relation "measure (\<lambda>(lib, cfg, answer, attempt). sc_retries cfg - attempt)") auto

declare send_from.simps [simp del]

definition send_buffered :: "proxy_lib \<Rightarrow> send_config \<Rightarrow> (nat \<Rightarrow> sent) \<Rightarrow> send_report" where
  "send_buffered lib cfg answer = send_from lib cfg answer 0"

text \<open>The part of a forward after the gates opened: the answer settles them.\<close>

definition settled_send ::
    "proxy_lib \<Rightarrow> send_config \<Rightarrow> captured_gate list \<Rightarrow> u64 \<Rightarrow> (nat \<Rightarrow> sent) \<Rightarrow> gate_state \<Rightarrow> send_report \<times> gate_state" where
  "settled_send lib cfg claim now answer g =
     (let r = send_buffered lib cfg answer;
          status = (case sr_raw_auth r of Some s \<Rightarrow> s | None \<Rightarrow> fo_status (sr_outcome r))
      in (r, g\<lparr>g_book := finish_claim claim status (sr_retry_after r) now (g_book g)\<rparr>))"

section \<open>The idempotency cache\<close>

record cache_entry =
  ce_at :: int
  ce_fingerprint :: "8 word list"
  ce_status :: nat
  ce_body :: string
  ce_record :: string
  ce_locality :: locality

record forward_opts =
  op_request :: "string option"
  op_tenant :: "string option"
  op_record :: string
  op_provider :: string
  op_locality :: locality
  op_privacy :: privacy_class
  op_require_usage :: bool

text \<open>The sizes of the types and the capacities of allocations depend on the platform.\<close>

record cache_config =
  cc_window :: nat
  cc_max_entries :: nat
  cc_max_cache_bytes :: nat
  cc_max_flight_bytes :: nat
  cc_entry_size :: nat
  cc_flight_size :: nat
  cc_capacity :: "string \<Rightarrow> nat"

definition cache_key :: "string \<Rightarrow> string \<Rightarrow> string \<Rightarrow> string \<Rightarrow> string" where
  "cache_key scope endpoint provider_id rid =
     scope @ CHR 0x00 # endpoint @ CHR 0x00 # provider_id @ CHR 0x00 # rid"

definition PERSONAL_SCOPE :: string where
  "PERSONAL_SCOPE = CHR 0x00 # ''personal''"

definition tenant_scope :: "string option \<Rightarrow> string" where
  "tenant_scope tenant = (case tenant of None \<Rightarrow> PERSONAL_SCOPE | Some t \<Rightarrow> t)"

type_synonym cache = "(string \<times> cache_entry) list"

text \<open>Sums saturate at the largest \<open>usize\<close>.\<close>

definition USIZE_MAX :: nat where
  "USIZE_MAX = 2 ^ 64 - 1"

definition sat_sum :: "nat list \<Rightarrow> nat" where
  "sat_sum ns = foldl (\<lambda>total n. min (total + n) USIZE_MAX) 0 ns"

definition entry_bytes :: "cache_config \<Rightarrow> string \<times> cache_entry \<Rightarrow> nat" where
  "entry_bytes cfg ke =
     sat_sum [length (fst ke), length (ce_record (snd ke)), length (ce_body (snd ke)), cc_entry_size cfg]"

fun evict_oldest :: "cache_config \<Rightarrow> nat \<Rightarrow> cache \<Rightarrow> cache" where
  "evict_oldest cfg bytes [] = []"
| "evict_oldest cfg bytes (ke # cache) =
     (if cc_max_entries cfg < length (ke # cache) \<or> cc_max_cache_bytes cfg < bytes
      then evict_oldest cfg (bytes - entry_bytes cfg ke) cache else ke # cache)"

definition prune :: "cache_config \<Rightarrow> int \<Rightarrow> cache \<Rightarrow> cache" where
  "prune cfg now cache =
     (let cutoff = now - int (cc_window cfg);
          fresh = dropWhile (\<lambda>(_, entry). ce_at entry \<le> cutoff) cache
      in evict_oldest cfg (sat_sum (map (entry_bytes cfg) fresh)) fresh)"

definition remember :: "cache_config \<Rightarrow> int \<Rightarrow> string \<Rightarrow> cache_entry \<Rightarrow> cache \<Rightarrow> cache" where
  "remember cfg now key entry cache =
     (let others = filter (\<lambda>(k, _). k \<noteq> key) cache
      in prune cfg now (if entry_bytes cfg (key, entry) \<le> cc_max_cache_bytes cfg then others @ [(key, entry)] else others))"

definition lookup_cached ::
    "cache_config \<Rightarrow> int \<Rightarrow> string \<Rightarrow> 8 word list \<Rightarrow> forward_opts \<Rightarrow> cache \<Rightarrow> forward_outcome option" where
  "lookup_cached cfg now key fp opts cache =
     (case map_of cache key of
        None \<Rightarrow> None
      | Some entry \<Rightarrow>
          if \<not> now - ce_at entry < int (cc_window cfg) then None
          else if ce_fingerprint entry \<noteq> fp then Some (flight_failure 409 ''request_id_conflict'')
          else if op_privacy opts = LocalOnly \<and> ce_locality entry \<noteq> Loopback then None
          else Some \<lparr>fo_status = ce_status entry, fo_body = ce_body entry, fo_content_type = Some JSON_TYPE,
            fo_cached = True, fo_origin = Some (ce_record entry), fo_locality = Some (ce_locality entry),
            fo_retries = 0, fo_execution = Replay\<rparr>)"

text \<open>A cooling card that the request is already bound to stays selectable; \<open>flights\<close> are the keys in flight.\<close>

definition idempotent_key_present :: "cache_config \<Rightarrow> int \<Rightarrow> cache \<Rightarrow> string list \<Rightarrow> string \<Rightarrow> bool" where
  "idempotent_key_present cfg now cache flights key \<longleftrightarrow>
     (\<exists>entry \<in> set_option (map_of cache key). now - ce_at entry < int (cc_window cfg)) \<or> List.member flights key"

definition unmask_idempotent_bindings ::
    "(string \<Rightarrow> bool) \<Rightarrow> string option \<Rightarrow> string option \<Rightarrow> string \<Rightarrow> component_card list \<Rightarrow> bool list \<Rightarrow> bool list" where
  "unmask_idempotent_bindings present tenant request path cards blocked =
     (case request of
        None \<Rightarrow> blocked
      | Some rid \<Rightarrow>
          if rid = [] \<or> length blocked \<noteq> length cards then blocked
          else map (\<lambda>(c, b). b \<and> \<not> present (cache_key (tenant_scope tenant) (upstream_url (c_endpoint c) path)
                 (p_id (c_provider c)) rid)) (zip cards blocked))"

section \<open>What a send shows\<close>

lemma answered_disposition [simp]:
  "sr_uncertain (answered_outcome lib cfg k resp) \<longleftrightarrow> fo_execution (sr_outcome (answered_outcome lib cfg k resp)) = Uncertain"
  "fo_execution (sr_outcome (answered_outcome lib cfg k resp)) \<noteq> NotExecuted"
  "fo_execution (sr_outcome (answered_outcome lib cfg k resp)) \<noteq> Replay"
  by (auto simp: answered_outcome_def Let_def upstream_auth_failure_def failed_outcome_def failure_with_execution_def
      flight_failure_with_execution_def split: sum.split)

lemma send_from_stops:
  "\<exists>n. attempt \<le> n \<and> n \<le> max attempt (sc_retries cfg) \<and> (\<forall>k. attempt \<le> k \<and> k < n \<longrightarrow> (\<exists>timeout. answer k = SendFailed True timeout))
    \<and> (case answer n of
         Answered resp \<Rightarrow> send_from lib cfg answer attempt = answered_outcome lib cfg n resp
       | SendFailed is_connect timeout \<Rightarrow> fo_execution (sr_outcome (send_from lib cfg answer attempt))
           = (if is_connect then NotExecuted else Uncertain)
           \<and> sr_uncertain (send_from lib cfg answer attempt) = (\<not> is_connect)
           \<and> fo_status (sr_outcome (send_from lib cfg answer attempt)) = (if timeout then 504 else 502)
           \<and> (is_connect \<longrightarrow> sc_retries cfg \<le> n)
       | HeadersTimedOut \<Rightarrow> fo_execution (sr_outcome (send_from lib cfg answer attempt)) = Uncertain
           \<and> fo_status (sr_outcome (send_from lib cfg answer attempt)) = 504
           \<and> sr_uncertain (send_from lib cfg answer attempt))"
proof (induction lib cfg answer attempt rule: send_from.induct)
  case (1 lib cfg answer attempt)
  show ?case
  proof (cases "\<exists>t. answer attempt = SendFailed True t \<and> attempt < sc_retries cfg")
    case True
    then obtain t where t: "answer attempt = SendFailed True t" "attempt < sc_retries cfg" by blast
    then have e: "send_from lib cfg answer attempt = send_from lib cfg answer (attempt + 1)"
      by (subst send_from.simps) simp
    from 1 [OF refl t(1)] t(2) obtain n where n: "attempt + 1 \<le> n" "n \<le> max (attempt + 1) (sc_retries cfg)"
      "\<forall>k. attempt + 1 \<le> k \<and> k < n \<longrightarrow> (\<exists>timeout. answer k = SendFailed True timeout)"
      "case answer n of
         Answered resp \<Rightarrow> send_from lib cfg answer (attempt + 1) = answered_outcome lib cfg n resp
       | SendFailed is_connect timeout \<Rightarrow> fo_execution (sr_outcome (send_from lib cfg answer (attempt + 1)))
           = (if is_connect then NotExecuted else Uncertain)
           \<and> sr_uncertain (send_from lib cfg answer (attempt + 1)) = (\<not> is_connect)
           \<and> fo_status (sr_outcome (send_from lib cfg answer (attempt + 1))) = (if timeout then 504 else 502)
           \<and> (is_connect \<longrightarrow> sc_retries cfg \<le> n)
       | HeadersTimedOut \<Rightarrow> fo_execution (sr_outcome (send_from lib cfg answer (attempt + 1))) = Uncertain
           \<and> fo_status (sr_outcome (send_from lib cfg answer (attempt + 1))) = 504
           \<and> sr_uncertain (send_from lib cfg answer (attempt + 1))" by auto
    have "\<exists>timeout. answer k = SendFailed True timeout" if "attempt \<le> k \<and> k < n" for k
      using that t(1) n(3) by (cases "k = attempt") auto
    with n t(2) show ?thesis unfolding e by (intro exI [of _ n]) auto
  next
    case False
    then show ?thesis
      by (intro exI [of _ attempt], subst (1 2 3 4 5 6 7) send_from.simps)
        (auto simp: failure_with_execution_def failed_outcome_def split: sent.split)
  qed
qed

text \<open>
  Of the sends of one forward only the last can have reached the upstream: the others failed to connect.
  The loop ends within the retries. \<open>NotExecuted\<close> is reported only when the last one failed to connect as
  well, and the doubt it reports is exactly the disposition \<open>Uncertain\<close>.
\<close>

theorem only_last_send_executes:
  "\<exists>n \<le> sc_retries cfg. (\<forall>k < n. \<exists>timeout. answer k = SendFailed True timeout)
    \<and> (fo_execution (sr_outcome (send_buffered lib cfg answer)) = NotExecuted
         \<longleftrightarrow> n = sc_retries cfg \<and> (\<exists>timeout. answer n = SendFailed True timeout))
    \<and> (fo_execution (sr_outcome (send_buffered lib cfg answer)) = Executed \<longrightarrow> (\<exists>resp. answer n = Answered resp))
    \<and> (sr_uncertain (send_buffered lib cfg answer)
         \<longleftrightarrow> fo_execution (sr_outcome (send_buffered lib cfg answer)) = Uncertain)
    \<and> fo_execution (sr_outcome (send_buffered lib cfg answer)) \<noteq> Replay"
proof -
  from send_from_stops [of 0 cfg answer lib] obtain n where n: "n \<le> sc_retries cfg"
    "\<forall>k < n. \<exists>timeout. answer k = SendFailed True timeout"
    "case answer n of
         Answered resp \<Rightarrow> send_from lib cfg answer 0 = answered_outcome lib cfg n resp
       | SendFailed is_connect timeout \<Rightarrow> fo_execution (sr_outcome (send_from lib cfg answer 0))
           = (if is_connect then NotExecuted else Uncertain)
           \<and> sr_uncertain (send_from lib cfg answer 0) = (\<not> is_connect)
           \<and> fo_status (sr_outcome (send_from lib cfg answer 0)) = (if timeout then 504 else 502)
           \<and> (is_connect \<longrightarrow> sc_retries cfg \<le> n)
       | HeadersTimedOut \<Rightarrow> fo_execution (sr_outcome (send_from lib cfg answer 0)) = Uncertain
           \<and> fo_status (sr_outcome (send_from lib cfg answer 0)) = 504
           \<and> sr_uncertain (send_from lib cfg answer 0)" by auto
  then show ?thesis
    unfolding send_buffered_def by (intro exI [of _ n]) (cases "answer n", auto split: if_splits)
qed

section \<open>Gates\<close>

lemma pair_admitted:
  assumes "book_admit_pair m (k1, c1) (k2, c2) now ctr = Some (Inr (r1, r2, m', ctr'))"
  shows "admitted (book_readiness m k1 c1 now) \<and> admitted (book_readiness m k2 c2 now)"
  using assms by (auto simp: book_admit_pair_def Let_def split: if_splits option.splits)

text \<open>
  Nothing is sent through a closed gate: with the breakers on, a claim means that the provider, and the
  origin of the address where it has one, would both admit the request at that moment. A request that is
  refused leaves the gates of a pair as they were.
\<close>

theorem claim_means_admitted:
  assumes "claim_send lib provider_id url now g = Some (claim, g')" "g_enabled g" "connection_key lib url = Some connection"
  shows "(claim \<noteq> None \<longrightarrow> admitted (book_readiness (g_book g) (ProviderKey provider_id) (credential_class_of lib url) now)
      \<and> admitted (book_readiness (g_book g) connection (credential_class_of lib url) now))
    \<and> (\<not> admitted (book_readiness (g_book g) (ProviderKey provider_id) (credential_class_of lib url) now)
       \<or> \<not> admitted (book_readiness (g_book g) connection (credential_class_of lib url) now) \<longrightarrow> claim = None \<and> g' = g)"
proof -
  have ne: "ProviderKey provider_id \<noteq> connection"
    using assms(3) by (cases connection) (auto simp: connection_key_def Option.bind_eq_Some_conv split: if_splits)
  let ?m = "g_book g" and ?c = "credential_class_of lib url"
  show ?thesis
  proof (cases "admitted (book_readiness ?m (ProviderKey provider_id) ?c now) \<and> admitted (book_readiness ?m connection ?c now)")
    case False
    then have "\<exists>r. book_admit_pair ?m (ProviderKey provider_id, ?c) (connection, ?c) now (g_ctr g) = Some (Inl r)"
      using ne by (auto simp: book_admit_pair_def Let_def)
    with assms False show ?thesis by (auto simp: claim_send_def Let_def)
  qed simp
qed

text \<open>A card is masked only when a gate of its own would reject it, and never when the breakers are off.\<close>

lemma blocked_cards_length [simp]: "length (blocked_cards lib g now cs) = length cs"
  by (simp add: blocked_cards_def)

lemma unmask_length [simp]: "length (unmask_idempotent_bindings present tenant request path cs blocked) = length blocked"
  by (auto simp: unmask_idempotent_bindings_def split: option.split)

section \<open>What leaves the machine\<close>

text \<open>
  C29. To an address off the machine a body goes without the fields that identify the caller, and is counted;
  to a loopback address it goes as it is, uncounted.
\<close>

theorem wire_is_decorrelated:
  assumes "outbound lib url (JObj m) e = (wire, e')"
  shows "if is_loopback_url lib url then wire = JObj m \<and> e' = e
    else (\<exists>m'. wire = JObj m' \<and> set (map fst m') \<inter> set IDENTITY_FIELDS = {}
      \<and> (\<forall>messages message fields'. (''messages'', JArr messages) \<in> set m' \<and> message \<in> set messages \<and> message = JObj fields'
           \<longrightarrow> ''name'' \<notin> fst ` set fields'))
      \<and> eg_requests e' = eg_requests e + 1 \<and> eg_bytes e' = eg_bytes e + of_nat (json_bytes lib wire)"
proof (cases "is_loopback_url lib url")
  case True
  with assms show ?thesis by (simp add: outbound_def count_egress_def)
next
  case False
  let ?m = "map unnamed_messages (without_keys IDENTITY_FIELDS m)"
  have fst_same: "fst (unnamed_messages kv) = fst kv" for kv by (cases kv rule: unnamed_messages.cases) auto
  have gone: "set (map fst ?m) \<inter> set IDENTITY_FIELDS = {}"
    by (auto simp: without_keys_def fst_same)
  have unnamed: "''name'' \<notin> fst ` set fields'"
    if "(''messages'', JArr messages) \<in> set ?m" "JObj fields' \<in> set messages" for messages fields'
  proof -
    from that(1) obtain kv where "(''messages'', JArr messages) = unnamed_messages kv" by auto
    then obtain ms where "messages = map unnamed ms" by (cases kv rule: unnamed_messages.cases) auto
    with that(2) obtain v where "JObj fields' = unnamed v" by auto
    then show ?thesis by (cases v) (auto simp: without_keys_def)
  qed
  from assms False have "wire = JObj ?m" "eg_requests e' = eg_requests e + 1" "eg_bytes e' = eg_bytes e + of_nat (json_bytes lib wire)"
    by (auto simp: outbound_def count_egress_def Let_def)
  with gone unnamed show ?thesis unfolding if_not_P [OF False] by blast
qed

text \<open>A body with a user and a named message, to an address that is no loopback.\<close>

theorem wire_is_decorrelated_witness:
  "let lib = \<lparr>parse_url = (\<lambda>_. None), loopback_ip = (\<lambda>_. False), digest_json = (\<lambda>_ _ _. None), json_bytes = (\<lambda>_. 7),
       read_json = (\<lambda>_. None)\<rparr>;
     body = [(''messages'', JArr [JObj [(''name'', JStr ''ann'')]]), (''user'', JStr ''u'')]
   in \<exists>m'. fst (outbound lib ''x'' (JObj body) \<lparr>eg_requests = 0, eg_bytes = 0\<rparr>) = JObj m'
     \<and> (\<forall>v. (''user'', v) \<notin> set m')"
proof -
  define lib :: proxy_lib where "lib = \<lparr>parse_url = (\<lambda>_. None), loopback_ip = (\<lambda>_. False), digest_json = (\<lambda>_ _ _. None),
       json_bytes = (\<lambda>_. 7), read_json = (\<lambda>_. None)\<rparr>"
  have off: "\<not> is_loopback_url lib ''x''" by (simp add: lib_def is_loopback_url_def)
  define sent where "sent = outbound lib ''x'' (JObj [(''messages'', JArr [JObj [(''name'', JStr ''ann'')]]), (''user'', JStr ''u'')])
       \<lparr>eg_requests = 0, eg_bytes = 0\<rparr>"
  have "outbound lib ''x'' (JObj [(''messages'', JArr [JObj [(''name'', JStr ''ann'')]]), (''user'', JStr ''u'')])
       \<lparr>eg_requests = 0, eg_bytes = 0\<rparr> = (fst sent, snd sent)" by (simp add: sent_def)
  from wire_is_decorrelated [OF this] off
  have "\<exists>m'. fst sent = JObj m' \<and> set (map fst m') \<inter> set IDENTITY_FIELDS = {}" by auto
  then show ?thesis unfolding Let_def lib_def [symmetric] sent_def [symmetric]
    by (force simp: IDENTITY_FIELDS_def)
qed

section \<open>The cache\<close>

lemma evict_oldest_suffix: "suffix (evict_oldest cfg bytes cache) cache"
  by (induction cfg bytes cache rule: evict_oldest.induct) (auto intro: suffix_ConsI)

lemma prune_suffix: "suffix (prune cfg now cache) cache"
  unfolding prune_def Let_def using evict_oldest_suffix suffix_dropWhile by (rule suffix_order.trans)

lemma evict_oldest_length: "length (evict_oldest cfg bytes cache) \<le> cc_max_entries cfg"
  by (induction cfg bytes cache rule: evict_oldest.induct) auto

definition cache_ok :: "cache_config \<Rightarrow> cache \<Rightarrow> bool" where
  "cache_ok cfg cache \<longleftrightarrow> distinct (map fst cache) \<and> length cache \<le> cc_max_entries cfg"

text \<open>The cache never holds two entries of one key, nor more than its share of entries.\<close>

theorem cache_bounded:
  assumes "distinct (map fst cache)"
  shows "cache_ok cfg (remember cfg now key entry cache)
    \<and> set (remember cfg now key entry cache) \<subseteq> insert (key, entry) (set cache)"
proof -
  let ?others = "filter (\<lambda>(k, _). k \<noteq> key) cache"
  define new where "new = (if entry_bytes cfg (key, entry) \<le> cc_max_cache_bytes cfg then ?others @ [(key, entry)] else ?others)"
  have r: "remember cfg now key entry cache = prune cfg now new" by (simp add: remember_def new_def Let_def)
  have "distinct (map fst ?others)" using assms by (rule distinct_map_filter)
  then have d: "distinct (map fst new)" by (auto simp: new_def)
  obtain gone where g: "new = gone @ prune cfg now new" using prune_suffix by (meson suffixE)
  have "distinct (map fst (gone @ prune cfg now new))" using d g by metis
  then have "distinct (map fst (prune cfg now new))" by simp
  moreover have "length (prune cfg now new) \<le> cc_max_entries cfg"
    by (simp add: prune_def Let_def evict_oldest_length)
  moreover have "set (prune cfg now new) \<subseteq> set new" by (subst (2) g) simp
  then have "set (prune cfg now new) \<subseteq> insert (key, entry) (set cache)" by (auto simp: new_def split: if_splits)
  ultimately show ?thesis by (simp add: r cache_ok_def)
qed

text \<open>
  A replay is of the very request: the entry is of the same key and digest, was made less than a window
  ago, and a \<open>local_only\<close> request is never answered from one that was served off the machine.
\<close>

lemma replay_sound:
  assumes "lookup_cached cfg now key fp opts cache = Some outcome" "fo_cached outcome"
  shows "\<exists>entry. (key, entry) \<in> set cache \<and> ce_fingerprint entry = fp \<and> now < ce_at entry + int (cc_window cfg)
    \<and> fo_body outcome = ce_body entry \<and> fo_origin outcome = Some (ce_record entry)
    \<and> fo_locality outcome = Some (ce_locality entry) \<and> fo_execution outcome = Replay
    \<and> (op_privacy opts = LocalOnly \<longrightarrow> ce_locality entry = Loopback)"
  using assms
  by (auto simp: lookup_cached_def flight_failure_def flight_failure_with_execution_def failed_outcome_def
      dest!: map_of_SomeD split: option.splits if_splits)

text \<open>No request reads another tenant's entries: a key names its tenant, address, provider and identifier.\<close>

lemma split_at_zero:
  assumes "a @ CHR 0x00 # r = a' @ CHR 0x00 # r'" "CHR 0x00 \<notin> set a" "CHR 0x00 \<notin> set a'"
  shows "a = a' \<and> r = r'"
  using assms
proof (induction a arbitrary: a')
  case Nil
  then show ?case by (cases a') auto
next
  case (Cons x a)
  then show ?case by (cases a') auto
qed

lemma cache_key_inj:
  assumes "cache_key s e p i = cache_key s' e' p' i'"
    and "CHR 0x00 \<notin> set s \<union> set e \<union> set p" "CHR 0x00 \<notin> set s' \<union> set e' \<union> set p'"
  shows "s = s' \<and> e = e' \<and> p = p' \<and> i = i'"
  using assms unfolding cache_key_def by (metis Un_iff split_at_zero)

end
