(* ===== verification/Native_Request.thy ===== *)
theory Native_Request
  imports Selection
begin

text \<open>
  What a request for a supervised model may say (\<^verbatim>\<open>crates/idoris-router/src/supervisor_parameters.rs\<close>
  and \<^verbatim>\<open>supervisor_stream.rs\<close>): it is checked before any reservation or lifecycle step, and the
  part that is handed on.
\<close>

section \<open>Streaming\<close>

definition stream_validate :: "json_map \<Rightarrow> string + unit" where
  "stream_validate object =
     (case map_of object ''stream'' of
        None \<Rightarrow> Inr ()
      | Some (JBool False) \<Rightarrow> Inr ()
      | Some (JBool True) \<Rightarrow>
          Inl ''stream=true is unsupported for on_demand/Supervisor models; retry with stream=false''
      | Some _ \<Rightarrow> Inl ''stream must be a boolean; on_demand/Supervisor models support only stream=false'')"

section \<open>Parameters\<close>

definition nonempty_str :: "json option \<Rightarrow> bool" where
  "nonempty_str v \<longleftrightarrow> (\<exists>s \<in> set_option (Option.bind v as_str). s \<noteq> [])"

definition is_string_value :: "json option \<Rightarrow> bool" where
  "is_string_value v \<longleftrightarrow> Option.bind v as_str \<noteq> None"

definition is_object_value :: "json \<Rightarrow> bool" where
  "is_object_value v \<longleftrightarrow> as_object v \<noteq> None"

definition type_is :: "json \<Rightarrow> string \<Rightarrow> bool" where
  "type_is v name \<longleftrightarrow> Option.bind (value_get v ''type'') as_str = Some name"

definition pointer2 :: "json \<Rightarrow> string \<Rightarrow> string \<Rightarrow> json option" where
  "pointer2 v a b = Option.bind (value_get v a) (\<lambda>w. value_get w b)"

definition valid_tool :: "json \<Rightarrow> bool" where
  "valid_tool tool \<longleftrightarrow> type_is tool ''function''
     \<and> (\<exists>function \<in> set_option (value_get tool ''function'').
          nonempty_str (value_get function ''name'')
          \<and> (\<forall>parameters \<in> set_option (value_get function ''parameters''). is_object_value parameters))"

definition valid_call :: "json \<Rightarrow> bool" where
  "valid_call call \<longleftrightarrow> is_string_value (value_get call ''id'') \<and> type_is call ''function''
     \<and> is_string_value (pointer2 call ''function'' ''name'') \<and> is_string_value (pointer2 call ''function'' ''arguments'')"

definition MESSAGE_FIELDS :: "string list" where
  "MESSAGE_FIELDS = [''role'', ''content'', ''name'', ''tool_calls'', ''tool_call_id'']"

definition valid_message :: "json \<Rightarrow> bool" where
  "valid_message message =
     (case as_object message of
        None \<Rightarrow> False
      | Some m \<Rightarrow>
          let role = Option.bind (map_of m ''role'') as_str; calls = map_of m ''tool_calls'' in
          if \<not> list_all (\<lambda>(key, _). List.member MESSAGE_FIELDS key) m then False
          else if (\<exists>name \<in> set_option (map_of m ''name''). as_str name = None) then False
          else if (\<exists>v \<in> set_option calls. role \<noteq> Some ''assistant''
              \<or> \<not> (\<exists>cs \<in> set_option (as_array v). cs \<noteq> [] \<and> list_all valid_call cs)) then False
          else if role = Some ''tool'' \<and> \<not> is_string_value (map_of m ''tool_call_id'') then False
          else if role \<noteq> Some ''tool'' \<and> map_of m ''tool_call_id'' \<noteq> None then False
          else role \<noteq> None
            \<and> (is_string_value (map_of m ''content'')
               \<or> calls \<noteq> None \<and> (map_of m ''content'' = None \<or> map_of m ''content'' = Some JNull)))"

definition valid_format :: "json \<Rightarrow> bool" where
  "valid_format format \<longleftrightarrow> is_object_value format
     \<and> (type_is format ''text'' \<or> type_is format ''json_object''
        \<or> type_is format ''json_schema'' \<and> (\<exists>s \<in> set_option (value_get format ''json_schema''). is_object_value s))"

definition valid_choice :: "json \<Rightarrow> bool" where
  "valid_choice choice \<longleftrightarrow> as_str choice \<in> {Some ''auto'', Some ''none'', Some ''required''}
     \<or> type_is choice ''function'' \<and> nonempty_str (pointer2 choice ''function'' ''name'')"

text \<open>\<open>None\<close>: the field is not one the supervisor knows.\<close>

definition field_valid :: "string \<Rightarrow> json \<Rightarrow> bool option" where
  "field_valid field v =
     (if field = ''model'' \<or> field = ''messages'' \<or> field = ''stream'' then Some True
      else if field = ''max_tokens'' then Some (\<exists>n \<in> set_option (as_u64 v). 0 < n)
      else if field = ''tools'' then Some (\<exists>tools \<in> set_option (as_array v). list_all valid_tool tools)
      else if field = ''response_format'' then Some (valid_format v)
      else if field = ''tool_choice'' then Some (valid_choice v)
      else if field = ''parallel_tool_calls'' then Some (is_boolean v)
      else if field = ''chat_template_kwargs''
        then Some (is_object_value v \<and> (\<forall>t \<in> set_option (value_get v ''enable_thinking''). is_boolean t))
      else if field = ''disable_thinking'' then Some (is_boolean v)
      else None)"

fun validate_fields :: "json_map \<Rightarrow> string + unit" where
  "validate_fields [] = Inr ()"
| "validate_fields ((field, v) # m) =
     (case field_valid field v of
        None \<Rightarrow> Inl (''Supervisor does not support '' @ field @ ''; remove it or use a backend that supports it'')
      | Some False \<Rightarrow> Inl (''Supervisor received invalid '' @ field)
      | Some True \<Rightarrow> validate_fields m)"

definition parameters_validate :: "json_map \<Rightarrow> string + unit" where
  "parameters_validate object =
     bind_result (validate_fields object) (\<lambda>_.
       case map_of object ''messages'' of
         None \<Rightarrow> Inr ()
       | Some messages \<Rightarrow>
           (case as_array messages of
              None \<Rightarrow> Inl ''Supervisor requires messages to be an array''
            | Some items \<Rightarrow>
                if list_all valid_message items then Inr ()
                else Inl ''Supervisor requires text or tool messages with supported fields''))"

record native_request =
  nr_messages :: "json list"
  nr_parameters :: json_map

definition native_payload :: "json_map \<Rightarrow> native_request" where
  "native_payload object =
     \<lparr>nr_messages = (case Option.bind (map_of object ''messages'') as_array of None \<Rightarrow> [] | Some ms \<Rightarrow> ms),
      nr_parameters = filter (\<lambda>(key, _). key \<noteq> ''model'' \<and> key \<noteq> ''messages'') object\<rparr>"

section \<open>What goes upstream\<close>

text \<open>Assigning by index to a body that is no object and not null is the panic \<open>None\<close>; the caller has an object.\<close>

definition bound_http_body :: "parsed_profile \<Rightarrow> json \<Rightarrow> component_card \<Rightarrow> (dispatch_error + json) option" where
  "bound_http_body parsed body c =
     (if pp_role parsed = None then Some (Inr body)
      else case backend_model_id parsed (Option.bind (value_get body ''model'') as_str) c of
          Inl e \<Rightarrow> Some (Inl e)
        | Inr target \<Rightarrow> map_option (\<lambda>m. Inr (JObj (bt_insert ''model'' (JStr target) m))) (as_object body))"

section \<open>Properties\<close>

lemma validate_fields_ok: "validate_fields m = Inr () \<longleftrightarrow> list_all (\<lambda>(field, v). field_valid field v = Some True) m"
  by (induction m rule: validate_fields.induct) (auto split: option.split bool.split)

text \<open>
  What reaches a supervisor has been checked whole: every field is one it knows and holds a value it accepts,
  streaming is off, and the payload is the request without its model, losing no parameter and no message.
\<close>

theorem native_request_checked:
  assumes "stream_validate object = Inr ()" "parameters_validate object = Inr ()" "map_of object ''messages'' = Some messages"
  shows "list_all (\<lambda>(field, v). field_valid field v = Some True) object
    \<and> (map_of object ''stream'' = None \<or> map_of object ''stream'' = Some (JBool False))
    \<and> messages = JArr (nr_messages (native_payload object)) \<and> list_all valid_message (nr_messages (native_payload object))
    \<and> (\<forall>key. map_of (nr_parameters (native_payload object)) key
         = (if key = ''model'' \<or> key = ''messages'' then None else map_of object key))"
proof -
  have "map_of object ''stream'' = None \<or> map_of object ''stream'' = Some (JBool False)"
    using assms(1) by (auto simp: stream_validate_def split: option.splits json.splits bool.splits)
  moreover from assms(2,3) have "list_all (\<lambda>(field, v). field_valid field v = Some True) object"
    "\<exists>items. messages = JArr items \<and> list_all valid_message items"
    by (auto simp: parameters_validate_def result_simps validate_fields_ok split: option.splits if_splits)
      (cases messages; auto)
  moreover have "map_of (filter (\<lambda>(key, _). key \<noteq> ''model'' \<and> key \<noteq> ''messages'') object) key
      = (if key = ''model'' \<or> key = ''messages'' then None else map_of object key)" for key
    by (induction object) auto
  ultimately show ?thesis using assms(3) by (auto simp: native_payload_def)
qed

theorem native_request_checked_witness:
  "nr_parameters (native_payload [(''messages'', JArr []), (''model'', JStr ''m''), (''stream'', JBool False)])
     = [(''stream'', JBool False)]
   \<and> list_all valid_message (nr_messages (native_payload [(''messages'', JArr []), (''model'', JStr ''m''), (''stream'', JBool False)]))"
proof -
  let ?o = "[(''messages'', JArr []), (''model'', JStr ''m''), (''stream'', JBool False)]"
  have "stream_validate ?o = Inr ()" "parameters_validate ?o = Inr ()" "map_of ?o ''messages'' = Some (JArr [])"
    by (simp_all add: stream_validate_def parameters_validate_def field_valid_def result_simps)
  from native_request_checked [OF this] show ?thesis by (simp add: native_payload_def)
qed

end
