(* ===== verification/Request.thy ===== *)
theory Request
  imports Auth Request_Events Intent Proxy Native_Request
begin

text \<open>
  \<^verbatim>\<open>POST /v1/chat/completions\<close> up to its dispatch (\<^verbatim>\<open>crates/idoris-router/src/lib.rs\<close>,
  \<open>chat_completions\<close>, with \<^verbatim>\<open>correlation.rs\<close>): the checks in their order, the facts that are
  logged on the way, and where the selected card is served. What the handler reads from elsewhere (the parsed
  body, the headers as text, the clock, fresh identifiers, the runtimes that are ready) is in \<open>surroundings\<close>.
\<close>

section \<open>Correlation\<close>

datatype correlation_error = SessionHeader | TraceHeader | ParentHeader

definition correlation_reason_code :: "correlation_error \<Rightarrow> string" where
  "correlation_reason_code e = (case e of
      SessionHeader \<Rightarrow> ''INVALID_CORRELATION_SESSION''
    | TraceHeader \<Rightarrow> ''INVALID_CORRELATION_TRACE_ID''
    | ParentHeader \<Rightarrow> ''INVALID_CORRELATION_PARENT_ID'')"

text \<open>\<open>to_utf8\<close> reads the bytes of a header as UTF-8.\<close>

definition correlation_one ::
    "('v \<Rightarrow> string option) \<Rightarrow> 'v header_map \<Rightarrow> string \<Rightarrow> correlation_error \<Rightarrow> correlation_error + string option" where
  "correlation_one to_utf8 headers name e =
     (case get_all headers name of
        [] \<Rightarrow> Inr None
      | first # rest \<Rightarrow>
          if rest \<noteq> [] then Inl e
          else case to_utf8 first of
              None \<Rightarrow> Inl e
            | Some raw \<Rightarrow> if event_identifier_valid raw then Inr (Some raw) else Inl e)"

definition correlation_parse :: "('v \<Rightarrow> string option) \<Rightarrow> 'v header_map \<Rightarrow> correlation_error + correlation_ids" where
  "correlation_parse to_utf8 headers =
     bind_result (correlation_one to_utf8 headers ''x-idoris-session'' SessionHeader) (\<lambda>session.
     bind_result (correlation_one to_utf8 headers ''x-idoris-trace-id'' TraceHeader) (\<lambda>trace.
     bind_result (correlation_one to_utf8 headers ''x-idoris-parent-id'' ParentHeader) (\<lambda>parent.
     Inr \<lparr>cor_session = session, cor_trace = trace, cor_parent = parent\<rparr>)))"

section \<open>Headers and messages\<close>

definition header_text :: "('v \<Rightarrow> string option) \<Rightarrow> 'v header_map \<Rightarrow> string \<Rightarrow> string option" where
  "header_text to_str headers name =
     (case get_all headers name of
        [] \<Rightarrow> None
      | first # _ \<Rightarrow> Option.bind (to_str first) (\<lambda>v. if str_trim v = [] then None else Some (str_trim v)))"

definition session_affinity_key :: "('v \<Rightarrow> string option) \<Rightarrow> 'v header_map \<Rightarrow> string option" where
  "session_affinity_key to_str headers = header_text to_str headers ''x-idoris-session''"

definition event_request_id :: "string option \<Rightarrow> string \<Rightarrow> string" where
  "event_request_id request record_id =
     (case request of
        Some v \<Rightarrow> if utf16_len v \<le> 128 \<and> \<not> list_ex Json.is_control (chars v) then v else record_id
      | None \<Rightarrow> record_id)"

definition extract_message :: "json \<Rightarrow> (string \<times> string) option" where
  "extract_message item =
     Option.bind (Option.bind (value_get item ''role'') as_str) (\<lambda>role.
     map_option (Pair role) (Option.bind (value_get item ''content'') as_str))"

definition extract_messages :: "json_map \<Rightarrow> (string \<times> string) list" where
  "extract_messages object =
     (case Option.bind (map_of object ''messages'') as_array of
        None \<Rightarrow> []
      | Some raw \<Rightarrow> List.map_filter extract_message raw)"

fun join_lines :: "string list \<Rightarrow> string" where
  "join_lines [] = []"
| "join_lines [l] = l"
| "join_lines (l # ls) = l @ CHR 0x0A # join_lines ls"

definition chat_prompt :: "(string \<times> string) list \<Rightarrow> string" where
  "chat_prompt messages = join_lines (map snd messages)"

definition headroom_breach_confirmed :: "('v \<Rightarrow> nat list) \<Rightarrow> 'v header_map \<Rightarrow> bool" where
  "headroom_breach_confirmed bytes headers =
     (case get_all headers ''x-idoris-headroom-breach'' of
        [v] \<Rightarrow> eq_ignore_ascii_case (bytes v) (ascii ''confirmed'')
      | _ \<Rightarrow> False)"

section \<open>Refusals\<close>

datatype refusal =
    InvalidJson | InvalidBody
  | RefusedProfile profile_error
  | RefusedCorrelation correlation_error
  | DevNoKeyScope | KeyUnauthorized
  | KeyScope virtual_key_scope_error
  | CompletionCount | CompletionCap string
  | LogUnavailable
  | RouteRejected rejection
  | NoPolicyCandidate
  | InternalFailure string
  | UnsupportedModel selected
  | UnsupportedStream selected string
  | UnsupportedParameter selected string

text \<open>Status, type and reason code of the error envelope.\<close>

definition envelope :: "refusal \<Rightarrow> nat \<times> string \<times> string" where
  "envelope r = (case r of
      InvalidJson \<Rightarrow> (400, ''invalid_json'', ''invalid_json'')
    | InvalidBody \<Rightarrow> (400, ''invalid_body'', ''invalid_body'')
    | RefusedProfile e \<Rightarrow> (pe_status e, pe_type e, pe_type e)
    | RefusedCorrelation e \<Rightarrow> (400, ''invalid_correlation_header'', correlation_reason_code e)
    | DevNoKeyScope \<Rightarrow> (403, ''policy_violation'', ''DEV_NO_KEY_SCOPE_FORBIDDEN'')
    | KeyUnauthorized \<Rightarrow> (401, ''unauthorized'', ''VIRTUAL_KEY_UNAUTHORIZED'')
    | KeyScope e \<Rightarrow> (403, ''policy_violation'', reason_code e)
    | CompletionCount \<Rightarrow> (400, ''unsupported_completion_count'', ''unsupported_completion_count'')
    | CompletionCap _ \<Rightarrow> (400, ''invalid_completion_cap'', ''invalid_completion_cap'')
    | LogUnavailable \<Rightarrow> (503, ''event_log_unavailable'', ''EVENT_LOG_APPEND_UNAVAILABLE'')
    | RouteRejected j \<Rightarrow> (http_status j, error_type j, error_type j)
    | NoPolicyCandidate \<Rightarrow> (503, ''no_candidate'', ''no_candidate'')
    | InternalFailure _ \<Rightarrow> (500, ''internal_error'', ''internal_error'')
    | UnsupportedModel _ \<Rightarrow> (400, ''unsupported_field'', ''unsupported_model'')
    | UnsupportedStream _ _ \<Rightarrow> (400, ''unsupported_field'', ''unsupported_stream'')
    | UnsupportedParameter _ _ \<Rightarrow> (400, ''unsupported_field'', ''unsupported_parameter''))"

definition refusal_of_dispatch :: "dispatch_error \<Rightarrow> refusal" where
  "refusal_of_dispatch e = (case e of DispatchRejection j \<Rightarrow> RouteRejected j | DispatchInternal m \<Rightarrow> InternalFailure m)"

section \<open>State and surroundings\<close>

record router_state =
  rs_mode :: deploy_mode
  rs_dev_no_key :: bool
  rs_authenticator :: "key_store option option"
  rs_kill_switch :: bool
  rs_cards :: "component_card list"
  rs_policy :: routing_policy
  rs_gates :: gate_state
  rs_cache :: cache
  rs_flights :: "string list"
  rs_log :: "event_log option"

record 'v surroundings =
  su_headers :: "'v header_map"
  su_to_str :: "'v \<Rightarrow> string option"
  su_to_utf8 :: "'v \<Rightarrow> string option"
  su_body :: "json option"
  su_raw_len :: nat
  su_record :: string
  su_key_lib :: key_lib
  su_sha :: "string \<Rightarrow> key_hash"
  su_lookup_clock :: "int option"
  su_decision_clock :: "int option"
  su_event_lib :: event_lib
  su_mark :: "event_type \<Rightarrow> string \<times> int option"
  su_log_fn :: "f64 \<Rightarrow> f64"
  su_number_text :: "jnum \<Rightarrow> ustr"
  su_joined :: bool
  su_detector :: "chat_message list \<Rightarrow> string + intent_hit option"
  su_ready :: "(string \<times> string) list \<Rightarrow> string set"
  su_proxy_lib :: proxy_lib
  su_cache_config :: cache_config
  su_now :: int
  su_gate_now :: u64

section \<open>Admission\<close>

record admitted =
  ad_object :: json_map
  ad_model :: "string option"
  ad_parsed :: parsed_profile
  ad_correlation :: correlation_ids
  ad_dev_no_key :: bool
  ad_completion :: u64

definition declared_privacy :: "parsed_profile \<Rightarrow> privacy_class" where
  "declared_privacy parsed = (case tp_privacy (pp_task parsed) of None \<Rightarrow> LocalOnly | Some p \<Rightarrow> p)"

definition check_key :: "router_state \<Rightarrow> 'v surroundings \<Rightarrow> parsed_profile \<Rightarrow> refusal + bool" where
  "check_key st su parsed =
     (let present = (get_all (su_headers su) ''authorization'' \<noteq> []);
          dev = (rs_dev_no_key st \<and> \<not> present)
      in if dev then (if declared_privacy parsed \<noteq> LocalOnly then Inl DevNoKeyScope else Inr True)
         else case rs_authenticator st of
             Some store \<Rightarrow>
               (case authenticate_request (su_to_str su) (su_key_lib su) (su_sha su) store (su_lookup_clock su)
                       (su_decision_clock su) (su_headers su) of
                  Inl _ \<Rightarrow> Inl KeyUnauthorized
                | Inr identity \<Rightarrow> map_sum KeyScope (\<lambda>_. False) (enforce_scope identity parsed))
           | None \<Rightarrow> if rs_dev_no_key st \<and> present then Inl KeyUnauthorized else Inr False)"

definition admit_request :: "router_state \<Rightarrow> 'v surroundings \<Rightarrow> refusal + admitted" where
  "admit_request st su =
     bind_result (ok_or InvalidJson (su_body su)) (\<lambda>body.
     bind_result (ok_or InvalidBody (as_object body)) (\<lambda>object.
     let model = Option.bind (map_of object ''model'') as_str in
     bind_result (map_sum RefusedProfile id (parse_profile (su_to_str su) (su_headers su) model (rs_mode st))) (\<lambda>parsed.
     bind_result (map_sum RefusedCorrelation id (correlation_parse (su_to_utf8 su) (su_headers su))) (\<lambda>correlation.
     bind_result (check_key st su parsed) (\<lambda>dev.
     bind_result (map_sum (\<lambda>field. if field = ''n'' then CompletionCount else CompletionCap field) id
         (completion_reservation_tokens body)) (\<lambda>completion.
     Inr \<lparr>ad_object = object, ad_model = model, ad_parsed = parsed, ad_correlation = correlation,
          ad_dev_no_key = dev, ad_completion = completion\<rparr>))))))"

section \<open>Facts\<close>

text \<open>A fact is appended when there is a log; a failed append refuses the request.\<close>

definition PERSONAL_TENANT_ID :: string where
  "PERSONAL_TENANT_ID = ''personal''"

definition log_context :: "router_state \<Rightarrow> 'v surroundings \<Rightarrow> admitted \<Rightarrow> event_ctx option" where
  "log_context st su ad =
     (let tenant = (case rs_mode st of PersonalMode \<Rightarrow> Some PERSONAL_TENANT_ID | TenantMode \<Rightarrow> pp_tenant (ad_parsed ad))
      in map_option (\<lambda>t. \<lparr>ec_tenant = t, ec_record = su_record su, ec_correlation = ad_correlation ad\<rparr>) tenant)"

type_synonym logged = "event_log option"

definition with_fact :: "event_ctx option \<Rightarrow> (event_ctx \<Rightarrow> event_log \<Rightarrow> bool \<times> event_log) \<Rightarrow> logged \<Rightarrow> bool \<times> logged" where
  "with_fact ctx put L =
     (case L of
        None \<Rightarrow> (True, None)
      | Some l \<Rightarrow>
          (case ctx of
             None \<Rightarrow> (False, L)
           | Some c \<Rightarrow> (let (ok, l') = put c l in (ok, Some l'))))"

section \<open>The route\<close>

definition inspected_profile :: "inspection \<Rightarrow> parsed_profile \<Rightarrow> parsed_profile" where
  "inspected_profile i parsed = parsed\<lparr>pp_task := (pp_task parsed)\<lparr>tp_privacy := Some (i_effective i)\<rparr>\<rparr>"

definition chat_context :: "(string \<times> string) list \<Rightarrow> chat_message list" where
  "chat_context messages = map (\<lambda>(role, content). \<lparr>msg_role = chars role, msg_content = chars content\<rparr>) messages"

definition targets :: "parsed_profile \<Rightarrow> string option \<Rightarrow> component_card list \<Rightarrow> (string \<times> string) list" where
  "targets parsed model cs =
     List.map_filter (\<lambda>c. case backend_model_id parsed model c of Inr target \<Rightarrow> Some (p_id (c_provider c), target) | Inl _ \<Rightarrow> None) cs"

definition snapshot_blocked :: "router_state \<Rightarrow> 'v surroundings \<Rightarrow> parsed_profile \<Rightarrow> component_card list \<Rightarrow> bool list" where
  "snapshot_blocked st su parsed cs =
     unmask_idempotent_bindings (idempotent_key_present (su_cache_config su) (su_now su) (rs_cache st) (rs_flights st))
       (pp_tenant parsed)
       (case get_all (su_headers su) ''x-idoris-request-id'' of [] \<Rightarrow> None | first # _ \<Rightarrow> su_to_str su first)
       ''/v1/chat/completions'' cs (blocked_cards (su_proxy_lib su) (rs_gates st) (su_gate_now su) cs)"

definition inspect_request :: "router_state \<Rightarrow> 'v surroundings \<Rightarrow> admitted \<Rightarrow> inspection" where
  "inspect_request st su ad =
     inspect_body_on_request_path (su_log_fn su) (su_number_text su) (su_joined su) (JObj (ad_object ad)) (su_raw_len su)
       (declared_privacy (ad_parsed ad)) (rs_kill_switch st)"

definition resolved_profile :: "'v surroundings \<Rightarrow> admitted \<Rightarrow> inspection \<Rightarrow> parsed_profile" where
  "resolved_profile su ad i =
     resolve_profile (su_detector su) (inspected_profile i (ad_parsed ad)) (chat_context (extract_messages (ad_object ad)))"

definition rejection_name :: "dispatch_error + selected \<Rightarrow> string option" where
  "rejection_name s = (case s of
      Inr _ \<Rightarrow> None
    | Inl (DispatchRejection j) \<Rightarrow> Some (error_type j)
    | Inl (DispatchInternal _) \<Rightarrow> Some ''internal_error'')"

definition select_request ::
    "router_state \<Rightarrow> 'v surroundings \<Rightarrow> admitted \<Rightarrow> inspection \<Rightarrow> parsed_profile \<Rightarrow> component_card list
     \<Rightarrow> (dispatch_error + selected) option" where
  "select_request st su ad i parsed cs =
     (let affinity = session_affinity_key (su_to_str su) (su_headers su);
          ready = (if affinity \<noteq> None then su_ready su (targets parsed (ad_model ad) cs) else {})
      in select_with_gate_fallback cs parsed (chat_prompt (extract_messages (ad_object ad))) affinity ready
           (snapshot_blocked st su parsed cs) (ad_completion ad) (i_tightened i \<and> \<not> i_killed i))"

text \<open>Where the selected card is served.\<close>

datatype target = ToSubscription | ToProxy json | ToSupervisor native_request

definition serve_selected :: "admitted \<Rightarrow> parsed_profile \<Rightarrow> selected \<Rightarrow> (refusal + target) option" where
  "serve_selected ad parsed s =
     (let c = sel_card s in
      if ad_dev_no_key ad \<and> (sel_locality s \<noteq> Loopback \<or> \<not> f64_eq (input_per_m (p_cost (c_provider c))) f64_zero
          \<or> \<not> f64_eq (output_per_m (p_cost (c_provider c))) f64_zero) then Some (Inl DevNoKeyScope)
      else if map_of (ad_object ad) ''model'' \<noteq> None \<and> (ad_model ad = None \<or> ad_model ad = Some [])
        then Some (Inl (UnsupportedModel s))
      else if p_id (c_provider c) = SUBSCRIPTION_PROVIDER_ID then Some (Inr ToSubscription)
      else if is_resident_http_service c
        then map_option (map_sum refusal_of_dispatch ToProxy) (bound_http_body parsed (JObj (ad_object ad)) c)
      else Some (
        bind_result (map_sum (UnsupportedStream s) id (stream_validate (ad_object ad))) (\<lambda>_.
        bind_result (map_sum (UnsupportedParameter s) id (parameters_validate (ad_object ad))) (\<lambda>_.
        Inr (ToSupervisor (native_payload (ad_object ad)))))))"

record routed =
  ro_profile :: parsed_profile
  ro_inspection :: inspection
  ro_selected :: selected
  ro_target :: target

definition decide_request ::
    "router_state \<Rightarrow> 'v surroundings \<Rightarrow> admitted \<Rightarrow> event_ctx option \<Rightarrow> inspection \<Rightarrow> parsed_profile \<Rightarrow> logged
     \<Rightarrow> ((refusal + routed) \<times> logged) option" where
  "decide_request st su ad ctx i parsed L =
     (let (cs, route) = policy_cards (rs_cards st) (rs_policy st) (pp_task parsed);
          decided = (\<lambda>chosen reason. with_fact ctx (\<lambda>c. append_decided (su_event_lib su) (su_mark su Decided) c route chosen reason))
      in if cs = [] then
           (let (ok, L') = decided None (Some (if rd_fail_closed route then ''local_only_unavailable'' else ''no_candidate'')) L
            in Some (Inl (if \<not> ok then LogUnavailable
                 else if rd_fail_closed route then RouteRejected LocalOnlyUnavailable else NoPolicyCandidate), L'))
         else Option.bind (select_request st su ad i parsed cs) (\<lambda>selection.
           let (ok, L') = decided (case selection of Inr s \<Rightarrow> Some s | Inl _ \<Rightarrow> None) (rejection_name selection) L in
           if \<not> ok then Some (Inl LogUnavailable, L')
           else case selection of
               Inl e \<Rightarrow> Some (Inl (refusal_of_dispatch e), L')
             | Inr s \<Rightarrow>
                 map_option (\<lambda>r. (map_sum id (\<lambda>t. \<lparr>ro_profile = parsed, ro_inspection = i, ro_selected = s, ro_target = t\<rparr>) r, L'))
                   (serve_selected ad parsed s)))"

definition route_request :: "router_state \<Rightarrow> 'v surroundings \<Rightarrow> ((refusal + routed) \<times> logged) option" where
  "route_request st su =
     (case admit_request st su of
        Inl r \<Rightarrow> Some (Inl r, rs_log st)
      | Inr ad \<Rightarrow>
          let ctx = log_context st su ad;
              lib = su_event_lib su;
              request = event_request_id (header_text (su_to_str su) (su_headers su) ''x-idoris-request-id'') (su_record su);
              (ok1, L1) = with_fact ctx (\<lambda>c. append_request_received lib (su_mark su RequestReceived) c request) (rs_log st)
          in if \<not> ok1 then Some (Inl LogUnavailable, L1)
             else
               let i = inspect_request st su ad;
                   (ok2, L2) = with_fact ctx (\<lambda>c. append_inspection lib (su_mark su Inspected) c i) L1
               in if \<not> ok2 then Some (Inl LogUnavailable, L2)
                  else
                    let parsed = resolved_profile su ad i;
                        (ok3, L3) = with_fact ctx (\<lambda>c. append_profiled lib (su_mark su Profiled) c parsed) L2
                    in if \<not> ok3 then Some (Inl LogUnavailable, L3) else decide_request st su ad ctx i parsed L3)"

section \<open>What a routed request went through\<close>

lemma with_fact_ok:
  "with_fact ctx put L = (True, L') \<Longrightarrow>
     L = None \<and> L' = None \<or> (\<exists>l c l'. L = Some l \<and> ctx = Some c \<and> put c l = (True, l') \<and> L' = Some l')"
  by (auto simp: with_fact_def split: option.splits prod.splits)

lemma decide_requestE:
  assumes "decide_request st su ad ctx i parsed L = Some (Inr r, L')"
  obtains cs route where "policy_cards (rs_cards st) (rs_policy st) (pp_task parsed) = (cs, route)"
    "select_request st su ad i parsed cs = Some (Inr (ro_selected r))"
    "with_fact ctx (\<lambda>c. append_decided (su_event_lib su) (su_mark su Decided) c route (Some (ro_selected r)) None) L = (True, L')"
    "serve_selected ad parsed (ro_selected r) = Some (Inr (ro_target r))" "ro_profile r = parsed" "ro_inspection r = i"
proof -
  obtain cs route where pc: "policy_cards (rs_cards st) (rs_policy st) (pp_task parsed) = (cs, route)" by fastforce
  with assms have ne: "cs \<noteq> []" by (auto simp: decide_request_def split: prod.splits if_splits)
  with assms pc obtain selection where s: "select_request st su ad i parsed cs = Some selection"
    by (cases "select_request st su ad i parsed cs") (simp_all add: decide_request_def)
  define put where "put = (\<lambda>c. append_decided (su_event_lib su) (su_mark su Decided) c route
      (case selection of Inr s \<Rightarrow> Some s | Inl _ \<Rightarrow> None) (rejection_name selection))"
  obtain ok L1 where w: "with_fact ctx put L = (ok, L1)" by fastforce
  have d: "decide_request st su ad ctx i parsed L =
      (if \<not> ok then Some (Inl LogUnavailable, L1)
       else case selection of
           Inl e \<Rightarrow> Some (Inl (refusal_of_dispatch e), L1)
         | Inr s \<Rightarrow>
             map_option (\<lambda>r. (map_sum id (\<lambda>t. \<lparr>ro_profile = parsed, ro_inspection = i, ro_selected = s, ro_target = t\<rparr>) r, L1))
               (serve_selected ad parsed s))"
    using ne s w by (simp add: decide_request_def pc put_def Let_def)
  with assms obtain x where x: "selection = Inr x" "ok" by (cases selection) (auto split: if_splits)
  with d assms obtain t where t: "serve_selected ad parsed x = Some t"
    "map_sum id (\<lambda>t. \<lparr>ro_profile = parsed, ro_inspection = i, ro_selected = x, ro_target = t\<rparr>) t = Inr r" "L1 = L'"
    by (cases "serve_selected ad parsed x") auto
  then obtain u where u: "t = Inr u" "r = \<lparr>ro_profile = parsed, ro_inspection = i, ro_selected = x, ro_target = u\<rparr>"
    by (cases t) auto
  show thesis
    by (rule that [OF pc]) (use s x t u w in \<open>simp_all add: put_def rejection_name_def\<close>)
qed

lemma route_requestE:
  assumes "route_request st su = Some (Inr r, L')"
  obtains ad ctx L1 L2 L3 request where "admit_request st su = Inr ad" "ctx = log_context st su ad"
    "with_fact ctx (\<lambda>c. append_request_received (su_event_lib su) (su_mark su RequestReceived) c request) (rs_log st) = (True, L1)"
    "with_fact ctx (\<lambda>c. append_inspection (su_event_lib su) (su_mark su Inspected) c (inspect_request st su ad)) L1 = (True, L2)"
    "with_fact ctx (\<lambda>c. append_profiled (su_event_lib su) (su_mark su Profiled) c
       (resolved_profile su ad (inspect_request st su ad))) L2 = (True, L3)"
    "decide_request st su ad ctx (inspect_request st su ad) (resolved_profile su ad (inspect_request st su ad)) L3 = Some (Inr r, L')"
  using assms by (auto simp: route_request_def Let_def split: sum.splits prod.splits if_splits)

lemma admit_requestE:
  assumes "admit_request st su = Inr ad"
  obtains "su_body su = Some (JObj (ad_object ad))"
    "parse_profile (su_to_str su) (su_headers su) (ad_model ad) (rs_mode st) = Inr (ad_parsed ad)"
    "check_key st su (ad_parsed ad) = Inr (ad_dev_no_key ad)"
proof -
  from assms obtain body object parsed correlation dev completion where
    "su_body su = Some body" "as_object body = Some object"
    "map_sum RefusedProfile id (parse_profile (su_to_str su) (su_headers su)
       (Option.bind (map_of object ''model'') as_str) (rs_mode st)) = Inr parsed"
    "check_key st su parsed = Inr dev"
    and ad: "ad = \<lparr>ad_object = object, ad_model = Option.bind (map_of object ''model'') as_str, ad_parsed = parsed,
      ad_correlation = correlation, ad_dev_no_key = dev, ad_completion = completion\<rparr>"
    unfolding admit_request_def Let_def result_simps by blast
  then show thesis
    using that by (cases body; cases "parse_profile (su_to_str su) (su_headers su) (ad_model ad) (rs_mode st)") auto
qed

lemma routed_private:
  assumes "decide_request st su ad ctx (inspect_request st su ad) (resolved_profile su ad (inspect_request st su ad)) L = Some (Inr r, L')"
    and "sel_locality (ro_selected r) \<noteq> Loopback \<or> p_id (c_provider (sel_card (ro_selected r))) = SUBSCRIPTION_PROVIDER_ID"
  shows "i_effective (inspect_request st su ad) = AnyPrivacy"
proof -
  from assms(1) obtain cs where "select_request st su ad (inspect_request st su ad)
      (resolved_profile su ad (inspect_request st su ad)) cs = Some (Inr (ro_selected r))"
    by (rule decide_requestE)
  from stays_local [OF this [unfolded select_request_def Let_def]] assms(2)
  have "tp_privacy (pp_task (resolved_profile su ad (inspect_request st su ad))) = Some AnyPrivacy" by blast
  then show ?thesis
    by (simp add: resolved_profile_def resolve_profile_def resolve_keeps inspected_profile_def)
qed

text \<open>A key admits the class the profile asks for.\<close>

lemma check_keyD:
  assumes "check_key st su parsed = Inr dev"
  shows "(dev \<longleftrightarrow> rs_dev_no_key st \<and> get_all (su_headers su) ''authorization'' = []) \<and> (dev \<longrightarrow> declared_privacy parsed = LocalOnly)
    \<and> (\<forall>store. \<not> dev \<and> rs_authenticator st = Some store \<longrightarrow>
         (\<exists>identity. authenticate_request (su_to_str su) (su_key_lib su) (su_sha su) store (su_lookup_clock su)
              (su_decision_clock su) (su_headers su) = Inr identity \<and> enforce_scope identity parsed = Inr ()))"
proof (cases "rs_authenticator st")
  case None
  with assms show ?thesis by (auto simp: check_key_def Let_def split: if_splits)
next
  case (Some store)
  let ?a = "authenticate_request (su_to_str su) (su_key_lib su) (su_sha su) store (su_lookup_clock su)
      (su_decision_clock su) (su_headers su)"
  show ?thesis
  proof (cases ?a)
    case (Inl e)
    with assms Some show ?thesis by (auto simp: check_key_def Let_def split: if_splits)
  next
    case (Inr identity)
    with assms Some show ?thesis
      by (cases "enforce_scope identity parsed") (auto simp: check_key_def Let_def split: if_splits)
  qed
qed

lemma scope_privacy: "enforce_scope identity parsed = Inr () \<Longrightarrow> declared_privacy parsed \<in> set (allowed_privacy (ak_scope identity))"
  by (simp add: enforce_scope_ok declared_privacy_def)


section \<open>Nothing is routed unlogged\<close>

lemma append_ok_row:
  assumes "append_event lib scope e L = (Inr n, L')"
  shows "\<exists>row \<in> set (el_rows L'). rw_event_id row = event_id e \<and> rw_tenant row = ev_tenant e \<and> rw_record row = ev_record e
    \<and> parse_event_type (rw_type row) = Inr (event_type e)"
proof -
  from assms obtain s u where s: "Event_Log.required_scope scope = Inr s" "validate_event lib s e = Inr u"
    by (auto simp: append_event_def split: sum.splits)
  show ?thesis
  proof (cases "find (\<lambda>r. rw_event_id r = event_id e) (el_rows L)")
    case None
    then have "load_by_id lib L (event_id e) = Inr None" by (simp add: load_by_id_None)
    with assms s show ?thesis
      by (auto simp: append_event_def Let_def validate_eventD split: if_splits)
  next
    case (Some raw)
    then obtain x where x: "decode lib raw = Inr x" "event_eq (event x) e" "L' = L"
      using assms s by (auto simp: append_event_def load_by_id_def result_simps split: if_splits sum.splits option.splits)
    from Some have raw: "raw \<in> set (el_rows L)" "rw_event_id raw = event_id e" by (auto simp: find_Some_iff)
    from x(2) have "ev_tenant (event x) = ev_tenant e" "ev_record (event x) = ev_record e" "event_type (event x) = event_type e"
      by (auto simp: event_eq_def) (metis new_event.ext_inject new_event.surjective new_event.update_convs(11))+
    with decode_fields [OF x(1)] raw x(3) show ?thesis by (metis)
  qed
qed

lemma append_event_grows: "set (el_rows L) \<subseteq> set (el_rows (snd (append_event lib scope e L)))"
  using append_cases [of lib scope e L] by auto

definition has_fact :: "string \<Rightarrow> event_type \<Rightarrow> event_log \<Rightarrow> bool" where
  "has_fact record_id kind L \<longleftrightarrow> (\<exists>row \<in> set (el_rows L). rw_record row = record_id \<and> parse_event_type (rw_type row) = Inr kind)"

definition log_extends :: "event_log \<Rightarrow> event_log \<Rightarrow> bool" where
  "log_extends L L' \<longleftrightarrow> set (el_rows L) \<subseteq> set (el_rows L')"

lemma has_fact_mono: "has_fact i kind L \<Longrightarrow> log_extends L L' \<Longrightarrow> has_fact i kind L'"
  by (auto simp: has_fact_def log_extends_def)

lemma appended_fact:
  assumes "append_event lib scope e L = (r, L')" "is_ok r"
  shows "has_fact (ev_record e) (event_type e) L' \<and> log_extends L L'"
proof -
  from assms(2) obtain n where "r = Inr n" by (auto simp: is_ok_iff)
  with assms append_ok_row [of lib scope e L n L'] append_event_grows [of L lib scope e] show ?thesis
    by (auto simp: has_fact_def log_extends_def)
qed

lemma append_fact_ok:
  assumes "append_fact lib mark ctx kind request meta L = (True, L')"
  shows "has_fact (ec_record ctx) kind L' \<and> log_extends L L'"
  using assms appended_fact [of lib "Some (ec_tenant ctx)" "request_event ctx kind request meta (fst mark) (the (snd mark))" L]
  by (auto simp: append_fact_def request_event_def split: option.splits prod.splits)

lemma append_inspection_ok:
  assumes "append_inspection lib mark ctx i L = (True, L')"
  shows "has_fact (ec_record ctx) Inspected L' \<and> log_extends L L'"
  using assms appended_fact [of lib "Some (ec_tenant ctx)" "inspected_event (fst mark) (ec_tenant ctx) (ec_record ctx) (the (snd mark)) (ec_correlation ctx) i" L]
  by (auto simp: append_inspection_def append_inspected_def inspected_event_def split: option.splits prod.splits)

text \<open>
  C7. Nothing is routed unlogged: when there is an event log, a request reaches a backend only after the log has
  taken all four facts about it (received, inspected, profiled, decided) under its own record, and no earlier
  row was lost.
\<close>

theorem nothing_routed_unlogged:
  assumes "route_request st su = Some (Inr r, L')" "rs_log st = Some L"
  shows "\<exists>L1. L' = Some L1 \<and> log_extends L L1
    \<and> list_all (\<lambda>kind. has_fact (su_record su) kind L1) [RequestReceived, Inspected, Profiled, Decided]"
  using assms(1)
proof (rule route_requestE)
  fix ad ctx M1 M2 M3 request
  assume ctx: "ctx = log_context st su ad"
    and w1: "with_fact ctx (\<lambda>c. append_request_received (su_event_lib su) (su_mark su RequestReceived) c request) (rs_log st) = (True, M1)"
    and w2: "with_fact ctx (\<lambda>c. append_inspection (su_event_lib su) (su_mark su Inspected) c (inspect_request st su ad)) M1 = (True, M2)"
    and w3: "with_fact ctx (\<lambda>c. append_profiled (su_event_lib su) (su_mark su Profiled) c
       (resolved_profile su ad (inspect_request st su ad))) M2 = (True, M3)"
    and d: "decide_request st su ad ctx (inspect_request st su ad) (resolved_profile su ad (inspect_request st su ad)) M3 = Some (Inr r, L')"
  from d obtain route where w4: "with_fact ctx (\<lambda>c. append_decided (su_event_lib su) (su_mark su Decided) c route (Some (ro_selected r)) None) M3
      = (True, L')" by (rule decide_requestE)
  from w1 assms(2) obtain c l1 where c: "ctx = Some c" and l1: "M1 = Some l1"
    "append_request_received (su_event_lib su) (su_mark su RequestReceived) c request L = (True, l1)"
    by (auto dest!: with_fact_ok)
  from w2 c l1(1) obtain l2 where l2: "M2 = Some l2"
    "append_inspection (su_event_lib su) (su_mark su Inspected) c (inspect_request st su ad) l1 = (True, l2)"
    by (auto dest!: with_fact_ok)
  from w3 c l2(1) obtain l3 where l3: "M3 = Some l3" "append_profiled (su_event_lib su) (su_mark su Profiled) c
      (resolved_profile su ad (inspect_request st su ad)) l2 = (True, l3)" by (auto dest!: with_fact_ok)
  from w4 c l3(1) obtain l4 where l4: "L' = Some l4"
    "append_decided (su_event_lib su) (su_mark su Decided) c route (Some (ro_selected r)) None l3 = (True, l4)"
    by (auto dest!: with_fact_ok)
  have "log_context st su ad = Some c" using ctx c by simp
  then have rec: "ec_record c = su_record su" by (auto simp: log_context_def Let_def)
  have f: "has_fact (su_record su) RequestReceived l1" "log_extends L l1" "has_fact (su_record su) Inspected l2" "log_extends l1 l2"
    "has_fact (su_record su) Profiled l3" "log_extends l2 l3" "has_fact (su_record su) Decided l4" "log_extends l3 l4"
    using append_fact_ok [OF l1(2) [unfolded append_request_received_def]] append_inspection_ok [OF l2(2)]
      append_fact_ok [OF l3(2) [unfolded append_profiled_def]] append_fact_ok [OF l4(2) [unfolded append_decided_def]] rec
    by simp_all
  moreover have "log_extends l1 l4" "log_extends l2 l4" "log_extends L l4" using f by (auto simp: log_extends_def)
  ultimately show ?thesis using l4(1) by (auto intro: has_fact_mono)
qed

section \<open>Every request is answered\<close>

lemma serve_selected_total: "serve_selected ad parsed s \<noteq> None"
  by (auto simp: serve_selected_def bound_http_body_def Let_def split: sum.split)

lemma select_request_total: "select_request st su ad i parsed cs \<noteq> None"
  unfolding select_request_def Let_def
  by (rule gate_fallback_total) (simp add: snapshot_blocked_def)

lemma decide_request_total: "decide_request st su ad ctx i parsed L \<noteq> None"
proof -
  obtain selection where "select_request st su ad i parsed (fst (policy_cards (rs_cards st) (rs_policy st) (pp_task parsed))) = Some selection"
    using select_request_total by blast
  then show ?thesis
    using serve_selected_total
    by (cases selection) (auto simp: decide_request_def Let_def split: prod.split)
qed

text \<open>C21. No request makes the router panic: it is refused with an envelope or routed, whatever its headers and body.\<close>

theorem every_request_answered: "route_request st su \<noteq> None"
  using decide_request_total by (auto simp: route_request_def Let_def split: sum.split prod.split)

text \<open>Without a key, in developer mode, only what is free and on the machine is served.\<close>

theorem dev_no_key_is_free_and_local:
  assumes "route_request st su = Some (Inr r, L)" "rs_dev_no_key st" "get_all (su_headers su) ''authorization'' = []"
  shows "sel_locality (ro_selected r) = Loopback
    \<and> f64_eq (input_per_m (p_cost (c_provider (sel_card (ro_selected r))))) f64_zero
    \<and> f64_eq (output_per_m (p_cost (c_provider (sel_card (ro_selected r))))) f64_zero"
  using assms(1)
proof (rule route_requestE)
  fix ad ctx L1 L2 L3 request
  assume ad: "admit_request st su = Inr ad"
    and d: "decide_request st su ad ctx (inspect_request st su ad) (resolved_profile su ad (inspect_request st su ad)) L3 = Some (Inr r, L)"
  from ad have "check_key st su (ad_parsed ad) = Inr (ad_dev_no_key ad)" by (rule admit_requestE)
  then have "ad_dev_no_key ad" using check_keyD assms(2,3) by blast
  moreover from d obtain parsed where "serve_selected ad parsed (ro_selected r) = Some (Inr (ro_target r))"
    by (rule decide_requestE)
  ultimately show ?thesis by (auto simp: serve_selected_def Let_def split: if_splits)
qed

text \<open>The status of a refusal is one of those the interface names.\<close>

lemma check_key_status: "check_key st su parsed = Inl r \<Longrightarrow> fst (envelope r) \<in> {401, 403}"
proof -
  assume a: "check_key st su parsed = Inl r"
  show ?thesis
  proof (cases "rs_authenticator st")
    case None
    with a show ?thesis by (auto simp: check_key_def envelope_def Let_def split: if_splits)
  next
    case (Some store)
    then show ?thesis
      using a by (cases "authenticate_request (su_to_str su) (su_key_lib su) (su_sha su) store (su_lookup_clock su)
          (su_decision_clock su) (su_headers su)"; cases "enforce_scope (projr (authenticate_request (su_to_str su) (su_key_lib su)
          (su_sha su) store (su_lookup_clock su) (su_decision_clock su) (su_headers su))) parsed")
        (auto simp: check_key_def envelope_def Let_def split: if_splits)
  qed
qed

lemma admit_request_status:
  assumes "admit_request st su = Inl r"
  shows "fst (envelope r) \<in> {400, 401, 403}"
proof -
  from assms consider "r = InvalidJson" | "r = InvalidBody" | e where "r = RefusedProfile e" "pe_status e = 400"
    | e where "r = RefusedCorrelation e" | parsed where "check_key st su parsed = Inl r" | "r = CompletionCount"
    | f where "r = CompletionCap f"
    unfolding admit_request_def Let_def result_simps
    by (elim disjE exE conjE; (case_tac "parse_profile (su_to_str su) (su_headers su) (Option.bind (map_of (the (as_object (the (su_body su)))) ''model'') as_str) (rs_mode st)")?;
        (case_tac "correlation_parse (su_to_utf8 su) (su_headers su)")?;
        (case_tac "completion_reservation_tokens (the (su_body su))")?)
      (auto dest: parse_profile_errors split: if_splits)
  then show ?thesis by cases (auto simp: envelope_def dest: check_key_status)
qed

lemma rejection_status: "http_status j \<in> {400, 402, 503}"
  by (cases j) simp_all

lemma map_sum_eq_Inl: "map_sum f g t = Inl r \<longleftrightarrow> (\<exists>e. t = Inl e \<and> f e = r)"
  by (cases t) auto

lemma serve_selected_status:
  assumes "serve_selected ad parsed s = Some (Inl r)"
  shows "fst (envelope r) \<in> {400, 402, 403, 500, 503}"
proof -
  from assms consider "r = DevNoKeyScope" | "r = UnsupportedModel s" | e where "r = refusal_of_dispatch e"
    | m where "r = UnsupportedStream s m" | m where "r = UnsupportedParameter s m"
    by (auto simp: serve_selected_def Let_def result_simps map_sum_eq_Inl split: if_splits)
  then show ?thesis
    using rejection_status by cases (auto simp: envelope_def refusal_of_dispatch_def split: dispatch_error.splits)
qed

text \<open>
  A refusal always has a status the interface names: a malformed request, header or parameter is the
  caller's, and only a broken binding is the server's own fault.
\<close>

theorem refusal_has_known_status:
  assumes "route_request st su = Some (Inl r, L)"
  shows "fst (envelope r) \<in> {400, 401, 402, 403, 500, 503}"
proof (cases "admit_request st su")
  case (Inl r')
  with assms admit_request_status [OF Inl] show ?thesis by (auto simp: route_request_def)
next
  case (Inr ad)
  have d: "fst (envelope r) \<in> {400, 402, 403, 500, 503}"
    if dec: "decide_request st su ad ctx i parsed M = Some (Inl r, L)" for ctx i parsed M
  proof -
    obtain cs route where pc: "policy_cards (rs_cards st) (rs_policy st) (pp_task parsed) = (cs, route)" by fastforce
    from dec pc consider "r = LogUnavailable" | "r = RouteRejected LocalOnlyUnavailable" | "r = NoPolicyCandidate"
      | e where "r = refusal_of_dispatch e" | s where "serve_selected ad parsed s = Some (Inl r)"
    proof (cases "cs = []")
      case False
      with dec pc obtain selection where sel: "select_request st su ad i parsed cs = Some selection"
        by (cases "select_request st su ad i parsed cs") (simp_all add: decide_request_def)
      show ?thesis
      proof (cases selection)
        case (Inl e)
        with dec pc False sel that(1,4) show ?thesis by (auto simp: decide_request_def Let_def split: prod.splits if_splits)
      next
        case (Inr x)
        with dec pc False sel that(1,5) show ?thesis
          by (auto simp: decide_request_def Let_def map_sum_eq_Inl split: prod.splits if_splits)
      qed
    qed (auto simp: decide_request_def Let_def split: prod.splits if_splits)
    then show ?thesis
      using rejection_status serve_selected_status
      by cases (auto simp: envelope_def refusal_of_dispatch_def split: dispatch_error.splits)
  qed
  from assms Inr show ?thesis
    by (auto simp: route_request_def Let_def envelope_def split: prod.splits if_splits dest!: d)
qed

section \<open>A concrete request\<close>

text \<open>A remote card that costs nothing, a policy that lets it be used, and a request that may leave.\<close>

definition remote_component :: component_card where
  "remote_component = sample_component\<lparr>c_provider := (c_provider sample_component)\<lparr>p_id := ''cloud'', p_tier := RemoteTier,
       p_privacy_class := AnyPrivacy, p_locality := Remote\<rparr>, c_privacy_class := AnyPrivacy, c_load_policy := None\<rparr>"

definition remote_policy :: routing_policy where
  "remote_policy = \<lparr>rp_version = 1, rp_rules = [], rp_default = \<lparr>act_tiers = Some [RemoteTier], act_fail_closed = None,
     act_capability = None, act_load = None\<rparr>\<rparr>"

definition sample_state :: router_state where
  "sample_state = \<lparr>rs_mode = PersonalMode, rs_dev_no_key = False, rs_authenticator = None, rs_kill_switch = False,
     rs_cards = [remote_component], rs_policy = remote_policy,
     rs_gates = \<lparr>g_enabled = False, g_book = book_new, g_ctr = 0\<rparr>, rs_cache = [], rs_flights = [],
     rs_log = Some event_log_new\<rparr>"

definition sample_surroundings :: "string surroundings" where
  "sample_surroundings = \<lparr>su_headers = [(''x-idoris-privacy'', ''any'')], su_to_str = Some, su_to_utf8 = Some,
     su_body = Some (JObj []), su_raw_len = 2, su_record = ''r1'', su_key_lib = sample_key_lib, su_sha = (\<lambda>_. []),
     su_lookup_clock = None, su_decision_clock = None,
     su_event_lib = \<lparr>uuid_version = (\<lambda>_. Some 4), json_text = (\<lambda>_. []), json_read = (\<lambda>_. Some [])\<rparr>,
     su_mark = (\<lambda>kind. (event_type_as_str kind, Some 0)), su_log_fn = id, su_number_text = (\<lambda>_. []), su_joined = True,
     su_detector = (\<lambda>_. Inr None), su_ready = (\<lambda>_. {}),
     su_proxy_lib = \<lparr>parse_url = (\<lambda>_. None), loopback_ip = (\<lambda>_. False), digest_json = (\<lambda>_ _ _. None),
       json_bytes = (\<lambda>_. 0), read_json = (\<lambda>_. None)\<rparr>,
     su_cache_config = \<lparr>cc_window = 60000, cc_max_entries = 1000, cc_max_cache_bytes = 33554432,
       cc_max_flight_bytes = 33554432, cc_entry_size = 0, cc_flight_size = 0, cc_capacity = length\<rparr>,
     su_now = 0, su_gate_now = 0\<rparr>"

definition sample_admitted :: admitted where
  "sample_admitted = \<lparr>ad_object = [], ad_model = None, ad_parsed = \<lparr>pp_task = \<lparr>tp_privacy = Some AnyPrivacy,
       tp_intent = Some ''chat'', tp_complexity = Some Simple, tp_capabilities = Some [Chat], tp_fallback = None\<rparr>,
       pp_role = None, pp_tenant = None, pp_intent_source = DefaultIntent\<rparr>,
     ad_correlation = \<lparr>cor_session = None, cor_trace = None, cor_parent = None\<rparr>, ad_dev_no_key = False, ad_completion = 1024\<rparr>"

lemma sample_admission: "admit_request sample_state sample_surroundings = Inr sample_admitted"
proof -
  have "parse_privacy Some [(''x-idoris-privacy'', ''any'')] = Inr AnyPrivacy"
    "parse_intent Some [(''x-idoris-privacy'', ''any'')] = Inr (''chat'', DefaultIntent)"
    "parse_complexity Some [(''x-idoris-privacy'', ''any'')] = Inr Simple"
    "parse_capabilities Some [(''x-idoris-privacy'', ''any'')] = Inr [Chat]"
    "parse_fallback Some [(''x-idoris-privacy'', ''any'')] = Inr None"
    "parse_tenant Some [(''x-idoris-privacy'', ''any'')] PersonalMode = Inr None"
    by (simp_all add: header_eval parse_privacy_def parse_intent_def parse_complexity_def
        parse_capabilities_def parse_capability_def parse_fallback_def parse_tenant_def)
  then have "parse_profile Some [(''x-idoris-privacy'', ''any'')] None PersonalMode = Inr (ad_parsed sample_admitted)"
    by (simp add: parse_profile_def parse_role_def validate_task_profile_def require_def non_empty_def sample_admitted_def)
  moreover have "correlation_parse Some [(''x-idoris-privacy'', ''any'')] = Inr (ad_correlation sample_admitted)"
    by (simp add: correlation_parse_def correlation_one_def get_all_def sample_admitted_def)
  moreover have "completion_reservation_tokens (JObj []) = Inr 1024"
    by (simp add: completion_reservation_tokens_def get_non_null_def value_get_def RESERVED_COMPLETION_TOKENS_def)
  ultimately show ?thesis
    by (simp add: admit_request_def sample_state_def sample_surroundings_def check_key_def get_all_def ok_or_def)
      (simp add: sample_admitted_def)
qed

lemma empty_scan: "scan_all_views (l0_scan id) [] = []"
  by code_simp

lemma sample_inspection:
  "inspect_request sample_state sample_surroundings sample_admitted =
     \<lparr>i_response = \<lparr>r_sensitivity = S0, r_findings = [], r_action = Allow\<rparr>, i_effective = AnyPrivacy, i_tightened = False,
      i_killed = False, i_failed = False, i_uninspectable = False\<rparr>"
  by (simp add: inspect_request_def sample_state_def sample_surroundings_def sample_admitted_def declared_privacy_def
      inspect_body_on_request_path_def OFF_WORKER_BYTES_def inspect_body_def body_opaque_def body_text_def tool_call_part_def
      type_of_def opaque_object_def inspect_def exceeds_limit_def contains_base64_data_url_def body_ctx_def empty_scan
      decide_action_def Let_def)

lemma sample_resolved:
  "resolved_profile sample_surroundings sample_admitted (inspect_request sample_state sample_surroundings sample_admitted)
     = ad_parsed sample_admitted"
  by (simp add: resolved_profile_def resolve_profile_def resolve_profile_with_detector_def has_detectable_text_def
      query_text_def chat_context_def extract_messages_def sample_inspection inspected_profile_def)
    (simp add: sample_admitted_def)

definition remote_selected :: selected where
  "remote_selected = \<lparr>sel_decision = \<lparr>chosen_id = ''cloud'', reason_codes = [BudgetNoTenantContext, AdmissionReady],
       degradations = []\<rparr>, sel_locality = Remote, sel_card = remote_component, sel_load_policy = default_load_policy,
     sel_estimate = 0\<rparr>"

lemma remote_candidate:
  "gated_candidates [remote_component] [False] None [] 1024 = [(sample_card ''b'' ROLES)\<lparr>component := remote_component, roles := []\<rparr>]"
  by (simp add: gated_candidates_def gated_candidate_def candidate_def role_admits_def role_models_def extension_def
      fixed_subscription_roles_def classify_subscription_card_def has_binding_def is_resident_http_service_def
      remote_component_def sample_component_def sample_card_def SUBSCRIPTION_PROVIDER_ID_def free_price
      estimate_cost_minor_def RESERVED_COMPLETION_TOKENS_def Let_def)

lemma sample_remote_selection:
  "select_request sample_state sample_surroundings sample_admitted
     (inspect_request sample_state sample_surroundings sample_admitted) (ad_parsed sample_admitted) [remote_component]
     = Some (Inr remote_selected)"
proof -
  have "snapshot_blocked sample_state sample_surroundings (ad_parsed sample_admitted) [remote_component] = [False]"
    by (simp add: snapshot_blocked_def unmask_idempotent_bindings_def blocked_cards_def sample_surroundings_def
        sample_state_def get_all_def)
  moreover have "session_affinity_key (su_to_str sample_surroundings) (su_headers sample_surroundings) = None"
    by (simp add: session_affinity_key_def header_text_def get_all_def sample_surroundings_def)
  ultimately show ?thesis
    unfolding sample_inspection
    by (simp add: select_request_def extract_messages_def chat_prompt_def select_with_gate_fallback_def
        select_snapshot_def sample_admitted_def selection_request_def remote_candidate)
      (simp add: pipeline_eval selected_of_def remote_selected_def remote_component_def sample_component_def)
qed

definition sample_ctx :: event_ctx where
  "sample_ctx = \<lparr>ec_tenant = ''personal'', ec_record = ''r1'',
     ec_correlation = \<lparr>cor_session = None, cor_trace = None, cor_parent = None\<rparr>\<rparr>"

lemma sample_request_ids: "validate_id field ''personal'' = Inr ()" "validate_id field ''r1'' = Inr ()" "\<not> is_blank ''personal''" "\<not> is_blank ''r1''"
  by (simp_all add: validate_id_def is_blank_def chars_def trim_matches_def is_unicode_whitespace_def utf16_len_def Json.is_control_def)

lemma sample_event_appended:
  assumes "validate_metadata meta = Inr ()" "request = None \<or> request = Some ''r1''"
    and "event_type_as_str kind \<notin> rw_event_id ` set (el_rows L)" "el_last L < 4"
  shows "append_event (su_event_lib sample_surroundings) (Some ''personal'')
       (request_event sample_ctx kind request meta (event_type_as_str kind) 0) L
     = (Inr (el_last L + 1), \<lparr>el_rows = el_rows L @ [raw_of (su_event_lib sample_surroundings) ''personal''
          (request_event sample_ctx kind request meta (event_type_as_str kind) 0) (el_last L + 1)], el_last = el_last L + 1\<rparr>)"
proof -
  let ?e = "request_event sample_ctx kind request meta (event_type_as_str kind) 0"
  have "validate_event (su_event_lib sample_surroundings) ''personal'' ?e = Inr ()"
    using assms(1,2) by (auto simp: validate_event_def validate_stored_event_def request_event_def sample_surroundings_def
        sample_ctx_def sample_request_ids)
  moreover have "Event_Log.required_scope (Some ''personal'') = Inr ''personal''"
    by (simp add: Event_Log.required_scope_def sample_request_ids)
  moreover have "load_by_id (su_event_lib sample_surroundings) L (event_id ?e) = Inr None"
    using assms(3) by (force simp: load_by_id_None find_None_iff request_event_def)
  moreover have "el_last L \<noteq> max_sequence" using assms(4) by (simp add: max_sequence_def)
  ultimately show ?thesis by (simp add: append_event_def Let_def)
qed

lemma sample_fact:
  assumes "validate_metadata meta = Inr ()" "request = None \<or> request = Some ''r1''"
    and "event_type_as_str kind \<notin> rw_event_id ` set (el_rows L)" "el_last L < 4"
  shows "\<exists>L'. append_fact (su_event_lib sample_surroundings) (su_mark sample_surroundings kind) sample_ctx kind request meta L = (True, L')
    \<and> rw_event_id ` set (el_rows L') = insert (event_type_as_str kind) (rw_event_id ` set (el_rows L)) \<and> el_last L' = el_last L + 1"
proof -
  have "su_mark sample_surroundings kind = (event_type_as_str kind, Some 0)" by (simp add: sample_surroundings_def)
  moreover have "ec_tenant sample_ctx = ''personal''" by (simp add: sample_ctx_def)
  moreover have "event_id (request_event sample_ctx kind request meta (event_type_as_str kind) 0) = event_type_as_str kind"
    by (simp add: request_event_def)
  ultimately show ?thesis by (simp add: append_fact_def sample_event_appended [OF assms])
qed

lemma sample_texts:
  "valid_string ''chat''" "valid_string ''cloud''" "valid_string ''default''" "valid_string ''remote''" "valid_string ''selected''"
  "valid_string (event_reason_code BudgetNoTenantContext)" "valid_string (event_reason_code AdmissionReady)"
  by (rule plain_valid_string; simp)+

lemma fact_keys:
  "entry_ok ''intent'' w \<longleftrightarrow> scalar_ok w" "entry_ok ''degraded'' w \<longleftrightarrow> scalar_ok w" "entry_ok ''provider_id'' w \<longleftrightarrow> scalar_ok w"
  "entry_ok ''rule_id'' w \<longleftrightarrow> scalar_ok w" "entry_ok ''served_locality'' w \<longleftrightarrow> scalar_ok w" "entry_ok ''status'' w \<longleftrightarrow> scalar_ok w"
  "entry_ok ''tier'' w \<longleftrightarrow> scalar_ok w" "entry_ok ''reason_codes'' w \<longleftrightarrow> array_of string_item_ok w"
  unfolding entry_ok_def key_in_def content_names_split
  by (simp_all add: content_names_def SCALAR_KEYS_def ARRAY_KEYS_def OBJECT_ARRAY_KEYS_def)

lemma sample_inspected_metadata:
  "validate_metadata (inspected_metadata (inspect_request sample_state sample_surroundings sample_admitted)) = Inr ()"
  unfolding sample_inspection using class_texts_valid(1) [of AnyPrivacy] class_texts_valid(2) [of S0]
  by (simp add: inspected_metadata_def inspected_reason_def scalar_ok_def array_of_def fact_keys sample_texts)

lemma sample_profiled_metadata: "validate_metadata (profiled_metadata (ad_parsed sample_admitted)) = Inr ()"
  using class_texts_valid(1) [of AnyPrivacy]
  by (simp add: profiled_metadata_def sample_admitted_def scalar_ok_def array_of_def fact_keys sample_texts)

lemma decided_fact:
  assumes "rd_matched_rule route = MatchedDefault"
  shows "validate_metadata (decided_metadata route (Some remote_selected) None) = Inr ()"
  using assms sample_texts
  by (simp add: decided_metadata_def remote_selected_def remote_component_def sample_component_def sample_card_def
      rule_text_def is_degraded_def scalar_ok_def array_of_def string_item_ok_def MAX_ARRAY_ITEMS_def fact_keys
      del: event_reason_code.simps)

lemma append_inspection_fact:
  "append_inspection lib mark ctx i L = append_fact lib mark ctx Inspected None (inspected_metadata i) L"
  by (simp add: append_inspection_def append_inspected_def append_fact_def inspected_event_def request_event_def split: option.split)

definition remote_routed :: routed where
  "remote_routed = \<lparr>ro_profile = ad_parsed sample_admitted,
     ro_inspection = inspect_request sample_state sample_surroundings sample_admitted, ro_selected = remote_selected,
     ro_target = ToSupervisor \<lparr>nr_messages = [], nr_parameters = []\<rparr>\<rparr>"

lemma sample_route: "\<exists>L. route_request sample_state sample_surroundings = Some (Inr remote_routed, Some L)"
proof -
  let ?lib = "su_event_lib sample_surroundings" and ?mark = "su_mark sample_surroundings"
    and ?i = "inspect_request sample_state sample_surroundings sample_admitted" and ?p = "ad_parsed sample_admitted"
  define route where "route = snd (policy_cards (rs_cards sample_state) (rs_policy sample_state) (pp_task ?p))"
  have policy: "policy_cards (rs_cards sample_state) (rs_policy sample_state) (pp_task ?p) = ([remote_component], route)"
    by (simp add: route_def policy_cards_def route_decide_def sample_state_def remote_policy_def sample_admitted_def
        remote_component_def Let_def)
  have matched: "rd_matched_rule route = MatchedDefault"
    by (simp add: route_def policy_cards_def route_decide_def sample_state_def remote_policy_def Let_def)
  have ctx: "log_context sample_state sample_surroundings sample_admitted = Some sample_ctx"
    by (simp add: log_context_def sample_state_def sample_ctx_def PERSONAL_TENANT_ID_def sample_admitted_def)
      (simp add: sample_surroundings_def)
  have request: "event_request_id (header_text (su_to_str sample_surroundings) (su_headers sample_surroundings) ''x-idoris-request-id'')
      (su_record sample_surroundings) = ''r1''"
    by (simp add: sample_surroundings_def header_text_def get_all_def event_request_id_def)
  have served: "serve_selected sample_admitted ?p remote_selected = Some (Inr (ro_target remote_routed))"
    by (simp add: serve_selected_def sample_admitted_def remote_selected_def remote_component_def sample_component_def
        sample_card_def SUBSCRIPTION_PROVIDER_ID_def is_resident_http_service_def stream_validate_def parameters_validate_def
        native_payload_def remote_routed_def)
  have "event_type_as_str RequestReceived \<notin> rw_event_id ` set (el_rows event_log_new)" "el_last event_log_new < 4"
    by (simp_all add: event_log_new_def)
  from sample_fact [OF _ disjI2 [OF refl] this, of "[]"] obtain l1
    where l1: "append_fact ?lib (?mark RequestReceived) sample_ctx RequestReceived (Some ''r1'') [] event_log_new = (True, l1)"
      "rw_event_id ` set (el_rows l1) = insert (event_type_as_str RequestReceived) (rw_event_id ` set (el_rows event_log_new))"
      "el_last l1 = el_last event_log_new + 1" by auto
  have "event_type_as_str Inspected \<notin> rw_event_id ` set (el_rows l1)" "el_last l1 < 4"
    unfolding l1(2,3) by (simp_all add: event_log_new_def)
  from sample_fact [OF sample_inspected_metadata disjI1 [OF refl] this] obtain l2
    where l2: "append_fact ?lib (?mark Inspected) sample_ctx Inspected None (inspected_metadata ?i) l1 = (True, l2)"
      "rw_event_id ` set (el_rows l2) = insert (event_type_as_str Inspected) (rw_event_id ` set (el_rows l1))"
      "el_last l2 = el_last l1 + 1" by blast
  have "event_type_as_str Profiled \<notin> rw_event_id ` set (el_rows l2)" "el_last l2 < 4"
    unfolding l2(2,3) l1(2,3) by (simp_all add: event_log_new_def)
  from sample_fact [OF sample_profiled_metadata disjI1 [OF refl] this] obtain l3
    where l3: "append_fact ?lib (?mark Profiled) sample_ctx Profiled None (profiled_metadata ?p) l2 = (True, l3)"
      "rw_event_id ` set (el_rows l3) = insert (event_type_as_str Profiled) (rw_event_id ` set (el_rows l2))"
      "el_last l3 = el_last l2 + 1" by blast
  have "event_type_as_str Decided \<notin> rw_event_id ` set (el_rows l3)" "el_last l3 < 4"
    unfolding l3(2,3) l2(2,3) l1(2,3) by (simp_all add: event_log_new_def)
  from sample_fact [OF decided_fact [OF matched] disjI1 [OF refl] this] obtain l4
    where l4: "append_fact ?lib (?mark Decided) sample_ctx Decided None (decided_metadata route (Some remote_selected) None) l3
      = (True, l4)" by blast
  have "decide_request sample_state sample_surroundings sample_admitted (Some sample_ctx) ?i ?p (Some l3)
      = Some (Inr remote_routed, Some l4)"
    by (simp add: decide_request_def policy sample_remote_selection rejection_name_def with_fact_def append_decided_def l4 served)
      (simp add: remote_routed_def)
  moreover have "rs_log sample_state = Some event_log_new" by (simp add: sample_state_def)
  ultimately have "route_request sample_state sample_surroundings = Some (Inr remote_routed, Some l4)"
    by (simp add: route_request_def sample_admission ctx request with_fact_def append_request_received_def l1(1)
        append_inspection_fact l2(1) append_profiled_def sample_resolved l3(1))
  then show ?thesis by blast
qed


theorem nothing_routed_unlogged_witness:
  "\<exists>L. route_request sample_state sample_surroundings = Some (Inr remote_routed, Some L) \<and> has_fact ''r1'' Decided L"
proof -
  obtain L where L: "route_request sample_state sample_surroundings = Some (Inr remote_routed, Some L)"
    using sample_route by blast
  have "rs_log sample_state = Some event_log_new" "su_record sample_surroundings = ''r1''"
    by (simp_all add: sample_state_def sample_surroundings_def)
  with nothing_routed_unlogged [OF L] L show ?thesis by auto
qed

end
