(* ===== verification/Flights.thy ===== *)
theory Flights
  imports Proxy
begin

text \<open>
  The single flight of a request identifier (\<^verbatim>\<open>crates/idoris-router/src/proxy.rs\<close>,
  \<open>forward_buffered_inner_finalized\<close>) with any number of calls at once. A call is a task whose phase
  says how far it has come and which flight it holds; what happens between two suspension points is one operation.
  \<open>px_posts\<close> is a history of the sends; nothing reads it. The gates are the argument of the claim.
\<close>

section \<open>State\<close>

record flight =
  fl_key :: string
  fl_fingerprint :: "8 word list"
  fl_outcome :: "forward_outcome option"
  fl_cancelled :: "int option"
  fl_retained :: nat
  fl_base :: nat
  fl_holder :: "nat option"

text \<open>
  \<open>Waiting\<close> for the flight's lock; \<open>Leading\<close> with the marker set and the guard armed;
  \<open>Observing\<close> with the gates claimed; \<open>Sending\<close>; \<open>Completing\<close> with the finalized outcome.
\<close>

datatype phase =
    Arriving | Waiting nat | Leading nat | Observing nat | Sending nat
  | Completing nat forward_outcome bool
  | Done forward_outcome | ObserverFailed | Dropped

record task_state =
  tk_key :: string
  tk_fingerprint :: "8 word list"
  tk_opts :: forward_opts
  tk_phase :: phase

record post =
  po_key :: string
  po_task :: nat
  po_start :: int
  po_end :: "(int \<times> bool) option"

record px =
  px_now :: int
  px_cache :: cache
  px_flights :: "(string \<times> nat) list"
  px_store :: "flight list"
  px_bytes :: nat
  px_tasks :: "task_state list"
  px_posts :: "post list"

definition px_start :: "int \<Rightarrow> px" where
  "px_start now = \<lparr>px_now = now, px_cache = [], px_flights = [], px_store = [], px_bytes = 0, px_tasks = [], px_posts = []\<rparr>"

fun flight_of :: "phase \<Rightarrow> nat option" where
  "flight_of (Waiting f) = Some f"
| "flight_of (Leading f) = Some f"
| "flight_of (Observing f) = Some f"
| "flight_of (Sending f) = Some f"
| "flight_of (Completing f _ _) = Some f"
| "flight_of _ = None"

text \<open>The phases that hold the lock, with the guard armed.\<close>

fun led_by :: "phase \<Rightarrow> nat option" where
  "led_by (Waiting _) = None"
| "led_by p = flight_of p"

fun on_wire :: "phase \<Rightarrow> bool" where
  "on_wire (Sending _) = True"
| "on_wire (Completing _ _ _) = True"
| "on_wire _ = False"

definition set_phase :: "nat \<Rightarrow> phase \<Rightarrow> px \<Rightarrow> px" where
  "set_phase t p s = s\<lparr>px_tasks := (px_tasks s)[t := (px_tasks s ! t)\<lparr>tk_phase := p\<rparr>]\<rparr>"

definition set_flight :: "nat \<Rightarrow> flight \<Rightarrow> px \<Rightarrow> px" where
  "set_flight f fl s = s\<lparr>px_store := (px_store s)[f := fl]\<rparr>"

definition end_post :: "nat \<Rightarrow> bool \<Rightarrow> px \<Rightarrow> px" where
  "end_post t repeatable s =
     s\<lparr>px_posts := map (\<lambda>p. if po_task p = t \<and> po_end p = None then p\<lparr>po_end := Some (px_now s, repeatable)\<rparr> else p) (px_posts s)\<rparr>"

section \<open>Joining a flight\<close>

definition outcome_bytes :: "cache_config \<Rightarrow> forward_outcome \<Rightarrow> nat" where
  "outcome_bytes cfg o' =
     sat_sum [length (fo_body o'), (case fo_content_type o' of None \<Rightarrow> 0 | Some c \<Rightarrow> cc_capacity cfg c),
       (case fo_origin o' of None \<Rightarrow> 0 | Some r \<Rightarrow> cc_capacity cfg r)]"

definition flight_base_bytes :: "cache_config \<Rightarrow> string \<Rightarrow> nat" where
  "flight_base_bytes cfg key = sat_sum [cc_capacity cfg key, cc_flight_size cfg]"

definition marker :: forward_outcome where
  "marker = flight_failure 502 ''upstream_unavailable''"

definition reserve_flight_bytes :: "cache_config \<Rightarrow> nat \<Rightarrow> nat \<Rightarrow> nat option" where
  "reserve_flight_bytes cfg current bytes =
     (if cc_max_flight_bytes cfg - current < bytes then None else Some (current + bytes))"

text \<open>\<open>strong_count > 1\<close>: some call holds the flight beside the registry.\<close>

definition flight_held :: "task_state list \<Rightarrow> nat \<Rightarrow> bool" where
  "flight_held tasks f \<longleftrightarrow> list_ex (\<lambda>t. flight_of (tk_phase t) = Some f) tasks"

definition flight_kept :: "cache_config \<Rightarrow> px \<Rightarrow> nat \<Rightarrow> bool" where
  "flight_kept cfg s f \<longleftrightarrow> flight_held (px_tasks s) f
     \<or> (case fl_cancelled (px_store s ! f) of Some at \<Rightarrow> px_now s - at < int (cc_window cfg) | None \<Rightarrow> False)"

text \<open>A flight that is removed gives its bytes back.\<close>

definition retain_flights :: "cache_config \<Rightarrow> px \<Rightarrow> px" where
  "retain_flights cfg s =
     s\<lparr>px_flights := filter (\<lambda>(_, f). flight_kept cfg s f) (px_flights s),
       px_bytes := px_bytes s
         - sum_list (map (\<lambda>(_, f). fl_retained (px_store s ! f)) (filter (\<lambda>(_, f). \<not> flight_kept cfg s f) (px_flights s)))\<rparr>"

definition new_flight :: "cache_config \<Rightarrow> task_state \<Rightarrow> nat \<Rightarrow> flight" where
  "new_flight cfg t initial =
     \<lparr>fl_key = tk_key t, fl_fingerprint = tk_fingerprint t, fl_outcome = None, fl_cancelled = None,
      fl_retained = initial, fl_base = flight_base_bytes cfg (tk_key t), fl_holder = None\<rparr>"

definition task_lookup :: "cache_config \<Rightarrow> px \<Rightarrow> task_state \<Rightarrow> forward_outcome option" where
  "task_lookup cfg s t = lookup_cached cfg (px_now s) (tk_key t) (tk_fingerprint t) (tk_opts t) (px_cache s)"

definition join_flight :: "cache_config \<Rightarrow> nat \<Rightarrow> px \<Rightarrow> px" where
  "join_flight cfg t s0 =
     (let s = retain_flights cfg s0; call = px_tasks s ! t; key = tk_key call in
      case map_of (px_flights s) key of
        Some f \<Rightarrow>
          if fl_fingerprint (px_store s ! f) \<noteq> tk_fingerprint call
          then set_phase t (Done (flight_failure 409 ''request_id_conflict'')) s
          else set_phase t (Waiting f) s
      | None \<Rightarrow>
          if cc_max_entries cfg \<le> length (px_flights s)
          then set_phase t (Done (case task_lookup cfg s call of Some hit \<Rightarrow> hit
                 | None \<Rightarrow> flight_failure 503 ''upstream_unavailable'')) s
          else
            let initial = sat_sum [flight_base_bytes cfg key, outcome_bytes cfg marker] in
            case reserve_flight_bytes cfg (px_bytes s) initial of
              None \<Rightarrow> set_phase t (Done (flight_failure 503 ''upstream_unavailable'')) s
            | Some bytes \<Rightarrow>
                set_phase t (Waiting (length (px_store s)))
                  (s\<lparr>px_flights := px_flights s @ [(key, length (px_store s))],
                     px_store := px_store s @ [new_flight cfg call initial], px_bytes := bytes\<rparr>))"

section \<open>The lock and the lead\<close>

definition take_lock :: "cache_config \<Rightarrow> nat \<Rightarrow> nat \<Rightarrow> px \<Rightarrow> px" where
  "take_lock cfg t f s =
     (let fl = px_store s ! f in
      if fl_holder fl \<noteq> None then s
      else case fl_outcome fl of
        Some outcome \<Rightarrow>
          set_phase t (Done (case (if fo_status outcome = 502 \<and> \<not> fo_cached outcome
                                   then task_lookup cfg s (px_tasks s ! t) else None) of
                Some hit \<Rightarrow> hit
              | None \<Rightarrow> outcome\<lparr>fo_execution := Replay\<rparr>)) s
      | None \<Rightarrow>
          set_phase t (Leading f) (set_flight f (fl\<lparr>fl_outcome := Some marker, fl_holder := Some t\<rparr>) s))"

text \<open>\<open>forward_once_observed\<close>: the cache once more, the gates, the observer, the send.\<close>

definition claim_gates :: "cache_config \<Rightarrow> bool \<Rightarrow> nat \<Rightarrow> nat \<Rightarrow> px \<Rightarrow> px" where
  "claim_gates cfg gates_open t f s =
     (case task_lookup cfg s (px_tasks s ! t) of
        Some hit \<Rightarrow> set_phase t (Completing f hit False) s
      | None \<Rightarrow>
          if \<not> gates_open
          then set_phase t (Completing f (flight_failure_with_execution 503 ''provider_circuit_open'' NotExecuted) False) s
          else set_phase t (Observing f) s)"

definition observe :: "bool \<Rightarrow> nat \<Rightarrow> nat \<Rightarrow> px \<Rightarrow> px" where
  "observe ok t f s =
     (if ok
      then (set_phase t (Sending f) s)\<lparr>px_posts := px_posts s
             @ [\<lparr>po_key = tk_key (px_tasks s ! t), po_task = t, po_start = px_now s, po_end = None\<rparr>]\<rparr>
      else set_phase t ObserverFailed
             (set_flight f ((px_store s ! f)\<lparr>fl_outcome := None, fl_holder := None\<rparr>) s))"

text \<open>\<open>finalized\<close> is what the success gate made of the outcome, and whether it refused it.\<close>

definition send_done :: "send_report \<Rightarrow> forward_outcome \<times> bool \<Rightarrow> nat \<Rightarrow> nat \<Rightarrow> px \<Rightarrow> px" where
  "send_done report finalized t f s =
     set_phase t (Completing f (fst finalized) (sr_uncertain report \<or> snd finalized)) s"

section \<open>Completing and dropping\<close>

text \<open>Leaving with the guard armed, or after \<open>retain_completed\<close>.\<close>

definition leave_marked :: "int \<Rightarrow> flight \<Rightarrow> flight" where
  "leave_marked now fl = fl\<lparr>fl_cancelled := Some now, fl_holder := None\<rparr>"

definition as_replay :: "forward_opts \<Rightarrow> forward_outcome \<Rightarrow> forward_outcome" where
  "as_replay opts outcome =
     (if is_success (fo_status outcome) \<and> \<not> fo_cached outcome
      then outcome\<lparr>fo_cached := True, fo_origin := Some (op_record opts), fo_locality := Some (op_locality opts),
        fo_execution := Replay\<rparr>
      else outcome)"

definition remember_outcome :: "cache_config \<Rightarrow> task_state \<Rightarrow> forward_outcome \<Rightarrow> bool \<Rightarrow> px \<Rightarrow> px" where
  "remember_outcome cfg call outcome uncertain s =
     (if \<not> uncertain \<and> is_success (fo_status outcome) \<and> \<not> fo_cached outcome \<and> fo_execution outcome = Executed
      then s\<lparr>px_cache := remember cfg (px_now s) (tk_key call)
             \<lparr>ce_at = px_now s, ce_fingerprint = tk_fingerprint call, ce_status = fo_status outcome,
              ce_body = fo_body outcome, ce_record = op_record (tk_opts call), ce_locality = op_locality (tk_opts call)\<rparr>
             (px_cache s)\<rparr>
      else s)"

text \<open>The result the flight keeps, the bytes it then accounts for, and whether that leaves it uncertain.\<close>

definition retain_result ::
    "cache_config \<Rightarrow> flight \<Rightarrow> forward_outcome \<Rightarrow> bool \<Rightarrow> nat \<Rightarrow> forward_outcome \<times> bool \<times> nat \<times> nat" where
  "retain_result cfg fl replay uncertain bytes =
     (let retained = sat_sum [fl_base fl, outcome_bytes cfg replay]; previous = fl_retained fl in
      if retained \<le> previous then (replay, uncertain, retained, bytes - (previous - retained))
      else case reserve_flight_bytes cfg bytes (retained - previous) of
          Some bytes' \<Rightarrow> (replay, uncertain, retained, bytes')
        | None \<Rightarrow> (flight_failure_with_execution 502 ''upstream_unavailable'' Uncertain, True, previous, bytes))"

definition complete :: "cache_config \<Rightarrow> bool \<Rightarrow> nat \<Rightarrow> nat \<Rightarrow> forward_outcome \<Rightarrow> bool \<Rightarrow> px \<Rightarrow> px" where
  "complete cfg ok t f outcome uncertain s =
     (if \<not> ok
      then end_post t False (set_phase t ObserverFailed (set_flight f
             (leave_marked (px_now s) ((px_store s ! f)\<lparr>fl_outcome :=
                Some (flight_failure_with_execution 503 ''upstream_unavailable'' Uncertain)\<rparr>)) s))
      else
        let call = px_tasks s ! t; fl = px_store s ! f;
            s1 = remember_outcome cfg call outcome uncertain s;
            (result, uncertain', retained, bytes) =
              retain_result cfg fl (as_replay (tk_opts call) outcome) uncertain (px_bytes s1);
            fl1 = fl\<lparr>fl_outcome := Some result, fl_retained := retained, fl_holder := None\<rparr>;
            fl2 = (if uncertain' \<or> is_success (fo_status outcome) then leave_marked (px_now s) fl1 else fl1)
        in end_post t (\<not> uncertain \<and> \<not> is_success (fo_status outcome))
             (set_phase t (Done outcome) (set_flight f fl2 (s1\<lparr>px_bytes := bytes\<rparr>))))"

text \<open>The future of a call is dropped: the guard of a leader marks the flight.\<close>

definition drop_call :: "nat \<Rightarrow> px \<Rightarrow> px" where
  "drop_call t s =
     (let p = tk_phase (px_tasks s ! t) in
      case led_by p of
        Some f \<Rightarrow> end_post t False (set_phase t Dropped (set_flight f (leave_marked (px_now s) (px_store s ! f)) s))
      | None \<Rightarrow> if p = Arriving \<or> flight_of p \<noteq> None then set_phase t Dropped s else s)"

section \<open>Runs\<close>

datatype px_op =
    Arrive string "8 word list" forward_opts
  | Join nat
  | Lock nat
  | Claim nat bool
  | Observe nat bool
  | SendDone nat send_report "forward_outcome \<times> bool"
  | Complete nat bool
  | DropCall nat
  | Tick nat

definition phase_at :: "px \<Rightarrow> nat \<Rightarrow> phase option" where
  "phase_at s t = (if t < length (px_tasks s) then Some (tk_phase (px_tasks s ! t)) else None)"

fun px_step :: "cache_config \<Rightarrow> px_op \<Rightarrow> px \<Rightarrow> px" where
  "px_step cfg (Arrive key fp opts) s =
     (let call = \<lparr>tk_key = key, tk_fingerprint = fp, tk_opts = opts, tk_phase = Arriving\<rparr>
      in s\<lparr>px_tasks := px_tasks s
           @ [case task_lookup cfg s call of Some hit \<Rightarrow> call\<lparr>tk_phase := Done hit\<rparr> | None \<Rightarrow> call]\<rparr>)"
| "px_step cfg (Join t) s = (case phase_at s t of Some Arriving \<Rightarrow> join_flight cfg t s | _ \<Rightarrow> s)"
| "px_step cfg (Lock t) s = (case phase_at s t of Some (Waiting f) \<Rightarrow> take_lock cfg t f s | _ \<Rightarrow> s)"
| "px_step cfg (Claim t gates_open) s = (case phase_at s t of Some (Leading f) \<Rightarrow> claim_gates cfg gates_open t f s | _ \<Rightarrow> s)"
| "px_step cfg (Observe t ok) s = (case phase_at s t of Some (Observing f) \<Rightarrow> observe ok t f s | _ \<Rightarrow> s)"
| "px_step cfg (SendDone t report finalized) s =
     (case phase_at s t of Some (Sending f) \<Rightarrow> send_done report finalized t f s | _ \<Rightarrow> s)"
| "px_step cfg (Complete t ok) s =
     (case phase_at s t of Some (Completing f outcome uncertain) \<Rightarrow> complete cfg ok t f outcome uncertain s | _ \<Rightarrow> s)"
| "px_step cfg (DropCall t) s = (case phase_at s t of Some _ \<Rightarrow> drop_call t s | None \<Rightarrow> s)"
| "px_step cfg (Tick ms) s = s\<lparr>px_now := px_now s + int ms\<rparr>"

definition px_run :: "cache_config \<Rightarrow> px_op list \<Rightarrow> px \<Rightarrow> px" where
  "px_run cfg ops s = fold (px_step cfg) ops s"

section \<open>What every run keeps\<close>

definition registry_ok :: "px \<Rightarrow> bool" where
  "registry_ok s \<longleftrightarrow> distinct (map fst (px_flights s)) \<and> (\<forall>(k, f) \<in> set (px_flights s). f < length (px_store s))"

text \<open>Whoever holds a flight holds the registered one of its key, and a leader has its lock and marked it.\<close>

definition calls_ok :: "px \<Rightarrow> bool" where
  "calls_ok s \<longleftrightarrow> (\<forall>t < length (px_tasks s).
     (\<forall>f. flight_of (tk_phase (px_tasks s ! t)) = Some f \<longrightarrow> (tk_key (px_tasks s ! t), f) \<in> set (px_flights s))
     \<and> (\<forall>f. led_by (tk_phase (px_tasks s ! t)) = Some f
          \<longrightarrow> fl_holder (px_store s ! f) = Some t \<and> fl_outcome (px_store s ! f) \<noteq> None))"

fun before_send :: "phase \<Rightarrow> bool" where
  "before_send Arriving = True"
| "before_send (Waiting _) = True"
| "before_send (Leading _) = True"
| "before_send (Observing _) = True"
| "before_send _ = False"

definition post_ok :: "px \<Rightarrow> post \<Rightarrow> bool" where
  "post_ok s p \<longleftrightarrow> po_task p < length (px_tasks s) \<and> tk_key (px_tasks s ! po_task p) = po_key p
     \<and> \<not> before_send (tk_phase (px_tasks s ! po_task p))
     \<and> (po_end p = None \<longrightarrow> on_wire (tk_phase (px_tasks s ! po_task p)))"

text \<open>A send that must not be repeated has left its mark, which lasts for the window.\<close>

definition sealed :: "px \<Rightarrow> string \<Rightarrow> int \<Rightarrow> bool" where
  "sealed s key e \<longleftrightarrow> (\<exists>f c. (key, f) \<in> set (px_flights s) \<and> fl_outcome (px_store s ! f) \<noteq> None
     \<and> fl_holder (px_store s ! f) = None \<and> fl_cancelled (px_store s ! f) = Some c \<and> e \<le> c)"

definition post_sealed :: "cache_config \<Rightarrow> px \<Rightarrow> post \<Rightarrow> bool" where
  "post_sealed cfg s p \<longleftrightarrow>
     (\<forall>e. po_end p = Some (e, False) \<and> px_now s < e + int (cc_window cfg) \<longrightarrow> sealed s (po_key p) e)"

definition spaced :: "cache_config \<Rightarrow> post \<Rightarrow> post \<Rightarrow> bool" where
  "spaced cfg p q \<longleftrightarrow> (po_key p = po_key q
     \<longrightarrow> (\<exists>e repeatable. po_end p = Some (e, repeatable) \<and> (repeatable \<or> e + int (cc_window cfg) \<le> po_start q)))"

definition px_inv :: "cache_config \<Rightarrow> px \<Rightarrow> bool" where
  "px_inv cfg s \<longleftrightarrow> registry_ok s \<and> calls_ok s \<and> (\<forall>p \<in> set (px_posts s). post_ok s p \<and> post_sealed cfg s p)
     \<and> sorted_wrt (spaced cfg) (px_posts s)"

lemma led_flight: "led_by p = Some f \<Longrightarrow> flight_of p = Some f"
  by (cases p) auto

lemma on_wire_leads: "on_wire p \<Longrightarrow> \<exists>f. led_by p = Some f"
  by (cases p) auto

lemma calls_okD:
  assumes "calls_ok s" "t < length (px_tasks s)"
  shows "flight_of (tk_phase (px_tasks s ! t)) = Some f \<Longrightarrow> (tk_key (px_tasks s ! t), f) \<in> set (px_flights s)"
    and "led_by (tk_phase (px_tasks s ! t)) = Some f \<Longrightarrow> fl_holder (px_store s ! f) = Some t"
    and "led_by (tk_phase (px_tasks s ! t)) = Some f \<Longrightarrow> fl_outcome (px_store s ! f) \<noteq> None"
  using assms by (auto simp: calls_ok_def)

lemma set_phase_simps [simp]:
  "px_now (set_phase t p s) = px_now s" "px_cache (set_phase t p s) = px_cache s" "px_flights (set_phase t p s) = px_flights s"
  "px_store (set_phase t p s) = px_store s" "px_posts (set_phase t p s) = px_posts s"
  "length (px_tasks (set_phase t p s)) = length (px_tasks s)"
  "t < length (px_tasks s) \<Longrightarrow> px_tasks (set_phase t p s) ! i = (if i = t then (px_tasks s ! t)\<lparr>tk_phase := p\<rparr> else px_tasks s ! i)"
  by (simp_all add: set_phase_def nth_list_update)

lemma set_flight_simps [simp]:
  "px_now (set_flight f fl s) = px_now s" "px_flights (set_flight f fl s) = px_flights s" "px_tasks (set_flight f fl s) = px_tasks s"
  "px_posts (set_flight f fl s) = px_posts s" "length (px_store (set_flight f fl s)) = length (px_store s)"
  "f < length (px_store s) \<Longrightarrow> px_store (set_flight f fl s) ! i = (if i = f then fl else px_store s ! i)"
  by (simp_all add: set_flight_def nth_list_update)

lemma end_post_simps [simp]:
  "px_now (end_post t r s) = px_now s" "px_flights (end_post t r s) = px_flights s" "px_tasks (end_post t r s) = px_tasks s"
  "px_store (end_post t r s) = px_store s"
  by (simp_all add: end_post_def)

lemma sealed_flights: "px_flights s' = px_flights s \<Longrightarrow> px_store s' = px_store s \<Longrightarrow> sealed s' = sealed s"
  by (intro ext) (simp add: sealed_def)

text \<open>Only the phase of one call changes.\<close>

lemma inv_set_phase:
  assumes "px_inv cfg s" "t < length (px_tasks s)"
    and "\<And>f. flight_of p = Some f \<Longrightarrow> (tk_key (px_tasks s ! t), f) \<in> set (px_flights s)"
    and "\<And>f. led_by p = Some f \<Longrightarrow> fl_holder (px_store s ! f) = Some t \<and> fl_outcome (px_store s ! f) \<noteq> None"
    and "before_send (tk_phase (px_tasks s ! t)) \<or> \<not> before_send p \<and> (on_wire (tk_phase (px_tasks s ! t)) \<longrightarrow> on_wire p)"
  shows "px_inv cfg (set_phase t p s)"
proof -
  from assms(1) have r: "registry_ok s" and c: "calls_ok s"
    and p: "\<forall>q \<in> set (px_posts s). post_ok s q \<and> post_sealed cfg s q" and w: "sorted_wrt (spaced cfg) (px_posts s)"
    by (simp_all add: px_inv_def)
  have "calls_ok (set_phase t p s)" using c assms(2-4) by (auto simp: calls_ok_def)
  moreover have "post_ok (set_phase t p s) q" if "q \<in> set (px_posts s)" for q
  proof -
    have "post_ok s q" using p that by blast
    then show ?thesis using assms(2,5) by (auto simp: post_ok_def)
  qed
  moreover have "post_sealed cfg (set_phase t p s) q" if "q \<in> set (px_posts s)" for q
    using p that by (simp add: post_sealed_def sealed_flights [of "set_phase t p s" s])
  ultimately show ?thesis using r w by (simp add: px_inv_def registry_ok_def)
qed

lemma before_send_no_post:
  "px_inv cfg s \<Longrightarrow> before_send (tk_phase (px_tasks s ! t)) \<Longrightarrow> p \<in> set (px_posts s) \<Longrightarrow> po_task p \<noteq> t"
  by (auto simp: px_inv_def post_ok_def)

text \<open>A leader leaves: its flight is unlocked, and its send has ended.\<close>

lemma inv_leave:
  assumes "px_inv cfg s" "t < length (px_tasks s)" "led_by (tk_phase (px_tasks s ! t)) = Some f"
    and "flight_of p = None" "\<not> before_send p" "fl_holder fl = None"
    and "(\<exists>q \<in> set (px_posts s). po_task q = t)
      \<Longrightarrow> fl_outcome fl \<noteq> None \<and> (\<not> repeatable \<longrightarrow> fl_cancelled fl = Some (px_now s))"
  shows "px_inv cfg (end_post t repeatable (set_phase t p (set_flight f fl s)))" (is "px_inv cfg ?s")
proof -
  from assms(1) have r: "registry_ok s" and c: "calls_ok s"
    and po: "\<forall>q \<in> set (px_posts s). post_ok s q \<and> post_sealed cfg s q" and w: "sorted_wrt (spaced cfg) (px_posts s)"
    by (simp_all add: px_inv_def)
  have fr: "(tk_key (px_tasks s ! t), f) \<in> set (px_flights s)" and h: "fl_holder (px_store s ! f) = Some t"
    using calls_okD [OF c assms(2)] assms(3) led_flight by blast+
  then have fl: "f < length (px_store s)" using r by (auto simp: registry_ok_def)
  have lp: "led_by p = None" using assms(4) led_flight by (cases "led_by p") auto
  have tasks: "px_tasks ?s ! i = (if i = t then (px_tasks s ! t)\<lparr>tk_phase := p\<rparr> else px_tasks s ! i)" for i
    using assms(2) by simp
  have store: "px_store ?s ! i = (if i = f then fl else px_store s ! i)" for i using fl by simp
  have "calls_ok ?s"
    unfolding calls_ok_def
  proof (intro allI impI conjI)
    fix t' f' assume t': "t' < length (px_tasks ?s)"
    { assume "flight_of (tk_phase (px_tasks ?s ! t')) = Some f'"
      then show "(tk_key (px_tasks ?s ! t'), f') \<in> set (px_flights ?s)"
        using t' calls_okD(1) [OF c, of t' f'] assms(4) unfolding tasks by (auto split: if_splits) }
    { assume "led_by (tk_phase (px_tasks ?s ! t')) = Some f'"
      then have l: "t' \<noteq> t" "led_by (tk_phase (px_tasks s ! t')) = Some f'"
        using lp unfolding tasks by (auto split: if_splits)
      have "t' < length (px_tasks s)" using t' by simp
      note l' = calls_okD(2,3) [OF c this l(2)]
      with l(1) h have "f' \<noteq> f" by auto
      then show "fl_holder (px_store ?s ! f') = Some t'" "fl_outcome (px_store ?s ! f') \<noteq> None"
        using l' unfolding store by simp_all }
  qed
  moreover have "post_ok ?s q \<and> post_sealed cfg ?s q" if q: "q \<in> set (px_posts ?s)" for q
  proof -
    from q obtain q0 where q0: "q0 \<in> set (px_posts s)"
      and qq: "q = (if po_task q0 = t \<and> po_end q0 = None then q0\<lparr>po_end := Some (px_now s, repeatable)\<rparr> else q0)"
      by (auto simp: end_post_def)
    from po q0 have ok: "post_ok s q0" and se: "post_sealed cfg s q0" by auto
    have "post_ok ?s q"
      using ok assms(5) unfolding post_ok_def tasks qq by (auto split: if_splits)
    moreover have "post_sealed cfg ?s q"
    proof (cases "po_task q0 = t \<and> po_end q0 = None")
      case True
      have key: "po_key q0 = tk_key (px_tasks s ! t)" using ok True by (simp add: post_ok_def)
      have "fl_outcome fl \<noteq> None \<and> (\<not> repeatable \<longrightarrow> fl_cancelled fl = Some (px_now s))"
        using assms(7) q0 True by blast
      then show ?thesis using True qq fr assms(6) key fl
        by (auto simp: post_sealed_def sealed_def intro!: exI [of _ f])
    next
      case False
      then have q: "q = q0" using qq by (simp only: if_False)
      have "sealed ?s k e" if "sealed s k e" for k e
      proof -
        from that obtain f' c where f': "(k, f') \<in> set (px_flights s)" "fl_outcome (px_store s ! f') \<noteq> None"
          "fl_holder (px_store s ! f') = None" "fl_cancelled (px_store s ! f') = Some c" "e \<le> c" by (auto simp: sealed_def)
        with h have "f' \<noteq> f" by auto
        with f' show ?thesis unfolding sealed_def store by auto
      qed
      with se show ?thesis unfolding q post_sealed_def by simp
    qed
    ultimately show ?thesis by blast
  qed
  moreover have "sorted_wrt (spaced cfg) (px_posts ?s)"
    unfolding end_post_def by (simp add: sorted_wrt_map)
      (rule sorted_wrt_mono_rel [OF _ w], auto simp: spaced_def)
  ultimately show ?thesis using r by (simp add: px_inv_def registry_ok_def)
qed

text \<open>Operations that touch neither calls nor flights nor posts.\<close>

lemma inv_frame:
  assumes "px_inv cfg s" "px_flights s' = px_flights s" "px_store s' = px_store s" "px_tasks s' = px_tasks s"
    "px_posts s' = px_posts s" "px_now s \<le> px_now s'"
  shows "px_inv cfg s'"
proof -
  have "post_sealed cfg s' q" if "post_sealed cfg s q" for q
    using that assms(6) by (auto simp: post_sealed_def sealed_flights [OF assms(2,3)])
  with assms show ?thesis by (auto simp: px_inv_def registry_ok_def calls_ok_def post_ok_def)
qed

lemma inv_arrive:
  assumes "px_inv cfg s" "tk_phase call = Arriving \<or> (\<exists>o'. tk_phase call = Done o')"
  shows "px_inv cfg (s\<lparr>px_tasks := px_tasks s @ [call]\<rparr>)" (is "px_inv cfg ?s")
proof -
  have nf: "flight_of (tk_phase call) = None" "led_by (tk_phase call) = None" using assms(2) by auto
  from assms(1) have "registry_ok s" and c: "calls_ok s" and w: "sorted_wrt (spaced cfg) (px_posts s)"
    and po: "\<forall>q \<in> set (px_posts s). post_ok s q \<and> post_sealed cfg s q"
    by (simp_all add: px_inv_def)
  moreover have "calls_ok ?s" using c nf by (auto simp: calls_ok_def nth_append less_Suc_eq)
  moreover have "post_ok ?s q" if "q \<in> set (px_posts s)" for q
    using po that by (auto simp: post_ok_def nth_append)
  moreover have "post_sealed cfg ?s q" if "q \<in> set (px_posts s)" for q
    using po that by (auto simp: post_sealed_def sealed_def)
  ultimately show ?thesis by (simp add: px_inv_def registry_ok_def)
qed

lemma distinct_filter_keys: "distinct (map fst xs) \<Longrightarrow> distinct (map fst (filter p xs))"
  by (induction xs) auto

lemma inv_retain:
  assumes "px_inv cfg s"
  shows "px_inv cfg (retain_flights cfg s)" (is "px_inv cfg ?s")
proof -
  from assms have r: "registry_ok s" and c: "calls_ok s" and w: "sorted_wrt (spaced cfg) (px_posts s)"
    and po: "\<forall>q \<in> set (px_posts s). post_ok s q \<and> post_sealed cfg s q"
    by (simp_all add: px_inv_def)
  have held: "flight_kept cfg s f" if "t < length (px_tasks s)" "flight_of (tk_phase (px_tasks s ! t)) = Some f" for t f
    using that by (auto simp: flight_kept_def flight_held_def list_ex_iff intro: nth_mem)
  have "registry_ok ?s" using r by (auto simp: registry_ok_def retain_flights_def intro: distinct_filter_keys)
  moreover have "calls_ok ?s" using c held by (auto simp: calls_ok_def retain_flights_def)
  moreover have "post_ok ?s q" if "q \<in> set (px_posts s)" for q
    using po that by (simp add: post_ok_def retain_flights_def)
  moreover have "post_sealed cfg ?s q" if q: "q \<in> set (px_posts s)" for q
    unfolding post_sealed_def
  proof (intro allI impI)
    fix e assume e: "po_end q = Some (e, False) \<and> px_now ?s < e + int (cc_window cfg)"
    with po q have "sealed s (po_key q) e" by (auto simp: post_sealed_def retain_flights_def)
    then obtain f c where f: "(po_key q, f) \<in> set (px_flights s)" "fl_outcome (px_store s ! f) \<noteq> None"
      "fl_holder (px_store s ! f) = None" "fl_cancelled (px_store s ! f) = Some c" "e \<le> c" by (auto simp: sealed_def)
    then have "flight_kept cfg s f" using e by (simp add: flight_kept_def retain_flights_def)
    with f show "sealed ?s (po_key q) e" by (auto simp: sealed_def retain_flights_def)
  qed
  ultimately show ?thesis using w by (simp add: px_inv_def retain_flights_def)
qed

lemma inv_new_flight:
  assumes "px_inv cfg s" "map_of (px_flights s) key = None" "fl_holder fl = None"
  shows "px_inv cfg (s\<lparr>px_flights := px_flights s @ [(key, length (px_store s))], px_store := px_store s @ [fl], px_bytes := b\<rparr>)"
    (is "px_inv cfg ?s")
proof -
  from assms(1) have r: "registry_ok s" and c: "calls_ok s" and w: "sorted_wrt (spaced cfg) (px_posts s)"
    and po: "\<forall>q \<in> set (px_posts s). post_ok s q \<and> post_sealed cfg s q"
    by (simp_all add: px_inv_def)
  have old: "px_store ?s ! f = px_store s ! f" if "(k, f) \<in> set (px_flights s)" for k f
    using r that by (auto simp: registry_ok_def nth_append)
  have "key \<notin> fst ` set (px_flights s)" using assms(2) by (simp add: map_of_eq_None_iff)
  then have "registry_ok ?s" using r by (auto simp: registry_ok_def)
  moreover have "calls_ok ?s"
    unfolding calls_ok_def
  proof (intro allI impI conjI)
    fix t f assume t: "t < length (px_tasks ?s)"
    then have t': "t < length (px_tasks s)" by simp
    { assume "flight_of (tk_phase (px_tasks ?s ! t)) = Some f"
      then show "(tk_key (px_tasks ?s ! t), f) \<in> set (px_flights ?s)" using calls_okD(1) [OF c t'] by simp }
    { assume l: "led_by (tk_phase (px_tasks ?s ! t)) = Some f"
      then have "px_store ?s ! f = px_store s ! f" using calls_okD(1) [OF c t'] led_flight old by simp
      then show "fl_holder (px_store ?s ! f) = Some t" "fl_outcome (px_store ?s ! f) \<noteq> None"
        using l calls_okD(2,3) [OF c t'] by simp_all }
  qed
  moreover have "post_ok ?s q" if "q \<in> set (px_posts s)" for q
    using po that by (simp add: post_ok_def)
  moreover have "post_sealed cfg ?s q" if "q \<in> set (px_posts s)" for q
  proof -
    have "sealed ?s k e" if "sealed s k e" for k e
    proof -
      from that obtain f c where f: "(k, f) \<in> set (px_flights s)" "fl_outcome (px_store s ! f) \<noteq> None"
        "fl_holder (px_store s ! f) = None" "fl_cancelled (px_store s ! f) = Some c" "e \<le> c" by (auto simp: sealed_def)
      have "(k, f) \<in> set (px_flights ?s)" using f(1) by simp
      with f old [OF f(1)] show ?thesis unfolding sealed_def by metis
    qed
    with po that show ?thesis by (simp add: post_sealed_def)
  qed
  ultimately show ?thesis using w by (simp add: px_inv_def)
qed

lemma inv_join:
  assumes "px_inv cfg s0" "t < length (px_tasks s0)" "tk_phase (px_tasks s0 ! t) = Arriving"
  shows "px_inv cfg (join_flight cfg t s0)"
proof -
  define s where "s = retain_flights cfg s0"
  have i: "px_inv cfg s" unfolding s_def by (rule inv_retain [OF assms(1)])
  have t: "t < length (px_tasks s)" "tk_phase (px_tasks s ! t) = Arriving"
    using assms(2,3) by (simp_all add: s_def retain_flights_def)
  have fin: "px_inv cfg (set_phase t (Done o') s)" for o' using i t by (intro inv_set_phase) auto
  show ?thesis
  proof (cases "map_of (px_flights s) (tk_key (px_tasks s ! t))")
    case (Some f)
    then have "px_inv cfg (set_phase t (Waiting f) s)"
      using i t by (intro inv_set_phase) (auto dest: map_of_SomeD)
    with Some fin show ?thesis by (auto simp: join_flight_def Let_def simp flip: s_def)
  next
    case None
    have "px_inv cfg (set_phase t (Waiting (length (px_store s)))
        (s\<lparr>px_flights := px_flights s @ [(tk_key (px_tasks s ! t), length (px_store s))],
           px_store := px_store s @ [new_flight cfg (px_tasks s ! t) n], px_bytes := b\<rparr>))" for n b
      using inv_new_flight [OF i None] t by (intro inv_set_phase) (auto simp: new_flight_def)
    with None fin show ?thesis
      by (auto simp: join_flight_def Let_def split: option.split simp flip: s_def)
  qed
qed

lemma inv_lead:
  assumes "px_inv cfg s" "t < length (px_tasks s)" "tk_phase (px_tasks s ! t) = Waiting f"
    and "fl_holder (px_store s ! f) = None" "fl_outcome (px_store s ! f) = None"
  shows "px_inv cfg (set_phase t (Leading f) (set_flight f ((px_store s ! f)\<lparr>fl_outcome := Some m, fl_holder := Some t\<rparr>) s))"
    (is "px_inv cfg (set_phase t (Leading f) ?s)")
proof (rule inv_set_phase)
  from assms(1) have r: "registry_ok s" and c: "calls_ok s" and w: "sorted_wrt (spaced cfg) (px_posts s)"
    and po: "\<forall>q \<in> set (px_posts s). post_ok s q \<and> post_sealed cfg s q"
    by (simp_all add: px_inv_def)
  have fr: "(tk_key (px_tasks s ! t), f) \<in> set (px_flights s)" using calls_okD(1) [OF c assms(2)] assms(3) by simp
  then have fl: "f < length (px_store s)" using r by (auto simp: registry_ok_def)
  have other: "px_store ?s ! f' = px_store s ! f'" if "f' \<noteq> f" for f' using that fl by simp
  have "calls_ok ?s"
    unfolding calls_ok_def
  proof (intro allI impI conjI)
    fix t' f' assume "t' < length (px_tasks ?s)"
    then have t': "t' < length (px_tasks s)" by simp
    { assume "flight_of (tk_phase (px_tasks ?s ! t')) = Some f'"
      then show "(tk_key (px_tasks ?s ! t'), f') \<in> set (px_flights ?s)" using calls_okD(1) [OF c t'] by simp }
    { assume l: "led_by (tk_phase (px_tasks ?s ! t')) = Some f'"
      then have "fl_holder (px_store s ! f') = Some t'" using calls_okD(2) [OF c t'] by simp
      with assms(4) have "f' \<noteq> f" by auto
      then show "fl_holder (px_store ?s ! f') = Some t'" "fl_outcome (px_store ?s ! f') \<noteq> None"
        using l calls_okD(2,3) [OF c t'] other by simp_all }
  qed
  moreover have "sealed ?s k e" if "sealed s k e" for k e
  proof -
    from that obtain f' c where f': "(k, f') \<in> set (px_flights s)" "fl_outcome (px_store s ! f') \<noteq> None"
      "fl_holder (px_store s ! f') = None" "fl_cancelled (px_store s ! f') = Some c" "e \<le> c" by (auto simp: sealed_def)
    with assms(5) have "f' \<noteq> f" by auto
    from f' other [OF this] show ?thesis unfolding sealed_def by auto
  qed
  ultimately show "px_inv cfg ?s" using r w po by (simp add: px_inv_def registry_ok_def post_ok_def post_sealed_def)
  show "t < length (px_tasks ?s)" using assms(2) by simp
  show "(tk_key (px_tasks ?s ! t), f') \<in> set (px_flights ?s)" if "flight_of (Leading f) = Some f'" for f'
    using fr that by simp
  show "fl_holder (px_store ?s ! f') = Some t \<and> fl_outcome (px_store ?s ! f') \<noteq> None" if "led_by (Leading f) = Some f'" for f'
    using fl that by simp
  show "before_send (tk_phase (px_tasks ?s ! t))
      \<or> \<not> before_send (Leading f) \<and> (on_wire (tk_phase (px_tasks ?s ! t)) \<longrightarrow> on_wire (Leading f))"
    using assms(3) by simp
qed

lemma inv_lock:
  assumes "px_inv cfg s" "t < length (px_tasks s)" "tk_phase (px_tasks s ! t) = Waiting f"
  shows "px_inv cfg (take_lock cfg t f s)"
proof -
  have "px_inv cfg (set_phase t (Done o') s)" for o' using assms by (intro inv_set_phase) auto
  with inv_lead [OF assms] assms(1) show ?thesis by (simp add: take_lock_def Let_def split: option.split)
qed

text \<open>A send starts: by then every earlier one of its key has ended and, unless it may be repeated, expired.\<close>

lemma inv_post:
  assumes "px_inv cfg s" "t < length (px_tasks s)" "tk_phase (px_tasks s ! t) = Observing f"
  shows "px_inv cfg ((set_phase t (Sending f) s)\<lparr>px_posts := px_posts s
    @ [\<lparr>po_key = tk_key (px_tasks s ! t), po_task = t, po_start = px_now s, po_end = None\<rparr>]\<rparr>)"
    (is "px_inv cfg (?s\<lparr>px_posts := _ @ [?new]\<rparr>)")
proof -
  from assms(1) have r: "registry_ok s" and c: "calls_ok s"
    and po: "\<forall>q \<in> set (px_posts s). post_ok s q \<and> post_sealed cfg s q"
    by (simp_all add: px_inv_def)
  have fr: "(tk_key (px_tasks s ! t), f) \<in> set (px_flights s)" and h: "fl_holder (px_store s ! f) = Some t"
    and m: "fl_outcome (px_store s ! f) \<noteq> None"
    using calls_okD [OF c assms(2)] assms(3) by simp_all
  have i: "px_inv cfg ?s" using assms(1,2) fr h m by (intro inv_set_phase) (simp_all add: assms(3))
  have one: "f' = f" if "(tk_key (px_tasks s ! t), f') \<in> set (px_flights s)" for f'
    using r that fr by (auto simp: registry_ok_def dest: eq_key_imp_eq_value)
  have "spaced cfg q ?new" if q: "q \<in> set (px_posts s)" for q
    unfolding spaced_def
  proof
    assume key: "po_key q = po_key ?new"
    from po q have ok: "post_ok s q" and se: "post_sealed cfg s q" by auto
    have ended: "po_end q \<noteq> None"
    proof
      assume "po_end q = None"
      with ok have w: "on_wire (tk_phase (px_tasks s ! po_task q))" "po_task q < length (px_tasks s)"
        "tk_key (px_tasks s ! po_task q) = po_key q" by (simp_all add: post_ok_def)
      from on_wire_leads [OF w(1)] obtain f' where l: "led_by (tk_phase (px_tasks s ! po_task q)) = Some f'" ..
      have "(tk_key (px_tasks s ! po_task q), f') \<in> set (px_flights s)" using calls_okD(1) [OF c w(2) led_flight [OF l]] .
      then have "f' = f" using one key w(3) by simp
      moreover have "fl_holder (px_store s ! f') = Some (po_task q)" using calls_okD(2) [OF c w(2) l] .
      ultimately have "po_task q = t" using h by simp
      with w(1) assms(3) show False by simp
    qed
    then obtain e repeatable where e: "po_end q = Some (e, repeatable)" by auto
    have "e + int (cc_window cfg) \<le> px_now s" if "\<not> repeatable"
    proof (rule ccontr)
      assume "\<not> e + int (cc_window cfg) \<le> px_now s"
      with se e that have "sealed s (po_key q) e" by (simp add: post_sealed_def)
      with key one h show False by (auto simp: sealed_def)
    qed
    with e show "\<exists>e repeatable. po_end q = Some (e, repeatable)
        \<and> (repeatable \<or> e + int (cc_window cfg) \<le> po_start ?new)" by auto
  qed
  then have "sorted_wrt (spaced cfg) (px_posts s @ [?new])"
    using i by (simp add: px_inv_def sorted_wrt_append)
  moreover have "post_ok (?s\<lparr>px_posts := ps\<rparr>) ?new" "post_sealed cfg (?s\<lparr>px_posts := ps\<rparr>) ?new" for ps
    using assms(2) by (simp_all add: post_ok_def post_sealed_def)
  moreover have "post_ok (?s\<lparr>px_posts := ps\<rparr>) q = post_ok ?s q" "post_sealed cfg (?s\<lparr>px_posts := ps\<rparr>) q = post_sealed cfg ?s q" for ps q
    by (simp_all add: post_ok_def post_sealed_def sealed_def)
  ultimately show ?thesis using i by (simp add: px_inv_def registry_ok_def calls_ok_def)
qed

lemma end_post_none: "\<not> (\<exists>q \<in> set (px_posts s). po_task q = t) \<Longrightarrow> end_post t r s = s"
proof -
  assume "\<not> (\<exists>q \<in> set (px_posts s). po_task q = t)"
  then have "map (\<lambda>p. if po_task p = t \<and> po_end p = None then p\<lparr>po_end := Some (px_now s, r)\<rparr> else p) (px_posts s) = px_posts s"
    by (intro map_idI) auto
  then show ?thesis by (simp add: end_post_def)
qed

lemma inv_observe:
  assumes "px_inv cfg s" "t < length (px_tasks s)" "tk_phase (px_tasks s ! t) = Observing f"
  shows "px_inv cfg (observe ok t f s)"
proof (cases ok)
  case True
  with inv_post [OF assms] show ?thesis by (simp add: observe_def)
next
  case False
  let ?fl = "(px_store s ! f)\<lparr>fl_outcome := None, fl_holder := None\<rparr>"
  have none: "\<not> (\<exists>q \<in> set (px_posts s). po_task q = t)"
    using before_send_no_post [OF assms(1), of t] assms(3) by auto
  then have "end_post t False (set_phase t ObserverFailed (set_flight f ?fl s)) = set_phase t ObserverFailed (set_flight f ?fl s)"
    by (intro end_post_none) simp
  moreover have "px_inv cfg (end_post t False (set_phase t ObserverFailed (set_flight f ?fl s)))"
    using assms none by (intro inv_leave) simp_all
  ultimately show ?thesis using False by (simp add: observe_def)
qed

lemma remember_outcome_frame [simp]:
  "px_flights (remember_outcome cfg call o' u s) = px_flights s" "px_store (remember_outcome cfg call o' u s) = px_store s"
  "px_tasks (remember_outcome cfg call o' u s) = px_tasks s" "px_posts (remember_outcome cfg call o' u s) = px_posts s"
  "px_now (remember_outcome cfg call o' u s) = px_now s"
  by (simp_all add: remember_outcome_def)

lemma inv_complete:
  assumes "px_inv cfg s" "t < length (px_tasks s)" "tk_phase (px_tasks s ! t) = Completing f outcome uncertain"
  shows "px_inv cfg (complete cfg ok t f outcome uncertain s)"
proof (cases ok)
  case False
  have "px_inv cfg (end_post t False (set_phase t ObserverFailed (set_flight f
      (leave_marked (px_now s) ((px_store s ! f)\<lparr>fl_outcome := Some o'\<rparr>)) s)))" for o'
    using assms by (intro inv_leave) (simp_all add: leave_marked_def)
  with False show ?thesis by (simp add: complete_def)
next
  case True
  define s1 where "s1 = remember_outcome cfg (px_tasks s ! t) outcome uncertain s"
  obtain result uncertain' retained bytes where rr:
    "retain_result cfg (px_store s ! f) (as_replay (tk_opts (px_tasks s ! t)) outcome) uncertain (px_bytes s1)
       = (result, uncertain', retained, bytes)" by (metis prod_cases4)
  have u: "uncertain \<Longrightarrow> uncertain'"
    using rr by (auto simp: retain_result_def Let_def split: if_splits option.splits)
  define fl1 where "fl1 = (px_store s ! f)\<lparr>fl_outcome := Some result, fl_retained := retained, fl_holder := None\<rparr>"
  define fl2 where "fl2 = (if uncertain' \<or> is_success (fo_status outcome) then leave_marked (px_now s) fl1 else fl1)"
  have i: "px_inv cfg (s1\<lparr>px_bytes := bytes\<rparr>)"
    by (rule inv_frame [OF assms(1)]) (simp_all add: s1_def)
  have "px_inv cfg (end_post t (\<not> uncertain \<and> \<not> is_success (fo_status outcome))
      (set_phase t (Done outcome) (set_flight f fl2 (s1\<lparr>px_bytes := bytes\<rparr>))))"
  proof (rule inv_leave [OF i])
    show "t < length (px_tasks (s1\<lparr>px_bytes := bytes\<rparr>))" using assms(2) by (simp add: s1_def)
    show "led_by (tk_phase (px_tasks (s1\<lparr>px_bytes := bytes\<rparr>) ! t)) = Some f" using assms(3) by (simp add: s1_def)
    show "fl_outcome fl2 \<noteq> None \<and> (\<not> (\<not> uncertain \<and> \<not> is_success (fo_status outcome))
        \<longrightarrow> fl_cancelled fl2 = Some (px_now (s1\<lparr>px_bytes := bytes\<rparr>)))"
      using u by (auto simp: fl2_def fl1_def leave_marked_def s1_def)
  qed (simp_all add: fl2_def fl1_def leave_marked_def)
  with True rr show ?thesis
    unfolding complete_def Let_def fl1_def fl2_def s1_def by (simp split: if_splits)
qed

lemma inv_claim:
  assumes "px_inv cfg s" "t < length (px_tasks s)" "tk_phase (px_tasks s ! t) = Leading f"
  shows "px_inv cfg (claim_gates cfg gates_open t f s)"
proof -
  from assms(1) have c: "calls_ok s" by (simp add: px_inv_def)
  have "px_inv cfg (set_phase t p s)" if "flight_of p = Some f" "led_by p = Some f" for p
    using assms calls_okD [OF c assms(2)] that by (intro inv_set_phase) auto
  then show ?thesis by (simp add: claim_gates_def split: option.split)
qed

lemma inv_send_done:
  assumes "px_inv cfg s" "t < length (px_tasks s)" "tk_phase (px_tasks s ! t) = Sending f"
  shows "px_inv cfg (send_done report finalized t f s)"
proof -
  from assms(1) have c: "calls_ok s" by (simp add: px_inv_def)
  show ?thesis
    unfolding send_done_def using assms calls_okD [OF c assms(2)] by (intro inv_set_phase) auto
qed

lemma inv_drop:
  assumes "px_inv cfg s" "t < length (px_tasks s)"
  shows "px_inv cfg (drop_call t s)"
proof -
  from assms(1) have c: "calls_ok s" by (simp add: px_inv_def)
  let ?p = "tk_phase (px_tasks s ! t)"
  show ?thesis
  proof (cases "led_by ?p")
    case (Some f)
    have "fl_outcome (px_store s ! f) \<noteq> None" using calls_okD(3) [OF c assms(2) Some] .
    then have "px_inv cfg (end_post t False (set_phase t Dropped (set_flight f (leave_marked (px_now s) (px_store s ! f)) s)))"
      using assms Some by (intro inv_leave) (simp_all add: leave_marked_def)
    with Some show ?thesis by (simp add: drop_call_def)
  next
    case None
    have "px_inv cfg (set_phase t Dropped s)" if "?p = Arriving \<or> flight_of ?p \<noteq> None"
      using assms that None by (intro inv_set_phase) (auto, cases ?p, auto)
    with None assms(1) show ?thesis by (simp add: drop_call_def Let_def)
  qed
qed

lemma px_step_inv: "px_inv cfg s \<Longrightarrow> px_inv cfg (px_step cfg op s)"
proof (cases op)
  case (Arrive key fp opts)
  assume "px_inv cfg s"
  then show ?thesis unfolding Arrive px_step.simps Let_def by (intro inv_arrive) (auto split: option.split)
next
  case (Tick ms)
  assume "px_inv cfg s"
  then show ?thesis unfolding Tick px_step.simps by (rule inv_frame) simp_all
qed (auto simp: phase_at_def inv_join inv_lock inv_claim inv_observe inv_send_done inv_complete inv_drop
    split: option.split phase.split)

lemma px_run_inv: "px_inv cfg (px_run cfg ops (px_start now))"
proof -
  have "px_inv cfg s \<Longrightarrow> px_inv cfg (fold (px_step cfg) ops s)" for s
    by (induction ops arbitrary: s) (simp_all add: px_step_inv)
  moreover have "px_inv cfg (px_start now)" by (simp add: px_inv_def px_start_def registry_ok_def calls_ok_def)
  ultimately show ?thesis unfolding px_run_def .
qed

section \<open>No request is sent twice\<close>

text \<open>
  C4. However many buffered calls carry one cache key (a tenant, an upstream address, a provider and a request
  identifier), however they interleave, fail, time out or are dropped, and whatever the cache keeps: of two sends
  of the key the earlier one has ended before the later one starts, and unless it ended with an answer that is
  neither a success nor in doubt, a whole window has passed since then. Two keys are independent, so that two
  tenants may each send the same identifier; streaming calls take no part in this.
\<close>

theorem no_request_sent_twice: "sorted_wrt (spaced cfg) (px_posts (px_run cfg ops (px_start now)))"
  using px_run_inv [of cfg ops now] by (simp add: px_inv_def)

text \<open>A call that shares a flight waits for the one that leads: two calls never lead one flight or one key.\<close>

lemma one_leader:
  assumes "t < length (px_tasks s)" "t' < length (px_tasks s)" "s = px_run cfg ops (px_start now)"
    and "led_by (tk_phase (px_tasks s ! t)) = Some f" "led_by (tk_phase (px_tasks s ! t')) = Some f'"
    and "tk_key (px_tasks s ! t) = tk_key (px_tasks s ! t')"
  shows "t = t'"
proof -
  have i: "px_inv cfg s" unfolding assms(3) by (rule px_run_inv)
  then have r: "registry_ok s" and c: "calls_ok s" by (simp_all add: px_inv_def)
  have "(tk_key (px_tasks s ! t), f) \<in> set (px_flights s)" "(tk_key (px_tasks s ! t), f') \<in> set (px_flights s)"
    using calls_okD(1) [OF c] led_flight assms by metis+
  then have "f = f'" using r by (auto simp: registry_ok_def dest: eq_key_imp_eq_value)
  then show ?thesis using calls_okD(2) [OF c] assms by (metis option.inject)
qed

section \<open>A run with two sends\<close>

definition sample_flights :: cache_config where
  "sample_flights = \<lparr>cc_window = 60000, cc_max_entries = 1000, cc_max_cache_bytes = 33554432, cc_max_flight_bytes = 33554432,
     cc_entry_size = 0, cc_flight_size = 0, cc_capacity = (\<lambda>_. 0)\<rparr>"

definition sample_opts :: forward_opts where
  "sample_opts = \<lparr>op_request = Some ''r'', op_tenant = None, op_record = ''rec'', op_provider = ''p'', op_locality = Remote,
     op_privacy = AnyPrivacy, op_require_usage = False\<rparr>"

definition sample_call :: "nat \<Rightarrow> px_op list" where
  "sample_call t = [Arrive ''k'' [] sample_opts, Join t, Lock t, Claim t True, Observe t True,
     SendDone t \<lparr>sr_outcome = marker, sr_uncertain = True, sr_retry_after = None, sr_raw_auth = None\<rparr> (marker, False),
     Complete t True]"

lemmas flight_eval = px_run_def px_start_def phase_at_def task_lookup_def lookup_cached_def
  join_flight_def retain_flights_def flight_kept_def flight_held_def sample_flights_def Let_def sat_sum_def USIZE_MAX_def
  flight_base_bytes_def outcome_bytes_def reserve_flight_bytes_def set_phase_def set_flight_def new_flight_def
  take_lock_def claim_gates_def observe_def send_done_def complete_def remember_outcome_def as_replay_def
  is_success_def retain_result_def leave_marked_def end_post_def

lemma marker_simps [simp]:
  "fo_status marker = 502" "fo_content_type marker = Some JSON_TYPE" "fo_cached marker = False" "fo_origin marker = None"
  "fo_execution marker = NotExecuted" "length (fo_body marker) = 41"
  by (simp_all add: marker_def flight_failure_def flight_failure_with_execution_def failed_outcome_def)

text \<open>A send in doubt, the same request at once and then after the window: the second is answered from the flight.\<close>

lemma sample_sends:
  "map po_start (px_posts (px_run sample_flights (sample_call 0 @ sample_call 1 @ Tick 60000 # sample_call 2) (px_start 0))) = [0, 60000]"
  by (simp add: flight_eval sample_call_def numeral_2_eq_2)

end
