(* ===== verification/Spec2Isabelle.thy ===== *)
theory Spec2Isabelle
  imports Pipeline Breaker Registry Eviction Capacity Ledger_Account Event_Log Virtual_Keys Records Recommendation
    Restore Clean_Text Supervision Request Flights
begin

text \<open>
  \<^bold>\<open>iDoris: the request path and the decision, inspection, accounting, capacity, model supervision, audit and recommendation core of the gateway.\<close>

  iDoris is a gateway between applications and language models. A request carries a privacy
  class, wanted capabilities, a tenant and a virtual key; provider cards describe the models it
  may be sent to. The parts modelled here decide who may ask, what of a text may leave, where a request
  goes, whether it may be paid for, which upstream is healthy, which models fit in memory, what is recorded about a
  request and what is billed for it, and which models are recommended for a host. The request path of the
  router composes them: one function takes a chat request from its headers and body to a refusal or a backend.

  \<^bold>\<open>Parts and theories\<close> (paths under \<^verbatim>\<open>src/crates/\<close>).
  \<^item> \<^verbatim>\<open>Prelude\<close>: the result type, its bind, the generic lemmas on lists, options and association
    lists and the lemma collections every theory uses. \<^verbatim>\<open>F64\<close>: an executable model of
    \<^verbatim>\<open>f64\<close> on its bit patterns (rounding to nearest even, infinities, NaN), with lemmas that say
    when operations are exact: on naturals below two to the 53 they are integer arithmetic.
    \<^verbatim>\<open>Json\<close>: the value type of \<^verbatim>\<open>serde_json\<close> with the accessors the code calls.
  \<^item> \<^verbatim>\<open>Contracts\<close>: the wire records of \<^verbatim>\<open>idoris-contracts\<close> and their \<open>validate\<close> functions.
  \<^item> \<^verbatim>\<open>Privacy\<close>: roles, cards and privacy classes (\<^verbatim>\<open>idoris-policy/src/role.rs\<close>, \<^verbatim>\<open>card.rs\<close>,
    \<^verbatim>\<open>privacy.rs\<close>); \<^verbatim>\<open>Registry\<close>: what a set of cards must satisfy to be registered
    (\<^verbatim>\<open>registry.rs\<close>, \<^verbatim>\<open>card_validation.rs\<close>); \<^verbatim>\<open>Pipeline\<close>: the decision itself
    (\<^verbatim>\<open>pipeline/\<close>, \<^verbatim>\<open>budget.rs\<close>): privacy, role or capability, price, admission and budget
    stages, then the choice by admission rank, cost, session affinity and id.
  \<^item> Content inspection (\<^verbatim>\<open>idoris-policy/src/inspect/\<close>, \<^verbatim>\<open>idoris-contracts/src/inspect.rs\<close>):
    \<^verbatim>\<open>Unicode\<close> (UTF-8 and UTF-16), \<^verbatim>\<open>Findings\<close> (the contract, hits, runs), \<^verbatim>\<open>Views\<close> (the folded
    views of a text and their origins), \<^verbatim>\<open>Scan_Numbers\<close>, \<^verbatim>\<open>Scan_Tokens\<close> and \<^verbatim>\<open>Scan_Secrets\<close> (the
    scanners of \<^verbatim>\<open>l0.rs\<close>, \<^verbatim>\<open>tokens.rs\<close>, \<^verbatim>\<open>secrets.rs\<close>), \<^verbatim>\<open>Scan\<close> (the plain scan, one layer
    of decoding, the union of the views; the locale \<open>scanner\<close> is what the union asks of a scanner, interpreted
    for the plain and for the decoding one), \<^verbatim>\<open>Encoded\<close> (reference encoders), \<^verbatim>\<open>Matcher\<close> (the substring
    search), \<^verbatim>\<open>Inspect\<close> (the verdict, the search for a credential), \<^verbatim>\<open>Clean_Text\<close> (what a text
    that is let through cannot hold, said by the shape of the text), \<^verbatim>\<open>Redact\<close> and \<^verbatim>\<open>Restore\<close>
    (\<^verbatim>\<open>redact.rs\<close>: substitution and the incremental restorer, and that they are inverse).
  \<^item> \<^verbatim>\<open>Breaker\<close>: the circuit breaker and the book of breakers (\<^verbatim>\<open>breaker.rs\<close>).
  \<^item> \<^verbatim>\<open>Accounts\<close>: ordered maps with totals and the locale \<open>limited_account\<close>, the contract the
    two ledgers share: an account keeps its invariant and its total within its limit along every
    run of admitted operations. It is interpreted by \<^verbatim>\<open>Capacity\<close> and by \<^verbatim>\<open>Ledger_Account\<close>.
  \<^item> \<^verbatim>\<open>Eviction\<close> and \<^verbatim>\<open>Capacity\<close>: the memory side (\<^verbatim>\<open>idoris-backend/src/eviction.rs\<close>,
    \<^verbatim>\<open>global_capacity.rs\<close>, \<^verbatim>\<open>error.rs\<close>).
  \<^item> The model supervisor (\<^verbatim>\<open>idoris-backend/src/supervisor.rs\<close>, \<^verbatim>\<open>types.rs\<close>,
    \<^verbatim>\<open>adapter.rs\<close>), which loads, evicts and unloads the models of one engine: \<^verbatim>\<open>Residency\<close>
    (the slots, the engine's own aggregate, the claim on the shared memory ledger, the snapshot the
    eviction planner gets), \<^verbatim>\<open>Load_Flow\<close> (the background flow of a load: evict, confirm the release,
    load, retry after an out-of-memory answer, probe, clean up, clear the durable fence),
    \<^verbatim>\<open>Load_Protocol\<close> (a monitor of the calls that flow may make, and proof rules for it),
    \<^verbatim>\<open>Supervisor\<close> (the actor: one handler per command and per completion, and the startup),
    \<^verbatim>\<open>Supervisor_Safety\<close> (the actor with its tasks as a step relation, and its invariant) and
    \<^verbatim>\<open>Supervision\<close> (what follows for every reachable system).
  \<^item> \<^verbatim>\<open>Ledger\<close> and \<^verbatim>\<open>Ledger_Account\<close>: the tenant budget ledger
    (\<^verbatim>\<open>idoris-tenancy/src/budget/\<close>): the model of its tables and transactions, then its lemmas and
    properties.
  \<^item> \<^verbatim>\<open>Append_Only\<close>: the locale \<open>append_only\<close>, the contract of a table that only grows by rows
    with fresh identities. It is interpreted by \<^verbatim>\<open>Event_Log\<close>
    (\<^verbatim>\<open>idoris-tenancy/src/event_log/mod.rs\<close>), the audit trail of a request, and by \<^verbatim>\<open>Records\<close>
    (\<^verbatim>\<open>store.rs\<close>, \<^verbatim>\<open>usage.rs\<close>, \<^verbatim>\<open>billing.rs\<close>, \<^verbatim>\<open>billing/period.rs\<close>,
    \<^verbatim>\<open>budget/estimator.rs\<close>), the tenant records and what is billed from them.
  \<^item> \<^verbatim>\<open>Virtual_Keys\<close>: keys, their verifiers and the store that authenticates them
    (\<^verbatim>\<open>virtual_key.rs\<close>, \<^verbatim>\<open>virtual_key/store.rs\<close>).
  \<^item> The request path of the router (\<^verbatim>\<open>idoris-router/src/\<close>): \<^verbatim>\<open>Profile\<close> (the control headers,
    \<^verbatim>\<open>profile.rs\<close>), \<^verbatim>\<open>F64_Order\<close> and \<^verbatim>\<open>Quotation\<close> (prices and usage, \<^verbatim>\<open>budget.rs\<close>),
    \<^verbatim>\<open>Selection\<close> (routing rules, model bindings, the two passes over the pipeline,
    \<^verbatim>\<open>routing_policy.rs\<close>, \<^verbatim>\<open>dispatch.rs\<close>, \<^verbatim>\<open>subscription/card.rs\<close>), \<^verbatim>\<open>Auth\<close>
    (\<^verbatim>\<open>auth.rs\<close>), \<^verbatim>\<open>Body_Inspection\<close> (the inspection of a whole body, \<^verbatim>\<open>inspect.rs\<close>),
    \<^verbatim>\<open>Intent\<close> (\<^verbatim>\<open>intent/\<close>), \<^verbatim>\<open>Request_Events\<close> (the facts a request logs, \<^verbatim>\<open>lib.rs\<close>),
    \<^verbatim>\<open>Native_Request\<close> (\<^verbatim>\<open>supervisor_parameters.rs\<close>, \<^verbatim>\<open>supervisor_stream.rs\<close>) and
    \<^verbatim>\<open>Request\<close> (\<open>chat_completions\<close> of \<^verbatim>\<open>lib.rs\<close> up to the dispatch, and \<^verbatim>\<open>correlation.rs\<close>).
  \<^item> \<^verbatim>\<open>Proxy\<close> and \<^verbatim>\<open>Flights\<close> (\<^verbatim>\<open>idoris-router/src/proxy.rs\<close>): the gates, the wire payload, the
    buffered send and the response cache; then the single flight of a request identifier as a system of calls.
  \<^item> \<^verbatim>\<open>Recommender\<close>, \<^verbatim>\<open>Catalog\<close>, \<^verbatim>\<open>Probe\<close> and \<^verbatim>\<open>Recommendation\<close>: memory estimates and the types of the
    model catalogue, its parser, host facts, and the recommendation composed from them
    (\<^verbatim>\<open>idoris-recommender/src/\<close>). The locale \<open>preference\<close> is the contract of the loops that
    keep the best element so far; it is interpreted for quantisations and for resident models.

  \<^bold>\<open>State and operations.\<close> A Rust struct is a record, an enum a datatype, a \<open>Result\<close> a sum. An
  operation on \<open>&mut self\<close> is a function from the old state to its result and the new state. The
  breaker, the capacity ledger, the event log and the budget ledger are each guarded by a mutex or an
  immediate transaction in the code, so that one operation is one step and an interleaving of callers
  is a list of operations. Database tables are association lists or lists of rows in row order; a
  rolled back transaction returns the database it started from.

  \<^bold>\<open>The supervisor as a system.\<close> The actor owns its state and handles one message at a time, so a
  message is a step from the actor to the next actor and a list of effects: numbered reply channels
  that are answered, and tasks that are spawned; a panic of the actor is \<open>None\<close>. A step of the system is a
  command, the report of a running task, or the return of a chat's permit, in any order. A task ends when
  its report is handled; at most as many chats as the completion channel holds (64) may have given
  their permit back before that. The hash maps are association lists in iteration order, and a step may
  reorder them at will. The load flow runs against an engine that is a function of the
  whole history of its calls, each answered, timed out or panicking. The count of chats is a \<open>u32\<close> in the
  code; the properties of the system assume a limit on concurrent calls that leaves room for it
  (below two to the 32 less 66), which the sample run satisfies.

  \<^bold>\<open>The router.\<close> A request is one run of \<open>route_request\<close>: it reads the router's state, the request and
  what the code asks of its surroundings (clock, fresh identifiers, the detector's answer, which runtimes are
  ready), and returns a refusal or the selected card and its target, with the event log it leaves; a panic is
  \<open>None\<close>, which is proved not to occur. The breakers, the cache and the flights are read there and changed by the
  operations of the proxy. A call of the proxy is a task with a phase; what it does between two suspension points
  is one step, and a run is a list of steps of any calls, drops of their futures and passing time. The history of
  sends is kept beside the state and nothing reads it. The proxy's retry loop ends by a measure.

  \<^bold>\<open>Numbers.\<close> \<open>u32\<close>, \<open>u64\<close> and \<open>u128\<close> are words of that width, and \<open>i64\<close> is \<open>int\<close>, with every
  saturating, checked and wrapping step written out; \<open>f64\<close> is its 64 bit pattern, with the operations
  of \<^verbatim>\<open>F64\<close>, so that NaN, negative zero and infinities behave as in the code. Positions in a text are
  naturals: no scanner computes one beyond the end, which is proved. Loops over positions are functions with
  a termination proof. The only fuel is that of the failure table of \<^verbatim>\<open>Matcher\<close>, the length of the match
  so far, which every step shortens.

  \<^bold>\<open>What the lemmas show.\<close> The pipeline: privacy is never weakened, the chosen card passed every
  stage, the requested role included unless a declared and listed fallback was forced, budget rejections are true, the decision does not depend on the order of the cards, no
  panic is reachable. The registry: what it accepts. Inspection: positions stay within the text, a text that is
  let through shows no personal number and no mail address in any of its readings nor in what its tokens
  encode, no view hides what another shows, numbers that stand alone in a text within the size limit and
  what a token of one layer of base64 or hexadecimal digits, of twelve or sixteen characters at least,
  encodes are reported, a known credential is found, and a
  redacted text is restored to the original however it is cut. The breaker: one probe at a time, open windows
  never shrink, stale tickets are ignored, keys are isolated. Eviction: victims are safe, a minimal
  least-recently-used prefix. Capacity: reserved bytes never exceed a budget in bytes, nor one in gigabytes by more than the
  admission tolerance of a thousand bytes, the conversion from
  floating point gigabytes is exact up to its rounding direction. The supervisor: its actor never panics,
  one operation runs at a time and never on a model with a running chat, an operation on record is always
  being worked on, each caller is answered once, a load whose end is unknown keeps its memory and its
  slot for ever, the durable fence is cleared only when no load can still be running, a load makes a
  bounded number of calls, a refused load changes nothing, and an unsafe startup serves nothing. The budget ledger: no overspending
  along any interleaving in which no settlement waits for the lock until its hold has lapsed, exactly-once charging, idempotent replay, tenant isolation, one time zone
  per tenant, and a read view that decides the next reservation where the tenant's is the only budget. The event log: it only grows, what it accepted stays, every row was validated,
  replays are idempotent, it holds no request content, reads are scoped and complete. Keys:
  authentication is exact with respect to the history of insertions and revocations, revocation is final, an issued key works until it expires. Records: what
  was written is read, billing months fit together, totals of whole amounts are exact sums below two to the 53, the token estimate is
  conservative. The recommender: a parsed catalogue is well formed, an answer always exists, the
  resident model is the best that fits, an external allocation is never exceeded. The router: what leaves the
  machine was allowed to by the header, the key, the kill switch and the content; a request is logged
  before it is routed; it is always answered; a selection is sound and stays on the machine when it must; a
  quote covers the usage it was made for. The proxy: a buffered request identifier of one tenant, address and provider is not sent
  twice within its window,
  only the last of several attempts can have executed, and what goes off the machine does not name the caller.

  \<^bold>\<open>Parameters.\<close> The binary logarithm of the platform (whose precision Rust leaves open), the \<^verbatim>\<open>url\<close>, \<^verbatim>\<open>uuid\<close>, \<^verbatim>\<open>sha2\<close> and \<^verbatim>\<open>serde_yaml\<close> crates, the text form of
  JSON, the engine behind the \<open>RuntimeAdapter\<close> trait, what the file system answers to the durable fence, the
  \<^verbatim>\<open>chrono-tz\<close> database, clock readings and fresh identifiers are arguments of the
  definitions that use them; so are, on the request path, how a header value reads as text, how
  \<^verbatim>\<open>serde_json\<close> prints a number and serialises a body, the digest of a payload, the URL parser of
  \<^verbatim>\<open>reqwest\<close>, lower case, the sizes and capacities of the proxy's structures, and what the upstream answers. Where a property needs the round trip of a JSON text it says so as a
  hypothesis, and its witness shows an instance.

  \<^bold>\<open>Not modelled.\<close> Faults of SQLite and its files, the schema migrations and the guards that
  inspect them, the hooks the mutation tests use, serde attributes other than the keep-alive policy,
  rendered messages (errors and warnings are the data they are rendered from; the recommendation's
  trade-off text is left out), and the process and connection handling of the router and
  the upstream clients. Of the router: what follows the selection (the local dispatch with its
  reservation guard, the charging of proxied calls, the subscription relay), the streaming path of the proxy
  and the bound on its concurrent calls, the other endpoints, the audit middleware and the administration. Of the supervisor: the waiting between polls, the handle that sends the commands and
  waits for the replies, the cancellation of a chat inside the engine, the stream of its output and
  the marker file behind the durable fence (\<^verbatim>\<open>load_fence.rs\<close>).
\<close>

end
